(* ===== verification/Prelude.thy ===== *)
theory Prelude
  imports Main "HOL-Library.Word"
begin

text \<open>
  Shared ground of the development: names for the machine types of the Rust sources, the
  checked and saturating arithmetic of the standard library on them, decimal printing and
  parsing of integers, string helpers (\<^verbatim>\<open>strip_suffix\<close>, \<^verbatim>\<open>split_once\<close>), and generic list
  and association-list lemmas used by several components.

  Rust's \<^verbatim>\<open>usize\<close> values that count or index elements of an in-memory slice are modelled as
  \<^typ>\<open>nat\<close>: a slice never has more than \<^verbatim>\<open>isize::MAX\<close> elements, so none of these counters can
  wrap. Counters that are stored and compared across calls (\<^verbatim>\<open>u32\<close>, \<^verbatim>\<open>u64\<close>) are words.
  A Rust \<^verbatim>\<open>String\<close> is the list of its UTF-8 bytes, written as a \<^typ>\<open>string\<close>: HOL's \<^typ>\<open>char\<close>
  has exactly 256 values.
\<close>

type_synonym u8 = "8 word"
type_synonym u16 = "16 word"
type_synonym u32 = "32 word"
type_synonym u64 = "64 word"

named_theorems prim_defs \<open>definitions of the standard-library primitives\<close>

subsection \<open>Checked, saturating and wrapping arithmetic\<close>

definition checked_add :: "'a::len word \<Rightarrow> 'a word \<Rightarrow> 'a word option" where
  [prim_defs]: "checked_add a b = (if unat a + unat b < 2 ^ LENGTH('a) then Some (a + b) else None)"

definition checked_sub :: "'a::len word \<Rightarrow> 'a word \<Rightarrow> 'a word option" where
  [prim_defs]: "checked_sub a b = (if b \<le> a then Some (a - b) else None)"

definition saturating_add :: "'a::len word \<Rightarrow> 'a word \<Rightarrow> 'a word" where
  [prim_defs]: "saturating_add a b = (if unat a + unat b < 2 ^ LENGTH('a) then a + b else - 1)"

lemma unat_add_nowrap:
  fixes a b :: "'a::len word"
  assumes "unat a + unat b < 2 ^ LENGTH('a)"
  shows "unat (a + b) = unat a + unat b"
  using assms by (simp add: unat_word_ariths)

lemma checked_add_Some_unat: "checked_add a b = Some c \<Longrightarrow> unat c = unat a + unat b"
  by (auto simp: checked_add_def unat_add_nowrap split: if_splits)

lemma checked_add_one_less: "checked_add a 1 = Some (c::'a::len word) \<Longrightarrow> a < c"
  by (auto dest!: checked_add_Some_unat simp: word_less_nat_alt)

lemma checked_sub_Some_unat: "checked_sub a b = Some c \<Longrightarrow> unat c + unat b = unat a"
  by (auto simp: checked_sub_def word_le_nat_alt unat_sub_if' split: if_splits)

lemma saturating_add_le: "a \<le> saturating_add a (b::'a::len word)"
proof (cases "unat a + unat b < 2 ^ LENGTH('a)")
  case True
  then show ?thesis by (simp add: saturating_add_def word_le_nat_alt unat_add_nowrap)
next
  case False
  then show ?thesis by (simp add: saturating_add_def)
qed

subsection \<open>Decimal numerals\<close>

definition is_ascii_digit :: "char \<Rightarrow> bool" where
  "is_ascii_digit c \<longleftrightarrow> 48 \<le> (of_char c :: nat) \<and> (of_char c :: nat) \<le> 57"

definition digit_value :: "char \<Rightarrow> nat" where
  "digit_value c = of_char c - 48"

definition digit_char :: "nat \<Rightarrow> char" where
  "digit_char n = char_of (48 + n)"

text \<open>\<^verbatim>\<open>to_string\<close> of an unsigned integer.\<close>

fun show_nat :: "nat \<Rightarrow> string" where
  "show_nat n = (if n < 10 then [digit_char n] else show_nat (n div 10) @ [digit_char (n mod 10)])"

declare show_nat.simps [simp del]

text \<open>\<^verbatim>\<open>to_string\<close> of a signed integer.\<close>

definition show_int :: "int \<Rightarrow> string" where
  "show_int i = (if i < 0 then ''-'' @ show_nat (nat (- i)) else show_nat (nat i))"

text \<open>
  \<^verbatim>\<open>str::parse\<close> for an unsigned type with maximum \<^term>\<open>mx\<close>: an optional plus sign, then at
  least one digit, with every intermediate value checked against the maximum.
\<close>

fun parse_digits :: "nat \<Rightarrow> nat \<Rightarrow> string \<Rightarrow> nat option" where
  "parse_digits mx acc [] = Some acc"
| "parse_digits mx acc (c # cs) =
     (if is_ascii_digit c then
        let v = acc * 10 + digit_value c
        in if v \<le> mx then parse_digits mx v cs else None
      else None)"

definition parse_unsigned :: "nat \<Rightarrow> string \<Rightarrow> nat option" where
  "parse_unsigned mx s =
     (case s of
        [] \<Rightarrow> None
      | c # cs \<Rightarrow>
          if cs = [] \<and> (c = CHR ''+'' \<or> c = CHR ''-'') then None
          else if c = CHR ''+'' then parse_digits mx 0 cs
          else parse_digits mx 0 s)"

lemma of_char_digit_char: "n < 10 \<Longrightarrow> (of_char (digit_char n) :: nat) = 48 + n"
  by (simp add: digit_char_def)

lemma digit_char_digit [simp]: "n < 10 \<Longrightarrow> is_ascii_digit (digit_char n)"
  by (simp add: is_ascii_digit_def of_char_digit_char)

lemma digit_value_digit_char [simp]: "n < 10 \<Longrightarrow> digit_value (digit_char n) = n"
  by (simp add: digit_value_def of_char_digit_char)

lemma not_is_ascii_digit [simp]:
  "\<not> is_ascii_digit (CHR ''+'')" "\<not> is_ascii_digit (CHR ''-'')" "\<not> is_ascii_digit (CHR '':'')"
  by (simp_all add: is_ascii_digit_def)

lemma show_nat_nonempty [simp]: "show_nat n \<noteq> []"
  by (subst show_nat.simps) simp

lemma show_nat_digits: "c \<in> set (show_nat n) \<Longrightarrow> is_ascii_digit c"
proof (induction n rule: show_nat.induct)
  case (1 n)
  then show ?case
    by (subst (asm) show_nat.simps) (auto split: if_splits)
qed

lemma parse_digits_append:
  "parse_digits mx acc (xs @ ys) =
     (case parse_digits mx acc xs of None \<Rightarrow> None | Some v \<Rightarrow> parse_digits mx v ys)"
  by (induction xs arbitrary: acc) (auto simp: Let_def)

lemma parse_digits_show_nat: "n \<le> mx \<Longrightarrow> parse_digits mx 0 (show_nat n) = Some n"
proof (induction n rule: show_nat.induct)
  case (1 n)
  show ?case
  proof (cases "n < 10")
    case True
    with "1.prems" show ?thesis by (simp add: show_nat.simps[of n])
  next
    case False
    have "n div 10 \<le> mx" using "1.prems" by (meson div_le_dividend le_trans)
    with False "1.IH" "1.prems" show ?thesis
      by (simp add: show_nat.simps[of n] parse_digits_append)
  qed
qed

lemma hd_show_nat: "is_ascii_digit (hd (show_nat n))"
  using show_nat_digits[of "hd (show_nat n)" n] by simp

lemma parse_unsigned_show_nat [simp]:
  assumes "n \<le> mx" shows "parse_unsigned mx (show_nat n) = Some n"
proof -
  obtain c cs where s: "show_nat n = c # cs" by (cases "show_nat n") auto
  with hd_show_nat[of n] have "is_ascii_digit c" by simp
  then have "c \<noteq> CHR ''+''" "c \<noteq> CHR ''-''" by auto
  then show ?thesis
    using parse_digits_show_nat[OF assms] by (simp add: parse_unsigned_def s)
qed

lemma parse_digits_le: "parse_digits mx acc s = Some n \<Longrightarrow> acc \<le> mx \<Longrightarrow> n \<le> mx"
  by (induction s arbitrary: acc) (auto simp: Let_def split: if_splits)

lemma parse_unsigned_le:
  assumes "parse_unsigned mx s = Some n" shows "n \<le> mx"
proof -
  from assms obtain t where "parse_digits mx 0 t = Some n"
    unfolding parse_unsigned_def by (auto simp del: parse_digits.simps split: list.splits if_splits)
  then show ?thesis by (rule parse_digits_le) simp
qed

lemma show_nat_inj:
  assumes "show_nat m = show_nat n" shows "m = n"
proof -
  have "Some m = parse_digits (max m n) 0 (show_nat m)"
    by (rule parse_digits_show_nat[symmetric]) simp
  also have "\<dots> = parse_digits (max m n) 0 (show_nat n)"
    by (simp only: assms)
  also have "\<dots> = Some n"
    by (rule parse_digits_show_nat) simp
  finally show ?thesis by simp
qed

lemma length_show_nat: "n < 10 ^ k \<Longrightarrow> 0 < k \<Longrightarrow> length (show_nat n) \<le> k"
proof (induction k arbitrary: n)
  case (Suc k)
  show ?case
  proof (cases "n < 10")
    case True
    then show ?thesis by (simp add: show_nat.simps[of n])
  next
    case False
    then have "0 < k" using Suc.prems by (cases k) auto
    moreover have "n div 10 < 10 ^ k" using Suc.prems(1) by (simp add: less_mult_imp_div_less mult.commute)
    ultimately show ?thesis using Suc.IH False by (simp add: show_nat.simps[of n])
  qed
qed simp

end
