(* ===== verification/Errors.thy ===== *)
theory Errors
  imports Prelude
begin

text \<open>
  The error type of the backend, \<^verbatim>\<open>src-tauri/src/error.rs\<close>: durability stages, renderer
  categories, the \<^verbatim>\<open>Error\<close> enum itself with its \<^verbatim>\<open>Display\<close> text and source chain, the
  classification functions, the payload the renderer receives, and the accumulator
  \<^verbatim>\<open>CommittedRemoval\<close>. Errors of foreign crates are opaque: only their text and the texts of
  their own causes are kept. The platform is Unix (\<^verbatim>\<open>cfg(unix)\<close>). Logging is not modelled.
\<close>

subsection \<open>Data\<close>

datatype durability_stage =
    ArchiveCommitMarker | ArchiveReservationJournal | DatabasePgnReplacement | DirectoryInstall
  | DownloadTargetReplacement | NativeExport | OldDirectoryCleanup | OldDirectoryCleanupSync
  | PgnEdit | PgnCacheInvalidation | CollectionIndexRefresh | PgnCapabilityRebind
  | RegistryReplacement | SearchIndexReplacement | WorkspaceDirectoryCreation
  | WorkspacePgnCreation | WorkspaceRemoval | WorkspaceRename | WorkspaceSidecarCreation
  | WorkspaceSidecarReplacement | PracticePositions | PracticeReviewShard | PracticeState

fun durability_stage_fmt :: "durability_stage \<Rightarrow> string" where
  "durability_stage_fmt ArchiveCommitMarker = ''artifact commit marker, which may have committed; do not retry''"
| "durability_stage_fmt ArchiveReservationJournal = ''artifact reservation journal, which may have committed; do not install or retry''"
| "durability_stage_fmt DatabasePgnReplacement = ''database PGN replacement''"
| "durability_stage_fmt DirectoryInstall = ''directory installation''"
| "durability_stage_fmt DownloadTargetReplacement = ''download target replacement''"
| "durability_stage_fmt NativeExport = ''native export''"
| "durability_stage_fmt OldDirectoryCleanup = ''old directory cleanup''"
| "durability_stage_fmt OldDirectoryCleanupSync = ''old directory cleanup sync''"
| "durability_stage_fmt PgnEdit = ''PGN edit''"
| "durability_stage_fmt PgnCacheInvalidation = ''PGN cache invalidation after a committed edit''"
| "durability_stage_fmt CollectionIndexRefresh = ''collection index refresh after a committed PGN edit''"
| "durability_stage_fmt PgnCapabilityRebind = ''PGN file capability rebind after a committed edit''"
| "durability_stage_fmt RegistryReplacement = ''registry replacement''"
| "durability_stage_fmt SearchIndexReplacement = ''search index replacement''"
| "durability_stage_fmt WorkspaceDirectoryCreation = ''workspace directory creation''"
| "durability_stage_fmt WorkspacePgnCreation = ''workspace PGN creation''"
| "durability_stage_fmt WorkspaceRemoval = ''workspace removal''"
| "durability_stage_fmt WorkspaceRename = ''workspace rename''"
| "durability_stage_fmt WorkspaceSidecarCreation = ''workspace sidecar creation''"
| "durability_stage_fmt WorkspaceSidecarReplacement = ''workspace sidecar replacement''"
| "durability_stage_fmt PracticePositions = ''practice positions replacement''"
| "durability_stage_fmt PracticeReviewShard = ''practice review-shard replacement''"
| "durability_stage_fmt PracticeState = ''practice migration-state replacement''"

datatype error_category =
    CatIo | CatParsing | CatPlatform | CatNetwork | CatChessData | CatDatabase | CatInvalidInput
  | CatStaleGame | CatMissingResource | CatConflict | CatResourceLimit | CatAuthentication
  | CatCredential | CatCancellation | CatDurability | CatPartialRemoval
  | CatOperationAndCleanup | CatEngineTimeout | CatEnginePositionRejected | CatEngineRetired
  | CatEngineFailure | CatPermission | CatPuzzleThemesUnavailable

fun error_category_fmt :: "error_category \<Rightarrow> string" where
  "error_category_fmt CatIo = ''I/O failure''"
| "error_category_fmt CatParsing = ''parsing failure''"
| "error_category_fmt CatPlatform = ''platform failure''"
| "error_category_fmt CatNetwork = ''network failure''"
| "error_category_fmt CatChessData = ''chess data failure''"
| "error_category_fmt CatDatabase = ''database failure''"
| "error_category_fmt CatInvalidInput = ''invalid input''"
| "error_category_fmt CatStaleGame = ''stale game''"
| "error_category_fmt CatMissingResource = ''missing resource''"
| "error_category_fmt CatConflict = ''conflict''"
| "error_category_fmt CatResourceLimit = ''resource limit''"
| "error_category_fmt CatAuthentication = ''authentication failure''"
| "error_category_fmt CatCredential = ''credential failure''"
| "error_category_fmt CatCancellation = ''cancellation''"
| "error_category_fmt CatDurability = ''durability failure''"
| "error_category_fmt CatPartialRemoval = ''partial removal''"
| "error_category_fmt CatOperationAndCleanup = ''operation and cleanup failure''"
| "error_category_fmt CatEngineTimeout = ''engine timeout''"
| "error_category_fmt CatEnginePositionRejected = ''engine position rejected''"
| "error_category_fmt CatEngineRetired = ''engine retired''"
| "error_category_fmt CatEngineFailure = ''engine failure''"
| "error_category_fmt CatPermission = ''permission denied''"
| "error_category_fmt CatPuzzleThemesUnavailable = ''puzzle themes unavailable''"

text \<open>The kinds of \<^verbatim>\<open>std::io::ErrorKind\<close> the program names; the rest by their name.\<close>

datatype error_kind =
    NotFound | PermissionDenied | AlreadyExists | KindInvalidInput | InvalidData | Interrupted
  | UnexpectedEof | KindOther | KindNamed string

record io_error =
  raw_os_error :: "int option"
  io_kind :: error_kind
  io_text :: string
  io_sources :: "string list"

text \<open>An error value of a third-party crate: its \<^verbatim>\<open>Display\<close> text and those of its causes.\<close>

record foreign =
  foreign_text :: string
  foreign_sources :: "string list"

record remote_http_rejection =
  http_status :: u16
  http_authorization_sent :: bool

datatype root_failure = Changed | Missing | Unusable | Permission | TooLarge

datatype engine_failure_kind = Disconnected | ProcessExit | ProtocolFailure

record engine_exit_status =
  exit_code :: "int option"
  exit_signal :: "int option"

datatype engine_terminal_entry = InfoString string | Stderr string | Truncated

record engine_terminal_snapshot =
  failure_kind :: engine_failure_kind
  exit_status :: "engine_exit_status option"
  failure_reason :: "string option"
  terminal_entries :: "engine_terminal_entry list"

datatype error =
    Shared error
  | RootFailure error root_failure
  | Io io_error
  | Zip foreign
  | ParseInt foreign
  | Tauri foreign
  | TauriOpener foreign
  | Reqwest foreign
  | RemoteHttpRejection remote_http_rejection
  | ChessPosition foreign
  | IllegalUciMove foreign
  | ParseUciMove foreign
  | Fen foreign
  | ParseSan foreign
  | IllegalSan foreign
  | Diesel foreign
  | R2d2 foreign
  | SystemTime foreign
  | NoStdin
  | NoStdout
  | NoMovesFound
  | MissingReferenceDatabase
  | NoOpeningFound
  | NoPuzzles
  | PuzzleThemesUnavailable
  | NotDistinctPlayers
  | GameNotFound string
  | GameNotInProgress
  | NotHumanTurn
  | NotEngineTurn
  | InvalidColor string
  | EngineNotInitialized
  | EngineDisconnected
  | EngineFailure "engine_terminal_snapshot option" error "error option"
  | EngineTimeout string
  | EnginePositionRejected error
  | EngineRetired
  | AnalysisCancelled
  | InvalidInput string
  | NativeFolderSelection string foreign
  | StaleGame
  | FileTrashed
  | Conflict string
  | StaleProgressLease
  | ResourceLimit string
  | OAuthFailure string
  | CredentialFailure string
  | CredentialRecoveryRequired
  | Cancellation
  | CommittedDurabilityUncertain durability_stage
  | PartialRemoval nat error
  | OperationAndCleanup string string

type_synonym 'a result = "error + 'a"

subsection \<open>Missing entries\<close>

text \<open>\<^verbatim>\<open>libc::ENOENT\<close> is 2. A raw operating-system code is authoritative when there is one.\<close>

definition is_missing_entry_io :: "io_error \<Rightarrow> bool" where
  "is_missing_entry_io e =
     (case raw_os_error e of Some code \<Rightarrow> code = 2 | None \<Rightarrow> io_kind e = NotFound)"

definition sanitized_io_error :: "io_error \<Rightarrow> string \<Rightarrow> io_error" where
  "sanitized_io_error e text =
     \<lparr>raw_os_error = None,
      io_kind = (if is_missing_entry_io e then NotFound
              else if io_kind e = NotFound then KindOther else io_kind e),
      io_text = text, io_sources = []\<rparr>"

fun is_missing_entry :: "error \<Rightarrow> bool" where
  "is_missing_entry (Shared e) = is_missing_entry e"
| "is_missing_entry (Io e) = is_missing_entry_io e"
| "is_missing_entry _ = False"

subsection \<open>Classification\<close>

fun root_failure_of :: "error \<Rightarrow> root_failure option" where
  "root_failure_of (Shared e) = root_failure_of e"
| "root_failure_of (RootFailure _ reason) = Some reason"
| "root_failure_of _ = None"

definition with_root_failure :: "error \<Rightarrow> root_failure \<Rightarrow> error" where
  "with_root_failure e reason =
     (if root_failure_of e \<noteq> None then e else RootFailure e reason)"

fun root_failure_reason :: "error \<Rightarrow> root_failure option" where
  "root_failure_reason (Shared e) = root_failure_reason e"
| "root_failure_reason (RootFailure _ reason) = Some reason"
| "root_failure_reason (Io e) =
     (if is_missing_entry (Io e) then Some Missing
      else case io_kind e of
             NotFound \<Rightarrow> Some Missing
           | PermissionDenied \<Rightarrow> Some Permission
           | KindInvalidInput \<Rightarrow> Some Unusable
           | _ \<Rightarrow> None)"
| "root_failure_reason (InvalidInput _) = Some Unusable"
| "root_failure_reason (NativeFolderSelection _ _) = Some Unusable"
| "root_failure_reason (Conflict _) = Some Changed"
| "root_failure_reason _ = None"

definition label_root_failure :: "error \<Rightarrow> error" where
  "label_root_failure e =
     (case root_failure_reason e of
        Some reason \<Rightarrow> with_root_failure e reason
      | None \<Rightarrow> e)"

fun unlabelled :: "error \<Rightarrow> error" where
  "unlabelled (Shared e) = unlabelled e"
| "unlabelled (RootFailure e _) = unlabelled e"
| "unlabelled e = e"

fun category :: "error \<Rightarrow> error_category" where
  "category (Shared e) = category e"
| "category (RootFailure e _) = category e"
| "category (Io e) =
     (if is_missing_entry (Io e) then CatMissingResource
      else case io_kind e of PermissionDenied \<Rightarrow> CatPermission | _ \<Rightarrow> CatIo)"
| "category (Zip _) = CatParsing"
| "category (ParseInt _) = CatParsing"
| "category (Fen _) = CatParsing"
| "category (ParseUciMove _) = CatParsing"
| "category (Tauri _) = CatPlatform"
| "category (TauriOpener _) = CatPlatform"
| "category (Reqwest _) = CatNetwork"
| "category (RemoteHttpRejection detail) =
     (if http_status detail = 401 then CatAuthentication
      else if http_status detail = 403 then CatPermission
      else if http_status detail = 404 then CatMissingResource
      else CatNetwork)"
| "category (ChessPosition _) = CatChessData"
| "category (IllegalUciMove _) = CatChessData"
| "category (ParseSan _) = CatChessData"
| "category (IllegalSan _) = CatChessData"
| "category (Diesel _) = CatDatabase"
| "category (R2d2 _) = CatDatabase"
| "category (SystemTime _) = CatInvalidInput"
| "category (InvalidInput _) = CatInvalidInput"
| "category (NativeFolderSelection _ _) = CatInvalidInput"
| "category (InvalidColor _) = CatInvalidInput"
| "category StaleGame = CatStaleGame"
| "category NoStdin = CatMissingResource"
| "category NoStdout = CatMissingResource"
| "category NoMovesFound = CatMissingResource"
| "category MissingReferenceDatabase = CatMissingResource"
| "category NoOpeningFound = CatMissingResource"
| "category NoPuzzles = CatMissingResource"
| "category (GameNotFound _) = CatMissingResource"
| "category FileTrashed = CatMissingResource"
| "category EngineNotInitialized = CatMissingResource"
| "category EngineDisconnected = CatMissingResource"
| "category NotDistinctPlayers = CatConflict"
| "category GameNotInProgress = CatConflict"
| "category NotHumanTurn = CatConflict"
| "category NotEngineTurn = CatConflict"
| "category (Conflict _) = CatConflict"
| "category StaleProgressLease = CatConflict"
| "category (ResourceLimit _) = CatResourceLimit"
| "category (OAuthFailure _) = CatAuthentication"
| "category (CredentialFailure _) = CatCredential"
| "category CredentialRecoveryRequired = CatCredential"
| "category Cancellation = CatCancellation"
| "category AnalysisCancelled = CatCancellation"
| "category (CommittedDurabilityUncertain _) = CatDurability"
| "category (PartialRemoval _ _) = CatPartialRemoval"
| "category (OperationAndCleanup _ _) = CatOperationAndCleanup"
| "category (EngineTimeout _) = CatEngineTimeout"
| "category (EnginePositionRejected _) = CatEnginePositionRejected"
| "category EngineRetired = CatEngineRetired"
| "category (EngineFailure _ _ (Some _)) = CatOperationAndCleanup"
| "category (EngineFailure _ _ None) = CatEngineFailure"
| "category PuzzleThemesUnavailable = CatPuzzleThemesUnavailable"

subsection \<open>Display text, source chain and local diagnostic\<close>

definition remote_http_rejection_fmt :: "remote_http_rejection \<Rightarrow> string" where
  "remote_http_rejection_fmt r = ''Remote HTTP request rejected: status '' @ show_nat (unat (http_status r))"

text \<open>The texts of the \<^verbatim>\<open>error\<close> attributes; a transparent variant shows the inner error.\<close>

fun error_string :: "error \<Rightarrow> string" where
  "error_string (Shared e) = error_string e"
| "error_string (RootFailure e _) = error_string e"
| "error_string (Io _) = ''I/O failure''"
| "error_string (Zip _) = ''parsing failure''"
| "error_string (ParseInt f) = foreign_text f"
| "error_string (Tauri _) = ''platform failure''"
| "error_string (TauriOpener _) = ''platform failure''"
| "error_string (Reqwest _) = ''network failure''"
| "error_string (RemoteHttpRejection r) = remote_http_rejection_fmt r"
| "error_string (ChessPosition f) = foreign_text f"
| "error_string (IllegalUciMove f) = foreign_text f"
| "error_string (ParseUciMove f) = foreign_text f"
| "error_string (Fen f) = foreign_text f"
| "error_string (ParseSan f) = foreign_text f"
| "error_string (IllegalSan f) = foreign_text f"
| "error_string (Diesel _) = ''database failure''"
| "error_string (R2d2 _) = ''database failure''"
| "error_string (SystemTime f) = foreign_text f"
| "error_string NoStdin = ''No stdin''"
| "error_string NoStdout = ''No stdout''"
| "error_string NoMovesFound = ''No moves found''"
| "error_string MissingReferenceDatabase = ''Missing reference database''"
| "error_string NoOpeningFound = ''No opening found''"
| "error_string NoPuzzles = ''No puzzles''"
| "error_string PuzzleThemesUnavailable = ''Puzzle themes unavailable''"
| "error_string NotDistinctPlayers = ''Players aren'' @ CHR 0x27 # ''t the same. They have played against each other''"
| "error_string (GameNotFound s) = ''Game not found: '' @ s"
| "error_string GameNotInProgress = ''Game not in progress''"
| "error_string NotHumanTurn = ''Not human'' @ CHR 0x27 # ''s turn''"
| "error_string NotEngineTurn = ''Not engine'' @ CHR 0x27 # ''s turn''"
| "error_string (InvalidColor s) = ''Invalid color: '' @ s"
| "error_string EngineNotInitialized = ''Engine not initialized''"
| "error_string EngineDisconnected = ''Engine disconnected''"
| "error_string (EngineFailure _ _ cleanup) =
     ''Engine failed'' @ (if cleanup \<noteq> None then ''. Temporary cleanup also failed'' else [])"
| "error_string (EngineTimeout s) = ''Engine timeout: '' @ s"
| "error_string (EnginePositionRejected _) = ''Position cannot be played against an engine''"
| "error_string EngineRetired = ''Engine id is retired''"
| "error_string AnalysisCancelled = ''Analysis cancelled''"
| "error_string (InvalidInput s) = ''Invalid input: '' @ s"
| "error_string (NativeFolderSelection k _) = ''Invalid input: '' @ k"
| "error_string StaleGame = ''The game changed on disk''"
| "error_string FileTrashed = ''The file was moved to the trash''"
| "error_string (Conflict s) = ''Conflict: '' @ s"
| "error_string StaleProgressLease = ''Progress lease is stale, cleared, or expired''"
| "error_string (ResourceLimit s) = ''Resource limit: '' @ s"
| "error_string (OAuthFailure s) = ''OAuth failure: '' @ s"
| "error_string (CredentialFailure _) = ''Credential operation failed''"
| "error_string CredentialRecoveryRequired = ''Credential operation requires recovery''"
| "error_string Cancellation = ''Cancellation''"
| "error_string (CommittedDurabilityUncertain stage) =
     ''Committed but durability uncertain: '' @ durability_stage_fmt stage"
| "error_string (PartialRemoval n cause) =
     ''Partially removed: '' @ show_nat n
     @ '' entries were deleted before failing: '' @ error_category_fmt (category cause)"
| "error_string (OperationAndCleanup _ _) = ''Operation failed; temporary cleanup also failed''"

text \<open>\<^verbatim>\<open>std::error::Error::source\<close>, followed to the end: the texts of the causes in order.\<close>

fun error_sources :: "error \<Rightarrow> string list" where
  "error_sources (Shared e) = error_sources e"
| "error_sources (Io e) = io_text e # io_sources e"
| "error_sources (Zip f) = foreign_text f # foreign_sources f"
| "error_sources (ParseInt f) = foreign_sources f"
| "error_sources (Tauri f) = foreign_text f # foreign_sources f"
| "error_sources (TauriOpener f) = foreign_text f # foreign_sources f"
| "error_sources (Reqwest f) = foreign_text f # foreign_sources f"
| "error_sources (ChessPosition f) = foreign_sources f"
| "error_sources (IllegalUciMove f) = foreign_sources f"
| "error_sources (ParseUciMove f) = foreign_sources f"
| "error_sources (Fen f) = foreign_sources f"
| "error_sources (ParseSan f) = foreign_sources f"
| "error_sources (IllegalSan f) = foreign_sources f"
| "error_sources (Diesel f) = foreign_text f # foreign_sources f"
| "error_sources (R2d2 f) = foreign_text f # foreign_sources f"
| "error_sources (SystemTime f) = foreign_sources f"
| "error_sources (EngineFailure _ cause _) = error_string cause # error_sources cause"
| "error_sources (EnginePositionRejected cause) = error_string cause # error_sources cause"
| "error_sources (NativeFolderSelection _ f) = foreign_text f # foreign_sources f"
| "error_sources (PartialRemoval _ cause) = error_string cause # error_sources cause"
| "error_sources _ = []"

definition ends_with :: "'a list \<Rightarrow> 'a list \<Rightarrow> bool" where
  "ends_with s t \<longleftrightarrow> length t \<le> length s \<and> drop (length s - length t) s = t"

fun diagnostic_chain :: "string \<Rightarrow> string list \<Rightarrow> string" where
  "diagnostic_chain d [] = d"
| "diagnostic_chain d (c # cs) =
     diagnostic_chain (if ends_with d c then d else d @ '': '' @ c) cs"

fun diagnostic :: "error \<Rightarrow> string" where
  "diagnostic (EngineFailure _ cause (Some cleanup)) =
     ''primary='' @ diagnostic cause @ ''; cleanup='' @ diagnostic cleanup"
| "diagnostic (EngineFailure _ cause None) = diagnostic cause"
| "diagnostic (Shared e) = diagnostic e"
| "diagnostic (RootFailure e _) = diagnostic e"
| "diagnostic (OperationAndCleanup primary cleanup) =
     ''primary='' @ primary @ ''; cleanup='' @ cleanup"
| "diagnostic e = diagnostic_chain (error_string e) (error_sources e)"

subsection \<open>Cleanup failures, engine failures and the renderer payload\<close>

fun is_engine_failure :: "error \<Rightarrow> bool" where
  "is_engine_failure (Shared e) = is_engine_failure e"
| "is_engine_failure (RootFailure e _) = is_engine_failure e"
| "is_engine_failure (EngineFailure _ _ _) = True"
| "is_engine_failure _ = False"

fun remote_http_rejection_of :: "error \<Rightarrow> remote_http_rejection option" where
  "remote_http_rejection_of (Shared e) = remote_http_rejection_of e"
| "remote_http_rejection_of (RootFailure e _) = remote_http_rejection_of e"
| "remote_http_rejection_of (RemoteHttpRejection detail) = Some detail"
| "remote_http_rejection_of _ = None"

fun engine_failure_snapshot :: "error \<Rightarrow> engine_terminal_snapshot option" where
  "engine_failure_snapshot (Shared e) = engine_failure_snapshot e"
| "engine_failure_snapshot (RootFailure e _) = engine_failure_snapshot e"
| "engine_failure_snapshot (EngineFailure snapshot _ _) = snapshot"
| "engine_failure_snapshot _ = None"

fun with_cleanup :: "error \<Rightarrow> unit result \<Rightarrow> error" where
  "with_cleanup primary (Inr _) = primary"
| "with_cleanup (EngineFailure snapshot cause None) (Inl cleanup) =
     EngineFailure snapshot cause (Some cleanup)"
| "with_cleanup primary (Inl cleanup) =
     (if is_engine_failure primary
      then EngineFailure (engine_failure_snapshot primary) primary (Some cleanup)
      else OperationAndCleanup (diagnostic primary) (diagnostic cleanup))"

definition cancelled_search_error :: "error \<Rightarrow> bool \<Rightarrow> error" where
  "cancelled_search_error e cancelled =
     (if cancelled \<and> (e = Cancellation \<or> e = AnalysisCancelled \<or> e = EngineDisconnected)
      then Cancellation else e)"

datatype error_payload_tag = TagBackendError | TagEngineFailure

record error_payload =
  payload_tag :: error_payload_tag
  payload_category :: error_category
  payload_message :: string
  payload_root_failure :: "root_failure option"
  engine_failure :: "engine_terminal_snapshot option"
  payload_remote_http_rejection :: "remote_http_rejection option"
  name_taken :: "bool option"
  database_admission :: "bool option"
  progress_generation :: "u64 option"

definition WORKSPACE_FILE_NAME_TAKEN :: string where
  "WORKSPACE_FILE_NAME_TAKEN = ''workspace file already exists''"

definition DATABASE_OPEN_THROUGH_ANOTHER_DIRECTORY :: string where
  "DATABASE_OPEN_THROUGH_ANOTHER_DIRECTORY = ''database is open through another directory''"

definition DATABASE_OPEN_THROUGH_ANOTHER_NAME :: string where
  "DATABASE_OPEN_THROUGH_ANOTHER_NAME = ''database is open through another name''"

definition renderer_payload :: "error \<Rightarrow> error_payload" where
  "renderer_payload e =
     \<lparr>payload_tag = (if is_engine_failure e then TagEngineFailure else TagBackendError),
      payload_category = category e,
      payload_message = error_string e,
      payload_root_failure = root_failure_of e,
      engine_failure = engine_failure_snapshot e,
      payload_remote_http_rejection = remote_http_rejection_of e,
      name_taken =
        (case e of Conflict m \<Rightarrow> if m = WORKSPACE_FILE_NAME_TAKEN then Some True else None
         | _ \<Rightarrow> None),
      database_admission =
        (case e of Conflict m \<Rightarrow>
             if m = DATABASE_OPEN_THROUGH_ANOTHER_DIRECTORY \<or> m = DATABASE_OPEN_THROUGH_ANOTHER_NAME
             then Some True else None
         | _ \<Rightarrow> None),
      progress_generation = None\<rparr>"

subsection \<open>Committed removals\<close>

record committed_removal =
  removed_entries :: nat
  removal_failure :: "error option"

definition committed_removal_new :: "nat \<Rightarrow> error option \<Rightarrow> committed_removal" where
  "committed_removal_new n f = \<lparr>removed_entries = n, removal_failure = f\<rparr>"

definition add_removed_entries :: "committed_removal \<Rightarrow> nat \<Rightarrow> committed_removal" where
  "add_removed_entries r count = r\<lparr>removed_entries := removed_entries r + count\<rparr>"

definition record_removal :: "committed_removal \<Rightarrow> unit result \<Rightarrow> committed_removal" where
  "record_removal r res =
     (case res of
        Inr _ \<Rightarrow> r
      | Inl e \<Rightarrow> (case removal_failure r of Some _ \<Rightarrow> r | None \<Rightarrow> r\<lparr>removal_failure := Some e\<rparr>))"

definition finish_removal :: "committed_removal \<Rightarrow> unit result" where
  "finish_removal r =
     (case removal_failure r of
        None \<Rightarrow> Inr ()
      | Some (CommittedDurabilityUncertain stage) \<Rightarrow> Inl (CommittedDurabilityUncertain stage)
      | Some e \<Rightarrow> Inl (PartialRemoval (removed_entries r) e))"

definition into_parts :: "committed_removal \<Rightarrow> nat \<times> error option" where
  "into_parts r = (removed_entries r, removal_failure r)"

subsection \<open>What the functions guarantee\<close>

text \<open>
  Sanitising an I/O error drops the native text and the raw code; the classification as a
  missing entry and the category shown to the renderer do not change.
\<close>

theorem sanitized_io_error_classification:
  "is_missing_entry (Io (sanitized_io_error e text)) = is_missing_entry (Io e)
   \<and> category (Io (sanitized_io_error e text)) = category (Io e)
   \<and> error_sources (Io (sanitized_io_error e text)) = [text]"
  by (auto simp: sanitized_io_error_def is_missing_entry_io_def
      split: option.splits error_kind.splits)

lemma root_failure_reason_labelled: "root_failure_of e = Some r \<Longrightarrow> root_failure_reason e = Some r"
  by (induction e rule: root_failure_of.induct) auto

lemma root_failure_of_None: "root_failure_reason e = None \<Longrightarrow> root_failure_of e = None"
  using root_failure_reason_labelled by (cases "root_failure_of e") auto

lemma with_root_failure_unlabelled: "unlabelled (with_root_failure e r) = unlabelled e"
  by (simp add: with_root_failure_def)

text \<open>
  Labelling an error with the reason the chosen root failed leaves everything else the renderer
  sees of it: category, message, engine snapshot and HTTP detail. Labelling twice is labelling
  once, and a label is present exactly when the error has a reason.
\<close>

theorem label_root_failure_wire:
  "category (label_root_failure e) = category e
   \<and> error_string (label_root_failure e) = error_string e
   \<and> diagnostic (label_root_failure e) = diagnostic e
   \<and> engine_failure_snapshot (label_root_failure e) = engine_failure_snapshot e
   \<and> remote_http_rejection_of (label_root_failure e) = remote_http_rejection_of e
   \<and> unlabelled (label_root_failure e) = unlabelled e
   \<and> root_failure_of (label_root_failure e) = root_failure_reason e
   \<and> label_root_failure (label_root_failure e) = label_root_failure e"
proof (cases "root_failure_of e")
  case None
  then show ?thesis
    by (auto simp: label_root_failure_def with_root_failure_def split: option.splits)
next
  case (Some r)
  with root_failure_reason_labelled[OF Some] show ?thesis
    by (simp add: label_root_failure_def with_root_failure_def)
qed

lemma not_engine_failure_no_snapshot:
  "\<not> is_engine_failure e \<Longrightarrow> engine_failure_snapshot e = None"
  by (induction e rule: is_engine_failure.induct) auto

lemma with_cleanup_failed:
  "diagnostic (with_cleanup primary (Inl cleanup)) =
     ''primary='' @ diagnostic primary @ ''; cleanup='' @ diagnostic cleanup
   \<and> category (with_cleanup primary (Inl cleanup)) = CatOperationAndCleanup"
  by (cases "(primary, Inl cleanup :: unit result)" rule: with_cleanup.cases) auto

lemma with_cleanup_engine:
  "is_engine_failure (with_cleanup primary res) = is_engine_failure primary
   \<and> engine_failure_snapshot (with_cleanup primary res) = engine_failure_snapshot primary"
  by (cases "(primary, res)" rule: with_cleanup.cases) (auto simp: not_engine_failure_no_snapshot)

text \<open>
  A failed cleanup never hides the operation's own failure: both diagnostics are kept, the
  category says that both failed, and an engine failure keeps its terminal snapshot.
\<close>

theorem with_cleanup_keeps_primary:
  "diagnostic (with_cleanup primary (Inl cleanup)) =
     ''primary='' @ diagnostic primary @ ''; cleanup='' @ diagnostic cleanup
   \<and> category (with_cleanup primary (Inl cleanup)) = CatOperationAndCleanup
   \<and> is_engine_failure (with_cleanup primary res) = is_engine_failure primary
   \<and> engine_failure_snapshot (with_cleanup primary res) = engine_failure_snapshot primary"
  by (simp add: with_cleanup_failed with_cleanup_engine)

subsection \<open>Public text and private causes\<close>

text \<open>
  What must stay in native logs: native I/O text and codes, the text of the crates' errors behind the
  fixed messages, credential details, the two halves of a combined failure, and the causes of a
  rejected position, of an engine failure and of a partial removal. Redacting replaces each of them
  by a blank; of the cause of a partial removal the category is public, of an I/O error too, so they
  become a blank error of the same category.
\<close>

definition erased :: foreign where
  "erased = \<lparr>foreign_text = [], foreign_sources = []\<rparr>"

definition blank_io :: "error_kind \<Rightarrow> error" where
  "blank_io k = Io \<lparr>raw_os_error = None, io_kind = k, io_text = [], io_sources = []\<rparr>"

fun blank :: "error_category \<Rightarrow> error" where
  "blank CatIo = blank_io KindOther"
| "blank CatParsing = Zip erased"
| "blank CatPlatform = Tauri erased"
| "blank CatNetwork = Reqwest erased"
| "blank CatChessData = ChessPosition erased"
| "blank CatDatabase = Diesel erased"
| "blank CatInvalidInput = InvalidInput []"
| "blank CatStaleGame = StaleGame"
| "blank CatMissingResource = blank_io NotFound"
| "blank CatConflict = Conflict []"
| "blank CatResourceLimit = ResourceLimit []"
| "blank CatAuthentication = OAuthFailure []"
| "blank CatCredential = CredentialFailure []"
| "blank CatCancellation = Cancellation"
| "blank CatDurability = CommittedDurabilityUncertain NativeExport"
| "blank CatPartialRemoval = PartialRemoval 0 NoStdin"
| "blank CatOperationAndCleanup = OperationAndCleanup [] []"
| "blank CatEngineTimeout = EngineTimeout []"
| "blank CatEnginePositionRejected = EnginePositionRejected NoStdin"
| "blank CatEngineRetired = EngineRetired"
| "blank CatEngineFailure = EngineFailure None NoStdin None"
| "blank CatPermission = blank_io PermissionDenied"
| "blank CatPuzzleThemesUnavailable = PuzzleThemesUnavailable"

lemma category_blank [simp]: "category (blank c) = c"
  by (cases c) (simp_all add: blank_io_def is_missing_entry_io_def)

fun redact :: "error \<Rightarrow> error" where
  "redact (Shared e) = Shared (redact e)"
| "redact (RootFailure e r) = RootFailure (redact e) r"
| "redact (Io e) = blank (category (Io e))"
| "redact (Zip _) = Zip erased"
| "redact (Tauri _) = Tauri erased"
| "redact (TauriOpener _) = TauriOpener erased"
| "redact (Reqwest _) = Reqwest erased"
| "redact (Diesel _) = Diesel erased"
| "redact (R2d2 _) = R2d2 erased"
| "redact (NativeFolderSelection k _) = NativeFolderSelection k erased"
| "redact (EngineFailure s _ cleanup) = EngineFailure s NoStdin (map_option (\<lambda>_. NoStdin) cleanup)"
| "redact (EnginePositionRejected _) = EnginePositionRejected NoStdin"
| "redact (CredentialFailure _) = CredentialFailure []"
| "redact (PartialRemoval n cause) = PartialRemoval n (blank (category cause))"
| "redact (OperationAndCleanup _ _) = OperationAndCleanup [] []"
| "redact e = e"

lemma blank_io_category:
  obtains k where "blank (category (Io e)) = blank_io k"
  by (cases "is_missing_entry_io e"; cases "io_kind e") simp_all

lemma category_redact: "category (redact e) = category e"
proof (induction e rule: redact.induct)
  case (11 s c cleanup)
  show ?case by (cases cleanup) simp_all
qed (simp_all del: category.simps(3))

lemma error_string_redact: "error_string (redact e) = error_string e"
proof (induction e rule: redact.induct)
  case (3 e)
  obtain k where "blank (category (Io e)) = blank_io k" by (rule blank_io_category)
  then show ?case by (simp add: blank_io_def)
qed simp_all

lemma renderer_facts_redact:
  "is_engine_failure (redact e) = is_engine_failure e"
  "root_failure_of (redact e) = root_failure_of e"
  "engine_failure_snapshot (redact e) = engine_failure_snapshot e"
  "remote_http_rejection_of (redact e) = remote_http_rejection_of e"
proof (induction e rule: redact.induct)
  case (3 e)
  obtain k where "blank (category (Io e)) = blank_io k" by (rule blank_io_category)
  then show
    "is_engine_failure (redact (Io e)) = is_engine_failure (Io e)"
    "root_failure_of (redact (Io e)) = root_failure_of (Io e)"
    "engine_failure_snapshot (redact (Io e)) = engine_failure_snapshot (Io e)"
    "remote_http_rejection_of (redact (Io e)) = remote_http_rejection_of (Io e)"
    by (simp_all add: blank_io_def)
qed simp_all

lemma redact_Conflict: "redact e = Conflict m \<longleftrightarrow> e = Conflict m"
proof (cases e rule: redact.cases)
  case (3 e)
  obtain k where "blank (category (Io e)) = blank_io k" by (rule blank_io_category)
  with 3 show ?thesis by (simp add: blank_io_def)
qed auto



subsection \<open>First failure of a committed removal\<close>

fun first_error :: "unit result list \<Rightarrow> error option" where
  "first_error [] = None"
| "first_error (Inr _ # rs) = first_error rs"
| "first_error (Inl e # rs) = Some e"

lemma foldl_record_removal:
  "foldl record_removal \<lparr>removed_entries = n, removal_failure = f\<rparr> rs =
     \<lparr>removed_entries = n, removal_failure = (case f of Some e \<Rightarrow> Some e | None \<Rightarrow> first_error rs)\<rparr>"
proof (induction rs arbitrary: f)
  case (Cons r rs)
  then show ?case by (cases r; cases f) (simp_all add: record_removal_def)
qed (simp split: option.split)

text \<open>
  After any sequence of follow-up results the removal reports the first failure among them: a
  durability uncertainty as it is, anything else as a partial removal with the number of
  entries already gone, and success exactly when every result was a success.
\<close>

theorem finish_removal_first_failure:
  "finish_removal (add_removed_entries (foldl record_removal (committed_removal_new n None) rs) k) =
     (case first_error rs of
        None \<Rightarrow> Inr ()
      | Some e \<Rightarrow> Inl (if (\<exists>stage. e = CommittedDurabilityUncertain stage) then e
                       else PartialRemoval (n + k) e))"
  by (auto simp: committed_removal_new_def foldl_record_removal add_removed_entries_def
      finish_removal_def split: option.splits error.splits)

end
