(* ===== verification/Effects.thy ===== *)
theory Effects
  imports Errors
begin

text \<open>
  Effects of the Rust code: a state-and-error monad (a fallible function with mutable state and
  the question-mark operator), its weakest-precondition calculus, and the cancellation token of
  \<^verbatim>\<open>tokio_util\<close>. Another thread may cancel at any moment, so the state of a token is how many
  polls still answer no: a run of the code under \<^term>\<open>After n\<close> is a run in which the
  cancellation becomes visible at poll \<^term>\<open>n\<close>. Once visible it stays so.
\<close>

subsection \<open>State and errors\<close>

type_synonym ('s, 'a) io = "'s \<Rightarrow> 'a result \<times> 's"

definition return_io :: "'a \<Rightarrow> ('s, 'a) io" where
  "return_io x s = (Inr x, s)"

definition throw_io :: "error \<Rightarrow> ('s, 'a) io" where
  "throw_io e s = (Inl e, s)"

definition bind_io :: "('s, 'a) io \<Rightarrow> ('a \<Rightarrow> ('s, 'b) io) \<Rightarrow> ('s, 'b) io" where
  "bind_io m f s = (case m s of (Inl e, s') \<Rightarrow> (Inl e, s') | (Inr x, s') \<Rightarrow> f x s')"

text \<open>A pure fallible computation, and the raw result of an action (an inspected \<^verbatim>\<open>Result\<close>).\<close>

definition of_result :: "'a result \<Rightarrow> ('s, 'a) io" where
  "of_result r s = (r, s)"

definition attempt :: "('s, 'a) io \<Rightarrow> ('s, 'a result) io" where
  "attempt m s = (case m s of (r, s') \<Rightarrow> (Inr r, s'))"

definition ok_or :: "'a option \<Rightarrow> error \<Rightarrow> 'a result" where
  "ok_or x e = (case x of None \<Rightarrow> Inl e | Some v \<Rightarrow> Inr v)"

definition guard_io :: "bool \<Rightarrow> error \<Rightarrow> ('s, unit) io" where
  "guard_io refuse e = (if refuse then throw_io e else return_io ())"

lemma ok_or_simps [simp]: "ok_or None e = Inl e" "ok_or (Some v) e = Inr v"
  by (simp_all add: ok_or_def)

lemma io_simps [simp]:
  "return_io x s = (Inr x, s)"
  "throw_io e s = (Inl e, s)"
  "of_result r s = (r, s)"
  "guard_io refuse e s = (if refuse then (Inl e, s) else (Inr (), s))"
  by (simp_all add: return_io_def throw_io_def of_result_def guard_io_def)

lemma bind_io_cong [fundef_cong]:
  "m s = n t \<Longrightarrow> (\<And>x s'. m s = (Inr x, s') \<Longrightarrow> f x s' = g x s') \<Longrightarrow> bind_io m f s = bind_io n g t"
  by (auto simp: bind_io_def split: prod.splits sum.splits)

lemma bind_io_Inr: "m s = (Inr x, s') \<Longrightarrow> bind_io m f s = f x s'"
  by (simp add: bind_io_def)

lemma bind_io_Inl: "m s = (Inl e, s') \<Longrightarrow> bind_io m f s = (Inl e, s')"
  by (simp add: bind_io_def)

lemma bind_io_eq_Inr:
  "bind_io m f s = (Inr y, t) \<longleftrightarrow> (\<exists>x s'. m s = (Inr x, s') \<and> f x s' = (Inr y, t))"
  by (auto simp: bind_io_def split: prod.splits sum.splits)

lemma bind_io_return [simp]: "bind_io (return_io x) f = f x"
  by (rule ext) (simp add: bind_io_def)

lemma bind_io_throw [simp]: "bind_io (throw_io e) f = throw_io e"
  by (rule ext) (simp add: bind_io_def)

lemma bind_io_of_result [simp]:
  "bind_io (of_result (Inr x)) f = f x" "bind_io (of_result (Inl e)) f = throw_io e"
  by (rule ext, simp add: bind_io_def)+

lemma bind_io_assoc: "bind_io (bind_io m f) g = bind_io m (\<lambda>x. bind_io (f x) g)"
  by (rule ext) (auto simp: bind_io_def split: prod.splits sum.splits)

text \<open>A \<^verbatim>\<open>for\<close> loop whose body updates an accumulator and may fail.\<close>

fun for_io :: "('x \<Rightarrow> 'a \<Rightarrow> ('s, 'a) io) \<Rightarrow> 'x list \<Rightarrow> 'a \<Rightarrow> ('s, 'a) io" where
  "for_io f [] a = return_io a"
| "for_io f (x # xs) a = bind_io (f x a) (for_io f xs)"

lemma for_io_cong [fundef_cong]:
  "xs = ys \<Longrightarrow> a = b \<Longrightarrow> (\<And>x c. x \<in> set ys \<Longrightarrow> f x c = g x c) \<Longrightarrow> for_io f xs a = for_io g ys b"
proof (induction xs arbitrary: ys a b)
  case (Cons x xs)
  have "for_io f xs c = for_io g xs c" for c
    by (rule Cons.IH) (use Cons.prems in auto)
  moreover have "f x a = g x a" using Cons.prems by auto
  ultimately show ?case using Cons.prems by (auto simp: bind_io_def split: prod.splits sum.splits)
qed auto

lemma for_io_append: "for_io f (xs @ ys) a = bind_io (for_io f xs a) (for_io f ys)"
proof (induction xs arbitrary: a)
  case (Cons x xs)
  then have "for_io f (xs @ ys) = (\<lambda>b. bind_io (for_io f xs b) (for_io f ys))"
    by (intro ext) simp
  then show ?case by (simp add: bind_io_assoc)
qed simp

subsection \<open>Weakest preconditions\<close>

text \<open>\<^term>\<open>wp m Q E s\<close>: from \<^term>\<open>s\<close> the action ends in \<^term>\<open>Q\<close> when it succeeds and in \<^term>\<open>E\<close> when it fails.\<close>

definition wp :: "('s, 'a) io \<Rightarrow> ('a \<Rightarrow> 's \<Rightarrow> bool) \<Rightarrow> (error \<Rightarrow> 's \<Rightarrow> bool) \<Rightarrow> 's \<Rightarrow> bool" where
  "wp m Q E s = (case m s of (Inl e, s') \<Rightarrow> E e s' | (Inr x, s') \<Rightarrow> Q x s')"

named_theorems wp_rules \<open>weakest preconditions of the actions\<close>

lemma wp_return [wp_rules]: "wp (return_io x) Q E s = Q x s"
  by (simp add: wp_def)

lemma wp_throw [wp_rules]: "wp (throw_io e) Q E s = E e s"
  by (simp add: wp_def)

lemma wp_bind [wp_rules]: "wp (bind_io m f) Q E s = wp m (\<lambda>x. wp (f x) Q E) E s"
  by (auto simp: wp_def bind_io_def split: prod.splits sum.splits)

lemma wp_of_result [wp_rules]:
  "wp (of_result r) Q E s = (case r of Inl e \<Rightarrow> E e s | Inr x \<Rightarrow> Q x s)"
  by (simp add: wp_def)

lemma wp_attempt [wp_rules]:
  "wp (attempt m) Q E s = wp m (\<lambda>x. Q (Inr x)) (\<lambda>e. Q (Inl e)) s"
  by (auto simp: wp_def attempt_def split: prod.splits sum.splits)

lemma wp_guard [wp_rules]: "wp (guard_io c e) Q E s = (if c then E e s else Q () s)"
  by (simp add: wp_def)

lemma wp_mono:
  "wp m Q E s \<Longrightarrow> (\<And>x t. Q x t \<Longrightarrow> Q' x t) \<Longrightarrow> (\<And>e t. E e t \<Longrightarrow> E' e t) \<Longrightarrow> wp m Q' E' s"
  by (auto simp: wp_def split: prod.splits sum.splits)

lemma wp_conj: "wp m Q E s \<Longrightarrow> wp m Q' E' s \<Longrightarrow> wp m (\<lambda>x t. Q x t \<and> Q' x t) (\<lambda>e t. E e t \<and> E' e t) s"
  by (auto simp: wp_def split: prod.splits sum.splits)

lemma wp_Inr: "wp m Q E s \<Longrightarrow> m s = (Inr x, t) \<Longrightarrow> Q x t"
  by (simp add: wp_def)

lemma wp_Inl: "wp m Q E s \<Longrightarrow> m s = (Inl e, t) \<Longrightarrow> E e t"
  by (simp add: wp_def)

lemma wp_if [wp_rules]: "wp (if c then m else n) Q E s = (if c then wp m Q E s else wp n Q E s)"
  by simp

subsection \<open>Cancellation tokens\<close>

datatype token = Never | After nat

fun is_cancelled :: "token \<Rightarrow> bool \<times> token" where
  "is_cancelled Never = (False, Never)"
| "is_cancelled (After 0) = (True, After 0)"
| "is_cancelled (After (Suc n)) = (False, After n)"

definition check_token :: "(token, unit) io" where
  "check_token tk = (case is_cancelled tk of (c, tk') \<Rightarrow> (if c then Inl Cancellation else Inr (), tk'))"

lemma check_token_Never [simp]: "check_token Never = (Inr (), Never)"
  by (simp add: check_token_def)

lemma check_token_cases:
  "check_token tk = (Inr (), tk') \<or> check_token tk = (Inl Cancellation, tk)"
  if "tk' = snd (is_cancelled tk)"
  using that by (cases tk rule: is_cancelled.cases) (auto simp: check_token_def)

text \<open>
  A cancellable action under any token either reports \<^const>\<open>Cancellation\<close> or does what it does when
  nobody cancels.
\<close>

definition cancellable :: "(token, 'a) io \<Rightarrow> bool" where
  "cancellable m \<longleftrightarrow>
     snd (m Never) = Never \<and> (\<forall>tk. fst (m tk) = Inl Cancellation \<or> fst (m tk) = fst (m Never))"

named_theorems cancel_intros \<open>composition of cancellable actions\<close>

lemma cancellableD: "cancellable m \<Longrightarrow> fst (m tk) = Inl Cancellation \<or> fst (m tk) = fst (m Never)"
  by (simp add: cancellable_def)

lemma cancellable_pure [cancel_intros, simp]:
  "cancellable (return_io x)" "cancellable (throw_io e)" "cancellable (of_result r)"
  by (simp_all add: cancellable_def)

lemma cancellable_check [cancel_intros, simp]: "cancellable check_token"
proof -
  have "fst (check_token tk) = Inl Cancellation \<or> fst (check_token tk) = Inr ()" for tk
    using check_token_cases[OF refl, of tk] by auto
  then show ?thesis by (simp add: cancellable_def)
qed

lemma cancellable_bind [cancel_intros]:
  assumes m: "cancellable m" and f: "\<And>x tk tk'. m tk = (Inr x, tk') \<Longrightarrow> cancellable (f x)"
  shows "cancellable (bind_io m f)"
proof -
  obtain r where N: "m Never = (r, Never)"
    using m by (metis cancellable_def prod.collapse)
  have "snd (bind_io m f Never) = Never"
    using f[of Never] by (cases r) (auto simp: bind_io_def N cancellable_def)
  moreover have "fst (bind_io m f tk) = Inl Cancellation \<or> fst (bind_io m f tk) = fst (bind_io m f Never)"
    for tk
  proof (cases "m tk")
    case (Pair q tk')
    with cancellableD[OF m, of tk] N have "q = Inl Cancellation \<or> q = r" by simp
    then show ?thesis
      using Pair N f[of tk] cancellableD[of "f (projr q)" tk'] by (cases q) (auto simp: bind_io_def)
  qed
  ultimately show ?thesis by (simp add: cancellable_def)
qed

lemma cancellable_if [cancel_intros]:
  "(c \<Longrightarrow> cancellable m) \<Longrightarrow> (\<not> c \<Longrightarrow> cancellable n) \<Longrightarrow> cancellable (if c then m else n)"
  by simp

lemma cancellable_for:
  "(\<And>x a. x \<in> set xs \<Longrightarrow> cancellable (f x a)) \<Longrightarrow> cancellable (for_io f xs a)"
  by (induction xs arbitrary: a) (auto intro!: cancellable_bind)

end
