(* ===== verification/Utf8.thy ===== *)
theory Utf8
  imports Prelude
begin

text \<open>
  The parts of Rust's UTF-8 handling the program relies on: \<^verbatim>\<open>str::from_utf8\<close> (validity) and
  \<^verbatim>\<open>String::from_utf8_lossy\<close>, which keeps valid sequences and replaces each maximal broken
  prefix by U+FFFD. Text is the list of its bytes.
\<close>

type_synonym bytes = "u8 list"

definition bytes_of :: "string \<Rightarrow> bytes" where
  "bytes_of s = map (\<lambda>c. word_of_nat (of_char c)) s"

definition utf8_char_width :: "u8 \<Rightarrow> nat" where
  "utf8_char_width b =
     (if b < 0x80 then 1 else if 0xC2 \<le> b \<and> b \<le> 0xDF then 2
      else if 0xE0 \<le> b \<and> b \<le> 0xEF then 3 else if 0xF0 \<le> b \<and> b \<le> 0xF4 then 4 else 0)"

definition is_cont :: "u8 \<Rightarrow> bool" where
  "is_cont b \<longleftrightarrow> 0x80 \<le> b \<and> b \<le> 0xBF"

definition second_ok :: "u8 \<Rightarrow> u8 \<Rightarrow> bool" where
  "second_ok b c \<longleftrightarrow>
     b = 0xE0 \<and> 0xA0 \<le> c \<and> c \<le> 0xBF \<or>
     0xE1 \<le> b \<and> b \<le> 0xEC \<and> is_cont c \<or>
     b = 0xED \<and> 0x80 \<le> c \<and> c \<le> 0x9F \<or>
     0xEE \<le> b \<and> b \<le> 0xEF \<and> is_cont c \<or>
     b = 0xF0 \<and> 0x90 \<le> c \<and> c \<le> 0xBF \<or>
     0xF1 \<le> b \<and> b \<le> 0xF3 \<and> is_cont c \<or>
     b = 0xF4 \<and> 0x80 \<le> c \<and> c \<le> 0x8F"

definition safe_get :: "bytes \<Rightarrow> nat \<Rightarrow> u8" where
  "safe_get bs i = (if i < length bs then bs ! i else 0)"

text \<open>One sequence at the front: is it valid, and how many bytes does it take?\<close>

fun utf8_scan :: "bytes \<Rightarrow> bool \<times> nat" where
  "utf8_scan [] = (True, 0)"
| "utf8_scan (b # bs) =
     (let w = utf8_char_width b
      in if w = 1 then (True, 1)
         else if w = 2 then (if is_cont (safe_get bs 0) then (True, 2) else (False, 1))
         else if w = 3 then
           (if \<not> second_ok b (safe_get bs 0) then (False, 1)
            else if is_cont (safe_get bs 1) then (True, 3) else (False, 2))
         else if w = 4 then
           (if \<not> second_ok b (safe_get bs 0) then (False, 1)
            else if \<not> is_cont (safe_get bs 1) then (False, 2)
            else if is_cont (safe_get bs 2) then (True, 4) else (False, 3))
         else (False, 1))"

lemma utf8_scan_pos: "bs \<noteq> [] \<Longrightarrow> 0 < snd (utf8_scan bs)"
  by (cases bs) (auto simp: Let_def)

function utf8_valid :: "bytes \<Rightarrow> bool" where
  "utf8_valid bs =
     (bs = [] \<or> (fst (utf8_scan bs) \<and> (if bs = [] then True else utf8_valid (drop (snd (utf8_scan bs)) bs))))"
  by pat_completeness auto
termination
  by (relation "measure length") (use utf8_scan_pos in fastforce)+

function from_utf8_lossy :: "bytes \<Rightarrow> bytes" where
  "from_utf8_lossy bs =
     (if bs = [] then []
      else let n = snd (utf8_scan bs)
           in (if fst (utf8_scan bs) then take n bs else [0xEF, 0xBF, 0xBD]) @ from_utf8_lossy (drop n bs))"
  by pat_completeness auto
termination
  by (relation "measure length") (use utf8_scan_pos in fastforce)+

declare utf8_valid.simps [simp del] from_utf8_lossy.simps [simp del]

lemma utf8_valid_Nil [simp]: "utf8_valid []"
  by (simp add: utf8_valid.simps)

lemma from_utf8_lossy_Nil [simp]: "from_utf8_lossy [] = []"
  by (simp add: from_utf8_lossy.simps)

lemma from_utf8_lossy_valid: "utf8_valid bs \<Longrightarrow> from_utf8_lossy bs = bs"
proof (induction bs rule: from_utf8_lossy.induct)
  case (1 bs)
  show ?case
  proof (cases "bs = []")
    case False
    then have "fst (utf8_scan bs)" "utf8_valid (drop (snd (utf8_scan bs)) bs)"
      using "1.prems" by (simp_all add: utf8_valid.simps[of bs])
    with False "1.IH" show ?thesis by (simp add: from_utf8_lossy.simps[of bs] Let_def)
  qed simp
qed

text \<open>What the lossy conversion makes is a valid string: the replacement character is.\<close>

lemma utf8_scan_replacement [simp]: "utf8_scan (0xEF # 0xBF # 0xBD # bs) = (True, 3)"
  by (simp add: utf8_char_width_def second_ok_def is_cont_def safe_get_def)

lemma utf8_valid_ascii: "b < 0x80 \<Longrightarrow> utf8_valid (b # bs) = utf8_valid bs"
  by (simp add: utf8_valid.simps[of "b # bs"] utf8_char_width_def)

lemma utf8_scan_prefix:
  assumes "bs \<noteq> []" and "utf8_scan bs = (True, n)"
  shows "n \<le> length bs \<and> take n bs \<noteq> [] \<and> utf8_scan (take n bs @ xs) = (True, n)"
proof -
  obtain b cs where bs: "bs = b # cs" using assms(1) by (cases bs) auto
  have no0: "\<not> is_cont 0" by (simp add: is_cont_def)
  consider "utf8_char_width b = 1" "n = 1"
    | c1 cs' where "utf8_char_width b = 2" "n = 2" "cs = c1 # cs'" "is_cont c1"
    | c1 c2 cs' where "utf8_char_width b = 3" "n = 3" "cs = c1 # c2 # cs'" "second_ok b c1" "is_cont c2"
    | c1 c2 c3 cs' where "utf8_char_width b = 4" "n = 4" "cs = c1 # c2 # c3 # cs'" "second_ok b c1"
        "is_cont c2" "is_cont c3"
  proof -
    have get: "is_cont (safe_get cs i) \<Longrightarrow> i < length cs" for i
      using no0 by (auto simp: safe_get_def split: if_splits)
    show thesis
      using assms(2) get[of 0] get[of 1] get[of 2] that
      by (auto simp: bs Let_def safe_get_def neq_Nil_conv length_Suc_conv Suc_less_eq2
          numeral_2_eq_2 split: if_splits)
  qed
  then show ?thesis by cases (simp_all add: bs safe_get_def)
qed

lemma utf8_valid_lossy: "utf8_valid (from_utf8_lossy bs)"
proof (induction bs rule: from_utf8_lossy.induct)
  case (1 bs)
  show ?case
  proof (cases "bs = []")
    case False
    let ?n = "snd (utf8_scan bs)" and ?r = "from_utf8_lossy (drop (snd (utf8_scan bs)) bs)"
    have IH: "utf8_valid ?r" using "1.IH" False by simp
    show ?thesis
    proof (cases "fst (utf8_scan bs)")
      case True
      then have "utf8_scan bs = (True, ?n)" by (metis prod.collapse)
      from utf8_scan_prefix[OF False this, of ?r]
      have "utf8_valid (take ?n bs @ ?r)"
        using IH by (subst utf8_valid.simps) (auto simp: min_absorb2)
      then show ?thesis using True False by (subst from_utf8_lossy.simps) (simp add: Let_def)
    next
      case no: False
      have "utf8_valid (0xEF # 0xBF # 0xBD # ?r)"
        using IH by (subst utf8_valid.simps) (simp del: utf8_scan.simps)
      then show ?thesis using no False by (subst from_utf8_lossy.simps) (simp add: Let_def)
    qed
  qed simp
qed

lemma from_utf8_lossy_idem [simp]: "from_utf8_lossy (from_utf8_lossy bs) = from_utf8_lossy bs"
  by (rule from_utf8_lossy_valid[OF utf8_valid_lossy])

lemma utf8_valid_all_ascii: "(\<And>b. b \<in> set bs \<Longrightarrow> b < 0x80) \<Longrightarrow> utf8_valid bs"
  by (induction bs) (simp_all add: utf8_valid_ascii)

lemma bytes_of_simps [simp]:
  "bytes_of [] = []" "bytes_of (c # s) = word_of_nat (of_char c) # bytes_of s"
  "bytes_of (s @ t) = bytes_of s @ bytes_of t" "length (bytes_of s) = length s"
  by (simp_all add: bytes_of_def)

subsection \<open>Trimming\<close>

text \<open>
  The encodings of the characters \<^verbatim>\<open>char::is_whitespace\<close> accepts, and \<^verbatim>\<open>str::trim\<close> on valid text:
  in UTF-8 no encoding is a proper prefix or suffix of another one.
\<close>

definition whitespace_encodings :: "bytes list" where
  "whitespace_encodings =
     [[9], [10], [11], [12], [13], [32], [0xC2, 0x85], [0xC2, 0xA0], [0xE1, 0x9A, 0x80]]
     @ map (\<lambda>b. [0xE2, 0x80, b])
         [0x80, 0x81, 0x82, 0x83, 0x84, 0x85, 0x86, 0x87, 0x88, 0x89, 0x8A, 0xA8, 0xA9, 0xAF]
     @ [[0xE2, 0x81, 0x9F], [0xE3, 0x80, 0x80]]"

definition strip_prefix :: "bytes \<Rightarrow> bytes \<Rightarrow> bytes option" where
  "strip_prefix p bs = (if take (length p) bs = p then Some (drop (length p) bs) else None)"

fun find_strip :: "bytes list \<Rightarrow> bytes \<Rightarrow> bytes option" where
  "find_strip [] bs = None"
| "find_strip (p # ps) bs =
     (case strip_prefix p bs of Some r \<Rightarrow> Some r | None \<Rightarrow> find_strip ps bs)"

lemma find_strip_shorter:
  "find_strip ps bs = Some r \<Longrightarrow> [] \<notin> set ps \<Longrightarrow> length r < length bs"
  by (induction ps) (auto simp: strip_prefix_def split: option.splits if_splits, metis
      diff_less length_greater_0_conv take_Nil)

lemma whitespace_encodings_nonempty: "[] \<notin> set whitespace_encodings"
  by (simp add: whitespace_encodings_def)

function strip_all :: "bytes list \<Rightarrow> bytes \<Rightarrow> bytes" where
  "strip_all ps bs =
     (if [] \<in> set ps then bs
      else case find_strip ps bs of None \<Rightarrow> bs | Some r \<Rightarrow> strip_all ps r)"
  by pat_completeness auto
termination
  by (relation "measure (\<lambda>(ps, bs). length bs)") (auto dest: find_strip_shorter)

declare strip_all.simps [simp del]

definition trim_start :: "bytes \<Rightarrow> bytes" where
  "trim_start = strip_all whitespace_encodings"

definition trim_end :: "bytes \<Rightarrow> bytes" where
  "trim_end bs = rev (strip_all (map rev whitespace_encodings) (rev bs))"

definition trim :: "bytes \<Rightarrow> bytes" where
  "trim bs = trim_end (trim_start bs)"

lemma trim_Nil [simp]: "trim [] = []"
  by (simp add: trim_def trim_end_def trim_start_def strip_all.simps[of _ "[]"] whitespace_encodings_def
      strip_prefix_def)

end
