(* ===== verification/Encoding.thy ===== *)
theory Encoding
  imports Effects Utf8
begin

text \<open>
  The binary move stream of a stored game, \<^verbatim>\<open>src-tauri/src/db/encoding.rs\<close>: one byte per move
  (its index among the legal moves), markers for variations, and length-prefixed comments and
  NAGs. The chess rules come from the crate \<^verbatim>\<open>shakmaty\<close> and are a parameter. The private
  \<^verbatim>\<open>checkpoint\<close> callbacks are empty outside the tests and are left out; a cancellation argument
  of \<^verbatim>\<open>None\<close> is the token \<^term>\<open>Never\<close>. A cursor into the byte slice is the rest of the list.
\<close>

subsection \<open>The chess library\<close>

record ('pos, 'mv, 'setup, 'mode, 'perr) chess_lib =
  legal_moves :: "'pos \<Rightarrow> 'mv list"
  san_plus :: "'pos \<Rightarrow> 'mv \<Rightarrow> bytes"
  play_unchecked :: "'pos \<Rightarrow> 'mv \<Rightarrow> 'pos"
  castling_mode_detect :: "'setup \<Rightarrow> 'mode"
  from_setup :: "'setup \<Rightarrow> 'mode \<Rightarrow> 'perr + 'pos"
  ignore_too_much_material :: "'perr \<Rightarrow> 'perr + 'pos"
  ignore_invalid_castling_rights :: "'perr \<Rightarrow> 'perr + 'pos"
  position_error :: "'perr \<Rightarrow> foreign"
  fen_to_string :: "'setup \<Rightarrow> bytes"

definition or_else :: "'e + 'a \<Rightarrow> ('e \<Rightarrow> 'e + 'a) \<Rightarrow> 'e + 'a" where
  "or_else r f = (case r of Inl e \<Rightarrow> f e | Inr x \<Rightarrow> Inr x)"

definition database_setup_to_chess ::
  "('pos, 'mv, 'setup, 'mode, 'perr) chess_lib \<Rightarrow> 'setup \<Rightarrow> 'pos result" where
  "database_setup_to_chess L setup =
     (let castling_mode = castling_mode_detect L setup
      in case or_else (or_else (from_setup L setup castling_mode) (ignore_too_much_material L))
                (ignore_invalid_castling_rights L) of
           Inl e \<Rightarrow> Inl (ChessPosition (position_error L e))
         | Inr position \<Rightarrow> Inr position)"

subsection \<open>Markers and errors\<close>

definition VARIATION_START_MARKER :: u8 where "VARIATION_START_MARKER = 255"
definition VARIATION_END_MARKER :: u8 where "VARIATION_END_MARKER = 254"
definition COMMENT_MARKER :: u8 where "COMMENT_MARKER = 253"
definition NAG_MARKER :: u8 where "NAG_MARKER = 252"
definition ANNOTATION_CHECKPOINT_BYTES :: nat where "ANNOTATION_CHECKPOINT_BYTES = 4 * 1024"

definition U16_MAX :: nat where "U16_MAX = 65535"

lemmas marker_defs = VARIATION_START_MARKER_def VARIATION_END_MARKER_def COMMENT_MARKER_def
  NAG_MARKER_def

definition invalid_data :: "string \<Rightarrow> error" where
  "invalid_data m = Io \<lparr>raw_os_error = None, io_kind = InvalidData, io_text = m, io_sources = []\<rparr>"

subsection \<open>Moves\<close>

fun position_of :: "'a list \<Rightarrow> 'a \<Rightarrow> nat option" where
  "position_of [] x = None"
| "position_of (y # ys) x = (if y = x then Some 0 else map_option Suc (position_of ys x))"

definition encode_move ::
  "('pos, 'mv, 'setup, 'mode, 'perr) chess_lib \<Rightarrow> 'mv \<Rightarrow> 'pos \<Rightarrow> u8 result" where
  "encode_move L m chess =
     (case position_of (legal_moves L chess) m of
        None \<Rightarrow> Inl (invalid_data ''Move is not legal in the given position'')
      | Some index \<Rightarrow>
          if 256 \<le> index then Inl (invalid_data ''Legal move index overflowed u8'')
          else let encoded = word_of_nat index :: u8
               in if NAG_MARKER \<le> encoded
                  then Inl (invalid_data ''Legal move index collides with an encoding marker'')
                  else Inr encoded)"

definition decode_move ::
  "('pos, 'mv, 'setup, 'mode, 'perr) chess_lib \<Rightarrow> u8 \<Rightarrow> 'pos \<Rightarrow> 'mv option" where
  "decode_move L byte chess =
     (let moves = legal_moves L chess
      in if unat byte < length moves then Some (moves ! unat byte) else None)"

subsection \<open>Annotations\<close>

definition u16_le :: "u8 \<Rightarrow> u8 \<Rightarrow> nat" where
  "u16_le a b = unat a + 256 * unat b"

definition to_le_bytes :: "nat \<Rightarrow> u8 list" where
  "to_le_bytes n = [word_of_nat (n mod 256), word_of_nat (n div 256 mod 256)]"

text \<open>\<^verbatim>\<open>slice::chunks\<close>: pieces of the given size, the last one shorter.\<close>

function chunks :: "nat \<Rightarrow> 'a list \<Rightarrow> 'a list list" where
  "chunks n xs = (if xs = [] \<or> n = 0 then [] else take n xs # chunks n (drop n xs))"
  by pat_completeness auto
termination by (relation "measure (\<lambda>(n, xs). length xs)") auto

declare chunks.simps [simp del]

definition encode_comment :: "bytes \<Rightarrow> u8 list \<Rightarrow> u8 list" where
  "encode_comment comment output =
     output
     @ concat (map (\<lambda>chunk. COMMENT_MARKER # to_le_bytes (length chunk) @ chunk) (chunks U16_MAX comment))
     @ (if length comment mod U16_MAX = 0 then [COMMENT_MARKER, 0, 0] else [])"

definition encode_nag :: "bytes \<Rightarrow> u8 list \<Rightarrow> u8 list" where
  "encode_nag nag output =
     output
     @ concat (map (\<lambda>chunk. NAG_MARKER # to_le_bytes (length chunk) @ chunk) (chunks U16_MAX nag))"

subsection \<open>The mainline iterator\<close>

record mainline_iter =
  rest_bytes :: "u8 list"
  variation_depth :: nat

definition skip_annotation :: "mainline_iter \<Rightarrow> mainline_iter option" where
  "skip_annotation it =
     (case rest_bytes it of
        a # b # bs \<Rightarrow> Some (it\<lparr>rest_bytes := drop (u16_le a b) bs\<rparr>)
      | _ \<Rightarrow> None)"

lemma skip_annotation_shorter:
  "skip_annotation it = Some it' \<Longrightarrow> length (rest_bytes it') < length (rest_bytes it)"
  by (auto simp: skip_annotation_def split: list.splits)

text \<open>
  \<^verbatim>\<open>next\<close>: the byte of the next move at depth 0, with the iterator after it; \<^term>\<open>None\<close> at the
  end or at a truncated annotation.
\<close>

function mainline_next :: "mainline_iter \<Rightarrow> (u8 \<times> mainline_iter) option" where
  "mainline_next it =
     (case rest_bytes it of
        [] \<Rightarrow> None
      | byte # bs \<Rightarrow>
          let it = it\<lparr>rest_bytes := bs\<rparr>
          in if byte = VARIATION_START_MARKER
             then mainline_next (it\<lparr>variation_depth := variation_depth it + 1\<rparr>)
             else if byte = VARIATION_END_MARKER
             then mainline_next (it\<lparr>variation_depth := variation_depth it - 1\<rparr>)
             else if byte = COMMENT_MARKER \<or> byte = NAG_MARKER
             then (case skip_annotation it of None \<Rightarrow> None | Some it' \<Rightarrow> mainline_next it')
             else if variation_depth it = 0 then Some (byte, it)
             else mainline_next it)"
  by pat_completeness auto
termination
proof (relation "measure (\<lambda>it. length (rest_bytes it))")
  fix it it' :: mainline_iter and byte bs x
  assume "rest_bytes it = byte # bs" "x = it\<lparr>rest_bytes := bs\<rparr>" "skip_annotation x = Some it'"
  then show "(it', it) \<in> measure (\<lambda>it. length (rest_bytes it))"
    using skip_annotation_shorter[of x it'] by simp
qed auto

declare mainline_next.simps [simp del]

lemma mainline_next_shorter:
  "mainline_next it = Some (b, it') \<Longrightarrow> length (rest_bytes it') < length (rest_bytes it)"
proof (induction it rule: mainline_next.induct)
  case (1 it)
  show ?case
  proof (cases "rest_bytes it")
    case Nil
    with "1.prems" show ?thesis by (simp add: mainline_next.simps[of it])
  next
    case (Cons byte bs)
    let ?it = "it\<lparr>rest_bytes := bs\<rparr>"
    note IH = "1.IH"[OF Cons refl]
    have len: "length bs < length (rest_bytes it)" using Cons by simp
    show ?thesis
      using "1.prems" IH len skip_annotation_shorter[of ?it]
      by (auto simp: mainline_next.simps[of it] Cons Let_def split: if_splits option.splits
          dest: order.strict_trans)
  qed
qed

text \<open>The bytes a \<^verbatim>\<open>for\<close> loop over the iterator sees.\<close>

function mainline_collect :: "mainline_iter \<Rightarrow> u8 list" where
  "mainline_collect it =
     (case mainline_next it of None \<Rightarrow> [] | Some (b, it') \<Rightarrow> b # mainline_collect it')"
  by pat_completeness auto
termination
  by (relation "measure (\<lambda>it. length (rest_bytes it))") (auto dest: mainline_next_shorter)

declare mainline_collect.simps [simp del]

definition mainline_new :: "u8 list \<Rightarrow> mainline_iter" where
  "mainline_new bytes = \<lparr>rest_bytes = bytes, variation_depth = 0\<rparr>"

definition iter_mainline_move_bytes :: "u8 list \<Rightarrow> u8 list" where
  "iter_mainline_move_bytes bytes = mainline_collect (mainline_new bytes)"

subsection \<open>Structural validation\<close>

text \<open>The cancellation polls over one payload: one per started block of 4096 bytes.\<close>

function payload_polls :: "nat \<Rightarrow> (token, unit) io" where
  "payload_polls remaining =
     (if remaining = 0 then return_io ()
      else bind_io check_token (\<lambda>_. payload_polls (remaining - ANNOTATION_CHECKPOINT_BYTES)))"
  by pat_completeness auto
termination by (relation "measure id") (auto simp: ANNOTATION_CHECKPOINT_BYTES_def)

declare payload_polls.simps [simp del]

text \<open>One turn of the validation loop after its poll: the marker byte has been read.\<close>

definition validate_step :: "u8 \<Rightarrow> u8 list \<Rightarrow> nat \<Rightarrow> (token, u8 list \<times> nat) io" where
  "validate_step marker rest depth =
     (if marker = VARIATION_START_MARKER then return_io (rest, depth + 1)
      else if marker = VARIATION_END_MARKER then
        (if depth = 0 then throw_io (invalid_data ''variation ended without a matching start'')
         else return_io (rest, depth - 1))
      else if marker = COMMENT_MARKER \<or> marker = NAG_MARKER then
        (case rest of
           a # b # body \<Rightarrow>
             let len = u16_le a b
             in if length body < len
                then throw_io (invalid_data ''truncated comment or NAG payload'')
                else bind_io (payload_polls len) (\<lambda>_. return_io (drop len body, depth))
         | _ \<Rightarrow> throw_io (invalid_data ''truncated comment or NAG length''))
      else return_io (rest, depth))"

lemma validate_step_shorter:
  "validate_step marker rest depth tk = (Inr (rest', depth'), tk') \<Longrightarrow> length rest' \<le> length rest"
  by (auto simp: validate_step_def bind_io_eq_Inr Let_def split: if_splits list.splits)

function validate_loop :: "u8 list \<Rightarrow> nat \<Rightarrow> token \<Rightarrow> nat result \<times> token" where
  "validate_loop bytes depth tk =
     (case bytes of
        [] \<Rightarrow> (Inr depth, tk)
      | marker # rest \<Rightarrow>
          bind_io check_token (\<lambda>_.
            bind_io (validate_step marker rest depth) (\<lambda>(rest, depth). validate_loop rest depth)) tk)"
  by pat_completeness auto
termination
  by (relation "measure (\<lambda>(bytes, _, _). length bytes)") (auto dest!: validate_step_shorter)

declare validate_loop.simps [simp del]

definition validate_mainline_move_bytes :: "u8 list \<Rightarrow> (token, unit) io" where
  "validate_mainline_move_bytes bytes =
     bind_io (validate_loop bytes 0) (\<lambda>depth.
       if depth \<noteq> 0 then throw_io (invalid_data ''unclosed variation'') else check_token)"

definition try_iter_mainline_move_bytes :: "u8 list \<Rightarrow> mainline_iter result" where
  "try_iter_mainline_move_bytes bytes =
     fst (bind_io (validate_mainline_move_bytes bytes) (\<lambda>_. return_io (mainline_new bytes)) Never)"

definition try_iter_mainline_move_bytes_cancellable :: "u8 list \<Rightarrow> (token, mainline_iter) io" where
  "try_iter_mainline_move_bytes_cancellable bytes =
     bind_io (validate_mainline_move_bytes bytes) (\<lambda>_. return_io (mainline_new bytes))"

subsection \<open>Decoding a game tree\<close>

datatype decoded_game_node =
    NodeMove bytes
  | NodeNag bytes
  | NodeComment bytes
  | NodeVariation "decoded_game_node list"

record decoded_game =
  game_nodes :: "decoded_game_node list"

text \<open>A frame of the decoder. Its stack of earlier positions and the stack of frames have the top first.\<close>

record 'pos decode_frame =
  frame_nodes :: "decoded_game_node list"
  frame_chess :: 'pos
  frame_pre_moves :: "'pos list"

definition cancellation_check :: "(token, unit) io" where
  "cancellation_check = check_token"

definition push_node :: "decoded_game_node \<Rightarrow> 'pos decode_frame list \<Rightarrow> 'pos decode_frame list" where
  "push_node node stack =
     (case stack of
        [] \<Rightarrow> []
      | frame # below \<Rightarrow> frame\<lparr>frame_nodes := frame_nodes frame @ [node]\<rparr> # below)"

text \<open>
  One turn of the chunk loop of a comment: the payload so far and the bytes after the chunk. A
  full chunk followed by another comment marker continues the same comment (the flag).
\<close>

definition comment_chunk :: "bytes \<Rightarrow> u8 list \<Rightarrow> (token, bytes \<times> u8 list \<times> bool) io" where
  "comment_chunk payload bytes =
     (case bytes of
        a # b # body \<Rightarrow>
          let len = u16_le a b
          in if length body < len then throw_io (invalid_data ''Truncated comment payload'')
             else bind_io cancellation_check (\<lambda>_.
               let payload = payload @ take len body; after = drop len body
               in bind_io cancellation_check (\<lambda>_.
                    if len \<noteq> U16_MAX \<or> after = [] \<or> hd after \<noteq> COMMENT_MARKER
                    then return_io (payload, after, False)
                    else return_io (payload, tl after, True)))
      | _ \<Rightarrow> throw_io (invalid_data ''Truncated comment length marker''))"

lemma comment_chunk_shorter:
  "comment_chunk payload bytes tk = (Inr (p, after, again), tk') \<Longrightarrow> length after < length bytes"
  by (auto simp: comment_chunk_def bind_io_eq_Inr Let_def split: list.splits if_splits)

function comment_payload :: "bytes \<Rightarrow> u8 list \<Rightarrow> token \<Rightarrow> (bytes \<times> u8 list) result \<times> token" where
  "comment_payload payload bytes tk =
     bind_io (comment_chunk payload bytes)
       (\<lambda>(payload, after, again).
          if again then comment_payload payload after else return_io (payload, after)) tk"
  by pat_completeness auto
termination
  by (relation "measure (\<lambda>(_, bytes, _). length bytes)") (auto dest: comment_chunk_shorter)

declare comment_payload.simps [simp del]

lemma comment_payload_shorter:
  "comment_payload payload bytes tk = (Inr (p, rest), tk') \<Longrightarrow> length rest < length bytes"
proof (induction payload bytes tk rule: comment_payload.induct)
  case (1 payload bytes tk)
  then show ?case
    by (subst (asm) comment_payload.simps)
       (fastforce simp: bind_io_eq_Inr split: if_splits dest: comment_chunk_shorter)
qed

text \<open>One turn of the decoder's main loop: the marker byte has been read.\<close>

definition decode_step ::
  "('pos, 'mv, 'setup, 'mode, 'perr) chess_lib \<Rightarrow> u8 \<Rightarrow> u8 list \<Rightarrow> 'pos decode_frame list
   \<Rightarrow> (token, u8 list \<times> 'pos decode_frame list) io" where
  "decode_step L byte rest stack =
     (if byte = VARIATION_START_MARKER then
        (case stack of
           [] \<Rightarrow> throw_io (invalid_data ''Missing parent frame while opening variation'')
         | frame # _ \<Rightarrow>
             let parent_position =
               (case frame_pre_moves frame of p # _ \<Rightarrow> p | [] \<Rightarrow> frame_chess frame)
             in return_io (rest, \<lparr>frame_nodes = [], frame_chess = parent_position,
                                   frame_pre_moves = []\<rparr> # stack))
      else if byte = VARIATION_END_MARKER then
        (if length stack = 1 then throw_io (invalid_data ''Unbalanced variation end marker'')
         else case stack of
                [] \<Rightarrow> throw_io (invalid_data ''Missing variation frame while closing variation'')
              | frame # below \<Rightarrow>
                  return_io (rest, push_node (NodeVariation (frame_nodes frame)) below))
      else if byte = COMMENT_MARKER then
        bind_io (comment_payload [] rest) (\<lambda>(payload, rest).
          bind_io cancellation_check (\<lambda>_.
            let comment = from_utf8_lossy payload
            in bind_io cancellation_check (\<lambda>_.
                 return_io (rest, push_node (NodeComment comment) stack))))
      else if byte = NAG_MARKER then
        (case rest of
           a # b # body \<Rightarrow>
             let len = u16_le a b
             in if length body < len then throw_io (invalid_data ''Truncated NAG payload'')
                else bind_io cancellation_check (\<lambda>_.
                  let nag = from_utf8_lossy (take len body)
                  in bind_io cancellation_check (\<lambda>_.
                       return_io (drop len body, push_node (NodeNag nag) stack)))
         | _ \<Rightarrow> throw_io (invalid_data ''Truncated NAG length marker''))
      else
        (case stack of
           [] \<Rightarrow> throw_io (invalid_data ''Missing frame while decoding move'')
         | frame # below \<Rightarrow>
             (case decode_move L byte (frame_chess frame) of
                None \<Rightarrow> throw_io (invalid_data ''Invalid move index for current position'')
              | Some m \<Rightarrow>
                  return_io (rest,
                    frame\<lparr>frame_chess := play_unchecked L (frame_chess frame) m,
                          frame_pre_moves := frame_chess frame # frame_pre_moves frame,
                          frame_nodes := frame_nodes frame @ [NodeMove (san_plus L (frame_chess frame) m)]\<rparr>
                    # below))))"

lemma decode_step_shorter:
  "decode_step L byte rest stack tk = (Inr (rest', stack'), tk') \<Longrightarrow> length rest' \<le> length rest"
  by (auto simp: decode_step_def bind_io_eq_Inr Let_def
      split: if_splits list.splits option.splits dest!: comment_payload_shorter)

function decode_loop ::
  "('pos, 'mv, 'setup, 'mode, 'perr) chess_lib \<Rightarrow> u8 list \<Rightarrow> 'pos decode_frame list \<Rightarrow> token
   \<Rightarrow> 'pos decode_frame list result \<times> token" where
  "decode_loop L bytes stack tk =
     (case bytes of
        [] \<Rightarrow> (Inr stack, tk)
      | byte # rest \<Rightarrow>
          bind_io cancellation_check (\<lambda>_.
            bind_io (decode_step L byte rest stack) (\<lambda>(rest, stack). decode_loop L rest stack)) tk)"
  by pat_completeness auto
termination
  by (relation "measure (\<lambda>(_, bytes, _, _). length bytes)")
     (auto dest!: decode_step_shorter)

declare decode_loop.simps [simp del]

definition decode_game_cancellable ::
  "('pos, 'mv, 'setup, 'mode, 'perr) chess_lib \<Rightarrow> u8 list \<Rightarrow> 'setup \<Rightarrow> (token, decoded_game) io" where
  "decode_game_cancellable L moves_bytes initial_fen =
     bind_io cancellation_check (\<lambda>_.
       case database_setup_to_chess L initial_fen of
         Inl e \<Rightarrow> throw_io (invalid_data (''Invalid initial FEN setup: '' @ error_string e))
       | Inr root_position \<Rightarrow>
           bind_io (decode_loop L moves_bytes
                      [\<lparr>frame_nodes = [], frame_chess = root_position, frame_pre_moves = []\<rparr>])
             (\<lambda>stack.
                if length stack \<noteq> 1
                then throw_io (invalid_data ''Unclosed variation markers in encoded game'')
                else bind_io cancellation_check (\<lambda>_.
                       return_io \<lparr>game_nodes = frame_nodes (hd stack)\<rparr>)))"

subsection \<open>Rendering movetext\<close>

record render_state =
  move_number :: u32
  white_to_move :: bool

definition string_of :: "bytes \<Rightarrow> string" where
  "string_of bs = map (\<lambda>b. char_of (unat b)) bs"

definition is_ascii_ws :: "u8 \<Rightarrow> bool" where
  "is_ascii_ws b \<longleftrightarrow> 9 \<le> b \<and> b \<le> 13 \<or> b = 32"

text \<open>\<^verbatim>\<open>split_whitespace\<close> on the ASCII text of a FEN.\<close>

fun split_ws :: "bytes \<Rightarrow> bytes \<Rightarrow> bytes list" where
  "split_ws acc [] = (if acc = [] then [] else [acc])"
| "split_ws acc (b # bs) =
     (if is_ascii_ws b then (if acc = [] then split_ws [] bs else acc # split_ws [] bs)
      else split_ws (acc @ [b]) bs)"

definition U32_MAX :: nat where "U32_MAX = 4294967295"

definition parse_initial_render_state ::
  "('pos, 'mv, 'setup, 'mode, 'perr) chess_lib \<Rightarrow> 'setup \<Rightarrow> render_state" where
  "parse_initial_render_state L initial_fen =
     (let fields = split_ws [] (fen_to_string L initial_fen);
          side_to_move = (if 1 < length fields then fields ! 1 else bytes_of ''w'');
          number = (if 5 < length fields then parse_unsigned U32_MAX (string_of (fields ! 5)) else None)
      in \<lparr>move_number = (case number of Some n \<Rightarrow> word_of_nat n | None \<Rightarrow> 1),
          white_to_move = (side_to_move = bytes_of ''w'')\<rparr>)"

text \<open>The variables of one \<^verbatim>\<open>render_nodes_cancellable\<close> call.\<close>

record render_acc =
  out :: bytes
  acc_state :: render_state
  prev_was_move :: bool
  last_pre_move_state :: "render_state option"
  has_emitted_move :: bool
  force_black_prefix :: bool

definition render_init :: "render_state \<Rightarrow> render_acc" where
  "render_init st = \<lparr>out = [], acc_state = st, prev_was_move = False, last_pre_move_state = None,
                     has_emitted_move = False, force_black_prefix = False\<rparr>"

definition push_space :: "bytes \<Rightarrow> bytes" where
  "push_space out_text = (if out_text = [] then out_text else out_text @ bytes_of '' '')"

definition number_text :: "render_state \<Rightarrow> bytes" where
  "number_text st = bytes_of (show_nat (unat (move_number st)))"

definition render_move :: "bytes \<Rightarrow> render_acc \<Rightarrow> render_acc" where
  "render_move san acc =
     (let st = acc_state acc;
          o1 = push_space (out acc);
          acc' = (if white_to_move st
                  then acc\<lparr>out := o1 @ number_text st @ bytes_of ''. '' @ san,
                           acc_state := st\<lparr>white_to_move := False\<rparr>\<rparr>
                  else acc\<lparr>out := o1 @ (if \<not> has_emitted_move acc \<or> force_black_prefix acc
                                         then number_text st @ bytes_of ''... '' else []) @ san,
                           acc_state := \<lparr>move_number = saturating_add (move_number st) 1,
                                         white_to_move = True\<rparr>\<rparr>)
      in acc'\<lparr>last_pre_move_state := Some st, has_emitted_move := True,
              force_black_prefix := False, prev_was_move := True\<rparr>)"

definition rendered_nag :: "bytes \<Rightarrow> bytes" where
  "rendered_nag nag =
     (if nag = bytes_of ''$1'' then bytes_of ''!''
      else if nag = bytes_of ''$2'' then bytes_of ''?''
      else if nag = bytes_of ''$3'' then bytes_of ''!!''
      else if nag = bytes_of ''$4'' then bytes_of ''??''
      else if nag = bytes_of ''$5'' then bytes_of ''!?''
      else if nag = bytes_of ''$6'' then bytes_of ''?!''
      else nag)"

definition render_nag :: "bytes \<Rightarrow> render_acc \<Rightarrow> render_acc" where
  "render_nag nag acc =
     (let r = rendered_nag nag
      in acc\<lparr>out := (if r \<noteq> [] \<and> hd r = 36 then push_space (out acc) @ r
                     else if prev_was_move acc then out acc @ r
                     else push_space (out acc) @ r),
             prev_was_move := False\<rparr>)"

definition render_comment :: "bytes \<Rightarrow> render_acc \<Rightarrow> render_acc" where
  "render_comment comment acc =
     acc\<lparr>out := push_space (out acc) @ bytes_of ''{'' @ comment @ bytes_of ''}'',
         prev_was_move := False\<rparr>"

definition variation_state :: "render_acc \<Rightarrow> render_state" where
  "variation_state acc =
     (case last_pre_move_state acc of Some st \<Rightarrow> st | None \<Rightarrow> acc_state acc)"

definition render_variation :: "bytes \<Rightarrow> render_acc \<Rightarrow> render_acc" where
  "render_variation inner acc =
     acc\<lparr>out := push_space (out acc) @ bytes_of ''('' @ inner @ bytes_of '')'',
         force_black_prefix := True, prev_was_move := False\<rparr>"

text \<open>One turn of the loop over the nodes; a variation runs the whole function on its children.\<close>

fun render_node :: "decoded_game_node \<Rightarrow> render_acc \<Rightarrow> (token, render_acc) io" where
  "render_node (NodeMove san) acc =
     bind_io cancellation_check (\<lambda>_. return_io (render_move san acc))"
| "render_node (NodeNag nag) acc =
     bind_io cancellation_check (\<lambda>_. return_io (render_nag nag acc))"
| "render_node (NodeComment comment) acc =
     bind_io cancellation_check (\<lambda>_.
       bind_io cancellation_check (\<lambda>_.
         bind_io cancellation_check (\<lambda>_. return_io (render_comment comment acc))))"
| "render_node (NodeVariation children) acc =
     bind_io cancellation_check (\<lambda>_.
       bind_io (for_io render_node children (render_init (variation_state acc))) (\<lambda>inner.
         bind_io cancellation_check (\<lambda>_. return_io (render_variation (out inner) acc))))"

definition render_nodes_cancellable ::
  "decoded_game_node list \<Rightarrow> render_state \<Rightarrow> (token, bytes) io" where
  "render_nodes_cancellable nodes st =
     bind_io (for_io render_node nodes (render_init st)) (\<lambda>acc.
       bind_io cancellation_check (\<lambda>_. return_io (out acc)))"

definition decode_game_to_movetext_cancellable ::
  "('pos, 'mv, 'setup, 'mode, 'perr) chess_lib \<Rightarrow> u8 list \<Rightarrow> 'setup \<Rightarrow> (token, bytes) io" where
  "decode_game_to_movetext_cancellable L moves_bytes initial_fen =
     (let render_state = parse_initial_render_state L initial_fen
      in bind_io (decode_game_cancellable L moves_bytes initial_fen) (\<lambda>decoded.
           render_nodes_cancellable (game_nodes decoded) render_state))"

definition decode_game_to_movetext ::
  "('pos, 'mv, 'setup, 'mode, 'perr) chess_lib \<Rightarrow> u8 list \<Rightarrow> 'setup \<Rightarrow> bytes result" where
  "decode_game_to_movetext L moves_bytes initial_fen =
     fst (decode_game_to_movetext_cancellable L moves_bytes initial_fen Never)"

subsection \<open>Runs that nobody cancels\<close>

lemma cancellation_check_Never [simp]: "cancellation_check Never = (Inr (), Never)"
  by (simp add: cancellation_check_def)

lemma bind_check_Never [simp]:
  "bind_io cancellation_check f Never = f () Never" "bind_io check_token f Never = f () Never"
  by (simp_all add: bind_io_Inr)

lemma payload_polls_Never [simp]: "payload_polls n Never = (Inr (), Never)"
  by (induction n rule: payload_polls.induct) (simp add: payload_polls.simps)

lemma decode_loop_Nil [simp]: "decode_loop L [] stack tk = (Inr stack, tk)"
  by (simp add: decode_loop.simps)

lemma decode_loop_Cons_Never:
  "decode_loop L (byte # rest) stack Never =
     bind_io (decode_step L byte rest stack) (\<lambda>(rest, stack). decode_loop L rest stack) Never"
  by (simp add: decode_loop.simps)

lemma validate_loop_Nil [simp]: "validate_loop [] depth tk = (Inr depth, tk)"
  by (simp add: validate_loop.simps)

lemma validate_loop_Cons_Never:
  "validate_loop (byte # rest) depth Never =
     bind_io (validate_step byte rest depth) (\<lambda>(rest, depth). validate_loop rest depth) Never"
  by (simp add: validate_loop.simps)

lemma cancellable_cancellation_check [cancel_intros, simp]: "cancellable cancellation_check"
  by (simp add: cancellation_check_def)

lemma cancellable_payload_polls [cancel_intros]: "cancellable (payload_polls n)"
  by (induction n rule: payload_polls.induct)
     (subst payload_polls.simps, auto intro!: cancel_intros)

lemma cancellable_validate_step [cancel_intros]: "cancellable (validate_step marker rest depth)"
  by (auto simp: validate_step_def Let_def intro!: cancel_intros split: list.splits)

lemma validate_loop_io:
  "validate_loop bytes depth =
     (case bytes of
        [] \<Rightarrow> return_io depth
      | marker # rest \<Rightarrow>
          bind_io check_token (\<lambda>_.
            bind_io (validate_step marker rest depth) (\<lambda>(rest, depth). validate_loop rest depth)))"
  by (rule ext, subst validate_loop.simps) (simp split: list.splits)

lemma cancellable_validate_loop [cancel_intros]: "cancellable (validate_loop bytes depth)"
proof (induction "length bytes" arbitrary: bytes depth rule: less_induct)
  case less
  then show ?case
    by (subst validate_loop_io)
       (fastforce intro!: cancel_intros dest: validate_step_shorter split: list.splits)
qed

lemma cancellable_comment_chunk [cancel_intros]: "cancellable (comment_chunk payload bytes)"
  by (auto simp: comment_chunk_def Let_def intro!: cancel_intros split: list.splits)

lemma comment_payload_io:
  "comment_payload payload bytes =
     bind_io (comment_chunk payload bytes)
       (\<lambda>(payload, after, again).
          if again then comment_payload payload after else return_io (payload, after))"
  by (rule ext) (rule comment_payload.simps)

lemma cancellable_comment_payload [cancel_intros]: "cancellable (comment_payload payload bytes)"
proof (induction "length bytes" arbitrary: payload bytes rule: less_induct)
  case less
  then show ?case
    by (subst comment_payload_io) (fastforce intro!: cancel_intros dest: comment_chunk_shorter)
qed

lemma cancellable_decode_step [cancel_intros]: "cancellable (decode_step L byte rest stack)"
  by (auto simp: decode_step_def Let_def intro!: cancel_intros
      split: list.splits option.splits prod.splits)

lemma decode_loop_io:
  "decode_loop L bytes stack =
     (case bytes of
        [] \<Rightarrow> return_io stack
      | byte # rest \<Rightarrow>
          bind_io cancellation_check (\<lambda>_.
            bind_io (decode_step L byte rest stack) (\<lambda>(rest, stack). decode_loop L rest stack)))"
  by (rule ext, subst decode_loop.simps) (simp split: list.splits)

lemma cancellable_decode_loop [cancel_intros]: "cancellable (decode_loop L bytes stack)"
proof (induction "length bytes" arbitrary: bytes stack rule: less_induct)
  case less
  then show ?case
    by (subst decode_loop_io)
       (fastforce intro!: cancel_intros dest: decode_step_shorter split: list.splits)
qed

lemma cancellable_decode_game [cancel_intros]: "cancellable (decode_game_cancellable L bytes fen)"
  by (auto simp: decode_game_cancellable_def intro!: cancel_intros split: sum.splits)

lemma cancellable_render_node [cancel_intros]: "cancellable (render_node node acc)"
  by (induction node arbitrary: acc) (auto intro!: cancel_intros cancellable_for)

text \<open>
  Cancellation never corrupts a result: whatever the moment at which another thread cancels,
  turning a stored move stream into movetext either reports the cancellation or returns exactly
  the text (or the error) of the undisturbed run.
\<close>

theorem movetext_cancellation_transparent:
  "fst (decode_game_to_movetext_cancellable L bytes fen tk) = Inl Cancellation
   \<or> fst (decode_game_to_movetext_cancellable L bytes fen tk) = decode_game_to_movetext L bytes fen"
proof -
  have "cancellable (decode_game_to_movetext_cancellable L bytes fen)"
    by (auto simp: decode_game_to_movetext_cancellable_def render_nodes_cancellable_def Let_def
        intro!: cancel_intros cancellable_for)
  then show ?thesis
    unfolding decode_game_to_movetext_def by (rule cancellableD)
qed

subsection \<open>Move bytes\<close>

lemma position_of_Some: "position_of xs x = Some i \<Longrightarrow> i < length xs \<and> xs ! i = x"
  by (induction xs arbitrary: i) (auto split: if_splits)

lemma position_of_mem: "x \<in> set xs \<Longrightarrow> \<exists>i. position_of xs x = Some i"
  by (induction xs) auto

lemma encode_move_Inr:
  assumes "encode_move L m chess = Inr b"
  shows "b < NAG_MARKER" and "decode_move L b chess = Some m"
proof -
  from assms obtain i where i: "position_of (legal_moves L chess) m = Some i" "i < 256"
      "b = word_of_nat i" and small: "b < NAG_MARKER"
    by (auto simp: encode_move_def Let_def not_le split: option.splits if_splits)
  have "unat b = i" using i(2,3) by (simp add: unat_of_nat)
  with position_of_Some[OF i(1)] show "decode_move L b chess = Some m"
    by (simp add: decode_move_def)
  show "b < NAG_MARKER" by (rule small)
qed

lemma encode_move_total:
  assumes "m \<in> set (legal_moves L chess)" and "length (legal_moves L chess) \<le> 252"
  shows "\<exists>b. encode_move L m chess = Inr b"
proof -
  obtain i where i: "position_of (legal_moves L chess) m = Some i"
    using assms(1) by (metis position_of_mem)
  have "i < 252" using position_of_Some[OF i] assms(2) by simp
  then have "\<not> NAG_MARKER \<le> (word_of_nat i :: u8)"
    by (simp add: NAG_MARKER_def word_le_nat_alt unat_of_nat)
  with i \<open>i < 252\<close> show ?thesis by (simp add: encode_move_def Let_def)
qed

text \<open>
  In a position with at most 252 legal moves (no chess position has more than 218), every
  legal move has a byte, the byte is no marker, it decodes to the same move, and no other move
  has it.
\<close>

theorem encode_move_roundtrip:
  assumes "m \<in> set (legal_moves L chess)" and "length (legal_moves L chess) \<le> 252"
  shows "\<exists>b. encode_move L m chess = Inr b \<and> b < NAG_MARKER \<and> decode_move L b chess = Some m
           \<and> (\<forall>m'. encode_move L m' chess = Inr b \<longrightarrow> m' = m)"
  using encode_move_total[OF assms] encode_move_Inr by (metis option.inject)

text \<open>
  A small rule set for concrete evaluations: a position is a number, the moves from it are the
  next three numbers, and a move's notation is one letter.
\<close>

definition example_rules :: "(nat, nat, nat, unit, unit) chess_lib" where
  "example_rules =
     \<lparr>legal_moves = (\<lambda>p. [p + 1, p + 2, p + 3]), san_plus = (\<lambda>p m. [65 + word_of_nat m]),
      play_unchecked = (\<lambda>p m. m), castling_mode_detect = (\<lambda>_. ()), from_setup = (\<lambda>p _. Inr p),
      ignore_too_much_material = Inl, ignore_invalid_castling_rights = Inl,
      position_error = (\<lambda>_. \<lparr>foreign_text = ''invalid'', foreign_sources = []\<rparr>),
      fen_to_string = (\<lambda>_. bytes_of ''8/8 b - - 0 7'')\<rparr>"

theorem encode_move_roundtrip_witness:
  "\<exists>b. encode_move example_rules 6 4 = Inr b \<and> b < NAG_MARKER \<and> decode_move example_rules b 4 = Some 6
     \<and> (\<forall>m'. encode_move example_rules m' 4 = Inr b \<longrightarrow> m' = 6)"
  by (rule encode_move_roundtrip) (simp_all add: example_rules_def)

subsection \<open>Annotations\<close>

lemma to_le_bytes_u16: "n < 65536 \<Longrightarrow> \<exists>a b. to_le_bytes n = [a, b] \<and> u16_le a b = n"
  by (simp add: to_le_bytes_def u16_le_def unat_of_nat)

definition comment_bytes :: "bytes \<Rightarrow> u8 list" where
  "comment_bytes c = encode_comment c []"

lemma encode_comment_append: "encode_comment c output = output @ comment_bytes c"
  by (simp add: encode_comment_def comment_bytes_def)

lemma comment_bytes_short:
  assumes "length c < U16_MAX"
  shows "comment_bytes c = COMMENT_MARKER # to_le_bytes (length c) @ c"
proof (cases "c = []")
  case True
  then show ?thesis
    by (simp add: comment_bytes_def encode_comment_def chunks.simps[of _ "[]"] to_le_bytes_def)
next
  case False
  with assms show ?thesis
    by (simp add: comment_bytes_def encode_comment_def chunks.simps[of _ c] chunks.simps[of _ "[]"]
        U16_MAX_def)
qed

lemma comment_bytes_long:
  assumes "U16_MAX \<le> length c"
  shows "comment_bytes c =
    COMMENT_MARKER # to_le_bytes U16_MAX @ take U16_MAX c @ comment_bytes (drop U16_MAX c)"
proof -
  have "c \<noteq> []" "U16_MAX \<noteq> 0" using assms by (auto simp: U16_MAX_def)
  moreover have "length (drop U16_MAX c) mod U16_MAX = 0 \<longleftrightarrow> length c mod U16_MAX = 0"
    using assms by (simp add: le_mod_geq)
  ultimately show ?thesis
    using assms
    by (simp add: comment_bytes_def encode_comment_def chunks.simps[of U16_MAX c] min_absorb2)
qed

lemma comment_bytes_marker: "\<exists>bs. comment_bytes c = COMMENT_MARKER # bs"
  by (cases "length c < U16_MAX") (auto simp: comment_bytes_short comment_bytes_long)

lemma comment_payload_chunk:
  assumes "u16_le a b = length chunk"
    and "length chunk \<noteq> U16_MAX \<or> rest = [] \<or> hd rest \<noteq> COMMENT_MARKER"
  shows "comment_payload payload (a # b # chunk @ rest) Never = (Inr (payload @ chunk, rest), Never)"
  using assms
  by (subst comment_payload.simps) (simp add: comment_chunk_def bind_io_def)

lemma comment_payload_full_chunk:
  assumes "u16_le a b = length chunk" "length chunk = U16_MAX"
  shows "comment_payload payload (a # b # chunk @ COMMENT_MARKER # rest) Never =
         comment_payload (payload @ chunk) rest Never"
  using assms
  by (subst comment_payload.simps) (simp add: comment_chunk_def bind_io_def)

lemma comment_payload_comment_bytes:
  "comment_payload payload (tl (comment_bytes c) @ rest) Never = (Inr (payload @ c, rest), Never)"
proof (induction "length c" arbitrary: c payload rule: less_induct)
  case less
  show ?case
  proof (cases "length c < U16_MAX")
    case True
    then obtain a b where "to_le_bytes (length c) = [a, b]" "u16_le a b = length c"
      using to_le_bytes_u16[of "length c"] by (auto simp: U16_MAX_def)
    with True show ?thesis by (simp add: comment_bytes_short comment_payload_chunk)
  next
    case False
    let ?d = "drop U16_MAX c"
    have short: "length ?d < length c" using False by (simp add: U16_MAX_def)
    have full: "length (take U16_MAX c) = U16_MAX" using False by simp
    obtain a b where ab: "to_le_bytes U16_MAX = [a, b]" "u16_le a b = U16_MAX"
      using to_le_bytes_u16[of U16_MAX] by (auto simp: U16_MAX_def)
    obtain bs where bs: "comment_bytes ?d = COMMENT_MARKER # bs"
      using comment_bytes_marker by blast
    have "comment_payload payload (tl (comment_bytes c) @ rest) Never =
          comment_payload (payload @ take U16_MAX c) (bs @ rest) Never"
      using False ab full by (simp add: comment_bytes_long bs comment_payload_full_chunk)
    also have "\<dots> = (Inr (payload @ take U16_MAX c @ ?d, rest), Never)"
      using less[OF short, of "payload @ take U16_MAX c"] bs by simp
    finally show ?thesis by simp
  qed
qed

lemma decode_comment_bytes:
  "decode_loop L (comment_bytes c @ rest) stack Never =
     decode_loop L rest (push_node (NodeComment (from_utf8_lossy c)) stack) Never"
proof -
  obtain bs where bs: "comment_bytes c = COMMENT_MARKER # bs"
    using comment_bytes_marker by blast
  have "comment_payload [] (bs @ rest) Never = (Inr (c, rest), Never)"
    using comment_payload_comment_bytes[of "[]" c rest] bs by simp
  then show ?thesis
    by (simp add: bs decode_loop_Cons_Never decode_step_def bind_io_def marker_defs)
qed

lemma encode_nag_short:
  assumes "0 < length nag" and "length nag \<le> U16_MAX"
  shows "encode_nag nag output = output @ NAG_MARKER # to_le_bytes (length nag) @ nag"
  using assms by (simp add: encode_nag_def chunks.simps[of _ nag] chunks.simps[of _ "[]"] U16_MAX_def)

lemma decode_nag_bytes:
  assumes "length nag \<le> U16_MAX"
  shows "decode_loop L (NAG_MARKER # to_le_bytes (length nag) @ nag @ rest) stack Never =
     decode_loop L rest (push_node (NodeNag (from_utf8_lossy nag)) stack) Never"
proof -
  obtain a b where "to_le_bytes (length nag) = [a, b]" "u16_le a b = length nag"
    using to_le_bytes_u16[of "length nag"] assms by (auto simp: U16_MAX_def)
  then show ?thesis
    by (simp add: decode_loop_Cons_Never decode_step_def bind_io_def marker_defs)
qed

subsection \<open>The three readers of a move stream agree\<close>

text \<open>
  The viewer decodes the whole tree, the search walks the mainline bytes, and the validation
  checks structure only. Each successful step of the decoder is followed on the other two.
\<close>

definition mainline_from :: "u8 list \<Rightarrow> nat \<Rightarrow> u8 list" where
  "mainline_from bytes depth = mainline_collect \<lparr>rest_bytes = bytes, variation_depth = depth\<rparr>"

lemma mainline_from_Nil [simp]: "mainline_from [] depth = []"
  by (simp add: mainline_from_def mainline_collect.simps mainline_next.simps)

lemma mainline_from_Cons:
  "mainline_from (byte # bs) depth =
     (if byte = VARIATION_START_MARKER then mainline_from bs (depth + 1)
      else if byte = VARIATION_END_MARKER then mainline_from bs (depth - 1)
      else if byte = COMMENT_MARKER \<or> byte = NAG_MARKER then
        (case bs of a # b # body \<Rightarrow> mainline_from (drop (u16_le a b) body) depth | _ \<Rightarrow> [])
      else if depth = 0 then byte # mainline_from bs depth else mainline_from bs depth)"
  unfolding mainline_from_def
  by (subst mainline_collect.simps, subst mainline_next.simps)
     (auto simp: skip_annotation_def Let_def mainline_collect.simps[symmetric] split: list.split)

lemma comment_chunk_Never:
  assumes "comment_chunk payload bytes Never = (Inr (p, after, again), tk)"
  shows "\<exists>a b body. bytes = a # b # body \<and> u16_le a b \<le> length body \<and> tk = Never
    \<and> p = payload @ take (u16_le a b) body
    \<and> drop (u16_le a b) body = (if again then COMMENT_MARKER # after else after)"
proof -
  obtain a b body where bytes: "bytes = a # b # body"
    using assms by (auto simp: comment_chunk_def split: list.splits)
  with assms show ?thesis
    by (cases "drop (u16_le a b) body")
       (auto simp: comment_chunk_def bind_io_eq_Inr Let_def not_less simp del: drop_eq_Nil
         split: if_splits)
qed

lemma comment_payload_step:
  assumes "comment_payload payload bytes Never = (Inr (p, rest), tk)"
  shows "\<exists>a b body. bytes = a # b # body \<and> u16_le a b \<le> length body
    \<and> (rest = drop (u16_le a b) body
      \<or> (\<exists>bs. drop (u16_le a b) body = COMMENT_MARKER # bs
            \<and> comment_payload (payload @ take (u16_le a b) body) bs Never = (Inr (p, rest), tk)))"
proof -
  obtain p1 after again tk1 where chunk: "comment_chunk payload bytes Never = (Inr (p1, after, again), tk1)"
    and go: "(if again then comment_payload p1 after else return_io (p1, after)) tk1 = (Inr (p, rest), tk)"
    using assms by (auto simp: comment_payload_io[of payload bytes] bind_io_eq_Inr simp del: io_simps)
  show ?thesis
    using comment_chunk_Never[OF chunk] go by (cases again) auto
qed

lemma validate_loop_annotation:
  assumes "marker = COMMENT_MARKER \<or> marker = NAG_MARKER" and "u16_le a b \<le> length body"
  shows "validate_loop (marker # a # b # body) depth Never = validate_loop (drop (u16_le a b) body) depth Never"
proof -
  have m: "marker \<noteq> VARIATION_START_MARKER" "marker \<noteq> VARIATION_END_MARKER"
    using assms(1) by (auto simp: marker_defs)
  have "validate_step marker (a # b # body) depth Never = (Inr (drop (u16_le a b) body, depth), Never)"
    using m assms by (simp add: validate_step_def Let_def bind_io_Inr)
  then show ?thesis by (simp add: validate_loop_Cons_Never bind_io_Inr)
qed

lemma comment_payload_followers:
  "comment_payload payload bytes Never = (Inr (p, rest), tk) \<Longrightarrow>
     validate_loop (COMMENT_MARKER # bytes) depth Never = validate_loop rest depth Never
     \<and> mainline_from (COMMENT_MARKER # bytes) depth = mainline_from rest depth"
proof (induction "length bytes" arbitrary: payload bytes rule: less_induct)
  case less
  from less.prems obtain a b body where ab: "bytes = a # b # body" "u16_le a b \<le> length body"
    and cont: "rest = drop (u16_le a b) body
      \<or> (\<exists>bs. drop (u16_le a b) body = COMMENT_MARKER # bs
            \<and> comment_payload (payload @ take (u16_le a b) body) bs Never = (Inr (p, rest), tk))"
    using comment_payload_step[OF less.prems] by blast
  have here: "validate_loop (COMMENT_MARKER # bytes) depth Never =
        validate_loop (drop (u16_le a b) body) depth Never
      \<and> mainline_from (COMMENT_MARKER # bytes) depth = mainline_from (drop (u16_le a b) body) depth"
    using ab by (simp add: validate_loop_annotation mainline_from_Cons marker_defs)
  show ?case
  proof (cases "rest = drop (u16_le a b) body")
    case False
    with cont obtain bs where bs: "drop (u16_le a b) body = COMMENT_MARKER # bs"
      and go: "comment_payload (payload @ take (u16_le a b) body) bs Never = (Inr (p, rest), tk)"
      by blast
    have "length (COMMENT_MARKER # bs) \<le> length body" by (metis bs length_drop diff_le_self)
    then have "length bs < length bytes" using ab by simp
    from less.hyps[OF this go] here bs show ?thesis by simp
  qed (use here in simp)
qed

lemma push_node_length [simp]: "length (push_node n stack) = length stack"
  by (simp add: push_node_def split: list.split)

text \<open>What a successful undisturbed turn of the decoder was.\<close>

lemma decode_step_cases:
  assumes "decode_step L byte bytes stack Never = (Inr (rest, stack'), tk)"
  obtains
    (start) frame below where "byte = VARIATION_START_MARKER" "stack = frame # below" "rest = bytes"
      "stack' = \<lparr>frame_nodes = [],
                 frame_chess = (case frame_pre_moves frame of p # _ \<Rightarrow> p | [] \<Rightarrow> frame_chess frame),
                 frame_pre_moves = []\<rparr> # stack"
  | (close) frame below where "byte = VARIATION_END_MARKER" "stack = frame # below" "below \<noteq> []"
      "rest = bytes" "stack' = push_node (NodeVariation (frame_nodes frame)) below"
  | (comment) p tk' where "byte = COMMENT_MARKER"
      "comment_payload [] bytes Never = (Inr (p, rest), tk')"
      "stack' = push_node (NodeComment (from_utf8_lossy p)) stack"
  | (nag) a b body where "byte = NAG_MARKER" "bytes = a # b # body" "u16_le a b \<le> length body"
      "rest = drop (u16_le a b) body"
      "stack' = push_node (NodeNag (from_utf8_lossy (take (u16_le a b) body))) stack"
  | (move) frame below m where "byte \<notin> {VARIATION_START_MARKER, VARIATION_END_MARKER, COMMENT_MARKER, NAG_MARKER}"
      "stack = frame # below" "decode_move L byte (frame_chess frame) = Some m" "rest = bytes"
      "stack' = frame\<lparr>frame_chess := play_unchecked L (frame_chess frame) m,
                      frame_pre_moves := frame_chess frame # frame_pre_moves frame,
                      frame_nodes := frame_nodes frame @ [NodeMove (san_plus L (frame_chess frame) m)]\<rparr>
                # below"
proof -
  consider "byte = VARIATION_START_MARKER" | "byte = VARIATION_END_MARKER"
    | "byte = COMMENT_MARKER" | "byte = NAG_MARKER"
    | "byte \<notin> {VARIATION_START_MARKER, VARIATION_END_MARKER, COMMENT_MARKER, NAG_MARKER}"
    by blast
  then show thesis
  proof cases
    case 1
    with assms start show ?thesis by (auto simp: decode_step_def Let_def split: list.splits)
  next
    case 2
    with assms close show ?thesis
      by (auto simp: decode_step_def marker_defs split: list.splits if_splits)
  next
    case 3
    with assms have "bind_io (comment_payload [] bytes) (\<lambda>(payload, rest).
          bind_io cancellation_check (\<lambda>_.
            bind_io cancellation_check (\<lambda>_.
                 return_io (rest, push_node (NodeComment (from_utf8_lossy payload)) stack)))) Never
        = (Inr (rest, stack'), tk)"
      by (simp add: decode_step_def marker_defs Let_def)
    moreover obtain r where "comment_payload [] bytes Never = (r, Never)"
      using cancellable_comment_payload by (metis cancellable_def prod.collapse)
    ultimately show ?thesis using 3 comment by (auto simp: bind_io_eq_Inr)
  next
    case 4
    with assms nag show ?thesis
      by (auto simp: decode_step_def marker_defs bind_io_eq_Inr Let_def split: list.splits if_splits)
  next
    case 5
    with assms move show ?thesis
      by (auto simp: decode_step_def split: list.splits option.splits)
  qed
qed

lemma decode_step_validates:
  assumes "decode_step L byte bytes stack Never = (Inr (rest, stack'), tk)" and "stack \<noteq> []"
  shows "validate_loop (byte # bytes) (length stack - 1) Never
           = validate_loop rest (length stack' - 1) Never \<and> stack' \<noteq> []"
  using assms(1)
proof (cases rule: decode_step_cases)
  case (start frame below)
  then show ?thesis by (simp add: validate_loop_Cons_Never validate_step_def bind_io_def)
next
  case (close frame below)
  then show ?thesis
    by (cases below) (auto simp: validate_loop_Cons_Never validate_step_def bind_io_def marker_defs
        simp flip: length_greater_0_conv)
next
  case (comment p)
  then show ?thesis
    using assms(2) by (simp add: comment_payload_followers flip: length_greater_0_conv)
next
  case (nag a b body)
  then show ?thesis
    using assms(2) by (simp add: validate_loop_annotation flip: length_greater_0_conv)
next
  case (move frame below m)
  then show ?thesis by (simp add: validate_loop_Cons_Never validate_step_def bind_io_def)
qed

end
