(* ===== verification/StreamReaders.thy ===== *)
theory StreamReaders
  imports Encoding
begin

text \<open>
  The readers of a stored move stream (\<^verbatim>\<open>db/encoding.rs\<close>) seen through one interface. A stream is
  written as a sequence of events (a move byte, the two variation markers, a comment, a NAG); the
  locale \<^verbatim>\<open>stream_reader\<close> states what a reader promises on one event, and its lemmas carry that
  to a whole stream. The decoder, the structural validation and the mainline iterator are its
  three instances. The second part compares them on arbitrary byte strings.
\<close>

subsection \<open>Events\<close>

datatype stream_event = MoveByte u8 | OpenVariation | CloseVariation | Comment bytes | Nag bytes

fun event_bytes :: "stream_event \<Rightarrow> u8 list" where
  "event_bytes (MoveByte b) = [b]"
| "event_bytes OpenVariation = [VARIATION_START_MARKER]"
| "event_bytes CloseVariation = [VARIATION_END_MARKER]"
| "event_bytes (Comment c) = comment_bytes c"
| "event_bytes (Nag g) = encode_nag g []"

definition stream_bytes :: "stream_event list \<Rightarrow> u8 list" where
  "stream_bytes es = concat (map event_bytes es)"

lemma stream_bytes_simps [simp]:
  "stream_bytes [] = []" "stream_bytes (e # es) = event_bytes e @ stream_bytes es"
  "stream_bytes (es @ fs) = stream_bytes es @ stream_bytes fs"
  by (simp_all add: stream_bytes_def)

text \<open>What a writer puts into a stream: no move byte is a marker and a NAG fits one record.\<close>

fun event_ok :: "stream_event \<Rightarrow> bool" where
  "event_ok (MoveByte b) \<longleftrightarrow> b < NAG_MARKER"
| "event_ok (Nag g) \<longleftrightarrow> 0 < length g \<and> length g \<le> U16_MAX"
| "event_ok _ \<longleftrightarrow> True"

subsection \<open>The interface of a reader\<close>

locale stream_reader =
  fixes run :: "u8 list \<Rightarrow> 'st \<Rightarrow> 'r"
    and accepts :: "'st \<Rightarrow> stream_event \<Rightarrow> bool"
    and step :: "'st \<Rightarrow> stream_event \<Rightarrow> 'st"
  assumes run_event:
    "event_ok e \<Longrightarrow> accepts st e \<Longrightarrow> run (event_bytes e @ rest) st = run rest (step st e)"
begin

fun accepts_all :: "'st \<Rightarrow> stream_event list \<Rightarrow> bool" where
  "accepts_all st [] \<longleftrightarrow> True"
| "accepts_all st (e # es) \<longleftrightarrow> accepts st e \<and> accepts_all (step st e) es"

lemma run_stream:
  "\<forall>e\<in>set es. event_ok e \<Longrightarrow> accepts_all st es \<Longrightarrow>
     run (stream_bytes es @ rest) st = run rest (foldl step st es)"
  by (induction es arbitrary: st) (simp_all add: run_event)

lemma accepts_all_append:
  "accepts_all st (es @ fs) \<longleftrightarrow> accepts_all st es \<and> accepts_all (foldl step st es) fs"
  by (induction es arbitrary: st) simp_all

end

subsection \<open>The decoder as a reader\<close>

fun decoder_accepts :: "('pos, 'mv, 'setup, 'mode, 'perr) chess_lib \<Rightarrow> 'pos decode_frame list
    \<Rightarrow> stream_event \<Rightarrow> bool" where
  "decoder_accepts L stack (MoveByte b) \<longleftrightarrow>
     (case stack of [] \<Rightarrow> False | frame # _ \<Rightarrow> decode_move L b (frame_chess frame) \<noteq> None)"
| "decoder_accepts L stack OpenVariation \<longleftrightarrow> stack \<noteq> []"
| "decoder_accepts L stack CloseVariation \<longleftrightarrow> 1 < length stack"
| "decoder_accepts L stack _ \<longleftrightarrow> True"

definition played :: "('pos, 'mv, 'setup, 'mode, 'perr) chess_lib \<Rightarrow> 'mv \<Rightarrow> 'pos decode_frame
    \<Rightarrow> 'pos decode_frame" where
  "played L m frame =
     frame\<lparr>frame_chess := play_unchecked L (frame_chess frame) m,
           frame_pre_moves := frame_chess frame # frame_pre_moves frame,
           frame_nodes := frame_nodes frame @ [NodeMove (san_plus L (frame_chess frame) m)]\<rparr>"

definition variation_root :: "'pos decode_frame \<Rightarrow> 'pos" where
  "variation_root frame = (case frame_pre_moves frame of p # _ \<Rightarrow> p | [] \<Rightarrow> frame_chess frame)"

fun decoder_event :: "('pos, 'mv, 'setup, 'mode, 'perr) chess_lib \<Rightarrow> 'pos decode_frame list
    \<Rightarrow> stream_event \<Rightarrow> 'pos decode_frame list" where
  "decoder_event L stack (MoveByte b) =
     (case stack of
        [] \<Rightarrow> []
      | frame # below \<Rightarrow>
          (case decode_move L b (frame_chess frame) of
             None \<Rightarrow> stack
           | Some m \<Rightarrow> played L m frame # below))"
| "decoder_event L stack OpenVariation =
     \<lparr>frame_nodes = [], frame_chess = variation_root (hd stack), frame_pre_moves = []\<rparr> # stack"
| "decoder_event L stack CloseVariation =
     push_node (NodeVariation (frame_nodes (hd stack))) (tl stack)"
| "decoder_event L stack (Comment c) = push_node (NodeComment (from_utf8_lossy c)) stack"
| "decoder_event L stack (Nag g) = push_node (NodeNag (from_utf8_lossy g)) stack"

lemma not_marker: "b < NAG_MARKER \<Longrightarrow>
    b \<noteq> VARIATION_START_MARKER \<and> b \<noteq> VARIATION_END_MARKER \<and> b \<noteq> COMMENT_MARKER \<and> b \<noteq> NAG_MARKER"
  by (auto simp: marker_defs)

lemma decoder_reads_event:
  assumes "event_ok e" and "decoder_accepts L stack e"
  shows "decode_loop L (event_bytes e @ rest) stack Never = decode_loop L rest (decoder_event L stack e) Never"
proof (cases e)
  case (MoveByte b)
  with assms show ?thesis
    by (auto simp: decode_loop_Cons_Never decode_step_def bind_io_def not_marker played_def
        split: list.splits)
next
  case OpenVariation
  with assms show ?thesis
    by (cases stack) (auto simp: decode_loop_Cons_Never decode_step_def bind_io_def
        variation_root_def Let_def split: list.split)
next
  case CloseVariation
  with assms show ?thesis
    by (cases stack) (auto simp: decode_loop_Cons_Never decode_step_def bind_io_def marker_defs)
next
  case (Nag g)
  with assms show ?thesis by (simp add: encode_nag_short decode_nag_bytes)
qed (simp add: decode_comment_bytes)

interpretation decoder: stream_reader
  "\<lambda>bytes stack. decode_loop L bytes stack Never" "decoder_accepts L" "decoder_event L" for L
  by unfold_locales (rule decoder_reads_event)

subsection \<open>The structural validation as a reader\<close>

fun depth_accepts :: "nat \<Rightarrow> stream_event \<Rightarrow> bool" where
  "depth_accepts depth CloseVariation \<longleftrightarrow> 0 < depth"
| "depth_accepts depth _ \<longleftrightarrow> True"

fun depth_event :: "nat \<Rightarrow> stream_event \<Rightarrow> nat" where
  "depth_event depth OpenVariation = depth + 1"
| "depth_event depth CloseVariation = depth - 1"
| "depth_event depth _ = depth"

lemma event_annotation:
  assumes "event_ok (Nag g)"
  obtains a b where "event_bytes (Nag g) = NAG_MARKER # a # b # g" "u16_le a b = length g"
  using assms to_le_bytes_u16[of "length g"] by (auto simp: encode_nag_short U16_MAX_def)

lemma comment_bytes_followers:
  "validate_loop (comment_bytes c @ rest) depth Never = validate_loop rest depth Never
   \<and> mainline_from (comment_bytes c @ rest) depth = mainline_from rest depth"
proof -
  obtain bs where bs: "comment_bytes c = COMMENT_MARKER # bs"
    using comment_bytes_marker by blast
  have "comment_payload [] (bs @ rest) Never = (Inr (c, rest), Never)"
    using comment_payload_comment_bytes[of "[]" c rest] bs by simp
  from comment_payload_followers[OF this] show ?thesis by (simp add: bs)
qed

lemma validation_reads_event:
  assumes "event_ok e" and "depth_accepts depth e"
  shows "validate_loop (event_bytes e @ rest) depth Never = validate_loop rest (depth_event depth e) Never"
proof (cases e)
  case (Nag g)
  with assms obtain a b where "event_bytes e = NAG_MARKER # a # b # g" "u16_le a b = length g"
    using event_annotation by metis
  then show ?thesis using Nag by (simp add: validate_loop_annotation)
qed (use assms in \<open>auto simp: validate_loop_Cons_Never validate_step_def bind_io_def not_marker
       comment_bytes_followers marker_defs\<close>)

interpretation validation: stream_reader
  "\<lambda>bytes depth. validate_loop bytes depth Never" depth_accepts depth_event
  by unfold_locales (rule validation_reads_event)

subsection \<open>The mainline iterator as a reader\<close>

text \<open>Its state is what it has yielded and its depth.\<close>

fun mainline_event :: "u8 list \<times> nat \<Rightarrow> stream_event \<Rightarrow> u8 list \<times> nat" where
  "mainline_event (yielded, depth) (MoveByte b) = (if depth = 0 then yielded @ [b] else yielded, depth)"
| "mainline_event (yielded, depth) e = (yielded, depth_event depth e)"

lemma mainline_reads_event:
  assumes "event_ok e"
  shows "(case st of (yielded, depth) \<Rightarrow> yielded @ mainline_from (event_bytes e @ rest) depth)
       = (case mainline_event st e of (yielded, depth) \<Rightarrow> yielded @ mainline_from rest depth)"
proof (cases e)
  case (Nag g)
  with assms obtain a b where "event_bytes e = NAG_MARKER # a # b # g" "u16_le a b = length g"
    using event_annotation by metis
  then show ?thesis using Nag by (cases st) (simp add: mainline_from_Cons marker_defs)
qed (use assms in \<open>cases st; auto simp: mainline_from_Cons not_marker comment_bytes_followers
       marker_defs\<close>)+

interpretation mainline: stream_reader
  "\<lambda>bytes (yielded, depth). yielded @ mainline_from bytes depth" "\<lambda>_ _. True" mainline_event
  by unfold_locales (rule mainline_reads_event)


subsection \<open>The decoder against the validation\<close>

lemma decode_loop_validates:
  "decode_loop L bytes stack Never = (Inr stack', tk) \<Longrightarrow> stack \<noteq> [] \<Longrightarrow>
     validate_loop bytes (length stack - 1) Never = (Inr (length stack' - 1), Never) \<and> stack' \<noteq> []"
proof (induction "length bytes" arbitrary: bytes stack rule: less_induct)
  case less
  show ?case
  proof (cases bytes)
    case Nil
    with less.prems show ?thesis by simp
  next
    case (Cons byte rest)
    obtain r where N: "decode_step L byte rest stack Never = (r, Never)"
      using cancellable_decode_step by (metis cancellable_def prod.collapse)
    with less.prems obtain rest' stack1 where step: "decode_step L byte rest stack Never = (Inr (rest', stack1), Never)"
      and go: "decode_loop L rest' stack1 Never = (Inr stack', tk)"
      by (auto simp: Cons decode_loop_Cons_Never bind_io_eq_Inr)
    have "length rest' < length bytes" using decode_step_shorter[OF step] Cons by simp
    with less.hyps[of rest' stack1] go decode_step_validates[OF step less.prems(2)]
    show ?thesis by (simp add: Cons)
  qed
qed

lemma decode_game_Inr:
  assumes "fst (decode_game_cancellable L bytes fen Never) = Inr g"
  obtains root frame where "database_setup_to_chess L fen = Inr root"
    and "decode_loop L bytes [\<lparr>frame_nodes = [], frame_chess = root, frame_pre_moves = []\<rparr>] Never
         = (Inr [frame], Never)"
    and "game_nodes g = frame_nodes frame"
proof -
  let ?start = "\<lambda>root. [\<lparr>frame_nodes = [], frame_chess = root, frame_pre_moves = []\<rparr>]"
  obtain root where root: "database_setup_to_chess L fen = Inr root"
    using assms by (auto simp: decode_game_cancellable_def split: sum.splits)
  obtain r where N: "decode_loop L bytes (?start root) Never = (r, Never)"
    using cancellable_decode_loop by (metis cancellable_def prod.collapse)
  with assms root obtain stack where r: "r = Inr stack" "length stack = 1"
    and g: "g = \<lparr>game_nodes = frame_nodes (hd stack)\<rparr>"
    by (cases r) (auto simp: decode_game_cancellable_def bind_io_def split: if_splits)
  obtain frame where "stack = [frame]" using r(2) by (cases stack) auto
  with that[OF root, of frame] N r g show thesis by simp
qed

text \<open>
  The structural validation accepts every move stream the viewer's decoder accepts, so a game
  that can be displayed is never rejected as corrupt by the mainline search.
\<close>

theorem decodable_game_validates:
  assumes "fst (decode_game_cancellable L bytes fen Never) = Inr g"
  shows "fst (validate_mainline_move_bytes bytes Never) = Inr ()
       \<and> try_iter_mainline_move_bytes bytes = Inr (mainline_new bytes)"
proof -
  from assms obtain root frame where
    "decode_loop L bytes [\<lparr>frame_nodes = [], frame_chess = root, frame_pre_moves = []\<rparr>] Never
     = (Inr [frame], Never)"
    by (rule decode_game_Inr)
  from decode_loop_validates[OF this] have "validate_mainline_move_bytes bytes Never = (Inr (), Never)"
    by (simp add: validate_mainline_move_bytes_def bind_io_def)
  then show ?thesis
    by (simp add: try_iter_mainline_move_bytes_def bind_io_def)
qed

text \<open>A stream with a variation and an annotation: move, (move), NAG, move.\<close>

definition example_stream :: "u8 list" where
  "example_stream = [0, 255, 2, 254, 252, 2, 0, 36, 49, 1]"

lemma example_stream_decodes:
  "decode_game_cancellable example_rules example_stream 0 Never =
     (Inr \<lparr>game_nodes = [NodeMove [66], NodeVariation [NodeMove [68]], NodeNag [36, 49], NodeMove [68]]\<rparr>, Never)"
  by code_simp

theorem decodable_game_validates_witness:
  "fst (validate_mainline_move_bytes example_stream Never) = Inr ()
   \<and> try_iter_mainline_move_bytes example_stream = Inr (mainline_new example_stream)"
  by (rule decodable_game_validates[where L = example_rules and fen = 0])
     (simp add: example_stream_decodes)

subsection \<open>The decoder against the mainline iterator\<close>

text \<open>Playing move bytes one after another, and the moves among the nodes of one line.\<close>

fun replay :: "('pos, 'mv, 'setup, 'mode, 'perr) chess_lib \<Rightarrow> 'pos \<Rightarrow> u8 list \<Rightarrow> (bytes list \<times> 'pos) option" where
  "replay L chess [] = Some ([], chess)"
| "replay L chess (b # bs) =
     (case decode_move L b chess of
        None \<Rightarrow> None
      | Some m \<Rightarrow>
          (case replay L (play_unchecked L chess m) bs of
             None \<Rightarrow> None
           | Some (sans, final) \<Rightarrow> Some (san_plus L chess m # sans, final)))"

fun move_sans :: "decoded_game_node list \<Rightarrow> bytes list" where
  "move_sans [] = []"
| "move_sans (NodeMove san # nodes) = san # move_sans nodes"
| "move_sans (_ # nodes) = move_sans nodes"

lemma move_sans_append [simp]: "move_sans (xs @ ys) = move_sans xs @ move_sans ys"
  by (induction xs rule: move_sans.induct) simp_all

text \<open>
  At any point of the decoder's run, the mainline bytes still to come are playable from the
  position of the bottom frame and yield the moves the bottom frame will still receive.
\<close>

lemma decode_step_mainline:
  assumes "decode_step L byte bytes stack Never = (Inr (rest, stack'), tk)" and "stack \<noteq> []"
    and "replay L (frame_chess (last stack')) (mainline_from rest (length stack' - 1)) = Some (sans, final)"
    and "move_sans (frame_nodes (last stack')) @ sans = sans_all"
  shows "\<exists>sans. replay L (frame_chess (last stack)) (mainline_from (byte # bytes) (length stack - 1))
           = Some (sans, final) \<and> move_sans (frame_nodes (last stack)) @ sans = sans_all"
  using assms(1)
proof (cases rule: decode_step_cases)
  case (start frame below)
  then show ?thesis using assms by (simp add: mainline_from_Cons)
next
  case (close frame below)
  then show ?thesis
    using assms by (cases below) (auto simp: mainline_from_Cons marker_defs push_node_def)
next
  case (comment p)
  then show ?thesis
    using assms by (cases stack) (auto simp: comment_payload_followers push_node_def)
next
  case (nag a b body)
  then show ?thesis
    using assms by (cases stack) (auto simp: mainline_from_Cons marker_defs push_node_def)
next
  case (move frame below m)
  then show ?thesis
    using assms by (cases below) (auto simp: mainline_from_Cons)
qed

lemma decode_loop_mainline:
  "decode_loop L bytes stack Never = (Inr stack', tk) \<Longrightarrow> stack \<noteq> [] \<Longrightarrow>
     \<exists>sans. replay L (frame_chess (last stack)) (mainline_from bytes (length stack - 1))
              = Some (sans, frame_chess (last stack'))
            \<and> move_sans (frame_nodes (last stack)) @ sans = move_sans (frame_nodes (last stack'))"
proof (induction "length bytes" arbitrary: bytes stack rule: less_induct)
  case less
  show ?case
  proof (cases bytes)
    case Nil
    with less.prems show ?thesis by simp
  next
    case (Cons byte rest)
    obtain r where N: "decode_step L byte rest stack Never = (r, Never)"
      using cancellable_decode_step by (metis cancellable_def prod.collapse)
    with less.prems obtain rest' stack1 where step: "decode_step L byte rest stack Never = (Inr (rest', stack1), Never)"
      and go: "decode_loop L rest' stack1 Never = (Inr stack', tk)"
      by (auto simp: Cons decode_loop_Cons_Never bind_io_eq_Inr)
    have "length rest' < length bytes" using decode_step_shorter[OF step] Cons by simp
    moreover have "stack1 \<noteq> []" using decode_step_validates[OF step less.prems(2)] by simp
    ultimately obtain sans where
      "replay L (frame_chess (last stack1)) (mainline_from rest' (length stack1 - 1))
         = Some (sans, frame_chess (last stack'))"
      "move_sans (frame_nodes (last stack1)) @ sans = move_sans (frame_nodes (last stack'))"
      using less.hyps go by blast
    from decode_step_mainline[OF step less.prems(2) this] show ?thesis by (simp add: Cons)
  qed
qed

lemma decoded_game_replay:
  assumes "fst (decode_game_cancellable L bytes fen Never) = Inr g"
  shows "\<exists>root final. database_setup_to_chess L fen = Inr root
    \<and> replay L root (iter_mainline_move_bytes bytes) = Some (move_sans (game_nodes g), final)"
proof -
  from assms obtain root frame where root: "database_setup_to_chess L fen = Inr root"
    and run: "decode_loop L bytes [\<lparr>frame_nodes = [], frame_chess = root, frame_pre_moves = []\<rparr>] Never
     = (Inr [frame], Never)" and g: "game_nodes g = frame_nodes frame"
    by (rule decode_game_Inr)
  from decode_loop_mainline[OF run]
  have "replay L root (iter_mainline_move_bytes bytes) = Some (move_sans (game_nodes g), frame_chess frame)"
    by (simp add: g iter_mainline_move_bytes_def mainline_from_def mainline_new_def)
  with root show ?thesis by blast
qed

text \<open>
  C3. The two readers of a move stream see the same game: when the viewer decodes a stream, the
  bytes the mainline iterator yields (which the position search and the ply count use) are
  legal moves one after another from the game's starting position, and they are exactly the
  moves on the decoded top line; comments, NAGs and nested variations are all skipped.
\<close>

theorem mainline_bytes_replay_decoded_game:
  assumes "fst (decode_game_cancellable L bytes fen Never) = Inr g"
  shows "\<exists>root final. database_setup_to_chess L fen = Inr root
    \<and> replay L root (iter_mainline_move_bytes bytes) = Some (move_sans (game_nodes g), final)"
  using assms by (rule decoded_game_replay)

theorem mainline_bytes_replay_decoded_game_witness:
  "\<exists>root final. database_setup_to_chess example_rules 0 = Inr root
    \<and> replay example_rules root (iter_mainline_move_bytes example_stream) = Some ([[66], [68]], final)"
  using mainline_bytes_replay_decoded_game[of example_rules example_stream 0,
      unfolded example_stream_decodes, OF fst_conv]
  by simp

end
