(* ===== verification/Importer.thy ===== *)
theory Importer
  imports StreamReaders
begin

text \<open>
  The PGN importer of \<^verbatim>\<open>db/mod.rs\<close>: the visitor that turns the callbacks of the PGN parser into a
  stored game (headers, move stream, material minima), the row it becomes, and the tag writer of
  the export. The parser, the chess library and SQLite are parameters. Vectors used as stacks
  (\<^verbatim>\<open>frames\<close>, \<^verbatim>\<open>pre_move_positions\<close>) are lists with the top first.
\<close>

subsection \<open>Material and pawn structure\<close>

record by_role =
  r_pawn :: u8
  r_knight :: u8
  r_bishop :: u8
  r_rook :: u8
  r_queen :: u8

record material_count =
  mc_white :: u16
  mc_black :: u16

text \<open>What the importer uses of the chess library beside the rules, and the number parser \<^verbatim>\<open>btoi\<close>.\<close>

record ('pos, 'mv, 'setup, 'mode, 'perr, 'san) import_lib =
  rules :: "('pos, 'mv, 'setup, 'mode, 'perr) chess_lib"
  chess_default :: 'pos
  san_to_move :: "'san \<Rightarrow> 'pos \<Rightarrow> 'mv option"
  is_promotion :: "'mv \<Rightarrow> bool"
  board_material :: "'pos \<Rightarrow> by_role \<times> by_role"
  white_pawns :: "'pos \<Rightarrow> u64"
  black_pawns :: "'pos \<Rightarrow> u64"
  fen_from_ascii :: "bytes \<Rightarrow> 'setup option"
  btoi :: "bytes \<Rightarrow> int option"

definition role_value :: "by_role \<Rightarrow> u16" where
  "role_value m = ucast (r_pawn m) + ucast (r_knight m) * 3 + ucast (r_bishop m) * 3
     + ucast (r_rook m) * 5 + ucast (r_queen m) * 9"

definition get_material_count ::
  "('pos, 'mv, 'setup, 'mode, 'perr, 'san) import_lib \<Rightarrow> 'pos \<Rightarrow> material_count" where
  "get_material_count I board =
     (case board_material I board of (w, b) \<Rightarrow> \<lparr>mc_white = role_value w, mc_black = role_value b\<rparr>)"

unbundle bit_operations_syntax

definition get_pawn_home :: "('pos, 'mv, 'setup, 'mode, 'perr, 'san) import_lib \<Rightarrow> 'pos \<Rightarrow> u16" where
  "get_pawn_home I board =
     (let second_rank_pawns = ucast (drop_bit 8 (white_pawns I board)) :: u8;
          seventh_rank_pawns = ucast (drop_bit 48 (black_pawns I board)) :: u8
      in (ucast second_rank_pawns :: u16) OR push_bit 8 (ucast seventh_rank_pawns))"

definition STANDARD_MATERIAL_BASELINE :: u16 where "STANDARD_MATERIAL_BASELINE = 39"

record material_color =
  min_white :: u16
  min_black :: u16

definition material_color_default :: material_color where
  "material_color_default =
     \<lparr>min_white = STANDARD_MATERIAL_BASELINE, min_black = STANDARD_MATERIAL_BASELINE\<rparr>"

definition minimum_material :: "('pos, 'mv, 'setup, 'mode, 'perr, 'san) import_lib
    \<Rightarrow> material_color \<Rightarrow> 'pos \<Rightarrow> material_count" where
  "minimum_material I mc board =
     (let final_material = get_material_count I board
      in \<lparr>mc_white = min (min_white mc) (mc_white final_material),
          mc_black = min (min_black mc) (mc_black final_material)\<rparr>)"

subsection \<open>The game under construction\<close>

record 'pos temp_game =
  provider_headers :: bytes
  event_name :: "bytes option"
  site_name :: "bytes option"
  g_date :: "bytes option"
  g_time :: "bytes option"
  g_round :: "bytes option"
  white_name :: "bytes option"
  white_elo :: "int option"
  black_name :: "bytes option"
  black_elo :: "int option"
  g_result :: "bytes option"
  time_control :: "bytes option"
  eco :: "bytes option"
  g_fen :: "bytes option"
  moves :: "u8 list"
  g_position :: 'pos
  g_material :: material_color
  orientation :: "bytes option"

definition temp_game_default ::
  "('pos, 'mv, 'setup, 'mode, 'perr, 'san) import_lib \<Rightarrow> 'pos temp_game" where
  "temp_game_default I =
     \<lparr>provider_headers = [], event_name = None, site_name = None, g_date = None, g_time = None,
      g_round = None, white_name = None, white_elo = None, black_name = None, black_elo = None,
      g_result = None, time_control = None, eco = None, g_fen = None, moves = [],
      g_position = chess_default I, g_material = material_color_default, orientation = None\<rparr>"

definition database_player_name :: "bytes option \<Rightarrow> bytes option" where
  "database_player_name name =
     (case name of None \<Rightarrow> None | Some n \<Rightarrow> if n \<noteq> bytes_of ''Unknown'' then Some n else None)"

definition normalize_pgn_result :: "bytes \<Rightarrow> bytes" where
  "normalize_pgn_result value =
     (let v = trim value
      in if v = bytes_of ''1-0'' then bytes_of ''1-0''
         else if v = bytes_of ''0-1'' then bytes_of ''0-1''
         else if v = bytes_of ''1/2-1/2'' \<or> v = bytes_of ''1/2''
                 \<or> v = [0xC2, 0xBD, 0x2D, 0xC2, 0xBD] then bytes_of ''1/2-1/2''
         else bytes_of ''*'')"

datatype board_orientation = OrientWhite | OrientBlack

definition from_pgn :: "bytes \<Rightarrow> board_orientation option" where
  "from_pgn value =
     (if value = bytes_of ''white'' then Some OrientWhite
      else if value = bytes_of ''black'' then Some OrientBlack else None)"

subsection \<open>Header values\<close>

text \<open>
  \<^verbatim>\<open>RawHeader::decode\<close>: a backslash before a backslash or a quote is dropped; any other one stays.
\<close>

fun raw_header_decode :: "bytes \<Rightarrow> bytes" where
  "raw_header_decode (b # c # bs) =
     (if b = 92 \<and> (c = 92 \<or> c = 34) then c # raw_header_decode bs
      else b # raw_header_decode (c # bs))"
| "raw_header_decode bs = bs"

definition decode_utf8_lossy :: "bytes \<Rightarrow> bytes" where
  "decode_utf8_lossy value = from_utf8_lossy (raw_header_decode value)"

subsection \<open>The visitor\<close>

record 'pos import_frame =
  position :: 'pos
  pre_move_positions :: "'pos list"

definition import_frame_new :: "'pos \<Rightarrow> 'pos import_frame" where
  "import_frame_new p = \<lparr>position = p, pre_move_positions = []\<rparr>"

record 'pos importer =
  game :: "'pos temp_game"
  games_started :: nat
  capture_provider_headers :: bool
  skip :: bool
  frames :: "'pos import_frame list"

definition importer_new ::
  "('pos, 'mv, 'setup, 'mode, 'perr, 'san) import_lib \<Rightarrow> bool \<Rightarrow> 'pos importer" where
  "importer_new I has_account =
     \<lparr>game = temp_game_default I, games_started = 0, capture_provider_headers = has_account,
      skip = False, frames = []\<rparr>"

definition begin_game ::
  "('pos, 'mv, 'setup, 'mode, 'perr, 'san) import_lib \<Rightarrow> 'pos importer \<Rightarrow> 'pos importer" where
  "begin_game I s =
     s\<lparr>games_started := games_started s + 1, game := temp_game_default I, skip := False, frames := []\<rparr>"

definition standard_fen :: bytes where
  "standard_fen = bytes_of ''rnbqkbnr/pppppppp/8/8/8/8/PPPPPPPP/RNBQKBNR w KQkq - 0 1''"

definition elo_value ::
  "('pos, 'mv, 'setup, 'mode, 'perr, 'san) import_lib \<Rightarrow> bytes \<Rightarrow> int option" where
  "elo_value I value = (if value = bytes_of ''-'' then Some 0 else btoi I value)"

definition capture_header :: "bytes \<Rightarrow> bytes \<Rightarrow> 'pos importer \<Rightarrow> 'pos temp_game" where
  "capture_header key value s =
     (if capture_provider_headers s \<and> (key = bytes_of ''Site'' \<or> key = bytes_of ''Link'')
      then (game s)\<lparr>provider_headers := provider_headers (game s) @ bytes_of ''['' @ key
              @ [32, 34] @ value @ [34, 93, 10]\<rparr>
      else game s)"

definition fen_header :: "('pos, 'mv, 'setup, 'mode, 'perr, 'san) import_lib \<Rightarrow> bytes
    \<Rightarrow> 'pos temp_game \<Rightarrow> bool \<Rightarrow> 'pos temp_game \<times> bool" where
  "fen_header I value g skipping =
     (if value = standard_fen then (g\<lparr>g_fen := None, g_position := chess_default I\<rparr>, skipping)
      else case fen_from_ascii I value of
             None \<Rightarrow> (g, True)
           | Some fen \<Rightarrow>
               let g = g\<lparr>g_fen := Some (decode_utf8_lossy value)\<rparr>
               in case database_setup_to_chess (rules I) fen of
                    Inr setup \<Rightarrow> (g\<lparr>g_position := setup\<rparr>, skipping)
                  | Inl _ \<Rightarrow> (g, True))"

definition header :: "('pos, 'mv, 'setup, 'mode, 'perr, 'san) import_lib \<Rightarrow> bytes \<Rightarrow> bytes
    \<Rightarrow> 'pos importer \<Rightarrow> 'pos importer" where
  "header I key value s =
     (let g = capture_header key value s
      in if key = bytes_of ''White'' then s\<lparr>game := g\<lparr>white_name := Some (decode_utf8_lossy value)\<rparr>\<rparr>
         else if key = bytes_of ''Black'' then s\<lparr>game := g\<lparr>black_name := Some (decode_utf8_lossy value)\<rparr>\<rparr>
         else if key = bytes_of ''WhiteElo'' then s\<lparr>game := g\<lparr>white_elo := elo_value I value\<rparr>\<rparr>
         else if key = bytes_of ''BlackElo'' then s\<lparr>game := g\<lparr>black_elo := elo_value I value\<rparr>\<rparr>
         else if key = bytes_of ''TimeControl'' then s\<lparr>game := g\<lparr>time_control := Some (decode_utf8_lossy value)\<rparr>\<rparr>
         else if key = bytes_of ''ECO'' then s\<lparr>game := g\<lparr>eco := Some (decode_utf8_lossy value)\<rparr>\<rparr>
         else if key = bytes_of ''Round'' then s\<lparr>game := g\<lparr>g_round := Some (decode_utf8_lossy value)\<rparr>\<rparr>
         else if key = bytes_of ''Date'' \<or> key = bytes_of ''UTCDate''
         then s\<lparr>game := g\<lparr>g_date := Some (from_utf8_lossy value)\<rparr>\<rparr>
         else if key = bytes_of ''UTCTime'' then s\<lparr>game := g\<lparr>g_time := Some (from_utf8_lossy value)\<rparr>\<rparr>
         else if key = bytes_of ''Site'' then s\<lparr>game := g\<lparr>site_name := Some (from_utf8_lossy value)\<rparr>\<rparr>
         else if key = bytes_of ''Event'' then s\<lparr>game := g\<lparr>event_name := Some (from_utf8_lossy value)\<rparr>\<rparr>
         else if key = bytes_of ''Result''
         then s\<lparr>game := g\<lparr>g_result := Some (normalize_pgn_result (from_utf8_lossy value))\<rparr>\<rparr>
         else if key = bytes_of ''Orientation''
         then (let value = decode_utf8_lossy value
               in s\<lparr>game := g\<lparr>orientation := map_option (\<lambda>_. value) (from_pgn value)\<rparr>\<rparr>)
         else if key = bytes_of ''FEN''
         then (case fen_header I value g (skip s) of (g, skipping) \<Rightarrow> s\<lparr>game := g, skip := skipping\<rparr>)
         else s\<lparr>game := g\<rparr>)"

definition end_headers :: "'pos importer \<Rightarrow> bool \<times> 'pos importer" where
  "end_headers s =
     (let s = s\<lparr>frames := [import_frame_new (g_position (game s))]\<rparr> in (skip s, s))"

definition ensure_frame :: "'pos importer \<Rightarrow> 'pos importer" where
  "ensure_frame s =
     (if frames s = [] then s\<lparr>frames := [import_frame_new (g_position (game s))]\<rparr> else s)"

definition note_material :: "('pos, 'mv, 'setup, 'mode, 'perr, 'san) import_lib \<Rightarrow> 'pos
    \<Rightarrow> material_color \<Rightarrow> material_color" where
  "note_material I chess mc =
     (let cur_material = get_material_count I chess;
          mc = (if mc_white cur_material < min_white mc then mc\<lparr>min_white := mc_white cur_material\<rparr> else mc)
      in if mc_black cur_material < min_black mc then mc\<lparr>min_black := mc_black cur_material\<rparr> else mc)"

definition san_call :: "('pos, 'mv, 'setup, 'mode, 'perr, 'san) import_lib \<Rightarrow> 'san
    \<Rightarrow> 'pos importer \<Rightarrow> 'pos importer" where
  "san_call I san s =
     (let s = ensure_frame s; is_mainline = (length (frames s) = 1)
      in case frames s of
           [] \<Rightarrow> s\<lparr>skip := True\<rparr>
         | frame # below \<Rightarrow>
             let pre_move_position = position frame
             in case san_to_move I san (position frame) of
                  None \<Rightarrow> s\<lparr>skip := True\<rparr>
                | Some m \<Rightarrow>
                    (case encode_move (rules I) m (position frame) of
                       Inl _ \<Rightarrow> s\<lparr>skip := True\<rparr>
                     | Inr encoded \<Rightarrow>
                         let g = game s;
                             g = (if is_mainline \<and> is_promotion I m
                                  then g\<lparr>g_material := note_material I (position frame) (g_material g)\<rparr>
                                  else g);
                             g = g\<lparr>moves := moves g @ [encoded]\<rparr>;
                             frame = \<lparr>position = play_unchecked (rules I) (position frame) m,
                                      pre_move_positions = pre_move_position # pre_move_positions frame\<rparr>;
                             g = (if is_mainline then g\<lparr>g_position := position frame\<rparr> else g)
                         in s\<lparr>game := g, frames := frame # below\<rparr>))"

definition begin_variation :: "'pos importer \<Rightarrow> bool \<times> 'pos importer" where
  "begin_variation s =
     (let s = ensure_frame s
      in case frames s of
           [] \<Rightarrow> (True, s\<lparr>skip := True\<rparr>)
         | parent # below \<Rightarrow>
             let variation_start =
               (case pre_move_positions parent of p # _ \<Rightarrow> p | [] \<Rightarrow> position parent)
             in (False, s\<lparr>game := (game s)\<lparr>moves := moves (game s) @ [VARIATION_START_MARKER]\<rparr>,
                          frames := import_frame_new variation_start # frames s\<rparr>))"

definition end_variation :: "'pos importer \<Rightarrow> 'pos importer" where
  "end_variation s =
     (let s = s\<lparr>game := (game s)\<lparr>moves := moves (game s) @ [VARIATION_END_MARKER]\<rparr>\<rparr>;
          s = (if 1 < length (frames s) then s\<lparr>frames := tl (frames s)\<rparr> else s\<lparr>skip := True\<rparr>)
      in if frames s = [] then s
         else s\<lparr>game := (game s)\<lparr>g_position := position (last (frames s))\<rparr>\<rparr>)"

definition comment_call :: "bytes \<Rightarrow> 'pos importer \<Rightarrow> 'pos importer" where
  "comment_call comment s =
     (let comment = from_utf8_lossy comment
      in s\<lparr>game := (game s)\<lparr>moves := encode_comment comment (moves (game s))\<rparr>\<rparr>)"

definition nag_to_string :: "u8 \<Rightarrow> bytes" where
  "nag_to_string nag = bytes_of (''$'' @ show_nat (unat nag))"

definition nag_call :: "u8 \<Rightarrow> 'pos importer \<Rightarrow> 'pos importer" where
  "nag_call nag s =
     s\<lparr>game := (game s)\<lparr>moves := encode_nag (nag_to_string nag) (moves (game s))\<rparr>\<rparr>"

definition end_game :: "('pos, 'mv, 'setup, 'mode, 'perr, 'san) import_lib \<Rightarrow> 'pos importer
    \<Rightarrow> 'pos temp_game option \<times> 'pos importer" where
  "end_game I s =
     (let s = s\<lparr>frames := []\<rparr>
      in (if skip s then None else Some (game s), s\<lparr>game := temp_game_default I\<rparr>))"

text \<open>
  The calls the parser makes in the movetext of a game, and the order in which it makes all the
  calls of one game: the movetext is skipped when the headers ask for it.
\<close>

datatype 'san movetext_call =
    CallSan 'san | CallBeginVariation | CallEndVariation | CallComment bytes | CallNag u8

fun visit :: "('pos, 'mv, 'setup, 'mode, 'perr, 'san) import_lib \<Rightarrow> 'pos importer
    \<Rightarrow> 'san movetext_call \<Rightarrow> 'pos importer" where
  "visit I s (CallSan san) = san_call I san s"
| "visit I s CallBeginVariation = snd (begin_variation s)"
| "visit I s CallEndVariation = end_variation s"
| "visit I s (CallComment c) = comment_call c s"
| "visit I s (CallNag n) = nag_call n s"

definition read_headers :: "('pos, 'mv, 'setup, 'mode, 'perr, 'san) import_lib
    \<Rightarrow> (bytes \<times> bytes) list \<Rightarrow> 'pos importer \<Rightarrow> bool \<times> 'pos importer" where
  "read_headers I headers s =
     end_headers (foldl (\<lambda>s (key, value). header I key value s) (begin_game I s) headers)"

definition read_game :: "('pos, 'mv, 'setup, 'mode, 'perr, 'san) import_lib \<Rightarrow> (bytes \<times> bytes) list
    \<Rightarrow> 'san movetext_call list \<Rightarrow> 'pos importer \<Rightarrow> 'pos temp_game option \<times> 'pos importer" where
  "read_game I headers calls s =
     (case read_headers I headers s of
        (skipping, s) \<Rightarrow> end_game I (if skipping then s else foldl (visit I) s calls))"

subsection \<open>What the importer writes\<close>

text \<open>The stream event a call appends, for a call that does not make the importer skip.\<close>

fun call_event :: "('pos, 'mv, 'setup, 'mode, 'perr, 'san) import_lib \<Rightarrow> 'pos import_frame list
    \<Rightarrow> 'san movetext_call \<Rightarrow> stream_event" where
  "call_event I fs (CallSan san) =
     (case encode_move (rules I) (the (san_to_move I san (position (hd fs)))) (position (hd fs)) of
        Inr b \<Rightarrow> MoveByte b | Inl _ \<Rightarrow> OpenVariation)"
| "call_event I fs CallBeginVariation = OpenVariation"
| "call_event I fs CallEndVariation = CloseVariation"
| "call_event I fs (CallComment c) = Comment (from_utf8_lossy c)"
| "call_event I fs (CallNag n) = Nag (nag_to_string n)"

text \<open>The decoder's stack and the importer's frames hold the same positions.\<close>

definition mirrors :: "'pos decode_frame list \<Rightarrow> 'pos import_frame list \<Rightarrow> bool" where
  "mirrors stack fs \<longleftrightarrow>
     map (\<lambda>f. (frame_chess f, frame_pre_moves f)) stack = map (\<lambda>f. (position f, pre_move_positions f)) fs"

lemma mirrors_push_node [simp]: "mirrors (push_node n stack) fs = mirrors stack fs"
  by (cases stack) (simp_all add: mirrors_def push_node_def)

lemma mirrors_length: "mirrors stack fs \<Longrightarrow> length stack = length fs"
  by (metis length_map mirrors_def)

lemma mirrors_Cons: "mirrors (d # ds) fs \<longleftrightarrow>
    (\<exists>f fs'. fs = f # fs' \<and> frame_chess d = position f \<and> frame_pre_moves d = pre_move_positions f
       \<and> mirrors ds fs')"
  by (cases fs) (auto simp: mirrors_def)

lemma mirrors_tl: "mirrors stack fs \<Longrightarrow> mirrors (tl stack) (tl fs)"
  by (simp add: mirrors_def map_tl)

lemma nag_to_string_ok: "event_ok (Nag (nag_to_string n))"
  and nag_to_string_lossy [simp]: "from_utf8_lossy (nag_to_string n) = nag_to_string n"
proof -
  have digits: "length (show_nat m) \<le> 3" if "m < 256" for m
  proof -
    have "m < 10 \<or> m div 10 < 10 \<or> m div 10 div 10 < 10" using that by auto
    then show ?thesis
      by (elim disjE) (simp_all add: show_nat.simps[of m] show_nat.simps[of "m div 10"]
          show_nat.simps[of "m div 10 div 10"])
  qed
  have "unat n < 2 ^ LENGTH(8)" by (rule unsigned_less)
  then have "unat n < 256" by simp
  from digits[OF this] show "event_ok (Nag (nag_to_string n))"
    by (simp add: nag_to_string_def U16_MAX_def)
  have small: "(word_of_nat (of_char c) :: u8) < 0x80" if "is_ascii_digit c" for c
    using that by (simp add: is_ascii_digit_def word_less_nat_alt unat_of_nat)
  have "\<forall>b\<in>set (bytes_of s). b < 0x80" if "\<forall>c\<in>set s. is_ascii_digit c" for s
    using that by (induction s) (simp_all add: small)
  then have "\<forall>b\<in>set (bytes_of (show_nat (unat n))). b < 0x80"
    using show_nat_digits by blast
  then have "\<forall>b\<in>set (nag_to_string n). b < 0x80" by (simp add: nag_to_string_def)
  then show "from_utf8_lossy (nag_to_string n) = nag_to_string n"
    by (intro from_utf8_lossy_valid utf8_valid_all_ascii) blast
qed

lemma skip_sticky: "skip s \<Longrightarrow> skip (visit I s c)"
  by (cases c) (auto simp: san_call_def begin_variation_def end_variation_def comment_call_def
      nag_call_def ensure_frame_def Let_def split: list.splits option.splits sum.splits)

lemma skip_sticky_all: "skip s \<Longrightarrow> skip (foldl (visit I) s calls)"
  by (induction calls arbitrary: s) (simp_all add: skip_sticky)

text \<open>One call: as long as the importer does not skip, it appends one event that the decoder accepts, and stays in step with it.\<close>

lemma visit_step:
  assumes "\<not> skip (visit I s c)" and "mirrors stack (frames s)" and "frames s \<noteq> []"
  defines "e \<equiv> call_event I (frames s) c"
  shows "event_ok e" and "decoder_accepts (rules I) stack e"
    and "moves (game (visit I s c)) = moves (game s) @ event_bytes e"
    and "mirrors (decoder_event (rules I) stack e) (frames (visit I s c))"
    and "frames (visit I s c) \<noteq> []"
proof -
  obtain f fs where fs: "frames s = f # fs" using assms(3) by (cases "frames s") auto
  obtain d ds where stack: "stack = d # ds" using assms(2) fs by (cases stack) (auto simp: mirrors_def)
  have d: "frame_chess d = position f" "frame_pre_moves d = pre_move_positions f" "mirrors ds fs"
    using assms(2) by (auto simp: stack fs mirrors_Cons)
  have "event_ok e \<and> decoder_accepts (rules I) stack e
    \<and> moves (game (visit I s c)) = moves (game s) @ event_bytes e
    \<and> mirrors (decoder_event (rules I) stack e) (frames (visit I s c)) \<and> frames (visit I s c) \<noteq> []"
  proof (cases c)
    case (CallSan san)
    from assms(1) obtain m b where m: "san_to_move I san (position f) = Some m"
        "encode_move (rules I) m (position f) = Inr b"
      by (auto simp: CallSan san_call_def ensure_frame_def fs Let_def split: option.splits sum.splits)
    then show ?thesis
      using encode_move_Inr[OF m(2)] d
      by (simp add: CallSan e_def san_call_def ensure_frame_def fs stack Let_def played_def mirrors_Cons)
  next
    case CallBeginVariation
    then show ?thesis using d
      by (simp add: e_def begin_variation_def ensure_frame_def fs stack Let_def mirrors_Cons
          variation_root_def import_frame_new_def split: list.split)
  next
    case CallEndVariation
    then have "1 < length (frames s)"
      using assms(1) by (auto simp: end_variation_def Let_def split: if_splits)
    then have fs': "fs \<noteq> []" using fs by auto
    then show ?thesis using d mirrors_length[OF d(3)]
      by (auto simp: CallEndVariation e_def end_variation_def fs stack Let_def)
  next
    case (CallComment t)
    then show ?thesis using assms(2,3) by (simp add: e_def comment_call_def encode_comment_append)
  next
    case (CallNag n)
    then show ?thesis using assms(2,3) nag_to_string_ok[of n]
      by (simp add: e_def nag_call_def encode_nag_short)
  qed
  then show "event_ok e" and "decoder_accepts (rules I) stack e"
    and "moves (game (visit I s c)) = moves (game s) @ event_bytes e"
    and "mirrors (decoder_event (rules I) stack e) (frames (visit I s c))"
    and "frames (visit I s c) \<noteq> []" by blast+
qed

text \<open>A whole movetext: what was appended is a stream the decoder reads back, frame by frame.\<close>

lemma visit_all:
  "\<not> skip (foldl (visit I) s calls) \<Longrightarrow> mirrors stack (frames s) \<Longrightarrow> frames s \<noteq> [] \<Longrightarrow>
   \<exists>es stack'. moves (game (foldl (visit I) s calls)) = moves (game s) @ stream_bytes es
     \<and> (\<forall>rest. decode_loop (rules I) (stream_bytes es @ rest) stack Never = decode_loop (rules I) rest stack' Never)
     \<and> mirrors stack' (frames (foldl (visit I) s calls)) \<and> frames (foldl (visit I) s calls) \<noteq> []"
proof (induction calls arbitrary: s stack)
  case Nil
  then show ?case by (intro exI[of _ "[]"] exI[of _ stack]) simp
next
  case (Cons c calls)
  let ?s = "visit I s c" and ?e = "call_event I (frames s) c"
  have ok: "\<not> skip ?s" using Cons.prems(1) skip_sticky_all by fastforce
  note step = visit_step[OF ok Cons.prems(2,3)]
  obtain es stack' where es: "moves (game (foldl (visit I) ?s calls)) = moves (game ?s) @ stream_bytes es"
    "\<forall>rest. decode_loop (rules I) (stream_bytes es @ rest) (decoder_event (rules I) stack ?e) Never
       = decode_loop (rules I) rest stack' Never"
    "mirrors stack' (frames (foldl (visit I) ?s calls))" "frames (foldl (visit I) ?s calls) \<noteq> []"
    using Cons.IH[of ?s, OF _ step(4,5)] Cons.prems(1) by auto
  have "decode_loop (rules I) (stream_bytes (?e # es) @ rest) stack Never = decode_loop (rules I) rest stack' Never"
    for rest using decoder_reads_event[OF step(1,2)] es(2) by simp
  moreover have "moves (game (foldl (visit I) s (c # calls))) = moves (game s) @ stream_bytes (?e # es)"
    using es(1) step(3) by simp
  ultimately show ?case using es(3,4) by (metis foldl_Cons)
qed

lemma read_headers_state:
  assumes "read_headers I headers s = (skipping, t)"
  shows "skip t = skipping" "frames t = [import_frame_new (g_position (game t))]" "moves (game t) = []"
proof -
  let ?h = "\<lambda>s (k, v). header I k v s"
  have keeps: "moves (game (header I k v u)) = moves (game u)" for k v u
    by (simp add: header_def capture_header_def fen_header_def Let_def split: option.split sum.split)
  have "moves (game (foldl ?h u headers)) = moves (game u)" for u
    by (induction headers arbitrary: u) (auto simp: keeps)
  then have "moves (game (foldl ?h (begin_game I s) headers)) = []"
    by (simp add: begin_game_def temp_game_default_def)
  with assms show "skip t = skipping" "frames t = [import_frame_new (g_position (game t))]"
      "moves (game t) = []"
    by (auto simp: read_headers_def end_headers_def Let_def)
qed

definition start_frame :: "'pos \<Rightarrow> 'pos decode_frame" where
  "start_frame p = \<lparr>frame_nodes = [], frame_chess = p, frame_pre_moves = []\<rparr>"

lemma mirrors_start: "mirrors [start_frame p] [import_frame_new p]"
  by (simp add: mirrors_def start_frame_def import_frame_new_def)

text \<open>
  C38. The importer stores nothing the viewer cannot read, except for one case: when a game is
  accepted, the stored move stream decodes from the game's starting position if every variation
  was closed, and otherwise the decoder rejects it for its unclosed variations. The parser does
  not close variations at the end of a game, so the second case happens.
\<close>

theorem imported_game_decodes:
  assumes "read_headers I headers s = (False, t)"
    and "read_game I headers calls s = (Some g, s')"
    and "database_setup_to_chess (rules I) fen = Inr (g_position (game t))"
  shows "if length (frames (foldl (visit I) t calls)) = 1
         then \<exists>nodes. fst (decode_game_cancellable (rules I) (moves g) fen Never) = Inr \<lparr>game_nodes = nodes\<rparr>
         else fst (decode_game_cancellable (rules I) (moves g) fen Never)
              = Inl (invalid_data ''Unclosed variation markers in encoded game'')"
proof -
  let ?u = "foldl (visit I) t calls" and ?p = "g_position (game t)"
  note t = read_headers_state[OF assms(1)]
  have u: "\<not> skip ?u" "g = game ?u"
    using assms(1,2) by (auto simp: read_game_def end_game_def Let_def split: if_splits)
  have "mirrors [start_frame ?p] (frames t)" by (simp only: t(2) mirrors_start)
  then obtain es stack' where es: "moves (game ?u) = moves (game t) @ stream_bytes es"
    "\<forall>rest. decode_loop (rules I) (stream_bytes es @ rest) [start_frame ?p] Never
       = decode_loop (rules I) rest stack' Never"
    "mirrors stack' (frames ?u)"
    using visit_all[OF u(1), of "[start_frame ?p]"] t(2) by auto
  have "decode_loop (rules I) (moves g) [start_frame ?p] Never = (Inr stack', Never)"
    using es(2)[rule_format, of "[]"] es(1) t(3) u(2) by simp
  then show ?thesis
    using mirrors_length[OF es(3)] assms(3)
    by (simp add: decode_game_cancellable_def bind_io_def start_frame_def)
qed

subsection \<open>Import and decode of a game tree\<close>

text \<open>
  The meaning of a well-nested movetext, without bytes or callbacks: the parsed tree, the calls the
  parser makes for it, and the line of nodes it denotes from a position. A variation starts before
  the last move of its parent line.
\<close>

datatype 'san pgn_node = PSan 'san | PNag u8 | PComment bytes | PVariation "'san pgn_node list"

fun node_calls :: "'san pgn_node \<Rightarrow> 'san movetext_call list" where
  "node_calls (PSan san) = [CallSan san]"
| "node_calls (PNag n) = [CallNag n]"
| "node_calls (PComment c) = [CallComment c]"
| "node_calls (PVariation ns) =
     CallBeginVariation # concat (map node_calls ns) @ [CallEndVariation]"

definition add_node :: "decoded_game_node \<Rightarrow> 'pos decode_frame \<Rightarrow> 'pos decode_frame" where
  "add_node n line = line\<lparr>frame_nodes := frame_nodes line @ [n]\<rparr>"

fun denote_node :: "('pos, 'mv, 'setup, 'mode, 'perr, 'san) import_lib \<Rightarrow> 'san pgn_node
    \<Rightarrow> 'pos decode_frame \<Rightarrow> 'pos decode_frame option" where
  "denote_node I (PSan san) line =
     map_option (\<lambda>m. played (rules I) m line) (san_to_move I san (frame_chess line))"
| "denote_node I (PNag n) line = Some (add_node (NodeNag (nag_to_string n)) line)"
| "denote_node I (PComment c) line = Some (add_node (NodeComment (from_utf8_lossy c)) line)"
| "denote_node I (PVariation ns) line =
     map_option (\<lambda>inner. add_node (NodeVariation (frame_nodes inner)) line)
       (fold (\<lambda>n acc. Option.bind acc (denote_node I n)) ns (Some (start_frame (variation_root line))))"

definition denote_line :: "('pos, 'mv, 'setup, 'mode, 'perr, 'san) import_lib \<Rightarrow> 'san pgn_node list
    \<Rightarrow> 'pos decode_frame \<Rightarrow> 'pos decode_frame option" where
  "denote_line I ns line = fold (\<lambda>n acc. Option.bind acc (denote_node I n)) ns (Some line)"

lemma denote_line_simps [simp]:
  "denote_line I [] line = Some line"
  "denote_line I (n # ns) line =
     (case denote_node I n line of None \<Rightarrow> None | Some line' \<Rightarrow> denote_line I ns line')"
proof -
  have "fold (\<lambda>n acc. Option.bind acc (denote_node I n)) ns None = None" by (induction ns) simp_all
  then show "denote_line I (n # ns) line =
     (case denote_node I n line of None \<Rightarrow> None | Some line' \<Rightarrow> denote_line I ns line')"
    by (simp add: denote_line_def split: option.split)
qed (simp add: denote_line_def)

lemma denote_variation:
  "denote_node I (PVariation ns) line =
     map_option (\<lambda>inner. add_node (NodeVariation (frame_nodes inner)) line)
       (denote_line I ns (start_frame (variation_root line)))"
  by (simp add: denote_line_def)

text \<open>
  \<open>tracks\<close>: making these calls either makes the importer skip (no meaning), or extends the stream
  by bytes that take the decoder's top frame to the denoted line.
\<close>

definition tracks :: "('pos, 'mv, 'setup, 'mode, 'perr, 'san) import_lib \<Rightarrow> 'san movetext_call list
    \<Rightarrow> 'pos importer \<Rightarrow> 'pos decode_frame \<Rightarrow> 'pos decode_frame list \<Rightarrow> 'pos decode_frame option \<Rightarrow> bool" where
  "tracks I calls s d ds r \<longleftrightarrow>
     (let s' = foldl (visit I) s calls
      in case r of
           None \<Rightarrow> skip s'
         | Some d' \<Rightarrow> \<not> skip s' \<and> mirrors (d' # ds) (frames s')
             \<and> (\<exists>bs. moves (game s') = moves (game s) @ bs
                  \<and> (\<forall>rest. decode_loop (rules I) (bs @ rest) (d # ds) Never
                        = decode_loop (rules I) rest (d' # ds) Never)))"

lemma tracks_None: "tracks I cs s d ds None \<Longrightarrow> tracks I (cs @ cs') s d ds None"
  by (simp add: tracks_def Let_def skip_sticky_all)

lemma tracks_append:
  assumes "tracks I cs s d ds (Some d1)" and "tracks I cs' (foldl (visit I) s cs) d1 ds r"
  shows "tracks I (cs @ cs') s d ds r"
proof (cases r)
  case None
  with assms(2) show ?thesis by (simp add: tracks_def Let_def)
next
  case (Some d')
  obtain bs where bs: "moves (game (foldl (visit I) s cs)) = moves (game s) @ bs"
    "\<And>rest. decode_loop (rules I) (bs @ rest) (d # ds) Never = decode_loop (rules I) rest (d1 # ds) Never"
    using assms(1) by (auto simp: tracks_def Let_def)
  obtain bs' where bs': "moves (game (foldl (visit I) s (cs @ cs'))) = moves (game s) @ bs @ bs'"
    "\<And>rest. decode_loop (rules I) (bs' @ rest) (d1 # ds) Never = decode_loop (rules I) rest (d' # ds) Never"
    using assms(2) bs(1) Some by (auto simp: tracks_def Let_def)
  have "\<forall>rest. decode_loop (rules I) ((bs @ bs') @ rest) (d # ds) Never = decode_loop (rules I) rest (d' # ds) Never"
    using bs(2) bs'(2) by simp
  with bs'(1) assms(2) Some show ?thesis by (auto simp: tracks_def Let_def)
qed

lemma tracks_call:
  assumes "\<not> skip (visit I s c)" and "mirrors (d # ds) (frames s)"
    and "decoder_event (rules I) (d # ds) (call_event I (frames s) c) = d' # ds'"
  shows "\<not> skip (visit I s c)" "mirrors (d' # ds') (frames (visit I s c))"
    "\<exists>bs. moves (game (visit I s c)) = moves (game s) @ bs
       \<and> (\<forall>rest. decode_loop (rules I) (bs @ rest) (d # ds) Never = decode_loop (rules I) rest (d' # ds') Never)"
proof -
  have "frames s \<noteq> []" using assms(2) by (auto simp: mirrors_Cons)
  note step = visit_step[OF assms(1,2) this]
  show "\<not> skip (visit I s c)" by (rule assms(1))
  show "mirrors (d' # ds') (frames (visit I s c))" using step(4) assms(3) by simp
  show "\<exists>bs. moves (game (visit I s c)) = moves (game s) @ bs
       \<and> (\<forall>rest. decode_loop (rules I) (bs @ rest) (d # ds) Never = decode_loop (rules I) rest (d' # ds') Never)"
    using step(3) decoder_reads_event[OF step(1,2)] assms(3) by auto
qed

lemma tracks_single:
  assumes "\<not> skip (visit I s c)" and "mirrors (d # ds) (frames s)"
    and "decoder_event (rules I) (d # ds) (call_event I (frames s) c) = d' # ds"
  shows "tracks I [c] s d ds (Some d')"
  using tracks_call[OF assms] by (simp add: tracks_def Let_def)

definition sans_legal :: "('pos, 'mv, 'setup, 'mode, 'perr, 'san) import_lib \<Rightarrow> bool" where
  "sans_legal I \<longleftrightarrow>
     (\<forall>san p m. san_to_move I san p = Some m \<longrightarrow> m \<in> set (legal_moves (rules I) p))
     \<and> (\<forall>p. length (legal_moves (rules I) p) \<le> 252)"

lemma tracks_line:
  assumes "\<And>n s d ds. n \<in> set ns \<Longrightarrow> \<not> skip s \<Longrightarrow> mirrors (d # ds) (frames s) \<Longrightarrow>
             tracks I (node_calls n) s d ds (denote_node I n d)"
    and "\<not> skip s" and "mirrors (d # ds) (frames s)"
  shows "tracks I (concat (map node_calls ns)) s d ds (denote_line I ns d)"
  using assms
proof (induction ns arbitrary: s d)
  case Nil
  then show ?case by (auto simp: tracks_def Let_def)
next
  case (Cons n ns)
  have first: "tracks I (node_calls n) s d ds (denote_node I n d)" using Cons.prems by simp
  show ?case
  proof (cases "denote_node I n d")
    case None
    with first show ?thesis by (simp add: tracks_None)
  next
    case (Some d1)
    let ?s = "foldl (visit I) s (node_calls n)"
    have mid: "\<not> skip ?s" "mirrors (d1 # ds) (frames ?s)"
      using first Some by (auto simp: tracks_def Let_def)
    have "tracks I (concat (map node_calls ns)) ?s d1 ds (denote_line I ns d1)"
      using Cons.IH[OF _ mid] Cons.prems(1) by simp
    with first Some show ?thesis by (simp add: tracks_append)
  qed
qed

lemma san_call_tracks:
  assumes "sans_legal I" "\<not> skip s" "mirrors (d # ds) (frames s)"
  shows "tracks I [CallSan san] s d ds
           (map_option (\<lambda>m. played (rules I) m d) (san_to_move I san (frame_chess d)))"
proof -
  obtain f fs where fs: "frames s = f # fs" "frame_chess d = position f"
    using assms(3) by (auto simp: mirrors_Cons)
  show ?thesis
  proof (cases "san_to_move I san (position f)")
    case None
    then show ?thesis
      by (simp add: fs tracks_def san_call_def ensure_frame_def Let_def)
  next
    case (Some m)
    with assms(1) obtain b where b: "encode_move (rules I) m (position f) = Inr b"
      using encode_move_total[of m "rules I" "position f"] by (auto simp: sans_legal_def)
    with Some assms(2) have "\<not> skip (visit I s (CallSan san))"
      by (simp add: fs san_call_def ensure_frame_def Let_def)
    from tracks_single[OF this assms(3)] show ?thesis
      using Some b encode_move_Inr[OF b] fs by simp
  qed
qed

lemma variation_tracks:
  assumes inner: "\<And>s' d' ds'. \<not> skip s' \<Longrightarrow> mirrors (d' # ds') (frames s') \<Longrightarrow>
      tracks I cs s' d' ds' (m d')"
    and s: "\<not> skip s" "mirrors (d # ds) (frames s)"
  shows "tracks I (CallBeginVariation # cs @ [CallEndVariation]) s d ds
           (map_option (\<lambda>l. add_node (NodeVariation (frame_nodes l)) d) (m (start_frame (variation_root d))))"
proof -
  let ?s1 = "visit I s CallBeginVariation" and ?d1 = "start_frame (variation_root d)"
  have ev: "decoder_event (rules I) (d # ds) (call_event I (frames s) CallBeginVariation) = ?d1 # d # ds"
    by (simp add: start_frame_def)
  have "\<not> skip ?s1"
    using s by (auto simp: begin_variation_def ensure_frame_def Let_def mirrors_Cons)
  note open1 = tracks_call[OF this s(2) ev]
  obtain b1 where b1: "moves (game ?s1) = moves (game s) @ b1"
    "\<And>rest. decode_loop (rules I) (b1 @ rest) (d # ds) Never = decode_loop (rules I) rest (?d1 # d # ds) Never"
    using open1(3) by blast
  note run = inner[OF open1(1,2)]
  let ?s2 = "foldl (visit I) ?s1 cs" and ?s3 = "visit I (foldl (visit I) ?s1 cs) CallEndVariation"
  show ?thesis
  proof (cases "m ?d1")
    case None
    with run have "skip ?s3" by (intro skip_sticky) (simp add: tracks_def Let_def)
    with None show ?thesis by (simp add: tracks_def Let_def)
  next
    case (Some d2)
    obtain b2 where s2: "\<not> skip ?s2" "mirrors (d2 # d # ds) (frames ?s2)"
      and b2: "moves (game ?s2) = moves (game ?s1) @ b2"
      "\<And>rest. decode_loop (rules I) (b2 @ rest) (?d1 # d # ds) Never = decode_loop (rules I) rest (d2 # d # ds) Never"
      using run Some by (auto simp: tracks_def Let_def)
    have len: "1 < length (frames ?s2)" using mirrors_length[OF s2(2)] by simp
    have "\<not> skip ?s3" using s2(1) len by (auto simp: end_variation_def Let_def)
    moreover have "decoder_event (rules I) (d2 # d # ds) (call_event I (frames ?s2) CallEndVariation)
        = add_node (NodeVariation (frame_nodes d2)) d # ds"
      by (simp add: push_node_def add_node_def)
    ultimately have close: "\<not> skip ?s3" "mirrors (add_node (NodeVariation (frame_nodes d2)) d # ds) (frames ?s3)"
      "\<exists>bs. moves (game ?s3) = moves (game ?s2) @ bs
         \<and> (\<forall>rest. decode_loop (rules I) (bs @ rest) (d2 # d # ds) Never
               = decode_loop (rules I) rest (add_node (NodeVariation (frame_nodes d2)) d # ds) Never)"
      using tracks_call[OF _ s2(2)] by blast+
    then obtain b3 where b3: "moves (game ?s3) = moves (game ?s2) @ b3"
      "\<And>rest. decode_loop (rules I) (b3 @ rest) (d2 # d # ds) Never
         = decode_loop (rules I) rest (add_node (NodeVariation (frame_nodes d2)) d # ds) Never" by blast
    have "moves (game ?s3) = moves (game s) @ b1 @ b2 @ b3" by (simp only: b1(1) b2(1) b3(1) append_assoc)
    moreover have "\<forall>rest. decode_loop (rules I) ((b1 @ b2 @ b3) @ rest) (d # ds) Never
         = decode_loop (rules I) rest (add_node (NodeVariation (frame_nodes d2)) d # ds) Never"
      by (simp add: b1(2) b2(2) b3(2))
    ultimately have "\<exists>bs. moves (game ?s3) = moves (game s) @ bs
         \<and> (\<forall>rest. decode_loop (rules I) (bs @ rest) (d # ds) Never
               = decode_loop (rules I) rest (add_node (NodeVariation (frame_nodes d2)) d # ds) Never)" by blast
    with close(1,2) Some show ?thesis by (simp add: tracks_def Let_def)
  qed
qed

lemma tracks_node:
  "sans_legal I \<Longrightarrow> \<not> skip s \<Longrightarrow> mirrors (d # ds) (frames s) \<Longrightarrow>
     tracks I (node_calls n) s d ds (denote_node I n d)"
proof (induction n arbitrary: s d ds)
  case (PSan san)
  then show ?case by (simp add: san_call_tracks)
next
  case (PNag k)
  then have "\<not> skip (visit I s (CallNag k))" by (simp add: nag_call_def)
  from tracks_single[OF this PNag(3)] show ?case by (simp add: push_node_def add_node_def)
next
  case (PComment c)
  then have "\<not> skip (visit I s (CallComment c))" by (simp add: comment_call_def)
  from tracks_single[OF this PComment(3)] show ?case by (simp add: push_node_def add_node_def)
next
  case (PVariation ns)
  have "tracks I (concat (map node_calls ns)) s' d' ds' (denote_line I ns d')"
    if "\<not> skip s'" "mirrors (d' # ds') (frames s')" for s' d' ds'
    by (rule tracks_line[OF _ that]) (use PVariation in blast)
  from variation_tracks[OF this PVariation.prems(2,3)] show ?case
    unfolding denote_variation by simp
qed

text \<open>The recorded position is the one of the main line, whatever variations are open.\<close>

lemma visit_position:
  "frames s \<noteq> [] \<Longrightarrow> g_position (game s) = position (last (frames s)) \<Longrightarrow>
     frames (visit I s c) \<noteq> [] \<and> g_position (game (visit I s c)) = position (last (frames (visit I s c)))"
proof (cases c)
  case (CallSan san)
  assume "frames s \<noteq> []" "g_position (game s) = position (last (frames s))"
  then obtain f fs where "frames s = f # fs" "g_position (game s) = position (last (f # fs))"
    by (cases "frames s") auto
  then show ?thesis
    by (cases fs) (auto simp: CallSan san_call_def ensure_frame_def Let_def split: option.splits sum.splits)
next
  case CallEndVariation
  assume "frames s \<noteq> []" "g_position (game s) = position (last (frames s))"
  then show ?thesis
    by (cases "frames s") (auto simp: CallEndVariation end_variation_def Let_def)
qed (auto simp: begin_variation_def comment_call_def nag_call_def ensure_frame_def Let_def
    split: list.splits)

lemma visit_position_all:
  "frames s \<noteq> [] \<Longrightarrow> g_position (game s) = position (last (frames s)) \<Longrightarrow>
     g_position (game (foldl (visit I) s cs)) = position (last (frames (foldl (visit I) s cs)))"
  by (induction cs arbitrary: s) (auto simp: visit_position)

text \<open>
  C1. Import and decode are inverse on game trees: for every well-nested movetext, the importer
  drops the game exactly when some move of it is illegal where it stands; otherwise the stored
  stream decodes to the very tree that was read (moves, NAGs, comments and nested variations at
  their places) and the recorded position is the end of the main line. The premises are the
  chess library's: moves read from SAN are legal and no position has more than 252 of them.
\<close>

theorem import_decode_roundtrip:
  assumes "sans_legal I" and "read_headers I headers s = (False, t)"
    and "database_setup_to_chess (rules I) fen = Inr (g_position (game t))"
  shows "case denote_line I ns (start_frame (g_position (game t))) of
      None \<Rightarrow> fst (read_game I headers (concat (map node_calls ns)) s) = None
    | Some line \<Rightarrow> \<exists>g. fst (read_game I headers (concat (map node_calls ns)) s) = Some g
        \<and> fst (decode_game_cancellable (rules I) (moves g) fen Never) = Inr \<lparr>game_nodes = frame_nodes line\<rparr>
        \<and> g_position g = frame_chess line"
proof -
  let ?d = "start_frame (g_position (game t))" and ?cs = "concat (map node_calls ns)"
  note t = read_headers_state[OF assms(2)]
  have m: "mirrors [?d] (frames t)" by (simp only: t(2) mirrors_start)
  have tr: "tracks I ?cs t ?d [] (denote_line I ns ?d)"
    by (rule tracks_line) (use t(1) m tracks_node[OF assms(1)] in auto)
  show ?thesis
  proof (cases "denote_line I ns ?d")
    case None
    with tr show ?thesis
      using assms(2) by (simp add: tracks_def read_game_def end_game_def Let_def)
  next
    case (Some l)
    let ?u = "foldl (visit I) t ?cs"
    obtain bs where u: "\<not> skip ?u" "mirrors [l] (frames ?u)" "moves (game ?u) = moves (game t) @ bs"
      and run: "\<forall>rest. decode_loop (rules I) (bs @ rest) [?d] Never = decode_loop (rules I) rest [l] Never"
      using tr unfolding Some tracks_def Let_def option.case by (elim conjE exE)
    have decoded: "decode_loop (rules I) bs [?d] Never = (Inr [l], Never)"
      using run[rule_format, of "[]"] by simp
    obtain f where "frames ?u = [f]" "position f = frame_chess l"
      using u(2) by (auto simp: mirrors_Cons mirrors_def)
    moreover have "g_position (game ?u) = position (last (frames ?u))"
      by (rule visit_position_all) (simp_all add: t(2) import_frame_new_def)
    ultimately have "g_position (game ?u) = frame_chess l" by simp
    moreover have "fst (read_game I headers ?cs s) = Some (game ?u)"
      using u(1) assms(2) by (simp add: read_game_def end_game_def Let_def)
    moreover have "fst (decode_game_cancellable (rules I) (moves (game ?u)) fen Never) = Inr \<lparr>game_nodes = frame_nodes l\<rparr>"
      using u(3) t(3) decoded assms(3) by (simp add: decode_game_cancellable_def bind_io_def start_frame_def)
    ultimately show ?thesis using Some by simp
  qed
qed

subsection \<open>Concrete imports\<close>

definition example_import :: "(nat, nat, nat, unit, unit, nat) import_lib" where
  "example_import =
     \<lparr>rules = example_rules, chess_default = 0,
      san_to_move = (\<lambda>san p. if san \<in> {p + 1, p + 2, p + 3} then Some san else None),
      is_promotion = (\<lambda>_. False),
      board_material = (\<lambda>_. (\<lparr>r_pawn = 8, r_knight = 2, r_bishop = 2, r_rook = 2, r_queen = 1\<rparr>,
                             \<lparr>r_pawn = 8, r_knight = 2, r_bishop = 2, r_rook = 2, r_queen = 1\<rparr>)),
      white_pawns = (\<lambda>_. 0xFF00), black_pawns = (\<lambda>_. 0x00FF000000000000),
      fen_from_ascii = (\<lambda>_. None), btoi = (\<lambda>_. None)\<rparr>"

lemma sans_legal_example: "sans_legal example_import"
  by (auto simp: sans_legal_def example_import_def example_rules_def split: if_splits)

definition example_after_headers :: "nat importer" where
  "example_after_headers = snd (read_headers example_import [] (importer_new example_import False))"

lemma example_headers:
  "read_headers example_import [] (importer_new example_import False) = (False, example_after_headers)"
  "g_position (game example_after_headers) = 0"
  by (simp_all add: example_after_headers_def read_headers_def begin_game_def end_headers_def Let_def
      temp_game_default_def example_import_def)

lemma example_setup: "database_setup_to_chess (rules example_import) 0 = Inr 0"
  by (simp add: example_import_def example_rules_def database_setup_to_chess_def or_else_def)

lemma example_denotes:
  "denote_line example_import [PSan 1, PVariation [PSan 2, PNag 6], PSan 3] (start_frame 0) =
     Some \<lparr>frame_nodes = [NodeMove [66], NodeVariation [NodeMove [67], NodeNag (bytes_of ''$6'')], NodeMove [68]],
           frame_chess = 3, frame_pre_moves = [1, 0]\<rparr>"
  by code_simp

theorem import_decode_roundtrip_witness:
  "\<exists>g. fst (read_game example_import [] (concat (map node_calls
            [PSan 1, PVariation [PSan 2, PNag 6], PSan 3])) (importer_new example_import False)) = Some g
     \<and> fst (decode_game_cancellable (rules example_import) (moves g) 0 Never)
         = Inr \<lparr>game_nodes = [NodeMove [66], NodeVariation [NodeMove [67], NodeNag (bytes_of ''$6'')], NodeMove [68]]\<rparr>
     \<and> g_position g = 3"
  using import_decode_roundtrip[OF sans_legal_example example_headers(1), of 0
      "[PSan 1, PVariation [PSan 2, PNag 6], PSan 3]"]
  by (simp only: example_setup example_headers(2) example_denotes option.case
      decode_frame.simps simp_thms)

lemma unclosed_import:
  "read_game example_import [] [CallSan 1, CallBeginVariation, CallSan 2] (importer_new example_import False)
     = (Some ((temp_game_default example_import)\<lparr>moves := [0, 255, 1], g_position := 1\<rparr>),
        (importer_new example_import False)\<lparr>games_started := 1\<rparr>)"
  by code_simp

lemma unclosed_frames:
  "length (frames (foldl (visit example_import) example_after_headers
     [CallSan 1, CallBeginVariation, CallSan 2])) = 2"
  by code_simp

theorem imported_game_decodes_witness:
  "fst (decode_game_cancellable (rules example_import) [0, 255, 1] 0 Never)
     = Inl (invalid_data ''Unclosed variation markers in encoded game'')"
  using imported_game_decodes[OF example_headers(1) unclosed_import, of 0, unfolded unclosed_frames]
  by (simp add: example_setup example_headers(2))

end
