(* ===== verification/GameRows.thy ===== *)
theory GameRows
  imports Importer
begin

text \<open>
  From an imported game to database rows and back to PGN tags: \<^verbatim>\<open>db/ops.rs\<close> (find or create a
  player, event or site), \<^verbatim>\<open>TempGame::insert_to_db\<close> and the tag writer of the export
  (\<^verbatim>\<open>db/mod.rs\<close>). SQLite is a parameter: it chooses row ids (\<open>new_rowid\<close>) and any statement may
  fail, as the list \<open>sql_faults\<close> of the run says.
\<close>

subsection \<open>The tables\<close>

record game_row =
  row_white_id :: int
  row_black_id :: int
  row_ply_count :: int
  row_eco :: "bytes option"
  row_round :: "bytes option"
  row_white_elo :: "int option"
  row_black_elo :: "int option"
  row_white_material :: int
  row_black_material :: int
  row_date :: "bytes option"
  row_time :: "bytes option"
  row_time_control :: "bytes option"
  row_site_id :: int
  row_event_id :: int
  row_fen :: "bytes option"
  row_result :: "bytes option"
  row_moves :: "u8 list"
  row_pawn_home :: int
  row_orientation :: "bytes option"

type_synonym named_rows = "(int \<times> bytes) list"

record sqlite =
  players :: named_rows
  events :: named_rows
  sites :: named_rows
  games :: "(int \<times> game_row) list"
  sql_faults :: "foreign option list"

text \<open>Every statement consumes one entry of the fault list; past its end statements succeed.\<close>

definition statement :: "(sqlite, unit) io" where
  "statement db =
     (case sql_faults db of
        [] \<Rightarrow> (Inr (), db)
      | None # fs \<Rightarrow> (Inr (), db\<lparr>sql_faults := fs\<rparr>)
      | Some f # fs \<Rightarrow> (Inl (Diesel f), db\<lparr>sql_faults := fs\<rparr>))"

text \<open>\<^verbatim>\<open>INSERT OR IGNORE\<close> into a table with a unique name, and the first row with a name.\<close>

definition insert_or_ignore :: "(int list \<Rightarrow> int) \<Rightarrow> bytes \<Rightarrow> named_rows \<Rightarrow> named_rows" where
  "insert_or_ignore new_rowid name rows =
     (if name \<in> snd ` set rows then rows else rows @ [(new_rowid (map fst rows), name)])"

definition row_not_found :: error where
  "row_not_found = Diesel \<lparr>foreign_text = ''Record not found'', foreign_sources = []\<rparr>"

definition first_named :: "bytes \<Rightarrow> named_rows \<Rightarrow> int result" where
  "first_named name rows =
     (case filter (\<lambda>r. snd r = name) rows of [] \<Rightarrow> Inl row_not_found | r # _ \<Rightarrow> Inr (fst r))"

text \<open>Updating the tables and a query on them, as actions.\<close>

definition modify :: "(sqlite \<Rightarrow> sqlite) \<Rightarrow> (sqlite, unit) io" where
  "modify f db = (Inr (), f db)"

definition query :: "(sqlite \<Rightarrow> 'a result) \<Rightarrow> (sqlite, 'a) io" where
  "query f db = (f db, db)"

definition create_player :: "(int list \<Rightarrow> int) \<Rightarrow> bytes \<Rightarrow> (sqlite, int) io" where
  "create_player new_rowid name =
     bind_io statement (\<lambda>_.
     bind_io (modify (players_update (insert_or_ignore new_rowid name))) (\<lambda>_.
     bind_io statement (\<lambda>_. query (\<lambda>db. first_named name (players db)))))"

definition create_event :: "(int list \<Rightarrow> int) \<Rightarrow> bytes \<Rightarrow> (sqlite, int) io" where
  "create_event new_rowid name =
     bind_io statement (\<lambda>_.
     bind_io (modify (events_update (insert_or_ignore new_rowid name))) (\<lambda>_.
     bind_io statement (\<lambda>_. query (\<lambda>db. first_named name (events db)))))"

definition create_site :: "(int list \<Rightarrow> int) \<Rightarrow> bytes \<Rightarrow> (sqlite, int) io" where
  "create_site new_rowid name =
     bind_io statement (\<lambda>_.
     bind_io (modify (sites_update (insert_or_ignore new_rowid name))) (\<lambda>_.
     bind_io statement (\<lambda>_. query (\<lambda>db. first_named name (sites db)))))"

definition create_game :: "(int list \<Rightarrow> int) \<Rightarrow> game_row \<Rightarrow> (sqlite, int) io" where
  "create_game new_rowid row =
     bind_io statement (\<lambda>_.
     bind_io (query (\<lambda>db. Inr (new_rowid (map fst (games db))))) (\<lambda>id.
     bind_io (modify (games_update (\<lambda>rows. rows @ [(id, row)]))) (\<lambda>_. return_io id)))"

definition id_or_zero :: "(bytes \<Rightarrow> (sqlite, int) io) \<Rightarrow> bytes option \<Rightarrow> (sqlite, int) io" where
  "id_or_zero create name = (case name of Some n \<Rightarrow> create n | None \<Rightarrow> return_io 0)"

definition as_i32 :: "nat \<Rightarrow> int" where
  "as_i32 n = sint (word_of_nat n :: u32)"

definition new_game :: "('pos, 'mv, 'setup, 'mode, 'perr, 'san) import_lib \<Rightarrow> 'pos temp_game
    \<Rightarrow> int \<Rightarrow> int \<Rightarrow> int \<Rightarrow> int \<Rightarrow> game_row" where
  "new_game I g white_id black_id event_id site_id =
     (let minimum = minimum_material I (g_material g) (g_position g)
      in \<lparr>row_white_id = white_id, row_black_id = black_id,
          row_ply_count = as_i32 (length (iter_mainline_move_bytes (moves g))),
          row_eco = eco g, row_round = g_round g, row_white_elo = white_elo g,
          row_black_elo = black_elo g, row_white_material = int (unat (mc_white minimum)),
          row_black_material = int (unat (mc_black minimum)), row_date = g_date g,
          row_time = g_time g, row_time_control = time_control g, row_site_id = site_id,
          row_event_id = event_id, row_fen = g_fen g, row_result = g_result g, row_moves = moves g,
          row_pawn_home = int (unat (get_pawn_home I (g_position g))),
          row_orientation = orientation g\<rparr>)"

definition insert_to_db :: "('pos, 'mv, 'setup, 'mode, 'perr, 'san) import_lib
    \<Rightarrow> (int list \<Rightarrow> int) \<Rightarrow> 'pos temp_game \<Rightarrow> (sqlite, int) io" where
  "insert_to_db I new_rowid g =
     bind_io (id_or_zero (create_player new_rowid) (database_player_name (white_name g))) (\<lambda>white_id.
     bind_io (id_or_zero (create_player new_rowid) (database_player_name (black_name g))) (\<lambda>black_id.
     bind_io (id_or_zero (create_event new_rowid) (event_name g)) (\<lambda>event_id.
     bind_io (id_or_zero (create_site new_rowid) (site_name g)) (\<lambda>site_id.
       create_game new_rowid (new_game I g white_id black_id event_id site_id)))))"

subsection \<open>The table invariant\<close>

definition rows_wf :: "named_rows \<Rightarrow> bool" where
  "rows_wf rows \<longleftrightarrow> distinct (map fst rows) \<and> distinct (map snd rows)"

definition db_wf :: "sqlite \<Rightarrow> bool" where
  "db_wf db \<longleftrightarrow> rows_wf (players db) \<and> rows_wf (events db) \<and> rows_wf (sites db)
     \<and> distinct (map fst (games db))"

text \<open>SQLite's promise on row ids.\<close>

definition fresh_ids :: "(int list \<Rightarrow> int) \<Rightarrow> bool" where
  "fresh_ids new_rowid \<longleftrightarrow> (\<forall>ids. new_rowid ids \<notin> set ids)"

lemma insert_or_ignore_wf:
  "fresh_ids new_rowid \<Longrightarrow> rows_wf rows \<Longrightarrow> rows_wf (insert_or_ignore new_rowid name rows)"
  by (auto simp: insert_or_ignore_def rows_wf_def fresh_ids_def image_iff)
     (metis list.set_map image_eqI fst_conv)

lemma insert_or_ignore_extends: "\<exists>ext. insert_or_ignore new_rowid name rows = rows @ ext"
  by (simp add: insert_or_ignore_def)

lemma first_named_Inr: "first_named name rows = Inr i \<Longrightarrow> (i, name) \<in> set rows"
proof -
  assume "first_named name rows = Inr i"
  then obtain r rs where "filter (\<lambda>r. snd r = name) rows = r # rs" "i = fst r"
    by (auto simp: first_named_def split: list.splits)
  moreover from this have "r \<in> set (filter (\<lambda>r. snd r = name) rows)" by simp
  then have "r \<in> set rows" "snd r = name" by (simp_all only: set_filter mem_Collect_eq)
  ultimately show ?thesis by (metis prod.collapse)
qed

text \<open>The tables only grow, and the games table not at all.\<close>

definition grows :: "sqlite \<Rightarrow> sqlite \<Rightarrow> bool" where
  "grows db db' \<longleftrightarrow> (\<exists>p e s. players db' = players db @ p \<and> events db' = events db @ e
     \<and> sites db' = sites db @ s) \<and> games db' = games db"

lemma grows_refl [simp]: "grows db db"
  by (simp add: grows_def)

lemma grows_trans: "grows a b \<Longrightarrow> grows b c \<Longrightarrow> grows a c"
  by (auto simp: grows_def)

lemma grows_mem:
  "grows a b \<Longrightarrow> r \<in> set (players a) \<Longrightarrow> r \<in> set (players b)"
  "grows a b \<Longrightarrow> r \<in> set (events a) \<Longrightarrow> r \<in> set (events b)"
  "grows a b \<Longrightarrow> r \<in> set (sites a) \<Longrightarrow> r \<in> set (sites b)"
  by (auto simp: grows_def)

lemma wp_modify [wp_rules]: "wp (modify f) Q E db = Q () (f db)"
  by (simp add: wp_def modify_def)

lemma wp_query [wp_rules]:
  "wp (query f) Q E db = (case f db of Inl e \<Rightarrow> E e db | Inr x \<Rightarrow> Q x db)"
  by (simp add: wp_def query_def)

lemma wp_statementI:
  assumes "db_wf db" "\<And>db'. grows db db' \<Longrightarrow> db_wf db' \<Longrightarrow> Q () db'"
    "\<And>e db'. grows db db' \<Longrightarrow> db_wf db' \<Longrightarrow> E e db'"
  shows "wp statement Q E db"
proof -
  have "statement db = (Inr (), db\<lparr>sql_faults := tl (sql_faults db)\<rparr>)
      \<or> (\<exists>e. statement db = (Inl e, db\<lparr>sql_faults := tl (sql_faults db)\<rparr>))"
    by (cases db) (auto simp: statement_def split: option.split list.split)
  then obtain fs where fs: "statement db = (Inr (), db\<lparr>sql_faults := fs\<rparr>)
      \<or> (\<exists>e. statement db = (Inl e, db\<lparr>sql_faults := fs\<rparr>))"
    by blast
  have "grows db (db\<lparr>sql_faults := fs\<rparr>)" "db_wf (db\<lparr>sql_faults := fs\<rparr>)"
    using assms(1) by (simp_all add: db_wf_def grows_def)
  with fs assms(2,3) show ?thesis by (auto simp: wp_def)
qed

text \<open>
  One contract for the three find-or-create operations: \<open>rows_of\<close> is the table the operation
  works on.
\<close>

locale named_table =
  fixes create :: "bytes \<Rightarrow> (sqlite, int) io"
    and rows_of :: "sqlite \<Rightarrow> named_rows"
  assumes rows_grow: "grows db db' \<Longrightarrow> r \<in> set (rows_of db) \<Longrightarrow> r \<in> set (rows_of db')"
    and create_spec: "db_wf db \<Longrightarrow>
      wp (create name) (\<lambda>i db'. (i, name) \<in> set (rows_of db') \<and> grows db db' \<and> db_wf db')
        (\<lambda>e db'. grows db db' \<and> db_wf db') db"
begin

lemma id_or_zero_spec:
  "db_wf db \<Longrightarrow>
     wp (id_or_zero create name)
       (\<lambda>i db'. (case name of None \<Rightarrow> i = 0 | Some n \<Rightarrow> (i, n) \<in> set (rows_of db')) \<and> grows db db' \<and> db_wf db')
       (\<lambda>e db'. grows db db' \<and> db_wf db') db"
  using create_spec[of db] by (cases name) (simp_all add: id_or_zero_def wp_rules)

lemma id_or_zero_step:
  assumes "db_wf d" "grows db d"
    and "\<And>i d'. grows d d' \<Longrightarrow> db_wf d' \<Longrightarrow> grows db d' \<Longrightarrow>
           case name of None \<Rightarrow> i = 0 | Some n \<Rightarrow> (i, n) \<in> set (rows_of d') \<Longrightarrow> Q i d'"
  shows "wp (id_or_zero create name) Q (\<lambda>_ db'. grows db db' \<and> db_wf db') d"
  by (rule wp_mono[OF id_or_zero_spec[OF assms(1)]])
     (use grows_trans[OF assms(2)] assms(3) in blast)+

text \<open>A resolved name stays resolved, whatever is created later.\<close>

lemma id_still_there:
  "grows db db' \<Longrightarrow> (case name of None \<Rightarrow> i = 0 | Some n \<Rightarrow> (i, n) \<in> set (rows_of db)) \<Longrightarrow>
     (case name of None \<Rightarrow> i = 0 | Some n \<Rightarrow> (i, n) \<in> set (rows_of db'))"
  by (auto split: option.splits intro: rows_grow)

end

text \<open>Both statements of a find-or-create may fail; the row is there when both succeed.\<close>

lemma find_or_create_spec:
  assumes "db_wf db"
    and step: "\<And>d. db_wf d \<Longrightarrow> grows d (upd d) \<and> db_wf (upd d)"
    and found: "\<And>d i. first_named name (rows_of d) = Inr i \<Longrightarrow> P i d"
  shows "wp (bind_io statement (\<lambda>_. bind_io (modify upd) (\<lambda>_.
             bind_io statement (\<lambda>_. query (\<lambda>d. first_named name (rows_of d))))))
           (\<lambda>i db'. P i db' \<and> grows db db' \<and> db_wf db') (\<lambda>e db'. grows db db' \<and> db_wf db') db"
  unfolding wp_bind wp_modify wp_query
proof (rule wp_statementI[OF assms(1)])
  fix d assume d: "grows db d" "db_wf d"
  have u: "grows db (upd d)" "db_wf (upd d)" using d step[of d] grows_trans by auto
  show "wp statement (\<lambda>x db'. case first_named name (rows_of db') of
            Inl e \<Rightarrow> grows db db' \<and> db_wf db'
          | Inr i \<Rightarrow> P i db' \<and> grows db db' \<and> db_wf db')
         (\<lambda>e db'. grows db db' \<and> db_wf db') (upd d)"
    by (rule wp_statementI[OF u(2)]) (auto intro: grows_trans[OF u(1)] found split: sum.split)
qed simp

lemma update_grows:
  assumes "fresh_ids new_rowid" "db_wf d" "ins = insert_or_ignore new_rowid name"
  shows "grows d (players_update ins d) \<and> db_wf (players_update ins d)"
    and "grows d (events_update ins d) \<and> db_wf (events_update ins d)"
    and "grows d (sites_update ins d) \<and> db_wf (sites_update ins d)"
  using assms insert_or_ignore_extends[of new_rowid name]
  by (simp_all add: grows_def db_wf_def insert_or_ignore_wf)

text \<open>
  A database engine that keeps its promise on ids makes the three operations named tables. SQLite
  documents that a new id is one larger than the largest in use, which keeps it.
\<close>

locale sqlite_ids =
  fixes new_rowid :: "int list \<Rightarrow> int"
  assumes fresh: "fresh_ids new_rowid"

sublocale sqlite_ids \<subseteq> player: named_table "create_player new_rowid" players
  unfolding create_player_def
  by unfold_locales (erule (1) grows_mem, rule find_or_create_spec,
      simp_all add: update_grows[OF fresh] first_named_Inr)

sublocale sqlite_ids \<subseteq> event: named_table "create_event new_rowid" events
  unfolding create_event_def
  by unfold_locales (erule (1) grows_mem, rule find_or_create_spec,
      simp_all add: update_grows[OF fresh] first_named_Inr)

sublocale sqlite_ids \<subseteq> site: named_table "create_site new_rowid" sites
  unfolding create_site_def
  by unfold_locales (erule (1) grows_mem, rule find_or_create_spec,
      simp_all add: update_grows[OF fresh] first_named_Inr)

definition max_rowid :: "int list \<Rightarrow> int" where
  "max_rowid ids = fold max ids 0 + 1"

lemma fold_max_ge: "a \<le> fold max ids a \<and> (\<forall>i\<in>set ids. i \<le> fold max ids (a::int))"
proof (induction ids arbitrary: a)
  case (Cons i ids)
  from Cons[of "max i a"] show ?case by auto
qed simp

interpretation max_ids: sqlite_ids max_rowid
proof
  have "\<not> fold max ids 0 + 1 \<le> fold max ids (0::int)" for ids by simp
  then show "fresh_ids max_rowid"
    using fold_max_ge[of 0] unfolding fresh_ids_def max_rowid_def by blast
qed

subsection \<open>What an inserted game refers to\<close>

text \<open>The ids of a row name what the game names; a player called Unknown, like an absent name, is id 0.\<close>

definition names_resolved :: "'pos temp_game \<Rightarrow> int \<Rightarrow> int \<Rightarrow> int \<Rightarrow> int \<Rightarrow> sqlite \<Rightarrow> bool" where
  "names_resolved g w b e s db \<longleftrightarrow>
     (case database_player_name (white_name g) of None \<Rightarrow> w = 0 | Some n \<Rightarrow> (w, n) \<in> set (players db))
   \<and> (case database_player_name (black_name g) of None \<Rightarrow> b = 0 | Some n \<Rightarrow> (b, n) \<in> set (players db))
   \<and> (case event_name g of None \<Rightarrow> e = 0 | Some n \<Rightarrow> (e, n) \<in> set (events db))
   \<and> (case site_name g of None \<Rightarrow> s = 0 | Some n \<Rightarrow> (s, n) \<in> set (sites db))"

definition inserted_row :: "('pos, 'mv, 'setup, 'mode, 'perr, 'san) import_lib \<Rightarrow> 'pos temp_game
    \<Rightarrow> sqlite \<Rightarrow> int \<Rightarrow> sqlite \<Rightarrow> bool" where
  "inserted_row I g db i db' \<longleftrightarrow>
     (\<exists>w b e s. names_resolved g w b e s db'
        \<and> games db' = games db @ [(i, new_game I g w b e s)])
     \<and> grows db (db'\<lparr>games := games db\<rparr>) \<and> db_wf db'"

context sqlite_ids
begin

lemma create_game_spec:
  assumes "db_wf d" "grows db d" "names_resolved g w b e s d"
  shows "wp (create_game new_rowid (new_game I g w b e s)) (inserted_row I g db)
           (\<lambda>_ db'. grows db db' \<and> db_wf db') d"
  unfolding create_game_def wp_bind wp_query wp_modify wp_return
proof (rule wp_statementI[OF assms(1)])
  fix d' assume d': "grows d d'" "db_wf d'"
  let ?i = "new_rowid (map fst (games d'))"
  let ?d = "games_update (\<lambda>rows. rows @ [(?i, new_game I g w b e s)]) d'"
  have g: "grows db d'" using assms(2) d'(1) by (rule grows_trans)
  have "names_resolved g w b e s ?d"
    using assms(3) grows_mem[OF d'(1)] by (auto simp: names_resolved_def split: option.splits)
  moreover have "?i \<notin> set (map fst (games d'))" using fresh by (simp only: fresh_ids_def) blast
  then have "db_wf ?d" using d'(2) by (simp add: db_wf_def)
  ultimately have "inserted_row I g db ?i ?d" using g by (auto simp: inserted_row_def grows_def)
  then show "case Inr ?i of Inl e' \<Rightarrow> grows db d' \<and> db_wf d'
      | Inr x \<Rightarrow> inserted_row I g db x (games_update (\<lambda>rows. rows @ [(x, new_game I g w b e s)]) d')"
    by simp
qed (use assms(2) grows_trans in blast)

lemma insert_spec:
  assumes "db_wf db"
  shows "wp (insert_to_db I new_rowid g) (inserted_row I g db) (\<lambda>_ db'. grows db db' \<and> db_wf db') db"
  unfolding insert_to_db_def wp_bind
proof (rule player.id_or_zero_step[OF assms grows_refl])
  fix w d1
  assume 1: "db_wf d1" "grows db d1" and w: "case database_player_name (white_name g) of
      None \<Rightarrow> w = 0 | Some n \<Rightarrow> (w, n) \<in> set (players d1)"
  show "wp (id_or_zero (create_player new_rowid) (database_player_name (black_name g)))
     (\<lambda>b. wp (id_or_zero (create_event new_rowid) (event_name g))
        (\<lambda>e. wp (id_or_zero (create_site new_rowid) (site_name g))
           (\<lambda>s. wp (create_game new_rowid (new_game I g w b e s)) (inserted_row I g db)
                 (\<lambda>_ db'. grows db db' \<and> db_wf db'))
           (\<lambda>_ db'. grows db db' \<and> db_wf db'))
        (\<lambda>_ db'. grows db db' \<and> db_wf db'))
     (\<lambda>_ db'. grows db db' \<and> db_wf db') d1"
  proof (rule player.id_or_zero_step[OF 1], rule event.id_or_zero_step, assumption, assumption,
      rule site.id_or_zero_step, assumption, assumption)
    fix b d2 e d3 s d4
    assume g: "grows d1 d2" "grows d2 d3" "grows d3 d4" and d4: "db_wf d4" "grows db d4"
      and b: "case database_player_name (black_name g) of None \<Rightarrow> b = 0 | Some n \<Rightarrow> (b, n) \<in> set (players d2)"
      and e: "case event_name g of None \<Rightarrow> e = 0 | Some n \<Rightarrow> (e, n) \<in> set (events d3)"
      and s: "case site_name g of None \<Rightarrow> s = 0 | Some n \<Rightarrow> (s, n) \<in> set (sites d4)"
    have "grows d2 d4" "grows d1 d4" using g grows_trans by blast+
    then have "names_resolved g w b e s d4"
      unfolding names_resolved_def
      using player.id_still_there[OF _ w] player.id_still_there[OF _ b]
        event.id_still_there[OF g(3) e] s by blast
    with d4 show "wp (create_game new_rowid (new_game I g w b e s)) (inserted_row I g db)
        (\<lambda>_ db'. grows db db' \<and> db_wf db') d4"
      by (rule create_game_spec)
  qed
qed

end

text \<open>
  C5. Inserting an imported game into a well-formed database, whichever statements fail: on
  success there is exactly one new game row, at the end of the table; its player, event and site
  ids name rows with exactly the names of the game (0 for an absent or reserved name), earlier
  rows are untouched and names and ids stay unique. On failure no game row was added and the
  tables are still well formed.
\<close>

theorem insert_to_db_resolves_names:
  assumes "fresh_ids new_rowid" and "db_wf db"
  shows "case insert_to_db I new_rowid g db of
      (Inr i, db') \<Rightarrow> inserted_row I g db i db'
    | (Inl _, db') \<Rightarrow> grows db db' \<and> db_wf db'"
  using sqlite_ids.insert_spec[OF _ assms(2), of new_rowid I g] assms(1)
  by (auto simp: wp_def sqlite_ids_def split: prod.splits sum.splits)

text \<open>
  The ply count stored with a game is the number of moves on the main line of the game the
  viewer decodes from the stored stream, as a 32-bit integer.
\<close>

theorem stored_ply_count:
  assumes "fresh_ids new_rowid" and "db_wf db"
    and "insert_to_db I new_rowid g db = (Inr i, db')"
    and "fst (decode_game_cancellable L (moves g) fen Never) = Inr decoded"
  shows "\<exists>row. (i, row) \<in> set (games db') \<and> row_moves row = moves g
    \<and> row_ply_count row = as_i32 (length (move_sans (game_nodes decoded)))"
proof -
  have len: "length bs = length sans" if "replay L p bs = Some (sans, q)" for p bs sans q
    using that by (induction bs arbitrary: p sans) (auto split: option.splits)
  have n: "length (iter_mainline_move_bytes (moves g)) = length (move_sans (game_nodes decoded))"
    using decoded_game_replay[OF assms(4)] len by blast
  have "wp (insert_to_db I new_rowid g) (inserted_row I g db) (\<lambda>_ db'. grows db db' \<and> db_wf db') db"
    by (rule sqlite_ids.insert_spec) (simp_all add: sqlite_ids_def assms)
  from wp_Inr[OF this assms(3)] obtain w b e s where "games db' = games db @ [(i, new_game I g w b e s)]"
    unfolding inserted_row_def by blast
  then have "(i, new_game I g w b e s) \<in> set (games db')" by simp
  with n show ?thesis by (intro exI[of _ "new_game I g w b e s"]) (simp add: new_game_def Let_def)
qed

subsection \<open>Concrete inserts\<close>

definition empty_db :: sqlite where
  "empty_db = \<lparr>players = [(0, bytes_of ''Unknown'')], events = [(0, bytes_of ''Unknown'')],
               sites = [(0, bytes_of ''Unknown'')], games = [], sql_faults = []\<rparr>"

definition example_game :: "nat temp_game" where
  "example_game = (temp_game_default example_import)\<lparr>white_name := Some (bytes_of ''Ann''),
     black_name := Some (bytes_of ''Unknown''), event_name := Some (bytes_of ''Open''),
     moves := example_stream, g_position := 3\<rparr>"

definition example_row :: game_row where
  "example_row = new_game example_import example_game 1 0 1 0"

lemma example_insert:
  "insert_to_db example_import max_rowid example_game empty_db =
     (Inr 1, \<lparr>players = [(0, bytes_of ''Unknown''), (1, bytes_of ''Ann'')],
              events = [(0, bytes_of ''Unknown''), (1, bytes_of ''Open'')],
              sites = [(0, bytes_of ''Unknown'')], games = [(1, example_row)], sql_faults = []\<rparr>)"
proof -
  have f: "white_name example_game = Some (bytes_of ''Ann'')" "site_name example_game = None"
    "black_name example_game = Some (bytes_of ''Unknown'')" "event_name example_game = Some (bytes_of ''Open'')"
    by (simp_all add: example_game_def temp_game_default_def)
  show ?thesis
    by (simp add: insert_to_db_def f database_player_name_def id_or_zero_def create_player_def
        create_event_def create_game_def bind_io_def statement_def modify_def query_def
        insert_or_ignore_def first_named_def empty_db_def max_rowid_def example_row_def)
qed

lemma empty_db_wf: "db_wf empty_db"
  by code_simp

theorem insert_to_db_resolves_names_witness:
  "db_wf empty_db \<and> inserted_row example_import example_game empty_db 1
     (snd (insert_to_db example_import max_rowid example_game empty_db))"
  using insert_to_db_resolves_names[OF max_ids.fresh empty_db_wf, of example_import example_game]
  by (simp add: example_insert empty_db_wf)

theorem stored_ply_count_witness:
  "\<exists>row. (1, row) \<in> set (games (snd (insert_to_db example_import max_rowid example_game empty_db)))
     \<and> row_moves row = example_stream \<and> row_ply_count row = as_i32 2"
proof -
  have m: "moves example_game = example_stream" by (simp add: example_game_def)
  have "fst (decode_game_cancellable example_rules (moves example_game) 0 Never)
      = Inr \<lparr>game_nodes = [NodeMove [66], NodeVariation [NodeMove [68]], NodeNag [36, 49], NodeMove [68]]\<rparr>"
    by (simp only: m example_stream_decodes fst_conv)
  from stored_ply_count[OF max_ids.fresh empty_db_wf example_insert this] show ?thesis
    by (simp add: example_insert m numeral_2_eq_2)
qed

end
