(* ===== verification/PgnTags.thy ===== *)
theory PgnTags
  imports GameRows
begin

text \<open>
  PGN header lines. The tag scanner of \<^verbatim>\<open>pgn.rs\<close> (byte spans of names and values, the brace
  comment state of a line) and the export writer of \<^verbatim>\<open>db/mod.rs\<close> (\<^verbatim>\<open>write_decoded_pgn_tag\<close>,
  \<^verbatim>\<open>PgnGame::write\<close>). The characters the scanners look at are ASCII, so a valid string is
  scanned byte by byte.
\<close>

subsection \<open>Tag pairs on a line\<close>

definition byte_at :: "bytes \<Rightarrow> nat \<Rightarrow> u8 option" where
  "byte_at bs at = (if at < length bs then Some (bs ! at) else None)"

text \<open>\<^verbatim>\<open>while bytes.get(at).is_some_and(p) { at += 1 }\<close>.\<close>

definition skip_while :: "(u8 \<Rightarrow> bool) \<Rightarrow> bytes \<Rightarrow> nat \<Rightarrow> nat" where
  "skip_while p bs at = at + length (takeWhile p (drop at bs))"

definition is_ascii_whitespace :: "u8 \<Rightarrow> bool" where
  "is_ascii_whitespace b \<longleftrightarrow> b = 32 \<or> b = 9 \<or> b = 10 \<or> b = 12 \<or> b = 13"

definition is_blank :: "u8 \<Rightarrow> bool" where
  "is_blank b \<longleftrightarrow> b = 32 \<or> b = 9"

definition is_tag_name_byte :: "u8 \<Rightarrow> bool" where
  "is_tag_name_byte b \<longleftrightarrow>
     48 \<le> b \<and> b \<le> 57 \<or> 65 \<le> b \<and> b \<le> 90 \<or> 97 \<le> b \<and> b \<le> 122 \<or> b = 95"

record tag_value_span =
  span_name :: "nat \<times> nat"
  span_value :: "nat \<times> nat"

text \<open>The loop over a quoted value: the position of its closing quote.\<close>

function scan_value :: "bytes \<Rightarrow> nat \<Rightarrow> nat option" where
  "scan_value bs at =
     (case byte_at bs at of
        None \<Rightarrow> None
      | Some b \<Rightarrow>
          if b = 34 then Some at
          else if b = 13 \<or> b = 10 then None
          else if b = 92 then
            (case byte_at bs (at + 1) of
               None \<Rightarrow> None
             | Some c \<Rightarrow> if c = 13 \<or> c = 10 then None else scan_value bs (at + 2))
          else scan_value bs (at + 1))"
  by pat_completeness auto
termination
  by (relation "measure (\<lambda>(bs, at). length bs - at)") (auto simp: byte_at_def split: if_splits)

declare scan_value.simps [simp del]

text \<open>One turn of the outer loop: a complete tag pair at \<^term>\<open>at\<close> and the position after it.\<close>

definition scan_tag :: "bytes \<Rightarrow> nat \<Rightarrow> (tag_value_span \<times> nat) option" where
  "scan_tag bs at =
     (if byte_at bs at \<noteq> Some 91 then None
      else
        let name_start = at + 1; name_end = skip_while is_tag_name_byte bs name_start
        in if name_end = name_start \<or> (byte_at bs name_end \<noteq> Some 32 \<and> byte_at bs name_end \<noteq> Some 9)
           then None
           else
             let quote = skip_while is_blank bs name_end
             in if byte_at bs quote \<noteq> Some 34 then None
                else
                  let start = quote + 1
                  in case scan_value bs start of
                       None \<Rightarrow> None
                     | Some close \<Rightarrow>
                         let bracket = skip_while is_blank bs (close + 1)
                         in if byte_at bs bracket \<noteq> Some 93 then None
                            else Some (\<lparr>span_name = (name_start, name_end), span_value = (start, close)\<rparr>,
                                       bracket + 1))"

lemma skip_while_ge: "at \<le> skip_while p bs at"
  by (simp add: skip_while_def)

lemma scan_value_ge: "scan_value bs at = Some close \<Longrightarrow> at \<le> close \<and> close < length bs"
proof (induction bs at rule: scan_value.induct)
  case (1 bs at)
  then show ?case
    by (subst (asm) (3) scan_value.simps)
       (fastforce simp: byte_at_def split: if_splits option.splits)
qed

lemma scan_tag_advances: "scan_tag bs at = Some (span, at') \<Longrightarrow> at < at' \<and> at' \<le> length bs"
proof -
  assume scan: "scan_tag bs at = Some (span, at')"
  let ?name = "skip_while is_tag_name_byte bs (at + 1)"
  let ?quote = "skip_while is_blank bs ?name"
  obtain close where close: "scan_value bs (?quote + 1) = Some close"
    and end1: "at' = skip_while is_blank bs (close + 1) + 1" "byte_at bs (at' - 1) = Some 93"
    using scan by (auto simp: scan_tag_def Let_def split: if_splits option.splits)
  from scan_value_ge[OF close] have "?quote + 1 \<le> close" by simp
  then have "at < at'"
    using skip_while_ge[of "at + 1" is_tag_name_byte bs] skip_while_ge[of ?name is_blank bs]
      skip_while_ge[of "close + 1" is_blank bs] end1(1) by linarith
  moreover have "at' \<le> length bs" using end1 by (auto simp: byte_at_def split: if_splits)
  ultimately show ?thesis by simp
qed

function tag_loop :: "bytes \<Rightarrow> nat \<Rightarrow> tag_value_span list \<Rightarrow> tag_value_span list option" where
  "tag_loop bs at spans =
     (let at = skip_while is_ascii_whitespace bs at
      in if at = length bs then (if spans = [] then None else Some spans)
         else case scan_tag bs at of
                None \<Rightarrow> None
              | Some (span, at') \<Rightarrow> tag_loop bs at' (spans @ [span]))"
  by pat_completeness auto
termination
proof (relation "measure (\<lambda>(bs, at, _). length bs - at)")
  fix bs :: bytes and at spans x p span at'
  assume x: "x = skip_while is_ascii_whitespace bs at" and p: "scan_tag bs x = Some p" "(span, at') = p"
  have "x < at'" "at' \<le> length bs" using scan_tag_advances[of bs x span at'] p by auto
  moreover have "at \<le> x" by (simp add: x skip_while_ge)
  ultimately show "((bs, at', spans @ [span]), bs, at, spans) \<in> measure (\<lambda>(bs, at, _). length bs - at)"
    by simp
qed simp

declare tag_loop.simps [simp del]

definition BOM :: bytes where "BOM = [0xEF, 0xBB, 0xBF]"

definition tag_value_spans :: "bytes \<Rightarrow> tag_value_span list option" where
  "tag_value_spans bs = tag_loop bs (if take 3 bs = BOM then 3 else 0) []"

definition is_tag_header :: "bytes \<Rightarrow> bool \<Rightarrow> bool" where
  "is_tag_header line in_brace_comment \<longleftrightarrow> \<not> in_brace_comment \<and> tag_value_spans line \<noteq> None"

subsection \<open>Brace comments\<close>

fun brace_loop :: "bytes \<Rightarrow> bool \<Rightarrow> bool \<Rightarrow> bool \<Rightarrow> bool" where
  "brace_loop [] in_brace in_quoted escaped = in_brace"
| "brace_loop (c # cs) in_brace in_quoted escaped =
     (if in_brace then brace_loop cs (c \<noteq> 125) in_quoted escaped
      else if escaped then brace_loop cs in_brace in_quoted False
      else if in_quoted \<and> c = 92 then brace_loop cs in_brace in_quoted True
      else if c = 34 then brace_loop cs in_brace (\<not> in_quoted) escaped
      else if c = 59 \<and> \<not> in_quoted then in_brace
      else if c = 123 \<and> \<not> in_quoted then brace_loop cs True in_quoted escaped
      else brace_loop cs in_brace in_quoted escaped)"

definition update_brace_comment :: "bytes \<Rightarrow> bool \<Rightarrow> bool" where
  "update_brace_comment line in_brace_comment = brace_loop line in_brace_comment False False"

subsection \<open>Writing tags\<close>

definition escape_value :: "bytes \<Rightarrow> bytes" where
  "escape_value v = concat (map (\<lambda>b. if b = 92 \<or> b = 34 then [92, b] else [b]) v)"

definition write_decoded_pgn_tag :: "bytes \<Rightarrow> bytes \<Rightarrow> bytes" where
  "write_decoded_pgn_tag name v = [91] @ name @ [32, 34] @ escape_value v @ [34, 93, 10]"

definition write_raw_tag :: "bytes \<Rightarrow> bytes \<Rightarrow> bytes" where
  "write_raw_tag name v = [91] @ name @ [32, 34] @ v @ [34, 93, 10]"

record pgn_game =
  pg_orientation :: "bytes option"
  pg_event :: "bytes option"
  pg_site :: "bytes option"
  pg_date :: "bytes option"
  pg_time :: "bytes option"
  pg_round :: "bytes option"
  pg_white :: "bytes option"
  pg_black :: "bytes option"
  pg_result :: "bytes option"
  pg_time_control :: "bytes option"
  pg_eco :: "bytes option"
  pg_white_elo :: "bytes option"
  pg_black_elo :: "bytes option"
  pg_ply_count :: "bytes option"
  pg_fen :: "bytes option"
  pg_moves :: "bytes option"

definition or_default :: "bytes option \<Rightarrow> string \<Rightarrow> bytes" where
  "or_default v d = (case v of Some x \<Rightarrow> x | None \<Rightarrow> bytes_of d)"

definition if_present :: "(bytes \<Rightarrow> bytes) \<Rightarrow> bytes option \<Rightarrow> bytes" where
  "if_present f v = (case v of Some x \<Rightarrow> f x | None \<Rightarrow> [])"

definition write_elo :: "string \<Rightarrow> bytes \<Rightarrow> bytes" where
  "write_elo name elo =
     (if elo = bytes_of ''0'' then write_raw_tag (bytes_of name) (bytes_of ''-'')
      else write_raw_tag (bytes_of name) elo)"

definition result_token :: "bytes option \<Rightarrow> bytes" where
  "result_token result =
     (if result = Some (bytes_of ''1-0'') then bytes_of ''1-0''
      else if result = Some (bytes_of ''0-1'') then bytes_of ''0-1''
      else if result = Some (bytes_of ''1/2-1/2'') then bytes_of ''1/2-1/2''
      else bytes_of ''*'')"

definition pgn_game_write :: "pgn_game \<Rightarrow> bytes" where
  "pgn_game_write g =
     write_raw_tag (bytes_of ''Event'') (or_default (pg_event g) '''')
     @ write_raw_tag (bytes_of ''Site'') (or_default (pg_site g) '''')
     @ write_raw_tag (bytes_of ''Date'') (or_default (pg_date g) '''')
     @ if_present (\<lambda>t. if t = [] then [] else write_raw_tag (bytes_of ''UTCTime'') t) (pg_time g)
     @ write_decoded_pgn_tag (bytes_of ''Round'') (or_default (pg_round g) '''')
     @ write_decoded_pgn_tag (bytes_of ''White'') (or_default (pg_white g) '''')
     @ write_decoded_pgn_tag (bytes_of ''Black'') (or_default (pg_black g) '''')
     @ write_raw_tag (bytes_of ''Result'') (or_default (pg_result g) ''*'')
     @ if_present (write_decoded_pgn_tag (bytes_of ''TimeControl'')) (pg_time_control g)
     @ if_present (write_decoded_pgn_tag (bytes_of ''ECO'')) (pg_eco g)
     @ if_present (write_elo ''WhiteElo'') (pg_white_elo g)
     @ if_present (write_elo ''BlackElo'') (pg_black_elo g)
     @ if_present (write_raw_tag (bytes_of ''PlyCount'')) (pg_ply_count g)
     @ if_present (\<lambda>f. write_raw_tag (bytes_of ''SetUp'') (bytes_of ''1'')
                        @ write_decoded_pgn_tag (bytes_of ''FEN'') f) (pg_fen g)
     @ if_present (write_decoded_pgn_tag (bytes_of ''Orientation'')) (pg_orientation g)
     @ [10]
     @ if_present (\<lambda>m. if m = [] then [] else m @ [32]) (pg_moves g)
     @ result_token (pg_result g) @ [10]
     @ [10]"

subsection \<open>Written tags are read back\<close>

lemma escape_value_simps [simp]:
  "escape_value [] = []"
  "escape_value (b # v) = (if b = 92 \<or> b = 34 then [92, b] else [b]) @ escape_value v"
  by (simp_all add: escape_value_def)

lemma ascii_neq [simp]:
  "(92::u8) \<noteq> 34" "(34::u8) \<noteq> 92" "(92::u8) \<noteq> 13" "(92::u8) \<noteq> 10" "(34::u8) \<noteq> 13"
  "(34::u8) \<noteq> 10" "(93::u8) \<noteq> 32" "(93::u8) \<noteq> 9" "(34::u8) \<noteq> 32" "(34::u8) \<noteq> 9"
  by simp_all

lemma raw_header_decode_escape: "raw_header_decode (escape_value v) = v"
proof (induction v)
  case (Cons b v)
  show ?case
  proof (cases "b = 92 \<or> b = 34")
    case True
    with Cons show ?thesis by auto
  next
    case False
    with Cons show ?thesis by (cases "escape_value v") auto
  qed
qed simp

lemma byte_at_append [simp]:
  "byte_at (pre @ b # post) (length pre) = Some b"
  "byte_at (pre @ b # c # post) (Suc (length pre)) = Some c"
  by (simp_all add: byte_at_def nth_append)

lemma scan_value_escape:
  assumes "\<forall>b\<in>set v. b \<noteq> 10 \<and> b \<noteq> 13"
  shows "scan_value (pre @ escape_value v @ 34 # post) (length pre)
           = Some (length pre + length (escape_value v))"
  using assms
proof (induction v arbitrary: pre)
  case Nil
  then show ?case by (simp add: scan_value.simps[of _ "length pre"])
next
  case (Cons b v)
  show ?case
  proof (cases "b = 92 \<or> b = 34")
    case True
    have "b \<noteq> 13" "b \<noteq> 10" using Cons.prems by simp_all
    moreover have "scan_value (pre @ 92 # b # escape_value v @ 34 # post) (Suc (Suc (length pre)))
        = Some (Suc (Suc (length pre + length (escape_value v))))"
      using Cons.IH[of "pre @ [92, b]"] Cons.prems by simp
    ultimately show ?thesis
      using True by (subst scan_value.simps) (simp del: ascii_neq add: ascii_neq(1,3,4))
  next
    case False
    moreover have "b \<noteq> 13" "b \<noteq> 10" using Cons.prems by simp_all
    moreover have "scan_value (pre @ b # escape_value v @ 34 # post) (Suc (length pre))
        = Some (Suc (length pre + length (escape_value v)))"
      using Cons.IH[of "pre @ [b]"] Cons.prems by simp
    ultimately show ?thesis by (subst scan_value.simps) simp
  qed
qed

lemma skip_while_span:
  assumes "\<forall>b\<in>set mid. p b" and "post = [] \<or> \<not> p (hd post)"
  shows "skip_while p (pre @ mid @ post) (length pre) = length pre + length mid"
proof -
  have "takeWhile p mid = mid" using assms(1) by (simp add: takeWhile_eq_all_conv)
  with assms have "takeWhile p (mid @ post) = mid" by (cases post) (auto simp: takeWhile_append)
  then show ?thesis by (simp add: skip_while_def)
qed

text \<open>
  A tag written by the export is read back exactly. For every tag name and every value
  without line breaks, the tag scanner recognises the written line as one complete header line
  with one tag, its name span is the name, and decoding its value span gives the value, however
  many quotes and backslashes it has.
\<close>

theorem written_tag_scans:
  assumes "name \<noteq> []" and "\<forall>b\<in>set name. is_tag_name_byte b"
    and "\<forall>b\<in>set v. b \<noteq> 10 \<and> b \<noteq> 13"
  defines "line \<equiv> write_decoded_pgn_tag name v"
  shows "\<exists>n1 n2 v1 v2. tag_value_spans line = Some [\<lparr>span_name = (n1, n2), span_value = (v1, v2)\<rparr>]
    \<and> take (n2 - n1) (drop n1 line) = name \<and> raw_header_decode (take (v2 - v1) (drop v1 line)) = v"
proof -
  let ?e = "escape_value v"
  define B C D E F G where "B = 91 # name" and "C = B @ [32]" and "D = C @ [34]" and "E = D @ ?e"
    and "F = E @ [34]" and "G = F @ [93]"
  note defs = B_def C_def D_def E_def F_def G_def
  have line: "line = B @ 32 # 34 # ?e @ [34, 93, 10]" "line = C @ 34 # ?e @ [34, 93, 10]"
    "line = D @ ?e @ 34 # [93, 10]" "line = E @ 34 # [93, 10]" "line = F @ 93 # [10]" "line = G @ [10]"
    by (simp_all add: line_def write_decoded_pgn_tag_def defs)
  have len: "Suc (length C) = length D" "Suc (length E) = length F" "Suc (length F) = length G"
    "Suc (length G) = length line" "length E = length D + length ?e" "length B = Suc (length name)"
    by (simp_all add: line(6)) (simp_all add: defs)
  have name_end: "skip_while is_tag_name_byte line 1 = length B"
    using skip_while_span[of name is_tag_name_byte "32 # 34 # ?e @ [34, 93, 10]" "[91]"] assms(2)
    by (simp add: line(1) B_def is_tag_name_byte_def)
  have quote: "skip_while is_blank line (length B) = length C"
    using skip_while_span[of "[32]" is_blank "34 # ?e @ [34, 93, 10]" B]
    by (simp add: line(1) C_def is_blank_def)
  have close: "scan_value line (length D) = Some (length E)"
    using scan_value_escape[OF assms(3), of D "[93, 10]"] by (simp add: line(3) len(5))
  have bracket: "skip_while is_blank line (length F) = length F"
    using skip_while_span[of "[]" is_blank "93 # [10]" F] by (simp add: line(5) is_blank_def)
  have at: "byte_at line 0 = Some 91" "byte_at line (length B) = Some 32" "byte_at line (length C) = Some 34"
    "byte_at line (length F) = Some 93"
    by (simp add: line(1) B_def byte_at_def, simp_all only: line(1), simp, simp only: line(1)[symmetric] line(2), simp,
        simp only: line(1)[symmetric] line(5), simp)
  have tag: "scan_tag line 0 = Some (\<lparr>span_name = (1, length B), span_value = (length D, length E)\<rparr>, length G)"
    using at name_end quote close bracket assms(1)
    by (simp add: scan_tag_def Let_def len(1-3,6))
  have ws: "skip_while is_ascii_whitespace line 0 = 0"
    using skip_while_span[of "[]" is_ascii_whitespace line "[]"]
    by (simp add: line(1) B_def is_ascii_whitespace_def)
  have rest: "skip_while is_ascii_whitespace line (length G) = length line"
    using skip_while_span[of "[10]" is_ascii_whitespace "[]" G] len(4)
    by (simp add: line(6)[symmetric] is_ascii_whitespace_def)
  have "take 3 line \<noteq> BOM" "0 \<noteq> length line" by (simp_all add: line(1) B_def BOM_def)
  then have "tag_value_spans line = Some [\<lparr>span_name = (1, length B), span_value = (length D, length E)\<rparr>]"
    using ws tag rest
    by (simp add: tag_value_spans_def tag_loop.simps[of line 0] tag_loop.simps[of line "length G"])
  moreover have "take (length B - 1) (drop 1 line) = name" by (simp add: line(1) B_def)
  moreover have "take (length E - length D) (drop (length D) line) = ?e" by (simp add: line(3) len(5))
  ultimately show ?thesis using raw_header_decode_escape[of v] by metis
qed

theorem written_tag_scans_witness:
  "\<exists>n1 n2 v1 v2.
     tag_value_spans (write_decoded_pgn_tag (bytes_of ''White'') [65, 34, 92])
       = Some [\<lparr>span_name = (n1, n2), span_value = (v1, v2)\<rparr>]
     \<and> take (n2 - n1) (drop n1 (write_decoded_pgn_tag (bytes_of ''White'') [65, 34, 92])) = bytes_of ''White''
     \<and> raw_header_decode (take (v2 - v1)
          (drop v1 (write_decoded_pgn_tag (bytes_of ''White'') [65, 34, 92]))) = [65, 34, 92]"
  by (rule written_tag_scans) (simp_all add: is_tag_name_byte_def)

text \<open>
  Names survive an export and a re-import: the value the importer reads from an exported
  White, Black, Round, TimeControl or ECO tag is the stored one, for every valid text.
\<close>

theorem exported_names_reimport:
  assumes "utf8_valid v"
  shows "white_name (game (header I (bytes_of ''White'') (escape_value v) s)) = Some v
    \<and> black_name (game (header I (bytes_of ''Black'') (escape_value v) s)) = Some v
    \<and> g_round (game (header I (bytes_of ''Round'') (escape_value v) s)) = Some v
    \<and> time_control (game (header I (bytes_of ''TimeControl'') (escape_value v) s)) = Some v
    \<and> eco (game (header I (bytes_of ''ECO'') (escape_value v) s)) = Some v"
proof -
  have "decode_utf8_lossy (escape_value v) = v"
    by (simp add: decode_utf8_lossy_def raw_header_decode_escape from_utf8_lossy_valid assms)
  then show ?thesis by (simp add: header_def Let_def)
qed

theorem exported_names_reimport_witness:
  "utf8_valid (bytes_of ''O(Neil)'')
   \<and> white_name (game (header example_import (bytes_of ''White'') (escape_value (bytes_of ''O(Neil)''))
       (importer_new example_import False))) = Some (bytes_of ''O(Neil)'')"
proof -
  have "utf8_valid (bytes_of ''O(Neil)'')" by (simp add: utf8_valid_ascii)
  with exported_names_reimport[OF this, of example_import "importer_new example_import False"]
  show ?thesis by blast
qed

end
