(* ===== verification/PgnScan.thy ===== *)
theory PgnScan
  imports PgnTags "HOL-Library.Code_Target_Nat"
begin

text \<open>
  The game ranges of a PGN file, \<^verbatim>\<open>pgn.rs\<close>: the line scanner, bounded range reads, page
  selection and the edit that replaces one range. A file is its bytes; offsets are natural numbers
  (a file is far below $2^{63}$ bytes). Reads of the operating system deliver what is asked for
  up to the end of the file.
\<close>

subsection \<open>Ranges\<close>

record game_range =
  range_start :: nat
  range_end :: nat

definition MAX_LINE_LEN :: nat where "MAX_LINE_LEN = 1024 * 1024"
definition MAX_PAGE_LEN :: nat where "MAX_PAGE_LEN = 1000"
definition MAX_PGN_BYTES :: nat where "MAX_PGN_BYTES = 10 * 1024 * 1024"
definition MAX_PAGE_BYTES :: nat where "MAX_PAGE_BYTES = MAX_PGN_BYTES"
definition IO_CHUNK_LEN :: nat where "IO_CHUNK_LEN = 64 * 1024"

definition byte_len :: "game_range \<Rightarrow> nat result" where
  "byte_len r =
     (if range_start r \<le> range_end r then Inr (range_end r - range_start r)
      else Inl (Conflict ''invalid cached PGN byte range''))"

definition malformed :: "string \<Rightarrow> error" where
  "malformed m = invalid_data m"

subsection \<open>The scanner\<close>

fun split_line :: "bytes \<Rightarrow> bytes \<times> bytes" where
  "split_line [] = ([], [])"
| "split_line (b # bs) =
     (if b = 10 then ([b], bs) else case split_line bs of (line, rest) \<Rightarrow> (b # line, rest))"

lemma split_line_append: "split_line bs = (line, rest) \<Longrightarrow> bs = line @ rest"
  by (induction bs arbitrary: line rest) (auto split: if_splits prod.splits)

lemma split_line_nonempty: "split_line bs = (line, rest) \<Longrightarrow> bs \<noteq> [] \<Longrightarrow> line \<noteq> []"
  by (cases bs) (auto split: if_splits prod.splits)

definition read_bounded_line :: "bytes \<Rightarrow> (bytes \<times> bytes) result" where
  "read_bounded_line bs =
     (case split_line bs of
        (line, rest) \<Rightarrow>
          if MAX_LINE_LEN < length line then Inl (malformed ''PGN line exceeds the 1 MiB limit'')
          else Inr (line, rest))"

record scan_state =
  scan_games_list :: "game_range list"
  game_start :: "nat option"
  header_block_ended :: bool
  in_brace_comment :: bool

definition set_last_end :: "game_range list \<Rightarrow> nat \<Rightarrow> game_range list" where
  "set_last_end rs e = (if rs = [] then [] else butlast rs @ [(last rs)\<lparr>range_end := e\<rparr>])"

definition first_after_blanks :: "bytes \<Rightarrow> u8 option" where
  "first_after_blanks line = (case dropWhile is_blank line of [] \<Rightarrow> None | b # _ \<Rightarrow> Some b)"

text \<open>
  One line of the loop: a header after a finished header block closes the game and opens the next,
  the first other line with content opens the first game; \<^term>\<open>start\<close> is the length of the byte
  order mark, if there is one.
\<close>

definition open_range :: "nat \<Rightarrow> nat \<Rightarrow> bool \<Rightarrow> bool \<Rightarrow> scan_state \<Rightarrow> scan_state" where
  "open_range start line_start is_header non_whitespace st =
     (if is_header \<and> header_block_ended st
      then st\<lparr>scan_games_list := set_last_end (scan_games_list st) line_start
                @ [\<lparr>range_start = line_start, range_end = line_start\<rparr>],
              game_start := Some line_start, header_block_ended := False\<rparr>
      else if non_whitespace \<and> game_start st = None
      then st\<lparr>game_start := Some (max line_start start),
              scan_games_list := scan_games_list st
                @ [\<lparr>range_start = max line_start start, range_end = max line_start start\<rparr>]\<rparr>
      else st)"

definition end_header_block :: "bool \<Rightarrow> bool \<Rightarrow> scan_state \<Rightarrow> scan_state" where
  "end_header_block is_header escaped_line st =
     (if \<not> is_header \<and> \<not> escaped_line \<and> game_start st \<noteq> None then st\<lparr>header_block_ended := True\<rparr> else st)"

definition scan_line :: "nat \<Rightarrow> nat \<Rightarrow> bytes \<Rightarrow> scan_state \<Rightarrow> scan_state" where
  "scan_line start line_start line st =
     (let is_header = is_tag_header line (in_brace_comment st);
          escaped_line = (\<not> in_brace_comment st \<and> first_after_blanks line = Some 37);
          escaped_or_line_comment =
            (escaped_line \<or> (\<not> in_brace_comment st \<and> first_after_blanks line = Some 59));
          non_whitespace = (\<not> escaped_or_line_comment \<and> trim line \<noteq> []);
          st = end_header_block is_header escaped_line (open_range start line_start is_header non_whitespace st)
      in if \<not> is_header \<and> \<not> escaped_or_line_comment
         then st\<lparr>in_brace_comment := update_brace_comment line (in_brace_comment st)\<rparr>
         else st)"

lemma end_header_block_keeps [simp]:
  "scan_games_list (end_header_block h e st) = scan_games_list st"
  "game_start (end_header_block h e st) = game_start st"
  "header_block_ended (end_header_block h e st) \<Longrightarrow> header_block_ended st \<or> game_start st \<noteq> None"
  by (auto simp: end_header_block_def split: if_splits)

lemma scan_line_effect:
  obtains non_whitespace where
    "scan_games_list (scan_line start p line st) = scan_games_list
       (open_range start p (is_tag_header line (in_brace_comment st)) non_whitespace st)"
    "game_start (scan_line start p line st) = game_start
       (open_range start p (is_tag_header line (in_brace_comment st)) non_whitespace st)"
    "header_block_ended (scan_line start p line st) \<Longrightarrow>
       header_block_ended (open_range start p (is_tag_header line (in_brace_comment st)) non_whitespace st)
       \<or> game_start (scan_line start p line st) \<noteq> None"
proof -
  have "\<exists>e nw c. scan_line start p line st =
      (let st1 = end_header_block (is_tag_header line (in_brace_comment st)) e
                   (open_range start p (is_tag_header line (in_brace_comment st)) nw st)
       in if c then st1\<lparr>in_brace_comment := update_brace_comment line (in_brace_comment st1)\<rparr> else st1)"
    unfolding scan_line_def Let_def by (intro exI) (rule refl)
  then obtain e nw c where eq: "scan_line start p line st =
      (let st1 = end_header_block (is_tag_header line (in_brace_comment st)) e
                   (open_range start p (is_tag_header line (in_brace_comment st)) nw st)
       in if c then st1\<lparr>in_brace_comment := update_brace_comment line (in_brace_comment st1)\<rparr> else st1)"
    by blast
  show thesis
    by (rule that[of nw]; cases c) (auto simp: eq Let_def dest: end_header_block_keeps(3))
qed

definition scan_cancelled :: error where
  "scan_cancelled = Io \<lparr>raw_os_error = None, io_kind = Interrupted,
     io_text = ''PGN scan cancelled'', io_sources = []\<rparr>"

definition poll_scan :: "(token, unit) io" where
  "poll_scan tk = (case is_cancelled tk of (c, tk') \<Rightarrow> (if c then Inl scan_cancelled else Inr (), tk'))"

text \<open>One turn of the loop: \<^term>\<open>None\<close> at the end of the file.\<close>

definition scan_turn :: "nat \<Rightarrow> bytes \<Rightarrow> nat \<Rightarrow> scan_state \<Rightarrow> (token, (bytes \<times> scan_state) option) io" where
  "scan_turn start rest line_start st =
     bind_io poll_scan (\<lambda>_.
     bind_io (of_result (read_bounded_line rest)) (\<lambda>(line, rest').
       if line = [] then return_io None
       else if \<not> utf8_valid line then throw_io (malformed ''PGN is not valid UTF-8'')
       else return_io (Some (rest', scan_line start line_start line st))))"

lemma scan_turn_Some:
  assumes "scan_turn start rest line_start st tk = (Inr (Some (rest', st')), tk')"
  obtains line where "split_line rest = (line, rest')" "line \<noteq> []" "utf8_valid line"
    "length line \<le> MAX_LINE_LEN" "st' = scan_line start line_start line st"
  using assms
  by (auto simp: scan_turn_def bind_io_eq_Inr read_bounded_line_def not_less split: prod.splits if_splits)

lemma scan_turn_shorter:
  "scan_turn start rest line_start st tk = (Inr (Some (rest', st')), tk') \<Longrightarrow> length rest' < length rest"
  by (auto elim!: scan_turn_Some dest!: split_line_append)

function scan_loop :: "nat \<Rightarrow> bytes \<Rightarrow> nat \<Rightarrow> scan_state \<Rightarrow> token \<Rightarrow> scan_state result \<times> token" where
  "scan_loop start rest line_start st tk =
     bind_io (scan_turn start rest line_start st) (\<lambda>r.
       case r of
         None \<Rightarrow> return_io st
       | Some (rest', st') \<Rightarrow> scan_loop start rest' (line_start + (length rest - length rest')) st') tk"
  by pat_completeness auto
termination
  by (relation "measure (\<lambda>(_, rest, _). length rest)") (auto dest: scan_turn_shorter)

declare scan_loop.simps [simp del]

definition scan_init :: scan_state where
  "scan_init = \<lparr>scan_games_list = [], game_start = None, header_block_ended = False,
                in_brace_comment = False\<rparr>"

definition scan_games_cancelled :: "bytes \<Rightarrow> (token, game_range list) io" where
  "scan_games_cancelled file =
     (let start = (if take 3 file = BOM then 3 else 0)
      in bind_io (scan_loop start (drop start file) start scan_init) (\<lambda>st.
           let rs = set_last_end (scan_games_list st) (length file)
           in if in_brace_comment st
              then throw_io (malformed ''PGN brace comment is not closed before EOF'')
              else return_io rs))"

subsection \<open>The shape of a scan\<close>

fun ranges_between :: "nat list \<Rightarrow> nat \<Rightarrow> game_range list" where
  "ranges_between [] e = []"
| "ranges_between [s] e = [\<lparr>range_start = s, range_end = e\<rparr>]"
| "ranges_between (s # t # ss) e = \<lparr>range_start = s, range_end = t\<rparr> # ranges_between (t # ss) e"

lemma ranges_between_Nil [simp]: "ranges_between ss e = [] \<longleftrightarrow> ss = []"
  by (cases "(ss, e)" rule: ranges_between.cases) auto

lemma set_last_end_between: "set_last_end (ranges_between ss e) e' = ranges_between ss e'"
  by (induction ss e rule: ranges_between.induct) (auto simp: set_last_end_def)

lemma ranges_between_snoc:
  "ss \<noteq> [] \<Longrightarrow> ranges_between (ss @ [p]) e = ranges_between ss p @ [\<lparr>range_start = p, range_end = e\<rparr>]"
  by (induction ss p rule: ranges_between.induct) auto

definition slice :: "bytes \<Rightarrow> game_range \<Rightarrow> bytes" where
  "slice file r = take (range_end r - range_start r) (drop (range_start r) file)"

lemma slices_concat:
  "sorted_wrt (<) ss \<Longrightarrow> \<forall>s\<in>set ss. s \<le> length file \<Longrightarrow> ss \<noteq> [] \<Longrightarrow>
     concat (map (slice file) (ranges_between ss (length file))) = drop (hd ss) file"
proof (induction ss "length file" rule: ranges_between.induct)
  case (3 s t ss)
  have st: "s < t" "t \<le> length file" using 3 by auto
  have "take (t - s) (drop s file) @ drop t file = drop s file"
    using st by (metis add_diff_inverse_nat append_take_drop_id drop_drop not_less order.asym add.commute)
  with 3 show ?case by (simp add: slice_def)
qed (simp_all add: slice_def)

text \<open>
  What the scanner has found when it stands at \<^term>\<open>pos\<close>: the ranges are given by the list of
  their starts, all before the position; every start but the first is a header line.
\<close>

definition header_at :: "bytes \<Rightarrow> nat \<Rightarrow> bool" where
  "header_at file p \<longleftrightarrow> tag_value_spans (fst (split_line (drop p file))) \<noteq> None"

definition scan_inv :: "bytes \<Rightarrow> nat \<Rightarrow> scan_state \<Rightarrow> bool" where
  "scan_inv file pos st \<longleftrightarrow>
     (\<exists>ss. scan_games_list st = ranges_between ss (if ss = [] then 0 else last ss)
        \<and> sorted_wrt (<) ss \<and> (\<forall>s\<in>set ss. s < pos) \<and> (\<forall>s\<in>set (tl ss). header_at file s)
        \<and> (game_start st = None \<longleftrightarrow> ss = []) \<and> (header_block_ended st \<longrightarrow> ss \<noteq> []))"

lemma scan_line_inv:
  assumes inv: "scan_inv file pos st" and start: "start \<le> pos"
    and line: "split_line (drop pos file) = (line, rest)" "line \<noteq> []"
  shows "scan_inv file (pos + length line) (scan_line start pos line st)"
proof -
  obtain ss where ss: "scan_games_list st = ranges_between ss (if ss = [] then 0 else last ss)"
      "sorted_wrt (<) ss" "\<forall>s\<in>set ss. s < pos" "\<forall>s\<in>set (tl ss). header_at file s"
      "game_start st = None \<longleftrightarrow> ss = []" "header_block_ended st \<longrightarrow> ss \<noteq> []"
    using inv by (auto simp: scan_inv_def)
  have later: "\<forall>s\<in>set ss. s < pos + length line" using ss(3) by auto
  have here: "pos < pos + length line" using line(2) by simp
  define st' where "st' = scan_line start pos line st"
  obtain nw where eff: "scan_games_list st' = scan_games_list
       (open_range start pos (is_tag_header line (in_brace_comment st)) nw st)"
    "game_start st' = game_start (open_range start pos (is_tag_header line (in_brace_comment st)) nw st)"
    "header_block_ended st' \<Longrightarrow>
       header_block_ended (open_range start pos (is_tag_header line (in_brace_comment st)) nw st)
       \<or> game_start st' \<noteq> None"
    unfolding st'_def by (rule scan_line_effect[of start pos line st]) blast
  consider (new) "is_tag_header line (in_brace_comment st)" "header_block_ended st"
      "scan_games_list st' = set_last_end (scan_games_list st) pos @ [\<lparr>range_start = pos, range_end = pos\<rparr>]"
      "game_start st' \<noteq> None"
    | (first) "ss = []" "scan_games_list st' = ranges_between [pos] pos" "game_start st' \<noteq> None"
    | (same) "scan_games_list st' = scan_games_list st" "game_start st' = game_start st"
      "header_block_ended st' \<longrightarrow> header_block_ended st \<or> game_start st \<noteq> None"
  proof (cases "is_tag_header line (in_brace_comment st) \<and> header_block_ended st")
    case True
    with eff new show ?thesis by (simp add: open_range_def)
  next
    case no: False
    show ?thesis
    proof (cases "nw \<and> game_start st = None")
      case True
      have "open_range start pos (is_tag_header line (in_brace_comment st)) nw st =
          st\<lparr>game_start := Some pos, scan_games_list := scan_games_list st @ [\<lparr>range_start = pos, range_end = pos\<rparr>]\<rparr>"
        unfolding open_range_def max_absorb1[OF start] if_not_P[OF no] if_P[OF True] by (rule refl)
      with eff(1,2) have "scan_games_list st' = scan_games_list st @ [\<lparr>range_start = pos, range_end = pos\<rparr>]"
        "game_start st' \<noteq> None" by simp_all
      moreover have "ss = []" using True ss(5) by simp
      moreover from this have "scan_games_list st = []" using ss(1) by simp
      ultimately show ?thesis by (intro first) simp_all
    next
      case False
      with no have "open_range start pos (is_tag_header line (in_brace_comment st)) nw st = st"
        by (simp only: open_range_def if_False)
      with eff same show ?thesis by auto
    qed
  qed
  then have "scan_inv file (pos + length line) st'"
  proof cases
    case new
    then have ne: "ss \<noteq> []" using ss(6) by simp
    have hd1: "header_at file pos" using new(1) line(1) by (simp add: header_at_def is_tag_header_def)
    have "scan_games_list st' = ranges_between (ss @ [pos]) (last (ss @ [pos]))"
      using new(3) ss(1) ne by (simp add: set_last_end_between ranges_between_snoc)
    then show ?thesis
      unfolding scan_inv_def using ss ne later here new(4) hd1
      by (intro exI[of _ "ss @ [pos]"]) (auto simp: sorted_wrt_append tl_append2)
  next
    case first
    then show ?thesis unfolding scan_inv_def using here by (intro exI[of _ "[pos]"]) auto
  next
    case same
    then show ?thesis unfolding scan_inv_def using ss later by (intro exI[of _ ss]) auto
  qed
  then show ?thesis by (simp only: st'_def)
qed

lemma scan_inv_mono: "scan_inv file pos st \<Longrightarrow> pos \<le> pos' \<Longrightarrow> scan_inv file pos' st"
  unfolding scan_inv_def by (metis less_le_trans)

lemma scan_loop_inv:
  "scan_loop start rest pos st tk = (Inr st', tk') \<Longrightarrow> rest = drop pos file \<Longrightarrow> start \<le> pos \<Longrightarrow>
     pos \<le> length file \<Longrightarrow> scan_inv file pos st \<Longrightarrow> scan_inv file (length file) st'"
proof (induction start rest pos st tk rule: scan_loop.induct)
  case (1 start rest pos st tk)
  obtain r tk1 where turn: "scan_turn start rest pos st tk = (Inr r, tk1)"
    and go: "(case r of None \<Rightarrow> return_io st
       | Some (rest', st1) \<Rightarrow> scan_loop start rest' (pos + (length rest - length rest')) st1) tk1 = (Inr st', tk')"
    using "1.prems"(1) unfolding scan_loop.simps[of start rest pos st tk] bind_io_eq_Inr by blast
  show ?case
  proof (cases r)
    case None
    with go have "st' = st" by simp
    then show ?thesis using scan_inv_mono[OF "1.prems"(5,4)] by simp
  next
    case (Some p)
    then obtain rest' st1 where p: "r = Some (rest', st1)" by (cases p) auto
    with turn obtain line where line: "split_line rest = (line, rest')" "line \<noteq> []"
      "st1 = scan_line start pos line st" by (auto elim: scan_turn_Some)
    have rest: "rest = line @ rest'" using line(1) by (rule split_line_append)
    have inv: "scan_inv file (pos + length line) st1"
      using scan_line_inv[OF "1.prems"(5,3)] line "1.prems"(2) by simp
    have "rest' = drop (pos + length line) file"
      using rest "1.prems"(2) by (metis append_eq_conv_conj drop_drop add.commute)
    moreover have "pos + length line \<le> length file"
    proof -
      have "length line + length rest' = length file - pos"
        using rest "1.prems"(2) by (metis length_append length_drop)
      then show ?thesis using "1.prems"(4) by linarith
    qed
    ultimately show ?thesis
      using "1.IH"[OF turn p refl] go p inv rest "1.prems"(3) by simp
  qed
qed

subsection \<open>The lines before the first game\<close>

lemma find_strip_bytes: "find_strip ps bs = Some r \<Longrightarrow> set bs \<subseteq> set r \<union> \<Union> (set ` set ps)"
proof (induction ps)
  case (Cons p ps)
  show ?case
  proof (cases "take (length p) bs = p")
    case True
    hence "bs = p @ r" using Cons.prems by (metis append_take_drop_id find_strip.simps(2) option.inject option.simps(5) strip_prefix_def)
    thus ?thesis by auto
  next
    case False
    thus ?thesis using Cons by (auto simp: strip_prefix_def)
  qed
qed simp

lemma strip_all_bytes: "set bs \<subseteq> set (strip_all ps bs) \<union> \<Union> (set ` set ps)"
proof (induction ps bs rule: strip_all.induct)
  case (1 ps bs)
  show ?case
  proof (cases "[] \<in> set ps \<or> find_strip ps bs = None")
    case True
    thus ?thesis by (subst strip_all.simps) auto
  next
    case False
    then obtain r where r: "find_strip ps bs = Some r" by auto
    have "strip_all ps bs = strip_all ps r" using False r by (subst strip_all.simps) simp
    thus ?thesis using find_strip_bytes [OF r] 1 False r by auto
  qed
qed

lemma trimmed_away:
  assumes "trim line = []" "b \<in> set line"
  shows "\<exists>p \<in> set whitespace_encodings. b \<in> set p"
proof -
  have "trim_start line = strip_all whitespace_encodings line" "strip_all (map rev whitespace_encodings) (rev (trim_start line)) = []"
    using assms(1) by (simp_all add: trim_def trim_end_def trim_start_def)
  hence "set line \<subseteq> \<Union> (set ` set whitespace_encodings)"
    using strip_all_bytes [of line whitespace_encodings] strip_all_bytes [of "rev (trim_start line)" "map rev whitespace_encodings"]
    by auto
  thus ?thesis using assms(2) by auto
qed

lemma blank_line_opens_no_comment: "trim line = [] \<Longrightarrow> \<not> update_brace_comment line False"
proof -
  assume "trim line = []"
  hence "123 \<notin> set line" using trimmed_away [of line 123] by (auto simp: whitespace_encodings_def)
  moreover have "123 \<notin> set cs \<Longrightarrow> \<not> brace_loop cs False q e" for cs q e
    by (induction cs arbitrary: q e) auto
  ultimately show ?thesis by (simp add: update_brace_comment_def)
qed

text \<open>A line the scanner passes over before the first game: blank, escaped or a line comment.\<close>

definition passed_over :: "bytes \<Rightarrow> bool" where
  "passed_over line \<longleftrightarrow> trim line = [] \<or> first_after_blanks line = Some 37 \<or> first_after_blanks line = Some 59"

definition before_games :: "scan_state \<Rightarrow> bool" where
  "before_games st \<longleftrightarrow> scan_games_list st = [] \<and> game_start st = None \<and> \<not> header_block_ended st \<and> \<not> in_brace_comment st"

lemma passed_over_line:
  assumes "before_games st" "passed_over line"
  shows "before_games (scan_line start pos line st)"
  using assms blank_line_opens_no_comment [of line]
  by (auto simp: before_games_def passed_over_def scan_line_def Let_def open_range_def end_header_block_def)

lemma first_game_line:
  assumes "before_games st" "\<not> passed_over line" "start \<le> pos"
  shows "map range_start (scan_games_list (scan_line start pos line st)) = [pos]
    \<and> game_start (scan_line start pos line st) \<noteq> None"
  using assms by (auto simp: before_games_def passed_over_def scan_line_def Let_def open_range_def end_header_block_def)

lemma first_start_stays:
  assumes "scan_games_list st \<noteq> []" "game_start st \<noteq> None"
  shows "scan_games_list (scan_line start pos line st) \<noteq> [] \<and> game_start (scan_line start pos line st) \<noteq> None
    \<and> range_start (hd (scan_games_list (scan_line start pos line st))) = range_start (hd (scan_games_list st))"
proof -
  have "range_start (hd (set_last_end rs e @ xs)) = range_start (hd rs)" if "rs \<noteq> []" for rs e xs
    using that by (cases rs rule: rev_cases; cases "butlast rs") (auto simp: set_last_end_def)
  thus ?thesis using assms by (auto simp: scan_line_def Let_def open_range_def end_header_block_def)
qed

lemma scan_loop_keeps_first:
  assumes "scan_loop start rest pos st tk = (Inr st', tk')" "scan_games_list st \<noteq> []" "game_start st \<noteq> None"
  shows "scan_games_list st' \<noteq> [] \<and> range_start (hd (scan_games_list st')) = range_start (hd (scan_games_list st))"
  using assms
proof (induction start rest pos st tk rule: scan_loop.induct)
  case (1 start rest pos st tk)
  obtain r tk1 where turn: "scan_turn start rest pos st tk = (Inr r, tk1)"
    and go: "(case r of None \<Rightarrow> return_io st
       | Some (rest', st1) \<Rightarrow> scan_loop start rest' (pos + (length rest - length rest')) st1) tk1 = (Inr st', tk')"
    using "1.prems"(1) unfolding scan_loop.simps[of start rest pos st tk] bind_io_eq_Inr by blast
  show ?case
  proof (cases r)
    case (Some p)
    then obtain rest' st1 where p: "r = Some (rest', st1)" by (cases p) auto
    with turn obtain line where "st1 = scan_line start pos line st" by (auto elim: scan_turn_Some)
    thus ?thesis
      using "1.IH"[OF turn p refl] go p first_start_stays [OF "1.prems"(2,3), of start pos line] by auto
  qed (use go "1.prems" in simp)
qed

text \<open>The first range begins at the first line that is not passed over.\<close>

definition opens_first :: "bytes \<Rightarrow> nat \<Rightarrow> bool" where
  "opens_first text n \<longleftrightarrow> (\<exists>ls. take n text = concat ls \<and> list_all passed_over ls)
     \<and> \<not> passed_over (fst (split_line (drop n text)))"

lemma opens_first_later:
  assumes "split_line text = (line, rest)" "passed_over line" "opens_first rest n"
  shows "opens_first text (length line + n)"
proof -
  have cut: "text = line @ rest" using assms(1) by (rule split_line_append)
  obtain ls where "take n rest = concat ls" "list_all passed_over ls" using assms(3) by (auto simp: opens_first_def)
  hence "take (length line + n) text = concat (line # ls) \<and> list_all passed_over (line # ls)"
    using cut assms(2) by simp
  moreover have "drop (length line + n) text = drop n rest" using cut by simp
  ultimately show ?thesis using assms(3) unfolding opens_first_def by (metis (no_types))
qed

lemma scan_loop_opens_first:
  assumes "scan_loop start rest pos st tk = (Inr st', tk')" "before_games st" "start \<le> pos" "scan_games_list st' \<noteq> []"
  shows "\<exists>n. range_start (hd (scan_games_list st')) = pos + n \<and> opens_first rest n"
  using assms
proof (induction start rest pos st tk rule: scan_loop.induct)
  case (1 start rest pos st tk)
  obtain r tk1 where turn: "scan_turn start rest pos st tk = (Inr r, tk1)"
    and go: "(case r of None \<Rightarrow> return_io st
       | Some (rest', st1) \<Rightarrow> scan_loop start rest' (pos + (length rest - length rest')) st1) tk1 = (Inr st', tk')"
    using "1.prems"(1) unfolding scan_loop.simps[of start rest pos st tk] bind_io_eq_Inr by blast
  show ?case
  proof (cases r)
    case None
    thus ?thesis using go "1.prems"(2,4) by (auto simp: before_games_def)
  next
    case (Some p)
    then obtain rest' st1 where p: "r = Some (rest', st1)" by (cases p) auto
    with turn obtain line where line: "split_line rest = (line, rest')" "st1 = scan_line start pos line st"
      by (auto elim: scan_turn_Some)
    have rest: "rest = line @ rest'" using line(1) by (rule split_line_append)
    hence loop: "scan_loop start rest' (pos + length line) st1 tk1 = (Inr st', tk')" using go p by simp
    show ?thesis
    proof (cases "passed_over line")
      case True
      have "before_games st1" using passed_over_line [OF "1.prems"(2) True] line(2) by simp
      then obtain n where "range_start (hd (scan_games_list st')) = pos + length line + n" "opens_first rest' n"
        using "1.IH"[OF turn p refl] loop rest "1.prems"(3,4) by auto
      thus ?thesis using opens_first_later [OF line(1) True] by (metis add.assoc)
    next
      case False
      note first = first_game_line [OF "1.prems"(2) False "1.prems"(3), folded line(2)]
      have "range_start (hd (scan_games_list st')) = pos"
        using scan_loop_keeps_first [OF loop] first by (cases "scan_games_list st1") auto
      moreover have "opens_first rest 0" using False line(1) by (auto simp: opens_first_def intro: exI [of _ "[]"])
      ultimately show ?thesis by (metis add.right_neutral)
    qed
  qed
qed

lemma range_start_hd: "ss \<noteq> [] \<Longrightarrow> range_start (hd (ranges_between ss e)) = hd ss"
  by (cases "(ss, e)" rule: ranges_between.cases) auto


text \<open>Two games, the second with a comment that looks like a header.\<close>

definition example_pgn :: bytes where
  "example_pgn = write_raw_tag (bytes_of ''A'') [] @ [10] @ bytes_of ''1. e4 *'' @ [10]
     @ write_raw_tag (bytes_of ''B'') [] @ [10] @ bytes_of ''{ [C ] } *'' @ [10]"

lemma example_pgn_scan:
  "scan_games_cancelled example_pgn Never =
     (Inr [\<lparr>range_start = 0, range_end = 16\<rparr>, \<lparr>range_start = 16, range_end = 35\<rparr>], Never)"
  by code_simp


end
