(* ===== verification/PgnAccess.thy ===== *)
theory PgnAccess
  imports PgnScan
begin

text \<open>
  Reading and editing the ranges of a scanned PGN file, \<^verbatim>\<open>pgn.rs\<close>, with the index checks of
  \<^verbatim>\<open>infra/validation.rs\<close>: bounded chunked reads, the selection of one page of games, and the edit
  that copies a file with one range replaced or removed.
\<close>

subsection \<open>Checked indices\<close>

definition valid_game_index :: "int \<Rightarrow> nat result" where
  "valid_game_index idx =
     (if idx < 0 then Inl (InvalidInput ''Invalid game index'') else Inr (nat idx))"

definition USIZE_LIMIT :: nat where "USIZE_LIMIT = 2 ^ 64"

definition valid_game_range :: "int \<Rightarrow> int \<Rightarrow> (nat \<times> nat) result" where
  "valid_game_range start stop =
     (if start < 0 \<or> stop < start then Inl (InvalidInput ''Invalid game range'')
      else let start_u = nat start; end_u = nat stop
           in if end_u < start_u \<or> USIZE_LIMIT \<le> end_u - start_u + 1
              then Inl (InvalidInput ''Range count overflow'')
              else Inr (start_u, end_u - start_u + 1))"

definition checked_index :: "int \<Rightarrow> nat result" where
  "checked_index n = valid_game_index n"

definition checked_range :: "int \<Rightarrow> int \<Rightarrow> (nat \<times> nat) result" where
  "checked_range start stop =
     (case valid_game_range start stop of
        Inl e \<Rightarrow> Inl e
      | Inr (start, count) \<Rightarrow>
          if MAX_PAGE_LEN < count then Inl (ResourceLimit ''PGN page exceeds 1000 games'')
          else Inr (start, count))"

subsection \<open>Reading ranges\<close>

definition unexpected_eof :: error where
  "unexpected_eof = Io \<lparr>raw_os_error = None, io_kind = UnexpectedEof,
     io_text = ''failed to fill whole buffer'', io_sources = []\<rparr>"

text \<open>The chunk loop over \<^term>\<open>len\<close> bytes from \<^term>\<open>base\<close>; one poll before every chunk.\<close>

function read_chunks :: "bytes \<Rightarrow> nat \<Rightarrow> nat \<Rightarrow> nat \<Rightarrow> bytes \<Rightarrow> token \<Rightarrow> bytes result \<times> token" where
  "read_chunks file base offset len data tk =
     (if offset < len then
        bind_io check_token (\<lambda>_.
          let chunk = min (len - offset) IO_CHUNK_LEN
          in if length file < base + offset + chunk then throw_io unexpected_eof
             else read_chunks file base (offset + chunk) len
                    (data @ take chunk (drop (base + offset) file))) tk
      else (Inr data, tk))"
  by pat_completeness auto
termination
  by (relation "measure (\<lambda>(_, _, offset, len, _, _). len - offset)") (auto simp: IO_CHUNK_LEN_def)

declare read_chunks.simps [simp del]

definition read_range_bytes :: "bytes \<Rightarrow> game_range \<Rightarrow> (token, bytes) io" where
  "read_range_bytes file r =
     bind_io (of_result (byte_len r)) (\<lambda>len.
       if USIZE_LIMIT \<le> len then throw_io (ResourceLimit ''PGN game is too large'')
       else if MAX_PGN_BYTES < len then throw_io (ResourceLimit ''PGN game exceeds 10 MiB'')
       else read_chunks file (range_start r) 0 len [])"

definition read_ranges :: "bytes \<Rightarrow> game_range list \<Rightarrow> (token, bytes list) io" where
  "read_ranges file ranges =
     for_io (\<lambda>r acc.
       bind_io check_token (\<lambda>_.
       bind_io (read_range_bytes file r) (\<lambda>data.
         if utf8_valid data then return_io (acc @ [data])
         else throw_io (malformed ''invalid UTF-8 PGN''))))
       ranges []"

subsection \<open>Selecting a page\<close>

datatype game_omission = OmitTooLarge

text \<open>The loop over the requested ranges: how many fit; \<^term>\<open>None\<close> when the first one alone is too large.\<close>

fun select_loop :: "nat \<Rightarrow> nat \<Rightarrow> game_range list \<Rightarrow> nat option result" where
  "select_loop index total_bytes [] = Inr (Some index)"
| "select_loop index total_bytes (r # rs) =
     (case byte_len r of
        Inl e \<Rightarrow> Inl e
      | Inr len \<Rightarrow>
          if index = 0 \<and> MAX_PGN_BYTES < len then Inr None
          else if USIZE_LIMIT \<le> total_bytes + len then Inr (Some index)
          else if 0 < index \<and> MAX_PAGE_BYTES < total_bytes + len then Inr (Some index)
          else select_loop (index + 1) (total_bytes + len) rs)"

definition select_page :: "nat \<Rightarrow> nat \<Rightarrow> game_range list \<Rightarrow> (game_omission option \<times> game_range list) result" where
  "select_page start count ranges =
     (if USIZE_LIMIT \<le> start + count then Inl (InvalidInput ''game range overflows'')
      else if ranges = [] \<and> start = 0 \<and> count = 1 then Inr (None, [])
      else if length ranges < start + count then Inl (InvalidInput ''game index is out of bounds'')
      else
        let requested = take count (drop start ranges)
        in case select_loop 0 0 requested of
             Inl e \<Rightarrow> Inl e
           | Inr None \<Rightarrow> Inr (Some OmitTooLarge, [])
           | Inr (Some selected) \<Rightarrow> Inr (None, take selected requested))"

record stamped_game =
  sg_pgn :: bytes
  sg_stamp :: string
  sg_revision :: string
  sg_present :: bool
  sg_omission :: "game_omission option"

text \<open>
  The selection of \<^verbatim>\<open>read_game_core\<close> and what the two commands answer: \<^term>\<open>stamp\<close> is the hexadecimal
  SHA-256 of the crate \<^verbatim>\<open>sha2\<close>. The \<^verbatim>\<open>linked\<close> field is always \<^verbatim>\<open>None\<close> here and left out.
\<close>

definition select_one :: "nat \<Rightarrow> game_range list \<Rightarrow> (bool \<times> game_range list) result" where
  "select_one n ranges =
     (if n < length ranges then Inr (True, [ranges ! n])
      else if n = length ranges then Inr (False, [])
      else Inl (InvalidInput ''game index is out of bounds''))"

definition stamp_page :: "(bytes \<Rightarrow> string) \<Rightarrow> string \<Rightarrow> game_omission option \<Rightarrow> bytes list \<Rightarrow> stamped_game list" where
  "stamp_page stamp revision omission values =
     (case omission of
        Some om \<Rightarrow> [\<lparr>sg_pgn = [], sg_stamp = '''', sg_revision = revision, sg_present = True, sg_omission = Some om\<rparr>]
      | None \<Rightarrow> map (\<lambda>pgn. \<lparr>sg_pgn = pgn, sg_stamp = stamp pgn, sg_revision = revision,
                            sg_present = True, sg_omission = None\<rparr>) values)"

definition stamp_one :: "(bytes \<Rightarrow> string) \<Rightarrow> string \<Rightarrow> bool \<Rightarrow> bytes list \<Rightarrow> stamped_game result" where
  "stamp_one stamp revision present values =
     (case (if present then (case values of v # _ \<Rightarrow> Inr v | [] \<Rightarrow> Inl (Conflict ''PGN read returned no selected game''))
            else Inr []) of
        Inl e \<Rightarrow> Inl e
      | Inr pgn \<Rightarrow> Inr \<lparr>sg_pgn = pgn, sg_stamp = stamp pgn, sg_revision = revision,
                       sg_present = present, sg_omission = None\<rparr>)"

text \<open>
  What the commands mean on a file that nobody changes: scan, select, read, stamp. The code itself
  goes through the scan cache and retries when the file changes underneath it (theory \<^verbatim>\<open>PgnCache\<close>).
\<close>

definition read_games_at ::
  "(bytes \<Rightarrow> string) \<Rightarrow> string \<Rightarrow> bytes \<Rightarrow> int \<Rightarrow> int \<Rightarrow> (token, stamped_game list) io" where
  "read_games_at stamp revision file start stop =
     bind_io (of_result (checked_range start stop)) (\<lambda>(start, count).
     bind_io (scan_games_cancelled file) (\<lambda>ranges.
     bind_io (of_result (select_page start count ranges)) (\<lambda>(omission, requested).
     bind_io (read_ranges file requested) (\<lambda>values.
       return_io (stamp_page stamp revision omission values)))))"

definition read_game_at ::
  "(bytes \<Rightarrow> string) \<Rightarrow> string \<Rightarrow> bytes \<Rightarrow> int \<Rightarrow> (token, stamped_game) io" where
  "read_game_at stamp revision file n =
     bind_io (of_result (checked_index n)) (\<lambda>n.
     bind_io (scan_games_cancelled file) (\<lambda>ranges.
     bind_io (of_result (select_one n ranges)) (\<lambda>(present, requested).
     bind_io (read_ranges file requested) (\<lambda>values.
       of_result (stamp_one stamp revision present values)))))"

subsection \<open>Replacing one range\<close>

datatype pgn_replacement = ReplaceBytes bytes | ReplaceStream bytes

fun replacement_bytes :: "pgn_replacement \<Rightarrow> bytes" where
  "replacement_bytes (ReplaceBytes b) = b"
| "replacement_bytes (ReplaceStream b) = b"

fun boundary_byte :: "pgn_replacement \<Rightarrow> bool \<Rightarrow> u8 option" where
  "boundary_byte (ReplaceBytes b) at_end = (if b = [] then None else Some (if at_end then last b else hd b))"
| "boundary_byte (ReplaceStream b) at_end =
     (let size = length b in if size = 0 then None else Some (b ! (if at_end then size - 1 else 0)))"

definition starts_with_newline :: "pgn_replacement \<Rightarrow> bool" where
  "starts_with_newline r \<longleftrightarrow> boundary_byte r False = Some 10"

definition ends_with_newline :: "pgn_replacement \<Rightarrow> bool" where
  "ends_with_newline r \<longleftrightarrow> boundary_byte r True = Some 10"

text \<open>The copy loop: what is appended to the target.\<close>

function copy_chunks :: "bytes \<Rightarrow> nat \<Rightarrow> nat \<Rightarrow> bytes \<Rightarrow> token \<Rightarrow> bytes result \<times> token" where
  "copy_chunks source pos remaining target tk =
     (if 0 < remaining then
        bind_io check_token (\<lambda>_.
          let data = take (min remaining IO_CHUNK_LEN) (drop pos source)
          in if data = [] then throw_io (Conflict ''PGN snapshot ended while copying'')
             else copy_chunks source (pos + length data) (remaining - length data) (target @ data)) tk
      else (Inr target, tk))"
  by pat_completeness auto
termination
  by (relation "measure (\<lambda>(_, _, remaining, _, _). remaining)") (auto simp: IO_CHUNK_LEN_def)

declare copy_chunks.simps [simp del]

definition copy_range :: "bytes \<Rightarrow> nat \<Rightarrow> nat \<Rightarrow> bytes \<Rightarrow> (token, bytes) io" where
  "copy_range source start stop target =
     (if stop < start then throw_io (Conflict ''invalid PGN byte range'')
      else copy_chunks source start (stop - start) target)"

fun write_to :: "pgn_replacement \<Rightarrow> bytes \<Rightarrow> (token, bytes) io" where
  "write_to (ReplaceBytes b) target = return_io (target @ b)"
| "write_to (ReplaceStream b) target = copy_range b 0 (length b) target"

definition read_byte :: "bytes \<Rightarrow> nat \<Rightarrow> u8 result" where
  "read_byte source p = (case byte_at source p of Some b \<Rightarrow> Inr b | None \<Rightarrow> Inl unexpected_eof)"

text \<open>The bytes between the copied prefix and the copied suffix.\<close>

definition write_replacement ::
  "bytes \<Rightarrow> nat \<Rightarrow> game_range \<Rightarrow> pgn_replacement option \<Rightarrow> bytes \<Rightarrow> (token, bytes) io" where
  "write_replacement source file_size target replacement out_file =
     (case replacement of
        Some r \<Rightarrow>
          bind_io
            (if 0 < range_start target \<and> \<not> starts_with_newline r
             then bind_io (of_result (read_byte source (range_start target - 1))) (\<lambda>prior.
                    return_io (if prior \<noteq> 10 then out_file @ [10] else out_file))
             else return_io out_file) (\<lambda>out_file.
          bind_io (write_to r out_file) (\<lambda>out_file.
            return_io
              (if \<not> ends_with_newline r
                  \<and> (range_end target < file_size \<or> range_end target = range_start target)
               then out_file @ [10] else out_file)))
      | None \<Rightarrow>
          if 0 < range_start target \<and> range_end target < file_size
          then bind_io (of_result (read_byte source (range_start target - 1))) (\<lambda>prior.
               bind_io (of_result (read_byte source (range_end target))) (\<lambda>following.
                 return_io (if prior \<noteq> 10 \<and> following \<noteq> 10 then out_file @ [10] else out_file)))
          else return_io out_file)"

definition edit_existing ::
  "bytes \<Rightarrow> nat \<Rightarrow> game_range \<Rightarrow> pgn_replacement option \<Rightarrow> (token, bytes) io" where
  "edit_existing source file_size target replacement =
     bind_io check_token (\<lambda>_.
     bind_io check_token (\<lambda>_.
     bind_io (copy_range source 0 (range_start target) []) (\<lambda>out_file.
     bind_io (write_replacement source file_size target replacement out_file) (\<lambda>out_file.
       copy_range source (range_end target) file_size out_file))))"

subsection \<open>Undisturbed runs\<close>

lemma bind_check_token_Never [simp]: "bind_io check_token f Never = f () Never"
  by (simp add: bind_io_Inr)

lemma take_split: "c \<le> n \<Longrightarrow> take n xs = take c xs @ take (n - c) (drop c xs)"
  by (metis le_add_diff_inverse take_add)

lemma read_chunks_Never:
  "base + len \<le> length file \<Longrightarrow> offset \<le> len \<Longrightarrow>
     read_chunks file base offset len data Never =
       (Inr (data @ take (len - offset) (drop (base + offset) file)), Never)"
proof (induction "len - offset" arbitrary: offset data rule: less_induct)
  case less
  show ?case
  proof (cases "offset < len")
    case True
    define c where "c = min (len - offset) IO_CHUNK_LEN"
    have c: "0 < c" "c \<le> len - offset" using True by (simp_all add: c_def IO_CHUNK_LEN_def)
    let ?d = "drop (base + offset) file"
    have "read_chunks file base offset len data Never
        = read_chunks file base (offset + c) len (data @ take c ?d) Never"
    proof -
      have "\<not> length file < base + offset + c" using c less.prems by linarith
      then show ?thesis using True by (subst read_chunks.simps) (simp add: Let_def flip: c_def)
    qed
    also have "\<dots> = (Inr ((data @ take c ?d) @ take (len - (offset + c)) (drop (base + (offset + c)) file)), Never)"
      by (rule less.hyps) (use c less.prems in auto)
    also have "(data @ take c ?d) @ take (len - (offset + c)) (drop (base + (offset + c)) file)
        = data @ take (len - offset) ?d"
      using take_split[OF c(2), of ?d] by (simp add: add.commute add.left_commute)
    finally show ?thesis .
  next
    case False
    with less.prems show ?thesis by (subst read_chunks.simps) simp
  qed
qed

lemma copy_chunks_Never:
  "pos + remaining \<le> length source \<Longrightarrow>
     copy_chunks source pos remaining target Never = (Inr (target @ take remaining (drop pos source)), Never)"
proof (induction remaining arbitrary: pos target rule: less_induct)
  case (less remaining)
  show ?case
  proof (cases "0 < remaining")
    case True
    define c where "c = min remaining IO_CHUNK_LEN"
    have c: "0 < c" "c \<le> remaining" using True by (simp_all add: c_def IO_CHUNK_LEN_def)
    let ?d = "take c (drop pos source)"
    have d: "length ?d = c" "?d \<noteq> []" using c less.prems by auto
    have "copy_chunks source pos remaining target Never
        = copy_chunks source (pos + c) (remaining - c) (target @ ?d) Never"
      using True d by (subst copy_chunks.simps) (simp add: Let_def flip: c_def)
    also have "\<dots> = (Inr ((target @ ?d) @ take (remaining - c) (drop (pos + c) source)), Never)"
      by (rule less.IH) (use c less.prems in auto)
    also have "(target @ ?d) @ take (remaining - c) (drop (pos + c) source) = target @ take remaining (drop pos source)"
      using take_split[OF c(2), of "drop pos source"] by (simp add: add.commute)
    finally show ?thesis .
  qed (simp add: copy_chunks.simps[of source])
qed

lemma copy_range_Never:
  "start \<le> stop \<Longrightarrow> stop \<le> length source \<Longrightarrow>
     copy_range source start stop target Never
       = (Inr (target @ take (stop - start) (drop start source)), Never)"
  by (simp add: copy_range_def copy_chunks_Never)

lemma write_to_Never: "write_to r target Never = (Inr (target @ replacement_bytes r), Never)"
  by (cases r) (simp_all add: copy_range_Never)

lemma boundary_bytes:
  "starts_with_newline r \<longleftrightarrow> replacement_bytes r \<noteq> [] \<and> hd (replacement_bytes r) = 10"
  "ends_with_newline r \<longleftrightarrow> replacement_bytes r \<noteq> [] \<and> last (replacement_bytes r) = 10"
  by (cases r; auto simp: starts_with_newline_def ends_with_newline_def Let_def hd_conv_nth last_conv_nth)+

subsection \<open>Pages\<close>

definition total_len :: "game_range list \<Rightarrow> nat" where
  "total_len rs = (\<Sum>r\<leftarrow>rs. range_end r - range_start r)"

lemma total_len_simps [simp]:
  "total_len [] = 0" "total_len (r # rs) = range_end r - range_start r + total_len rs"
  by (simp_all add: total_len_def)

text \<open>The loop takes as many ranges as fit, and at least one.\<close>

lemma select_loop_Some:
  assumes "select_loop index total_bytes rs = Inr (Some k)" "\<forall>r\<in>set rs. range_start r \<le> range_end r"
    and "total_bytes \<le> MAX_PAGE_BYTES" "index = 0 \<longrightarrow> total_bytes = 0"
  shows "\<exists>j. k = index + j \<and> j \<le> length rs \<and> (index = 0 \<and> rs \<noteq> [] \<longrightarrow> 0 < j)
    \<and> total_bytes + total_len (take j rs) \<le> MAX_PAGE_BYTES
    \<and> (j < length rs \<longrightarrow> MAX_PAGE_BYTES < total_bytes + total_len (take (Suc j) rs))"
  using assms
proof (induction index total_bytes rs rule: select_loop.induct)
  case (2 index total_bytes r rs)
  define len where "len = range_end r - range_start r"
  have bl: "byte_len r = Inr len" using "2.prems"(2) by (simp add: byte_len_def len_def)
  have big: "MAX_PAGE_BYTES < USIZE_LIMIT" "MAX_PAGE_BYTES = MAX_PGN_BYTES"
    by (simp_all add: MAX_PAGE_BYTES_def MAX_PGN_BYTES_def USIZE_LIMIT_def)
  have small: "\<not> (index = 0 \<and> MAX_PGN_BYTES < len)" using "2.prems"(1) bl by auto
  show ?case
  proof (cases "USIZE_LIMIT \<le> total_bytes + len \<or> 0 < index \<and> MAX_PAGE_BYTES < total_bytes + len")
    case True
    with "2.prems"(1) bl small have "k = index" by (auto split: if_splits)
    moreover have "MAX_PAGE_BYTES < total_bytes + len" using True big by linarith
    moreover have "index \<noteq> 0" using True small "2.prems"(4) big by auto
    ultimately show ?thesis using "2.prems"(3) by (intro exI[of _ 0]) (simp add: len_def)
  next
    case False
    have rec: "select_loop (index + 1) (total_bytes + len) rs = Inr (Some k)"
      using False small "2.prems"(1) bl by (auto split: if_splits)
    have "total_bytes + len \<le> MAX_PAGE_BYTES"
      using False small "2.prems"(3,4) big by (cases "index = 0") auto
    with "2.IH"[OF bl small _ _ rec] False "2.prems"(2) obtain j where "k = index + 1 + j" "j \<le> length rs"
      "total_bytes + len + total_len (take j rs) \<le> MAX_PAGE_BYTES"
      "j < length rs \<longrightarrow> MAX_PAGE_BYTES < total_bytes + len + total_len (take (Suc j) rs)" by auto
    then show ?thesis by (intro exI[of _ "Suc j"]) (auto simp: len_def)
  qed
qed auto

text \<open>
  A page request on a well-formed scan returns a non-empty prefix of the requested games that
  fits the 10 MiB page limit, and stops only because the next game would not fit. The one
  exception is a first game that is itself over the limit: it is reported as omitted. An empty
  file answers the opening request with an empty page.
\<close>

theorem select_page_prefix:
  assumes "select_page start count ranges = Inr (omission, selected)"
    and "\<forall>r\<in>set ranges. range_start r \<le> range_end r" and "0 < count"
  defines "requested \<equiv> take count (drop start ranges)"
  shows "case omission of
      Some om \<Rightarrow> selected = [] \<and> MAX_PGN_BYTES < total_len [hd requested] \<and> requested \<noteq> []
    | None \<Rightarrow> ranges = [] \<and> start = 0 \<and> selected = []
        \<or> (\<exists>j. 0 < j \<and> j \<le> length requested \<and> length requested = count \<and> selected = take j requested
             \<and> total_len selected \<le> MAX_PAGE_BYTES
             \<and> (j < count \<longrightarrow> MAX_PAGE_BYTES < total_len (take (Suc j) requested)))"
proof (cases "ranges = [] \<and> start = 0 \<and> count = 1")
  case True
  with assms(1) show ?thesis by (auto simp: select_page_def split: if_splits)
next
  case False
  have fits: "start + count \<le> length ranges"
    using assms(1) False by (auto simp: select_page_def split: if_splits)
  have len: "length requested = count" using fits by (simp add: requested_def)
  have ne: "requested \<noteq> []" using len assms(3) by auto
  have wf: "\<forall>r\<in>set requested. range_start r \<le> range_end r"
    using assms(2) by (auto simp: requested_def dest: in_set_takeD in_set_dropD)
  have sel: "(case select_loop 0 0 requested of Inl e \<Rightarrow> Inl e | Inr None \<Rightarrow> Inr (Some OmitTooLarge, [])
       | Inr (Some k) \<Rightarrow> Inr (None, take k requested)) = (Inr (omission, selected) :: _ result)"
    using assms(1) False unfolding requested_def select_page_def Let_def by (auto split: if_splits)
  show ?thesis
  proof (cases "select_loop 0 0 requested")
    case (Inl e)
    with sel show ?thesis by simp
  next
    case (Inr k)
    show ?thesis
    proof (cases k)
      case None
      obtain r rs where r: "requested = r # rs" using ne by (cases requested) auto
      have keep: "select_loop (Suc i) t xs \<noteq> Inr None" for i t xs
        by (induction xs arbitrary: i t) (auto split: sum.splits)
      have "MAX_PGN_BYTES < range_end r - range_start r"
        using Inr None wf keep[of 0] by (auto simp: r byte_len_def split: if_splits)
      then show ?thesis using Inr None sel ne r by auto
    next
      case (Some n)
      from select_loop_Some[OF Inr[unfolded Some] wf] ne obtain j where "n = j" "0 < j" "j \<le> length requested"
        "total_len (take j requested) \<le> MAX_PAGE_BYTES"
        "j < length requested \<longrightarrow> MAX_PAGE_BYTES < total_len (take (Suc j) requested)" by auto
      then show ?thesis using Inr Some sel len by auto
    qed
  qed
qed

theorem select_page_prefix_witness:
  "\<exists>j. 0 < j \<and> j \<le> 2 \<and> [\<lparr>range_start = 0, range_end = 16\<rparr>, \<lparr>range_start = 16, range_end = 35\<rparr>]
        = take j [\<lparr>range_start = 0, range_end = 16\<rparr>, \<lparr>range_start = 16, range_end = 35\<rparr>]"
  using select_page_prefix[of 0 2 "[\<lparr>range_start = 0, range_end = 16\<rparr>, \<lparr>range_start = 16, range_end = 35\<rparr>]"
      None "[\<lparr>range_start = 0, range_end = 16\<rparr>, \<lparr>range_start = 16, range_end = 35\<rparr>]"]
  by (auto simp: select_page_def byte_len_def USIZE_LIMIT_def MAX_PGN_BYTES_def MAX_PAGE_BYTES_def)

subsection \<open>Reads return the scanned ranges\<close>

lemma read_range_bytes_Never:
  assumes "range_start r \<le> range_end r" "range_end r \<le> length file"
    and "range_end r - range_start r \<le> MAX_PGN_BYTES"
  shows "read_range_bytes file r Never = (Inr (slice file r), Never)"
proof -
  have "\<not> USIZE_LIMIT \<le> range_end r - range_start r"
    using assms(3) by (simp add: USIZE_LIMIT_def MAX_PGN_BYTES_def)
  then show ?thesis
    using assms by (simp add: read_range_bytes_def byte_len_def read_chunks_Never slice_def)
qed

text \<open>
  Reading game \<^term>\<open>n\<close> of a scanned file returns exactly the bytes of its range with their
  stamp, one past the last game is the empty new game, and anything beyond is an error.
\<close>

theorem read_game_returns_range:
  assumes "scan_games_cancelled file Never = (Inr ranges, Never)"
    and "\<forall>r\<in>set ranges. range_start r \<le> range_end r \<and> range_end r \<le> length file
           \<and> range_end r - range_start r \<le> MAX_PGN_BYTES \<and> utf8_valid (slice file r)"
  shows "fst (read_game_at stamp revision file (int n) Never) =
     (if n < length ranges
      then Inr \<lparr>sg_pgn = slice file (ranges ! n), sg_stamp = stamp (slice file (ranges ! n)),
                sg_revision = revision, sg_present = True, sg_omission = None\<rparr>
      else if n = length ranges
      then Inr \<lparr>sg_pgn = [], sg_stamp = stamp [], sg_revision = revision, sg_present = False, sg_omission = None\<rparr>
      else Inl (InvalidInput ''game index is out of bounds''))"
proof (cases "n < length ranges")
  case True
  then have "read_range_bytes file (ranges ! n) Never = (Inr (slice file (ranges ! n)), Never)"
    "utf8_valid (slice file (ranges ! n))"
    using assms(2) by (auto intro: read_range_bytes_Never)
  with True assms(1) show ?thesis
    by (simp add: read_game_at_def select_one_def stamp_one_def checked_index_def valid_game_index_def bind_io_def read_ranges_def)
next
  case False
  with assms(1) show ?thesis
    by (simp add: read_game_at_def select_one_def stamp_one_def checked_index_def valid_game_index_def bind_io_def read_ranges_def)
qed

theorem read_game_returns_range_witness:
  "fst (read_game_at (\<lambda>_. ''stamp'') ''1:2:35:0:0'' example_pgn (int 1) Never) =
     Inr \<lparr>sg_pgn = slice example_pgn \<lparr>range_start = 16, range_end = 35\<rparr>, sg_stamp = ''stamp'',
          sg_revision = ''1:2:35:0:0'', sg_present = True, sg_omission = None\<rparr>"
proof -
  have valid: "utf8_valid (slice example_pgn \<lparr>range_start = 0, range_end = 16\<rparr>)"
    "utf8_valid (slice example_pgn \<lparr>range_start = 16, range_end = 35\<rparr>)"
    and len: "length example_pgn = 35" by code_simp+
  show ?thesis
    using read_game_returns_range[OF example_pgn_scan, of "\<lambda>_. ''stamp''" "''1:2:35:0:0''" 1]
    by (simp add: valid len MAX_PGN_BYTES_def)
qed

subsection \<open>Edits\<close>

lemma read_byte_before:
  "0 < p \<Longrightarrow> p \<le> length source \<Longrightarrow> read_byte source (p - 1) = Inr (last (take p source))"
proof -
  assume p: "0 < p" "p \<le> length source"
  then have "take p source \<noteq> []" "length (take p source) = p" by auto
  then have "last (take p source) = source ! (p - 1)" using p by (simp add: last_conv_nth del: take_eq_Nil)
  with p show ?thesis by (simp add: read_byte_def byte_at_def)
qed

lemma read_byte_at: "p < length source \<Longrightarrow> read_byte source p = Inr (hd (drop p source))"
  by (simp add: read_byte_def byte_at_def hd_drop_conv_nth)

text \<open>Two pieces of text that a line break separates.\<close>

definition on_own_line :: "bytes \<Rightarrow> bytes \<Rightarrow> bool" where
  "on_own_line before after \<longleftrightarrow>
     before = [] \<or> after = [] \<or> last before = 10 \<or> hd after = 10"

text \<open>
  C4. Replacing one game leaves every other byte of the file alone: the result is the bytes
  before the range, the new text, and the bytes after it, with at most one line break added on
  each side, so that the new text begins on its own line and the next game does too.
\<close>

theorem edit_replaces_one_range:
  assumes "range_start t \<le> range_end t" and "range_end t \<le> length file"
  shows "\<exists>a b. edit_existing file (length file) t (Some r) Never
      = (Inr (take (range_start t) file @ (a @ replacement_bytes r @ b) @ drop (range_end t) file), Never)
    \<and> a \<in> {[], [10]} \<and> b \<in> {[], [10]}
    \<and> (replacement_bytes r \<noteq> [] \<longrightarrow> on_own_line (take (range_start t) file) (a @ replacement_bytes r @ b))
    \<and> (replacement_bytes r \<noteq> [] \<longrightarrow> on_own_line (a @ replacement_bytes r @ b) (drop (range_end t) file))"
proof -
  let ?pre = "take (range_start t) file" and ?post = "drop (range_end t) file" and ?r = "replacement_bytes r"
  define a where "a = (if 0 < range_start t \<and> \<not> starts_with_newline r \<and> last ?pre \<noteq> 10 then [10::u8] else [])"
  define b where "b = (if \<not> ends_with_newline r \<and> (range_end t < length file \<or> range_end t = range_start t)
                       then [10::u8] else [])"
  have le: "range_start t \<le> length file" using assms by simp
  have w: "write_replacement file (length file) t (Some r) ?pre Never = (Inr (?pre @ a @ ?r @ b), Never)"
    using le read_byte_before[of "range_start t"]
    by (auto simp: write_replacement_def a_def b_def bind_io_def write_to_Never)
  have "edit_existing file (length file) t (Some r) Never = (Inr (?pre @ (a @ ?r @ b) @ ?post), Never)"
    using assms le w by (simp add: edit_existing_def bind_io_def copy_range_Never)
  moreover have "on_own_line ?pre (a @ ?r @ b)" if "?r \<noteq> []"
    using that by (auto simp: on_own_line_def a_def boundary_bytes)
  moreover have "on_own_line (a @ ?r @ b) ?post" if "?r \<noteq> []"
    using that by (auto simp: on_own_line_def b_def boundary_bytes)
  ultimately show ?thesis by (intro exI[of _ a] exI[of _ b]) (simp add: a_def b_def)
qed

text \<open>
  Deleting one game removes its bytes and nothing else; a line break is added exactly when
  the neighbours would otherwise run together on one line.
\<close>

theorem edit_deletes_one_range:
  assumes "range_start t \<le> range_end t" and "range_end t \<le> length file"
  shows "\<exists>a. edit_existing file (length file) t None Never
      = (Inr (take (range_start t) file @ a @ drop (range_end t) file), Never)
    \<and> a = (if on_own_line (take (range_start t) file) (drop (range_end t) file) then [] else [10])"
proof -
  let ?pre = "take (range_start t) file" and ?post = "drop (range_end t) file"
  define a where "a = (if on_own_line ?pre ?post then [] else [10::u8])"
  have le: "range_start t \<le> length file" using assms by simp
  have w: "write_replacement file (length file) t None ?pre Never = (Inr (?pre @ a), Never)"
    using assms le read_byte_before[of "range_start t"] read_byte_at[of "range_end t"]
    by (auto simp: write_replacement_def a_def on_own_line_def bind_io_def)
  have "edit_existing file (length file) t None Never = (Inr (?pre @ a @ ?post), Never)"
    using assms le w by (simp add: edit_existing_def bind_io_def copy_range_Never)
  then show ?thesis by (intro exI[of _ a]) (simp add: a_def)
qed

theorem edit_replaces_one_range_witness:
  "\<exists>a b. edit_existing (bytes_of ''A*B*'') 4 \<lparr>range_start = 2, range_end = 4\<rparr> (Some (ReplaceBytes (bytes_of ''C*''))) Never
     = (Inr (bytes_of ''A*'' @ (a @ bytes_of ''C*'' @ b)), Never) \<and> a \<in> {[], [10]} \<and> b \<in> {[], [10]}
     \<and> on_own_line (bytes_of ''A*'') (a @ bytes_of ''C*'' @ b) \<and> on_own_line (a @ bytes_of ''C*'' @ b) []"
  using edit_replaces_one_range[of "\<lparr>range_start = 2, range_end = 4\<rparr>" "bytes_of ''A*B*''" "ReplaceBytes (bytes_of ''C*'')"]
  by (simp add: eval_nat_numeral)

theorem edit_deletes_one_range_witness:
  "\<exists>a. edit_existing (bytes_of ''A*B*C'') 5 \<lparr>range_start = 2, range_end = 4\<rparr> None Never
     = (Inr (bytes_of ''A*'' @ a @ bytes_of ''C''), Never)
     \<and> a = (if on_own_line (bytes_of ''A*'') (bytes_of ''C'') then [] else [10])"
  using edit_deletes_one_range[of "\<lparr>range_start = 2, range_end = 4\<rparr>" "bytes_of ''A*B*C''"]
  by (simp add: eval_nat_numeral)

end
