(* ===== verification/PgnCache.thy ===== *)
theory PgnCache
  imports PgnAccess "HOL-Library.AList" "HOL-Library.Multiset"
    "HOL-Library.While_Combinator"
begin

text \<open>
  The bounded scan cache of \<^verbatim>\<open>pgn.rs\<close> (\<^verbatim>\<open>PgnRepository\<close>) and the reads built on it: scans and range
  reads that check the file's revision afterwards and start again when it changed. A hash map is an
  association list, and the order in which the code iterates over it is a parameter \<^term>\<open>iter\<close>, any
  rearrangement of the entries. Another process may change the file at any moment: every
  observation of it has a number, and \<^term>\<open>revision_at\<close> and \<^term>\<open>bytes_at\<close> say what it yields.
\<close>

subsection \<open>The repository\<close>

definition MAX_CACHE_ENTRIES :: nat where "MAX_CACHE_ENTRIES = 128"
definition MAX_CACHE_BYTES :: nat where "MAX_CACHE_BYTES = 4 * 1024 * 1024"
definition MAX_REVISION_ATTEMPTS :: nat where "MAX_REVISION_ATTEMPTS = 3"

record file_revision =
  revision_size :: u64
  mtime_nanos :: int
  ctime_nanos :: int

type_synonym snapshot_identity = "u64 \<times> u64"

record cache_key =
  key_identity :: snapshot_identity
  key_revision :: file_revision

record cached_scan_entry =
  cached_games :: "game_range list"
  last_used :: u64

record pgn_repository =
  cache :: "(cache_key \<times> cached_scan_entry) list"
  clock :: u64
  retained_bytes :: nat
  poisoned :: bool
  cache_byte_limit :: nat

type_synonym cache_order = "(cache_key \<times> cached_scan_entry) list \<Rightarrow> (cache_key \<times> cached_scan_entry) list"

definition pgn_repository_default :: pgn_repository where
  "pgn_repository_default =
     \<lparr>cache = [], clock = 0, retained_bytes = 0, poisoned = False, cache_byte_limit = MAX_CACHE_BYTES\<rparr>"

text \<open>A range is two 64-bit offsets.\<close>

definition size_of_games :: "game_range list \<Rightarrow> nat" where
  "size_of_games ranges = 16 * length ranges"

definition repository_inner :: "(pgn_repository, unit) io" where
  "repository_inner r = (if poisoned r then Inl (Conflict ''PGN repository lock was poisoned'') else Inr (), r)"

definition repository_tick :: "pgn_repository \<Rightarrow> u64 \<times> pgn_repository" where
  "repository_tick r = (clock r + 1, r\<lparr>clock := clock r + 1\<rparr>)"

definition cache_get :: "cache_key \<Rightarrow> (pgn_repository, game_range list option) io" where
  "cache_get key = bind_io repository_inner (\<lambda>_ r.
     let (now, r) = repository_tick r
     in case map_of (cache r) key of
          None \<Rightarrow> (Inr None, r)
        | Some scan \<Rightarrow> (Inr (Some (cached_games scan)),
                       r\<lparr>cache := AList.update key (scan\<lparr>last_used := now\<rparr>) (cache r)\<rparr>))"

definition remove_entry :: "cache_key \<Rightarrow> pgn_repository \<Rightarrow> pgn_repository" where
  "remove_entry key r =
     (case map_of (cache r) key of
        None \<Rightarrow> r
      | Some replaced \<Rightarrow>
          r\<lparr>cache := AList.delete key (cache r),
            retained_bytes := retained_bytes r - size_of_games (cached_games replaced)\<rparr>)"

text \<open>\<^verbatim>\<open>min_by_key\<close>: the first entry of the iteration with the least stamp.\<close>

fun min_by_last_used :: "(cache_key \<times> cached_scan_entry) list \<Rightarrow> cache_key option" where
  "min_by_last_used [] = None"
| "min_by_last_used [(k, v)] = Some k"
| "min_by_last_used ((k, v) # (k', v') # rest) =
     (if last_used v' < last_used v then min_by_last_used ((k', v') # rest)
      else min_by_last_used ((k, v) # rest))"

text \<open>
  The eviction loop. It stops when there is room or nothing is left to evict; that it stops is
  \<^verbatim>\<open>evict_loop_stops\<close> below.
\<close>

definition needs_room :: "nat \<Rightarrow> pgn_repository \<Rightarrow> bool" where
  "needs_room new_bytes r \<longleftrightarrow>
     MAX_CACHE_ENTRIES \<le> length (cache r) \<or> cache_byte_limit r - new_bytes < retained_bytes r"

definition evict_more :: "cache_order \<Rightarrow> nat \<Rightarrow> pgn_repository \<Rightarrow> bool" where
  "evict_more iter new_bytes r \<longleftrightarrow> needs_room new_bytes r \<and> min_by_last_used (iter (cache r)) \<noteq> None"

definition evict_oldest :: "cache_order \<Rightarrow> pgn_repository \<Rightarrow> pgn_repository" where
  "evict_oldest iter r =
     (case min_by_last_used (iter (cache r)) of None \<Rightarrow> r | Some oldest \<Rightarrow> remove_entry oldest r)"

definition evict_loop :: "cache_order \<Rightarrow> nat \<Rightarrow> pgn_repository \<Rightarrow> pgn_repository" where
  "evict_loop iter new_bytes = while (evict_more iter new_bytes) (evict_oldest iter)"

definition retain_if_within_budget ::
    "cache_order \<Rightarrow> cache_key \<Rightarrow> game_range list \<Rightarrow> (pgn_repository, unit) io" where
  "retain_if_within_budget iter key ranges = bind_io repository_inner (\<lambda>_ r.
     let (now, r) = repository_tick r;
         r = remove_entry key r;
         new_bytes = size_of_games ranges
     in if cache_byte_limit r < new_bytes then (Inr (), r)
        else let r = evict_loop iter new_bytes r
             in (Inr (), r\<lparr>retained_bytes := retained_bytes r + new_bytes,
                           cache := AList.update key \<lparr>cached_games = ranges, last_used = now\<rparr> (cache r)\<rparr>))"

definition invalidate :: "snapshot_identity \<Rightarrow> (pgn_repository, unit) io" where
  "invalidate ident = bind_io repository_inner (\<lambda>_ r.
     let removed_bytes = sum_list (map (\<lambda>(k, v). size_of_games (cached_games v))
                           (filter (\<lambda>(k, v). key_identity k = ident) (cache r)))
     in (Inr (), r\<lparr>cache := filter (\<lambda>(k, v). key_identity k \<noteq> ident) (cache r),
                   retained_bytes := retained_bytes r - removed_bytes\<rparr>))"

subsection \<open>Invariant of the cache\<close>

definition entries_bytes :: "(cache_key \<times> cached_scan_entry) list \<Rightarrow> nat" where
  "entries_bytes c = sum_list (map (\<lambda>(k, v). size_of_games (cached_games v)) c)"

definition repository_wf :: "pgn_repository \<Rightarrow> bool" where
  "repository_wf r \<longleftrightarrow>
     distinct (map fst (cache r)) \<and> length (cache r) \<le> MAX_CACHE_ENTRIES
     \<and> retained_bytes r = entries_bytes (cache r) \<and> retained_bytes r \<le> cache_byte_limit r"

text \<open>An iteration order lists every entry once.\<close>

definition iterates :: "cache_order \<Rightarrow> bool" where
  "iterates iter \<longleftrightarrow> (\<forall>c. mset (iter c) = mset c)"

lemma entries_bytes_simps [simp]:
  "entries_bytes [] = 0"
  "entries_bytes (e # c) = size_of_games (cached_games (snd e)) + entries_bytes c"
  by (auto simp: entries_bytes_def split_beta)

lemma entries_bytes_delete:
  "distinct (map fst c) \<Longrightarrow> map_of c k = Some v \<Longrightarrow>
   entries_bytes c = size_of_games (cached_games v) + entries_bytes (AList.delete k c)"
proof (induction c)
  case (Cons e c)
  obtain k' v' where e: "e = (k', v')" by force
  show ?case
  proof (cases "k = k'")
    case True
    hence "AList.delete k c = c" using Cons.prems e by (intro delete_id) auto
    thus ?thesis using Cons.prems True e by simp
  next
    case False
    thus ?thesis using Cons e by simp
  qed
qed simp

lemma length_delete_less: "map_of c k = Some v \<Longrightarrow> length (AList.delete k c) < length c"
proof (induction c)
  case (Cons e c)
  thus ?case using length_delete_le [of k c] by (auto simp: less_Suc_eq_le split: if_splits prod.splits)
qed simp

lemma min_by_last_used_in:
  "c \<noteq> [] \<Longrightarrow> \<exists>k v. min_by_last_used c = Some k \<and> (k, v) \<in> set c \<and> (\<forall>(k', v') \<in> set c. last_used v \<le> last_used v')"
proof (induction c rule: min_by_last_used.induct)
  case (3 k v k' v' rest)
  show ?case
  proof (cases "last_used v' < last_used v")
    case True
    obtain x y where "min_by_last_used ((k', v') # rest) = Some x" "(x, y) \<in> set ((k', v') # rest)"
      "\<forall>(k', v') \<in> set ((k', v') # rest). last_used y \<le> last_used v'"
      using 3(1) [OF True] by blast
    thus ?thesis using True by (intro exI [of _ x] exI [of _ y]) auto
  next
    case False
    obtain x y where "min_by_last_used ((k, v) # rest) = Some x" "(x, y) \<in> set ((k, v) # rest)"
      "\<forall>(k', v') \<in> set ((k, v) # rest). last_used y \<le> last_used v'"
      using 3(2) [OF False] by blast
    thus ?thesis using False by (intro exI [of _ x] exI [of _ y]) auto
  qed
qed auto

lemma iterates_picks:
  assumes "iterates iter" "cache r \<noteq> []"
  obtains k v where "min_by_last_used (iter (cache r)) = Some k" "(k, v) \<in> set (cache r)"
    "\<forall>(k', v') \<in> set (cache r). last_used v \<le> last_used v'"
proof -
  have "set (iter (cache r)) = set (cache r)" using assms(1) by (metis iterates_def set_mset_mset)
  thus thesis using min_by_last_used_in [of "iter (cache r)"] assms(2) that by fastforce
qed


text \<open>The part of the invariant that holds between the removals.\<close>

definition repository_ok :: "pgn_repository \<Rightarrow> bool" where
  "repository_ok r \<longleftrightarrow> distinct (map fst (cache r)) \<and> retained_bytes r = entries_bytes (cache r)"

lemma repository_wf_ok:
  "repository_wf r \<longleftrightarrow> repository_ok r \<and> length (cache r) \<le> MAX_CACHE_ENTRIES \<and> retained_bytes r \<le> cache_byte_limit r"
  by (auto simp: repository_wf_def repository_ok_def)

lemma remove_entry_keeps [simp]:
  "clock (remove_entry k r) = clock r" "poisoned (remove_entry k r) = poisoned r"
  "cache_byte_limit (remove_entry k r) = cache_byte_limit r"
  by (auto simp: remove_entry_def split: option.splits)

lemma remove_entry_cache: "cache (remove_entry k r) = AList.delete k (cache r)"
  by (auto simp: remove_entry_def map_of_eq_None_iff split: option.splits intro!: delete_id [symmetric])

lemma remove_entry_ok: "repository_ok r \<Longrightarrow> repository_ok (remove_entry k r)"
  by (auto simp: repository_ok_def remove_entry_def distinct_delete entries_bytes_delete split: option.splits)

lemma remove_entry_bytes: "retained_bytes (remove_entry k r) \<le> retained_bytes r"
  by (auto simp: remove_entry_def split: option.splits)

text \<open>What an eviction leaves behind: entries of the old cache, none older than an evicted one.\<close>

definition evicted :: "pgn_repository \<Rightarrow> pgn_repository \<Rightarrow> bool" where
  "evicted r r' \<longleftrightarrow>
     repository_ok r' \<and> set (cache r') \<subseteq> set (cache r)
     \<and> clock r' = clock r \<and> poisoned r' = poisoned r \<and> cache_byte_limit r' = cache_byte_limit r
     \<and> retained_bytes r' \<le> retained_bytes r \<and> length (cache r') \<le> length (cache r)
     \<and> (\<forall>(k, v) \<in> set (cache r) - set (cache r'). \<forall>(k', v') \<in> set (cache r'). last_used v \<le> last_used v')"

lemma set_delete_distinct:
  "distinct (map fst c) \<Longrightarrow> (k, v) \<in> set c \<Longrightarrow> set (AList.delete k c) = set c - {(k, v)}"
  by (auto simp: AList.delete_eq eq_key_imp_eq_value)

lemma evict_oldest_step:
  assumes "iterates iter" "evict_more iter nb s" "evicted r s"
  shows "evicted r (evict_oldest iter s) \<and> length (cache (evict_oldest iter s)) < length (cache s)"
proof -
  have "min_by_last_used (iter (cache s)) \<noteq> None" using assms(2) by (simp add: evict_more_def)
  hence "iter (cache s) \<noteq> []" by auto
  hence "cache s \<noteq> []" using assms(1) by (metis iterates_def mset_zero_iff)
  then obtain k v where kv: "min_by_last_used (iter (cache s)) = Some k" "(k, v) \<in> set (cache s)"
    "\<forall>(k', v') \<in> set (cache s). last_used v \<le> last_used v'"
    using iterates_picks [OF assms(1)] by blast
  have s: "repository_ok s" "distinct (map fst (cache s))"
    using assms(3) by (auto simp: evicted_def repository_ok_def)
  have eq: "evict_oldest iter s = remove_entry k s" by (simp add: evict_oldest_def kv(1))
  have set: "set (cache (remove_entry k s)) = set (cache s) - {(k, v)}"
    unfolding remove_entry_cache by (rule set_delete_distinct [OF s(2) kv(2)])
  have len: "length (cache (remove_entry k s)) < length (cache s)"
    using kv(2) s(2) by (simp add: remove_entry_cache length_delete_less)
  have "\<forall>(j, u) \<in> set (cache r) - set (cache (remove_entry k s)).
          \<forall>(j', u') \<in> set (cache (remove_entry k s)). last_used u \<le> last_used u'"
    using assms(3) kv(3) unfolding evicted_def set by fast
  thus ?thesis
    using assms(3) remove_entry_ok [OF s(1)] remove_entry_bytes [of k s] len set
    unfolding eq evicted_def by auto
qed

lemma evicted_refl: "repository_ok r \<Longrightarrow> evicted r r"
  by (simp add: evicted_def)

lemma evict_loop_stops:
  assumes "iterates iter" "repository_ok r"
  shows "\<exists>r'. while_option (evict_more iter nb) (evict_oldest iter) r = Some r'"
  by (rule measure_while_option_Some [where P = "evicted r" and f = "\<lambda>s. length (cache s)"])
    (use evict_oldest_step [OF assms(1)] evicted_refl [OF assms(2)] in auto)

lemma evict_loop_room:
  assumes "iterates iter" "repository_ok r" "nb \<le> cache_byte_limit r"
  shows "evicted r (evict_loop iter nb r) \<and> \<not> needs_room nb (evict_loop iter nb r)"
proof -
  obtain r' where r': "while_option (evict_more iter nb) (evict_oldest iter) r = Some r'"
    using evict_loop_stops [OF assms(1,2)] by blast
  have "evicted r r'"
    using while_option_rule [of "evicted r", OF _ r'] evict_oldest_step [OF assms(1)]
      evicted_refl [OF assms(2)] by blast
  moreover have "\<not> needs_room nb r'"
  proof
    assume need: "needs_room nb r'"
    hence "min_by_last_used (iter (cache r')) = None"
      using while_option_stop [OF r'] by (simp add: evict_more_def)
    hence "cache r' = []" using iterates_picks [OF assms(1), of r'] by (metis option.distinct(1))
    thus False using need \<open>evicted r r'\<close>
      by (auto simp: needs_room_def evicted_def repository_ok_def MAX_CACHE_ENTRIES_def)
  qed
  ultimately show ?thesis using r' by (simp add: evict_loop_def while_def)
qed

subsection \<open>What the operations do to the cache\<close>

text \<open>The cache as a client sees it: the ranges it would be given for a key.\<close>

definition view :: "pgn_repository \<Rightarrow> cache_key \<Rightarrow> game_range list option" where
  "view r key = map_option cached_games (map_of (cache r) key)"

definition sees :: "pgn_repository \<Rightarrow> pgn_repository \<Rightarrow> bool" where
  "sees r r' \<longleftrightarrow> poisoned r' = poisoned r \<and> cache_byte_limit r' = cache_byte_limit r"

lemma sees_refl [simp]: "sees r r"
  by (simp add: sees_def)

lemma entries_bytes_touch:
  "map_of c k = Some v \<Longrightarrow> cached_games v' = cached_games v \<Longrightarrow>
   entries_bytes (AList.update k v' c) = entries_bytes c \<and> length (AList.update k v' c) = length c"
  by (induction c) (auto split: if_splits)

lemma entries_bytes_insert:
  "k \<notin> fst ` set c \<Longrightarrow> entries_bytes (AList.update k v c) = entries_bytes c + size_of_games (cached_games v)
     \<and> length (AList.update k v c) = Suc (length c)"
  by (induction c) auto

lemma cache_get_result:
  assumes "repository_wf r" "\<not> poisoned r"
  shows "\<exists>r'. cache_get key r = (Inr (view r key), r') \<and> repository_wf r' \<and> view r' = view r \<and> sees r r'"
proof (cases "map_of (cache r) key")
  case None
  thus ?thesis using assms
    by (auto simp: cache_get_def repository_inner_def repository_tick_def bind_io_def view_def
        repository_wf_def fun_eq_iff sees_def)
next
  case (Some scan)
  show ?thesis using assms Some entries_bytes_touch [OF Some]
    by (auto simp: cache_get_def repository_inner_def repository_tick_def bind_io_def view_def
        repository_wf_def fun_eq_iff sees_def AList.update_conv' distinct_update)
qed

lemma map_of_evicted:
  assumes "evicted r r'" "distinct (map fst (cache r))"
  shows "map_of (cache r') \<subseteq>\<^sub>m map_of (cache r)"
proof -
  have "distinct (map fst (cache r'))" "set (cache r') \<subseteq> set (cache r)"
    using assms by (auto simp: evicted_def repository_ok_def)
  thus ?thesis using assms(2) by (auto simp: map_le_def dest!: map_of_SomeD)
qed

text \<open>No evicted entry was used later than a surviving one; the entry of the key itself is replaced.\<close>

definition spares_recent :: "cache_key \<Rightarrow> pgn_repository \<Rightarrow> pgn_repository \<Rightarrow> bool" where
  "spares_recent key r r' \<longleftrightarrow>
     (\<forall>(k, v) \<in> set (cache r) - set (cache r'). k \<noteq> key \<longrightarrow>
        (\<forall>(k', v') \<in> set (cache r'). k' \<noteq> key \<longrightarrow> last_used v \<le> last_used v'))"

lemma set_update_new: "k \<notin> fst ` set c \<Longrightarrow> set (AList.update k v c) = insert (k, v) (set c)"
  by (induction c) auto

lemma retain_result:
  assumes "iterates iter" "repository_wf r" "\<not> poisoned r"
  obtains r' where "retain_if_within_budget iter key ranges r = (Inr (), r')" "repository_wf r'" "sees r r'"
    "view r' key = (if size_of_games ranges \<le> cache_byte_limit r then Some ranges else None)"
    "\<And>k. k \<noteq> key \<Longrightarrow> view r' k = None \<or> view r' k = view r k"
    "size_of_games ranges \<le> cache_byte_limit r \<Longrightarrow> spares_recent key r r'"
proof -
  define r0 where "r0 = remove_entry key (r\<lparr>clock := clock r + 1\<rparr>)"
  have r0: "repository_ok r0" "cache r0 = AList.delete key (cache r)" "sees r r0"
    "cache_byte_limit r0 = cache_byte_limit r" "poisoned r0 = poisoned r"
    "retained_bytes r0 \<le> cache_byte_limit r" "length (cache r0) \<le> MAX_CACHE_ENTRIES"
    using assms(2) remove_entry_ok [of "r\<lparr>clock := clock r + 1\<rparr>" key]
      remove_entry_bytes [of key "r\<lparr>clock := clock r + 1\<rparr>"] length_delete_le [of key "cache r"]
    unfolding r0_def by (auto simp: repository_wf_ok repository_ok_def remove_entry_cache sees_def)
  show thesis
  proof (cases "size_of_games ranges \<le> cache_byte_limit r")
    case False
    have "retain_if_within_budget iter key ranges r = (Inr (), r0)"
      using False assms(3) r0(4)
      by (simp add: retain_if_within_budget_def bind_io_def repository_inner_def repository_tick_def r0_def Let_def)
    thus thesis
      using that [of r0] r0 False
      by (auto simp: repository_wf_ok view_def AList.delete_conv')
  next
    case True
    define r1 where "r1 = evict_loop iter (size_of_games ranges) r0"
    have r1: "evicted r0 r1" "\<not> needs_room (size_of_games ranges) r1"
      using evict_loop_room [OF assms(1) r0(1)] True r0(4) by (auto simp: r1_def)
    define now where "now = clock r + 1"
    define r2 where "r2 = r1\<lparr>retained_bytes := retained_bytes r1 + size_of_games ranges,
      cache := AList.update key \<lparr>cached_games = ranges, last_used = now\<rparr> (cache r1)\<rparr>"
    have eq: "retain_if_within_budget iter key ranges r = (Inr (), r2)"
      using True assms(3) r0(4)
      by (simp add: retain_if_within_budget_def bind_io_def repository_inner_def repository_tick_def
          r0_def r1_def r2_def now_def Let_def)
    have ok1: "repository_ok r1" "set (cache r1) \<subseteq> set (cache r0)" "cache_byte_limit r1 = cache_byte_limit r"
      "poisoned r1 = poisoned r"
      using r1(1) r0 by (auto simp: evicted_def)
    have new: "key \<notin> fst ` set (cache r1)"
      using ok1(2) r0(2) AList.delete_notin_dom [of key "cache r"] by auto
    have "repository_wf r2"
      using ok1 r1(2) True entries_bytes_insert [OF new, of "\<lparr>cached_games = ranges, last_used = now\<rparr>"]
      by (auto simp: r2_def repository_wf_def repository_ok_def needs_room_def distinct_update)
    moreover have "view r2 k = None \<or> view r2 k = view r k" if "k \<noteq> key" for k
      using map_of_evicted [OF r1(1)] r0(1,2) that
      by (cases "map_of (cache r1) k")
        (auto simp: r2_def view_def AList.update_conv' map_le_def repository_ok_def AList.delete_conv' dom_def)
    moreover have "view r2 key = Some ranges" by (simp add: r2_def view_def AList.update_conv')
    moreover have "set (cache r0) = {e \<in> set (cache r). fst e \<noteq> key}"
      unfolding r0(2) by (auto simp: AList.delete_eq)
    hence "spares_recent key r r2"
      using r1(1) set_update_new [OF new, of "\<lparr>cached_games = ranges, last_used = now\<rparr>"]
      unfolding evicted_def spares_recent_def r2_def by fastforce
    moreover have "sees r r2" using ok1 by (simp add: r2_def sees_def)
    ultimately show thesis using that [OF eq] True by simp
  qed
qed

lemma invalidate_result:
  assumes "repository_wf r" "\<not> poisoned r"
  shows "\<exists>r'. invalidate ident r = (Inr (), r') \<and> repository_wf r' \<and> sees r r'
     \<and> view r' = (\<lambda>k. if key_identity k = ident then None else view r k)"
proof -
  let ?keep = "\<lambda>(k :: cache_key, v :: cached_scan_entry). key_identity k \<noteq> ident"
  let ?gone = "\<lambda>(k :: cache_key, v :: cached_scan_entry). key_identity k = ident"
  define r' where "r' = r\<lparr>cache := filter ?keep (cache r),
    retained_bytes := retained_bytes r - entries_bytes (filter ?gone (cache r))\<rparr>"
  have eq: "invalidate ident r = (Inr (), r')"
    using assms(2) by (simp add: invalidate_def bind_io_def repository_inner_def r'_def entries_bytes_def)
  have split: "entries_bytes c = entries_bytes (filter ?keep c) + entries_bytes (filter ?gone c)" for c
    by (induction c) auto
  have "map_of (filter ?keep c) k = (if key_identity k = ident then None else map_of c k)" for c k
    by (induction c) auto
  hence view: "view r' = (\<lambda>k. if key_identity k = ident then None else view r k)"
    by (simp add: fun_eq_iff view_def r'_def)
  have "length (filter ?keep (cache r)) \<le> MAX_CACHE_ENTRIES"
    using assms(1) length_filter_le [of ?keep "cache r"] unfolding repository_wf_def by linarith
  hence "repository_wf r'"
    using assms(1) split [of "cache r"]
    unfolding repository_wf_def r'_def by (simp add: distinct_map_filter)
  thus ?thesis using eq view by (simp add: sees_def r'_def)
qed

text \<open>A poisoned repository refuses every operation and changes nothing.\<close>

lemma poisoned_refuses:
  assumes "poisoned r"
  shows "cache_get key r = (Inl (Conflict ''PGN repository lock was poisoned''), r)"
    "retain_if_within_budget iter key ranges r = (Inl (Conflict ''PGN repository lock was poisoned''), r)"
    "invalidate ident r = (Inl (Conflict ''PGN repository lock was poisoned''), r)"
  using assms
  by (simp_all add: cache_get_def retain_if_within_budget_def invalidate_def bind_io_def repository_inner_def)

subsection \<open>The contract of the cache\<close>

text \<open>
  A cache may forget anything, but what it answers for a key was retained under that key. Entries
  that satisfy a predicate of key and value keep satisfying it.
\<close>

definition coherent :: "('k \<Rightarrow> 'v \<Rightarrow> bool) \<Rightarrow> ('k \<Rightarrow> 'v option) \<Rightarrow> bool" where
  "coherent truth lookup \<longleftrightarrow> (\<forall>k v. lookup k = Some v \<longrightarrow> truth k v)"

locale forgetful_cache =
  fixes wf :: "'r \<Rightarrow> bool" and lookup :: "'r \<Rightarrow> 'k \<Rightarrow> 'v option"
    and get :: "'k \<Rightarrow> ('r, 'v option) io" and retain :: "'k \<Rightarrow> 'v \<Rightarrow> ('r, unit) io"
    and forget :: "'i \<Rightarrow> ('r, unit) io"
  assumes get_law: "wf r \<Longrightarrow> get k r = (res, r') \<Longrightarrow>
      wf r' \<and> lookup r' = lookup r \<and> (\<forall>x. res = Inr x \<longrightarrow> x = lookup r k)"
    and retain_law: "wf r \<Longrightarrow> retain k v r = (finished, r') \<Longrightarrow> wf r'
      \<and> (\<forall>k' v'. lookup r' k' = Some v' \<longrightarrow> lookup r k' = Some v' \<or> k' = k \<and> v' = v)"
    and forget_law: "wf r \<Longrightarrow> forget i r = (finished, r') \<Longrightarrow> wf r' \<and> lookup r' \<subseteq>\<^sub>m lookup r"
begin

lemma coherent_get:
  assumes "wf r" "coherent truth (lookup r)" "get k r = (res, r')"
  shows "wf r' \<and> coherent truth (lookup r') \<and> (\<forall>v. res = Inr (Some v) \<longrightarrow> truth k v)"
  using get_law [of r k res r'] assms by (auto simp: coherent_def)

lemma coherent_retain:
  assumes "wf r" "coherent truth (lookup r)" "retain k v r = (finished, r')" "truth k v"
  shows "wf r' \<and> coherent truth (lookup r')"
  using retain_law [OF assms(1,3)] assms(2,4) by (auto simp: coherent_def)

lemma coherent_forget:
  assumes "wf r" "coherent truth (lookup r)" "forget i r = (finished, r')"
  shows "wf r' \<and> coherent truth (lookup r')"
  using forget_law [OF assms(1,3)] assms(2) unfolding coherent_def by (metis domI map_le_def)

end

interpretation pgn_cache: forgetful_cache "\<lambda>r. iterates iter \<and> repository_wf r" view cache_get
  "retain_if_within_budget iter" invalidate
  for iter
proof
  fix r k res r'
  assume wf: "iterates iter \<and> repository_wf r" and eq: "cache_get k r = (res, r')"
  show "(iterates iter \<and> repository_wf r') \<and> view r' = view r \<and> (\<forall>x. res = Inr x \<longrightarrow> x = view r k)"
    using wf eq cache_get_result [of r k] poisoned_refuses(1) [of r k] by (cases "poisoned r") auto
next
  fix r k v finished r'
  assume wf: "iterates iter \<and> repository_wf r" and eq: "retain_if_within_budget iter k v r = (finished, r')"
  show "(iterates iter \<and> repository_wf r')
    \<and> (\<forall>k' v'. view r' k' = Some v' \<longrightarrow> view r k' = Some v' \<or> k' = k \<and> v' = v)"
  proof (cases "poisoned r")
    case True
    thus ?thesis using wf eq poisoned_refuses(2) [of r iter k v] by auto
  next
    case False
    then obtain r1 where "retain_if_within_budget iter k v r = (Inr (), r1)" "repository_wf r1"
      "view r1 k = (if size_of_games v \<le> cache_byte_limit r then Some v else None)"
      "\<And>k'. k' \<noteq> k \<Longrightarrow> view r1 k' = None \<or> view r1 k' = view r k'"
      using retain_result [of iter r k v] wf by metis
    thus ?thesis using wf eq by (metis Pair_inject option.distinct(1) option.inject)
  qed
next
  fix r i finished r'
  assume wf: "iterates iter \<and> repository_wf r" and eq: "invalidate i r = (finished, r')"
  show "(iterates iter \<and> repository_wf r') \<and> view r' \<subseteq>\<^sub>m view r"
    using wf eq invalidate_result [of r i] poisoned_refuses(3) [of r i]
    by (cases "poisoned r") (auto simp: map_le_def split: if_splits)
qed

subsection \<open>The cache refines its history\<close>

datatype cache_op = Get cache_key | Retain cache_key "game_range list" | Invalidate snapshot_identity

fun perform_cache :: "cache_order \<Rightarrow> cache_op \<Rightarrow> pgn_repository \<Rightarrow> pgn_repository" where
  "perform_cache iter (Get key) r = snd (cache_get key r)"
| "perform_cache iter (Retain key ranges) r = snd (retain_if_within_budget iter key ranges r)"
| "perform_cache iter (Invalidate ident) r = snd (invalidate ident r)"

text \<open>The abstract map: unbounded, it never forgets except when told to.\<close>

fun perform_map :: "cache_op \<Rightarrow> (cache_key \<Rightarrow> game_range list option) \<Rightarrow> cache_key \<Rightarrow> game_range list option" where
  "perform_map (Get key) m = m"
| "perform_map (Retain key ranges) m = m(key \<mapsto> ranges)"
| "perform_map (Invalidate ident) m = (\<lambda>k. if key_identity k = ident then None else m k)"

lemma perform_cache_refines:
  assumes "iterates iter" "repository_wf r" "\<not> poisoned r" "view r \<subseteq>\<^sub>m m"
  shows "repository_wf (perform_cache iter op r) \<and> sees r (perform_cache iter op r)
    \<and> view (perform_cache iter op r) \<subseteq>\<^sub>m perform_map op m"
proof (cases op)
  case (Get key)
  thus ?thesis using cache_get_result [OF assms(2,3), of key] assms(4) by auto
next
  case (Retain key ranges)
  obtain r' where r': "retain_if_within_budget iter key ranges r = (Inr (), r')" "repository_wf r'" "sees r r'"
    "view r' key = (if size_of_games ranges \<le> cache_byte_limit r then Some ranges else None)"
    "\<And>k. k \<noteq> key \<Longrightarrow> view r' k = None \<or> view r' k = view r k"
    using retain_result [OF assms(1-3), of key ranges] by metis
  have "(m(key \<mapsto> ranges)) a = Some y" if "view r' a = Some y" for a y
  proof (cases "a = key")
    case True
    thus ?thesis using that r'(4) by (simp split: if_splits)
  next
    case False
    thus ?thesis using that r'(5) [OF False] assms(4) by (simp add: map_le_def) (metis domI)
  qed
  hence "view r' \<subseteq>\<^sub>m m(key \<mapsto> ranges)" unfolding map_le_def by fastforce
  thus ?thesis using Retain r' by simp
next
  case (Invalidate ident)
  thus ?thesis using invalidate_result [OF assms(2,3), of ident] assms(4)
    by (auto simp: map_le_def dom_def split: if_splits)
qed

lemma run_cache_refines:
  "iterates iter \<Longrightarrow> repository_wf r \<Longrightarrow> \<not> poisoned r \<Longrightarrow> view r \<subseteq>\<^sub>m m \<Longrightarrow>
   repository_wf (foldl (\<lambda>r op. perform_cache iter op r) r ops)
   \<and> sees r (foldl (\<lambda>r op. perform_cache iter op r) r ops)
   \<and> view (foldl (\<lambda>r op. perform_cache iter op r) r ops) \<subseteq>\<^sub>m foldl (\<lambda>m op. perform_map op m) m ops"
proof (induction ops arbitrary: r m)
  case (Cons op ops)
  have "repository_wf (perform_cache iter op r) \<and> sees r (perform_cache iter op r)
    \<and> view (perform_cache iter op r) \<subseteq>\<^sub>m perform_map op m"
    using Cons.prems by (rule perform_cache_refines)
  thus ?case using Cons.IH [of "perform_cache iter op r" "perform_map op m"] Cons.prems
    by (auto simp: sees_def)
qed simp

lemma repository_wf_default: "repository_wf pgn_repository_default"
  by (simp add: repository_wf_def pgn_repository_default_def)

definition run_cache :: "cache_order \<Rightarrow> cache_op list \<Rightarrow> pgn_repository" where
  "run_cache iter ops = foldl (\<lambda>r op. perform_cache iter op r) pgn_repository_default ops"

definition run_map :: "cache_op list \<Rightarrow> cache_key \<Rightarrow> game_range list option" where
  "run_map ops = foldl (\<lambda>m op. perform_map op m) (\<lambda>_. None) ops"

text \<open>C6. After any sequence of operations the scan cache holds at most 128 scans and 4 MiB, accounts
  for its bytes exactly, and whatever it answers for a key is the last scan retained under that
  key since the file was last invalidated.\<close>

theorem scan_cache_refines_history:
  assumes "iterates iter"
  shows "length (cache (run_cache iter ops)) \<le> MAX_CACHE_ENTRIES
    \<and> retained_bytes (run_cache iter ops) = entries_bytes (cache (run_cache iter ops))
    \<and> retained_bytes (run_cache iter ops) \<le> MAX_CACHE_BYTES
    \<and> view (run_cache iter ops) \<subseteq>\<^sub>m run_map ops"
  using run_cache_refines [OF assms repository_wf_default, of "\<lambda>_. None" ops]
  by (simp add: run_cache_def run_map_def pgn_repository_default_def view_def map_le_def
      repository_wf_def sees_def dom_def)

text \<open>Retaining a scan that fits makes it available, and makes room by evicting least recently
  used scans only: no evicted entry was used later than a surviving one.\<close>

theorem retain_evicts_least_recent:
  assumes "iterates iter" "repository_wf r" "\<not> poisoned r" "size_of_games ranges \<le> cache_byte_limit r"
  shows "\<exists>r'. retain_if_within_budget iter key ranges r = (Inr (), r') \<and> view r' key = Some ranges
    \<and> spares_recent key r r'"
  using retain_result [OF assms(1-3), of key ranges] assms(4) by (metis (full_types))

subsection \<open>Witnesses\<close>

definition example_key :: "u64 \<Rightarrow> cache_key" where
  "example_key n = \<lparr>key_identity = (1, n), key_revision = \<lparr>revision_size = 35, mtime_nanos = 7, ctime_nanos = 7\<rparr>\<rparr>"

definition example_range :: game_range where
  "example_range = \<lparr>range_start = 0, range_end = 16\<rparr>"

text \<open>A repository of 16 bytes that holds one scan.\<close>

definition example_repository :: pgn_repository where
  "example_repository = \<lparr>cache = [(example_key 1, \<lparr>cached_games = [example_range], last_used = 1\<rparr>)],
     clock = 1, retained_bytes = 16, poisoned = False, cache_byte_limit = 16\<rparr>"

theorem scan_cache_refines_history_witness:
  "iterates (\<lambda>c. c)
   \<and> view (run_cache (\<lambda>c. c) [Retain (example_key 1) [example_range], Get (example_key 1)])
       \<subseteq>\<^sub>m run_map [Retain (example_key 1) [example_range], Get (example_key 1)]
   \<and> run_map [Retain (example_key 1) [example_range], Get (example_key 1)] (example_key 1) = Some [example_range]"
  using scan_cache_refines_history [of "\<lambda>c. c" "[Retain (example_key 1) [example_range], Get (example_key 1)]"]
  by (simp add: iterates_def run_map_def)

theorem retain_evicts_least_recent_witness:
  "\<exists>r'. retain_if_within_budget (\<lambda>c. c) (example_key 2) [example_range] example_repository = (Inr (), r')
     \<and> view r' (example_key 2) = Some [example_range] \<and> spares_recent (example_key 2) example_repository r'"
  using retain_evicts_least_recent [of "\<lambda>c. c" example_repository "[example_range]" "example_key 2"]
  by (simp add: iterates_def repository_wf_def example_repository_def size_of_games_def MAX_CACHE_ENTRIES_def)

end
