(* ===== verification/PgnReads.thy ===== *)
theory PgnReads
  imports PgnCache
begin

text \<open>
  Reads of a PGN file that another process may be changing (\<^verbatim>\<open>pgn.rs\<close>): scan through the cache, read
  the selected ranges, and check the revision of the open file afterwards; a changed file is tried
  again, at most three times. Observations of the file are numbered: a \<^verbatim>\<open>file_history\<close> says what each
  one yields, errors included, and a read may see anything.
\<close>

subsection \<open>A file that changes\<close>

record file_history =
  revision_at :: "nat \<Rightarrow> file_revision result"
  bytes_at :: "nat \<Rightarrow> bytes result"

record live =
  live_repository :: pgn_repository
  live_token :: token
  observed :: nat

record pgn_snapshot =
  snap_identity :: snapshot_identity
  snap_revision :: file_revision

definition on_repository :: "(pgn_repository, 'a) io \<Rightarrow> (live, 'a) io" where
  "on_repository m s = (case m (live_repository s) of (x, r) \<Rightarrow> (x, s\<lparr>live_repository := r\<rparr>))"

definition on_token :: "(token, 'a) io \<Rightarrow> (live, 'a) io" where
  "on_token m s = (case m (live_token s) of (x, tk) \<Rightarrow> (x, s\<lparr>live_token := tk\<rparr>))"

definition poll :: "(live, bool) io" where
  "poll = on_token (\<lambda>tk. case is_cancelled tk of (c, tk') \<Rightarrow> (Inr c, tk'))"

definition check_live :: "(live, unit) io" where
  "check_live = bind_io poll (\<lambda>c. guard_io c Cancellation)"

definition current_revision :: "file_history \<Rightarrow> (live, file_revision) io" where
  "current_revision h s = (revision_at h (observed s), s\<lparr>observed := Suc (observed s)\<rparr>)"

definition read_file :: "file_history \<Rightarrow> (live, bytes) io" where
  "read_file h s = (bytes_at h (observed s), s\<lparr>observed := Suc (observed s)\<rparr>)"

text \<open>\<^verbatim>\<open>ResolvedPath::pgn_snapshot\<close> on the open file with the given identity.\<close>

definition pgn_snapshot_of :: "file_history \<Rightarrow> snapshot_identity \<Rightarrow> (live, pgn_snapshot) io" where
  "pgn_snapshot_of h ident =
     bind_io (current_revision h) (\<lambda>rv. return_io \<lparr>snap_identity = ident, snap_revision = rv\<rparr>)"

definition snapshot_key :: "pgn_snapshot \<Rightarrow> cache_key" where
  "snapshot_key snap = \<lparr>key_identity = snap_identity snap, key_revision = snap_revision snap\<rparr>"

definition fresh_snapshot :: "file_history \<Rightarrow> pgn_snapshot \<Rightarrow> (live, pgn_snapshot) io" where
  "fresh_snapshot h snap = bind_io (current_revision h) (\<lambda>rv. return_io (snap\<lparr>snap_revision := rv\<rparr>))"

definition revision_matches :: "file_history \<Rightarrow> cache_key \<Rightarrow> (live, bool) io" where
  "revision_matches h key = bind_io (current_revision h) (\<lambda>rv.
     return_io (revision_size rv = revision_size (key_revision key)
       \<and> mtime_nanos rv = mtime_nanos (key_revision key)
       \<and> ctime_nanos rv = ctime_nanos (key_revision key)))"

fun is_interrupted :: "error \<Rightarrow> bool" where
  "is_interrupted (Io e) = (io_kind e = Interrupted)"
| "is_interrupted _ = False"

definition map_read_error :: "error \<Rightarrow> (live, error) io" where
  "map_read_error e =
     (if is_interrupted e then bind_io poll (\<lambda>c. return_io (if c then Cancellation else e)) else return_io e)"

definition scan_file :: "file_history \<Rightarrow> pgn_snapshot \<Rightarrow> (live, cache_key \<times> game_range list) io" where
  "scan_file h snap =
     (let key = snapshot_key snap
      in bind_io (attempt (bind_io (read_file h) (\<lambda>bs. on_token (scan_games_cancelled bs)))) (\<lambda>r.
           case r of
             Inl e \<Rightarrow> bind_io (map_read_error e) throw_io
           | Inr ranges \<Rightarrow> return_io (key, ranges)))"

definition next_revision_attempt ::
    "file_history \<Rightarrow> pgn_snapshot \<Rightarrow> nat \<Rightarrow> (live, nat \<times> pgn_snapshot) io" where
  "next_revision_attempt h snap n =
     bind_io (on_repository (invalidate (snap_identity snap))) (\<lambda>_.
     bind_io check_live (\<lambda>_.
       if MAX_REVISION_ATTEMPTS \<le> n + 1 then throw_io StaleGame
       else bind_io (fresh_snapshot h snap) (\<lambda>snap'. return_io (n + 1, snap'))))"

definition cached_scan :: "pgn_snapshot \<Rightarrow> (live, cache_key \<times> game_range list option) io" where
  "cached_scan snap =
     bind_io check_live (\<lambda>_.
     let key = snapshot_key snap
     in bind_io (on_repository (cache_get key)) (\<lambda>cached.
          case cached of
            Some ranges \<Rightarrow> bind_io check_live (\<lambda>_. return_io (key, Some ranges))
          | None \<Rightarrow> bind_io check_live (\<lambda>_. return_io (key, None))))"

text \<open>
  The end of an attempt, shared by the two loops: a cancellation wins, then the revision decides
  whether the outcome counts (\<^term>\<open>True\<close>) or the attempt is stale.
\<close>

definition settle :: "file_history \<Rightarrow> cache_key \<Rightarrow> 'a result \<Rightarrow> (live, bool) io" where
  "settle h key outcome =
     bind_io poll (\<lambda>c.
       if c \<or> outcome = Inl Cancellation then throw_io Cancellation
       else bind_io (attempt (revision_matches h key)) (\<lambda>unchanged.
            bind_io check_live (\<lambda>_. of_result unchanged)))"

lemma next_revision_attempt_bound:
  "next_revision_attempt h snap n s = (Inr (n', snap'), s') \<Longrightarrow> n' = Suc n \<and> n' < MAX_REVISION_ATTEMPTS"
  by (auto simp: next_revision_attempt_def bind_io_eq_Inr not_le split: if_splits)

text \<open>One turn of the loop of \<^verbatim>\<open>scan_current_blocking\<close>: a result, or the next attempt and its snapshot.\<close>

definition scan_turn_live ::
    "file_history \<Rightarrow> cache_order \<Rightarrow> nat \<Rightarrow> pgn_snapshot
      \<Rightarrow> (live, (cache_key \<times> game_range list) + (nat \<times> pgn_snapshot)) io" where
  "scan_turn_live h iter n snap =
     bind_io (cached_scan snap) (\<lambda>(key, cached).
       case cached of
         Some ranges \<Rightarrow> return_io (Inl (key, ranges))
       | None \<Rightarrow>
           bind_io (attempt (scan_file h snap)) (\<lambda>outcome.
           bind_io (settle h key outcome) (\<lambda>unchanged.
             if unchanged
             then bind_io (of_result outcome) (\<lambda>(key, ranges).
                  bind_io (on_repository (retain_if_within_budget iter key ranges)) (\<lambda>_.
                    return_io (Inl (key, ranges))))
             else bind_io (next_revision_attempt h snap n) (\<lambda>next. return_io (Inr next)))))"

lemma scan_turn_live_bound:
  "scan_turn_live h iter n snap s = (Inr (Inr (n', snap')), s') \<Longrightarrow> n' = Suc n \<and> n' < MAX_REVISION_ATTEMPTS"
  by (auto simp: scan_turn_live_def bind_io_eq_Inr dest: next_revision_attempt_bound
      split: if_splits option.splits)

function scan_attempts ::
    "file_history \<Rightarrow> cache_order \<Rightarrow> nat \<Rightarrow> pgn_snapshot \<Rightarrow> live
      \<Rightarrow> (cache_key \<times> game_range list) result \<times> live" where
  "scan_attempts h iter n snap s =
     bind_io (scan_turn_live h iter n snap) (\<lambda>r.
       case r of
         Inl found \<Rightarrow> return_io found
       | Inr (n', snap') \<Rightarrow> scan_attempts h iter n' snap') s"
  by pat_completeness auto
termination
  by (relation "measure (\<lambda>(_, _, n, _). MAX_REVISION_ATTEMPTS - n)")
    (auto dest!: scan_turn_live_bound)

declare scan_attempts.simps [simp del]

definition scan_current_blocking ::
    "file_history \<Rightarrow> cache_order \<Rightarrow> pgn_snapshot \<Rightarrow> (live, cache_key \<times> game_range list) io" where
  "scan_current_blocking h iter snap =
     bind_io (cached_scan snap) (\<lambda>(key, cached).
       case cached of
         Some ranges \<Rightarrow> return_io (key, ranges)
       | None \<Rightarrow> scan_attempts h iter 0 snap)"

subsection \<open>Reading the selected ranges\<close>

text \<open>One attempt: the scan, the selection and the reads; the key is the scan's once there is one.\<close>

definition read_attempt ::
    "file_history \<Rightarrow> cache_order \<Rightarrow> (cache_key \<Rightarrow> game_range list \<Rightarrow> ('t \<times> game_range list) result)
      \<Rightarrow> pgn_snapshot \<Rightarrow> (live, cache_key \<times> ('t \<times> bytes list) result) io" where
  "read_attempt h iter select snap =
     bind_io (attempt (bind_io (fresh_snapshot h snap) (scan_current_blocking h iter))) (\<lambda>scanned.
       case scanned of
         Inl e \<Rightarrow> return_io (snapshot_key snap, Inl e)
       | Inr (key, ranges) \<Rightarrow>
           bind_io (attempt
             (bind_io (of_result (select key ranges)) (\<lambda>(selection, requested).
              bind_io (read_file h) (\<lambda>bs.
              bind_io (on_token (read_ranges bs requested)) (\<lambda>values.
                return_io (selection, values)))))) (\<lambda>outcome.
             return_io (key, outcome)))"

definition read_turn ::
    "file_history \<Rightarrow> cache_order \<Rightarrow> (cache_key \<Rightarrow> game_range list \<Rightarrow> ('t \<times> game_range list) result)
      \<Rightarrow> nat \<Rightarrow> pgn_snapshot \<Rightarrow> (live, (cache_key \<times> 't \<times> bytes list) + (nat \<times> pgn_snapshot)) io" where
  "read_turn h iter select n snap =
     bind_io check_live (\<lambda>_.
     bind_io (read_attempt h iter select snap) (\<lambda>(key, outcome).
     bind_io (settle h key outcome) (\<lambda>unchanged.
       if unchanged
       then bind_io (of_result outcome) (\<lambda>(selection, values). return_io (Inl (key, selection, values)))
       else bind_io (next_revision_attempt h snap n) (\<lambda>next. return_io (Inr next)))))"

lemma read_turn_bound:
  "read_turn h iter select n snap s = (Inr (Inr (n', snap')), s') \<Longrightarrow> n' = Suc n \<and> n' < MAX_REVISION_ATTEMPTS"
  by (auto simp: read_turn_def bind_io_eq_Inr dest: next_revision_attempt_bound split: if_splits)

function read_attempts ::
    "file_history \<Rightarrow> cache_order \<Rightarrow> (cache_key \<Rightarrow> game_range list \<Rightarrow> ('t \<times> game_range list) result)
      \<Rightarrow> nat \<Rightarrow> pgn_snapshot \<Rightarrow> live \<Rightarrow> (cache_key \<times> 't \<times> bytes list) result \<times> live" where
  "read_attempts h iter select n snap s =
     bind_io (read_turn h iter select n snap) (\<lambda>r.
       case r of
         Inl found \<Rightarrow> return_io found
       | Inr (n', snap') \<Rightarrow> read_attempts h iter select n' snap') s"
  by pat_completeness auto
termination
  by (relation "measure (\<lambda>(_, _, _, n, _). MAX_REVISION_ATTEMPTS - n)")
    (auto dest!: read_turn_bound)

declare read_attempts.simps [simp del]

definition scan_and_read_ranges_blocking ::
    "file_history \<Rightarrow> cache_order \<Rightarrow> (cache_key \<Rightarrow> game_range list \<Rightarrow> ('t \<times> game_range list) result)
      \<Rightarrow> pgn_snapshot \<Rightarrow> (live, cache_key \<times> 't \<times> bytes list) io" where
  "scan_and_read_ranges_blocking h iter select snap =
     bind_io check_live (\<lambda>_. read_attempts h iter select 0 snap)"

definition scan_and_read_ranges ::
    "file_history \<Rightarrow> cache_order \<Rightarrow> snapshot_identity
      \<Rightarrow> (cache_key \<Rightarrow> game_range list \<Rightarrow> ('t \<times> game_range list) result)
      \<Rightarrow> (live, cache_key \<times> 't \<times> bytes list) io" where
  "scan_and_read_ranges h iter ident select =
     bind_io (pgn_snapshot_of h ident) (scan_and_read_ranges_blocking h iter select)"

definition revision_string_for_key :: "cache_key \<Rightarrow> string" where
  "revision_string_for_key key =
     (case key_identity key of (device, inode) \<Rightarrow>
        show_nat (unat device) @ '':'' @ show_nat (unat inode) @ '':''
        @ show_nat (unat (revision_size (key_revision key))) @ '':''
        @ show_int (mtime_nanos (key_revision key)) @ '':'' @ show_int (ctime_nanos (key_revision key)))"

definition read_games_core ::
    "file_history \<Rightarrow> cache_order \<Rightarrow> (bytes \<Rightarrow> string) \<Rightarrow> snapshot_identity \<Rightarrow> int \<Rightarrow> int
      \<Rightarrow> (live, stamped_game list) io" where
  "read_games_core h iter stamp ident start stop =
     bind_io (of_result (checked_range start stop)) (\<lambda>(start, count).
     bind_io (scan_and_read_ranges h iter ident (\<lambda>_. select_page start count)) (\<lambda>(key, omission, values).
       return_io (stamp_page stamp (revision_string_for_key key) omission values)))"

definition read_game_core ::
    "file_history \<Rightarrow> cache_order \<Rightarrow> (bytes \<Rightarrow> string) \<Rightarrow> snapshot_identity \<Rightarrow> int \<Rightarrow> (live, stamped_game) io" where
  "read_game_core h iter stamp ident n =
     bind_io (of_result (checked_index n)) (\<lambda>n.
     bind_io (scan_and_read_ranges h iter ident (\<lambda>_. select_one n)) (\<lambda>(key, present, values).
       of_result (stamp_one stamp (revision_string_for_key key) present values)))"

definition COUNT_LIMIT_MESSAGE :: string where
  "COUNT_LIMIT_MESSAGE = ''PGN count exceeds IPC limit''"

definition count_after_scan :: "game_range list \<Rightarrow> (live, nat) io" where
  "count_after_scan ranges =
     bind_io check_live (\<lambda>_.
       if length ranges < 2 ^ 31 then return_io (length ranges) else throw_io (ResourceLimit COUNT_LIMIT_MESSAGE))"

definition count_pgn_games_core_blocking :: "file_history \<Rightarrow> cache_order \<Rightarrow> pgn_snapshot \<Rightarrow> (live, nat) io" where
  "count_pgn_games_core_blocking h iter snap =
     bind_io check_live (\<lambda>_.
     bind_io (scan_current_blocking h iter snap) (\<lambda>(_, ranges). count_after_scan ranges))"


subsection \<open>A successful run was not disturbed\<close>

text \<open>An action that polls for cancellation and still succeeds does what it does when nobody cancels.\<close>

definition undisturbed :: "(token, 'a) io \<Rightarrow> bool" where
  "undisturbed m \<longleftrightarrow>
     snd (m Never) = Never \<and> (\<forall>tk x tk'. m tk = (Inr x, tk') \<longrightarrow> m Never = (Inr x, Never))"

lemma undisturbedD: "undisturbed m \<Longrightarrow> m tk = (Inr x, tk') \<Longrightarrow> m Never = (Inr x, Never)"
  by (auto simp: undisturbed_def)

lemma undisturbed_Never: "undisturbed m \<Longrightarrow> snd (m Never) = Never"
  by (simp add: undisturbed_def)

lemma undisturbed_pure [simp]: "undisturbed (return_io x)" "undisturbed (throw_io e)" "undisturbed (of_result r)"
  by (auto simp: undisturbed_def)

lemma undisturbed_bind:
  assumes "undisturbed m" "\<And>x. undisturbed (f x)"
  shows "undisturbed (bind_io m f)"
  unfolding undisturbed_def
proof (intro conjI allI impI)
  show "snd (bind_io m f Never) = Never"
    using undisturbed_Never [OF assms(1)] undisturbed_Never [OF assms(2)]
    by (auto simp: bind_io_def split: prod.splits sum.splits)
  fix tk y tk'
  assume "bind_io m f tk = (Inr y, tk')"
  then obtain x tk1 where "m tk = (Inr x, tk1)" "f x tk1 = (Inr y, tk')" by (auto simp: bind_io_eq_Inr)
  thus "bind_io m f Never = (Inr y, Never)"
    using undisturbedD [OF assms(1)] undisturbedD [OF assms(2)] by (simp add: bind_io_Inr)
qed

lemma undisturbed_if: "undisturbed m \<Longrightarrow> undisturbed n \<Longrightarrow> undisturbed (if c then m else n)"
  by simp

lemma undisturbed_for: "(\<And>x a. undisturbed (f x a)) \<Longrightarrow> undisturbed (for_io f xs a)"
  by (induction xs arbitrary: a) (auto intro!: undisturbed_bind)

lemma undisturbed_poll [simp]: "undisturbed check_token" "undisturbed poll_scan"
  by (auto simp: undisturbed_def check_token_def poll_scan_def split: prod.splits if_splits)

lemma undisturbed_scan_turn: "undisturbed (scan_turn start rest p st)"
  unfolding scan_turn_def by (intro undisturbed_bind) (auto split: prod.splits intro!: undisturbed_if)

lemma scan_loop_stays: "snd (scan_loop start rest p st Never) = Never"
proof (induction start rest p st Never rule: scan_loop.induct)
  case (1 start rest p st)
  obtain r where turn: "scan_turn start rest p st Never = (r, Never)"
    using undisturbed_Never [OF undisturbed_scan_turn] by (metis prod.collapse)
  show ?case
  proof (cases r)
    case (Inl e)
    thus ?thesis using turn by (subst scan_loop.simps) (simp add: bind_io_def)
  next
    case (Inr q)
    thus ?thesis using turn "1.hyps" [of q Never]
      by (subst scan_loop.simps) (auto simp: bind_io_def split: option.splits)
  qed
qed

lemma scan_loop_Never:
  "scan_loop start rest p st tk = (Inr st', tk') \<Longrightarrow> scan_loop start rest p st Never = (Inr st', Never)"
proof (induction start rest p st tk rule: scan_loop.induct)
  case (1 start rest p st tk)
  from "1.prems" obtain r tk1 where turn: "scan_turn start rest p st tk = (Inr r, tk1)"
    and next_turn: "(case r of None \<Rightarrow> return_io st
       | Some (rest', st') \<Rightarrow> scan_loop start rest' (p + (length rest - length rest')) st') tk1 = (Inr st', tk')"
    by (subst (asm) scan_loop.simps) (auto simp: bind_io_eq_Inr)
  note never = undisturbedD [OF undisturbed_scan_turn turn]
  show ?case
  proof (cases r)
    case None
    thus ?thesis using never next_turn by (subst scan_loop.simps) (simp add: bind_io_Inr)
  next
    case (Some q)
    obtain rest' st1 where q: "q = (rest', st1)" by force
    have "scan_loop start rest' (p + (length rest - length rest')) st1 Never = (Inr st', Never)"
      using "1.IH" [OF turn Some q [symmetric]] next_turn Some q by simp
    thus ?thesis using never Some q by (subst scan_loop.simps) (simp add: bind_io_Inr)
  qed
qed

lemma undisturbed_scan: "undisturbed (scan_games_cancelled file)"
proof -
  have "undisturbed (scan_loop start rest p st)" for start rest p st
    unfolding undisturbed_def using scan_loop_Never scan_loop_stays by blast
  thus ?thesis unfolding scan_games_cancelled_def Let_def
    by (intro undisturbed_bind undisturbed_if) auto
qed

lemma read_chunks_undisturbed:
  "read_chunks bs base offset len data tk = (Inr x, tk') \<Longrightarrow>
   read_chunks bs base offset len data Never = (Inr x, Never)"
proof (induction bs base offset len data tk rule: read_chunks.induct)
  case (1 bs base offset len data tk)
  show ?case
  proof (cases "offset < len")
    case True
    let ?chunk = "min (len - offset) IO_CHUNK_LEN"
    from "1.prems" True obtain tk1 where poll: "check_token tk = (Inr (), tk1)"
      and fits: "\<not> length bs < base + offset + ?chunk"
      and rest: "read_chunks bs base (offset + ?chunk) len
            (data @ take ?chunk (drop (base + offset) bs)) tk1 = (Inr x, tk')"
      by (subst (asm) read_chunks.simps) (auto simp: bind_io_eq_Inr Let_def split: if_splits)
    have "read_chunks bs base (offset + ?chunk) len
            (data @ take ?chunk (drop (base + offset) bs)) Never = (Inr x, Never)"
      using "1.IH" [OF True poll refl fits rest] .
    thus ?thesis using True fits by (subst read_chunks.simps) (simp add: bind_io_Inr Let_def)
  next
    case False
    thus ?thesis using "1.prems" by (subst read_chunks.simps, subst (asm) read_chunks.simps) simp
  qed
qed

lemma read_chunks_stays: "snd (read_chunks bs base offset len data Never) = Never"
proof (induction bs base offset len data Never rule: read_chunks.induct)
  case (1 bs base offset len data)
  thus ?case by (subst read_chunks.simps) (auto simp: bind_io_def Let_def)
qed

lemma undisturbed_read_ranges: "undisturbed (read_ranges file ranges)"
proof -
  have "undisturbed (read_chunks file base offset len data)" for base offset len data
    unfolding undisturbed_def using read_chunks_undisturbed read_chunks_stays by blast
  hence "undisturbed (read_range_bytes file r)" for r
    unfolding read_range_bytes_def by (intro undisturbed_bind undisturbed_if) auto
  thus ?thesis unfolding read_ranges_def
    by (intro undisturbed_for undisturbed_bind undisturbed_if) auto
qed

subsection \<open>Weakest preconditions of the live actions\<close>

lemma wp_on_repository [wp_rules]:
  "wp (on_repository m) Q E s =
     wp m (\<lambda>x r. Q x (s\<lparr>live_repository := r\<rparr>)) (\<lambda>e r. E e (s\<lparr>live_repository := r\<rparr>)) (live_repository s)"
  by (simp add: wp_def on_repository_def split: prod.splits sum.splits)

lemma wp_on_token [wp_rules]:
  "wp (on_token m) Q E s =
     wp m (\<lambda>x tk. Q x (s\<lparr>live_token := tk\<rparr>)) (\<lambda>e tk. E e (s\<lparr>live_token := tk\<rparr>)) (live_token s)"
  by (simp add: wp_def on_token_def split: prod.splits sum.splits)

lemma wp_current_revision [wp_rules]:
  "wp (current_revision h) Q E s =
     (case revision_at h (observed s) of
        Inl e \<Rightarrow> E e (s\<lparr>observed := Suc (observed s)\<rparr>) | Inr v \<Rightarrow> Q v (s\<lparr>observed := Suc (observed s)\<rparr>))"
  by (simp add: wp_def current_revision_def split: sum.splits)

lemma wp_read_file [wp_rules]:
  "wp (read_file h) Q E s =
     (case bytes_at h (observed s) of
        Inl e \<Rightarrow> E e (s\<lparr>observed := Suc (observed s)\<rparr>) | Inr v \<Rightarrow> Q v (s\<lparr>observed := Suc (observed s)\<rparr>))"
  by (simp add: wp_def read_file_def split: sum.splits)

lemma wp_return_fun: "wp (return_io x) Q E = Q x"
  by (simp add: fun_eq_iff wp_return)

lemma wp_poll: "(\<And>c tk. Q c (s\<lparr>live_token := tk\<rparr>)) \<Longrightarrow> wp poll Q E s"
  by (simp add: wp_def poll_def on_token_def split: prod.splits)

lemma wp_check_live: "(\<And>tk. Q () (s\<lparr>live_token := tk\<rparr>)) \<Longrightarrow> (\<And>tk. E Cancellation (s\<lparr>live_token := tk\<rparr>)) \<Longrightarrow> wp check_live Q E s"
  unfolding check_live_def by (simp add: wp_rules wp_poll)

lemma wp_undisturbed:
  assumes "undisturbed m" "\<And>x tk. m Never = (Inr x, Never) \<Longrightarrow> Q x (s\<lparr>live_token := tk\<rparr>)"
    "\<And>e tk. E e (s\<lparr>live_token := tk\<rparr>)"
  shows "wp (on_token m) Q E s"
  unfolding wp_on_token using assms undisturbedD [OF assms(1)]
  by (auto simp: wp_def split: prod.splits sum.splits)

subsection \<open>Coherence\<close>

text \<open>
  \<^term>\<open>content\<close> gives the bytes of each revision of each file. The code relies on this: when the
  revision read before and right after a read is the same, the read saw the bytes of that revision.
\<close>

definition revision_stable :: "file_history \<Rightarrow> (cache_key \<Rightarrow> bytes) \<Rightarrow> snapshot_identity \<Rightarrow> bool" where
  "revision_stable h content ident \<longleftrightarrow>
     (\<forall>m n v bs. m < n \<longrightarrow> revision_at h m = Inr v \<longrightarrow> revision_at h (Suc n) = Inr v \<longrightarrow>
        bytes_at h n = Inr bs \<longrightarrow> bs = content \<lparr>key_identity = ident, key_revision = v\<rparr>)"

definition scans :: "(cache_key \<Rightarrow> bytes) \<Rightarrow> cache_key \<Rightarrow> game_range list \<Rightarrow> bool" where
  "scans content key ranges \<longleftrightarrow> scan_games_cancelled (content key) Never = (Inr ranges, Never)"

definition live_ok :: "cache_order \<Rightarrow> (cache_key \<Rightarrow> bytes) \<Rightarrow> live \<Rightarrow> bool" where
  "live_ok iter content s \<longleftrightarrow>
     iterates iter \<and> repository_wf (live_repository s) \<and> coherent (scans content) (view (live_repository s))"

definition known :: "file_history \<Rightarrow> pgn_snapshot \<Rightarrow> live \<Rightarrow> bool" where
  "known h snap s \<longleftrightarrow> (\<exists>m < observed s. revision_at h m = Inr (snap_revision snap))"

lemma live_ok_upd [simp]:
  "live_ok iter content (s\<lparr>live_token := tk\<rparr>) = live_ok iter content s"
  "live_ok iter content (s\<lparr>observed := n\<rparr>) = live_ok iter content s"
  "live_ok iter content (s\<lparr>live_token := tk, live_repository := r\<rparr>) = live_ok iter content (s\<lparr>live_repository := r\<rparr>)"
  by (simp_all add: live_ok_def)

lemma known_upd [simp]:
  "known h snap (s\<lparr>live_token := tk\<rparr>) = known h snap s"
  "known h snap (s\<lparr>live_repository := r\<rparr>) = known h snap s"
  by (simp_all add: known_def)

lemma known_mono: "known h snap s \<Longrightarrow> observed s \<le> observed s' \<Longrightarrow> known h snap s'"
  unfolding known_def using less_le_trans by blast

lemma wp_cache_get:
  assumes "live_ok iter content s"
    "\<And>c r. live_ok iter content (s\<lparr>live_repository := r\<rparr>) \<Longrightarrow>
        (\<And>ranges. c = Some ranges \<Longrightarrow> scans content key ranges) \<Longrightarrow> Q c (s\<lparr>live_repository := r\<rparr>)"
    "\<And>e r. live_ok iter content (s\<lparr>live_repository := r\<rparr>) \<Longrightarrow> E e (s\<lparr>live_repository := r\<rparr>)"
  shows "wp (on_repository (cache_get key)) Q E s"
proof -
  obtain res r where eq: "cache_get key (live_repository s) = (res, r)" by force
  have "live_ok iter content (s\<lparr>live_repository := r\<rparr>) \<and> (\<forall>v. res = Inr (Some v) \<longrightarrow> scans content key v)"
    using pgn_cache.coherent_get [of iter, OF _ _ eq, of "scans content"] assms(1) by (auto simp: live_ok_def)
  thus ?thesis using assms(2,3) eq unfolding wp_on_repository by (auto simp: wp_def split: sum.splits)
qed

lemma wp_retain:
  assumes "live_ok iter content s" "scans content key ranges"
    "\<And>r. live_ok iter content (s\<lparr>live_repository := r\<rparr>) \<Longrightarrow> Q () (s\<lparr>live_repository := r\<rparr>)"
    "\<And>e r. live_ok iter content (s\<lparr>live_repository := r\<rparr>) \<Longrightarrow> E e (s\<lparr>live_repository := r\<rparr>)"
  shows "wp (on_repository (retain_if_within_budget iter key ranges)) Q E s"
proof -
  obtain res r where eq: "retain_if_within_budget iter key ranges (live_repository s) = (res, r)" by force
  have "live_ok iter content (s\<lparr>live_repository := r\<rparr>)"
    using pgn_cache.coherent_retain [of iter _ "scans content", OF _ _ eq assms(2)] assms(1) by (auto simp: live_ok_def)
  thus ?thesis using assms(3,4) eq unfolding wp_on_repository by (auto simp: wp_def split: sum.splits)
qed

lemma wp_invalidate:
  assumes "live_ok iter content s"
    "\<And>r. live_ok iter content (s\<lparr>live_repository := r\<rparr>) \<Longrightarrow> Q () (s\<lparr>live_repository := r\<rparr>)"
    "\<And>e r. live_ok iter content (s\<lparr>live_repository := r\<rparr>) \<Longrightarrow> E e (s\<lparr>live_repository := r\<rparr>)"
  shows "wp (on_repository (invalidate ident)) Q E s"
proof -
  obtain res r where eq: "invalidate ident (live_repository s) = (res, r)" by force
  have "live_ok iter content (s\<lparr>live_repository := r\<rparr>)"
    using pgn_cache.coherent_forget [of iter, OF _ _ eq, of "scans content"] assms(1) by (auto simp: live_ok_def)
  thus ?thesis using assms(2,3) eq unfolding wp_on_repository by (auto simp: wp_def split: sum.splits)
qed

text \<open>Every action keeps the cache coherent, whether it succeeds or fails.\<close>

lemma wp_cached_scan:
  assumes "live_ok iter content s"
  shows "wp (cached_scan snap)
    (\<lambda>(key, c) s'. live_ok iter content s' \<and> observed s' = observed s \<and> key = snapshot_key snap
       \<and> (\<forall>ranges. c = Some ranges \<longrightarrow> scans content key ranges))
    (\<lambda>_ s'. live_ok iter content s' \<and> observed s' = observed s) s"
  unfolding cached_scan_def wp_bind Let_def
  using assms
  by (auto intro!: wp_check_live wp_cache_get [where iter = iter and content = content and key = "snapshot_key snap"]
      simp: wp_bind wp_return split: option.splits)

lemma wp_scan_file:
  assumes "live_ok iter content s"
  shows "wp (scan_file h snap)
    (\<lambda>(key, ranges) s'. live_ok iter content s' \<and> observed s' = Suc (observed s) \<and> key = snapshot_key snap
       \<and> (\<exists>bs. bytes_at h (observed s) = Inr bs \<and> scan_games_cancelled bs Never = (Inr ranges, Never)))
    (\<lambda>_ s'. live_ok iter content s' \<and> observed s' = Suc (observed s)) s"
proof -
  have "wp (bind_io (read_file h) (\<lambda>bs. on_token (scan_games_cancelled bs)))
    (\<lambda>ranges s'. live_ok iter content s' \<and> observed s' = Suc (observed s)
       \<and> (\<exists>bs. bytes_at h (observed s) = Inr bs \<and> scan_games_cancelled bs Never = (Inr ranges, Never)))
    (\<lambda>_ s'. live_ok iter content s' \<and> observed s' = Suc (observed s)) s"
    using assms
    by (auto simp: wp_bind wp_read_file intro!: wp_undisturbed undisturbed_scan split: sum.splits)
  thus ?thesis
    unfolding scan_file_def Let_def
    by (subst wp_bind, subst wp_attempt, elim wp_mono)
      (auto simp: wp_return wp_bind wp_throw map_read_error_def wp_if intro!: wp_poll)
qed

lemma key_revision_eq:
  "revision_size rv = revision_size rv' \<Longrightarrow> mtime_nanos rv = mtime_nanos rv' \<Longrightarrow>
   ctime_nanos rv = ctime_nanos rv' \<Longrightarrow> rv = (rv' :: file_revision)"
  by (rule file_revision.equality) auto

lemma wp_settle:
  assumes "live_ok iter content s"
  shows "wp (settle h key outcome)
    (\<lambda>u s'. live_ok iter content s' \<and> observed s' = Suc (observed s)
       \<and> (u \<longrightarrow> revision_at h (observed s) = Inr (key_revision key)))
    (\<lambda>_ s'. live_ok iter content s') s"
  unfolding settle_def wp_bind
  using assms
  by (auto intro!: wp_poll wp_check_live key_revision_eq
      simp: wp_bind wp_return wp_throw wp_if wp_attempt revision_matches_def wp_current_revision wp_of_result
      split: sum.splits)

lemma wp_next_revision_attempt:
  assumes "live_ok iter content s"
  shows "wp (next_revision_attempt h snap n)
    (\<lambda>(n', snap') s'. live_ok iter content s' \<and> observed s < observed s' \<and> known h snap' s'
       \<and> snap_identity snap' = snap_identity snap)
    (\<lambda>_ s'. live_ok iter content s') s"
  unfolding next_revision_attempt_def wp_bind
  using assms
  by (auto intro!: wp_invalidate [where iter = iter and content = content] wp_check_live
      simp: wp_bind wp_return wp_throw wp_if fresh_snapshot_def wp_current_revision known_def
      split: sum.splits)

definition scan_found :: "cache_order \<Rightarrow> (cache_key \<Rightarrow> bytes) \<Rightarrow> snapshot_identity \<Rightarrow> cache_key \<times> game_range list \<Rightarrow> live \<Rightarrow> live \<Rightarrow> bool" where
  "scan_found iter content ident found s s' \<longleftrightarrow>
     live_ok iter content s' \<and> observed s \<le> observed s' \<and> key_identity (fst found) = ident
     \<and> scans content (fst found) (snd found)"

lemma wp_scan_outcome:
  assumes "live_ok iter content s" "revision_stable h content (snap_identity snap)" "known h snap s"
    and R: "\<And>out u s'. live_ok iter content s' \<Longrightarrow> observed s \<le> observed s' \<Longrightarrow>
        (\<And>k r. u \<Longrightarrow> out = Inr (k, r) \<Longrightarrow> k = snapshot_key snap \<and> scans content k r) \<Longrightarrow> R out u s'"
    and E: "\<And>e s'. live_ok iter content s' \<Longrightarrow> E e s'"
  shows "wp (attempt (scan_file h snap)) (\<lambda>out. wp (settle h (snapshot_key snap) out) (R out) E) E s"
  unfolding wp_attempt
proof (rule wp_mono [OF wp_scan_file [OF assms(1)]], goal_cases)
  case (1 kr t)
  then obtain ranges bs where kr: "kr = (snapshot_key snap, ranges)" and t: "live_ok iter content t"
    "observed t = Suc (observed s)" and bs: "bytes_at h (observed s) = Inr bs"
    "scan_games_cancelled bs Never = (Inr ranges, Never)" by auto
  have "bs = content (snapshot_key snap)" if "revision_at h (observed t) = Inr (snap_revision snap)"
    using that assms(2,3) bs(1) t(2) unfolding revision_stable_def known_def snapshot_key_def by auto
  thus ?case
    using kr t bs(2)
    by (intro wp_mono [OF wp_settle [OF t(1)]]) (auto intro!: R E simp: snapshot_key_def scans_def)
next
  case (2 e t)
  thus ?case by (intro wp_mono [OF wp_settle [of iter content]]) (auto intro!: R E)
qed

lemma wp_scan_turn:
  assumes "live_ok iter content s" "revision_stable h content (snap_identity snap)" "known h snap s"
    and found: "\<And>ranges s'. live_ok iter content s' \<Longrightarrow> observed s \<le> observed s' \<Longrightarrow>
        scans content (snapshot_key snap) ranges \<Longrightarrow> Q (Inl (snapshot_key snap, ranges)) s'"
    and again: "\<And>n' snap' s'. live_ok iter content s' \<Longrightarrow> observed s \<le> observed s' \<Longrightarrow> known h snap' s' \<Longrightarrow>
        snap_identity snap' = snap_identity snap \<Longrightarrow> Q (Inr (n', snap')) s'"
    and E: "\<And>e s'. live_ok iter content s' \<Longrightarrow> E e s'"
  shows "wp (scan_turn_live h iter n snap) Q E s"
  unfolding scan_turn_live_def
proof (subst wp_bind, rule wp_mono [OF wp_cached_scan [OF assms(1)]], goal_cases)
  case (1 kc t)
  then obtain c where kc: "kc = (snapshot_key snap, c)" and t: "live_ok iter content t" "observed t = observed s"
    "\<And>ranges. c = Some ranges \<Longrightarrow> scans content (snapshot_key snap) ranges" by auto
  have known_t: "known h snap t" using assms(3) t(2) by (simp add: known_def)
  show ?case
  proof (cases c)
    case (Some ranges)
    thus ?thesis using kc t by (auto simp: wp_return intro!: found)
  next
    case None
    have next_wp: "wp (next_revision_attempt h snap n) (\<lambda>next. Q (Inr next)) E s'"
      if "live_ok iter content s'" "observed s \<le> observed s'" for s'
      by (rule wp_mono [OF wp_next_revision_attempt [OF that(1)]]) (use that in \<open>auto intro!: again E\<close>)
    have retain_wp: "wp (on_repository (retain_if_within_budget iter (snapshot_key snap) r))
        (\<lambda>_. Q (Inl (snapshot_key snap, r))) E s'"
      if "live_ok iter content s'" "observed s \<le> observed s'" "scans content (snapshot_key snap) r" for s' r
      using that by (intro wp_retain [where content = content]) (auto intro!: found E)
    show ?thesis
      unfolding kc None prod.case option.case
      unfolding wp_bind
      by (rule wp_scan_outcome [OF t(1) assms(2) known_t])
        (use t(2) next_wp retain_wp E in
          \<open>auto simp: wp_bind wp_of_result wp_return_fun split: sum.splits prod.splits\<close>)
  qed
qed (use E in auto)

lemma wp_scan_attempts_unfold:
  "wp (scan_attempts h iter n snap) Q E s =
   wp (bind_io (scan_turn_live h iter n snap) (\<lambda>r.
       case r of Inl found \<Rightarrow> return_io found | Inr (n', snap') \<Rightarrow> scan_attempts h iter n' snap')) Q E s"
  unfolding wp_def by (subst scan_attempts.simps) (rule refl)

text \<open>The same rule, which also tells how the turn ended.\<close>

lemma wp_with_result:
  "wp m (\<lambda>x t. m s = (Inr x, t) \<longrightarrow> Q x t) E s \<Longrightarrow> wp m Q E s"
  by (auto simp: wp_def split: prod.splits sum.splits)

lemma wp_scan_attempts:
  assumes "live_ok iter content s" "revision_stable h content (snap_identity snap)" "known h snap s"
  shows "wp (scan_attempts h iter n snap)
    (\<lambda>(key, ranges) s'. live_ok iter content s' \<and> observed s \<le> observed s'
       \<and> key_identity key = snap_identity snap \<and> scans content key ranges
       \<and> (\<exists>m < observed s'. revision_at h m = Inr (key_revision key)))
    (\<lambda>_ s'. live_ok iter content s') s"
  using assms
proof (induction h iter n snap s rule: scan_attempts.induct)
  case (1 h iter n snap s)
  show ?case
    unfolding wp_scan_attempts_unfold [of h iter n snap]
  proof (subst wp_bind, rule wp_with_result, rule wp_scan_turn [OF "1.prems"], goal_cases)
    case (1 ranges s')
    thus ?case using known_mono [OF "1.prems"(3), of s'] by (auto simp: wp_return snapshot_key_def known_def)
  next
    case (2 n' snap' s')
    show ?case
    proof (intro impI, goal_cases)
      case 1
      have "known h snap' s'" "live_ok iter content s'" using 2 by auto
      hence "wp (scan_attempts h iter n' snap')
        (\<lambda>(key, ranges) t. live_ok iter content t \<and> observed s' \<le> observed t
          \<and> key_identity key = snap_identity snap' \<and> scans content key ranges
          \<and> (\<exists>m < observed t. revision_at h m = Inr (key_revision key)))
        (\<lambda>_ t. live_ok iter content t) s'"
        using "1.IH" [OF 1 refl refl] 2 "1.prems" by simp
      thus ?case using 2 by (simp, elim wp_mono) auto
    qed
  qed
qed

lemma wp_scan_current:
  assumes "live_ok iter content s" "revision_stable h content (snap_identity snap)" "known h snap s"
  shows "wp (scan_current_blocking h iter snap)
    (\<lambda>(key, ranges) s'. live_ok iter content s' \<and> observed s \<le> observed s'
       \<and> key_identity key = snap_identity snap \<and> scans content key ranges
       \<and> (\<exists>m < observed s'. revision_at h m = Inr (key_revision key)))
    (\<lambda>_ s'. live_ok iter content s') s"
  unfolding scan_current_blocking_def
proof (subst wp_bind, rule wp_mono [OF wp_cached_scan [OF assms(1)]], goal_cases)
  case (1 kc t)
  then obtain c where kc: "kc = (snapshot_key snap, c)" and t: "live_ok iter content t" "observed t = observed s"
    "\<And>ranges. c = Some ranges \<Longrightarrow> scans content (snapshot_key snap) ranges" by auto
  have known_t: "known h snap t" using assms(3) t(2) by (simp add: known_def)
  show ?case
  proof (cases c)
    case None
    thus ?thesis using wp_scan_attempts [OF t(1) assms(2) known_t, of 0] t(2) kc by simp
  next
    case (Some ranges)
    thus ?thesis using kc t known_t by (auto simp: wp_return snapshot_key_def known_def)
  qed
qed auto

subsection \<open>Reads return the contents of one revision\<close>

definition values_of :: "(cache_key \<Rightarrow> bytes) \<Rightarrow> (cache_key \<Rightarrow> game_range list \<Rightarrow> ('t \<times> game_range list) result)
    \<Rightarrow> cache_key \<Rightarrow> 't \<Rightarrow> bytes list \<Rightarrow> bool" where
  "values_of content select key sel values \<longleftrightarrow>
     (\<exists>ranges requested. scans content key ranges \<and> select key ranges = Inr (sel, requested)
        \<and> read_ranges (content key) requested Never = (Inr values, Never))"

lemma values_ofI:
  "scans content key ranges \<Longrightarrow> select key ranges = Inr (sel, requested) \<Longrightarrow>
   read_ranges (content key) requested Never = (Inr values, Never) \<Longrightarrow> values_of content select key sel values"
  unfolding values_of_def by blast

lemma wp_read_attempt:
  assumes "live_ok iter content s" "revision_stable h content (snap_identity snap)"
  shows "wp (read_attempt h iter select snap)
    (\<lambda>(key, out) t. live_ok iter content t
       \<and> (\<forall>sel values. out = Inr (sel, values) \<longrightarrow> revision_at h (observed t) = Inr (key_revision key) \<longrightarrow>
            key_identity key = snap_identity snap \<and> values_of content select key sel values))
    (\<lambda>_ t. live_ok iter content t) s"
proof -
  have scan: "wp (bind_io (fresh_snapshot h snap) (scan_current_blocking h iter))
    (\<lambda>(key, ranges) t. live_ok iter content t
       \<and> key_identity key = snap_identity snap \<and> scans content key ranges
       \<and> (\<exists>m < observed t. revision_at h m = Inr (key_revision key)))
    (\<lambda>_ t. live_ok iter content t) s"
    using assms
    by (auto simp: wp_bind fresh_snapshot_def wp_current_revision wp_return known_def split: sum.splits
        intro!: wp_mono [OF wp_scan_current [of iter content]])
  show ?thesis
    unfolding read_attempt_def
  proof (subst wp_bind, subst wp_attempt, rule wp_mono [OF scan], goal_cases)
    case (1 kr t)
    then obtain key ranges m where kr: "kr = (key, ranges)" and t: "live_ok iter content t"
      "key_identity key = snap_identity snap" "scans content key ranges"
      "m < observed t" "revision_at h m = Inr (key_revision key)" by auto
    have content: "bs = content key"
      if "bytes_at h (observed t) = Inr bs" "revision_at h (Suc (observed t)) = Inr (key_revision key)" for bs
      using that t assms(2) unfolding revision_stable_def by (metis cache_key.surjective unit.exhaust)
    show ?case
      using t content unfolding kr
      by (auto simp: wp_bind wp_attempt wp_of_result wp_return wp_read_file split: sum.splits
          intro!: wp_undisturbed undisturbed_read_ranges) (blast intro: values_ofI)
  qed (auto simp: wp_return)
qed

lemma wp_read_turn:
  assumes "live_ok iter content s" "revision_stable h content (snap_identity snap)"
    and found: "\<And>key sel values t. live_ok iter content t \<Longrightarrow> key_identity key = snap_identity snap \<Longrightarrow>
        values_of content select key sel values \<Longrightarrow> Q (Inl (key, sel, values)) t"
    and again: "\<And>n' snap' t. live_ok iter content t \<Longrightarrow> snap_identity snap' = snap_identity snap \<Longrightarrow>
        Q (Inr (n', snap')) t"
    and E: "\<And>e t. live_ok iter content t \<Longrightarrow> E e t"
  shows "wp (read_turn h iter select n snap) Q E s"
proof -
  have next_wp: "wp (next_revision_attempt h snap n) (\<lambda>next. Q (Inr next)) E t" if "live_ok iter content t" for t
    by (rule wp_mono [OF wp_next_revision_attempt [OF that]]) (auto intro!: again E)
  have settled: "wp (settle h key out) (\<lambda>u. wp (if u
       then bind_io (of_result out) (\<lambda>(sel, values). return_io (Inl (key, sel, values)))
       else bind_io (next_revision_attempt h snap n) (\<lambda>next. return_io (Inr next))) Q E) E t"
    if "live_ok iter content t" "\<And>sel values. out = Inr (sel, values) \<Longrightarrow>
      revision_at h (observed t) = Inr (key_revision key) \<Longrightarrow>
      key_identity key = snap_identity snap \<and> values_of content select key sel values" for key out t
    using that
    by (intro wp_mono [OF wp_settle [OF that(1)]])
      (auto simp: wp_bind wp_of_result wp_return_fun split: sum.splits intro!: next_wp found E)
  have "wp (read_attempt h iter select snap) (\<lambda>(key, out) t. live_ok iter content t
       \<and> (\<forall>sel values. out = Inr (sel, values) \<longrightarrow> revision_at h (observed t) = Inr (key_revision key) \<longrightarrow>
            key_identity key = snap_identity snap \<and> values_of content select key sel values))
    (\<lambda>_ t. live_ok iter content t) (s\<lparr>live_token := tk\<rparr>)" for tk
    using assms(1,2) by (intro wp_read_attempt) auto
  note tried = this
  show ?thesis
    unfolding read_turn_def
  proof (subst wp_bind, rule wp_check_live, goal_cases)
    case (1 tk)
    show ?case
      by (subst wp_bind, rule wp_mono [OF tried]) (auto simp: wp_bind intro!: settled E)
  qed (use assms(1) E in auto)
qed

lemma wp_read_attempts:
  assumes "live_ok iter content s" "revision_stable h content (snap_identity snap)"
  shows "wp (read_attempts h iter select n snap)
    (\<lambda>(key, sel, values) t. live_ok iter content t \<and> key_identity key = snap_identity snap
       \<and> values_of content select key sel values)
    (\<lambda>_ t. live_ok iter content t) s"
  using assms
proof (induction h iter select n snap s rule: read_attempts.induct)
  case (1 h iter select n snap s)
  have unfold: "wp (read_attempts h iter select n snap) Q E s =
     wp (bind_io (read_turn h iter select n snap) (\<lambda>r.
       case r of Inl found \<Rightarrow> return_io found | Inr (n', snap') \<Rightarrow> read_attempts h iter select n' snap')) Q E s"
    for Q E unfolding wp_def by (subst read_attempts.simps) (rule refl)
  show ?case
    unfolding unfold
  proof (subst wp_bind, rule wp_with_result, rule wp_read_turn [OF "1.prems"], goal_cases)
    case (2 n' snap' t)
    show ?case
    proof (intro impI, goal_cases)
      case 1
      thus ?case using "1.IH" [OF 1 refl refl] 2 "1.prems" by simp
    qed
  qed (auto simp: wp_return)
qed

lemma wp_scan_and_read:
  assumes "live_ok iter content s" "revision_stable h content ident"
  shows "wp (scan_and_read_ranges h iter ident select)
    (\<lambda>(key, sel, values) t. live_ok iter content t \<and> key_identity key = ident
       \<and> values_of content select key sel values)
    (\<lambda>_ t. live_ok iter content t) s"
  unfolding scan_and_read_ranges_def pgn_snapshot_of_def scan_and_read_ranges_blocking_def
  using assms
  by (auto simp: wp_bind wp_current_revision wp_return split: sum.splits
      intro!: wp_check_live wp_mono [OF wp_read_attempts [of iter content]])

text \<open>C7. A page read from a file that others may be changing is the page of one revision: what the
  selection and the reads give on the bytes of the revision named in the answer. The cache stays
  coherent whether the read succeeds or fails.\<close>

theorem read_games_one_revision:
  assumes "iterates iter" "repository_wf (live_repository s)" "coherent (scans content) (view (live_repository s))"
    "revision_stable h content ident" "read_games_core h iter stamp ident start stop s = (Inr page, t)"
  shows "\<exists>key. key_identity key = ident
      \<and> fst (read_games_at stamp (revision_string_for_key key) (content key) start stop Never) = Inr page
      \<and> repository_wf (live_repository t) \<and> coherent (scans content) (view (live_repository t))"
proof -
  obtain lo num key om vs where range: "checked_range start stop = Inr (lo, num)"
    and run: "scan_and_read_ranges h iter ident (\<lambda>_. select_page lo num) s = (Inr (key, om, vs), t)"
    and page: "page = stamp_page stamp (revision_string_for_key key) om vs"
    using assms(5) by (auto simp: read_games_core_def bind_io_eq_Inr)
  have "live_ok iter content s" using assms(1-3) by (simp add: live_ok_def)
  from wp_Inr [OF wp_scan_and_read [OF this assms(4)] run]
  have t: "live_ok iter content t" "key_identity key = ident"
    and "values_of content (\<lambda>_. select_page lo num) key om vs" by auto
  then obtain ranges requested where "scan_games_cancelled (content key) Never = (Inr ranges, Never)"
    "select_page lo num ranges = Inr (om, requested)"
    "read_ranges (content key) requested Never = (Inr vs, Never)"
    by (auto simp: values_of_def scans_def)
  hence "fst (read_games_at stamp (revision_string_for_key key) (content key) start stop Never) = Inr page"
    by (simp add: read_games_at_def range page bind_io_def)
  thus ?thesis using t by (auto simp: live_ok_def)
qed

text \<open>Reading one game gives the game of one revision.\<close>

theorem read_game_one_revision:
  assumes "iterates iter" "repository_wf (live_repository s)" "coherent (scans content) (view (live_repository s))"
    "revision_stable h content ident" "read_game_core h iter stamp ident n s = (Inr g, t)"
  shows "\<exists>key. key_identity key = ident
      \<and> fst (read_game_at stamp (revision_string_for_key key) (content key) n Never) = Inr g"
proof -
  obtain k key present vs where index: "checked_index n = Inr k"
    and run: "scan_and_read_ranges h iter ident (\<lambda>_. select_one k) s = (Inr (key, present, vs), t)"
    and g: "stamp_one stamp (revision_string_for_key key) present vs = Inr g"
    using assms(5) by (auto simp: read_game_core_def bind_io_eq_Inr)
  have "live_ok iter content s" using assms(1-3) by (simp add: live_ok_def)
  from wp_Inr [OF wp_scan_and_read [OF this assms(4)] run]
  have "key_identity key = ident" "values_of content (\<lambda>_. select_one k) key present vs" by auto
  moreover from this obtain ranges requested where
    "scan_games_cancelled (content key) Never = (Inr ranges, Never)"
    "select_one k ranges = Inr (present, requested)"
    "read_ranges (content key) requested Never = (Inr vs, Never)"
    by (auto simp: values_of_def scans_def)
  ultimately show ?thesis
    by (intro exI [of _ key]) (simp add: read_game_at_def index g bind_io_def)
qed

subsection \<open>A file nobody changes\<close>

definition quiet :: "file_revision \<Rightarrow> bytes \<Rightarrow> file_history" where
  "quiet rv bs = \<lparr>revision_at = (\<lambda>_. Inr rv), bytes_at = (\<lambda>_. Inr bs)\<rparr>"

text \<open>A state with a healthy repository and no cancellation.\<close>

definition calm :: "cache_order \<Rightarrow> (cache_key \<Rightarrow> bytes) \<Rightarrow> live \<Rightarrow> bool" where
  "calm iter content s \<longleftrightarrow> live_ok iter content s \<and> \<not> poisoned (live_repository s) \<and> live_token s = Never"

lemma calm_observed [simp]: "calm iter content (s\<lparr>observed := n\<rparr>) = calm iter content s"
  by (simp add: calm_def)

lemma check_live_calm: "calm iter content s \<Longrightarrow> check_live s = (Inr (), s)"
  by (cases s) (simp add: check_live_def poll_def on_token_def bind_io_def calm_def)

lemma poll_calm: "calm iter content s \<Longrightarrow> poll s = (Inr False, s)"
  by (cases s) (simp add: poll_def on_token_def calm_def)

lemma on_token_calm:
  "calm iter content s \<Longrightarrow> undisturbed m \<Longrightarrow> on_token m s = (fst (m Never), s)"
  using undisturbed_Never [of m]
  by (cases s) (auto simp: on_token_def calm_def split: prod.splits)

lemma cached_scan_calm:
  assumes "calm iter content s"
  obtains c t where "cached_scan snap s = (Inr (snapshot_key snap, c), t)" "calm iter content t"
    "\<And>ranges. c = Some ranges \<Longrightarrow> scans content (snapshot_key snap) ranges"
proof -
  let ?key = "snapshot_key snap"
  obtain r where r: "cache_get ?key (live_repository s) = (Inr (view (live_repository s) ?key), r)"
    "repository_wf r" "view r = view (live_repository s)" "sees (live_repository s) r"
    using cache_get_result [of "live_repository s" ?key] assms by (auto simp: calm_def live_ok_def)
  have t: "calm iter content (s\<lparr>live_repository := r\<rparr>)"
    using assms r by (simp add: calm_def live_ok_def sees_def)
  have "cached_scan snap s = (Inr (?key, view (live_repository s) ?key), s\<lparr>live_repository := r\<rparr>)"
    using r(1) check_live_calm [OF assms] check_live_calm [OF t]
    by (auto simp: cached_scan_def bind_io_def on_repository_def Let_def split: option.splits)
  thus thesis using that [OF _ t] assms by (auto simp: calm_def live_ok_def coherent_def)
qed

definition with_key :: "cache_key \<Rightarrow> 'a result \<Rightarrow> (cache_key \<times> 'a) result" where
  "with_key key r = map_sum id (Pair key) r"

lemma with_key_simps [simp]: "with_key key (Inl e) = Inl e" "with_key key (Inr x) = Inr (key, x)"
  by (simp_all add: with_key_def)

lemma scan_file_calm:
  assumes "calm iter content s"
  shows "scan_file (quiet rv bs) snap s
    = (with_key (snapshot_key snap) (fst (scan_games_cancelled bs Never)), s\<lparr>observed := Suc (observed s)\<rparr>)"
proof -
  have calm: "calm iter content (s\<lparr>observed := Suc (observed s)\<rparr>)" using assms by simp
  show ?thesis
    using on_token_calm [OF calm undisturbed_scan [of bs]] poll_calm [OF calm]
    by (cases "fst (scan_games_cancelled bs Never)")
      (auto simp: scan_file_def bind_io_def attempt_def read_file_def quiet_def map_read_error_def)
qed

lemma settle_calm:
  assumes "calm iter content s" "key_revision key = rv"
  shows "settle (quiet rv bs) key res s =
    (if res = Inl Cancellation then (Inl Cancellation, s) else (Inr True, s\<lparr>observed := Suc (observed s)\<rparr>))"
proof -
  have "calm iter content (s\<lparr>observed := Suc (observed s)\<rparr>)" using assms by simp
  thus ?thesis using assms(2) poll_calm [OF assms(1)] check_live_calm
    by (auto simp: settle_def bind_io_def attempt_def revision_matches_def current_revision_def quiet_def)
qed

lemma retain_calm:
  assumes "calm iter content s" "scans content key ranges"
  obtains t where "on_repository (retain_if_within_budget iter key ranges) s = (Inr (), t)" "calm iter content t"
proof -
  obtain r where r: "retain_if_within_budget iter key ranges (live_repository s) = (Inr (), r)" "repository_wf r"
    "sees (live_repository s) r"
    using retain_result [of iter "live_repository s" key ranges] assms(1) by (auto simp: calm_def live_ok_def)
  have "live_ok iter content (s\<lparr>live_repository := r\<rparr>)"
    using pgn_cache.coherent_retain [of iter _ "scans content", OF _ _ r(1) assms(2)] assms(1)
    by (auto simp: calm_def live_ok_def)
  thus thesis using that [of "s\<lparr>live_repository := r\<rparr>"] r assms(1)
    by (simp add: on_repository_def calm_def sees_def)
qed

lemma scan_turn_calm:
  assumes "calm iter content s" "snap_revision snap = rv" "content (snapshot_key snap) = bs"
  obtains t where "calm iter content t" "scan_turn_live (quiet rv bs) iter n snap s
    = (map_sum id Inl (with_key (snapshot_key snap) (fst (scan_games_cancelled bs Never))), t)"
proof -
  let ?key = "snapshot_key snap" and ?scan = "fst (scan_games_cancelled bs Never)"
  obtain c t0 where c: "cached_scan snap s = (Inr (?key, c), t0)" "calm iter content t0"
    "\<And>ranges. c = Some ranges \<Longrightarrow> scans content ?key ranges" 
    using cached_scan_calm [OF assms(1), of snap] by blast
  define t1 where "t1 = t0\<lparr>observed := Suc (observed t0)\<rparr>"
  have t1: "calm iter content t1" "scan_file (quiet rv bs) snap t0 = (with_key ?key ?scan, t1)"
    using c(2) scan_file_calm [OF c(2)] by (simp_all add: t1_def)
  define t2 where "t2 = t1\<lparr>observed := Suc (observed t1)\<rparr>"
  have t2: "calm iter content t2" using t1(1) by (simp add: t2_def)
  have settled: "settle (quiet rv bs) ?key res t1 = (if res = Inl Cancellation then (Inl Cancellation, t1) else (Inr True, t2))"
    for res :: "(cache_key \<times> game_range list) result"
    using settle_calm [OF t1(1), of ?key rv bs res] assms(2) by (simp add: t2_def snapshot_key_def)
  note run = scan_turn_live_def bind_io_def attempt_def c(1) t1(2) settled
  show thesis
  proof (cases c)
    case (Some ranges)
    thus thesis using that [OF c(2)] c assms(3) by (simp add: run scans_def)
  next
    case None
    show thesis
    proof (cases ?scan)
      case (Inl e)
      show thesis
        by (rule that [of "if e = Cancellation then t1 else t2"]) (simp_all add: run None Inl t1(1) t2)
    next
      case (Inr ranges)
      have "scans content ?key ranges"
        using Inr assms(3) undisturbed_Never [OF undisturbed_scan [of bs]] by (simp add: scans_def prod_eq_iff)
      then obtain t where "on_repository (retain_if_within_budget iter ?key ranges) t2 = (Inr (), t)"
        "calm iter content t" by (rule retain_calm [OF t2])
      thus thesis using that by (simp add: run None Inr)
    qed
  qed
qed

lemma scan_current_calm:
  assumes "calm iter content s" "snap_revision snap = rv" "content (snapshot_key snap) = bs"
  obtains t where "calm iter content t" "scan_current_blocking (quiet rv bs) iter snap s
    = (with_key (snapshot_key snap) (fst (scan_games_cancelled bs Never)), t)"
proof -
  let ?key = "snapshot_key snap" and ?scan = "fst (scan_games_cancelled bs Never)"
  obtain c t0 where c: "cached_scan snap s = (Inr (?key, c), t0)" "calm iter content t0"
    "\<And>ranges. c = Some ranges \<Longrightarrow> scans content ?key ranges" 
    using cached_scan_calm [OF assms(1), of snap] by blast
  obtain t where t: "calm iter content t" "scan_turn_live (quiet rv bs) iter 0 snap t0
    = (map_sum id Inl (with_key ?key ?scan), t)" by (rule scan_turn_calm [OF c(2) assms(2,3)])
  have "scan_attempts (quiet rv bs) iter 0 snap t0 = (with_key ?key ?scan, t)"
    using t(2) by (cases ?scan; subst scan_attempts.simps) (auto simp: bind_io_def)
  thus thesis
    using that [OF t(1)] that [OF c(2)] c assms(3)
    by (cases c) (auto simp: scan_current_blocking_def bind_io_def scans_def)
qed

text \<open>What a read of an unchanging file answers.\<close>

definition read_outcome ::
    "bytes \<Rightarrow> (game_range list \<Rightarrow> ('t \<times> game_range list) result) \<Rightarrow> ('t \<times> bytes list) result" where
  "read_outcome bs select =
     (case fst (scan_games_cancelled bs Never) of
        Inl e \<Rightarrow> Inl e
      | Inr ranges \<Rightarrow>
          (case select ranges of
             Inl e \<Rightarrow> Inl e
           | Inr (sel, requested) \<Rightarrow>
               (case fst (read_ranges bs requested Never) of Inl e \<Rightarrow> Inl e | Inr vs \<Rightarrow> Inr (sel, vs))))"

lemma read_attempt_calm:
  assumes "calm iter content s" "snap_revision snap = rv" "content (snapshot_key snap) = bs"
  obtains t where "calm iter content t" "read_attempt (quiet rv bs) iter select snap s
    = (Inr (snapshot_key snap, read_outcome bs (select (snapshot_key snap))), t)"
proof -
  let ?key = "snapshot_key snap" and ?scan = "fst (scan_games_cancelled bs Never)"
  define s1 where "s1 = s\<lparr>observed := Suc (observed s)\<rparr>"
  have s1: "calm iter content s1" using assms(1) by (simp add: s1_def)
  have fresh: "fresh_snapshot (quiet rv bs) snap s = (Inr snap, s1)"
    using assms(2) by (simp add: fresh_snapshot_def bind_io_def current_revision_def quiet_def s1_def)
  obtain t where t: "calm iter content t" "scan_current_blocking (quiet rv bs) iter snap s1 = (with_key ?key ?scan, t)"
    by (rule scan_current_calm [OF s1 assms(2,3)])
  define t1 where "t1 = t\<lparr>observed := Suc (observed t)\<rparr>"
  have t1: "calm iter content t1" using t(1) by (simp add: t1_def)
  have read: "on_token (read_ranges bs requested) t1 = (fst (read_ranges bs requested Never), t1)" for requested
    by (rule on_token_calm [OF t1 undisturbed_read_ranges])
  have got: "read_file (quiet rv bs) t = (Inr bs, t1)" by (simp add: read_file_def quiet_def t1_def)
  note run = read_attempt_def bind_io_def attempt_def fresh t(2) read got read_outcome_def
  show thesis
  proof (cases ?scan)
    case (Inl e)
    show thesis by (rule that [OF t(1)]) (simp add: run Inl)
  next
    case (Inr ranges)
    show thesis
    proof (cases "select ?key ranges")
      case (Inl e)
      show thesis by (rule that [OF t(1)]) (simp add: run Inl Inr)
    next
      case (Inr sr)
      obtain sel requested where "sr = (sel, requested)" by force
      thus thesis using \<open>?scan = Inr ranges\<close> Inr
        by (intro that [OF t1]) (auto simp: run split: sum.splits)
    qed
  qed
qed

lemma scan_and_read_calm:
  assumes "calm iter content s" "content \<lparr>key_identity = ident, key_revision = rv\<rparr> = bs"
  shows "fst (scan_and_read_ranges (quiet rv bs) iter ident select s) =
    with_key \<lparr>key_identity = ident, key_revision = rv\<rparr>
      (read_outcome bs (select \<lparr>key_identity = ident, key_revision = rv\<rparr>))"
proof -
  let ?key = "\<lparr>key_identity = ident, key_revision = rv\<rparr>"
  define snap where "snap = \<lparr>snap_identity = ident, snap_revision = rv\<rparr>"
  define s1 where "s1 = s\<lparr>observed := Suc (observed s)\<rparr>"
  have s1: "calm iter content s1" using assms(1) by (simp add: s1_def)
  have key: "snapshot_key snap = ?key" "snap_revision snap = rv" "content (snapshot_key snap) = bs"
    using assms(2) by (simp_all add: snap_def snapshot_key_def)
  let ?res = "read_outcome bs (select ?key)"
  obtain t where t: "calm iter content t"
    "read_attempt (quiet rv bs) iter select snap s1 = (Inr (?key, ?res), t)"
    using read_attempt_calm [OF s1 key(2,3), of select] unfolding key(1) by blast
  note settled = settle_calm [OF t(1), of ?key rv bs ?res]
  have turn: "fst (read_turn (quiet rv bs) iter select 0 snap s1) = map_sum id Inl (with_key ?key ?res)"
    using t(2) settled check_live_calm [OF s1]
    by (cases ?res) (auto simp: read_turn_def bind_io_def)
  have "fst (read_attempts (quiet rv bs) iter select 0 snap s1) = with_key ?key ?res"
    using turn by (cases ?res; subst read_attempts.simps) (auto simp: bind_io_def split: prod.splits sum.splits)
  thus ?thesis
    using check_live_calm [OF s1]
    by (simp add: scan_and_read_ranges_def pgn_snapshot_of_def scan_and_read_ranges_blocking_def bind_io_def
        current_revision_def quiet_def snap_def [symmetric] s1_def [symmetric])
qed

lemma read_games_calm:
  assumes "calm iter content s" "content \<lparr>key_identity = ident, key_revision = rv\<rparr> = bs"
  shows "fst (read_games_core (quiet rv bs) iter stamp ident start stop s)
    = fst (read_games_at stamp (revision_string_for_key \<lparr>key_identity = ident, key_revision = rv\<rparr>) bs start stop Never)"
proof (cases "checked_range start stop")
  case (Inl e)
  thus ?thesis by (simp add: read_games_core_def read_games_at_def)
next
  case (Inr lc)
  obtain lo num where lc: "lc = (lo, num)" by force
  have never: "snd (scan_games_cancelled bs Never) = Never" by (rule undisturbed_Never [OF undisturbed_scan])
  show ?thesis
    using scan_and_read_calm [OF assms, of "\<lambda>_. select_page lo num"] Inr lc never
    by (auto simp: read_games_core_def read_games_at_def bind_io_def read_outcome_def
        split: prod.splits sum.splits)
qed

lemma read_game_calm:
  assumes "calm iter content s" "content \<lparr>key_identity = ident, key_revision = rv\<rparr> = bs"
  shows "fst (read_game_core (quiet rv bs) iter stamp ident n s)
    = fst (read_game_at stamp (revision_string_for_key \<lparr>key_identity = ident, key_revision = rv\<rparr>) bs n Never)"
proof (cases "checked_index n")
  case (Inl e)
  thus ?thesis by (simp add: read_game_core_def read_game_at_def)
next
  case (Inr k)
  have never: "snd (scan_games_cancelled bs Never) = Never" by (rule undisturbed_Never [OF undisturbed_scan])
  show ?thesis
    using scan_and_read_calm [OF assms, of "\<lambda>_. select_one k"] Inr never
    by (auto simp: read_game_core_def read_game_at_def bind_io_def read_outcome_def
        split: prod.splits sum.splits)
qed

text \<open>C8. On a file nobody changes, and with nothing cancelled, the cache and the retries are
  invisible: the command answers exactly what scanning, selecting and reading the bytes gives,
  error for error.\<close>

theorem read_games_quiet_file:
  assumes "iterates iter" "repository_wf (live_repository s)" "coherent (scans content) (view (live_repository s))"
    "\<not> poisoned (live_repository s)" "live_token s = Never"
    "content \<lparr>key_identity = ident, key_revision = rv\<rparr> = bs"
  shows "fst (read_games_core (quiet rv bs) iter stamp ident start stop s)
    = fst (read_games_at stamp (revision_string_for_key \<lparr>key_identity = ident, key_revision = rv\<rparr>) bs start stop Never)"
  using assms by (intro read_games_calm [where content = content]) (auto simp: calm_def live_ok_def)

subsection \<open>Witnesses\<close>

definition example_revision :: file_revision where
  "example_revision = \<lparr>revision_size = 35, mtime_nanos = 7, ctime_nanos = 7\<rparr>"

definition example_live :: live where
  "example_live = \<lparr>live_repository = pgn_repository_default, live_token = Never, observed = 0\<rparr>"

definition example_file :: file_history where
  "example_file = quiet example_revision example_pgn"

lemma example_live_calm: "calm (\<lambda>c. c) (\<lambda>_. example_pgn) example_live"
  using repository_wf_default
  by (simp add: calm_def live_ok_def example_live_def iterates_def pgn_repository_default_def
      coherent_def view_def)

lemma example_file_stable: "revision_stable example_file (\<lambda>_. example_pgn) ident"
  by (simp add: revision_stable_def example_file_def quiet_def)

definition example_page :: "stamped_game list" where
  "example_page = [\<lparr>sg_pgn = slice example_pgn \<lparr>range_start = 0, range_end = 16\<rparr>, sg_stamp = ''s'',
     sg_revision = ''1:2:35:7:7'', sg_present = True, sg_omission = None\<rparr>]"

lemma example_page_at: "fst (read_games_at (\<lambda>_. ''s'') ''1:2:35:7:7'' example_pgn 0 0 Never) = Inr example_page"
  by code_simp

lemma example_game_at: "fst (read_game_at (\<lambda>_. ''s'') ''1:2:35:7:7'' example_pgn 0 Never) = Inr (hd example_page)"
  by code_simp

lemma example_revision_string:
  "revision_string_for_key \<lparr>key_identity = (1, 2), key_revision = example_revision\<rparr> = ''1:2:35:7:7''"
  by code_simp

lemma example_reads:
  "fst (read_games_core example_file (\<lambda>c. c) (\<lambda>_. ''s'') (1, 2) 0 0 example_live) = Inr example_page"
  "fst (read_game_core example_file (\<lambda>c. c) (\<lambda>_. ''s'') (1, 2) 0 example_live) = Inr (hd example_page)"
  using read_games_calm [OF example_live_calm, where ident = "(1, 2)" and rv = example_revision and bs = example_pgn]
    read_game_calm [OF example_live_calm, where ident = "(1, 2)" and rv = example_revision and bs = example_pgn]
    example_page_at example_game_at
  by (simp_all add: example_revision_string example_file_def)

lemmas example_live_facts = example_live_calm [unfolded calm_def live_ok_def]

theorem read_games_one_revision_witness:
  "\<exists>t key. read_games_core example_file (\<lambda>c. c) (\<lambda>_. ''s'') (1, 2) 0 0 example_live = (Inr example_page, t)
     \<and> key_identity key = (1, 2)
     \<and> fst (read_games_at (\<lambda>_. ''s'') (revision_string_for_key key) example_pgn 0 0 Never) = Inr example_page"
proof -
  obtain t where t: "read_games_core example_file (\<lambda>c. c) (\<lambda>_. ''s'') (1, 2) 0 0 example_live = (Inr example_page, t)"
    using example_reads(1) by (metis prod.collapse)
  show ?thesis
    using read_games_one_revision [OF _ _ _ example_file_stable t] t example_live_facts by blast
qed

theorem read_game_one_revision_witness:
  "\<exists>t key. read_game_core example_file (\<lambda>c. c) (\<lambda>_. ''s'') (1, 2) 0 example_live = (Inr (hd example_page), t)
     \<and> key_identity key = (1, 2)
     \<and> fst (read_game_at (\<lambda>_. ''s'') (revision_string_for_key key) example_pgn 0 Never) = Inr (hd example_page)"
proof -
  obtain t where t: "read_game_core example_file (\<lambda>c. c) (\<lambda>_. ''s'') (1, 2) 0 example_live = (Inr (hd example_page), t)"
    using example_reads(2) by (metis prod.collapse)
  show ?thesis
    using read_game_one_revision [OF _ _ _ example_file_stable t] t example_live_facts by blast
qed

theorem read_games_quiet_file_witness:
  "fst (read_games_core (quiet example_revision example_pgn) (\<lambda>c. c) (\<lambda>_. ''s'') (1, 2) 0 0 example_live)
     = fst (read_games_at (\<lambda>_. ''s'') ''1:2:35:7:7'' example_pgn 0 0 Never)"
  using read_games_quiet_file [of "\<lambda>c. c" example_live "\<lambda>_. example_pgn" "(1, 2)" example_revision example_pgn]
    example_live_facts
  by (simp add: example_revision_string)

end
