(* ===== verification/KeyedLocks.thy ===== *)
theory KeyedLocks
  imports Effects
begin

text \<open>
  Per-key mutual exclusion: the registry of \<^verbatim>\<open>infra/keyed_locks.rs\<close>, the practice registry of
  \<^verbatim>\<open>practice.rs\<close> (\<^verbatim>\<open>PracticeMutexLease\<close>), and the cancellable waits of
  \<^verbatim>\<open>infra/cancellable_lock.rs\<close>. Reference counts are explicit: an \<^verbatim>\<open>Arc\<close> is an address with a strong
  count. Threads are interleaved as a step relation whose steps are the critical sections of the
  code (a \<^verbatim>\<open>DashMap\<close> entry or the registry mutex is held for the whole of one step).
\<close>

subsection \<open>Reference counts\<close>

type_synonym arc = nat

record arcs =
  strong :: "arc \<Rightarrow> nat"
  next_arc :: arc

definition arc_new :: "arcs \<Rightarrow> arc \<times> arcs" where
  "arc_new h = (next_arc h, h\<lparr>strong := (strong h)(next_arc h := 1), next_arc := Suc (next_arc h)\<rparr>)"

definition arc_clone :: "arc \<Rightarrow> arcs \<Rightarrow> arcs" where
  "arc_clone a h = h\<lparr>strong := (strong h)(a := strong h a + 1)\<rparr>"

definition arc_drop :: "arc \<Rightarrow> arcs \<Rightarrow> arcs" where
  "arc_drop a h = h\<lparr>strong := (strong h)(a := strong h a - 1)\<rparr>"

subsection \<open>The keyed registry\<close>

record 'k keyed_locks =
  locks :: "'k \<Rightarrow> arc option"
  heap :: arcs

record 'k keyed_lock_lease =
  lease_key :: 'k
  lease_lock :: "arc option"

definition keyed_locks_default :: "'k keyed_locks" where
  "keyed_locks_default = \<lparr>locks = (\<lambda>_. None), heap = \<lparr>strong = (\<lambda>_. 0), next_arc = 0\<rparr>\<rparr>"

definition lease :: "'k \<Rightarrow> 'k keyed_locks \<Rightarrow> 'k keyed_lock_lease \<times> 'k keyed_locks" where
  "lease key r =
     (case locks r key of
        Some a \<Rightarrow> (\<lparr>lease_key = key, lease_lock = Some a\<rparr>, r\<lparr>heap := arc_clone a (heap r)\<rparr>)
      | None \<Rightarrow>
          (let (a, h) = arc_new (heap r)
           in (\<lparr>lease_key = key, lease_lock = Some a\<rparr>,
               r\<lparr>locks := (locks r)(key := Some a), heap := arc_clone a h\<rparr>)))"

definition drop_lease :: "'k keyed_lock_lease \<Rightarrow> 'k keyed_locks \<Rightarrow> 'k keyed_locks" where
  "drop_lease l r =
     (case lease_lock l of
        None \<Rightarrow> r
      | Some a \<Rightarrow>
          if locks r (lease_key l) = Some a
          then (let h = arc_drop a (heap r)
                in if strong h a = 1
                   then r\<lparr>locks := (locks r)(lease_key l := None), heap := arc_drop a h\<rparr>
                   else r\<lparr>heap := h\<rparr>)
          else r\<lparr>heap := arc_drop a (heap r)\<rparr>)"

text \<open>
  A running system: the registry, the leases alive, and for each mutex the lease whose guard holds
  it. A guard borrows its lease, so a lease is dropped only after its guard.
\<close>

record 'k lock_world =
  registry :: "'k keyed_locks"
  leases :: "nat \<Rightarrow> 'k keyed_lock_lease option"
  guards :: "arc \<Rightarrow> nat option"

definition lock_world_start :: "'k lock_world" where
  "lock_world_start = \<lparr>registry = keyed_locks_default, leases = (\<lambda>_. None), guards = (\<lambda>_. None)\<rparr>"

definition lease_lock_of :: "(nat \<Rightarrow> 'k keyed_lock_lease option) \<Rightarrow> nat \<Rightarrow> arc option" where
  "lease_lock_of ls i = Option.bind (ls i) lease_lock"

inductive lock_step :: "'k lock_world \<Rightarrow> 'k lock_world \<Rightarrow> bool" where
  step_lease:
    "leases w i = None \<Longrightarrow> lease key (registry w) = (l, r) \<Longrightarrow>
     lock_step w (w\<lparr>registry := r, leases := (leases w)(i := Some l)\<rparr>)"
| step_lock:
    "lease_lock_of (leases w) i = Some a \<Longrightarrow> guards w a = None \<Longrightarrow>
     lock_step w (w\<lparr>guards := (guards w)(a := Some i)\<rparr>)"
| step_unlock:
    "guards w a = Some i \<Longrightarrow> lock_step w (w\<lparr>guards := (guards w)(a := None)\<rparr>)"
| step_drop:
    "leases w i = Some l \<Longrightarrow> i \<notin> ran (guards w) \<Longrightarrow>
     lock_step w (w\<lparr>registry := drop_lease l (registry w), leases := (leases w)(i := None)\<rparr>)"

inductive_cases lock_stepE: "lock_step w w'"

definition holds_lock :: "(nat \<Rightarrow> 'k keyed_lock_lease option) \<Rightarrow> (arc \<Rightarrow> nat option) \<Rightarrow> nat \<Rightarrow> bool" where
  "holds_lock ls gs i \<longleftrightarrow> (case lease_lock_of ls i of None \<Rightarrow> False | Some a \<Rightarrow> gs a = Some i)"

subsection \<open>The practice registry\<close>

text \<open>
  \<^verbatim>\<open>PracticeMutexLease::drop\<close> takes its \<^verbatim>\<open>Arc\<close> out of the lease, then works under the registry mutex,
  and the \<^verbatim>\<open>Arc\<close> it took is released after the registry guard: locals are dropped in the reverse
  order of their declaration. Three separate steps.
\<close>

definition practice_lease_new :: "'k \<Rightarrow> 'k keyed_locks \<Rightarrow> 'k keyed_lock_lease \<times> 'k keyed_locks" where
  "practice_lease_new hash r =
     (let (a, r') = (case locks r hash of
                       Some a \<Rightarrow> (a, r)
                     | None \<Rightarrow> (let (a, h) = arc_new (heap r)
                               in (a, r\<lparr>locks := (locks r)(hash := Some a), heap := h\<rparr>)))
      in (\<lparr>lease_key = hash, lease_lock = Some a\<rparr>, r'\<lparr>heap := arc_clone a (heap r')\<rparr>))"

definition practice_drop_check :: "'k \<Rightarrow> arc \<Rightarrow> 'k keyed_locks \<Rightarrow> 'k keyed_locks" where
  "practice_drop_check hash a r =
     (case locks r hash of
        None \<Rightarrow> r
      | Some current \<Rightarrow>
          if current = a \<and> strong (heap r) current = 2
          then r\<lparr>locks := (locks r)(hash := None), heap := arc_drop current (heap r)\<rparr>
          else r)"

record 'k practice_world = "'k lock_world" +
  taken :: "nat \<Rightarrow> ('k \<times> arc) option"
  checked :: "nat \<Rightarrow> arc option"

definition practice_world_start :: "'k practice_world" where
  "practice_world_start =
     \<lparr>registry = keyed_locks_default, leases = (\<lambda>_. None), guards = (\<lambda>_. None),
      taken = (\<lambda>_. None), checked = (\<lambda>_. None)\<rparr>"

inductive practice_step :: "'k practice_world \<Rightarrow> 'k practice_world \<Rightarrow> bool" where
  pstep_new:
    "leases w i = None \<Longrightarrow> taken w i = None \<Longrightarrow> checked w i = None \<Longrightarrow>
     practice_lease_new key (registry w) = (l, r) \<Longrightarrow>
     practice_step w (w\<lparr>registry := r, leases := (leases w)(i := Some l)\<rparr>)"
| pstep_lock:
    "lease_lock_of (leases w) i = Some a \<Longrightarrow> guards w a = None \<Longrightarrow>
     practice_step w (w\<lparr>guards := (guards w)(a := Some i)\<rparr>)"
| pstep_unlock:
    "guards w a = Some i \<Longrightarrow> practice_step w (w\<lparr>guards := (guards w)(a := None)\<rparr>)"
| pstep_take:
    "leases w i = Some l \<Longrightarrow> lease_lock l = Some a \<Longrightarrow> i \<notin> ran (guards w) \<Longrightarrow>
     practice_step w (w\<lparr>leases := (leases w)(i := None), taken := (taken w)(i := Some (lease_key l, a))\<rparr>)"
| pstep_check:
    "taken w i = Some (key, a) \<Longrightarrow>
     practice_step w (w\<lparr>registry := practice_drop_check key a (registry w),
                        taken := (taken w)(i := None), checked := (checked w)(i := Some a)\<rparr>)"
| pstep_release:
    "checked w i = Some a \<Longrightarrow>
     practice_step w (w\<lparr>registry := (registry w)\<lparr>heap := arc_drop a (heap (registry w))\<rparr>,
                        checked := (checked w)(i := None)\<rparr>)"

inductive_cases practice_stepE: "practice_step w w'"

subsection \<open>Cancellable waits\<close>

text \<open>
  What each attempt to take the lock answers is up to the other threads: the attempts are numbered.
  \<^verbatim>\<open>None\<close> is a wait that never ends.
\<close>

datatype try_lock = Acquired | WouldBlock | Poisoned

partial_function (option) lock_cancellable_from ::
    "(nat \<Rightarrow> bool) \<Rightarrow> nat \<Rightarrow> token \<Rightarrow> (unit result \<times> token) option" where
  "lock_cancellable_from try_lock_for n tk =
     (let (stop, tk') = is_cancelled tk
      in if stop then Some (Inl Cancellation, tk')
         else if try_lock_for n then Some (Inr (), tk')
         else lock_cancellable_from try_lock_for (Suc n) tk')"

definition lock_cancellable :: "(nat \<Rightarrow> bool) \<Rightarrow> token \<Rightarrow> (unit result \<times> token) option" where
  "lock_cancellable try_lock_for = lock_cancellable_from try_lock_for 0"

text \<open>The standard-library variant. A late cancellation drops the guard it had acquired: only an \<^verbatim>\<open>Ok\<close> holds it.\<close>

partial_function (option) lock_std_cancellable_from ::
    "(nat \<Rightarrow> try_lock) \<Rightarrow> string \<Rightarrow> nat \<Rightarrow> token \<Rightarrow> (unit result \<times> token) option" where
  "lock_std_cancellable_from attempt_at poisoned_message n tk =
     (let (stop, tk') = is_cancelled tk
      in if stop then Some (Inl Cancellation, tk')
         else if attempt_at n = WouldBlock
         then lock_std_cancellable_from attempt_at poisoned_message (Suc n) tk'
         else if attempt_at n = Poisoned then Some (Inl (Conflict poisoned_message), tk')
         else (let (late, tk'') = is_cancelled tk'
               in if late then Some (Inl Cancellation, tk'') else Some (Inr (), tk'')))"

definition lock_std_cancellable ::
    "(nat \<Rightarrow> try_lock) \<Rightarrow> token \<Rightarrow> string \<Rightarrow> (unit result \<times> token) option" where
  "lock_std_cancellable attempt_at tk poisoned_message =
     lock_std_cancellable_from attempt_at poisoned_message 0 tk"

subsection \<open>Counting references\<close>

definition holders :: "(nat \<Rightarrow> arc option) \<Rightarrow> arc \<Rightarrow> nat set" where
  "holders m a = {i. m i = Some a}"

definition counted :: "(nat \<Rightarrow> arc option) \<Rightarrow> arc \<Rightarrow> nat" where
  "counted m a = card (holders m a)"

lemma holders_subset: "holders m a \<subseteq> dom m"
  by (auto simp: holders_def)

lemma counted_insert [simp]:
  assumes "finite (dom m)" "m i = None"
  shows "counted (m(i := Some a)) b = counted m b + (if a = b then 1 else 0)"
proof (cases "a = b")
  case True
  have "holders (m(i := Some a)) b = insert i (holders m b)" using True by (auto simp: holders_def)
  moreover have "i \<notin> holders m b" using assms by (simp add: holders_def)
  moreover have "finite (holders m b)" using assms(1) by (rule finite_subset [OF holders_subset])
  ultimately show ?thesis using True by (simp add: counted_def)
next
  case False
  have "holders (m(i := Some a)) b = holders m b" using False assms by (auto simp: holders_def)
  thus ?thesis using False by (simp add: counted_def)
qed

lemma counted_remove:
  assumes "finite (dom m)" "m i = Some a"
  shows "counted m b = counted (m(i := None)) b + (if a = b then 1 else 0)"
proof -
  have "counted ((m(i := None))(i := Some a)) b = counted (m(i := None)) b + (if a = b then 1 else 0)"
    using assms(1) by (intro counted_insert) (auto intro: finite_subset [of _ "dom m"])
  moreover have "(m(i := None))(i := Some a) = m" using assms(2) by auto
  ultimately show ?thesis by simp
qed

lemma finite_holders: "finite (dom m) \<Longrightarrow> finite (holders m a)"
  by (rule finite_subset [OF holders_subset])

lemma counted_none: "counted m a = 0 \<Longrightarrow> finite (dom m) \<Longrightarrow> m i \<noteq> Some a"
  using finite_holders [of m a] by (auto simp: counted_def holders_def)

lemma counted_some: "0 < counted m a \<Longrightarrow> \<exists>i. m i = Some a"
  by (auto simp: counted_def holders_def card_gt_0_iff)

lemma counted_empty [simp]: "counted (\<lambda>_. None) a = 0"
  by (simp add: counted_def holders_def)

lemma lease_lock_of_upd [simp]:
  "lease_lock_of (ls(i := Some l)) = (lease_lock_of ls)(i := lease_lock l)"
  "lease_lock_of (ls(i := None)) = (lease_lock_of ls)(i := None)"
  "lease_lock_of (\<lambda>_. None) = (\<lambda>_. None)"
  by (auto simp: lease_lock_of_def fun_eq_iff)

lemma lease_lock_of_None: "ls i = None \<Longrightarrow> lease_lock_of ls i = None"
  by (simp add: lease_lock_of_def)

lemma finite_lease_lock_of: "finite (dom ls) \<Longrightarrow> finite (dom (lease_lock_of ls))"
  by (rule finite_subset [of _ "dom ls"]) (auto simp: lease_lock_of_def dom_def bind_eq_Some_conv)

lemmas arc_defs = arc_new_def arc_clone_def arc_drop_def

subsection \<open>Invariant of a registry\<close>

text \<open>
  \<^term>\<open>refs a\<close> is how many references to \<^term>\<open>a\<close> are held outside the registry. Every live lease owns
  the lock its key is registered under; distinct keys have distinct locks.
\<close>

definition registry_inv ::
    "'k keyed_locks \<Rightarrow> (nat \<Rightarrow> 'k keyed_lock_lease option) \<Rightarrow> (arc \<Rightarrow> nat) \<Rightarrow> bool" where
  "registry_inv r ls refs \<longleftrightarrow>
     finite (dom ls)
     \<and> (\<forall>i l. ls i = Some l \<longrightarrow> lease_lock l \<noteq> None \<and> locks r (lease_key l) = lease_lock l)
     \<and> (\<forall>k a. locks r k = Some a \<longrightarrow> a < next_arc (heap r) \<and> strong (heap r) a = refs a + 1)
     \<and> (\<forall>a. next_arc (heap r) \<le> a \<longrightarrow> refs a = 0)
     \<and> (\<forall>k k' a. locks r k = Some a \<longrightarrow> locks r k' = Some a \<longrightarrow> k = k')"

definition add_ref :: "arc option \<Rightarrow> (arc \<Rightarrow> nat) \<Rightarrow> arc \<Rightarrow> nat" where
  "add_ref x refs b = refs b + (if x = Some b then 1 else 0)"

lemma registry_inv_start: "registry_inv keyed_locks_default (\<lambda>_. None) (\<lambda>_. 0)"
  by (simp add: registry_inv_def keyed_locks_default_def)

lemma registry_inv_lease:
  assumes "registry_inv r ls refs" "ls i = None" "lease key r = (l, r')"
  shows "registry_inv r' (ls(i := Some l)) (add_ref (lease_lock l) refs)"
proof (cases "locks r key")
  case None
  hence "l = \<lparr>lease_key = key, lease_lock = Some (next_arc (heap r))\<rparr>"
    "r' = r\<lparr>locks := (locks r)(key := Some (next_arc (heap r))),
           heap := arc_clone (next_arc (heap r)) (snd (arc_new (heap r)))\<rparr>"
    using assms(3) by (simp_all add: lease_def arc_defs)
  thus ?thesis using assms(1) None
    by (force simp: registry_inv_def arc_defs add_ref_def)
next
  case (Some a)
  hence "l = \<lparr>lease_key = key, lease_lock = Some a\<rparr>" "r' = r\<lparr>heap := arc_clone a (heap r)\<rparr>"
    using assms(3) by (simp_all add: lease_def)
  moreover have "\<not> next_arc (heap r) \<le> a" using assms(1) Some by (auto simp: registry_inv_def not_le)
  ultimately show ?thesis using assms(1) Some
    by (auto simp: registry_inv_def arc_defs add_ref_def simp del: not_le)
qed

lemma registry_inv_take:
  assumes "registry_inv r ls refs"
  shows "registry_inv r (ls(i := None)) refs"
proof -
  have "finite (dom (ls(i := None)))" using assms by (auto simp: registry_inv_def)
  thus ?thesis using assms by (simp add: registry_inv_def)
qed

lemma registry_inv_release:
  "registry_inv r ls (add_ref (Some a) refs) \<Longrightarrow> registry_inv (r\<lparr>heap := arc_drop a (heap r)\<rparr>) ls refs"
  by (auto simp: registry_inv_def add_ref_def arc_defs split: if_splits)

lemma registry_inv_remove:
  assumes "registry_inv r ls refs" "locks r k = Some a" "\<And>i l. ls i = Some l \<Longrightarrow> lease_key l \<noteq> k"
  shows "registry_inv (r\<lparr>locks := (locks r)(k := None), heap := arc_drop a (heap r)\<rparr>) ls refs"
  using assms unfolding registry_inv_def by (simp add: arc_defs) metis

lemma registry_inv_same_key:
  "registry_inv r ls refs \<Longrightarrow> ls i = Some l \<Longrightarrow> ls j = Some m \<Longrightarrow>
   lease_lock l = lease_lock m \<longleftrightarrow> lease_key l = lease_key m"
  unfolding registry_inv_def by (metis not_None_eq)

lemma registry_inv_no_lease:
  assumes "registry_inv r ls refs" "locks r k = Some a" "counted (lease_lock_of ls) a = 0"
    "ls i = Some l"
  shows "lease_key l \<noteq> k"
proof -
  have "lease_lock l \<noteq> Some a"
    using counted_none [OF assms(3), of i] finite_lease_lock_of [of ls] assms(1,4)
    by (simp add: registry_inv_def lease_lock_of_def)
  thus ?thesis using assms by (auto simp: registry_inv_def)
qed

lemma practice_lease_new_eq: "practice_lease_new key r = lease key r"
  by (cases "locks r key") (auto simp: practice_lease_new_def lease_def Let_def split: prod.splits)

subsection \<open>Invariants of the two systems\<close>

definition guards_inv :: "(nat \<Rightarrow> 'k keyed_lock_lease option) \<Rightarrow> (arc \<Rightarrow> nat option) \<Rightarrow> bool" where
  "guards_inv ls gs \<longleftrightarrow> (\<forall>a i. gs a = Some i \<longrightarrow> lease_lock_of ls i = Some a)"

lemma guards_inv_upd:
  "guards_inv ls gs \<Longrightarrow> ls i = None \<Longrightarrow> guards_inv (ls(i := Some l)) gs"
  "guards_inv ls gs \<Longrightarrow> i \<notin> ran gs \<Longrightarrow> guards_inv (ls(i := None)) gs"
  "guards_inv ls gs \<Longrightarrow> lease_lock_of ls i = Some a \<Longrightarrow> guards_inv ls (gs(a := Some i))"
  "guards_inv ls gs \<Longrightarrow> guards_inv ls (gs(a := None))"
  by (fastforce simp: guards_inv_def ran_def lease_lock_of_def)+

definition lock_inv :: "'k lock_world \<Rightarrow> bool" where
  "lock_inv w \<longleftrightarrow>
     registry_inv (registry w) (leases w) (counted (lease_lock_of (leases w)))
     \<and> (\<forall>k a. locks (registry w) k = Some a \<longrightarrow> 0 < counted (lease_lock_of (leases w)) a)
     \<and> guards_inv (leases w) (guards w)"

lemma counted_lease:
  "finite (dom ls) \<Longrightarrow> ls i = None \<Longrightarrow>
   counted (lease_lock_of (ls(i := Some l))) = add_ref (lease_lock l) (counted (lease_lock_of ls))"
  by (rule ext, cases "lease_lock l")
    (auto simp: add_ref_def finite_lease_lock_of lease_lock_of_None fun_upd_idem)

lemma counted_take:
  "finite (dom ls) \<Longrightarrow> ls i = Some l \<Longrightarrow> lease_lock l = Some a \<Longrightarrow>
   counted (lease_lock_of ls) = add_ref (Some a) (counted (lease_lock_of (ls(i := None))))"
  by (rule ext) (simp add: add_ref_def counted_remove [of _ i a] finite_lease_lock_of lease_lock_of_def)

lemma lock_inv_start: "lock_inv lock_world_start"
  using registry_inv_start
  by (simp add: lock_inv_def lock_world_start_def guards_inv_def keyed_locks_default_def registry_inv_def)

lemma lease_keeps:
  assumes "lease key r = (l, r')"
  shows "locks r' k = Some a \<Longrightarrow> lease_lock l = Some a \<or> locks r k = Some a"
  using assms by (auto simp: lease_def arc_defs split: option.splits if_splits)

lemma lock_inv_lease:
  assumes "lock_inv w" "leases w i = None" "lease key (registry w) = (l, r)"
  shows "lock_inv (w\<lparr>registry := r, leases := (leases w)(i := Some l)\<rparr>)"
proof -
  have inv: "registry_inv (registry w) (leases w) (counted (lease_lock_of (leases w)))"
    "guards_inv (leases w) (guards w)"
    "\<And>k a. locks (registry w) k = Some a \<Longrightarrow> 0 < counted (lease_lock_of (leases w)) a"
    using assms(1) by (auto simp: lock_inv_def)
  have fin: "finite (dom (leases w))" using inv(1) by (simp add: registry_inv_def)
  note counted_lease [OF fin assms(2), of l]
  thus ?thesis
    using registry_inv_lease [OF inv(1) assms(2,3)] guards_inv_upd(1) [OF inv(2) assms(2), of l]
      lease_keeps [OF assms(3)] inv(3)
    unfolding lock_inv_def by (force simp: add_ref_def)
qed

lemma lock_inv_drop:
  assumes "lock_inv w" "leases w i = Some l" "i \<notin> ran (guards w)"
  shows "lock_inv (w\<lparr>registry := drop_lease l (registry w), leases := (leases w)(i := None)\<rparr>)"
proof -
  define r where "r = registry w"
  define ls where "ls = (leases w)(i := None)"
  define refs where "refs = counted (lease_lock_of ls)"
  have inv: "registry_inv r (leases w) (counted (lease_lock_of (leases w)))"
    "guards_inv (leases w) (guards w)"
    "\<And>k a. locks r k = Some a \<Longrightarrow> 0 < counted (lease_lock_of (leases w)) a"
    using assms(1) by (auto simp: lock_inv_def r_def)
  obtain a where a: "lease_lock l = Some a" "locks r (lease_key l) = Some a"
    using inv(1) assms(2) by (force simp: registry_inv_def)
  have counts: "counted (lease_lock_of (leases w)) = add_ref (Some a) refs"
    unfolding refs_def ls_def
    using inv(1) assms(2) a(1) by (intro counted_take) (auto simp: registry_inv_def)
  define r' where "r' = r\<lparr>heap := arc_drop a (heap r)\<rparr>"
  have r': "registry_inv r' ls refs"
    unfolding r'_def ls_def using registry_inv_take [OF inv(1)] counts
    by (simp add: registry_inv_release)
  have locks': "locks r' = locks r" by (simp add: r'_def)
  have guards: "guards_inv ls (guards w)"
    unfolding ls_def using guards_inv_upd(2) [OF inv(2) assms(3)] .
  have count_a: "strong (heap r') a = refs a + 1"
    using r' a(2) locks' by (simp add: registry_inv_def)
  have others: "0 < refs b" if "locks r k = Some b" "b \<noteq> a" for k b
    using inv(3) [OF that(1)] that(2) counts by (simp add: add_ref_def)
  have same: "k = lease_key l" if "locks r k = Some a" for k
    using inv(1) that a(2) unfolding registry_inv_def by blast
  show ?thesis
  proof (cases "refs a = 0")
    case True
    have "drop_lease l r = r'\<lparr>locks := (locks r')(lease_key l := None), heap := arc_drop a (heap r')\<rparr>"
      using a True count_a by (simp add: drop_lease_def r'_def)
    moreover have "registry_inv \<dots> ls refs"
      using r' a(2) locks' True registry_inv_no_lease [OF r', of "lease_key l" a]
      by (intro registry_inv_remove) (auto simp: refs_def)
    moreover have "0 < refs b" if "((locks r)(lease_key l := None)) k = Some b" for k b
      using that others same by (metis fun_upd_apply option.distinct(1))
    ultimately show ?thesis
      using guards locks' unfolding lock_inv_def r_def ls_def refs_def by simp
  next
    case False
    hence "drop_lease l r = r'" using a count_a by (simp add: drop_lease_def r'_def)
    moreover have "0 < refs b" if "locks r k = Some b" for k b
      using that others False by (cases "b = a") auto
    ultimately show ?thesis
      using r' guards locks' unfolding lock_inv_def r_def ls_def refs_def by simp
  qed
qed

lemma lock_inv_step: "lock_inv w \<Longrightarrow> lock_step w w' \<Longrightarrow> lock_inv w'"
  by (elim lock_stepE) (auto simp: lock_inv_lease lock_inv_drop, auto simp: lock_inv_def guards_inv_upd)

text \<open>In the practice registry a reference may also be held by a drop in progress.\<close>

definition taken_lock_of :: "(nat \<Rightarrow> ('k \<times> arc) option) \<Rightarrow> nat \<Rightarrow> arc option" where
  "taken_lock_of t i = map_option snd (t i)"

definition practice_refs :: "'k practice_world \<Rightarrow> arc \<Rightarrow> nat" where
  "practice_refs w a =
     counted (lease_lock_of (leases w)) a + counted (taken_lock_of (taken w)) a
     + counted (checked w) a"

definition practice_inv :: "'k practice_world \<Rightarrow> bool" where
  "practice_inv w \<longleftrightarrow>
     registry_inv (registry w) (leases w) (practice_refs w)
     \<and> finite (dom (taken w)) \<and> finite (dom (checked w))
     \<and> (\<forall>i. leases w i \<noteq> None \<longrightarrow> taken w i = None)
     \<and> (\<forall>i. taken w i \<noteq> None \<longrightarrow> checked w i = None)
     \<and> (\<forall>i. leases w i \<noteq> None \<longrightarrow> checked w i = None)
     \<and> guards_inv (leases w) (guards w)"

lemma taken_lock_of_simps [simp]:
  "taken_lock_of (t(j := Some (k, a))) = (taken_lock_of t)(j := Some a)"
  "taken_lock_of (t(j := None)) = (taken_lock_of t)(j := None)"
  "taken_lock_of (\<lambda>_. None) = (\<lambda>_. None)"
  "finite (dom (taken_lock_of t)) = finite (dom t)"
  "taken_lock_of t j = None \<longleftrightarrow> t j = None"
  by (auto simp: fun_eq_iff dom_def taken_lock_of_def)

lemma practice_inv_start: "practice_inv practice_world_start"
  by (simp add: practice_inv_def practice_world_start_def guards_inv_def keyed_locks_default_def
      registry_inv_def practice_refs_def)

lemma practice_inv_finite: "practice_inv w \<Longrightarrow> finite (dom (leases w))"
  by (simp add: practice_inv_def registry_inv_def)

lemma practice_inv_new:
  assumes "practice_inv w" "leases w i = None" "taken w i = None" "checked w i = None"
    "practice_lease_new key (registry w) = (l, r)"
  shows "practice_inv (w\<lparr>registry := r, leases := (leases w)(i := Some l)\<rparr>)"
proof -
  have "practice_refs (w\<lparr>registry := r, leases := (leases w)(i := Some l)\<rparr>)
        = add_ref (lease_lock l) (practice_refs w)"
    using counted_lease [OF practice_inv_finite [OF assms(1)] assms(2), of l]
    by (simp add: practice_refs_def add_ref_def fun_eq_iff del: lease_lock_of_upd)
  thus ?thesis
    using assms registry_inv_lease [of "registry w" "leases w" "practice_refs w" i key l r]
    by (simp add: practice_inv_def guards_inv_upd practice_lease_new_eq)
qed

lemma practice_inv_take:
  assumes "practice_inv w" "leases w i = Some l" "lease_lock l = Some a" "i \<notin> ran (guards w)"
  shows "practice_inv (w\<lparr>leases := (leases w)(i := None), taken := (taken w)(i := Some (lease_key l, a))\<rparr>)"
proof -
  have "practice_refs (w\<lparr>leases := (leases w)(i := None), taken := (taken w)(i := Some (lease_key l, a))\<rparr>)
        = practice_refs w"
    using counted_take [OF practice_inv_finite [OF assms(1)] assms(2,3)] assms(1,2)
    by (simp add: practice_refs_def add_ref_def fun_eq_iff practice_inv_def)
  thus ?thesis
    using assms registry_inv_take [of "registry w" "leases w" "practice_refs w" i]
    by (simp add: practice_inv_def guards_inv_upd)
qed

lemma practice_inv_check:
  assumes "practice_inv w" "taken w i = Some (key, a)"
  shows "practice_inv (w\<lparr>registry := practice_drop_check key a (registry w),
                         taken := (taken w)(i := None), checked := (checked w)(i := Some a)\<rparr>)"
proof -
  let ?t = "taken_lock_of (taken w)"
  have split: "counted ?t b = counted (?t(i := None)) b + (if a = b then 1 else 0)" for b
    using assms by (intro counted_remove) (auto simp: practice_inv_def taken_lock_of_def)
  have "leases w i = None" using assms by (auto simp: practice_inv_def)
  have refs: "practice_refs (w\<lparr>registry := r, taken := (taken w)(i := None), checked := (checked w)(i := Some a)\<rparr>)
        = practice_refs w" for r
    using split assms by (simp add: practice_refs_def fun_eq_iff practice_inv_def)
  have inv: "registry_inv (registry w) (leases w) (practice_refs w)"
    using assms by (simp add: practice_inv_def)
  have "registry_inv (practice_drop_check key a (registry w)) (leases w) (practice_refs w)"
  proof (cases "locks (registry w) key = Some a \<and> strong (heap (registry w)) a = 2")
    case True
    hence "practice_refs w a = 1" using inv by (auto simp: registry_inv_def)
    hence "counted (lease_lock_of (leases w)) a = 0"
      using split [of a] by (simp add: practice_refs_def)
    thus ?thesis
      using True inv registry_inv_no_lease [OF inv]
      by (auto simp: practice_drop_check_def intro!: registry_inv_remove)
  next
    case False
    thus ?thesis using inv by (auto simp: practice_drop_check_def split: option.splits)
  qed
  thus ?thesis using assms \<open>leases w i = None\<close> refs by (auto simp: practice_inv_def)
qed

lemma practice_inv_release:
  assumes "practice_inv w" "checked w i = Some a"
  shows "practice_inv (w\<lparr>registry := (registry w)\<lparr>heap := arc_drop a (heap (registry w))\<rparr>,
                         checked := (checked w)(i := None)\<rparr>)"
proof -
  have split: "counted (checked w) b = counted ((checked w)(i := None)) b + (if a = b then 1 else 0)" for b
    using assms by (intro counted_remove) (auto simp: practice_inv_def)
  have "practice_refs w = add_ref (Some a) (practice_refs (w\<lparr>registry := r, checked := (checked w)(i := None)\<rparr>))" for r
    using split by (simp add: practice_refs_def add_ref_def fun_eq_iff)
  thus ?thesis
    using assms registry_inv_release [of "registry w" "leases w" a]
    by (simp add: practice_inv_def)
qed

lemma practice_inv_step: "practice_inv w \<Longrightarrow> practice_step w w' \<Longrightarrow> practice_inv w'"
  by (elim practice_stepE)
    (simp_all add: practice_inv_new practice_inv_take practice_inv_check practice_inv_release,
      simp_all add: practice_inv_def guards_inv_upd practice_refs_def [abs_def])

subsection \<open>Mutual exclusion\<close>

text \<open>
  What a client of a keyed registry relies on: leases of one key share one lock, leases of distinct
  keys never do, and a held mutex belongs to a live lease.
\<close>

locale keyed_exclusion =
  fixes step :: "'w \<Rightarrow> 'w \<Rightarrow> bool" and start :: 'w and inv :: "'w \<Rightarrow> bool"
    and leases_of :: "'w \<Rightarrow> nat \<Rightarrow> 'k keyed_lock_lease option"
    and guards_of :: "'w \<Rightarrow> arc \<Rightarrow> nat option"
  assumes inv_start: "inv start"
    and inv_step: "inv w \<Longrightarrow> step w w' \<Longrightarrow> inv w'"
    and lock_present: "inv w \<Longrightarrow> leases_of w i = Some l \<Longrightarrow> lease_lock l \<noteq> None"
    and lock_per_key: "inv w \<Longrightarrow> leases_of w i = Some l \<Longrightarrow> leases_of w j = Some m \<Longrightarrow>
      lease_lock l = lease_lock m \<longleftrightarrow> lease_key l = lease_key m"
    and guard_owner: "inv w \<Longrightarrow> guards_inv (leases_of w) (guards_of w)"
begin

lemma reachable_inv: "step\<^sup>*\<^sup>* start w \<Longrightarrow> inv w"
  by (induction rule: rtranclp_induct) (auto intro: inv_start inv_step)

lemma exclusion:
  assumes "step\<^sup>*\<^sup>* start w" "leases_of w i = Some l" "leases_of w j = Some m"
    "lease_key l = lease_key m"
    "holds_lock (leases_of w) (guards_of w) i" "holds_lock (leases_of w) (guards_of w) j"
  shows "i = j"
proof -
  have "lease_lock l = lease_lock m"
    using lock_per_key [OF reachable_inv [OF assms(1)] assms(2,3)] assms(4) by simp
  thus ?thesis using assms(2,3,5,6)
    by (auto simp: holds_lock_def lease_lock_of_def split: option.splits)
qed

lemma unblocked:
  assumes "step\<^sup>*\<^sup>* start w" "leases_of w i = Some l"
    "\<And>j m. leases_of w j = Some m \<Longrightarrow> lease_key m = lease_key l \<Longrightarrow>
      \<not> holds_lock (leases_of w) (guards_of w) j"
  obtains a where "lease_lock l = Some a" "lease_lock_of (leases_of w) i = Some a"
    "guards_of w a = None"
proof -
  note inv = reachable_inv [OF assms(1)]
  obtain a where a: "lease_lock l = Some a" using lock_present [OF inv assms(2)] by auto
  have "guards_of w a = None"
  proof (rule ccontr)
    assume "guards_of w a \<noteq> None"
    then obtain j where j: "guards_of w a = Some j" by auto
    then obtain m where m: "leases_of w j = Some m" "lease_lock m = Some a"
      using guard_owner [OF inv]
      by (auto simp: guards_inv_def lease_lock_of_def bind_eq_Some_conv)
    hence "lease_key m = lease_key l" using lock_per_key [OF inv m(1) assms(2)] a by simp
    thus False using assms(3) [OF m(1)] m j by (simp add: holds_lock_def lease_lock_of_def)
  qed
  thus thesis using that a assms(2) by (simp add: lease_lock_of_def)
qed

end

interpretation keyed: keyed_exclusion lock_step lock_world_start lock_inv leases guards
proof
  show "lock_inv lock_world_start" by (rule lock_inv_start)
  show "\<And>w w' :: 'a lock_world. lock_inv w \<Longrightarrow> lock_step w w' \<Longrightarrow> lock_inv w'" by (rule lock_inv_step)
qed (auto simp: lock_inv_def registry_inv_same_key dest: registry_inv_same_key, auto simp: registry_inv_def)

interpretation practice: keyed_exclusion practice_step practice_world_start practice_inv leases guards
proof
  show "practice_inv practice_world_start" by (rule practice_inv_start)
  show "\<And>w w' :: 'a practice_world. practice_inv w \<Longrightarrow> practice_step w w' \<Longrightarrow> practice_inv w'"
    by (rule practice_inv_step)
qed (auto simp: practice_inv_def registry_inv_same_key dest: registry_inv_same_key, auto simp: registry_inv_def)

subsection \<open>Properties\<close>

text \<open>C17. In every interleaving of leases, locks, unlocks and drops, at most one lease of a key holds
  its mutex.\<close>

theorem keyed_lock_exclusion:
  assumes "lock_step\<^sup>*\<^sup>* lock_world_start w" "leases w i = Some l" "leases w j = Some m"
    "lease_key l = lease_key m" "i \<noteq> j" "holds_lock (leases w) (guards w) i"
  shows "\<not> holds_lock (leases w) (guards w) j"
  using assms keyed.exclusion by blast

text \<open>A lease waits only for its own key: when no lease of that key holds the mutex, it can be
  taken at once, whatever other keys are held.\<close>

theorem keyed_lock_independent_keys:
  assumes "lock_step\<^sup>*\<^sup>* lock_world_start w" "leases w i = Some l"
    "\<forall>j m. leases w j = Some m \<longrightarrow> lease_key m = lease_key l \<longrightarrow> \<not> holds_lock (leases w) (guards w) j"
  shows "\<exists>w'. lock_step w w' \<and> leases w' = leases w \<and> holds_lock (leases w') (guards w') i"
proof -
  obtain a where "lease_lock_of (leases w) i = Some a" "guards w a = None"
    using assms by (metis keyed.unblocked)
  thus ?thesis
    by (intro exI [of _ "w\<lparr>guards := (guards w)(a := Some i)\<rparr>"])
      (auto simp: holds_lock_def intro: step_lock)
qed

text \<open>The registry retains exactly the keys with an outstanding lease, so it is empty again once
  every lease is dropped.\<close>

theorem keyed_registry_tracks_leases:
  assumes "lock_step\<^sup>*\<^sup>* lock_world_start w"
  shows "dom (locks (registry w)) = {lease_key l | l. l \<in> ran (leases w)}"
proof -
  have inv: "lock_inv w" using assms by (rule keyed.reachable_inv)
  have "\<exists>i l. leases w i = Some l \<and> lease_key l = k" if reg: "locks (registry w) k = Some a" for k a
  proof -
    obtain i where "lease_lock_of (leases w) i = Some a"
      using inv reg counted_some unfolding lock_inv_def by blast
    then obtain l where "leases w i = Some l" "lease_lock l = Some a"
      by (auto simp: lease_lock_of_def bind_eq_Some_conv)
    thus ?thesis using inv reg unfolding lock_inv_def registry_inv_def by metis
  qed
  moreover have "\<exists>a. locks (registry w) (lease_key l) = Some a" if "leases w i = Some l" for i l
    using inv that by (auto simp: lock_inv_def registry_inv_def)
  ultimately show ?thesis by (auto simp: ran_def) blast
qed

text \<open>The practice registry has the same exclusion, although its drops are not atomic: at most one
  lease of a deck holds the mutex.\<close>

theorem practice_lock_exclusion:
  assumes "practice_step\<^sup>*\<^sup>* practice_world_start w" "leases w i = Some l" "leases w j = Some m"
    "lease_key l = lease_key m" "i \<noteq> j" "holds_lock (leases w) (guards w) i"
  shows "\<not> holds_lock (leases w) (guards w) j"
  using assms practice.exclusion by blast

text \<open>C39. The practice registry can keep an entry nobody leases: two drops that overlap both see the
  other's reference in the strong count, neither removes the entry, and no later drop exists.\<close>

theorem practice_registry_leak:
  "\<exists>w. practice_step\<^sup>*\<^sup>* practice_world_start w \<and> leases w = (\<lambda>_. None)
       \<and> taken w = (\<lambda>_. None) \<and> checked w = (\<lambda>_. None) \<and> locks (registry w) key \<noteq> None"
proof -
  let ?l = "\<lparr>lease_key = key, lease_lock = Some 0\<rparr>"
  let ?r = "\<lambda>n. \<lparr>locks = (\<lambda>_. None)(key := Some 0), heap = \<lparr>strong = (\<lambda>_. 0)(0 := n), next_arc = Suc 0\<rparr>\<rparr>"
  let ?w = "\<lambda>n ls t c. \<lparr>registry = ?r n, leases = ls, guards = (\<lambda>_. None), taken = t, checked = c\<rparr>"
  let ?e = "\<lambda>_. None"
  have 1: "practice_step practice_world_start (?w 2 (?e(0 := Some ?l)) ?e ?e)"
    using pstep_new [of practice_world_start 0 key]
    by (simp add: practice_world_start_def practice_lease_new_def keyed_locks_default_def arc_defs
        numeral_2_eq_2)
  have 2: "practice_step (?w 2 (?e(0 := Some ?l)) ?e ?e) (?w 3 (?e(0 := Some ?l, 1 := Some ?l)) ?e ?e)"
    using pstep_new [of "?w 2 (?e(0 := Some ?l)) ?e ?e" 1 key]
    by (simp add: practice_lease_new_def arc_defs numeral_2_eq_2 numeral_3_eq_3)
  have 3: "practice_step (?w 3 (?e(0 := Some ?l, 1 := Some ?l)) ?e ?e)
      (?w 3 (?e(1 := Some ?l)) (?e(0 := Some (key, 0))) ?e)"
    using pstep_take [of "?w 3 (?e(0 := Some ?l, 1 := Some ?l)) ?e ?e" 0 ?l 0]
    by (simp add: fun_upd_twist)
  have 4: "practice_step (?w 3 (?e(1 := Some ?l)) (?e(0 := Some (key, 0))) ?e)
      (?w 3 ?e (?e(0 := Some (key, 0), 1 := Some (key, 0))) ?e)"
    using pstep_take [of "?w 3 (?e(1 := Some ?l)) (?e(0 := Some (key, 0))) ?e" 1 ?l 0] by simp
  have 5: "practice_step (?w 3 ?e (?e(0 := Some (key, 0), 1 := Some (key, 0))) ?e)
      (?w 3 ?e (?e(1 := Some (key, 0))) (?e(0 := Some 0)))"
    using pstep_check [of "?w 3 ?e (?e(0 := Some (key, 0), 1 := Some (key, 0))) ?e" 0 key 0]
    by (simp add: practice_drop_check_def fun_upd_twist)
  have 6: "practice_step (?w 3 ?e (?e(1 := Some (key, 0))) (?e(0 := Some 0)))
      (?w 3 ?e ?e (?e(0 := Some 0, 1 := Some 0)))"
    using pstep_check [of "?w 3 ?e (?e(1 := Some (key, 0))) (?e(0 := Some 0))" 1 key 0]
    by (simp add: practice_drop_check_def)
  have 7: "practice_step (?w 3 ?e ?e (?e(0 := Some 0, 1 := Some 0))) (?w 2 ?e ?e (?e(1 := Some 0)))"
    using pstep_release [of "?w 3 ?e ?e (?e(0 := Some 0, 1 := Some 0))" 0 0]
    by (simp add: arc_defs fun_upd_twist)
  have 8: "practice_step (?w 2 ?e ?e (?e(1 := Some 0))) (?w 1 ?e ?e ?e)"
    using pstep_release [of "?w 2 ?e ?e (?e(1 := Some 0))" 1 0] by (simp add: arc_defs)
  have "practice_step\<^sup>*\<^sup>* practice_world_start (?w 1 ?e ?e ?e)"
    using 1 2 3 4 5 6 7 8 by (meson converse_rtranclp_into_rtranclp rtranclp.rtrancl_refl)
  thus ?thesis by (intro exI [of _ "?w 1 ?e ?e ?e"]) simp
qed

subsection \<open>The waits end\<close>

text \<open>\<^term>\<open>visible tk n\<close>: the poll numbered \<^term>\<open>n\<close> of the token answers yes.\<close>

fun visible :: "token \<Rightarrow> nat \<Rightarrow> bool" where
  "visible Never n = False"
| "visible (After k) n = (k \<le> n)"

lemma is_cancelled_visible: "fst (is_cancelled tk) = visible tk 0"
  by (cases tk rule: is_cancelled.cases) auto

lemma visible_next: "\<not> visible tk 0 \<Longrightarrow> visible (snd (is_cancelled tk)) n = visible tk (Suc n)"
  by (cases tk rule: is_cancelled.cases) auto

lemma lock_cancellable_step:
  "lock_cancellable_from try_lock_for n tk =
     (if visible tk 0 then Some (Inl Cancellation, snd (is_cancelled tk))
      else if try_lock_for n then Some (Inr (), snd (is_cancelled tk))
      else lock_cancellable_from try_lock_for (Suc n) (snd (is_cancelled tk)))"
  by (subst lock_cancellable_from.simps) (simp add: Let_def split_beta is_cancelled_visible)

lemma lock_std_step:
  "lock_std_cancellable_from attempt_at msg n tk =
     (if visible tk 0 then Some (Inl Cancellation, snd (is_cancelled tk))
      else if attempt_at n = WouldBlock
      then lock_std_cancellable_from attempt_at msg (Suc n) (snd (is_cancelled tk))
      else if attempt_at n = Poisoned then Some (Inl (Conflict msg), snd (is_cancelled tk))
      else Some (if visible tk 1 then Inl Cancellation else Inr (),
                 snd (is_cancelled (snd (is_cancelled tk)))))"
  by (subst lock_std_cancellable_from.simps)
    (simp add: Let_def split_beta is_cancelled_visible visible_next)

lemma visible_mono: "visible tk k \<Longrightarrow> k \<le> n \<Longrightarrow> visible tk n"
  by (cases tk) auto

lemma lock_cancellable_from_outcome:
  assumes "\<And>m. n \<le> m \<Longrightarrow> m < n + k \<Longrightarrow> \<not> try_lock_for m" "visible tk k \<or> try_lock_for (n + k)"
  shows "\<exists>tk'. lock_cancellable_from try_lock_for n tk
           = Some (if visible tk k then Inl Cancellation else Inr (), tk')"
  using assms
proof (induction k arbitrary: n tk)
  case 0
  thus ?case by (auto simp: lock_cancellable_step [of _ n tk])
next
  case (Suc k)
  show ?case
  proof (cases "visible tk 0")
    case True
    thus ?thesis using visible_mono [OF True, of "Suc k"] by (simp add: lock_cancellable_step [of _ n tk])
  next
    case False
    let ?tk = "snd (is_cancelled tk)"
    have "\<exists>tk'. lock_cancellable_from try_lock_for (Suc n) ?tk
             = Some (if visible ?tk k then Inl Cancellation else Inr (), tk')"
      using Suc.prems visible_next [OF False] by (intro Suc.IH) auto
    moreover have "\<not> try_lock_for n" using Suc.prems(1) [of n] by simp
    ultimately show ?thesis
      using False by (simp add: lock_cancellable_step [of _ n tk] visible_next split del: if_split)
  qed
qed

definition std_outcome :: "(nat \<Rightarrow> try_lock) \<Rightarrow> string \<Rightarrow> token \<Rightarrow> nat \<Rightarrow> nat \<Rightarrow> unit result" where
  "std_outcome attempt_at msg tk k n =
     (if visible tk k then Inl Cancellation
      else if attempt_at n = Poisoned then Inl (Conflict msg)
      else if visible tk (Suc k) then Inl Cancellation else Inr ())"

lemma lock_std_from_outcome:
  assumes "\<And>m. n \<le> m \<Longrightarrow> m < n + k \<Longrightarrow> attempt_at m = WouldBlock"
    "visible tk k \<or> attempt_at (n + k) \<noteq> WouldBlock"
  shows "\<exists>tk'. lock_std_cancellable_from attempt_at msg n tk = Some (std_outcome attempt_at msg tk k (n + k), tk')"
  using assms
proof (induction k arbitrary: n tk)
  case 0
  thus ?case by (auto simp: lock_std_step [of _ _ n tk] std_outcome_def)
next
  case (Suc k)
  show ?case
  proof (cases "visible tk 0")
    case True
    thus ?thesis
      using visible_mono [OF True, of "Suc k"] by (simp add: lock_std_step [of _ _ n tk] std_outcome_def)
  next
    case False
    let ?tk = "snd (is_cancelled tk)"
    have "\<exists>tk'. lock_std_cancellable_from attempt_at msg (Suc n) ?tk
             = Some (std_outcome attempt_at msg ?tk k (Suc n + k), tk')"
      using Suc.prems visible_next [OF False] by (intro Suc.IH) auto
    moreover have "std_outcome attempt_at msg ?tk k (Suc n + k) = std_outcome attempt_at msg tk (Suc k) (n + Suc k)"
      using False by (simp add: std_outcome_def visible_next)
    moreover have "attempt_at n = WouldBlock" using Suc.prems(1) [of n] by simp
    ultimately show ?thesis using False by (simp add: lock_std_step [of _ _ n tk])
  qed
qed

text \<open>A wait on a standard-library mutex ends at the first attempt that does not block or at the
  first poll that sees the cancellation, whichever is earlier. It returns the guard only when the
  lock was acquired, not poisoned, and the poll after the acquisition saw no cancellation.\<close>

theorem lock_std_cancellable_outcome:
  assumes "\<forall>m<n. attempt_at m = WouldBlock" "visible tk n \<or> attempt_at n \<noteq> WouldBlock"
  shows "\<exists>tk'. lock_std_cancellable attempt_at tk msg
           = Some (if visible tk n then Inl Cancellation
                   else if attempt_at n = Poisoned then Inl (Conflict msg)
                   else if visible tk (Suc n) then Inl Cancellation else Inr (), tk')"
  using lock_std_from_outcome [of 0 n attempt_at tk msg] assms
  by (simp add: lock_std_cancellable_def std_outcome_def)

text \<open>A cancellable wait on a worker lock returns the guard at the first attempt that succeeds
  unless the cancellation was seen no later; a cancelled wait ends even if the lock is never free.\<close>

theorem lock_cancellable_outcome:
  assumes "\<forall>m<n. \<not> try_lock_for m" "visible tk n \<or> try_lock_for n"
  shows "\<exists>tk'. lock_cancellable try_lock_for tk
           = Some (if visible tk n then Inl Cancellation else Inr (), tk')"
  using lock_cancellable_from_outcome [of 0 n try_lock_for tk] assms
  by (simp add: lock_cancellable_def)

theorem lock_std_cancellable_outcome_witness:
  "\<exists>tk'. lock_std_cancellable (\<lambda>n. if n < 2 then WouldBlock else Acquired) (After 3) ''poisoned''
     = Some (Inl Cancellation, tk')"
  using lock_std_cancellable_outcome [of 2 "\<lambda>n. if n < 2 then WouldBlock else Acquired" "After 3" "''poisoned''"]
  by simp

theorem lock_cancellable_outcome_witness:
  "\<exists>tk'. lock_cancellable (\<lambda>_. False) (After 3) = Some (Inl Cancellation, tk')"
  using lock_cancellable_outcome [of 3 "\<lambda>_. False" "After 3"] by simp

subsection \<open>Witnesses\<close>

text \<open>Two leases of key 7, the first holding the lock, and a lease of key 8.\<close>

definition example_registry :: "nat keyed_locks" where
  "example_registry = \<lparr>locks = (\<lambda>_. None)(7 := Some 0, 8 := Some 1),
     heap = \<lparr>strong = (\<lambda>_. 0)(0 := 3, 1 := 2), next_arc = 2\<rparr>\<rparr>"

definition example_leases :: "nat \<Rightarrow> nat keyed_lock_lease option" where
  "example_leases = (\<lambda>_. None)
     (0 := Some \<lparr>lease_key = 7, lease_lock = Some 0\<rparr>, 1 := Some \<lparr>lease_key = 7, lease_lock = Some 0\<rparr>,
      2 := Some \<lparr>lease_key = 8, lease_lock = Some 1\<rparr>)"

definition example_world :: "nat lock_world" where
  "example_world = \<lparr>registry = example_registry, leases = example_leases, guards = (\<lambda>_. None)(0 := Some 0)\<rparr>"

definition example_practice :: "nat practice_world" where
  "example_practice = \<lparr>registry = example_registry, leases = example_leases, guards = (\<lambda>_. None)(0 := Some 0),
     taken = (\<lambda>_. None), checked = (\<lambda>_. None)\<rparr>"

definition example_unlocked :: "nat lock_world" where
  "example_unlocked = example_world\<lparr>guards := (\<lambda>_. None)\<rparr>"

lemmas example_defs = example_registry_def example_leases_def example_world_def example_practice_def
  lock_world_start_def practice_world_start_def keyed_locks_default_def

lemma example_unlocked_reachable: "lock_step\<^sup>*\<^sup>* lock_world_start example_unlocked"
proof -
  let ?l = "\<lambda>k a. \<lparr>lease_key = k, lease_lock = Some a\<rparr>"
  let ?e = "\<lambda>_. None"
  let ?w1 = "\<lparr>registry = \<lparr>locks = ?e(7 := Some 0), heap = \<lparr>strong = (\<lambda>_. 0)(0 := 2), next_arc = 1\<rparr>\<rparr>,
    leases = ?e(0 := Some (?l 7 0)), guards = ?e\<rparr> :: nat lock_world"
  let ?w2 = "\<lparr>registry = \<lparr>locks = ?e(7 := Some 0), heap = \<lparr>strong = (\<lambda>_. 0)(0 := 3), next_arc = 1\<rparr>\<rparr>,
    leases = ?e(0 := Some (?l 7 0), 1 := Some (?l 7 0)), guards = ?e\<rparr> :: nat lock_world"
  have "lock_step lock_world_start ?w1"
    using step_lease [of lock_world_start 0 7]
    by (simp add: example_defs lease_def arc_defs numeral_2_eq_2)
  moreover have "lock_step ?w1 ?w2"
    using step_lease [of ?w1 1 7] by (simp add: lease_def arc_defs)
  moreover have "lock_step ?w2 example_unlocked"
    using step_lease [of ?w2 2 8]
    by (simp add: lease_def arc_defs example_unlocked_def example_defs numeral_2_eq_2)
  ultimately show ?thesis by (meson converse_rtranclp_into_rtranclp rtranclp.rtrancl_refl)
qed

lemma example_world_reachable: "lock_step\<^sup>*\<^sup>* lock_world_start example_world"
proof -
  have "lock_step example_unlocked example_world"
    using step_lock [of example_unlocked 0 0]
    by (simp add: example_unlocked_def example_defs lease_lock_of_def)
  thus ?thesis using example_unlocked_reachable by (rule rtranclp.rtrancl_into_rtrancl [rotated])
qed

theorem keyed_lock_exclusion_witness:
  "holds_lock (leases example_world) (guards example_world) 0
   \<and> \<not> holds_lock (leases example_world) (guards example_world) 1"
proof -
  have held: "holds_lock (leases example_world) (guards example_world) 0"
    by (simp add: example_defs holds_lock_def lease_lock_of_def)
  show ?thesis
    using keyed_lock_exclusion [OF example_world_reachable, of 0 _ 1] held
    by (simp add: example_world_def example_leases_def)
qed

theorem keyed_lock_independent_keys_witness:
  "\<exists>w'. lock_step example_world w' \<and> leases w' = leases example_world \<and> holds_lock (leases w') (guards w') 2"
  using keyed_lock_independent_keys [OF example_world_reachable,
      of 2 "\<lparr>lease_key = 8, lease_lock = Some 1\<rparr>"]
  by (simp add: example_defs holds_lock_def lease_lock_of_def split: if_splits)

theorem keyed_registry_tracks_leases_witness:
  "dom (locks (registry example_world)) = {7, 8}
   \<and> {lease_key l | l. l \<in> ran (leases example_world)} = {7, 8}"
  using keyed_registry_tracks_leases [OF example_world_reachable]
  by (auto simp: example_defs split: if_splits)

lemma example_practice_reachable: "practice_step\<^sup>*\<^sup>* practice_world_start example_practice"
proof -
  let ?l = "\<lambda>k a. \<lparr>lease_key = k, lease_lock = Some a\<rparr>"
  let ?e = "\<lambda>_. None"
  let ?w = "\<lambda>r ls gs. \<lparr>registry = r, leases = ls, guards = gs, taken = ?e, checked = ?e\<rparr> :: nat practice_world"
  let ?w1 = "?w \<lparr>locks = ?e(7 := Some 0), heap = \<lparr>strong = (\<lambda>_. 0)(0 := 2), next_arc = 1\<rparr>\<rparr>
    (?e(0 := Some (?l 7 0))) ?e"
  let ?w2 = "?w \<lparr>locks = ?e(7 := Some 0), heap = \<lparr>strong = (\<lambda>_. 0)(0 := 3), next_arc = 1\<rparr>\<rparr>
    (?e(0 := Some (?l 7 0), 1 := Some (?l 7 0))) ?e"
  let ?w3 = "?w example_registry example_leases ?e"
  have "practice_step practice_world_start ?w1"
    using pstep_new [of practice_world_start 0 7]
    by (simp add: example_defs practice_lease_new_def arc_defs numeral_2_eq_2)
  moreover have "practice_step ?w1 ?w2"
    using pstep_new [of ?w1 1 7] by (simp add: practice_lease_new_def arc_defs)
  moreover have "practice_step ?w2 ?w3"
    using pstep_new [of ?w2 2 8]
    by (simp add: practice_lease_new_def arc_defs example_defs numeral_2_eq_2)
  moreover have "practice_step ?w3 example_practice"
    using pstep_lock [of ?w3 0 0] by (simp add: example_defs lease_lock_of_def)
  ultimately show ?thesis by (meson converse_rtranclp_into_rtranclp rtranclp.rtrancl_refl)
qed

theorem practice_lock_exclusion_witness:
  "holds_lock (leases example_practice) (guards example_practice) 0
   \<and> \<not> holds_lock (leases example_practice) (guards example_practice) 1"
proof -
  have held: "holds_lock (leases example_practice) (guards example_practice) 0"
    by (simp add: example_defs holds_lock_def lease_lock_of_def)
  show ?thesis
    using practice_lock_exclusion [OF example_practice_reachable, of 0 _ 1] held
    by (simp add: example_practice_def example_leases_def)
qed

end
