(* ===== verification/Progress.thy ===== *)
theory Progress
  imports Complex_Main Effects Utf8 "HOL-Library.AList" "HOL-Library.List_Lexorder"
    "HOL-Library.Product_Lexorder"
begin

text \<open>
  The shared progress store, \<^verbatim>\<open>progress.rs\<close>: a bounded table of job progress, where every update
  is authenticated by a lease bound to a generation. The hash map is an association list (its
  order is never observed), an \<^verbatim>\<open>Instant\<close> a number of nanoseconds, and an \<^verbatim>\<open>f32\<close> is a rational or
  not finite: the store only compares and copies progress values. The mutex is held for a whole
  operation, so operations are atomic; poisoning after a panic is left out.
\<close>

subsection \<open>Data\<close>

definition PROGRESS_CAPACITY :: nat where "PROGRESS_CAPACITY = 1000"
definition RUNNING_TTL :: nat where "RUNNING_TTL = 60 * 60 * 10 ^ 9"
definition TERMINAL_TTL :: nat where "TERMINAL_TTL = 5 * 60 * 10 ^ 9"
definition U64_MAX_DECIMAL_DIGITS :: nat where "U64_MAX_DECIMAL_DIGITS = 20"
definition U64_MAX :: nat where "U64_MAX = 18446744073709551615"

text \<open>\<^verbatim>\<open>ProgressGeneration::parse_canonical\<close> on the text of the wire, and its serialisation.\<close>

definition parse_canonical :: "string \<Rightarrow> string + u64" where
  "parse_canonical v =
     (if v = [] \<or> U64_MAX_DECIMAL_DIGITS < length v \<or> (1 < length v \<and> hd v = CHR ''0'')
         \<or> \<not> list_all is_ascii_digit v
      then Inl ''invalid progress generation''
      else case parse_unsigned U64_MAX v of
             None \<Rightarrow> Inl ''number too large to fit in target type''
           | Some n \<Rightarrow> Inr (word_of_nat n))"

definition serialize_generation :: "u64 \<Rightarrow> string" where
  "serialize_generation g = show_nat (unat g)"

datatype progress_state = Running | Succeeded | Failed | Cancelled

definition is_terminal :: "progress_state \<Rightarrow> bool" where
  "is_terminal st \<longleftrightarrow> st \<noteq> Running"

record progress_lease =
  lease_id :: bytes
  lease_generation :: u64

record progress_item =
  item_id :: bytes
  item_generation :: u64
  item_progress :: rat
  item_finished :: bool
  item_state :: progress_state
  item_failure :: "error_payload option"

record stored_progress =
  stored_item :: progress_item
  updated_at :: nat
  last_access :: u64

record progress_store =
  entries :: "(bytes \<times> stored_progress) list"
  access_clock :: u64
  generation_clock :: u64

definition progress_store_default :: progress_store where
  "progress_store_default = \<lparr>entries = [], access_clock = 0, generation_clock = 0\<rparr>"

subsection \<open>Operations of the store\<close>

definition ttl :: "progress_item \<Rightarrow> nat" where
  "ttl it = (if is_terminal (item_state it) then TERMINAL_TTL else RUNNING_TTL)"

definition tick_access :: "progress_store \<Rightarrow> u64 \<times> progress_store" where
  "tick_access s = (let c = saturating_add (access_clock s) 1 in (c, s\<lparr>access_clock := c\<rparr>))"

definition next_generation :: "progress_store \<Rightarrow> u64 result \<times> progress_store" where
  "next_generation s =
     (case checked_add (generation_clock s) 1 of
        None \<Rightarrow> (Inl (Conflict ''progress generation exhausted''), s)
      | Some n \<Rightarrow> (Inr n, s\<lparr>generation_clock := n\<rparr>))"

definition purge_expired_at :: "progress_store \<Rightarrow> nat \<Rightarrow> progress_store" where
  "purge_expired_at s now =
     s\<lparr>entries := filter (\<lambda>(_, st). now - updated_at st < ttl (stored_item st)) (entries s)\<rparr>"

text \<open>The entry an eviction removes: least recent access, ties by the smaller id.\<close>

definition eviction_key :: "bytes \<times> stored_progress \<Rightarrow> u64 \<times> bytes" where
  "eviction_key e = (last_access (snd e), fst e)"

lemma delete_mem_shorter: "e \<in> set es \<Longrightarrow> length (AList.delete (fst e) es) < length es"
  by (auto simp: AList.delete_eq intro!: length_filter_less)

function evict_entries :: "(bytes \<times> stored_progress) list \<Rightarrow> (bytes \<times> stored_progress) list" where
  "evict_entries es =
     (if length es < PROGRESS_CAPACITY \<or> es = [] then es
      else evict_entries (AList.delete (fst (arg_min_list eviction_key es)) es))"
  by pat_completeness auto

termination
  by (relation "measure length") (auto intro!: delete_mem_shorter arg_min_list_in)

declare evict_entries.simps [simp del]

definition evict_to_capacity :: "progress_store \<Rightarrow> progress_store" where
  "evict_to_capacity s = s\<lparr>entries := evict_entries (entries s)\<rparr>"

datatype f32 = Finite rat | NotFinite

fun sanitize :: "f32 \<Rightarrow> rat" where
  "sanitize (Finite p) = max 0 (min 100 p)"
| "sanitize NotFinite = 0"

definition start_with_snapshot_at ::
  "bytes \<Rightarrow> nat \<Rightarrow> progress_store \<Rightarrow> (progress_lease \<times> progress_item) result \<times> progress_store" where
  "start_with_snapshot_at job now s =
     (case next_generation s of
        (Inl e, s) \<Rightarrow> (Inl e, s)
      | (Inr generation, s) \<Rightarrow>
          let s = purge_expired_at s now;
              s = s\<lparr>entries := AList.delete job (entries s)\<rparr>;
              s = evict_to_capacity s;
              (access, s) = tick_access s;
              it = \<lparr>item_id = job, item_generation = generation, item_progress = 0,
                    item_finished = False, item_state = Running, item_failure = None\<rparr>;
              s = s\<lparr>entries := (job, \<lparr>stored_item = it, updated_at = now, last_access = access\<rparr>) # entries s\<rparr>
          in (Inr (\<lparr>lease_id = job, lease_generation = generation\<rparr>, it), s))"

definition transitioned :: "progress_lease \<Rightarrow> f32 \<Rightarrow> progress_state \<Rightarrow> error_payload option
    \<Rightarrow> progress_item \<Rightarrow> progress_item" where
  "transitioned lease progress requested failure existing =
     (if is_terminal (item_state existing) then existing
      else let st = (if is_terminal requested then requested else Running)
           in \<lparr>item_id = lease_id lease, item_generation = lease_generation lease,
               item_progress = max (sanitize progress) (item_progress existing),
               item_finished = is_terminal st, item_state = st, item_failure = failure\<rparr>)"

definition transition_with_failure_at ::
  "progress_lease \<Rightarrow> f32 \<Rightarrow> progress_state \<Rightarrow> error_payload option \<Rightarrow> nat \<Rightarrow> progress_store
   \<Rightarrow> (progress_item \<times> bool) result \<times> progress_store" where
  "transition_with_failure_at lease progress requested failure now s =
     (let s = purge_expired_at s now;
          (access, s) = tick_access s
      in case map_of (entries s) (lease_id lease) of
           None \<Rightarrow> (Inl StaleProgressLease, s)
         | Some stored \<Rightarrow>
             if item_generation (stored_item stored) \<noteq> lease_generation lease
             then (Inl StaleProgressLease, s)
             else
               let existing = stored_item stored;
                   it = transitioned lease progress requested failure existing;
                   changed = (item_progress it \<noteq> item_progress existing \<or> item_state it \<noteq> item_state existing);
                   stored = (if changed then stored\<lparr>stored_item := it, updated_at := now\<rparr> else stored);
                   stored = stored\<lparr>last_access := access\<rparr>
               in (Inr (it, changed), s\<lparr>entries := AList.update (lease_id lease) stored (entries s)\<rparr>))"

definition get_at :: "bytes \<Rightarrow> nat \<Rightarrow> progress_store \<Rightarrow> progress_item option \<times> progress_store" where
  "get_at job now s =
     (let s = purge_expired_at s now;
          (access, s) = tick_access s
      in case map_of (entries s) job of
           None \<Rightarrow> (None, s)
         | Some stored \<Rightarrow>
             (Some (stored_item stored),
              s\<lparr>entries := AList.update job (stored\<lparr>last_access := access\<rparr>) (entries s)\<rparr>))"

definition failed_snapshot :: "nat \<Rightarrow> progress_store \<Rightarrow> progress_item list \<times> progress_store" where
  "failed_snapshot now s =
     (let s = purge_expired_at s now
      in (filter (\<lambda>it. item_failure it \<noteq> None) (map (stored_item \<circ> snd) (entries s)), s))"

definition clear_unless_live_running ::
  "bytes \<Rightarrow> bool \<Rightarrow> progress_store \<Rightarrow> (u64 \<times> bool) result \<times> progress_store" where
  "clear_unless_live_running job live_download s =
     (case (if live_download then map_of (entries s) job else None) of
        Some stored \<Rightarrow>
          if item_state (stored_item stored) = Running
          then (Inr (item_generation (stored_item stored), False), s)
          else (case next_generation s of
                  (Inl e, s) \<Rightarrow> (Inl e, s)
                | (Inr g, s) \<Rightarrow> (Inr (g, True), s\<lparr>entries := AList.delete job (entries s)\<rparr>))
      | None \<Rightarrow>
          (case next_generation s of
             (Inl e, s) \<Rightarrow> (Inl e, s)
           | (Inr g, s) \<Rightarrow> (Inr (g, True), s\<lparr>entries := AList.delete job (entries s)\<rparr>)))"

subsection \<open>Callers\<close>

text \<open>
  The functions around the store, with the list of emitted events and the answer of the event
  system (\<^term>\<open>emit\<close>) as explicit arguments.
\<close>

record progress_event =
  event_item :: progress_item
  event_cleared :: bool

definition begin_progress ::
  "bytes \<Rightarrow> nat \<Rightarrow> progress_store \<Rightarrow> progress_lease result \<times> progress_store \<times> progress_event list" where
  "begin_progress job now s =
     (case start_with_snapshot_at job now s of
        (Inl e, s) \<Rightarrow> (Inl e, s, [])
      | (Inr (lease, it), s) \<Rightarrow> (Inr lease, s, [\<lparr>event_item = it, event_cleared = False\<rparr>]))"

definition update_progress_with_failure ::
  "(progress_event \<Rightarrow> unit result) \<Rightarrow> progress_lease \<Rightarrow> f32 \<Rightarrow> progress_state \<Rightarrow> error_payload option
   \<Rightarrow> nat \<Rightarrow> progress_store \<Rightarrow> unit result \<times> progress_store \<times> progress_event list" where
  "update_progress_with_failure emit lease progress st failure now s =
     (case transition_with_failure_at lease progress st failure now s of
        (Inl e, s) \<Rightarrow> (Inl e, s, [])
      | (Inr (it, changed), s) \<Rightarrow>
          if changed
          then let ev = \<lparr>event_item = it, event_cleared = False\<rparr> in (emit ev, s, [ev])
          else (Inr (), s, []))"

definition update_progress_with_state ::
  "(progress_event \<Rightarrow> unit result) \<Rightarrow> progress_lease \<Rightarrow> f32 \<Rightarrow> progress_state \<Rightarrow> nat
   \<Rightarrow> progress_store \<Rightarrow> unit result \<times> progress_store \<times> progress_event list" where
  "update_progress_with_state emit lease progress st now s =
     update_progress_with_failure emit lease progress st None now s"

definition publish_download_failure ::
  "(progress_event \<Rightarrow> unit result) \<Rightarrow> progress_lease \<Rightarrow> error_payload \<Rightarrow> nat
   \<Rightarrow> progress_store \<Rightarrow> unit result \<times> progress_store \<times> progress_event list" where
  "publish_download_failure emit lease failure now s =
     update_progress_with_failure emit lease (Finite 0) Failed (Some failure) now s"

text \<open>
  \<^verbatim>\<open>handle_running_progress_result\<close>: the result, whether the token was cancelled, and the
  diagnosed flag with the fact that it logged.
\<close>

definition handle_running_progress_result ::
  "unit result \<Rightarrow> bool \<Rightarrow> bool \<Rightarrow> unit result \<times> bool \<times> bool \<times> bool" where
  "handle_running_progress_result result has_token diagnosed =
     (case result of
        Inr _ \<Rightarrow> (Inr (), False, diagnosed, False)
      | Inl e \<Rightarrow>
          if e = StaleProgressLease
          then (if has_token then (Inl Cancellation, True, diagnosed, False)
                else (Inr (), False, diagnosed, False))
          else (Inr (), False, True, \<not> diagnosed))"

definition completion_state :: "'a result \<Rightarrow> progress_state" where
  "completion_state result =
     (case result of
        Inr _ \<Rightarrow> Succeeded
      | Inl e \<Rightarrow> if e = Cancellation then Cancelled else Failed)"

definition job_complete :: "(progress_event \<Rightarrow> unit result) \<Rightarrow> progress_lease \<Rightarrow> progress_state \<Rightarrow> nat
    \<Rightarrow> progress_store \<Rightarrow> progress_store \<times> progress_event list" where
  "job_complete emit lease st now s =
     (let progress = (if st = Succeeded then Finite 100 else Finite 0)
      in snd (update_progress_with_state emit lease progress st now s))"

definition job_drop :: "(progress_event \<Rightarrow> unit result) \<Rightarrow> progress_lease \<Rightarrow> nat
    \<Rightarrow> progress_store \<Rightarrow> progress_store \<times> progress_event list" where
  "job_drop emit lease now s = snd (update_progress_with_state emit lease (Finite 0) Cancelled now s)"

definition clear_progress_with ::
  "bytes \<Rightarrow> bool \<Rightarrow> progress_store \<Rightarrow> u64 result \<times> progress_store \<times> progress_event list" where
  "clear_progress_with job live_download s =
     (case clear_unless_live_running job live_download s of
        (Inl e, s) \<Rightarrow> (Inl e, s, [])
      | (Inr (generation, cleared), s) \<Rightarrow>
          if \<not> cleared then (Inr generation, s, [])
          else (Inr generation, s,
                [\<lparr>event_item = \<lparr>item_id = job, item_generation = generation, item_progress = 0,
                                item_finished = True, item_state = Cancelled, item_failure = None\<rparr>,
                  event_cleared = True\<rparr>]))"

subsection \<open>Runs and the invariant of the store\<close>

datatype progress_op =
    OpStart bytes nat
  | OpTransition progress_lease f32 progress_state "error_payload option" nat
  | OpGet bytes nat
  | OpFailed nat
  | OpClear bytes bool

fun perform :: "progress_store \<Rightarrow> progress_op \<Rightarrow> progress_store" where
  "perform s (OpStart job now) = snd (start_with_snapshot_at job now s)"
| "perform s (OpTransition lease p st failure now) = snd (transition_with_failure_at lease p st failure now s)"
| "perform s (OpGet job now) = snd (get_at job now s)"
| "perform s (OpFailed now) = snd (failed_snapshot now s)"
| "perform s (OpClear job live) = snd (clear_unless_live_running job live s)"

abbreviation entry :: "progress_store \<Rightarrow> bytes \<Rightarrow> stored_progress option" where
  "entry s \<equiv> map_of (entries s)"

definition item_wf :: "bytes \<Rightarrow> u64 \<Rightarrow> progress_item \<Rightarrow> bool" where
  "item_wf job clock it \<longleftrightarrow>
     item_id it = job \<and> item_generation it \<le> clock \<and> 0 \<le> item_progress it \<and> item_progress it \<le> 100
     \<and> item_finished it = is_terminal (item_state it)"

definition store_wf :: "progress_store \<Rightarrow> bool" where
  "store_wf s \<longleftrightarrow>
     distinct (map fst (entries s)) \<and> length (entries s) \<le> PROGRESS_CAPACITY
     \<and> (\<forall>job st. entry s job = Some st \<longrightarrow> item_wf job (generation_clock s) (stored_item st))"

text \<open>A later version of the same job: nothing after a terminal state, progress never goes back.\<close>

definition advances :: "progress_item \<Rightarrow> progress_item \<Rightarrow> bool" where
  "advances old new \<longleftrightarrow>
     item_generation new = item_generation old \<and> item_progress old \<le> item_progress new
     \<and> (is_terminal (item_state old) \<longrightarrow> new = old)"

lemma advances_refl [simp]: "advances it it"
  by (simp add: advances_def)

lemma advances_trans: "advances a b \<Longrightarrow> advances b c \<Longrightarrow> advances a c"
  by (auto simp: advances_def)

text \<open>
  \<open>follows s s'\<close>: a well-formed later store. Every entry of it is a later version of an entry of
  \<^term>\<open>s\<close> under the same id, or was started since.
\<close>

definition follows :: "progress_store \<Rightarrow> progress_store \<Rightarrow> bool" where
  "follows s s' \<longleftrightarrow>
     store_wf s' \<and> generation_clock s \<le> generation_clock s'
     \<and> (\<forall>job st'. entry s' job = Some st' \<longrightarrow>
          (\<exists>st. entry s job = Some st \<and> advances (stored_item st) (stored_item st'))
          \<or> generation_clock s < item_generation (stored_item st'))"

lemma follows_refl: "store_wf s \<Longrightarrow> follows s s"
  by (auto simp: follows_def)

lemma follows_trans:
  assumes "follows a b" "follows b c" shows "follows a c"
proof -
  have "(\<exists>st. entry a job = Some st \<and> advances (stored_item st) (stored_item st'))
      \<or> generation_clock a < item_generation (stored_item st')" if c: "entry c job = Some st'" for job st'
  proof (cases "generation_clock b < item_generation (stored_item st')")
    case True
    then show ?thesis using assms(1) unfolding follows_def by (meson le_less_trans)
  next
    case False
    with c assms(2) obtain st where b: "entry b job = Some st" "advances (stored_item st) (stored_item st')"
      unfolding follows_def by blast
    then have "item_generation (stored_item st') = item_generation (stored_item st)"
      by (simp add: advances_def)
    then show ?thesis
      using assms(1) b advances_trans unfolding follows_def by metis
  qed
  then show ?thesis using assms unfolding follows_def by (meson order_trans)
qed

lemma store_wf_smaller:
  assumes "store_wf s" "distinct (map fst es)" "length es \<le> length (entries s)"
    and "\<And>job st. map_of es job = Some st \<Longrightarrow> entry s job = Some st"
  shows "follows s (s\<lparr>entries := es\<rparr>)"
  using assms by (fastforce simp: follows_def store_wf_def)

lemma map_of_filter_distinct:
  "distinct (map fst es) \<Longrightarrow> map_of (filter P es) k = Some v \<Longrightarrow> map_of es k = Some v"
  by (metis distinct_map_filter filter_is_subset map_of_eq_Some_iff subsetD)

lemma purge_follows: "store_wf s \<Longrightarrow> follows s (purge_expired_at s now)"
  unfolding purge_expired_at_def
  by (rule store_wf_smaller)
     (auto simp: store_wf_def distinct_map_filter intro: map_of_filter_distinct)

lemma entry_purge:
  assumes "store_wf s" "entry (purge_expired_at s now) job = Some st" shows "entry s job = Some st"
proof -
  have "distinct (map fst (entries s))" using assms(1) by (simp add: store_wf_def)
  moreover have "map_of (filter (\<lambda>(_, st). now - updated_at st < ttl (stored_item st)) (entries s)) job = Some st"
    using assms(2) unfolding purge_expired_at_def by simp
  ultimately show ?thesis by (rule map_of_filter_distinct)
qed

lemma delete_follows: "store_wf s \<Longrightarrow> follows s (s\<lparr>entries := AList.delete job (entries s)\<rparr>)"
  by (rule store_wf_smaller)
     (auto simp: store_wf_def distinct_delete length_delete_le delete_conv' split: if_splits)

lemma evict_entries_small: "length es < PROGRESS_CAPACITY \<Longrightarrow> evict_entries es = es"
  by (simp add: evict_entries.simps[of es])

lemma evict_entries_spec:
  "distinct (map fst es) \<Longrightarrow>
     distinct (map fst (evict_entries es)) \<and> length (evict_entries es) \<le> length es
     \<and> (es \<noteq> [] \<longrightarrow> length (evict_entries es) < max PROGRESS_CAPACITY 1)
     \<and> (\<forall>k v. map_of (evict_entries es) k = Some v \<longrightarrow> map_of es k = Some v)"
proof (induction es rule: evict_entries.induct)
  case (1 es)
  show ?case
  proof (cases "length es < PROGRESS_CAPACITY \<or> es = []")
    case True
    with "1.prems" show ?thesis by (auto simp: evict_entries.simps[of es])
  next
    case False
    let ?es = "AList.delete (fst (arg_min_list eviction_key es)) es"
    have "distinct (map fst ?es)" using "1.prems" by (rule distinct_delete)
    note IH = "1.IH"[OF False this]
    have "evict_entries es = evict_entries ?es" using False by (simp add: evict_entries.simps[of es])
    moreover have "length (evict_entries []) < max PROGRESS_CAPACITY 1"
      by (simp add: evict_entries.simps[of "[]"])
    ultimately show ?thesis
      using IH length_delete_le[of "fst (arg_min_list eviction_key es)" es]
      by (cases "?es = []") (auto simp: delete_conv' split: if_splits)
  qed
qed

lemma evict_follows:
  assumes "store_wf s"
  shows "follows s (evict_to_capacity s)" and "length (entries (evict_to_capacity s)) < PROGRESS_CAPACITY"
proof -
  have d: "distinct (map fst (entries s))" using assms by (simp add: store_wf_def)
  show "follows s (evict_to_capacity s)"
    unfolding evict_to_capacity_def using evict_entries_spec[OF d] assms
    by (intro store_wf_smaller) auto
  have "length (evict_entries []) < PROGRESS_CAPACITY" by (simp add: evict_entries.simps[of "[]"] PROGRESS_CAPACITY_def)
  then show "length (entries (evict_to_capacity s)) < PROGRESS_CAPACITY"
    using evict_entries_spec[OF d]
    by (cases "entries s = []") (auto simp: evict_to_capacity_def PROGRESS_CAPACITY_def)
qed

lemma tick_follows: "store_wf s \<Longrightarrow> follows s (snd (tick_access s))"
  by (auto simp: tick_access_def Let_def follows_def store_wf_def)

lemma tick_keeps [simp]:
  "entries (snd (tick_access s)) = entries s" "generation_clock (snd (tick_access s)) = generation_clock s"
  by (simp_all add: tick_access_def Let_def)

lemma next_generation_follows:
  assumes "next_generation s = (r, s')" "store_wf s"
  shows "follows s s'" and "entries s' = entries s"
    and "r = Inr g \<Longrightarrow> generation_clock s' = g \<and> generation_clock s < g"
proof -
  have *: "entries s' = entries s \<and> generation_clock s \<le> generation_clock s'
      \<and> (\<forall>g. r = Inr g \<longrightarrow> generation_clock s' = g \<and> generation_clock s < g)"
    using assms(1)
    by (auto simp: next_generation_def split: option.splits dest!: checked_add_one_less intro: less_imp_le)
  then show "follows s s'"
    using assms(2) by (fastforce simp: follows_def store_wf_def item_wf_def)
  show "entries s' = entries s" using * by simp
  show "r = Inr g \<Longrightarrow> generation_clock s' = g \<and> generation_clock s < g" using * by simp
qed

text \<open>Replacing the record of a live entry by a later version of it.\<close>

lemma length_update_present: "map_of es k \<noteq> None \<Longrightarrow> length (AList.update k v es) = length es"
  by (induction es) (auto split: if_splits)

lemma update_follows:
  assumes "store_wf s" "entry s job = Some st" "advances (stored_item st) (stored_item st')"
    and "item_wf job (generation_clock s) (stored_item st')"
  shows "follows s (s\<lparr>entries := AList.update job st' (entries s)\<rparr>)"
proof -
  have "length (AList.update job st' (entries s)) = length (entries s)"
    using assms(2) by (simp add: length_update_present)
  then show ?thesis
    using assms by (auto simp: follows_def store_wf_def update_conv' distinct_update split: if_splits)
qed

lemma transitioned_wf:
  assumes "item_wf job clock it" "lease_id lease = job" "lease_generation lease = item_generation it"
  shows "item_wf job clock (transitioned lease p st failure it)"
    and "advances it (transitioned lease p st failure it)"
proof -
  have "0 \<le> sanitize p" "sanitize p \<le> 100" by (cases p; simp)+
  then show "item_wf job clock (transitioned lease p st failure it)"
    using assms by (auto simp: transitioned_def item_wf_def Let_def)
  show "advances it (transitioned lease p st failure it)"
    using assms by (simp add: transitioned_def advances_def Let_def)
qed

lemma start_follows:
  assumes "store_wf s" "start_with_snapshot_at job now s = (r, s')"
  shows "follows s s'"
proof -
  obtain g s1 where g: "next_generation s = (g, s1)" by (cases "next_generation s")
  note ng = next_generation_follows[OF g assms(1)]
  show ?thesis
  proof (cases g)
    case (Inl e)
    with assms(2) g ng(1) show ?thesis by (simp add: start_with_snapshot_at_def)
  next
    case (Inr n)
    define s2 where "s2 = purge_expired_at s1 now"
    define s3 where "s3 = s2\<lparr>entries := AList.delete job (entries s2)\<rparr>"
    define s4 where "s4 = evict_to_capacity s3"
    define s5 where "s5 = snd (tick_access s4)"
    have wf1: "store_wf s1" using ng(1) by (simp add: follows_def)
    have f2: "follows s1 s2" unfolding s2_def by (rule purge_follows[OF wf1])
    then have wf2: "store_wf s2" by (simp add: follows_def)
    have f3: "follows s2 s3" unfolding s3_def by (rule delete_follows[OF wf2])
    then have wf3: "store_wf s3" by (simp add: follows_def)
    note f4 = evict_follows[OF wf3, folded s4_def]
    then have wf4: "store_wf s4" by (simp add: follows_def)
    have f5: "follows s4 s5" unfolding s5_def by (rule tick_follows[OF wf4])
    have f: "follows s s5" using ng(1) f2 f3 f4(1) f5 follows_trans by blast
    have small: "length (entries s5) < PROGRESS_CAPACITY" using f4(2) by (simp add: s5_def)
    have clock: "generation_clock s5 = n" "generation_clock s < n"
      using ng(3)[OF Inr] by (simp_all add: s5_def s4_def s3_def s2_def evict_to_capacity_def purge_expired_at_def)
    have "entry s3 job = None" by (simp add: s3_def delete_conv')
    moreover have "distinct (map fst (entries s3))" using wf3 by (simp add: store_wf_def)
    then have "\<forall>k v. map_of (evict_entries (entries s3)) k = Some v \<longrightarrow> entry s3 k = Some v"
      using evict_entries_spec by blast
    moreover have "entry s5 = map_of (evict_entries (entries s3))"
      by (simp add: s5_def s4_def evict_to_capacity_def)
    ultimately have gone: "entry s5 job = None" by (metis not_None_eq)
    obtain acc where tick: "tick_access s4 = (acc, s5)" by (cases "tick_access s4") (simp add: s5_def)
    have s': "s' = s5\<lparr>entries := (job, \<lparr>stored_item = \<lparr>item_id = job, item_generation = n,
        item_progress = 0, item_finished = False, item_state = Running, item_failure = None\<rparr>,
        updated_at = now, last_access = acc\<rparr>) # entries s5\<rparr>"
      using assms(2) g Inr tick
      by (simp add: start_with_snapshot_at_def Let_def flip: s2_def s3_def s4_def)
    show ?thesis
      using f small clock gone
      by (auto simp: s' follows_def store_wf_def item_wf_def is_terminal_def map_of_eq_None_iff)
  qed
qed

lemma transition_follows:
  assumes "store_wf s" shows "follows s (snd (transition_with_failure_at lease p st failure now s))"
proof -
  define s1 where "s1 = snd (tick_access (purge_expired_at s now))"
  obtain acc where tick: "tick_access (purge_expired_at s now) = (acc, s1)"
    by (cases "tick_access (purge_expired_at s now)") (simp add: s1_def)
  have f0: "follows s (purge_expired_at s now)" by (rule purge_follows[OF assms])
  then have "store_wf (purge_expired_at s now)" by (simp add: follows_def)
  from tick_follows[OF this] f0 have f: "follows s s1" unfolding s1_def by (rule follows_trans[rotated])
  then have wf: "store_wf s1" by (simp add: follows_def)
  show ?thesis
  proof (cases "entry s1 (lease_id lease)")
    case None
    with f tick show ?thesis by (simp add: transition_with_failure_at_def)
  next
    case (Some stored)
    show ?thesis
    proof (cases "item_generation (stored_item stored) = lease_generation lease")
      case False
      with f tick Some show ?thesis by (simp add: transition_with_failure_at_def)
    next
      case True
      have iw: "item_wf (lease_id lease) (generation_clock s1) (stored_item stored)"
        using wf Some by (simp add: store_wf_def)
      let ?it = "transitioned lease p st failure (stored_item stored)"
      note tw = transitioned_wf[OF iw refl True[symmetric], of p st failure]
      define st' where "st' = (if item_progress ?it \<noteq> item_progress (stored_item stored)
          \<or> item_state ?it \<noteq> item_state (stored_item stored)
        then stored\<lparr>stored_item := ?it, updated_at := now\<rparr> else stored)\<lparr>last_access := acc\<rparr>"
      have st': "stored_item st' = ?it \<or> stored_item st' = stored_item stored"
        by (simp add: st'_def)
      have res: "snd (transition_with_failure_at lease p st failure now s)
          = s1\<lparr>entries := AList.update (lease_id lease) st' (entries s1)\<rparr>"
        using tick Some True unfolding transition_with_failure_at_def Let_def st'_def by simp
      have "follows s1 (s1\<lparr>entries := AList.update (lease_id lease) st' (entries s1)\<rparr>)"
        by (rule update_follows[OF wf Some]) (use st' tw iw in auto)
      with f res show ?thesis using follows_trans by metis
    qed
  qed
qed

lemma get_follows:
  assumes "store_wf s" shows "follows s (snd (get_at job now s))"
proof -
  obtain acc s1 where tick: "tick_access (purge_expired_at s now) = (acc, s1)" by fastforce
  have f0: "follows s (purge_expired_at s now)" by (rule purge_follows[OF assms])
  then have "store_wf (purge_expired_at s now)" by (simp add: follows_def)
  from tick_follows[OF this] f0 have f: "follows s s1" unfolding tick snd_conv by (rule follows_trans[rotated])
  then have wf: "store_wf s1" by (simp add: follows_def)
  show ?thesis
  proof (cases "entry s1 job")
    case None
    with f tick show ?thesis by (simp add: get_at_def)
  next
    case (Some stored)
    then have "follows s1 (s1\<lparr>entries := AList.update job (stored\<lparr>last_access := acc\<rparr>) (entries s1)\<rparr>)"
      using wf by (intro update_follows[OF wf Some]) (auto simp: store_wf_def)
    with f tick Some show ?thesis using follows_trans by (fastforce simp: get_at_def)
  qed
qed

lemma clear_follows:
  assumes "store_wf s" shows "follows s (snd (clear_unless_live_running job live s))"
proof -
  obtain g s1 where g: "next_generation s = (g, s1)" by (cases "next_generation s")
  have f1: "follows s s1" by (rule next_generation_follows(1)[OF g assms])
  then have "store_wf s1" by (simp add: follows_def)
  then have "follows s (s1\<lparr>entries := AList.delete job (entries s1)\<rparr>)"
    using f1 delete_follows follows_trans by blast
  then show ?thesis
    using f1 follows_refl[OF assms] g
    by (cases g) (auto simp: clear_unless_live_running_def split: option.split)
qed

lemma perform_follows: "store_wf s \<Longrightarrow> follows s (perform s op)"
proof (cases op)
  case (OpStart job now)
  assume "store_wf s"
  then show ?thesis using OpStart start_follows by (metis perform.simps(1) prod.collapse)
next
  case (OpFailed now)
  assume "store_wf s"
  then show ?thesis using OpFailed by (simp add: failed_snapshot_def Let_def purge_follows)
qed (simp_all add: transition_follows get_follows clear_follows)

lemma run_follows: "store_wf s \<Longrightarrow> follows s (foldl perform s ops)"
proof (induction ops arbitrary: s)
  case (Cons op ops)
  have step: "follows s (perform s op)" using Cons.prems by (rule perform_follows)
  then have "store_wf (perform s op)" by (simp add: follows_def)
  from follows_trans[OF step Cons.IH[OF this]] show ?case by simp
qed (simp add: follows_refl)

subsection \<open>Guarantees\<close>

lemma default_wf: "store_wf progress_store_default"
  by (simp add: store_wf_def progress_store_default_def)

text \<open>
  C37. Whatever operations have run, the store is well formed: at most 1000 entries with distinct
  ids, each under its own id, with a generation the clock has reached, a progress between 0 and
  100, and finished exactly in a terminal state.
\<close>

theorem progress_store_invariant: "store_wf (foldl perform progress_store_default ops)"
  using run_follows[OF default_wf] by (simp add: follows_def)

definition alive :: "progress_store \<Rightarrow> progress_lease \<Rightarrow> bool" where
  "alive s lease \<longleftrightarrow>
     (\<exists>st. entry s (lease_id lease) = Some st \<and> item_generation (stored_item st) = lease_generation lease)"

lemma dead_stays_dead:
  assumes "follows s s'" "lease_generation lease \<le> generation_clock s" "\<not> alive s lease"
  shows "\<not> alive s' lease"
proof
  assume "alive s' lease"
  then obtain st' where st': "entry s' (lease_id lease) = Some st'"
    "item_generation (stored_item st') = lease_generation lease" by (auto simp: alive_def)
  with assms(1,2) obtain st where "entry s (lease_id lease) = Some st"
    "advances (stored_item st) (stored_item st')"
    unfolding follows_def by (metis leD)
  with st'(2) assms(3) show False by (auto simp: alive_def advances_def)
qed

lemma transition_dead:
  assumes "store_wf s" "\<not> alive s lease"
  shows "fst (transition_with_failure_at lease p st failure now s) = Inl StaleProgressLease"
proof -
  obtain acc s1 where tick: "tick_access (purge_expired_at s now) = (acc, s1)" by fastforce
  then have e: "entries s1 = entries (purge_expired_at s now)"
    by (metis tick_keeps(1) snd_conv)
  have "entry s job = Some x" if "entry s1 job = Some x" for job x
    using entry_purge[OF assms(1), of now job x] that by (simp only: e)
  then show ?thesis
    using assms(2) tick
    by (auto simp: transition_with_failure_at_def alive_def split: option.split)
qed

text \<open>
  A stale lease is dead for good. Once a lease no longer names a live entry (after a restart
  of the id, a clear, an eviction or expiry), no sequence of operations makes it valid again, and
  an update with it is refused as stale: an old producer cannot recreate or drive an entry.
\<close>

theorem stale_lease_stays_dead:
  assumes "store_wf s" and "lease_generation lease \<le> generation_clock s" and "\<not> alive s lease"
  shows "\<not> alive (foldl perform s ops) lease
    \<and> fst (transition_with_failure_at lease p st failure now (foldl perform s ops)) = Inl StaleProgressLease"
proof -
  have f: "follows s (foldl perform s ops)" using assms(1) by (rule run_follows)
  have "\<not> alive (foldl perform s ops) lease" by (rule dead_stays_dead[OF f assms(2,3)])
  moreover have "store_wf (foldl perform s ops)" using f by (simp add: follows_def)
  ultimately show ?thesis using transition_dead by blast
qed

text \<open>
  While a job is visible its progress never decreases, and its first terminal state is final:
  the item, with its failure, is the same ever after.
\<close>

theorem live_item_advances:
  assumes "store_wf s" and "entry s job = Some st" and "entry (foldl perform s ops) job = Some st'"
    and "item_generation (stored_item st') = item_generation (stored_item st)"
  shows "item_progress (stored_item st) \<le> item_progress (stored_item st')
    \<and> (is_terminal (item_state (stored_item st)) \<longrightarrow> stored_item st' = stored_item st)"
proof -
  have "item_wf job (generation_clock s) (stored_item st)" using assms(1,2) by (simp add: store_wf_def)
  then have "\<not> generation_clock s < item_generation (stored_item st')"
    using assms(4) by (simp add: item_wf_def not_less)
  with run_follows[OF assms(1), of ops] assms(2,3) show ?thesis
    unfolding follows_def advances_def by (metis option.inject)
qed

definition example_store :: progress_store where
  "example_store = foldl perform progress_store_default [OpStart [97] 0]"

definition restarted_store :: progress_store where
  "restarted_store = perform example_store (OpStart [97] 1)"

lemmas store_eval = start_with_snapshot_at_def next_generation_def checked_add_def purge_expired_at_def
  evict_to_capacity_def evict_entries_small tick_access_def PROGRESS_CAPACITY_def saturating_add_def
  ttl_def is_terminal_def RUNNING_TTL_def TERMINAL_TTL_def Let_def transition_with_failure_at_def
  transitioned_def

lemma example_store_eval:
  "example_store = \<lparr>entries = [([97], \<lparr>stored_item = \<lparr>item_id = [97], item_generation = 1, item_progress = 0,
       item_finished = False, item_state = Running, item_failure = None\<rparr>, updated_at = 0, last_access = 1\<rparr>)],
     access_clock = 1, generation_clock = 1\<rparr>"
  by (simp add: example_store_def progress_store_default_def store_eval)

lemma restarted_store_eval:
  "restarted_store = \<lparr>entries = [([97], \<lparr>stored_item = \<lparr>item_id = [97], item_generation = 2, item_progress = 0,
       item_finished = False, item_state = Running, item_failure = None\<rparr>, updated_at = 1, last_access = 2\<rparr>)],
     access_clock = 2, generation_clock = 2\<rparr>"
  by (simp add: restarted_store_def example_store_eval store_eval)

lemma example_store_wf: "store_wf example_store" "store_wf restarted_store"
proof -
  show wf: "store_wf example_store"
    using run_follows[OF default_wf] unfolding follows_def example_store_def by blast
  show "store_wf restarted_store"
    using perform_follows[OF wf] unfolding follows_def restarted_store_def by blast
qed

theorem stale_lease_stays_dead_witness:
  "fst (transition_with_failure_at \<lparr>lease_id = [97], lease_generation = 1\<rparr> (Finite 50) Running None 7
      (foldl perform restarted_store [OpGet [97] 2, OpStart [98] 3])) = Inl StaleProgressLease"
  by (rule stale_lease_stays_dead[THEN conjunct2])
     (simp add: example_store_wf, simp_all add: restarted_store_eval alive_def)

theorem live_item_advances_witness:
  "\<exists>st st'. entry example_store [97] = Some st
     \<and> entry (foldl perform example_store
         [OpTransition \<lparr>lease_id = [97], lease_generation = 1\<rparr> (Finite 30) Running None 5]) [97] = Some st'
     \<and> item_progress (stored_item st) \<le> item_progress (stored_item st')"
proof -
  let ?ops = "[OpTransition \<lparr>lease_id = [97], lease_generation = 1\<rparr> (Finite 30) Running None 5]"
  obtain st where st: "entry example_store [97] = Some st" "item_generation (stored_item st) = 1"
    by (simp add: example_store_eval)
  obtain st' where st': "entry (foldl perform example_store ?ops) [97] = Some st'"
    "item_generation (stored_item st') = 1"
    by (simp add: example_store_eval store_eval)
  from live_item_advances[OF example_store_wf(1) st(1) st'(1)] st st' show ?thesis by auto
qed

text \<open>
  A full store makes room by removing exactly one entry, the least recently used one (the
  smaller id among equals); a store with room loses nothing but expired entries and the former
  entry of the id that is started.
\<close>

theorem start_evicts_least_recent:
  assumes "store_wf s" and "start_with_snapshot_at job now s = (Inr (lease, it), s')"
  shows "\<exists>new. let es = AList.delete job (entries (purge_expired_at s now)) in
     if length es < PROGRESS_CAPACITY then entries s' = (job, new) # es
     else \<exists>m\<in>set es. (\<forall>e\<in>set es. eviction_key m \<le> eviction_key e)
            \<and> entries s' = (job, new) # AList.delete (fst m) es"
proof -
  obtain n s1 where g: "next_generation s = (Inr n, s1)"
    using assms(2) by (auto simp: start_with_snapshot_at_def split: prod.splits sum.splits)
  have e1: "entries (purge_expired_at s1 now) = entries (purge_expired_at s now)"
    using next_generation_follows(2)[OF g assms(1)] by (simp add: purge_expired_at_def)
  let ?es = "AList.delete job (entries (purge_expired_at s now))"
  obtain new where s': "entries s' = (job, new) # evict_entries ?es"
    using assms(2) g by (auto simp: start_with_snapshot_at_def Let_def tick_access_def evict_to_capacity_def e1)
  show ?thesis
  proof (cases "length ?es < PROGRESS_CAPACITY")
    case True
    with s' show ?thesis by (intro exI[of _ new]) (simp add: evict_entries_small)
  next
    case False
    then have ne: "?es \<noteq> []" by (auto simp: PROGRESS_CAPACITY_def)
    let ?m = "arg_min_list eviction_key ?es"
    have m: "?m \<in> set ?es" "\<forall>e\<in>set ?es. eviction_key ?m \<le> eviction_key e"
      using ne by (simp_all add: arg_min_list_in f_arg_min_list_f)
    have "length ?es \<le> PROGRESS_CAPACITY"
    proof -
      have "length ?es \<le> length (entries (purge_expired_at s now))" by (rule length_delete_le)
      also have "\<dots> \<le> length (entries s)" by (simp add: purge_expired_at_def)
      finally show ?thesis using assms(1) by (simp add: store_wf_def)
    qed
    then have "length (AList.delete (fst ?m) ?es) < PROGRESS_CAPACITY"
      using delete_mem_shorter[OF m(1)] by simp
    then have "evict_entries ?es = AList.delete (fst ?m) ?es"
      using False ne by (subst evict_entries.simps) (simp add: evict_entries_small)
    with m s' False show ?thesis by (intro exI[of _ new]) (auto simp: Let_def)
  qed
qed

theorem start_evicts_least_recent_witness:
  "\<exists>new. let es = AList.delete [98] (entries (purge_expired_at example_store 1)) in
     if length es < PROGRESS_CAPACITY
     then entries (snd (start_with_snapshot_at [98] 1 example_store)) = ([98], new) # es
     else \<exists>m\<in>set es. (\<forall>e\<in>set es. eviction_key m \<le> eviction_key e)
            \<and> entries (snd (start_with_snapshot_at [98] 1 example_store)) = ([98], new) # AList.delete (fst m) es"
proof (rule start_evicts_least_recent[OF example_store_wf(1)])
  show "start_with_snapshot_at [98] 1 example_store
    = (Inr (\<lparr>lease_id = [98], lease_generation = 2\<rparr>, \<lparr>item_id = [98], item_generation = 2, item_progress = 0,
         item_finished = False, item_state = Running, item_failure = None\<rparr>),
       snd (start_with_snapshot_at [98] 1 example_store))"
    by (simp add: example_store_eval store_eval)
qed

text \<open>Once a terminal state was requested under a lease, the lease names no running entry.\<close>

lemma transition_running:
  assumes "store_wf s" "is_terminal st"
    and "entry (snd (transition_with_failure_at lease p st failure now s)) (lease_id lease) = Some x"
    and "item_generation (stored_item x) = lease_generation lease"
  shows "is_terminal (item_state (stored_item x))"
proof -
  obtain acc s1 where tick: "tick_access (purge_expired_at s now) = (acc, s1)" by fastforce
  show ?thesis
  proof (cases "entry s1 (lease_id lease)")
    case None
    with assms(3) tick show ?thesis by (simp add: transition_with_failure_at_def)
  next
    case (Some stored)
    with assms tick show ?thesis
      by (auto simp: transition_with_failure_at_def Let_def update_conv' transitioned_def split: if_splits)
  qed
qed

lemma terminal_transition_silent:
  assumes "store_wf s"
    and "\<And>x. entry s (lease_id lease) = Some x \<Longrightarrow> item_generation (stored_item x) = lease_generation lease \<Longrightarrow>
           is_terminal (item_state (stored_item x))"
  shows "snd (snd (update_progress_with_state emit lease p st now s)) = []"
proof -
  obtain acc s1 where tick: "tick_access (purge_expired_at s now) = (acc, s1)" by fastforce
  then have e: "entries s1 = entries (purge_expired_at s now)" by (metis tick_keeps(1) snd_conv)
  have "is_terminal (item_state (stored_item x))"
    if "entry s1 (lease_id lease) = Some x" "item_generation (stored_item x) = lease_generation lease" for x
    using assms(2) entry_purge[OF assms(1), of now "lease_id lease" x] that by (simp only: e)
  then show ?thesis
    using tick
    by (auto simp: update_progress_with_state_def update_progress_with_failure_def
        transition_with_failure_at_def Let_def transitioned_def split: option.splits)
qed

text \<open>
  Dropping a job after it completed says nothing: whatever happened between the completion
  and the drop, no second terminal event is emitted, so a success is never reported as cancelled.
\<close>

theorem completed_job_drop_is_silent:
  assumes "store_wf s" and "is_terminal st"
  shows "snd (job_drop emit lease now' (fst (job_complete emit lease st now s))) = []"
proof -
  let ?p = "if st = Succeeded then Finite 100 else Finite 0"
  let ?s = "snd (transition_with_failure_at lease ?p st None now s)"
  have "fst (job_complete emit lease st now s) = ?s"
    by (auto simp: job_complete_def update_progress_with_state_def update_progress_with_failure_def Let_def
        split: prod.splits sum.splits)
  moreover have "store_wf ?s" using transition_follows[OF assms(1)] by (simp add: follows_def)
  ultimately show ?thesis
    using terminal_transition_silent transition_running[OF assms] by (auto simp: job_drop_def)
qed

theorem completed_job_drop_is_silent_witness:
  "snd (job_drop (\<lambda>_. Inr ()) \<lparr>lease_id = [97], lease_generation = 1\<rparr> 9
     (fst (job_complete (\<lambda>_. Inr ()) \<lparr>lease_id = [97], lease_generation = 1\<rparr> Succeeded 5 example_store))) = []"
  by (rule completed_job_drop_is_silent[OF example_store_wf(1)]) (simp add: is_terminal_def)

subsection \<open>Generations on the wire\<close>

lemma show_nat_snoc: "0 < v \<Longrightarrow> d < 10 \<Longrightarrow> show_nat (v * 10 + d) = show_nat v @ [digit_char d]"
  by (subst show_nat.simps) simp

lemma show_nat_0: "show_nat 0 = ''0''"
  by code_simp

lemma hd_show_nat_pos: "0 < n \<Longrightarrow> hd (show_nat n) \<noteq> CHR ''0''"
proof (induction n rule: show_nat.induct)
  case (1 n)
  show ?case
  proof (cases "n < 10")
    case True
    then have "(of_char (digit_char n) :: nat) \<noteq> of_char (CHR ''0'')"
      using "1.prems" by (simp add: of_char_digit_char)
    with True show ?thesis by (auto simp: show_nat.simps[of n])
  next
    case False
    with "1.IH" show ?thesis by (simp add: show_nat.simps[of n])
  qed
qed

lemma digit_char_value: "is_ascii_digit c \<Longrightarrow> digit_value c < 10 \<and> digit_char (digit_value c) = c"
proof -
  assume c: "is_ascii_digit c"
  then have "48 + digit_value c = of_char c" by (simp add: digit_value_def is_ascii_digit_def)
  with c show ?thesis by (simp add: digit_char_def digit_value_def is_ascii_digit_def)
qed

text \<open>A numeral without a leading zero is the printed form of its value.\<close>

lemma parse_digits_canonical:
  "parse_digits mx 0 v = Some n \<Longrightarrow> v \<noteq> [] \<Longrightarrow> (1 < length v \<longrightarrow> hd v \<noteq> CHR ''0'') \<Longrightarrow> v = show_nat n"
proof (induction v arbitrary: n rule: rev_induct)
  case (snoc c v)
  from snoc.prems(1) obtain m where m: "parse_digits mx 0 v = Some m" and c: "is_ascii_digit c"
    and n: "n = m * 10 + digit_value c"
    by (auto simp: parse_digits_append Let_def split: option.splits if_splits)
  show ?case
  proof (cases "v = []")
    case True
    with m n digit_char_value[OF c] show ?thesis by (simp add: show_nat.simps[of "digit_value c"])
  next
    case False
    with snoc.prems(3) have "hd v \<noteq> CHR ''0''" by (cases v) auto
    have v: "v = show_nat m"
      by (rule snoc.IH[OF m False]) (simp add: \<open>hd v \<noteq> CHR ''0''\<close>)
    have "m \<noteq> 0"
    proof
      assume "m = 0"
      then have "hd v = CHR ''0''" unfolding v by (simp only: show_nat_0 list.sel(1))
      then show False using \<open>hd v \<noteq> CHR ''0''\<close> by contradiction
    qed
    with v n digit_char_value[OF c] show ?thesis by (simp add: show_nat_snoc)
  qed
qed simp

text \<open>
  Generations cross the wire exactly: the printed form of every 64-bit generation parses back
  to it, and it is the only text that parses to it.
\<close>

theorem generation_wire_roundtrip:
  "parse_canonical v = Inr g \<longleftrightarrow> v = serialize_generation g"
proof
  assume "parse_canonical v = Inr g"
  then obtain n where v: "v \<noteq> []" "1 < length v \<longrightarrow> hd v \<noteq> CHR ''0''" "list_all is_ascii_digit v"
    and n: "parse_unsigned U64_MAX v = Some n" "g = word_of_nat n"
    by (auto simp: parse_canonical_def split: if_splits option.splits)
  obtain c cs where "v = c # cs" using v(1) by (cases v) auto
  with v(3) n(1) have d: "parse_digits U64_MAX 0 v = Some n"
    by (auto simp: parse_unsigned_def simp del: parse_digits.simps split: if_splits)
  have "n \<le> U64_MAX" using n(1) by (rule parse_unsigned_le)
  then have "unat g = n" using n(2) by (simp add: unat_of_nat U64_MAX_def)
  with parse_digits_canonical[OF d v(1,2)] show "v = serialize_generation g"
    by (simp add: serialize_generation_def)
next
  assume v: "v = serialize_generation g"
  have "unat g < 2 ^ LENGTH(64)" by (rule unsigned_less)
  then have le: "unat g \<le> U64_MAX" by (simp add: U64_MAX_def)
  then have "length v \<le> 20"
    unfolding v serialize_generation_def by (intro length_show_nat) (simp_all add: U64_MAX_def)
  moreover have "hd v \<noteq> CHR ''0''" if "1 < length v"
    using that hd_show_nat_pos[of "unat g"] by (cases "unat g") (auto simp: v serialize_generation_def show_nat_0)
  ultimately show "parse_canonical v = Inr g"
    using le by (simp add: parse_canonical_def v serialize_generation_def U64_MAX_DECIMAL_DIGITS_def
        list_all_iff show_nat_digits)
qed

end
