(* ===== verification/PracticeDir.thy ===== *)
theory PracticeDir
  imports Effects Utf8 "HOL-Library.AList"
begin

text \<open>
  The ground of the practice store (\<^verbatim>\<open>practice.rs\<close>): its directory, the names of its leaves, and
  bounded reads and durable writes of documents. The directory handle and its operating-system
  calls (\<^verbatim>\<open>AuthorizedDir\<close>) are an interface: a list of entries, and a fault for each operation in
  turn. An atomic replacement either fails and leaves the directory alone, or commits, possibly
  without the assurance that it is durable. Documents are encoded and decoded by \<^verbatim>\<open>serde_json\<close>,
  whose functions are arguments.
\<close>

subsection \<open>The directory interface\<close>

datatype dir_entry = RegularFile bytes | OtherEntry

datatype fault = NoFault | Fails error | NotDurable

record disk =
  leaves :: "(string \<times> dir_entry) list"
  fault_at :: "nat \<Rightarrow> fault"
  ops_done :: nat
  uuids_drawn :: nat

definition next_fault :: "disk \<Rightarrow> fault \<times> disk" where
  "next_fault d = (fault_at d (ops_done d), d\<lparr>ops_done := Suc (ops_done d)\<rparr>)"

text \<open>An operation that can fail before it does anything; \<^const>\<open>NotDurable\<close> matters to writes only.\<close>

definition faulty :: "(disk \<Rightarrow> 'a result \<times> disk) \<Rightarrow> (disk, 'a) io" where
  "faulty act d = (case next_fault d of (Fails e, d') \<Rightarrow> (Inl e, d') | (_, d') \<Rightarrow> act d')"

definition dir_entries :: "(disk, (string \<times> dir_entry) list) io" where
  "dir_entries = faulty (\<lambda>d. (Inr (leaves d), d))"

definition missing_entry :: error where
  "missing_entry = Io \<lparr>raw_os_error = Some 2, io_kind = NotFound, io_text = ''No such file or directory'', io_sources = []\<rparr>"

definition not_regular :: error where
  "not_regular = InvalidInput ''target must be a regular file''"

definition open_regular_relative :: "string \<Rightarrow> (disk, bytes) io" where
  "open_regular_relative leaf = faulty (\<lambda>d.
     (case map_of (leaves d) leaf of
        None \<Rightarrow> Inl missing_entry
      | Some OtherEntry \<Rightarrow> Inl not_regular
      | Some (RegularFile bs) \<Rightarrow> Inr bs, d))"

text \<open>\<^verbatim>\<open>metadata().len()\<close> and \<^verbatim>\<open>read_bounded_bytes\<close> on the opened file; nobody else changes it meanwhile.\<close>

definition file_len :: "bytes \<Rightarrow> (disk, nat) io" where
  "file_len bs = faulty (\<lambda>d. (Inr (length bs), d))"

definition read_bounded_bytes :: "bytes \<Rightarrow> (disk, bytes) io" where
  "read_bounded_bytes bs = faulty (\<lambda>d. (Inr bs, d))"

definition open_or_create_regular_relative :: "string \<Rightarrow> (disk, unit) io" where
  "open_or_create_regular_relative leaf = faulty (\<lambda>d.
     case map_of (leaves d) leaf of
       None \<Rightarrow> (Inr (), d\<lparr>leaves := leaves d @ [(leaf, RegularFile [])]\<rparr>)
     | Some OtherEntry \<Rightarrow> (Inl not_regular, d)
     | Some (RegularFile bs) \<Rightarrow> (Inr (), d))"

text \<open>\<^verbatim>\<open>atomic_replace_leaf_identified\<close>: whether the committed replacement is durable.\<close>

definition atomic_replace_leaf :: "string \<Rightarrow> bytes \<Rightarrow> (disk, bool) io" where
  "atomic_replace_leaf leaf bs d =
     (case next_fault d of
        (Fails e, d') \<Rightarrow> (Inl e, d')
      | (NotDurable, d') \<Rightarrow> (Inr False, d'\<lparr>leaves := AList.update leaf (RegularFile bs) (leaves d')\<rparr>)
      | (NoFault, d') \<Rightarrow> (Inr True, d'\<lparr>leaves := AList.update leaf (RegularFile bs) (leaves d')\<rparr>))"

definition remove_leaf_identified :: "string \<Rightarrow> (disk, unit) io" where
  "remove_leaf_identified leaf = faulty (\<lambda>d. (Inr (), d\<lparr>leaves := AList.delete leaf (leaves d)\<rparr>))"

subsection \<open>Errors\<close>

definition invalid_leaf :: "string \<Rightarrow> string \<Rightarrow> error" where
  "invalid_leaf leaf reason = InvalidInput (''practice leaf '' @ leaf @ '': '' @ reason)"

definition operation_io :: "string \<Rightarrow> string \<Rightarrow> io_error \<Rightarrow> error" where
  "operation_io operation leaf e =
     Io (sanitized_io_error e (''practice '' @ operation @ '' failed for leaf '' @ leaf))"

fun operation_error :: "string \<Rightarrow> string \<Rightarrow> error \<Rightarrow> error" where
  "operation_error operation leaf (Io e) = operation_io operation leaf e"
| "operation_error operation leaf (InvalidInput _) = invalid_leaf leaf ''contents are invalid''"
| "operation_error operation leaf e = e"

definition map_err :: "(error \<Rightarrow> error) \<Rightarrow> (disk, 'a) io \<Rightarrow> (disk, 'a) io" where
  "map_err f m = bind_io (attempt m) (\<lambda>r. case r of Inl e \<Rightarrow> throw_io (f e) | Inr x \<Rightarrow> return_io x)"

subsection \<open>Documents\<close>

definition read_leaf_bytes :: "string \<Rightarrow> nat \<Rightarrow> string \<Rightarrow> (disk, bytes option) io" where
  "read_leaf_bytes leaf max_bytes operation =
     bind_io (attempt (open_regular_relative leaf)) (\<lambda>r.
       case r of
         Inl e \<Rightarrow> if is_missing_entry e then return_io None else throw_io (operation_error operation leaf e)
       | Inr bs \<Rightarrow>
           bind_io (map_err (operation_error operation leaf) (file_len bs)) (\<lambda>declared.
             if max_bytes < declared then throw_io (invalid_leaf leaf ''document exceeds its size limit'')
             else bind_io (map_err (operation_error operation leaf) (read_bounded_bytes bs)) (\<lambda>bs.
               return_io (Some bs))))"

definition read_json :: "(bytes \<Rightarrow> 'a option) \<Rightarrow> string \<Rightarrow> nat \<Rightarrow> string \<Rightarrow> (disk, 'a option) io" where
  "read_json from_slice leaf max_bytes operation =
     bind_io (read_leaf_bytes leaf max_bytes operation) (\<lambda>r.
       case r of
         None \<Rightarrow> return_io None
       | Some bs \<Rightarrow>
           (case from_slice bs of
              None \<Rightarrow> throw_io (invalid_leaf leaf ''document is malformed JSON'')
            | Some x \<Rightarrow> return_io (Some x)))"

definition write_json_bytes :: "string \<Rightarrow> bytes \<Rightarrow> durability_stage \<Rightarrow> string \<Rightarrow> (disk, unit) io" where
  "write_json_bytes leaf bs stage operation =
     bind_io (map_err (operation_error operation leaf) (atomic_replace_leaf leaf bs)) (\<lambda>durable.
       if durable then return_io () else throw_io (CommittedDurabilityUncertain stage))"

definition write_json ::
    "('a \<Rightarrow> bytes option) \<Rightarrow> string \<Rightarrow> 'a \<Rightarrow> durability_stage \<Rightarrow> string \<Rightarrow> (disk, unit) io" where
  "write_json to_vec leaf x stage operation =
     bind_io (of_result (ok_or (to_vec x) (invalid_leaf leaf ''document cannot be serialized''))) (\<lambda>bs.
       write_json_bytes leaf bs stage operation)"

definition is_regular :: "dir_entry \<Rightarrow> bool" where
  "is_regular e \<longleftrightarrow> e \<noteq> OtherEntry"

definition remove_leaf_if_present :: "string \<Rightarrow> (disk, unit) io" where
  "remove_leaf_if_present leaf =
     bind_io dir_entries (\<lambda>es.
       case map_of es leaf of
         None \<Rightarrow> return_io ()
       | Some e \<Rightarrow>
           if \<not> is_regular e then throw_io (invalid_leaf leaf ''cannot remove a non-regular leaf'')
           else map_err (operation_error ''remove practice leaf'' leaf) (remove_leaf_identified leaf))"

subsection \<open>Leaf names\<close>

definition POSITIONS_SUFFIX :: string where "POSITIONS_SUFFIX = ''-positions.json''"
definition STATE_SUFFIX :: string where "STATE_SUFFIX = ''-state.json''"
definition SHARD_MARKER :: string where "SHARD_MARKER = ''-g''"
definition SHARD_SUFFIX :: string where "SHARD_SUFFIX = ''-reviews-''"
definition LOCK_SUFFIX :: string where "LOCK_SUFFIX = ''.lock''"
definition MAP_SUFFIX :: string where "MAP_SUFFIX = ''-deck-map.json''"
definition U32_MAX :: nat where "U32_MAX = 4294967295"

datatype owned_leaf =
    PositionsLeaf string
  | StateLeaf string
  | ShardLeaf string u32 u32
  | LockLeaf string

fun owned_hash :: "owned_leaf \<Rightarrow> string" where
  "owned_hash (PositionsLeaf h) = h"
| "owned_hash (StateLeaf h) = h"
| "owned_hash (ShardLeaf h _ _) = h"
| "owned_hash (LockLeaf h) = h"

definition is_lower_hex :: "char \<Rightarrow> bool" where
  "is_lower_hex c \<longleftrightarrow> is_ascii_digit c \<or> (97 \<le> (of_char c :: nat) \<and> (of_char c :: nat) \<le> 102)"

definition valid_hash :: "string \<Rightarrow> bool" where
  "valid_hash h \<longleftrightarrow> length h = 64 \<and> list_all is_lower_hex h"

definition strip_suffix :: "string \<Rightarrow> string \<Rightarrow> string option" where
  "strip_suffix s suffix = (if ends_with s suffix then Some (take (length s - length suffix) s) else None)"

definition starts_with :: "string \<Rightarrow> string \<Rightarrow> bool" where
  "starts_with s p \<longleftrightarrow> take (length p) s = p"

fun split_once :: "string \<Rightarrow> string \<Rightarrow> (string \<times> string) option" where
  "split_once [] p = (if p = [] then Some ([], []) else None)"
| "split_once (c # s) p =
     (if starts_with (c # s) p then Some ([], drop (length p) (c # s))
      else map_option (\<lambda>(a, b). (c # a, b)) (split_once s p))"

definition parse_u32 :: "string \<Rightarrow> u32 option" where
  "parse_u32 s = map_option word_of_nat (parse_unsigned U32_MAX s)"

definition show_u32 :: "u32 \<Rightarrow> string" where
  "show_u32 n = show_nat (unat n)"

definition hash_before :: "string \<Rightarrow> string \<Rightarrow> string option" where
  "hash_before suffix name =
     (case strip_suffix name suffix of None \<Rightarrow> None | Some h \<Rightarrow> if valid_hash h then Some h else None)"

definition parse_shard_leaf :: "string \<Rightarrow> owned_leaf option" where
  "parse_shard_leaf name =
     Option.bind (split_once name SHARD_MARKER) (\<lambda>(h, rest).
     Option.bind (split_once rest SHARD_SUFFIX) (\<lambda>(g, ordinal).
     Option.bind (parse_u32 g) (\<lambda>generation.
     Option.bind (Option.bind (strip_suffix ordinal ''.json'') parse_u32) (\<lambda>ordinal.
       if valid_hash h then Some (ShardLeaf h generation ordinal) else None))))"

definition parse_owned_leaf :: "string \<Rightarrow> owned_leaf option" where
  "parse_owned_leaf name =
     (case hash_before POSITIONS_SUFFIX name of
        Some h \<Rightarrow> Some (PositionsLeaf h)
      | None \<Rightarrow>
          (case hash_before STATE_SUFFIX name of
             Some h \<Rightarrow> Some (StateLeaf h)
           | None \<Rightarrow>
               (case hash_before LOCK_SUFFIX name of
                  Some h \<Rightarrow> Some (LockLeaf h)
                | None \<Rightarrow> parse_shard_leaf name)))"

definition positions_leaf :: "string \<Rightarrow> string" where
  "positions_leaf h = h @ POSITIONS_SUFFIX"

definition state_leaf :: "string \<Rightarrow> string" where
  "state_leaf h = h @ STATE_SUFFIX"

definition lock_leaf :: "string \<Rightarrow> string" where
  "lock_leaf h = h @ LOCK_SUFFIX"

definition shard_leaf :: "string \<Rightarrow> u32 \<Rightarrow> u32 \<Rightarrow> string" where
  "shard_leaf h generation ordinal =
     h @ SHARD_MARKER @ show_u32 generation @ SHARD_SUFFIX @ show_u32 ordinal @ ''.json''"

lemmas leaf_name_defs = POSITIONS_SUFFIX_def STATE_SUFFIX_def SHARD_MARKER_def SHARD_SUFFIX_def
  LOCK_SUFFIX_def MAP_SUFFIX_def positions_leaf_def state_leaf_def lock_leaf_def shard_leaf_def

subsection \<open>Round trips of leaf names\<close>

lemma ends_with_append [simp]: "ends_with (s @ t) t"
  by (simp add: ends_with_def)

lemma strip_suffix_append [simp]: "strip_suffix (s @ t) t = Some s"
  by (simp add: strip_suffix_def)


lemma strip_suffix_Some: "strip_suffix s t = Some r \<longleftrightarrow> s = r @ t"
proof
  assume "strip_suffix s t = Some r"
  hence e: "ends_with s t" and r: "r = take (length s - length t) s" by (auto simp: strip_suffix_def split: if_splits)
  have "s = take (length s - length t) s @ drop (length s - length t) s" by (rule append_take_drop_id [symmetric])
  thus "s = r @ t" using e r by (metis ends_with_def)
qed simp

lemma hash_before_Some: "hash_before suffix name = Some h \<longleftrightarrow> name = h @ suffix \<and> valid_hash h"
  by (auto simp: hash_before_def strip_suffix_Some split: option.splits if_splits)

lemma hash_before_append: "hash_before suffix (h @ suffix) = (if valid_hash h then Some h else None)"
  by (simp add: hash_before_def)

lemma split_once_first:
  "p \<noteq> [] \<Longrightarrow> hd p \<notin> set a \<Longrightarrow> split_once (a @ p @ b) p = Some (a, b)"
proof (induction a)
  case Nil
  then obtain c q where "p = c # q" by (cases p) auto
  thus ?case by (simp add: starts_with_def)
next
  case (Cons c a)
  have "\<not> starts_with (c # a @ p @ b) p"
    using Cons.prems by (cases p) (auto simp: starts_with_def)
  thus ?case using Cons by auto
qed

lemma parse_u32_show [simp]: "parse_u32 (show_u32 n) = Some n"
proof -
  have "unat n \<le> U32_MAX" using unsigned_less [where w = n and ?'a = nat] by (simp add: U32_MAX_def)
  thus ?thesis by (simp add: parse_u32_def show_u32_def)
qed

lemma show_u32_digits: "c \<in> set (show_u32 n) \<Longrightarrow> is_ascii_digit c"
  using show_nat_digits by (simp add: show_u32_def)

lemma dash_not_digit: "\<not> is_ascii_digit (CHR ''-'')"
  by (simp add: is_ascii_digit_def)

lemma dash_not_hex: "\<not> is_lower_hex (CHR ''-'')"
  by (simp add: is_lower_hex_def is_ascii_digit_def)

lemma valid_hash_no_dash: "valid_hash h \<Longrightarrow> CHR ''-'' \<notin> set h"
  using dash_not_hex by (auto simp: valid_hash_def list_all_iff)

lemma parse_shard_leaf_print: "valid_hash h \<Longrightarrow> parse_shard_leaf (shard_leaf h g n) = Some (ShardLeaf h g n)"
proof -
  assume h: "valid_hash h"
  have 1: "split_once (shard_leaf h g n) SHARD_MARKER = Some (h, show_u32 g @ SHARD_SUFFIX @ show_u32 n @ ''.json'')"
    unfolding shard_leaf_def using valid_hash_no_dash [OF h]
    by (intro split_once_first) (auto simp: SHARD_MARKER_def)
  have 2: "split_once (show_u32 g @ SHARD_SUFFIX @ show_u32 n @ ''.json'') SHARD_SUFFIX
      = Some (show_u32 g, show_u32 n @ ''.json'')"
    using show_u32_digits [of "CHR ''-''" g] dash_not_digit by (intro split_once_first) (auto simp: SHARD_SUFFIX_def)
  show ?thesis using h by (simp add: parse_shard_leaf_def 1 2)
qed

lemma valid_hash_length: "valid_hash h \<Longrightarrow> length h = 64"
  by (simp add: valid_hash_def)

text \<open>Hashes have one length, so the length of a name tells its suffix.\<close>

lemma hash_before_length: "hash_before suffix name = Some h \<Longrightarrow> length name = 64 + length suffix"
  by (auto simp: hash_before_Some valid_hash_length)

lemma hash_before_other: "length name \<noteq> 64 + length suffix \<Longrightarrow> hash_before suffix name = None"
  using hash_before_length by (cases "hash_before suffix name") auto

lemma suffix_lengths:
  "length POSITIONS_SUFFIX = 15" "length STATE_SUFFIX = 11" "length LOCK_SUFFIX = 5"
  by (simp_all add: leaf_name_defs)

lemma shard_leaf_length: "valid_hash h \<Longrightarrow> 82 \<le> length (shard_leaf h g n)"
  using valid_hash_length [of h] show_nat_nonempty [of "unat g"] show_nat_nonempty [of "unat n"]
  unfolding shard_leaf_def SHARD_MARKER_def SHARD_SUFFIX_def show_u32_def
  by (cases "show_nat (unat g)"; cases "show_nat (unat n)") auto

lemma parse_shard_only:
  "parse_shard_leaf name = Some x \<Longrightarrow> \<exists>h g n. x = ShardLeaf h g n \<and> valid_hash h"
  by (auto simp: parse_shard_leaf_def bind_eq_Some_conv split: if_splits)

lemma parse_owned_leaf_names:
  assumes "valid_hash h"
  shows "parse_owned_leaf (positions_leaf h) = Some (PositionsLeaf h)"
    "parse_owned_leaf (state_leaf h) = Some (StateLeaf h)"
    "parse_owned_leaf (lock_leaf h) = Some (LockLeaf h)"
    "parse_owned_leaf (shard_leaf h g n) = Some (ShardLeaf h g n)"
  using assms shard_leaf_length [OF assms, of g n] parse_shard_leaf_print [OF assms, of g n]
  by (simp_all add: parse_owned_leaf_def positions_leaf_def state_leaf_def lock_leaf_def
      hash_before_append hash_before_other suffix_lengths valid_hash_length)

lemma parse_owned_valid: "parse_owned_leaf name = Some w \<Longrightarrow> valid_hash (owned_hash w)"
  by (auto simp: parse_owned_leaf_def parse_shard_leaf_def hash_before_Some Option.bind_eq_Some_conv split: option.split_asm if_split_asm)

text \<open>The names the store writes are parsed back to what they were made from, and a positions,
  state or lock leaf is recognised only under the name the store itself gives it.\<close>

theorem leaf_names_roundtrip:
  "(parse_owned_leaf name = Some (PositionsLeaf h) \<longleftrightarrow> name = positions_leaf h \<and> valid_hash h)
   \<and> (parse_owned_leaf name = Some (StateLeaf h) \<longleftrightarrow> name = state_leaf h \<and> valid_hash h)
   \<and> (parse_owned_leaf name = Some (LockLeaf h) \<longleftrightarrow> name = lock_leaf h \<and> valid_hash h)
   \<and> (parse_owned_leaf (shard_leaf h g n) = Some (ShardLeaf h g n) \<longleftrightarrow> valid_hash h)"
proof -
  have only: "parse_owned_leaf name = Some x \<Longrightarrow> valid_hash (owned_hash x)
    \<and> (case x of PositionsLeaf h \<Rightarrow> name = positions_leaf h | StateLeaf h \<Rightarrow> name = state_leaf h
       | LockLeaf h \<Rightarrow> name = lock_leaf h | ShardLeaf _ _ _ \<Rightarrow> True)" for name x
    by (auto simp: parse_owned_leaf_def hash_before_Some positions_leaf_def state_leaf_def lock_leaf_def
        split: option.splits dest!: parse_shard_only)
  show ?thesis using only [of name] only [of "shard_leaf h g n"] parse_owned_leaf_names by force
qed

end
