(* ===== verification/PracticeMap.thy ===== *)
theory PracticeMap
  imports PracticeDir
begin

text \<open>
  The deck map of a file (\<^verbatim>\<open>practice.rs\<close>): which practice deck each game of a PGN file owns, kept
  in step with deletions of games by a pending record written before the deletion and resolved
  after it. SHA-256, version-4 UUIDs and the JSON codec are parameters of the model.
\<close>

subsection \<open>Data\<close>

definition PRACTICE_STORAGE_VERSION :: u32 where "PRACTICE_STORAGE_VERSION = 1"
definition PRACTICE_POSITIONS_MAX_BYTES :: nat where "PRACTICE_POSITIONS_MAX_BYTES = 8 * 1024 * 1024"
definition PRACTICE_LEGACY_MAX_BYTES :: nat where "PRACTICE_LEGACY_MAX_BYTES = 8 * 1024 * 1024"
definition NO_MAP_EPOCH :: string where "NO_MAP_EPOCH = ''no-map''"
definition MAP_MAX_BYTES :: nat where "MAP_MAX_BYTES = 8 * 1024 * 1024"
definition MAP_MAX_ORDINALS :: nat where "MAP_MAX_ORDINALS = 1000000"
definition I32_MAX :: int where "I32_MAX = 2147483647"

record pending_delete =
  pending_id :: string
  pending_ordinal :: nat
  pending_game_count :: nat

record file_deck_map =
  map_version :: u32
  map_file_id :: string
  epoch :: string
  ordinals :: "int option list"
  next_deck :: int
  legacy_superseded :: bool
  pending :: "pending_delete option"

text \<open>\<^verbatim>\<open>serde_json::Value\<close>, with numbers as far as the store looks at them.\<close>

datatype json =
    JNull
  | JBool bool
  | JInt int
  | JFloat string
  | JString string
  | JArray "json list"
  | JObject "(string \<times> json) list"

fun json_get :: "string \<Rightarrow> json \<Rightarrow> json option" where
  "json_get k (JObject members) = map_of members k"
| "json_get k _ = None"

fun as_str :: "json \<Rightarrow> string option" where
  "as_str (JString s) = Some s"
| "as_str _ = None"

fun as_i64 :: "json \<Rightarrow> int option" where
  "as_i64 (JInt n) = (if - (2 ^ 63) \<le> n \<and> n < 2 ^ 63 then Some n else None)"
| "as_i64 _ = None"

record map_env =
  sha256 :: "bytes \<Rightarrow> string"
  uuid_at :: "nat \<Rightarrow> string"
  uuid_parses :: "string \<Rightarrow> bool"
  map_to_vec :: "file_deck_map \<Rightarrow> bytes option"
  map_from_slice :: "bytes \<Rightarrow> file_deck_map option"
  value_from_slice :: "bytes \<Rightarrow> json option"

definition new_uuid :: "('e map_env_scheme) \<Rightarrow> (disk, string) io" where
  "new_uuid env d = (Inr (uuid_at env (uuids_drawn d)), d\<lparr>uuids_drawn := Suc (uuids_drawn d)\<rparr>)"

subsection \<open>Locks and hashes\<close>

definition lock_advisory_file :: "(disk, unit) io" where
  "lock_advisory_file = faulty (\<lambda>d. (Inr (), d))"

definition with_store_lock :: "string \<Rightarrow> (disk, 'a) io \<Rightarrow> (disk, 'a) io" where
  "with_store_lock hash operation =
     bind_io (open_or_create_regular_relative (lock_leaf hash)) (\<lambda>_.
     bind_io lock_advisory_file (\<lambda>_. operation))"

definition hash_deck :: "('e map_env_scheme) \<Rightarrow> string \<Rightarrow> int \<Rightarrow> string" where
  "hash_deck env file_id number = sha256 env (bytes_of file_id @ [0] @ bytes_of (show_int number))"

definition hash_file :: "('e map_env_scheme) \<Rightarrow> string \<Rightarrow> string" where
  "hash_file env file_id = sha256 env (bytes_of file_id)"

definition map_leaf :: "('e map_env_scheme) \<Rightarrow> string \<Rightarrow> string" where
  "map_leaf env file_id = hash_file env file_id @ MAP_SUFFIX"

definition with_map_lock :: "('e map_env_scheme) \<Rightarrow> string \<Rightarrow> (disk, 'a) io \<Rightarrow> (disk, 'a) io" where
  "with_map_lock env file_id operation = with_store_lock (hash_file env file_id @ ''-map'') operation"

subsection \<open>Reading and writing the map\<close>

text \<open>The scan of the deck numbers with the set of numbers seen so far.\<close>

fun any_refused :: "int \<Rightarrow> int set \<Rightarrow> int option list \<Rightarrow> bool" where
  "any_refused bound seen [] = False"
| "any_refused bound seen (None # rest) = any_refused bound seen rest"
| "any_refused bound seen (Some n # rest) =
     (n < 0 \<or> bound \<le> n \<or> n \<in> seen \<or> any_refused bound (insert n seen) rest)"

definition pending_refused :: "('e map_env_scheme) \<Rightarrow> pending_delete \<Rightarrow> bool" where
  "pending_refused env p \<longleftrightarrow>
     MAP_MAX_ORDINALS < pending_game_count p \<or> pending_game_count p \<le> pending_ordinal p
     \<or> \<not> uuid_parses env (pending_id p)"

definition map_refused :: "('e map_env_scheme) \<Rightarrow> string \<Rightarrow> file_deck_map \<Rightarrow> bool" where
  "map_refused env file_id m \<longleftrightarrow>
     map_version m \<noteq> PRACTICE_STORAGE_VERSION
     \<or> map_file_id m \<noteq> file_id
     \<or> (epoch m \<noteq> NO_MAP_EPOCH \<and> \<not> uuid_parses env (epoch m))
     \<or> (legacy_superseded m \<and> epoch m = NO_MAP_EPOCH)
     \<or> next_deck m < 0
     \<or> MAP_MAX_ORDINALS < length (ordinals m)
     \<or> any_refused (next_deck m) {} (ordinals m)
     \<or> (case pending m of None \<Rightarrow> False | Some p \<Rightarrow> pending_refused env p)"

definition read_map :: "('e map_env_scheme) \<Rightarrow> string \<Rightarrow> (disk, file_deck_map option) io" where
  "read_map env file_id =
     bind_io (read_json (map_from_slice env) (map_leaf env file_id) MAP_MAX_BYTES ''read deck map'') (\<lambda>r.
       case r of
         None \<Rightarrow> return_io None
       | Some m \<Rightarrow>
           if map_refused env file_id m then throw_io (invalid_leaf (map_leaf env file_id) ''deck map is invalid'')
           else return_io (Some m))"

definition write_map :: "('e map_env_scheme) \<Rightarrow> file_deck_map \<Rightarrow> (disk, unit) io" where
  "write_map env m =
     (let leaf = map_leaf env (map_file_id m);
          too_large = invalid_leaf leaf ''deck map exceeds its size limit''
      in if MAP_MAX_ORDINALS < length (ordinals m) then throw_io too_large
         else bind_io (of_result (ok_or (map_to_vec env m) (invalid_leaf leaf ''deck map cannot be serialized''))) (\<lambda>bs.
              if MAP_MAX_BYTES < length bs then throw_io too_large
              else write_json (map_to_vec env) leaf m PracticeState ''write deck map''))"

definition map_epoch :: "file_deck_map option \<Rightarrow> string" where
  "map_epoch m = (case m of None \<Rightarrow> NO_MAP_EPOCH | Some m \<Rightarrow> epoch m)"

subsection \<open>The decks of a file\<close>

text \<open>The identity a document claims, believed only if it hashes to the leaf it is stored under.\<close>

definition claimed_identity :: "('e map_env_scheme) \<Rightarrow> string \<Rightarrow> json \<Rightarrow> (string \<times> int) option" where
  "claimed_identity env hash v =
     Option.bind (Option.bind (json_get ''fileId'' v) as_str) (\<lambda>owner.
     Option.bind (Option.bind (json_get ''game'' v) as_i64) (\<lambda>n.
       if 0 \<le> n \<and> n \<le> I32_MAX \<and> hash_deck env owner n = hash then Some (owner, n) else None))"

text \<open>
  One directory entry: the leaves with a known number, the leaves whose document does not tell, and
  the highest number so far.
\<close>

definition inspect_leaf ::
    "('e map_env_scheme) \<Rightarrow> string \<Rightarrow> string \<times> dir_entry
      \<Rightarrow> (string \<times> string \<times> int) list \<times> (string \<times> string) list \<times> int
      \<Rightarrow> (disk, (string \<times> string \<times> int) list \<times> (string \<times> string) list \<times> int) io" where
  "inspect_leaf env file_id e acc =
     (case acc of (known, unidentified, highest) \<Rightarrow>
        (case parse_owned_leaf (fst e) of
           None \<Rightarrow> return_io acc
         | Some (LockLeaf _) \<Rightarrow> return_io acc
         | Some owned \<Rightarrow>
             bind_io (attempt (read_json (value_from_slice env) (fst e)
                (PRACTICE_POSITIONS_MAX_BYTES + PRACTICE_LEGACY_MAX_BYTES) ''inspect deck identity'')) (\<lambda>r.
               let hash = owned_hash owned
               in case r of
                    Inr None \<Rightarrow> return_io acc
                  | _ \<Rightarrow>
                      (case Option.bind (case r of Inr v \<Rightarrow> v | Inl _ \<Rightarrow> None) (claimed_identity env hash) of
                         Some (owner, n) \<Rightarrow>
                           return_io (if owner = file_id then (known @ [(fst e, hash, n)], unidentified, max highest n)
                                      else acc)
                       | None \<Rightarrow> return_io (known, unidentified @ [(fst e, hash)], highest)))))"

text \<open>The number whose deck hashes to the leaf, searched from zero.\<close>

definition attribute :: "('e map_env_scheme) \<Rightarrow> string \<Rightarrow> int \<Rightarrow> string \<Rightarrow> int option" where
  "attribute env file_id limit hash =
     find (\<lambda>n. hash_deck env file_id n = hash) (map int [0..<nat (limit + 1)])"

definition file_deck_leaves :: "('e map_env_scheme) \<Rightarrow> string \<Rightarrow> (disk, (string \<times> string \<times> int) list) io" where
  "file_deck_leaves env file_id =
     bind_io dir_entries (\<lambda>es.
     bind_io (for_io (inspect_leaf env file_id) es ([], [], - 1)) (\<lambda>(known, unidentified, highest).
       let limit = max highest (int MAP_MAX_ORDINALS)
       in return_io (known @ List.map_filter (\<lambda>(leaf, hash).
            map_option (\<lambda>n. (leaf, hash, n)) (attribute env file_id limit hash)) unidentified)))"

definition fresh_map :: "('e map_env_scheme) \<Rightarrow> string \<Rightarrow> nat \<Rightarrow> bool \<Rightarrow> (disk, file_deck_map) io" where
  "fresh_map env file_id num identities =
     (if MAP_MAX_ORDINALS < num then throw_io (ResourceLimit ''practice ordinal limit exceeded'')
      else bind_io (file_deck_leaves env file_id) (\<lambda>ls.
        let highest = foldl max (- 1) (map (\<lambda>(_, _, n). n) ls)
        in if I32_MAX < highest + 1 then throw_io (ResourceLimit ''practice deck numbers exhausted'')
           else if I32_MAX < int num then throw_io (ResourceLimit ''practice ordinal limit exceeded'')
           else bind_io (if identities then return_io NO_MAP_EPOCH else new_uuid env) (\<lambda>ep.
             return_io
               \<lparr>map_version = PRACTICE_STORAGE_VERSION, map_file_id = file_id, epoch = ep,
                ordinals = map (\<lambda>n. if identities \<and> int n \<le> I32_MAX then Some (int n) else None) [0..<num],
                next_deck = max (highest + 1) (int num), legacy_superseded = \<not> identities, pending = None\<rparr>)))"

definition all_shard_leaves :: "string \<Rightarrow> (disk, (string \<times> u32 \<times> u32 \<times> dir_entry) list) io" where
  "all_shard_leaves hash =
     bind_io dir_entries (\<lambda>es.
       return_io (List.map_filter (\<lambda>(name, e).
         case parse_owned_leaf name of
           Some (ShardLeaf h generation ordinal) \<Rightarrow> if h = hash then Some (name, generation, ordinal, e) else None
         | _ \<Rightarrow> None) es))"

definition remove_deck_by_hash :: "string \<Rightarrow> (disk, unit) io" where
  "remove_deck_by_hash hash =
     with_store_lock hash
       (bind_io (remove_leaf_if_present (positions_leaf hash)) (\<lambda>_.
        bind_io (remove_leaf_if_present (state_leaf hash)) (\<lambda>_.
        bind_io (all_shard_leaves hash) (\<lambda>shards.
          for_io (\<lambda>(leaf, _) _. remove_leaf_if_present leaf) shards ()))))"

definition retire_deck :: "('e map_env_scheme) \<Rightarrow> string \<Rightarrow> int \<Rightarrow> (disk, unit) io" where
  "retire_deck env file_id number = remove_deck_by_hash (hash_deck env file_id number)"

subsection \<open>Pending deletions\<close>

text \<open>A failure to remove the retired deck is only logged.\<close>

definition apply_pending :: "('e map_env_scheme) \<Rightarrow> file_deck_map \<Rightarrow> bool \<Rightarrow> (disk, unit) io" where
  "apply_pending env m landed =
     (case pending m of
        None \<Rightarrow> return_io ()
      | Some p \<Rightarrow>
          let m = m\<lparr>pending := None\<rparr>
          in bind_io
               (if landed
                then bind_io (new_uuid env) (\<lambda>ep.
                       let n = pending_ordinal p;
                           (retired, kept) =
                             (if n < length (ordinals m)
                              then (ordinals m ! n, take n (ordinals m) @ drop (Suc n) (ordinals m))
                              else (None, ordinals m))
                       in return_io (retired, m\<lparr>ordinals := kept, epoch := ep, legacy_superseded := True\<rparr>))
                else return_io (None, m)) (\<lambda>(retired, m).
             bind_io (write_map env m) (\<lambda>_.
               case retired of
                 None \<Rightarrow> return_io ()
               | Some number \<Rightarrow>
                   bind_io (attempt (retire_deck env (map_file_id m) number)) (\<lambda>_. return_io ()))))"

definition has_pending_delete :: "('e map_env_scheme) \<Rightarrow> string \<Rightarrow> (disk, bool) io" where
  "has_pending_delete env file_id =
     with_map_lock env file_id (bind_io (read_map env file_id) (\<lambda>m.
       return_io (case m of None \<Rightarrow> False | Some m \<Rightarrow> pending m \<noteq> None)))"

text \<open>\<^term>\<open>establish_durability\<close> is the caller's synchronisation of the PGN file.\<close>

definition resolve_pending_delete_in ::
    "('e map_env_scheme) \<Rightarrow> string \<Rightarrow> nat \<Rightarrow> (disk, unit) io \<Rightarrow> (disk, unit) io" where
  "resolve_pending_delete_in env file_id num establish_durability =
     with_map_lock env file_id (bind_io (read_map env file_id) (\<lambda>m.
       case m of
         None \<Rightarrow> return_io ()
       | Some m \<Rightarrow>
           (case pending m of
              None \<Rightarrow> return_io ()
            | Some p \<Rightarrow>
                let landed = (0 < pending_game_count p \<and> pending_game_count p - 1 = num)
                in bind_io (if landed then establish_durability else return_io ()) (\<lambda>_.
                     apply_pending env m landed))))"

definition prepare_delete_in :: "('e map_env_scheme) \<Rightarrow> string \<Rightarrow> nat \<Rightarrow> nat \<Rightarrow> (disk, string) io" where
  "prepare_delete_in env file_id ordinal num =
     with_map_lock env file_id (bind_io (read_map env file_id) (\<lambda>r.
       bind_io (case r of Some m \<Rightarrow> return_io m | None \<Rightarrow> fresh_map env file_id num True) (\<lambda>m.
         if pending m \<noteq> None then throw_io (Conflict ''practice delete is pending'')
         else bind_io (new_uuid env) (\<lambda>pid.
              bind_io (write_map env
                (m\<lparr>pending := Some \<lparr>pending_id = pid, pending_ordinal = ordinal, pending_game_count = num\<rparr>\<rparr>)) (\<lambda>_.
                return_io pid)))))"

definition finish_delete_in :: "('e map_env_scheme) \<Rightarrow> string \<Rightarrow> string \<Rightarrow> bool \<Rightarrow> (disk, unit) io" where
  "finish_delete_in env file_id pid landed =
     with_map_lock env file_id (bind_io (read_map env file_id) (\<lambda>r.
       bind_io (of_result (ok_or r (Conflict ''practice delete map disappeared''))) (\<lambda>m.
         if (case pending m of None \<Rightarrow> True | Some p \<Rightarrow> pending_id p \<noteq> pid) then return_io ()
         else apply_pending env m landed)))"

subsection \<open>The deck of a game\<close>

definition mapped_ordinal :: "int \<Rightarrow> nat result" where
  "mapped_ordinal ordinal =
     (if ordinal < 0 then Inl (InvalidInput ''negative practice ordinal'')
      else if MAP_MAX_ORDINALS \<le> nat ordinal then Inl (ResourceLimit ''practice ordinal limit exceeded'')
      else Inr (nat ordinal))"

definition ordinal_at :: "file_deck_map \<Rightarrow> nat \<Rightarrow> int option" where
  "ordinal_at m i = (if i < length (ordinals m) then ordinals m ! i else None)"

fun label_invalid :: "error \<Rightarrow> error" where
  "label_invalid (InvalidInput s) = with_root_failure (InvalidInput s) Unusable"
| "label_invalid e = e"

definition resolve_mapped_deck ::
    "('e map_env_scheme) \<Rightarrow> string \<Rightarrow> int \<Rightarrow> nat \<Rightarrow> string option \<Rightarrow> bool
      \<Rightarrow> (disk, int option \<times> string \<times> bool) io" where
  "resolve_mapped_deck env file_id ordinal index expected_epoch create =
     bind_io (map_err label_invalid (read_map env file_id)) (\<lambda>r.
       let ep = map_epoch r
       in if (case expected_epoch of None \<Rightarrow> False | Some e \<Rightarrow> e \<noteq> ep)
          then throw_io (Conflict ''practice epoch changed'')
          else case r of
                 None \<Rightarrow> return_io (Some ordinal, ep, False)
               | Some m \<Rightarrow>
                   if pending m \<noteq> None then throw_io (Conflict ''practice delete requires resolution'')
                   else if create \<and> ordinal_at m index = None
                   then (let number = next_deck m
                         in if I32_MAX < number + 1 then throw_io (ResourceLimit ''practice deck numbers exhausted'')
                            else let m = m\<lparr>next_deck := number + 1,
                                          ordinals := (ordinals m @ replicate (index + 1 - length (ordinals m)) None)
                                            [index := Some number]\<rparr>
                                 in bind_io (write_map env m) (\<lambda>_.
                                      return_io (ordinal_at m index, ep, legacy_superseded m)))
                   else return_io (ordinal_at m index, ep, legacy_superseded m))"

definition with_mapped_deck ::
    "('e map_env_scheme) \<Rightarrow> string \<Rightarrow> int \<Rightarrow> string option \<Rightarrow> bool
      \<Rightarrow> (int option \<Rightarrow> string \<Rightarrow> bool \<Rightarrow> (disk, 'a) io) \<Rightarrow> (disk, 'a) io" where
  "with_mapped_deck env file_id ordinal expected_epoch create operation =
     bind_io (of_result (mapped_ordinal ordinal)) (\<lambda>index.
       with_map_lock env file_id
         (bind_io (resolve_mapped_deck env file_id ordinal index expected_epoch create) (\<lambda>(number, ep, superseded).
            operation number ep superseded)))"

subsection \<open>Frames\<close>

text \<open>
  What an action may do to the disk, as a relation between the disk before and after. The two used
  are equality of the leaves (the action only reads) and agreement on one leaf; neither changes the
  faults to come.
\<close>

definition frame :: "(disk \<Rightarrow> disk \<Rightarrow> bool) \<Rightarrow> (disk, 'a) io \<Rightarrow> bool" where
  "frame R m \<longleftrightarrow> (\<forall>d. R d (snd (m d)))"

definition same_leaves :: "disk \<Rightarrow> disk \<Rightarrow> bool" where
  "same_leaves d d' \<longleftrightarrow> leaves d' = leaves d \<and> fault_at d' = fault_at d"

definition same_leaf :: "string \<Rightarrow> disk \<Rightarrow> disk \<Rightarrow> bool" where
  "same_leaf leaf d d' \<longleftrightarrow> map_of (leaves d') leaf = map_of (leaves d) leaf \<and> fault_at d' = fault_at d"

abbreviation "reads_only m \<equiv> frame same_leaves m"
abbreviation "keeps leaf m \<equiv> frame (same_leaf leaf) m"

locale disk_frame =
  fixes R :: "disk \<Rightarrow> disk \<Rightarrow> bool"
  assumes tick: "R d (d\<lparr>ops_done := n\<rparr>)" and trans: "R d d' \<Longrightarrow> R d' d'' \<Longrightarrow> R d d''"
begin

lemma refl: "R d d"
  using tick [of d "ops_done d"] by simp

lemma pure: "frame R (return_io x)" "frame R (throw_io e)" "frame R (of_result r)"
  by (simp_all add: frame_def refl)

lemma bind_result:
  assumes "frame R m" "\<And>d x d'. m d = (Inr x, d') \<Longrightarrow> frame R (f x)"
  shows "frame R (bind_io m f)"
  unfolding frame_def
proof
  fix d
  obtain r d' where m: "m d = (r, d')" by force
  hence "R d d'" using assms(1) by (metis frame_def snd_conv)
  moreover have "R d' (snd (f x d'))" if "r = Inr x" for x
    using assms(2) m that by (simp add: frame_def)
  ultimately show "R d (snd (bind_io m f d))"
    using m trans by (cases r) (auto simp: bind_io_def)
qed

lemma bind: "frame R m \<Longrightarrow> (\<And>x. frame R (f x)) \<Longrightarrow> frame R (bind_io m f)"
  by (rule bind_result)

lemma attempt: "frame R m \<Longrightarrow> frame R (Effects.attempt m)"
  by (simp add: frame_def Effects.attempt_def split: prod.splits) (metis snd_conv)

lemma map_err: "frame R m \<Longrightarrow> frame R (PracticeDir.map_err f m)"
  unfolding PracticeDir.map_err_def by (intro bind attempt) (auto split: sum.splits intro: pure)

lemma if_frame: "frame R m \<Longrightarrow> frame R n \<Longrightarrow> frame R (if c then m else n)"
  by simp

lemma for_frame: "(\<And>x a. x \<in> set xs \<Longrightarrow> frame R (f x a)) \<Longrightarrow> frame R (for_io f xs a)"
  by (induction xs arbitrary: a) (auto intro!: bind pure)

lemma faulty: "(\<And>d. R d (snd (act d))) \<Longrightarrow> frame R (PracticeDir.faulty act)"
  using trans [OF tick] by (auto simp: frame_def PracticeDir.faulty_def next_fault_def tick split: fault.splits)

end

interpretation reads: disk_frame same_leaves
  by unfold_locales (auto simp: same_leaves_def)

interpretation keep: disk_frame "same_leaf leaf" for leaf
  by unfold_locales (auto simp: same_leaf_def)

lemmas reads_intros = reads.pure reads.bind reads.attempt reads.map_err reads.if_frame reads.for_frame
lemmas keep_intros = keep.pure keep.bind keep.attempt keep.map_err keep.if_frame keep.for_frame

lemma reads_only_keeps: "reads_only m \<Longrightarrow> keeps leaf m"
  by (simp add: frame_def same_leaf_def same_leaves_def)

lemma reads_only_prims:
  "reads_only dir_entries" "reads_only (open_regular_relative leaf)" "reads_only lock_advisory_file"
  "reads_only (new_uuid env)" "reads_only (file_len bs)" "reads_only (read_bounded_bytes bs)"
  by (auto simp: dir_entries_def open_regular_relative_def lock_advisory_file_def file_len_def read_bounded_bytes_def
      intro!: reads.faulty reads.refl) (simp add: frame_def new_uuid_def same_leaves_def)

lemma reads_only_read_json: "reads_only (read_json dec leaf n what)"
  unfolding read_json_def read_leaf_bytes_def
  by (intro reads.bind reads.attempt reads_only_prims)
    (auto split: option.splits sum.splits intro!: reads_intros reads_only_prims)

lemma keeps_remove:
  assumes "leaf \<noteq> other"
  shows "keeps leaf (remove_leaf_if_present other)"
proof -
  have "keeps leaf (remove_leaf_identified other)"
    unfolding remove_leaf_identified_def using assms by (intro keep.faulty) (simp add: same_leaf_def)
  thus ?thesis
    unfolding remove_leaf_if_present_def
    by (intro keep.bind reads_only_keeps [OF reads_only_prims(1)])
      (auto split: option.splits intro!: keep_intros)
qed

lemma keeps_open_lock: "leaf \<noteq> lock_leaf h \<Longrightarrow> keeps leaf (open_or_create_regular_relative (lock_leaf h))"
  unfolding open_or_create_regular_relative_def
  by (intro keep.faulty) (auto simp: same_leaf_def map_add_def split: option.splits dir_entry.splits)

lemma keeps_lock: "leaf \<noteq> lock_leaf h \<Longrightarrow> keeps leaf m \<Longrightarrow> keeps leaf (with_store_lock h m)"
  unfolding with_store_lock_def by (intro keep.bind reads_only_keeps [OF reads_only_prims(3)] keeps_open_lock) auto

subsection \<open>What the model relies on\<close>

text \<open>
  The crates: SHA-256 is printed as 64 lower-case hexadecimal digits, a generated UUID parses and
  the word \<^verbatim>\<open>no-map\<close> does not, and the JSON codec reads back what it wrote.
\<close>

definition env_ok :: "('e map_env_scheme) \<Rightarrow> bool" where
  "env_ok env \<longleftrightarrow>
     (\<forall>bs. valid_hash (sha256 env bs)) \<and> (\<forall>n. uuid_parses env (uuid_at env n))
     \<and> \<not> uuid_parses env NO_MAP_EPOCH
     \<and> (\<forall>m bs. map_to_vec env m = Some bs \<longrightarrow> map_from_slice env bs = Some m)"

lemma hashes_valid: "env_ok env \<Longrightarrow> valid_hash (hash_file env f)" "env_ok env \<Longrightarrow> valid_hash (hash_deck env f n)"
  by (simp_all add: env_ok_def hash_file_def hash_deck_def)

lemma split_once_none: "p \<noteq> [] \<Longrightarrow> (\<And>a b. s \<noteq> a @ p @ b) \<Longrightarrow> split_once s p = None"
proof (induction s)
  case (Cons c s)
  have "\<not> starts_with (c # s) p"
    using Cons.prems(2) [of "[]"] by (metis append_Nil append_take_drop_id starts_with_def)
  moreover have "split_once s p = None"
    using Cons.prems by (intro Cons.IH) (metis append_Cons)+
  ultimately show ?case by simp
qed simp

lemma split_once_skip: "hd p \<notin> set a \<Longrightarrow> p \<noteq> [] \<Longrightarrow> split_once (a @ s) p = map_option (\<lambda>(x, y). (a @ x, y)) (split_once s p)"
proof (induction a)
  case (Cons c a)
  have "\<not> starts_with (c # a @ s) p"
    using Cons.prems by (cases p) (auto simp: starts_with_def)
  thus ?case using Cons by (auto simp: option.map_comp o_def split_beta)
qed (simp add: option.map_ident split_beta id_def [symmetric] option.map_id)

lemma map_leaf_unowned: "env_ok env \<Longrightarrow> parse_owned_leaf (map_leaf env f) = None"
proof -
  assume ok: "env_ok env"
  have h: "valid_hash (hash_file env f)" by (rule hashes_valid [OF ok])
  have len: "length (map_leaf env f) = 78"
    using valid_hash_length [OF h] by (simp add: map_leaf_def MAP_SUFFIX_def)
  have "split_once MAP_SUFFIX SHARD_MARKER = None" by (simp add: MAP_SUFFIX_def SHARD_MARKER_def starts_with_def)
  hence "split_once (map_leaf env f) SHARD_MARKER = None"
    unfolding map_leaf_def using valid_hash_no_dash [OF h]
    by (subst split_once_skip) (auto simp: SHARD_MARKER_def)
  thus ?thesis using len
    by (simp add: parse_owned_leaf_def hash_before_other suffix_lengths parse_shard_leaf_def)
qed

lemma map_leaf_other:
  assumes "env_ok env"
  shows "map_leaf env f \<noteq> positions_leaf (hash_deck env g n)" "map_leaf env f \<noteq> state_leaf (hash_deck env g n)"
    "map_leaf env f \<noteq> lock_leaf (hash_deck env g n)" "map_leaf env f \<noteq> lock_leaf (hash_file env g @ ''-map'')"
    "parse_owned_leaf name = Some x \<Longrightarrow> map_leaf env f \<noteq> name"
  using parse_owned_leaf_names [OF hashes_valid(2) [OF assms, of g n]] map_leaf_unowned [OF assms, of f]
  by (auto simp: map_leaf_def MAP_SUFFIX_def lock_leaf_def LOCK_SUFFIX_def dest: arg_cong [where f = last])

lemma all_shard_leaves_owned:
  assumes "all_shard_leaves h d = (Inr shards, d')" "(name, rest) \<in> set shards"
  shows "\<exists>g n. parse_owned_leaf name = Some (ShardLeaf h g n)"
  using assms
  by (auto simp: all_shard_leaves_def bind_io_eq_Inr map_filter_def split: option.splits owned_leaf.splits if_splits)

lemma reads_only_shards: "reads_only (all_shard_leaves h)"
  unfolding all_shard_leaves_def by (intro reads.bind reads_only_prims reads.pure)

lemma keeps_retire:
  assumes "env_ok env"
  shows "keeps (map_leaf env f) (retire_deck env g n)"
proof -
  note other = map_leaf_other [OF assms, of f]
  have shards: "keeps (map_leaf env f) (bind_io (all_shard_leaves h)
      (\<lambda>shards. for_io (\<lambda>(leaf, _) _. remove_leaf_if_present leaf) shards ()))" for h
    by (intro keep.bind_result reads_only_keeps [OF reads_only_shards] keep.for_frame)
      (auto simp: map_leaf_unowned [OF assms] dest!: all_shard_leaves_owned intro!: keeps_remove)
  show ?thesis
    unfolding retire_deck_def remove_deck_by_hash_def
    by (intro keeps_lock other keep.bind keeps_remove shards)
qed

subsection \<open>A map that can be read\<close>

definition map_readable :: "('e map_env_scheme) \<Rightarrow> string \<Rightarrow> disk \<Rightarrow> bool" where
  "map_readable env file_id d \<longleftrightarrow>
     (case map_of (leaves d) (map_leaf env file_id) of
        None \<Rightarrow> True
      | Some OtherEntry \<Rightarrow> False
      | Some (RegularFile bs) \<Rightarrow>
          length bs \<le> MAP_MAX_BYTES
          \<and> (case map_from_slice env bs of None \<Rightarrow> False | Some m \<Rightarrow> \<not> map_refused env file_id m))"

lemma map_readable_keeps:
  "keeps (map_leaf env f) m \<Longrightarrow> map_readable env f d \<Longrightarrow> map_readable env f (snd (m d))"
  by (simp add: frame_def same_leaf_def map_readable_def)

text \<open>A map is readable exactly when reading it succeeds while the operating system does.\<close>

lemma map_readable_read:
  "map_readable env f d \<longleftrightarrow> (\<exists>r. fst (read_map env f (d\<lparr>fault_at := \<lambda>_. NoFault\<rparr>)) = Inr r)"
  by (auto simp: map_readable_def read_map_def read_json_def read_leaf_bytes_def open_regular_relative_def
      file_len_def read_bounded_bytes_def map_err_def faulty_def next_fault_def bind_io_def attempt_def
      missing_entry_def not_regular_def is_missing_entry_io_def
      split: option.splits dir_entry.splits)

text \<open>An action that keeps the map readable, whatever it answers.\<close>

definition safe :: "('e map_env_scheme) \<Rightarrow> string \<Rightarrow> (disk, 'a) io \<Rightarrow> bool" where
  "safe env f m \<longleftrightarrow> (\<forall>d. map_readable env f d \<longrightarrow> map_readable env f (snd (m d)))"

lemma safe_keeps: "keeps (map_leaf env f) m \<Longrightarrow> safe env f m"
  by (simp add: safe_def map_readable_keeps)

lemma safe_bind:
  assumes "safe env f m" "\<And>d x d'. m d = (Inr x, d') \<Longrightarrow> safe env f (g x)"
  shows "safe env f (bind_io m g)"
  unfolding safe_def
proof (intro allI impI)
  fix d
  assume d: "map_readable env f d"
  obtain r d' where m: "m d = (r, d')" by force
  hence "map_readable env f d'" using assms(1) d by (metis safe_def snd_conv)
  thus "map_readable env f (snd (bind_io m g d))"
    using m assms(2) by (cases r) (auto simp: bind_io_def safe_def)
qed

lemma safe_pure: "safe env f (return_io x)" "safe env f (throw_io e)" "safe env f (of_result r)"
  by (intro safe_keeps keep.pure)+

lemma read_map_valid: "read_map env f d = (Inr (Some m), d') \<Longrightarrow> \<not> map_refused env f m"
  by (auto simp: read_map_def bind_io_eq_Inr split: option.splits if_splits)

lemma reads_only_read_map: "reads_only (read_map env f)"
  unfolding read_map_def by (intro reads.bind reads_only_read_json) (auto split: option.splits intro!: reads_intros)

lemma write_map_safe:
  assumes "env_ok env" "\<not> map_refused env f m"
  shows "safe env f (write_map env m)"
  unfolding safe_def
proof (intro allI impI)
  fix d
  assume d: "map_readable env f d"
  have f: "map_file_id m = f" using assms(2) by (simp add: map_refused_def)
  show "map_readable env f (snd (write_map env m d))"
  proof (cases "map_to_vec env m")
    case None
    thus ?thesis using d f by (simp add: write_map_def Let_def)
  next
    case (Some bs)
    have dec: "map_from_slice env bs = Some m" using assms(1) Some by (simp add: env_ok_def)
    show ?thesis using d assms(2) dec Some f
      by (auto simp: write_map_def Let_def write_json_def write_json_bytes_def map_err_def atomic_replace_leaf_def
          next_fault_def bind_io_def attempt_def map_readable_def AList.update_conv' not_less
          split: fault.splits if_splits)
  qed
qed

lemma any_refused_iff:
  "any_refused bound seen xs \<longleftrightarrow>
     \<not> ((\<forall>n \<in> set (List.map_filter (\<lambda>x. x) xs). 0 \<le> n \<and> n < bound \<and> n \<notin> seen)
        \<and> distinct (List.map_filter (\<lambda>x. x) xs))"
proof (induction bound seen xs rule: any_refused.induct)
  case (3 bound seen n rest)
  thus ?case by (auto simp: map_filter_simps)
qed (simp_all add: map_filter_simps)

lemma any_refused_bound: "\<not> any_refused bound seen xs \<Longrightarrow> Some n \<in> set xs \<Longrightarrow> 0 \<le> n \<and> n < bound \<and> n \<notin> seen"
  by (induction bound seen xs rule: any_refused.induct) auto

lemma any_refused_distinct:
  "\<not> any_refused bound seen xs \<Longrightarrow> i < length xs \<Longrightarrow> j < length xs \<Longrightarrow> xs ! i = Some n \<Longrightarrow> xs ! j = Some n \<Longrightarrow> i = j"
proof (induction bound seen xs arbitrary: i j rule: any_refused.induct)
  case (2 bound seen rest)
  thus ?case by (cases i; cases j) auto
next
  case (3 bound seen k rest)
  have "Some k \<notin> set rest" using 3(2) any_refused_bound [of bound "insert k seen" rest k] by auto
  thus ?case using 3 by (cases i; cases j) (auto dest: nth_mem)
qed simp

lemma map_filter_take_drop:
  "set (List.map_filter f (take n xs @ drop (Suc n) xs)) \<subseteq> set (List.map_filter f xs)"
  by (auto simp: map_filter_def dest: in_set_takeD in_set_dropD)

lemma map_filter_append: "List.map_filter f (xs @ ys) = List.map_filter f xs @ List.map_filter f ys"
  by (simp add: map_filter_def)

lemma distinct_remove_nth:
  "distinct (List.map_filter f xs) \<Longrightarrow> distinct (List.map_filter f (take n xs @ drop (Suc n) xs))"
proof (cases "n < length xs")
  case True
  assume "distinct (List.map_filter f xs)"
  hence "distinct (List.map_filter f (take n xs @ xs ! n # drop (Suc n) xs))"
    using id_take_nth_drop [OF True] by simp
  thus ?thesis by (auto simp: map_filter_append map_filter_simps split: option.splits)
qed simp

lemma any_refused_remove:
  "\<not> any_refused bound seen xs \<Longrightarrow> \<not> any_refused bound seen (take n xs @ drop (Suc n) xs)"
  unfolding any_refused_iff using map_filter_take_drop [of "\<lambda>x. x" n xs] distinct_remove_nth by blast

lemma map_filter_pad [simp]: "List.map_filter (\<lambda>x. x) (xs @ replicate k None) = List.map_filter (\<lambda>x. x) xs"
  by (simp add: map_filter_def)

text \<open>A fresh number at a place without one.\<close>

lemma any_refused_new:
  assumes "\<not> any_refused bound {} xs" "i < length xs" "xs ! i = None" "0 \<le> bound"
  shows "\<not> any_refused (bound + 1) {} (xs[i := Some bound])"
proof -
  have "List.map_filter (\<lambda>x. x) (take i xs @ xs ! i # drop (Suc i) xs)
      = List.map_filter (\<lambda>x. x) (take i xs) @ List.map_filter (\<lambda>x. x) (drop (Suc i) xs)"
    by (simp add: map_filter_append map_filter_simps assms(3))
  hence e: "List.map_filter (\<lambda>x. x) xs
      = List.map_filter (\<lambda>x. x) (take i xs) @ List.map_filter (\<lambda>x. x) (drop (Suc i) xs)"
    by (simp only: id_take_nth_drop [OF assms(2), symmetric])
  have "List.map_filter (\<lambda>x. x) (xs[i := Some bound])
      = List.map_filter (\<lambda>x. x) (take i xs) @ bound # List.map_filter (\<lambda>x. x) (drop (Suc i) xs)"
    using assms(2) by (simp add: upd_conv_take_nth_drop map_filter_append map_filter_simps)
  thus ?thesis using assms(1,4) unfolding any_refused_iff e by (auto intro: less_imp_le)
qed

lemma any_refused_identities: "int k \<le> bound \<Longrightarrow> \<not> any_refused bound {} (map (\<lambda>n. Some (int n)) [0..<k])"
  by (auto simp: any_refused_iff map_filter_def comp_def distinct_map inj_on_def)

lemma env_uuid: "env_ok env \<Longrightarrow> uuid_parses env (uuid_at env n) \<and> uuid_at env n \<noteq> NO_MAP_EPOCH"
  unfolding env_ok_def by metis

lemma fresh_map_valid:
  assumes "env_ok env" "fresh_map env f num identities d = (Inr m, d')"
  shows "\<not> map_refused env f m \<and> pending m = None \<and> num \<le> MAP_MAX_ORDINALS"
proof -
  obtain b d1 ep where n: "num \<le> MAP_MAX_ORDINALS" and
    m: "m = \<lparr>map_version = PRACTICE_STORAGE_VERSION, map_file_id = f, epoch = ep,
                ordinals = map (\<lambda>n. if identities \<and> int n \<le> I32_MAX then Some (int n) else None) [0..<num],
                next_deck = max b (int num),
                legacy_superseded = \<not> identities, pending = None\<rparr>"
    and ep: "(if identities then return_io NO_MAP_EPOCH else new_uuid env) d1 = (Inr ep, d')"
    using assms(2) by (auto simp: fresh_map_def bind_io_eq_Inr Let_def split: if_splits)
  have "ep = NO_MAP_EPOCH \<and> identities \<or> uuid_parses env ep \<and> \<not> identities \<and> ep \<noteq> NO_MAP_EPOCH"
    using ep env_uuid [OF assms(1)] by (auto simp: new_uuid_def split: if_splits)
  moreover have "\<not> any_refused (max b (int num)) {} (map (\<lambda>n. if identities \<and> int n \<le> I32_MAX then Some (int n) else None) [0..<num])" for b
  proof (cases identities)
    case True
    have "map (\<lambda>n. if identities \<and> int n \<le> I32_MAX then Some (int n) else None) [0..<num] = map (\<lambda>n. Some (int n)) [0..<num]"
      using True n by (auto simp: I32_MAX_def MAP_MAX_ORDINALS_def)
    thus ?thesis by (simp only:) (rule any_refused_identities, simp)
  qed (simp add: any_refused_iff map_filter_def)
  ultimately show ?thesis using n by (auto simp: m map_refused_def)
qed

lemma pending_clear_valid: "\<not> map_refused env f m \<Longrightarrow> \<not> map_refused env f (m\<lparr>pending := None\<rparr>)"
  by (simp add: map_refused_def)

lemma apply_pending_safe:
  assumes "env_ok env" "\<not> map_refused env f m"
  shows "safe env f (apply_pending env m landed)"
proof (cases "pending m")
  case (Some p)
  have tail: "safe env f (bind_io (write_map env m') (\<lambda>_. case retired of None \<Rightarrow> return_io ()
      | Some number \<Rightarrow> bind_io (attempt (retire_deck env (map_file_id m') number)) (\<lambda>_. return_io ())))"
    if "\<not> map_refused env f m'" for m' retired
    using that assms(1)
    by (intro safe_bind write_map_safe)
      (auto split: option.splits intro!: safe_pure safe_keeps keep_intros keeps_retire)
  have landed: "\<not> map_refused env f (m\<lparr>pending := None, ordinals := kept, epoch := uuid_at env n, legacy_superseded := True\<rparr>)"
    if "kept = ordinals m \<or> (\<exists>n. kept = take n (ordinals m) @ drop (Suc n) (ordinals m))" for kept n
    using assms(2) that env_uuid [OF assms(1), of n] by (auto simp: map_refused_def dest: any_refused_remove)
  have kept: "\<not> map_refused env f (m\<lparr>pending := None, epoch := uuid_at env n, legacy_superseded := True\<rparr>)" for n
    using landed [of "ordinals m" n] by simp
  show ?thesis
    unfolding apply_pending_def Some option.case Let_def
    using pending_clear_valid [OF assms(2)]
    by (intro safe_bind)
      (auto simp: new_uuid_def bind_io_eq_Inr split: if_splits prod.splits
        intro!: safe_pure safe_keeps keep_intros reads_only_keeps [OF reads_only_prims(4)] tail landed simp: kept)
qed (simp add: apply_pending_def safe_pure)

subsection \<open>Faults\<close>

text \<open>The operating system reports a missing entry only for an entry that is missing.\<close>

definition honest :: "disk \<Rightarrow> bool" where
  "honest d \<longleftrightarrow> (\<forall>n. case fault_at d n of Fails e \<Rightarrow> \<not> is_missing_entry e | _ \<Rightarrow> True)"

lemma wp_map_err [wp_rules]: "wp (map_err g m) Q E d = wp m Q (\<lambda>e. E (g e)) d"
  by (auto simp: wp_def map_err_def attempt_def bind_io_def split: prod.splits sum.splits)

subsection \<open>A codec over a table of documents, for examples\<close>

definition table_to :: "'a list \<Rightarrow> 'a \<Rightarrow> bytes option" where
  "table_to table v = (let i = length (takeWhile (\<lambda>x. x \<noteq> v) table) in if i < length table then Some [of_nat i] else None)"

definition table_from :: "'a list \<Rightarrow> bytes \<Rightarrow> 'a option" where
  "table_from table bs = (case bs of [b] \<Rightarrow> if unat b < length table then Some (table ! unat b) else None | _ \<Rightarrow> None)"

lemma table_codec: "length table \<le> 256 \<Longrightarrow> table_to table v = Some bs \<Longrightarrow> table_from table bs = Some v"
  using nth_length_takeWhile [of "\<lambda>x. x \<noteq> v" table]
  by (auto simp: table_to_def table_from_def Let_def unat_of_nat split: if_splits)

end
