(* ===== verification/PracticeCalls.thy ===== *)
theory PracticeCalls
  imports PracticeMap "HOL-Library.Code_Target_Nat"
begin

text \<open>
  What each call on the deck map of a file does to the stored map and to the decks of the games, under
  any failures of the file system: an interrupted deletion is settled one way or the other, a new deck
  gets a new number, and the deletion that breaks the map.
\<close>

subsection \<open>What keeps the map readable\<close>

lemma safeD: "safe env f m \<Longrightarrow> map_readable env f d \<Longrightarrow> map_readable env f (snd (m d))"
  by (simp add: safe_def)

lemma safe_lock: "env_ok env \<Longrightarrow> safe env f m \<Longrightarrow> safe env f (with_map_lock env g m)"
  unfolding with_map_lock_def with_store_lock_def
proof (intro safe_bind)
  assume "env_ok env"
  thus "safe env f (open_or_create_regular_relative (lock_leaf (hash_file env g @ ''-map'')))"
    unfolding safe_def
    using map_readable_keeps [OF keeps_open_lock [OF map_leaf_other(4)]] by blast
qed (auto intro: safe_keeps reads_only_keeps reads_only_prims)

lemma reads_only_inspect: "reads_only (inspect_leaf env f e acc)"
  unfolding inspect_leaf_def
  by (auto intro!: reads_intros reads_only_read_json split: prod.splits option.splits owned_leaf.splits sum.splits
      simp: Let_def)

lemma reads_only_fresh_map: "reads_only (fresh_map env f num identities)"
  unfolding fresh_map_def file_deck_leaves_def Let_def
  by (auto intro!: reads_intros reads_only_prims reads_only_inspect)

lemma safe_reads: "safe env f (read_map env g)" "safe env f (fresh_map env g num identities)" "safe env f (new_uuid env')"
  by (intro safe_keeps reads_only_keeps reads_only_read_map reads_only_fresh_map reads_only_prims)+

lemma prepare_delete_safe:
  assumes "env_ok env" "ordinal < num" "num \<le> MAP_MAX_ORDINALS"
  shows "safe env f (prepare_delete_in env f ordinal num)"
proof -
  have "\<not> map_refused env f (m\<lparr>pending := Some \<lparr>pending_id = uuid_at env n, pending_ordinal = ordinal, pending_game_count = num\<rparr>\<rparr>)"
    if "\<not> map_refused env f m" for m n
    using that assms env_uuid [OF assms(1)] by (simp add: map_refused_def pending_refused_def)
  hence valid: "map_refused env f m" if "map_refused env f (m\<lparr>pending := Some \<lparr>pending_id = uuid_at env n, pending_ordinal = ordinal, pending_game_count = num\<rparr>\<rparr>)" for m n
    using that by blast
  show ?thesis
    unfolding prepare_delete_in_def using assms(1)
    by (intro safe_lock safe_bind safe_reads)
      (auto simp: new_uuid_def bind_io_eq_Inr split: option.splits
        dest!: valid dest: read_map_valid fresh_map_valid intro!: safe_bind safe_pure write_map_safe safe_reads)
qed

lemma resolve_delete_safe:
  assumes "env_ok env" "safe env f establish"
  shows "safe env f (resolve_pending_delete_in env f num establish)"
  unfolding resolve_pending_delete_in_def Let_def using assms
  by (intro safe_lock safe_bind safe_reads)
    (auto split: option.splits dest: read_map_valid intro!: safe_bind safe_pure apply_pending_safe)

lemma finish_delete_safe: "env_ok env \<Longrightarrow> safe env f (finish_delete_in env f pid landed)"
  unfolding finish_delete_in_def
  by (intro safe_lock safe_bind safe_reads)
    (auto simp: ok_or_def split: option.splits dest: read_map_valid intro!: safe_bind safe_pure apply_pending_safe)

text \<open>The map after a deck was given to a game that had none.\<close>

definition with_new_deck :: "nat \<Rightarrow> file_deck_map \<Rightarrow> file_deck_map" where
  "with_new_deck index m = m\<lparr>next_deck := next_deck m + 1,
     ordinals := (ordinals m @ replicate (index + 1 - length (ordinals m)) None)[index := Some (next_deck m)]\<rparr>"

lemma ordinal_at_none:
  "ordinal_at m i = None \<Longrightarrow> i < length (ordinals m @ replicate k None) \<Longrightarrow> (ordinals m @ replicate k None) ! i = None"
  by (auto simp: ordinal_at_def nth_append split: if_splits)

lemma new_deck_valid:
  assumes "\<not> map_refused env f m" "ordinal_at m index = None" "index < MAP_MAX_ORDINALS"
  shows "\<not> map_refused env f (with_new_deck index m)"
proof -
  let ?xs = "ordinals m @ replicate (index + 1 - length (ordinals m)) None"
  have "\<not> any_refused (next_deck m) {} ?xs"
    using assms(1) by (simp add: map_refused_def any_refused_iff)
  hence "\<not> any_refused (next_deck m + 1) {} (?xs[index := Some (next_deck m)])"
    using assms(1) by (intro any_refused_new ordinal_at_none [OF assms(2)]) (auto simp: map_refused_def)
  thus ?thesis using assms by (auto simp: map_refused_def with_new_deck_def)
qed

lemma mapped_ordinal_Inr: "mapped_ordinal ordinal = Inr i \<Longrightarrow> i < MAP_MAX_ORDINALS \<and> ordinal = int i"
  by (auto simp: mapped_ordinal_def split: if_splits)

lemma map_err_Inr: "map_err g m d = (Inr x, d') \<Longrightarrow> m d = (Inr x, d')"
  by (auto simp: map_err_def attempt_def bind_io_eq_Inr split: prod.splits sum.splits)

text \<open>An operation on the deck of a game is the resolution of its number, then the operation.\<close>

lemma bind_map_lock: "bind_io (with_map_lock env f m) k = with_map_lock env f (bind_io m k)"
  by (simp add: with_map_lock_def with_store_lock_def bind_io_assoc)

lemma mapped_deck_bind:
  "with_mapped_deck env f ordinal expected create operation =
     bind_io (with_mapped_deck env f ordinal expected create (\<lambda>n ep s. return_io (n, ep, s)))
       (\<lambda>(n, ep, s). operation n ep s)"
  by (simp add: with_mapped_deck_def bind_map_lock bind_io_assoc case_prod_unfold)

lemma mapped_deck_safe:
  assumes "env_ok env" "\<And>n ep s. safe env f (operation n ep s)"
  shows "safe env f (with_mapped_deck env f ordinal expected create operation)"
proof -
  have "safe env f (resolve_mapped_deck env f ordinal index expected create)" if "index < MAP_MAX_ORDINALS" for index
    unfolding resolve_mapped_deck_def Let_def with_new_deck_def [symmetric]
    using that assms(1)
    by (intro safe_bind safe_keeps [OF keep.map_err] reads_only_keeps [OF reads_only_read_map])
      (auto split: option.splits dest!: map_err_Inr read_map_valid dest: new_deck_valid
        intro!: safe_bind safe_pure write_map_safe)
  thus ?thesis
    unfolding with_mapped_deck_def using assms
    by (intro safe_bind safe_lock) (auto intro!: safe_pure safe_bind safe_lock dest: mapped_ordinal_Inr)
qed

subsection \<open>What the calls do to the stored map\<close>

definition stored_map :: "('e map_env_scheme) \<Rightarrow> string \<Rightarrow> disk \<Rightarrow> file_deck_map option" where
  "stored_map env f d =
     (case map_of (leaves d) (map_leaf env f) of Some (RegularFile bs) \<Rightarrow> map_from_slice env bs | _ \<Rightarrow> None)"

text \<open>The stored map is one of those allowed, and the faults to come are as before.\<close>

definition leaves_map :: "('e map_env_scheme) \<Rightarrow> string \<Rightarrow> disk \<Rightarrow> (file_deck_map \<Rightarrow> bool) \<Rightarrow> disk \<Rightarrow> bool" where
  "leaves_map env f d P d' \<longleftrightarrow> fault_at d' = fault_at d \<and> (\<exists>m. stored_map env f d' = Some m \<and> P m)"

definition map_kept :: "('e map_env_scheme) \<Rightarrow> string \<Rightarrow> disk \<Rightarrow> disk \<Rightarrow> bool" where
  "map_kept env f d d' \<longleftrightarrow>
     stored_map env f d' = stored_map env f d \<and> fault_at d' = fault_at d \<and> honest d' = honest d
     \<and> map_readable env f d' = map_readable env f d"

lemma same_leaf_stored: "same_leaf (map_leaf env f) d d' \<Longrightarrow> map_kept env f d d'"
  by (simp add: same_leaf_def stored_map_def honest_def map_readable_def map_kept_def)

lemma wp_keeps:
  assumes "keeps (map_leaf env f) m"
    "\<And>x d'. map_kept env f d d' \<Longrightarrow> Q x d'"
    "\<And>e d'. map_kept env f d d' \<Longrightarrow> E e d'"
  shows "wp m Q E d"
proof -
  have "same_leaf (map_leaf env f) d (snd (m d))" using assms(1) by (simp add: frame_def)
  hence "map_kept env f d (snd (m d))" by (rule same_leaf_stored)
  thus ?thesis using assms(2,3) by (auto simp: wp_def split: prod.splits sum.splits)
qed

lemma wp_map_lock:
  assumes "env_ok env"
    "\<And>d'. map_kept env f d d' \<Longrightarrow> wp m Q E d'"
    "\<And>e d'. map_kept env f d d' \<Longrightarrow> E e d'"
  shows "wp (with_map_lock env f m) Q E d"
proof -
  have "keeps (map_leaf env f) (bind_io (open_or_create_regular_relative (lock_leaf (hash_file env f @ ''-map''))) (\<lambda>_. lock_advisory_file))"
    by (intro keep.bind keeps_open_lock map_leaf_other assms(1) reads_only_keeps reads_only_prims)
  hence "wp (bind_io (bind_io (open_or_create_regular_relative (lock_leaf (hash_file env f @ ''-map''))) (\<lambda>_. lock_advisory_file)) (\<lambda>_. m)) Q E d"
    by (subst wp_bind) (rule wp_keeps, assumption, auto intro: assms(2,3))
  thus ?thesis by (simp add: with_map_lock_def with_store_lock_def bind_io_assoc)
qed

lemma read_map_result:
  assumes "honest d" "map_readable env f d" "read_map env f d = (Inr r, d')"
  shows "r = stored_map env f d"
  using assms
  by (auto simp: read_map_def read_json_def read_leaf_bytes_def open_regular_relative_def file_len_def
      read_bounded_bytes_def map_err_def faulty_def next_fault_def bind_io_eq_Inr attempt_def honest_def
      stored_map_def map_readable_def missing_entry_def not_regular_def
      split: option.splits dir_entry.splits fault.splits if_splits prod.splits sum.splits dest!: spec [of _ "ops_done d"])

lemma wp_read_map:
  assumes "honest d" "map_readable env f d"
    "\<And>d'. map_kept env f d d' \<Longrightarrow> (\<And>m. stored_map env f d = Some m \<Longrightarrow> \<not> map_refused env f m) \<Longrightarrow> Q (stored_map env f d) d'"
    "\<And>e d'. map_kept env f d d' \<Longrightarrow> E e d'"
  shows "wp (read_map env f) Q E d"
proof -
  have "same_leaf (map_leaf env f) d (snd (read_map env f d))"
    using reads_only_keeps [OF reads_only_read_map, of "map_leaf env f" env f] by (simp add: frame_def)
  hence "map_kept env f d (snd (read_map env f d))" by (rule same_leaf_stored)
  thus ?thesis
    using assms(3,4) read_map_result [OF assms(1,2)] read_map_valid [of env f d]
    by (cases "read_map env f d") (auto simp: wp_def split: sum.splits)
qed

lemma wp_write_map:
  assumes "env_ok env" "map_file_id m = f"
    "\<And>d'. stored_map env f d' = Some m \<and> fault_at d' = fault_at d \<Longrightarrow> Q () d'"
    "\<And>e d'. (stored_map env f d' = stored_map env f d \<or> stored_map env f d' = Some m) \<and> fault_at d' = fault_at d \<Longrightarrow> E e d'"
  shows "wp (write_map env m) Q E d"
proof (cases "map_to_vec env m")
  case None
  thus ?thesis using assms by (simp add: write_map_def Let_def wp_def)
next
  case (Some bs)
  have "map_from_slice env bs = Some m" using assms(1) Some by (simp add: env_ok_def)
  thus ?thesis using Some assms(2-4)
    by (auto simp: write_map_def Let_def write_json_def write_json_bytes_def map_err_def atomic_replace_leaf_def
          next_fault_def bind_io_def attempt_def stored_map_def AList.update_conv' wp_def
          split: fault.splits if_splits)
qed

subsection \<open>Deletions\<close>

text \<open>The map once a pending deletion is settled; a landed one moves the later games down.\<close>

definition settled :: "file_deck_map \<Rightarrow> bool \<Rightarrow> string \<Rightarrow> file_deck_map" where
  "settled m landed ep =
     (case pending m of
        None \<Rightarrow> m
      | Some p \<Rightarrow>
          if landed
          then m\<lparr>pending := None, ordinals := take (pending_ordinal p) (ordinals m) @ drop (Suc (pending_ordinal p)) (ordinals m),
                 epoch := ep, legacy_superseded := True\<rparr>
          else m\<lparr>pending := None\<rparr>)"

lemma wp_new_uuid [wp_rules]: "wp (new_uuid env) Q E d = Q (uuid_at env (uuids_drawn d)) (d\<lparr>uuids_drawn := Suc (uuids_drawn d)\<rparr>)"
  by (simp add: wp_def new_uuid_def)

lemma stored_map_uuids [simp]: "stored_map env f (d\<lparr>uuids_drawn := n\<rparr>) = stored_map env f d"
  by (simp add: stored_map_def)

lemma wp_apply_pending:
  assumes "env_ok env" "map_file_id m = f" "stored_map env f d = Some m"
  shows "wp (apply_pending env m landed)
     (\<lambda>_. leaves_map env f d (\<lambda>m'. \<exists>n. m' = settled m landed (uuid_at env n)))
     (\<lambda>_. leaves_map env f d (\<lambda>m'. m' = m \<or> (\<exists>n. m' = settled m landed (uuid_at env n)))) d"
proof (cases "pending m")
  case None
  thus ?thesis using assms(3) by (simp add: apply_pending_def wp_rules leaves_map_def settled_def)
next
  case (Some p)
  have tail: "wp (bind_io (write_map env m') (\<lambda>_. case retired of None \<Rightarrow> return_io ()
      | Some number \<Rightarrow> bind_io (attempt (retire_deck env (map_file_id m') number)) (\<lambda>_. return_io ())))
     (\<lambda>_. leaves_map env f d (\<lambda>m'. \<exists>n. m' = settled m landed (uuid_at env n)))
     (\<lambda>_. leaves_map env f d (\<lambda>m'. m' = m \<or> (\<exists>n. m' = settled m landed (uuid_at env n)))) d'"
    if "m' = settled m landed (uuid_at env n)" "stored_map env f d' = Some m \<and> fault_at d' = fault_at d" "map_file_id m' = f"
    for m' n d' retired
  proof -
    have "keeps (map_leaf env f) (case retired of None \<Rightarrow> return_io ()
      | Some number \<Rightarrow> bind_io (attempt (retire_deck env (map_file_id m') number)) (\<lambda>_. return_io ()))"
      using assms(1) by (auto split: option.splits intro!: keep_intros keeps_retire)
    note after = wp_keeps [OF this]
    show ?thesis
      unfolding wp_bind using that
      by (intro wp_write_map [OF assms(1) that(3)] after) (auto simp: leaves_map_def map_kept_def)
  qed
  let ?kept = "if pending_ordinal p < length (ordinals m)
      then (ordinals m ! pending_ordinal p, take (pending_ordinal p) (ordinals m) @ drop (Suc (pending_ordinal p)) (ordinals m))
      else (None, ordinals m)"
  have shown: "apply_pending env m landed =
     bind_io (if landed
              then bind_io (new_uuid env) (\<lambda>ep. return_io (fst ?kept, settled m True ep))
              else return_io (None, settled m False ep)) (\<lambda>(retired, m).
       bind_io (write_map env m) (\<lambda>_. case retired of None \<Rightarrow> return_io ()
         | Some number \<Rightarrow> bind_io (attempt (retire_deck env (map_file_id m) number)) (\<lambda>_. return_io ())))" for ep
    by (simp add: apply_pending_def settled_def Some Let_def)
  have file_id: "map_file_id (settled m landed ep) = f" for landed ep
    using assms(2) by (simp add: settled_def Some)
  have start: "wp (if landed
        then bind_io (new_uuid env) (\<lambda>ep. return_io (fst ?kept, settled m True ep))
        else return_io (None, settled m False (uuid_at env 0)))
      (\<lambda>(_, m') d'. (\<exists>n. m' = settled m landed (uuid_at env n)) \<and> stored_map env f d' = Some m \<and> fault_at d' = fault_at d)
      (\<lambda>_ _. False) d"
    using assms(3) by (cases landed) (auto simp: wp_bind wp_return wp_new_uuid)
  show ?thesis
    unfolding shown [of "uuid_at env 0"]
    by (subst wp_bind) (rule wp_mono [OF start], auto intro!: tail file_id)
qed

lemma valid_file_id: "\<not> map_refused env f m \<Longrightarrow> map_file_id m = f"
  by (simp add: map_refused_def)

lemma leaves_map_kept: "map_kept env f d d1 \<Longrightarrow> leaves_map env f d1 P = leaves_map env f d P"
  by (simp add: fun_eq_iff leaves_map_def map_kept_def)

lemma leaves_map_mono: "leaves_map env f d P d' \<Longrightarrow> (\<And>m. P m \<Longrightarrow> Q m) \<Longrightarrow> leaves_map env f d Q d'"
  by (auto simp: leaves_map_def)

lemma wp_settle_pending:
  assumes "env_ok env" "\<not> map_refused env f m" "stored_map env f d = Some m" "fault_at d = fault_at d0"
  shows "wp (apply_pending env m landed)
     (\<lambda>_. leaves_map env f d0 (\<lambda>m'. \<exists>n. m' = settled m landed (uuid_at env n)))
     (\<lambda>_. leaves_map env f d0 (\<lambda>m'. m' = m \<or> (\<exists>n. m' = settled m landed (uuid_at env n)))) d"
  using wp_apply_pending [OF assms(1) valid_file_id [OF assms(2)] assms(3), of landed] assms(4)
  by (auto simp: leaves_map_def elim!: wp_mono)

lemma wp_resolve:
  assumes "env_ok env" "honest d" "map_readable env f d" "stored_map env f d = Some m" "pending m = Some p"
  shows "wp (resolve_pending_delete_in env f num (of_result synced))
     (\<lambda>_. leaves_map env f d (\<lambda>m'. \<exists>n. m' = settled m (num + 1 = pending_game_count p) (uuid_at env n)))
     (\<lambda>_. leaves_map env f d (\<lambda>m'. m' = m \<or> (\<exists>n. m' = settled m (num + 1 = pending_game_count p) (uuid_at env n)))) d"
proof -
  define L where "L = (num + 1 = pending_game_count p)"
  have landed: "(0 < pending_game_count p \<and> pending_game_count p - 1 = num) = L"
    unfolding L_def by arith
  have body: "wp (bind_io (if L then of_result synced else return_io ()) (\<lambda>_. apply_pending env m L))
     (\<lambda>_. leaves_map env f d (\<lambda>m'. \<exists>n. m' = settled m L (uuid_at env n)))
     (\<lambda>_. leaves_map env f d (\<lambda>m'. m' = m \<or> (\<exists>n. m' = settled m L (uuid_at env n)))) d'"
    if "stored_map env f d' = Some m" "fault_at d' = fault_at d" "\<not> map_refused env f m" for d'
    using wp_settle_pending [OF assms(1) that(3,1,2)] that
    by (subst wp_bind) (auto simp: wp_of_result wp_return leaves_map_def split: sum.splits)
  show ?thesis
    unfolding resolve_pending_delete_in_def Let_def L_def [symmetric]
    by (rule wp_map_lock [OF assms(1)], subst wp_bind, rule wp_read_map)
      (simp_all add: map_kept_def assms landed [simplified] body leaves_map_def split del: if_split)
qed

lemma wp_finish:
  assumes "env_ok env" "honest d" "map_readable env f d" "stored_map env f d = Some m"
  shows "wp (finish_delete_in env f pid landed)
     (\<lambda>_. leaves_map env f d (\<lambda>m'. if map_option pending_id (pending m) = Some pid
        then \<exists>n. m' = settled m landed (uuid_at env n) else m' = m))
     (\<lambda>_. leaves_map env f d (\<lambda>m'. m' = m
        \<or> map_option pending_id (pending m) = Some pid \<and> (\<exists>n. m' = settled m landed (uuid_at env n)))) d"
  unfolding finish_delete_in_def
  by (rule wp_map_lock [OF assms(1)], subst wp_bind, rule wp_read_map)
    (auto simp: map_kept_def assms wp_return leaves_map_def split: option.splits
      intro!: wp_mono [OF wp_settle_pending [OF assms(1), of f m _ d]])

lemma wp_prepare:
  assumes "env_ok env" "honest d" "map_readable env f d" "stored_map env f d = Some m"
  shows "wp (prepare_delete_in env f ordinal num)
     (\<lambda>pid. leaves_map env f d (\<lambda>m'. pending m = None \<and>
        m' = m\<lparr>pending := Some \<lparr>pending_id = pid, pending_ordinal = ordinal, pending_game_count = num\<rparr>\<rparr>))
     (\<lambda>_. leaves_map env f d (\<lambda>m'. \<exists>p. m' = m \<or> pending m = None \<and> m' = m\<lparr>pending := Some p\<rparr>)) d"
  unfolding prepare_delete_in_def
  by (rule wp_map_lock [OF assms(1)], subst wp_bind, rule wp_read_map)
    (auto simp: map_kept_def assms wp_return wp_bind wp_throw wp_new_uuid leaves_map_def
      intro!: wp_write_map [OF assms(1), where f = f] dest: valid_file_id)

lemma with_new_deck_fields [simp]:
  "map_file_id (with_new_deck i m) = map_file_id m" "epoch (with_new_deck i m) = epoch m"
  "legacy_superseded (with_new_deck i m) = legacy_superseded m" "pending (with_new_deck i m) = pending m"
  "next_deck (with_new_deck i m) = next_deck m + 1"
  by (simp_all add: with_new_deck_def)

lemma wp_mapped_deck:
  assumes "env_ok env" "honest d" "map_readable env f d" "stored_map env f d = Some m"
  shows "wp (with_mapped_deck env f ordinal expected create (\<lambda>n ep s. return_io (n, ep, s)))
     (\<lambda>r. leaves_map env f d (\<lambda>m'. 0 \<le> ordinal \<and> pending m = None
        \<and> r = (ordinal_at m' (nat ordinal), epoch m, legacy_superseded m)
        \<and> m' = (if create \<and> ordinal_at m (nat ordinal) = None then with_new_deck (nat ordinal) m else m)))
     (\<lambda>_. leaves_map env f d (\<lambda>m'. m' = m
        \<or> 0 \<le> ordinal \<and> create \<and> ordinal_at m (nat ordinal) = None \<and> m' = with_new_deck (nat ordinal) m)) d"
proof (cases "mapped_ordinal ordinal")
  case (Inl e)
  thus ?thesis using assms by (simp add: with_mapped_deck_def wp_throw leaves_map_def)
next
  case (Inr i)
  have i: "ordinal = int i" using mapped_ordinal_Inr [OF Inr] by simp
  show ?thesis
    unfolding with_mapped_deck_def resolve_mapped_deck_def Let_def Inr with_new_deck_def [symmetric]
    apply (simp only: bind_io_of_result)
    apply (rule wp_map_lock [OF assms(1)])
     apply (subst wp_bind, subst wp_bind, subst wp_map_err)
     apply (rule wp_read_map)
    by (auto simp: map_kept_def assms i wp_return wp_bind wp_throw leaves_map_def map_epoch_def
      intro!: wp_write_map [OF assms(1), where f = f] dest: valid_file_id split: option.splits)
qed

subsection \<open>Properties\<close>

lemma ordinal_at_settled:
  "pending m = Some p \<Longrightarrow> ordinal_at (settled m True ep) i = ordinal_at m (if i < pending_ordinal p then i else i + 1)"
  by (auto simp: ordinal_at_def settled_def nth_append)

lemma ordinal_at_new_deck:
  "ordinal_at (with_new_deck i m) j = (if j = i then Some (next_deck m) else ordinal_at m j)"
  by (auto simp: ordinal_at_def with_new_deck_def nth_append nth_list_update)

text \<open>C33. Resolving an interrupted deletion, whatever fails: the map is either still the one with the
  pending record or the settled one, and it is settled when the call succeeds. Settled means: when
  the file has exactly one game less than recorded, the games after the deleted one move down by
  one with their decks and the epoch is a new one; otherwise the map is as before the deletion.\<close>

theorem interrupted_delete_resolves:
  assumes "env_ok env" "honest d" "map_readable env f d" "stored_map env f d = Some m" "pending m = Some p"
    "resolve_pending_delete_in env f num (of_result synced) d = (r, d')"
  shows "\<exists>m'. stored_map env f d' = Some m' \<and>
     (m' = m \<and> r \<noteq> Inr ()
      \<or> pending m' = None \<and> next_deck m' = next_deck m
        \<and> (if num + 1 = pending_game_count p
           then (\<exists>n. epoch m' = uuid_at env n)
             \<and> (\<forall>i. ordinal_at m' i = ordinal_at m (if i < pending_ordinal p then i else i + 1))
           else m' = m\<lparr>pending := None\<rparr>))"
proof -
  let ?L = "num + 1 = pending_game_count p"
  have settled: "pending (settled m ?L ep) = None \<and> next_deck (settled m ?L ep) = next_deck m
      \<and> (if ?L then epoch (settled m ?L ep) = ep \<and> (\<forall>i. ordinal_at (settled m ?L ep) i = ordinal_at m (if i < pending_ordinal p then i else i + 1))
         else settled m ?L ep = m\<lparr>pending := None\<rparr>)" for ep
    using ordinal_at_settled [OF assms(5), of ep] by (auto simp: settled_def assms(5))
  have "\<exists>m'. stored_map env f d' = Some m' \<and> (m' = m \<and> r \<noteq> Inr () \<or> (\<exists>n. m' = settled m ?L (uuid_at env n)))"
    using wp_resolve [OF assms(1-5), of num synced] assms(6)
    by (cases r) (auto simp: wp_def leaves_map_def)
  thus ?thesis using settled by (metis (no_types, lifting))
qed

text \<open>A deletion prepared and then finished: when the edit landed every other game keeps its deck,
  and when it did not the map is the one before, epoch included.\<close>

theorem prepared_delete_finishes:
  assumes "env_ok env" "honest d" "map_readable env f d" "stored_map env f d = Some m"
    "ordinal < num" "num \<le> MAP_MAX_ORDINALS"
    "prepare_delete_in env f ordinal num d = (Inr pid, d1)" "finish_delete_in env f pid landed d1 = (Inr (), d2)"
  shows "\<exists>m'. stored_map env f d2 = Some m' \<and>
     (if landed
      then pending m' = None \<and> (\<forall>i. ordinal_at m' i = ordinal_at m (if i < ordinal then i else i + 1))
      else m' = m)"
proof -
  let ?p = "\<lparr>pending_id = pid, pending_ordinal = ordinal, pending_game_count = num\<rparr>"
  have d1: "pending m = None" "stored_map env f d1 = Some (m\<lparr>pending := Some ?p\<rparr>)" "fault_at d1 = fault_at d"
    using wp_Inr [OF wp_prepare [OF assms(1-4)] assms(7)] by (auto simp: leaves_map_def)
  have "map_readable env f d1"
    using prepare_delete_safe [OF assms(1,5,6)] assms(3,7) by (metis safe_def snd_conv)
  moreover have "honest d1" using assms(2) d1(3) by (simp add: honest_def)
  ultimately obtain n where "stored_map env f d2 = Some (settled (m\<lparr>pending := Some ?p\<rparr>) landed (uuid_at env n))"
    using wp_Inr [OF wp_finish [OF assms(1) _ _ d1(2)] assms(8)] by (auto simp: leaves_map_def)
  moreover have "ordinal_at (m\<lparr>pending := Some ?p\<rparr>) i = ordinal_at m i" for i by (simp add: ordinal_at_def)
  moreover have "m\<lparr>pending := None\<rparr> = m" using d1(1) by simp
  ultimately show ?thesis
    using ordinal_at_settled [of "m\<lparr>pending := Some ?p\<rparr>" ?p] d1(1) by (auto simp: settled_def)
qed

text \<open>Asking for the deck of a game and creating it: the call answers the number stored for the game
  afterwards, a game that had a deck keeps it, no other game is touched, and a new number is held by no
  other game.\<close>

theorem mapped_deck_created:
  assumes "env_ok env" "honest d" "map_readable env f d" "stored_map env f d = Some m"
    "with_mapped_deck env f ordinal expected True (\<lambda>n ep s. return_io (n, ep, s)) d = (Inr (number, ep, superseded), d')"
  shows "\<exists>m' k. stored_map env f d' = Some m' \<and> number = Some k \<and> ep = epoch m \<and> epoch m' = epoch m
     \<and> (\<forall>j. ordinal_at m' j = (if j = nat ordinal then Some k else ordinal_at m j))
     \<and> (\<forall>k'. ordinal_at m (nat ordinal) = Some k' \<longrightarrow> m' = m \<and> k = k')
     \<and> (\<forall>j. j \<noteq> nat ordinal \<longrightarrow> ordinal_at m' j \<noteq> Some k)"
proof -
  let ?i = "nat ordinal"
  let ?m = "if ordinal_at m ?i = None then with_new_deck ?i m else m"
  have st: "stored_map env f d' = Some ?m" "number = ordinal_at ?m ?i" "ep = epoch m"
    using wp_Inr [OF wp_mapped_deck [OF assms(1-4)] assms(5)] by (auto simp: leaves_map_def)
  have "\<not> map_refused env f m" using assms(3,4)
    by (auto simp: map_readable_def stored_map_def split: option.splits dir_entry.splits)
  hence r: "\<not> any_refused (next_deck m) {} (ordinals m)" by (simp add: map_refused_def)
  have below: "k < next_deck m" if "ordinal_at m j = Some k" for j k
    using any_refused_bound [OF r] that nth_mem by (fastforce simp: ordinal_at_def split: if_splits)
  show ?thesis
  proof (cases "ordinal_at m ?i")
    case None
    show ?thesis using st below None by (fastforce simp: ordinal_at_new_deck)
  next
    case (Some k)
    have "ordinal_at m j \<noteq> Some k" if "j \<noteq> ?i" for j
      using any_refused_distinct [OF r, of j ?i] Some that by (auto simp: ordinal_at_def split: if_splits)
    thus ?thesis using st Some by auto
  qed
qed


subsection \<open>Examples\<close>

text \<open>Concrete stand-ins for the crates: a codec over a table of maps, hashes that only tell lengths
  apart, and numbered UUIDs.\<close>

definition table_env :: "file_deck_map list \<Rightarrow> map_env" where
  "table_env table =
     \<lparr>sha256 = (\<lambda>bs. replicate 63 CHR ''0'' @ [if even (length bs) then CHR ''a'' else CHR ''b'']),
      uuid_at = show_nat,
      uuid_parses = (\<lambda>s. s \<noteq> [] \<and> list_all is_ascii_digit s),
      map_to_vec = table_to table,
      map_from_slice = table_from table,
      value_from_slice = (\<lambda>_. None)\<rparr>"

lemma table_env_ok:
  assumes "length table \<le> 256"
  shows "env_ok (table_env table)"
proof -
  have "valid_hash (sha256 (table_env table) bs)" for bs
    by (simp add: table_env_def valid_hash_def is_lower_hex_def is_ascii_digit_def list_all_iff)
  moreover have "uuid_parses (table_env table) (show_nat n)" for n
    using show_nat_digits [of _ n] show_nat_nonempty [of n] by (auto simp: table_env_def list_all_iff)
  moreover have "\<not> uuid_parses (table_env table) NO_MAP_EPOCH"
    by (simp add: table_env_def NO_MAP_EPOCH_def is_ascii_digit_def)
  moreover have "map_from_slice (table_env table) bs = Some m" if "map_to_vec (table_env table) m = Some bs" for m bs
    using that table_codec [OF assms] by (simp add: table_env_def)
  ultimately show ?thesis by (simp add: env_ok_def) (simp add: table_env_def)
qed

definition example_map :: file_deck_map where
  "example_map = \<lparr>map_version = 1, map_file_id = ''f'', epoch = ''no-map'', ordinals = [Some 0, Some 1, Some 2],
     next_deck = 3, legacy_superseded = False, pending = None\<rparr>"

definition example_pending :: "nat \<Rightarrow> file_deck_map" where
  "example_pending num = example_map\<lparr>pending := Some \<lparr>pending_id = ''0'', pending_ordinal = 1, pending_game_count = num\<rparr>\<rparr>"

definition example_deleted :: "string \<Rightarrow> file_deck_map" where
  "example_deleted ep = example_map\<lparr>ordinals := [Some 0, Some 2], epoch := ep, legacy_superseded := True\<rparr>"

definition example_env :: map_env where
  "example_env = table_env [example_map, example_pending 3, example_deleted ''1'', example_deleted ''0'',
     with_new_deck 4 example_map, example_pending 1000001]"

definition example_disk :: "u8 \<Rightarrow> disk" where
  "example_disk b = \<lparr>leaves = [(map_leaf example_env ''f'', RegularFile [b])], fault_at = (\<lambda>_. NoFault), ops_done = 0, uuids_drawn = 0\<rparr>"

lemmas example_defs = example_env_def example_disk_def table_env_def example_map_def example_pending_def example_deleted_def

lemma example_env_ok: "env_ok example_env"
  unfolding example_env_def by (rule table_env_ok) simp

lemma example_honest: "honest (example_disk b)"
  by (simp add: honest_def example_disk_def)

lemma example_stored:
  "stored_map example_env ''f'' (example_disk 0) = Some example_map"
  "stored_map example_env ''f'' (example_disk 1) = Some (example_pending 3)"
  by (simp_all add: stored_map_def example_disk_def) (simp_all add: example_env_def table_env_def table_from_def)

lemma example_readable:
  "map_readable example_env ''f'' (example_disk 0)" "map_readable example_env ''f'' (example_disk 1)"
  by code_simp+

lemma example_prepare:
  "fst (prepare_delete_in example_env ''f'' 1 3 (example_disk 0)) = Inr ''0''" 
  by code_simp


lemma example_resolve: "fst (resolve_pending_delete_in example_env ''f'' 2 (of_result (Inr ())) (example_disk 1)) = Inr ()"
  by code_simp

theorem interrupted_delete_resolves_witness:
  "\<exists>d' m'. resolve_pending_delete_in example_env ''f'' 2 (of_result (Inr ())) (example_disk 1) = (Inr (), d')
     \<and> stored_map example_env ''f'' d' = Some m' \<and> pending m' = None
     \<and> (\<forall>i. ordinal_at m' i = ordinal_at (example_pending 3) (if i < 1 then i else i + 1))"
proof -
  let ?run = "resolve_pending_delete_in example_env ''f'' 2 (of_result (Inr ())) (example_disk 1)"
  have run: "?run = (Inr (), snd ?run)" using example_resolve by (metis prod.collapse)
  have p: "pending (example_pending 3) = Some \<lparr>pending_id = ''0'', pending_ordinal = 1, pending_game_count = 3\<rparr>"
    by (simp add: example_pending_def)
  show ?thesis
    using run interrupted_delete_resolves [OF example_env_ok example_honest example_readable(2) example_stored(2) p run]
    by auto
qed

lemma example_finish: "fst (finish_delete_in example_env ''f'' ''0'' True (snd (prepare_delete_in example_env ''f'' 1 3 (example_disk 0)))) = Inr ()"
  by code_simp

theorem prepared_delete_finishes_witness:
  "\<exists>d1 d2 m'. prepare_delete_in example_env ''f'' 1 3 (example_disk 0) = (Inr ''0'', d1)
     \<and> finish_delete_in example_env ''f'' ''0'' True d1 = (Inr (), d2)
     \<and> stored_map example_env ''f'' d2 = Some m' \<and> pending m' = None
     \<and> (\<forall>i. ordinal_at m' i = ordinal_at example_map (if i < 1 then i else i + 1))"
proof -
  obtain d1 where p: "prepare_delete_in example_env ''f'' 1 3 (example_disk 0) = (Inr ''0'', d1)"
    using example_prepare by (metis prod.collapse)
  obtain d2 where f: "finish_delete_in example_env ''f'' ''0'' True d1 = (Inr (), d2)"
    using example_finish p by (metis prod.collapse snd_conv)
  show ?thesis
    using p f prepared_delete_finishes [OF example_env_ok example_honest example_readable(1) example_stored(1) _ _ p f]
    by (auto simp: MAP_MAX_ORDINALS_def)
qed

lemma example_deck: "fst (with_mapped_deck example_env ''f'' 4 None True (\<lambda>n ep s. return_io (n, ep, s)) (example_disk 0))
    = Inr (Some 3, ''no-map'', False)"
  by code_simp

theorem mapped_deck_created_witness:
  "\<exists>d' m'. with_mapped_deck example_env ''f'' 4 None True (\<lambda>n ep s. return_io (n, ep, s)) (example_disk 0)
       = (Inr (Some 3, ''no-map'', False), d')
     \<and> stored_map example_env ''f'' d' = Some m' \<and> (\<forall>j. j \<noteq> 4 \<longrightarrow> ordinal_at m' j \<noteq> Some 3)"
proof -
  obtain d' where r: "with_mapped_deck example_env ''f'' 4 None True (\<lambda>n ep s. return_io (n, ep, s)) (example_disk 0)
       = (Inr (Some 3, ''no-map'', False), d')"
    using example_deck by (metis prod.collapse)
  show ?thesis
    using r mapped_deck_created [OF example_env_ok example_honest example_readable(1) example_stored(1) r] by auto
qed


end
