(* ===== verification/PracticeDeck.thy ===== *)
theory PracticeDeck
  imports PracticeMap "HOL-Library.List_Lexorder" "HOL-Library.Char_ord"
begin

text \<open>
  The decks of the practice store (\<^verbatim>\<open>practice.rs\<close>): the positions document of a deck, its review
  history in sealed shards, their validation, and the operations on them: load, record a review,
  synchronise the positions, reset, page through the history, acknowledge orphaned reviews. The
  shard of a review is written before the positions document that counts it, so a crash between
  the two leaves an orphaned review, which the validation counts.
\<close>

subsection \<open>Data\<close>

definition PRACTICE_SHARD_SEAL_BYTES :: nat where "PRACTICE_SHARD_SEAL_BYTES = 128 * 1024"
definition PRACTICE_ENTRY_MAX_BYTES :: nat where "PRACTICE_ENTRY_MAX_BYTES = 16 * 1024"
definition PRACTICE_READ_MAX_ENTRIES :: u32 where "PRACTICE_READ_MAX_ENTRIES = 500"
definition PRACTICE_ID_MAX_BYTES :: nat where "PRACTICE_ID_MAX_BYTES = 64"

datatype legacy_source = LocalStorage | NoLegacy

record positions_envelope =
  pos_version :: u32
  pos_file_id :: string
  pos_game :: int
  pos_revision :: u32
  pos_generation :: u32
  last_entry_id :: "string option"
  last_entry_digest :: "string option"
  applied_entries :: u32
  orphan_entries :: u32
  orphan_acknowledged_count :: u32
  legacy_source_of :: legacy_source
  migrated_at :: "string option"
  migrated_entries :: "u32 option"
  migrated_positions_digest :: "string option"
  positions :: "json list"

record review_shard_entry =
  review_id :: string
  rev_of :: u32
  review_entry :: json

record review_shard_envelope =
  shard_version :: u32
  shard_file_id :: string
  shard_game :: int
  shard_generation :: u32
  shard_ordinal :: u32
  shard_entries :: "review_shard_entry list"

datatype migration_phase = Migrating | Migrated | ResetPhase

record migration_state_envelope =
  state_version :: u32
  state_file_id :: string
  state_game :: int
  phase :: migration_phase
  legacy_digest :: string

record shard_file =
  shard_leaf_name :: string
  envelope :: review_shard_envelope

record reconciliation =
  total_entries :: u32
  reconciled_orphans :: u32

record practice_deck_identity =
  identity_file_id :: string
  identity_game :: int

record validated_deck =
  deck_state :: "migration_state_envelope option"
  deck_positions :: "positions_envelope option"
  deck_shards :: "shard_file list"
  deck_shard_leaves :: "(string \<times> u32 \<times> u32 \<times> dir_entry) list"
  deck_reconciliation :: "reconciliation option"

record deck_validation_failure =
  failure_error :: error
  failure_identity :: "practice_deck_identity option"
  failure_io :: bool

record practice_deck_snapshot =
  snapshot_document :: string
  snapshot_revision :: u32
  snapshot_generation :: u32
  snapshot_migrated :: bool
  unapplied_reviews :: u32
  orphans_acknowledged :: bool

record cursor =
  cursor_generation :: u32
  cursor_ordinal :: u32
  cursor_offset :: u32

record practice_review_page =
  page_entries :: "(string \<times> string) list"
  next_cursor :: "string option"

record deck_env = map_env +
  positions_to_vec :: "positions_envelope \<Rightarrow> bytes option"
  positions_from_slice :: "bytes \<Rightarrow> positions_envelope option"
  shard_to_vec :: "review_shard_envelope \<Rightarrow> bytes option"
  shard_from_slice :: "bytes \<Rightarrow> review_shard_envelope option"
  state_to_vec :: "migration_state_envelope \<Rightarrow> bytes option"
  state_from_slice :: "bytes \<Rightarrow> migration_state_envelope option"
  value_to_vec :: "json \<Rightarrow> bytes option"
  value_to_string :: "json \<Rightarrow> string option"

definition then_result :: "'a result \<Rightarrow> ('a \<Rightarrow> 'b result) \<Rightarrow> 'b result" where
  "then_result r f = (case r of Inl e \<Rightarrow> Inl e | Inr x \<Rightarrow> f x)"

lemma then_result_simps [simp]: "then_result (Inl e) f = Inl e" "then_result (Inr x) f = f x"
  by (simp_all add: then_result_def)

lemma then_result_eq_Inr: "then_result r f = Inr y \<longleftrightarrow> (\<exists>x. r = Inr x \<and> f x = Inr y)"
  by (cases r) auto

subsection \<open>Canonical documents and digests\<close>

fun canonical_value :: "json \<Rightarrow> json" where
  "canonical_value (JArray vs) = JArray (map canonical_value vs)"
| "canonical_value (JObject members) = JObject (sort_key fst (map (\<lambda>(k, v). (k, canonical_value v)) members))"
| "canonical_value v = v"

definition canonical_bytes :: "('e deck_env_scheme) \<Rightarrow> json \<Rightarrow> bytes result" where
  "canonical_bytes env v =
     ok_or (value_to_vec env (canonical_value v)) (InvalidInput ''practice JSON cannot be canonicalized'')"

definition digest_value :: "('e deck_env_scheme) \<Rightarrow> json \<Rightarrow> string result" where
  "digest_value env v = then_result (canonical_bytes env v) (\<lambda>bs. Inr (sha256 env bs))"

definition entry_digest :: "('e deck_env_scheme) \<Rightarrow> json \<Rightarrow> string result" where
  "entry_digest env v = digest_value env v"

subsection \<open>Validation of documents\<close>

definition check_identity :: "('e deck_env_scheme) \<Rightarrow> string \<Rightarrow> u32 \<Rightarrow> string \<Rightarrow> int \<Rightarrow> string result" where
  "check_identity env leaf version file_id number =
     (if version \<noteq> PRACTICE_STORAGE_VERSION then Inl (invalid_leaf leaf ''unsupported storage version'')
      else let hash = hash_deck env file_id number
           in if map_option owned_hash (parse_owned_leaf leaf) \<noteq> Some hash
              then Inl (invalid_leaf leaf ''identity does not match its leaf'')
              else Inr hash)"

fun as_array :: "json \<Rightarrow> json list option" where
  "as_array (JArray vs) = Some vs"
| "as_array _ = None"

definition validate_positions_document :: "('e deck_env_scheme) \<Rightarrow> string \<Rightarrow> string \<Rightarrow> json result" where
  "validate_positions_document env raw leaf =
     (if PRACTICE_POSITIONS_MAX_BYTES < length raw
      then Inl (invalid_leaf leaf ''positions document exceeds its size limit'')
      else then_result (ok_or (value_from_slice env (bytes_of raw)) (invalid_leaf leaf ''positions JSON is malformed'')) (\<lambda>v.
        then_result (ok_or (Option.bind (json_get ''positions'' v) as_array)
            (invalid_leaf leaf ''positions document has no positions array'')) (\<lambda>ps.
          let canonical = JObject [(''positions'', JArray ps)]
          in then_result (canonical_bytes env canonical) (\<lambda>bs.
               if PRACTICE_POSITIONS_MAX_BYTES < length bs
               then Inl (invalid_leaf leaf ''positions array exceeds its size limit'')
               else Inr canonical))))"

definition positions_array :: "json \<Rightarrow> json list result" where
  "positions_array v =
     ok_or (Option.bind (json_get ''positions'' v) as_array) (InvalidInput ''practice positions array is missing'')"

definition positions_document :: "('e deck_env_scheme) \<Rightarrow> json \<Rightarrow> string result" where
  "positions_document env v = ok_or (value_to_string env v) (InvalidInput ''practice positions cannot be serialized'')"

definition check_positions :: "('e deck_env_scheme) \<Rightarrow> string \<Rightarrow> string \<Rightarrow> positions_envelope \<Rightarrow> unit result" where
  "check_positions env hash leaf p =
     then_result (check_identity env leaf (pos_version p) (pos_file_id p) (pos_game p)) (\<lambda>h.
       if h \<noteq> hash then Inl (invalid_leaf leaf ''identity does not match its deck'')
       else if (case last_entry_id p of None \<Rightarrow> False | Some i \<Rightarrow> PRACTICE_ID_MAX_BYTES < length i)
               \<or> (case last_entry_digest p of None \<Rightarrow> False | Some g \<Rightarrow> length g \<noteq> 64)
       then Inl (invalid_leaf leaf ''entry anchor is invalid'')
       else if legacy_source_of p = LocalStorage
               \<and> (migrated_entries p = None \<or> migrated_positions_digest p = None)
       then Inl (invalid_leaf leaf ''migration metadata is incomplete'')
       else Inr ())"

definition read_positions :: "('e deck_env_scheme) \<Rightarrow> string \<Rightarrow> (disk, positions_envelope option) io" where
  "read_positions env hash =
     (let leaf = positions_leaf hash
      in bind_io (read_json (positions_from_slice env) leaf PRACTICE_POSITIONS_MAX_BYTES ''read positions'') (\<lambda>r.
         case r of
           None \<Rightarrow> return_io None
         | Some p \<Rightarrow>
             bind_io (of_result (check_positions env hash leaf p)) (\<lambda>_.
               return_io (Some (p\<lparr>positions := map canonical_value (positions p)\<rparr>)))))"

definition read_state :: "('e deck_env_scheme) \<Rightarrow> string \<Rightarrow> (disk, migration_state_envelope option) io" where
  "read_state env hash =
     (let leaf = state_leaf hash
      in bind_io (read_json (state_from_slice env) leaf PRACTICE_LEGACY_MAX_BYTES ''read migration state'') (\<lambda>r.
         case r of
           None \<Rightarrow> return_io None
         | Some s \<Rightarrow>
             bind_io (of_result (check_identity env leaf (state_version s) (state_file_id s) (state_game s))) (\<lambda>_.
               if length (legacy_digest s) \<noteq> 64 then throw_io (invalid_leaf leaf ''migration digest is invalid'')
               else return_io (Some s))))"

definition review_refused :: "review_shard_entry \<Rightarrow> bool" where
  "review_refused r \<longleftrightarrow> review_id r = [] \<or> PRACTICE_ID_MAX_BYTES < length (review_id r) \<or> rev_of r = 0"

definition check_shard ::
    "('e deck_env_scheme) \<Rightarrow> string \<Rightarrow> u32 \<Rightarrow> string \<Rightarrow> u32 \<Rightarrow> review_shard_envelope \<Rightarrow> unit result" where
  "check_shard env hash generation name ordinal v =
     then_result (check_identity env name (shard_version v) (shard_file_id v) (shard_game v)) (\<lambda>h.
       if h \<noteq> hash \<or> shard_generation v \<noteq> generation \<or> shard_ordinal v \<noteq> ordinal \<or> shard_entries v = []
       then Inl (invalid_leaf name ''review shard identity is invalid'')
       else if list_ex review_refused (shard_entries v)
       then Inl (invalid_leaf name ''review entry identity is invalid'')
       else Inr ())"

definition read_shard_entry ::
    "('e deck_env_scheme) \<Rightarrow> string \<Rightarrow> u32 \<Rightarrow> string \<times> dir_entry \<Rightarrow> shard_file list \<Rightarrow> (disk, shard_file list) io" where
  "read_shard_entry env hash generation e shards =
     (case parse_owned_leaf (fst e) of
        Some (ShardLeaf h g ordinal) \<Rightarrow>
          if h \<noteq> hash \<or> g \<noteq> generation then return_io shards
          else if \<not> is_regular (snd e) then throw_io (invalid_leaf (fst e) ''review shard is not a regular file'')
          else bind_io (read_json (shard_from_slice env) (fst e) PRACTICE_LEGACY_MAX_BYTES ''read review shard'') (\<lambda>r.
               bind_io (of_result (ok_or r (invalid_leaf (fst e) ''review shard disappeared''))) (\<lambda>v.
               bind_io (of_result (check_shard env hash generation (fst e) ordinal v)) (\<lambda>_.
                 return_io (shards @ [\<lparr>shard_leaf_name = fst e, envelope = v\<rparr>]))))
      | _ \<Rightarrow> return_io shards)"

definition read_shards :: "('e deck_env_scheme) \<Rightarrow> string \<Rightarrow> u32 \<Rightarrow> (disk, shard_file list) io" where
  "read_shards env hash generation =
     bind_io dir_entries (\<lambda>es.
     bind_io (for_io (read_shard_entry env hash generation) es []) (\<lambda>shards.
       return_io (sort_key (shard_ordinal \<circ> envelope) shards)))"

definition review_count_error :: error where
  "review_count_error = Conflict ''practice review count exceeded u32::MAX''"

definition u32_of_len :: "nat \<Rightarrow> u32 result" where
  "u32_of_len n = (if n \<le> U32_MAX then Inr (of_nat n) else Inl review_count_error)"

fun sum_entries :: "u32 \<Rightarrow> shard_file list \<Rightarrow> u32 result" where
  "sum_entries acc [] = Inr acc"
| "sum_entries acc (s # ss) =
     then_result (u32_of_len (length (shard_entries (envelope s)))) (\<lambda>n.
     then_result (ok_or (checked_add acc n) review_count_error) (\<lambda>acc. sum_entries acc ss))"

definition reconcile :: "positions_envelope \<Rightarrow> shard_file list \<Rightarrow> string \<Rightarrow> reconciliation result" where
  "reconcile p shards leaf =
     then_result (sum_entries 0 shards) (\<lambda>sum.
       if sum < applied_entries p then Inl (invalid_leaf leaf ''review history is missing entries'')
       else then_result (ok_or (checked_add (orphan_entries p) (sum - applied_entries p))
           (Conflict ''practice orphan count exceeded u32::MAX'')) (\<lambda>orphans.
         Inr \<lparr>total_entries = sum, reconciled_orphans = orphans\<rparr>))"

definition next_counter :: "u32 \<Rightarrow> string \<Rightarrow> u32 result" where
  "next_counter v label = ok_or (checked_add v 1) (Conflict (''practice '' @ label @ '' reached its limit''))"

definition validation_failure :: "error \<Rightarrow> practice_deck_identity option \<Rightarrow> deck_validation_failure" where
  "validation_failure e identity =
     \<lparr>failure_error = e, failure_identity = identity, failure_io = (case e of Io _ \<Rightarrow> True | _ \<Rightarrow> False)\<rparr>"

definition positions_identity :: "positions_envelope \<Rightarrow> practice_deck_identity" where
  "positions_identity p = \<lparr>identity_file_id = pos_file_id p, identity_game = pos_game p\<rparr>"

definition state_identity :: "migration_state_envelope \<Rightarrow> practice_deck_identity" where
  "state_identity s = \<lparr>identity_file_id = state_file_id s, identity_game = state_game s\<rparr>"

text \<open>A validation failure is a value here: it carries more than an error.\<close>

definition read_validated_deck ::
    "('e deck_env_scheme) \<Rightarrow> string \<Rightarrow> (disk, deck_validation_failure + validated_deck) io" where
  "read_validated_deck env hash =
     bind_io (attempt (read_state env hash)) (\<lambda>state_result.
     bind_io (attempt (read_positions env hash)) (\<lambda>positions_result.
       case state_result of
         Inl e \<Rightarrow> return_io (Inl (validation_failure e
           (case positions_result of Inr (Some p) \<Rightarrow> Some (positions_identity p) | _ \<Rightarrow> None)))
       | Inr state \<Rightarrow>
           let identity = map_option state_identity state
           in case positions_result of
                Inl e \<Rightarrow> return_io (Inl (validation_failure e identity))
              | Inr None \<Rightarrow>
                  bind_io (attempt (all_shard_leaves hash)) (\<lambda>r.
                    case r of
                      Inl e \<Rightarrow> return_io (Inl (validation_failure e identity))
                    | Inr ls \<Rightarrow> return_io (Inr \<lparr>deck_state = state, deck_positions = None, deck_shards = [],
                        deck_shard_leaves = ls, deck_reconciliation = None\<rparr>))
              | Inr (Some p) \<Rightarrow>
                  let identity = Some (positions_identity p)
                  in bind_io (attempt (read_shards env hash (pos_generation p))) (\<lambda>r.
                       case r of
                         Inl e \<Rightarrow> return_io (Inl (validation_failure e identity))
                       | Inr shards \<Rightarrow>
                           (case reconcile p shards (positions_leaf hash) of
                              Inl e \<Rightarrow> return_io (Inl (validation_failure e identity))
                            | Inr rc \<Rightarrow> return_io (Inr \<lparr>deck_state = state, deck_positions = Some p,
                                deck_shards = shards, deck_shard_leaves = [], deck_reconciliation = Some rc\<rparr>)))))"

definition validated_or_error ::
    "('e deck_env_scheme) \<Rightarrow> string \<Rightarrow> (disk, validated_deck) io" where
  "validated_or_error env hash =
     bind_io (read_validated_deck env hash) (\<lambda>r. case r of Inl f \<Rightarrow> throw_io (failure_error f) | Inr v \<Rightarrow> return_io v)"

definition load_valid_deck ::
    "('e deck_env_scheme) \<Rightarrow> string \<Rightarrow> (disk, (positions_envelope \<times> shard_file list \<times> reconciliation) option) io" where
  "load_valid_deck env hash =
     bind_io (validated_or_error env hash) (\<lambda>loaded.
       case deck_positions loaded of
         None \<Rightarrow>
           if map_option phase (deck_state loaded) = Some ResetPhase then return_io None
           else if deck_state loaded \<noteq> None \<or> deck_shard_leaves loaded \<noteq> []
           then throw_io (invalid_leaf (positions_leaf hash) ''positions document is missing'')
           else return_io None
       | Some p \<Rightarrow>
           bind_io (of_result (ok_or (deck_reconciliation loaded)
             (invalid_leaf (positions_leaf hash) ''practice reconciliation is missing''))) (\<lambda>rc.
             return_io (Some (p, deck_shards loaded, rc))))"

definition snapshot_from ::
    "('e deck_env_scheme) \<Rightarrow> positions_envelope \<Rightarrow> reconciliation \<Rightarrow> practice_deck_snapshot result" where
  "snapshot_from env p rc =
     then_result (positions_document env (JObject [(''positions'', JArray (positions p))])) (\<lambda>doc.
       Inr \<lparr>snapshot_document = doc, snapshot_revision = pos_revision p, snapshot_generation = pos_generation p,
            snapshot_migrated = (legacy_source_of p = LocalStorage), unapplied_reviews = reconciled_orphans rc,
            orphans_acknowledged = (reconciled_orphans rc \<le> orphan_acknowledged_count p)\<rparr>)"

definition load_practice_deck_in ::
    "('e deck_env_scheme) \<Rightarrow> string \<Rightarrow> int \<Rightarrow> (disk, practice_deck_snapshot option) io" where
  "load_practice_deck_in env file_id number =
     (let hash = hash_deck env file_id number
      in with_store_lock hash (bind_io (load_valid_deck env hash) (\<lambda>loaded.
           case loaded of
             None \<Rightarrow> return_io None
           | Some (p, _, rc) \<Rightarrow> bind_io (of_result (snapshot_from env p rc)) (\<lambda>s. return_io (Some s)))))"

subsection \<open>Writing reviews and positions\<close>

definition validate_entry :: "('e deck_env_scheme) \<Rightarrow> string \<Rightarrow> string \<Rightarrow> json result" where
  "validate_entry env entry leaf =
     (if PRACTICE_ENTRY_MAX_BYTES < length entry then Inl (invalid_leaf leaf ''review entry exceeds its size limit'')
      else ok_or (value_from_slice env (bytes_of entry)) (invalid_leaf leaf ''review entry is malformed JSON''))"

definition shard_bytes :: "('e deck_env_scheme) \<Rightarrow> review_shard_envelope \<Rightarrow> bytes result" where
  "shard_bytes env s = ok_or (shard_to_vec env s) (InvalidInput ''practice review shard cannot be serialized'')"

definition append_sealed_review ::
    "('e deck_env_scheme) \<Rightarrow> review_shard_envelope list \<Rightarrow> string \<Rightarrow> int \<Rightarrow> u32 \<Rightarrow> review_shard_entry
      \<Rightarrow> review_shard_envelope list result" where
  "append_sealed_review env shards file_id number generation review =
     (let current = (if shards = [] then \<lparr>shard_version = PRACTICE_STORAGE_VERSION, shard_file_id = file_id,
              shard_game = number, shard_generation = generation, shard_ordinal = 0, shard_entries = []\<rparr>
            else last shards);
          rest = butlast shards;
          candidate = current\<lparr>shard_entries := shard_entries current @ [review]\<rparr>
      in then_result (if shard_entries current = [] then Inr False
            else then_result (shard_bytes env candidate) (\<lambda>bs. Inr (PRACTICE_SHARD_SEAL_BYTES < length bs))) (\<lambda>full.
         if full
         then then_result (next_counter (shard_ordinal current) ''shard ordinal'') (\<lambda>ordinal.
           Inr (rest @ [current, \<lparr>shard_version = PRACTICE_STORAGE_VERSION, shard_file_id = file_id,
              shard_game = number, shard_generation = generation, shard_ordinal = ordinal,
              shard_entries = [review]\<rparr>]))
         else Inr (rest @ [candidate])))"

definition append_review ::
    "('e deck_env_scheme) \<Rightarrow> string \<Rightarrow> string \<Rightarrow> int \<Rightarrow> u32 \<Rightarrow> u32 \<Rightarrow> review_shard_envelope option \<Rightarrow> string
      \<Rightarrow> json \<Rightarrow> (disk, unit) io" where
  "append_review env hash file_id number generation revision latest_shard entry_id entry =
     (let review = \<lparr>review_id = entry_id, rev_of = revision, review_entry = canonical_value entry\<rparr>
      in bind_io (of_result (append_sealed_review env
           (case latest_shard of None \<Rightarrow> [] | Some s \<Rightarrow> [s]) file_id number generation review)) (\<lambda>nxt.
         if nxt = [] then throw_io (InvalidInput ''practice review shard is empty'')
         else write_json (shard_to_vec env) (shard_leaf hash generation (shard_ordinal (last nxt))) (last nxt)
                PracticeReviewShard ''write review shard''))"

definition ensure_positions_size :: "('e deck_env_scheme) \<Rightarrow> positions_envelope \<Rightarrow> string \<Rightarrow> unit result" where
  "ensure_positions_size env p leaf =
     then_result (ok_or (positions_to_vec env p) (invalid_leaf leaf ''document cannot be serialized'')) (\<lambda>bs.
       if PRACTICE_POSITIONS_MAX_BYTES < length bs
       then Inl (invalid_leaf leaf ''positions document exceeds its size limit'')
       else Inr ())"

definition write_positions :: "('e deck_env_scheme) \<Rightarrow> string \<Rightarrow> positions_envelope \<Rightarrow> (disk, unit) io" where
  "write_positions env hash p =
     (let leaf = positions_leaf hash
      in bind_io (of_result (ensure_positions_size env p leaf)) (\<lambda>_.
           write_json (positions_to_vec env) leaf p PracticePositions ''write positions''))"

text \<open>The reviews of the shards in order, and the backward search in them.\<close>

definition history :: "shard_file list \<Rightarrow> review_shard_entry list" where
  "history shards = concat (map (shard_entries \<circ> envelope) shards)"

fun find_backwards :: "u32 \<Rightarrow> string \<Rightarrow> review_shard_entry list \<Rightarrow> json option" where
  "find_backwards base_revision entry_id [] = None"
| "find_backwards base_revision entry_id (r # rs) =
     (if rev_of r \<le> base_revision then None
      else if review_id r = entry_id then Some (review_entry r)
      else find_backwards base_revision entry_id rs)"

definition find_entry_since :: "shard_file list \<Rightarrow> u32 \<Rightarrow> string \<Rightarrow> json option" where
  "find_entry_since shards base_revision entry_id = find_backwards base_revision entry_id (rev (history shards))"

fun position_from :: "u32 \<Rightarrow> string \<Rightarrow> review_shard_entry list \<Rightarrow> u32 option" where
  "position_from position entry_id [] = None"
| "position_from position entry_id (r # rs) =
     (if review_id r = entry_id then Some position
      else Option.bind (checked_add position 1) (\<lambda>position. position_from position entry_id rs))"

definition entry_position :: "shard_file list \<Rightarrow> string \<Rightarrow> u32 option" where
  "entry_position shards entry_id = position_from 0 entry_id (history shards)"

definition reused_id :: error where
  "reused_id = InvalidInput ''practice entry id was reused for different content''"

text \<open>The positions document a recorded review leaves behind, and whether its entry is appended first.\<close>

definition recorded_envelope ::
    "('e deck_env_scheme) \<Rightarrow> positions_envelope \<Rightarrow> shard_file list \<Rightarrow> reconciliation \<Rightarrow> u32 \<Rightarrow> string \<Rightarrow> string
      \<Rightarrow> json \<Rightarrow> (positions_envelope \<times> bool) result" where
  "recorded_envelope env p shards rc base_revision entry_id incoming_digest positions_value =
     (let existing = find_entry_since shards base_revision entry_id;
          existing_position = Option.bind existing (\<lambda>_. entry_position shards entry_id);
          appended = (existing = None)
      in then_result (case existing of
              None \<Rightarrow> Inr ()
            | Some v \<Rightarrow> then_result (entry_digest env v) (\<lambda>d. if d \<noteq> incoming_digest then Inl reused_id else Inr ())) (\<lambda>_.
         then_result (next_counter (pos_revision p) ''revision'') (\<lambda>next_revision.
         then_result (if (case existing_position of None \<Rightarrow> False | Some i \<Rightarrow> applied_entries p \<le> i)
              then ok_or (checked_sub (reconciled_orphans rc) 1)
                     (InvalidInput ''practice reconciliation count is inconsistent'')
              else Inr (reconciled_orphans rc)) (\<lambda>orphans.
         then_result (positions_array positions_value) (\<lambda>incoming_positions.
         then_result (ok_or (checked_add (total_entries rc) (if appended then 1 else 0)) review_count_error) (\<lambda>applied.
           Inr (p\<lparr>pos_revision := next_revision, last_entry_id := Some entry_id,
                  last_entry_digest := Some incoming_digest, applied_entries := applied,
                  orphan_entries := orphans, positions := incoming_positions\<rparr>, appended)))))))"

record practice_review_write =
  write_generation :: u32
  write_revision :: u32
  base_revision :: u32
  write_document :: string
  write_entry :: string
  entry_id :: string

text \<open>The body of the operation once the deck is loaded and the incoming documents are validated.\<close>

definition record_loaded ::
    "('e deck_env_scheme) \<Rightarrow> string \<Rightarrow> string \<Rightarrow> int \<Rightarrow> practice_review_write \<Rightarrow> json \<Rightarrow> json
      \<Rightarrow> positions_envelope \<times> shard_file list \<times> reconciliation \<Rightarrow> (disk, u32) io" where
  "record_loaded env hash file_id number w positions_value incoming_entry loaded =
     (case loaded of (p, shards, rc) \<Rightarrow>
        if pos_generation p \<noteq> write_generation w then throw_io (Conflict ''practice deck generation changed'')
        else bind_io (of_result (entry_digest env incoming_entry)) (\<lambda>incoming_digest.
          if last_entry_id p = Some (entry_id w)
          then if last_entry_digest p \<noteq> Some incoming_digest then throw_io reused_id
               else return_io (pos_revision p)
          else if pos_revision p \<noteq> write_revision w then throw_io (Conflict ''practice deck revision changed'')
          else bind_io (of_result (recorded_envelope env p shards rc (base_revision w) (entry_id w) incoming_digest positions_value)) (\<lambda>(q, appended).
               bind_io (of_result (ensure_positions_size env q (positions_leaf hash))) (\<lambda>_.
               bind_io (if appended
                        then append_review env hash file_id number (write_generation w) (pos_revision q)
                               (if shards = [] then None else Some (envelope (last shards))) (entry_id w) incoming_entry
                        else return_io ()) (\<lambda>_.
               bind_io (write_positions env hash q) (\<lambda>_. return_io (pos_revision q)))))))"

definition record_practice_review_in ::
    "('e deck_env_scheme) \<Rightarrow> string \<Rightarrow> int \<Rightarrow> practice_review_write \<Rightarrow> (disk, u32) io" where
  "record_practice_review_in env file_id number w =
     (if entry_id w = [] \<or> PRACTICE_ID_MAX_BYTES < length (entry_id w)
      then throw_io (InvalidInput ''practice entry id is invalid'')
      else bind_io (of_result (validate_positions_document env (write_document w) ''incoming-positions'')) (\<lambda>positions_value.
           bind_io (of_result (validate_entry env (write_entry w) ''incoming-review'')) (\<lambda>incoming_entry.
           let hash = hash_deck env file_id number
           in with_store_lock hash
             (bind_io (load_valid_deck env hash) (\<lambda>loaded.
              bind_io (of_result (ok_or loaded (invalid_leaf (positions_leaf hash) ''a rating needs a positions document'')))
                (record_loaded env hash file_id number w positions_value incoming_entry))))))"

definition new_positions :: "string \<Rightarrow> int \<Rightarrow> json list \<Rightarrow> positions_envelope" where
  "new_positions file_id number ps =
     \<lparr>pos_version = PRACTICE_STORAGE_VERSION, pos_file_id = file_id, pos_game = number, pos_revision = 1,
      pos_generation = 0, last_entry_id = None, last_entry_digest = None, applied_entries = 0,
      orphan_entries = 0, orphan_acknowledged_count = 0, legacy_source_of = NoLegacy, migrated_at = None,
      migrated_entries = None, migrated_positions_digest = None, positions = ps\<rparr>"

definition sync_practice_positions_in ::
    "('e deck_env_scheme) \<Rightarrow> string \<Rightarrow> int \<Rightarrow> u32 \<Rightarrow> u32 \<Rightarrow> string \<Rightarrow> (disk, u32) io" where
  "sync_practice_positions_in env file_id number generation revision document =
     bind_io (of_result (validate_positions_document env document ''incoming-positions'')) (\<lambda>positions_value.
     let hash = hash_deck env file_id number
     in with_store_lock hash
       (bind_io (read_state env hash) (\<lambda>state.
        bind_io (read_positions env hash) (\<lambda>found.
        bind_io (all_shard_leaves hash) (\<lambda>leaves_found.
          case found of
            None \<Rightarrow>
              let reset_state = (map_option phase state = Some ResetPhase)
              in if (\<not> reset_state \<and> state \<noteq> None) \<or> leaves_found \<noteq> [] \<or> revision \<noteq> 0 \<or> generation \<noteq> 0
                 then throw_io (Conflict ''practice deck creation races existing state'')
                 else bind_io (of_result (positions_array positions_value)) (\<lambda>ps.
                      bind_io (write_positions env hash (new_positions file_id number ps)) (\<lambda>_.
                        return_io (pos_revision (new_positions file_id number ps))))
          | Some p \<Rightarrow>
              if pos_generation p \<noteq> generation \<or> pos_revision p \<noteq> revision
              then throw_io (Conflict ''practice deck revision or generation changed'')
              else bind_io (read_shards env hash generation) (\<lambda>shards.
                   bind_io (of_result (reconcile p shards (positions_leaf hash))) (\<lambda>rc.
                   bind_io (of_result (next_counter (pos_revision p) ''revision'')) (\<lambda>next_revision.
                   bind_io (of_result (positions_array positions_value)) (\<lambda>ps.
                   bind_io (write_positions env hash (p\<lparr>pos_revision := next_revision,
                       applied_entries := total_entries rc, orphan_entries := reconciled_orphans rc, positions := ps\<rparr>)) (\<lambda>_.
                     return_io next_revision))))))))))"

text \<open>Removing the shards of the retired generation; a failure tells how many are gone.\<close>

fun remove_old_shards :: "nat \<Rightarrow> shard_file list \<Rightarrow> (disk, unit) io" where
  "remove_old_shards removed [] = return_io ()"
| "remove_old_shards removed (s # ss) =
     bind_io (map_err (PartialRemoval removed) (remove_leaf_if_present (shard_leaf_name s))) (\<lambda>_.
       remove_old_shards (Suc removed) ss)"

definition reset_envelope :: "positions_envelope \<Rightarrow> json list \<Rightarrow> positions_envelope result" where
  "reset_envelope p ps =
     then_result (next_counter (pos_generation p) ''generation'') (\<lambda>generation.
       Inr (p\<lparr>pos_revision := (if pos_revision p = - 1 then 1 else pos_revision p + 1), pos_generation := generation,
              last_entry_id := None, last_entry_digest := None, applied_entries := 0, orphan_entries := 0,
              orphan_acknowledged_count := 0, positions := ps\<rparr>))"

definition reset_practice_deck_in ::
    "('e deck_env_scheme) \<Rightarrow> string \<Rightarrow> int \<Rightarrow> u32 \<Rightarrow> u32 \<Rightarrow> string \<Rightarrow> (disk, u32) io" where
  "reset_practice_deck_in env file_id number generation revision document =
     bind_io (of_result (validate_positions_document env document ''incoming-positions'')) (\<lambda>positions_value.
     let hash = hash_deck env file_id number
     in with_store_lock hash
       (bind_io (read_positions env hash) (\<lambda>found.
          case found of
            None \<Rightarrow> throw_io (invalid_leaf (positions_leaf hash) ''cannot reset an empty deck'')
          | Some p \<Rightarrow>
              if pos_generation p \<noteq> generation \<or> pos_revision p \<noteq> revision
              then throw_io (Conflict ''practice deck revision or generation changed'')
              else bind_io (of_result (then_result (next_counter (pos_generation p) ''generation'') (\<lambda>_.
                      positions_array positions_value))) (\<lambda>ps.
                   bind_io (of_result (reset_envelope p ps)) (\<lambda>q.
                   bind_io (write_positions env hash q) (\<lambda>_.
                   bind_io (map_err (PartialRemoval 0) (read_shards env hash (pos_generation p))) (\<lambda>old_shards.
                   bind_io (remove_old_shards 0 old_shards) (\<lambda>_.
                     return_io (pos_revision q)))))))))"

definition acknowledge_practice_orphans_in ::
    "('e deck_env_scheme) \<Rightarrow> string \<Rightarrow> int \<Rightarrow> u32 \<Rightarrow> u32 \<Rightarrow> (disk, unit) io" where
  "acknowledge_practice_orphans_in env file_id number generation acknowledged_count =
     (let hash = hash_deck env file_id number
      in with_store_lock hash
        (bind_io (load_valid_deck env hash) (\<lambda>loaded.
           case loaded of
             None \<Rightarrow> throw_io (invalid_leaf (positions_leaf hash) ''cannot acknowledge an empty deck'')
           | Some (p, _) \<Rightarrow>
               if pos_generation p \<noteq> generation then throw_io (Conflict ''practice deck generation changed'')
               else write_positions env hash (p\<lparr>orphan_acknowledged_count := acknowledged_count\<rparr>))))"

subsection \<open>Paging through the reviews\<close>

definition invalid_cursor :: error where
  "invalid_cursor = InvalidInput ''practice review cursor is invalid''"

fun split_colons :: "string \<Rightarrow> string list" where
  "split_colons [] = [[]]"
| "split_colons (c # cs) =
     (if c = CHR '':'' then [] # split_colons cs
      else (case split_colons cs of [] \<Rightarrow> [[c]] | part # parts \<Rightarrow> (c # part) # parts))"

definition parse_cursor :: "string option \<Rightarrow> cursor option result" where
  "parse_cursor text =
     (case text of
        None \<Rightarrow> Inr None
      | Some s \<Rightarrow>
          if s = [] \<or> PRACTICE_ID_MAX_BYTES < length s then Inl invalid_cursor
          else (case split_colons s of
                  [a, b, c] \<Rightarrow>
                    then_result (ok_or (parse_u32 a) invalid_cursor) (\<lambda>generation.
                    then_result (ok_or (parse_u32 b) invalid_cursor) (\<lambda>ordinal.
                    then_result (ok_or (parse_u32 c) invalid_cursor) (\<lambda>offset.
                      Inr (Some \<lparr>cursor_generation = generation, cursor_ordinal = ordinal, cursor_offset = offset\<rparr>))))
                | _ \<Rightarrow> Inl invalid_cursor))"

definition print_cursor :: "u32 \<Rightarrow> u32 \<Rightarrow> nat \<Rightarrow> string" where
  "print_cursor generation ordinal offset = show_u32 generation @ '':'' @ show_u32 ordinal @ '':'' @ show_nat offset"

text \<open>The entries of one shard, newest first, until the page is full; the offset left in the shard.\<close>

fun fill_page ::
    "('e deck_env_scheme) \<Rightarrow> nat \<Rightarrow> review_shard_entry list \<Rightarrow> (string \<times> string) list \<Rightarrow> nat
      \<Rightarrow> ((string \<times> string) list \<times> nat) result" where
  "fill_page env requested [] page next_offset = Inr (page, next_offset)"
| "fill_page env requested (r # rs) page next_offset =
     (if length page = requested then Inr (page, next_offset)
      else then_result (ok_or (value_to_string env (review_entry r)) (InvalidInput ''practice review cannot be serialized'')) (\<lambda>entry.
             fill_page env requested rs (page @ [(review_id r, entry)]) (next_offset - 1)))"

fun page_loop ::
    "('e deck_env_scheme) \<Rightarrow> u32 \<Rightarrow> shard_file list \<Rightarrow> cursor option \<Rightarrow> nat \<Rightarrow> nat \<Rightarrow> nat \<Rightarrow> (string \<times> string) list
      \<Rightarrow> practice_review_page result" where
  "page_loop env generation shards cur requested 0 offset page = Inr \<lparr>page_entries = page, next_cursor = None\<rparr>"
| "page_loop env generation shards cur requested (Suc index) offset page =
     (if requested \<le> length page then Inr \<lparr>page_entries = page, next_cursor = None\<rparr>
      else let shard = envelope (shards ! index);
               start = (if Suc index = length shards
                           \<or> (case cur of None \<Rightarrow> False | Some c \<Rightarrow> cursor_ordinal c = shard_ordinal shard)
                        then offset else length (shard_entries shard))
           in then_result (fill_page env requested (rev (take start (shard_entries shard))) page start) (\<lambda>(page, next_offset).
                if length page = requested
                then Inr \<lparr>page_entries = page, next_cursor =
                       (if 0 < next_offset then Some (print_cursor generation (shard_ordinal shard) next_offset)
                        else if 0 < index
                        then (let before = envelope (shards ! (index - 1))
                              in Some (print_cursor generation (shard_ordinal before) (length (shard_entries before))))
                        else None)\<rparr>
                else page_loop env generation shards cur requested index
                       (if 0 < index then length (shard_entries (envelope (shards ! (index - 1)))) else 0) page))"

definition find_shard :: "shard_file list \<Rightarrow> u32 \<Rightarrow> nat option" where
  "find_shard shards ordinal = find (\<lambda>i. shard_ordinal (envelope (shards ! i)) = ordinal) [0..<length shards]"

definition page_start :: "shard_file list \<Rightarrow> cursor option \<Rightarrow> (nat \<times> nat) result" where
  "page_start shards cur =
     (case cur of
        None \<Rightarrow> Inr (length shards, if shards = [] then 0 else length (shard_entries (envelope (last shards))))
      | Some c \<Rightarrow>
          (case find_shard shards (cursor_ordinal c) of
             None \<Rightarrow> Inl invalid_cursor
           | Some index \<Rightarrow>
               if length (shard_entries (envelope (shards ! index))) < unat (cursor_offset c) then Inl invalid_cursor
               else Inr (Suc index, unat (cursor_offset c))))"

definition review_page ::
    "('e deck_env_scheme) \<Rightarrow> u32 \<Rightarrow> shard_file list \<Rightarrow> string option \<Rightarrow> u32 \<Rightarrow> practice_review_page result" where
  "review_page env generation shards text limit =
     then_result (parse_cursor text) (\<lambda>cur.
       if (case cur of None \<Rightarrow> False | Some c \<Rightarrow> cursor_generation c \<noteq> generation)
       then Inl (Conflict ''practice review cursor belongs to an older generation'')
       else let requested = unat (min limit PRACTICE_READ_MAX_ENTRIES)
            in if requested = 0 then Inr \<lparr>page_entries = [], next_cursor = None\<rparr>
               else then_result (page_start shards cur) (\<lambda>(shard_index, offset).
                      page_loop env generation shards cur requested shard_index offset []))"

definition load_practice_reviews_in ::
    "('e deck_env_scheme) \<Rightarrow> string \<Rightarrow> int \<Rightarrow> string option \<Rightarrow> u32 \<Rightarrow> (disk, practice_review_page) io" where
  "load_practice_reviews_in env file_id number text limit =
     (let hash = hash_deck env file_id number
      in with_store_lock hash
        (bind_io (load_valid_deck env hash) (\<lambda>loaded.
           case loaded of
             None \<Rightarrow> return_io \<lparr>page_entries = [], next_cursor = None\<rparr>
           | Some (p, shards, _) \<Rightarrow> of_result (review_page env (pos_generation p) shards text limit))))"

end
