(* ===== verification/PracticeMigration.thy ===== *)
theory PracticeMigration
  imports PracticeDeck
begin

text \<open>
  The operations of the practice store that create and remove whole decks (\<^verbatim>\<open>practice.rs\<close>): the
  migration of a legacy document into a deck, the repair of a damaged deck, and the calls of the
  commands, which find the deck of a game through the deck map of its file. The timestamp of a
  migration is an argument.
\<close>

subsection \<open>The reviews of a legacy document\<close>

datatype practice_migration_status = MigratedNow | AlreadyMigrated | Superseded

record practice_migration_outcome =
  outcome_status :: practice_migration_status
  outcome_entries :: u32
  outcome_positions :: u32
  outcome_positions_digest :: string
  outcome_entries_digest :: string

definition hash_migration_entry :: "('e deck_env_scheme) \<Rightarrow> string \<Rightarrow> int \<Rightarrow> nat \<Rightarrow> json \<Rightarrow> string result" where
  "hash_migration_entry env file_id number index entry =
     then_result (canonical_bytes env entry) (\<lambda>canonical.
       Inr (sha256 env (bytes_of file_id @ [0] @ bytes_of (show_int number) @ [0] @ bytes_of (show_nat index) @ [0] @ canonical)))"

definition positions_value :: "json list \<Rightarrow> json" where
  "positions_value ps = JObject [(''positions'', JArray ps)]"

fun is_object :: "json \<Rightarrow> bool" where
  "is_object (JObject _) = True"
| "is_object _ = False"

definition parse_legacy_document :: "('e deck_env_scheme) \<Rightarrow> string \<Rightarrow> (json \<times> json list \<times> json list) result" where
  "parse_legacy_document env raw =
     (if PRACTICE_LEGACY_MAX_BYTES < length raw
      then Inl (InvalidInput ''legacy practice document exceeds its size limit'')
      else then_result (ok_or (value_from_slice env (bytes_of raw)) (InvalidInput ''legacy practice document is malformed JSON'')) (\<lambda>v.
        if \<not> is_object v then Inl (InvalidInput ''legacy practice document is not an object'')
        else then_result (ok_or (Option.bind (json_get ''positions'' v) as_array) (InvalidInput ''legacy practice positions are missing'')) (\<lambda>ps.
             then_result (ok_or (Option.bind (json_get ''logs'' v) as_array) (InvalidInput ''legacy practice logs are missing'')) (\<lambda>logs.
             then_result (canonical_bytes env (positions_value ps)) (\<lambda>bs.
               if PRACTICE_POSITIONS_MAX_BYTES < length bs
               then Inl (InvalidInput ''legacy practice positions exceed their size limit'')
               else Inr (v, ps, logs))))))"

definition migration_entries_digest :: "('e deck_env_scheme) \<Rightarrow> review_shard_entry list \<Rightarrow> string result" where
  "migration_entries_digest env entries =
     digest_value env (JArray (map (\<lambda>r. JObject [(''id'', JString (review_id r)), (''entry'', review_entry r)]) entries))"

text \<open>The loop over the logs; \<^term>\<open>index\<close> is the position of the next log.\<close>

fun import_logs ::
    "('e deck_env_scheme) \<Rightarrow> string \<Rightarrow> int \<Rightarrow> nat \<Rightarrow> json list \<Rightarrow> review_shard_envelope list
      \<Rightarrow> review_shard_envelope list result" where
  "import_logs env file_id number index [] shards = Inr shards"
| "import_logs env file_id number index (entry # logs) shards =
     then_result (hash_migration_entry env file_id number index entry) (\<lambda>i.
     then_result (u32_of_len (index + 1)) (\<lambda>revision.
     then_result (append_sealed_review env shards file_id number 0
         \<lparr>review_id = i, rev_of = revision, review_entry = canonical_value entry\<rparr>) (\<lambda>shards.
       import_logs env file_id number (Suc index) logs shards)))"

definition imported_shards ::
    "('e deck_env_scheme) \<Rightarrow> string \<Rightarrow> int \<Rightarrow> json list \<Rightarrow> review_shard_envelope list result" where
  "imported_shards env file_id number logs = import_logs env file_id number 0 logs []"

definition migration_outcome ::
    "('e deck_env_scheme) \<Rightarrow> practice_migration_status \<Rightarrow> review_shard_entry list \<Rightarrow> json list \<Rightarrow> string
      \<Rightarrow> practice_migration_outcome result" where
  "migration_outcome env status entries ps digest =
     then_result (u32_of_len (length entries)) (\<lambda>n.
     then_result (if length ps \<le> U32_MAX then Inr (of_nat (length ps))
                  else Inl (Conflict ''practice position count exceeded u32::MAX'')) (\<lambda>k.
     then_result (migration_entries_digest env entries) (\<lambda>entries_digest.
       Inr \<lparr>outcome_status = status, outcome_entries = n, outcome_positions = k,
            outcome_positions_digest = digest, outcome_entries_digest = entries_digest\<rparr>)))"

subsection \<open>Migration of a deck\<close>

text \<open>A deck that has a positions document: only an unfinished migration state is advanced.\<close>

definition already_migrated ::
    "('e deck_env_scheme) \<Rightarrow> string \<Rightarrow> validated_deck \<Rightarrow> positions_envelope \<Rightarrow> (disk, practice_migration_outcome) io" where
  "already_migrated env hash loaded p =
     bind_io (of_result (ok_or (deck_reconciliation loaded)
       (invalid_leaf (positions_leaf hash) ''practice reconciliation is missing''))) (\<lambda>_.
     bind_io (case deck_state loaded of
         None \<Rightarrow> return_io ()
       | Some state \<Rightarrow>
           if phase state = Migrating
           then write_json (state_to_vec env) (state_leaf hash) (state\<lparr>phase := Migrated\<rparr>) PracticeState ''advance migration state''
           else return_io ()) (\<lambda>_.
     bind_io (of_result (digest_value env (positions_value (positions p)))) (\<lambda>digest.
       of_result (migration_outcome env AlreadyMigrated (history (deck_shards loaded)) (positions p) digest))))"

text \<open>What the legacy document becomes: the state to write, the shards and the positions document.\<close>

record migration_plan =
  plan_state :: migration_state_envelope
  plan_shards :: "review_shard_envelope list"
  plan_positions :: positions_envelope
  plan_digest :: string

definition plan_entries :: "migration_plan \<Rightarrow> review_shard_entry list" where
  "plan_entries plan = concat (map shard_entries (plan_shards plan))"

definition migrated_envelope ::
    "('e deck_env_scheme) \<Rightarrow> string \<Rightarrow> int \<Rightarrow> string \<Rightarrow> json list \<Rightarrow> string \<Rightarrow> review_shard_entry list
      \<Rightarrow> positions_envelope result" where
  "migrated_envelope env file_id number now ps digest entries =
     then_result (u32_of_len (length entries)) (\<lambda>n.
     then_result (if entries = [] then Inr None
                  else then_result (entry_digest env (review_entry (last entries))) (\<lambda>d. Inr (Some d))) (\<lambda>last_digest.
       Inr \<lparr>pos_version = PRACTICE_STORAGE_VERSION, pos_file_id = file_id, pos_game = number, pos_revision = 1,
            pos_generation = 0, last_entry_id = (if entries = [] then None else Some (review_id (last entries))),
            last_entry_digest = last_digest, applied_entries = n, orphan_entries = 0, orphan_acknowledged_count = 0,
            legacy_source_of = LocalStorage, migrated_at = Some now, migrated_entries = Some n,
            migrated_positions_digest = Some digest, positions = ps\<rparr>))"

definition plan_migration ::
    "('e deck_env_scheme) \<Rightarrow> string \<Rightarrow> string \<Rightarrow> int \<Rightarrow> string \<Rightarrow> string \<Rightarrow> migration_state_envelope option \<Rightarrow> bool
      \<Rightarrow> migration_plan result" where
  "plan_migration env hash file_id number now legacy_document state shards_exist =
     then_result (parse_legacy_document env legacy_document) (\<lambda>(legacy_value, ps, logs).
     then_result (digest_value env legacy_value) (\<lambda>digest_of_legacy.
       if (case state of None \<Rightarrow> False
           | Some s \<Rightarrow> phase s = Migrating \<and> shards_exist \<and> legacy_digest s \<noteq> digest_of_legacy)
       then Inl (Conflict ''practice migration is stranded with a different legacy value'')
       else then_result (digest_value env (positions_value ps)) (\<lambda>positions_digest.
            then_result (imported_shards env file_id number logs) (\<lambda>shards.
            then_result (migrated_envelope env file_id number now ps positions_digest (concat (map shard_entries shards))) (\<lambda>p.
            then_result (ensure_positions_size env p (positions_leaf hash)) (\<lambda>_.
              Inr \<lparr>plan_state = \<lparr>state_version = PRACTICE_STORAGE_VERSION, state_file_id = file_id, state_game = number,
                     phase = Migrating, legacy_digest = digest_of_legacy\<rparr>,
                   plan_shards = shards, plan_positions = p, plan_digest = positions_digest\<rparr>))))))"

definition write_state :: "('e deck_env_scheme) \<Rightarrow> string \<Rightarrow> migration_state_envelope \<Rightarrow> string \<Rightarrow> (disk, unit) io" where
  "write_state env hash state operation =
     write_json (state_to_vec env) (state_leaf hash) state PracticeState operation"

text \<open>The removal of what an interrupted migration left behind, and the new shards.\<close>

definition replace_shards ::
    "('e deck_env_scheme) \<Rightarrow> string \<Rightarrow> (string \<times> u32 \<times> u32 \<times> dir_entry) list \<Rightarrow> review_shard_envelope list \<Rightarrow> (disk, unit) io" where
  "replace_shards env hash existing_shards new_shards =
     bind_io (for_io (\<lambda>(leaf, generation, _, kind) _. guard_io (generation = 0 \<and> \<not> is_regular kind)
         (invalid_leaf leaf ''migration shard is not a regular file'')) existing_shards ()) (\<lambda>_.
     bind_io (read_shards env hash 0) (\<lambda>found.
     bind_io (for_io (\<lambda>s _. remove_leaf_if_present (shard_leaf_name s)) found ()) (\<lambda>_.
       for_io (\<lambda>s _. write_json (shard_to_vec env) (shard_leaf hash 0 (shard_ordinal s)) s
         PracticeReviewShard ''write migration shard'') new_shards ())))"

definition read_back_matches :: "('e deck_env_scheme) \<Rightarrow> string \<Rightarrow> review_shard_entry list \<Rightarrow> (disk, unit) io" where
  "read_back_matches env hash expected =
     bind_io (read_shards env hash 0) (\<lambda>read_back.
     bind_io (of_result (migration_entries_digest env (history read_back))) (\<lambda>found_digest.
     bind_io (of_result (migration_entries_digest env expected)) (\<lambda>expected_digest.
       guard_io (found_digest \<noteq> expected_digest) (invalid_leaf (state_leaf hash) ''migration read-back digest differs''))))"

definition run_plan ::
    "('e deck_env_scheme) \<Rightarrow> string \<Rightarrow> (string \<times> u32 \<times> u32 \<times> dir_entry) list \<Rightarrow> migration_plan
      \<Rightarrow> (disk, practice_migration_outcome) io" where
  "run_plan env hash existing_shards plan =
     bind_io (write_state env hash (plan_state plan) ''write migration state'') (\<lambda>_.
     bind_io (replace_shards env hash existing_shards (plan_shards plan)) (\<lambda>_.
     bind_io (read_back_matches env hash (plan_entries plan)) (\<lambda>_.
     bind_io (write_positions env hash (plan_positions plan)) (\<lambda>_.
     bind_io (write_state env hash ((plan_state plan)\<lparr>phase := Migrated\<rparr>) ''advance migration state'') (\<lambda>_.
       of_result (migration_outcome env MigratedNow (plan_entries plan) (positions (plan_positions plan)) (plan_digest plan)))))))"

definition migrate_loaded ::
    "('e deck_env_scheme) \<Rightarrow> string \<Rightarrow> string \<Rightarrow> int \<Rightarrow> string \<Rightarrow> string \<Rightarrow> validated_deck
      \<Rightarrow> (disk, practice_migration_outcome) io" where
  "migrate_loaded env hash file_id number now legacy_document loaded =
     (if map_option phase (deck_state loaded) = Some ResetPhase
      then of_result (migration_outcome env AlreadyMigrated [] [] [])
      else case deck_positions loaded of
             Some p \<Rightarrow> already_migrated env hash loaded p
           | None \<Rightarrow>
               if deck_state loaded = None \<and> deck_shard_leaves loaded \<noteq> []
               then throw_io (Conflict ''practice shards exist without a positions document'')
               else if map_option phase (deck_state loaded) = Some Migrated
               then throw_io (invalid_leaf (state_leaf hash) ''migrated deck has no positions document'')
               else bind_io (of_result (plan_migration env hash file_id number now legacy_document
                        (deck_state loaded) (deck_shard_leaves loaded \<noteq> [])))
                      (run_plan env hash (deck_shard_leaves loaded)))"

definition migrate_practice_deck_in ::
    "('e deck_env_scheme) \<Rightarrow> string \<Rightarrow> int \<Rightarrow> string \<Rightarrow> string \<Rightarrow> (disk, practice_migration_outcome) io" where
  "migrate_practice_deck_in env file_id number now legacy_document =
     (let hash = hash_deck env file_id number
      in with_store_lock hash (bind_io (validated_or_error env hash)
           (migrate_loaded env hash file_id number now legacy_document)))"

subsection \<open>Repair of a deck\<close>

text \<open>The first error stands for itself; later ones tell how many removals went before.\<close>

definition repair_error :: "nat \<Rightarrow> error \<Rightarrow> error" where
  "repair_error removed e = (if 0 < removed then PartialRemoval removed e else e)"

definition repair_remove :: "string \<Rightarrow> nat \<Rightarrow> (disk, nat) io" where
  "repair_remove leaf removed =
     bind_io (map_err (repair_error removed) (remove_leaf_if_present leaf)) (\<lambda>_. return_io (Suc removed))"

definition repair_shard :: "string \<times> u32 \<times> u32 \<times> dir_entry \<Rightarrow> nat \<Rightarrow> (disk, nat) io" where
  "repair_shard s removed =
     (case s of (leaf, _, _, kind) \<Rightarrow>
        if \<not> is_regular kind then throw_io (repair_error removed (invalid_leaf leaf ''repair found a non-regular shard''))
        else repair_remove leaf removed)"

text \<open>The deck document and all shards, with the number of removals.\<close>

definition clear_deck_leaves :: "string \<Rightarrow> (disk, nat) io" where
  "clear_deck_leaves hash =
     bind_io (all_shard_leaves hash) (\<lambda>shards.
     bind_io (repair_remove (positions_leaf hash) 0) (for_io repair_shard shards))"

definition repair_state ::
    "('e deck_env_scheme) \<Rightarrow> string \<Rightarrow> migration_state_envelope option \<Rightarrow> bool \<Rightarrow> nat \<Rightarrow> (disk, unit) io" where
  "repair_state env hash state invalid_state removed =
     (if invalid_state \<or> map_option phase state = Some Migrating
      then bind_io (repair_remove (state_leaf hash) removed) (\<lambda>_. return_io ())
      else case state of
             None \<Rightarrow> return_io ()
           | Some s \<Rightarrow> map_err (repair_error removed)
               (write_json (state_to_vec env) (state_leaf hash) (s\<lparr>phase := ResetPhase\<rparr>) PracticeState ''reset migration state''))"

definition read_state_for_repair ::
    "('e deck_env_scheme) \<Rightarrow> string \<Rightarrow> (disk, migration_state_envelope option \<times> bool) io" where
  "read_state_for_repair env hash =
     bind_io (attempt (read_state env hash)) (\<lambda>r. case r of
         Inr state \<Rightarrow> return_io (state, False)
       | Inl (InvalidInput _) \<Rightarrow> return_io (None, True)
       | Inl e \<Rightarrow> throw_io e)"

definition repair_practice_deck_in :: "('e deck_env_scheme) \<Rightarrow> string \<Rightarrow> int \<Rightarrow> (disk, unit) io" where
  "repair_practice_deck_in env file_id number =
     (let hash = hash_deck env file_id number
      in with_store_lock hash
        (bind_io (read_state_for_repair env hash) (\<lambda>(state, invalid_state).
         bind_io (clear_deck_leaves hash) (repair_state env hash state invalid_state))))"

subsection \<open>The deck of a game of a file\<close>

record practice_deck_load =
  load_epoch :: string
  load_deck :: "practice_deck_snapshot option"

record practice_epoch =
  epoch_text :: string
  epoch_superseded :: bool

definition absent_deck :: error where
  "absent_deck = Conflict ''practice deck is absent''"

definition load_mapped_practice_deck_in ::
    "('e deck_env_scheme) \<Rightarrow> string \<Rightarrow> int \<Rightarrow> (disk, practice_deck_load) io" where
  "load_mapped_practice_deck_in env file_id ordinal =
     with_mapped_deck env file_id ordinal None False (\<lambda>number ep _.
       bind_io (case number of None \<Rightarrow> return_io None | Some n \<Rightarrow> load_practice_deck_in env file_id n) (\<lambda>deck.
         return_io \<lparr>load_epoch = ep, load_deck = deck\<rparr>))"

definition practice_epoch_in :: "('e deck_env_scheme) \<Rightarrow> string \<Rightarrow> int \<Rightarrow> (disk, practice_epoch) io" where
  "practice_epoch_in env file_id ordinal =
     with_mapped_deck env file_id ordinal None False (\<lambda>_ ep superseded.
       return_io \<lparr>epoch_text = ep, epoch_superseded = superseded\<rparr>)"

definition repair_mapped_practice_deck_in ::
    "('e deck_env_scheme) \<Rightarrow> string \<Rightarrow> int \<Rightarrow> string option \<Rightarrow> (disk, unit) io" where
  "repair_mapped_practice_deck_in env file_id ordinal expected_epoch =
     with_map_lock env file_id (bind_io (attempt (read_map env file_id)) (\<lambda>r.
       case r of
         Inl (InvalidInput _) \<Rightarrow>
           bind_io (fresh_map env file_id 0 False) (\<lambda>m.
           bind_io (file_deck_leaves env file_id) (\<lambda>ls.
           bind_io (for_io (\<lambda>hash _. remove_deck_by_hash hash) (sort (remdups (map (\<lambda>(_, hash, _). hash) ls))) ()) (\<lambda>_.
             write_map env m)))
       | Inl e \<Rightarrow> throw_io e
       | Inr m \<Rightarrow>
           if expected_epoch \<noteq> Some (map_epoch m) \<or> (case m of None \<Rightarrow> False | Some m \<Rightarrow> pending m \<noteq> None)
           then throw_io (Conflict ''practice epoch changed or delete is pending'')
           else case (case m of None \<Rightarrow> Some ordinal
                      | Some m \<Rightarrow> if ordinal < 0 then None else ordinal_at m (nat ordinal)) of
                  None \<Rightarrow> return_io ()
                | Some number \<Rightarrow> repair_practice_deck_in env file_id number))"

definition migrate_mapped_practice_deck_in ::
    "('e deck_env_scheme) \<Rightarrow> string \<Rightarrow> int \<Rightarrow> string \<Rightarrow> string \<Rightarrow> string \<Rightarrow> (disk, practice_migration_outcome) io" where
  "migrate_mapped_practice_deck_in env file_id ordinal expected_epoch now legacy_document =
     with_mapped_deck env file_id ordinal (Some expected_epoch) False (\<lambda>number _ superseded.
       if superseded
       then return_io \<lparr>outcome_status = Superseded, outcome_entries = 0, outcome_positions = 0,
              outcome_positions_digest = [], outcome_entries_digest = []\<rparr>
       else bind_io (of_result (ok_or number absent_deck)) (\<lambda>number.
              migrate_practice_deck_in env file_id number now legacy_document))"

definition record_mapped_practice_review_in ::
    "('e deck_env_scheme) \<Rightarrow> string \<Rightarrow> int \<Rightarrow> string \<Rightarrow> practice_review_write \<Rightarrow> (disk, u32) io" where
  "record_mapped_practice_review_in env file_id ordinal expected_epoch w =
     with_mapped_deck env file_id ordinal (Some expected_epoch) False (\<lambda>number _ _.
       bind_io (of_result (ok_or number absent_deck)) (\<lambda>number. record_practice_review_in env file_id number w))"

definition sync_mapped_practice_positions_in ::
    "('e deck_env_scheme) \<Rightarrow> string \<Rightarrow> int \<Rightarrow> string \<Rightarrow> u32 \<Rightarrow> u32 \<Rightarrow> string \<Rightarrow> (disk, u32) io" where
  "sync_mapped_practice_positions_in env file_id ordinal expected_epoch generation revision document =
     with_mapped_deck env file_id ordinal (Some expected_epoch) True (\<lambda>number _ _.
       bind_io (of_result (ok_or number absent_deck)) (\<lambda>number.
         sync_practice_positions_in env file_id number generation revision document))"

definition reset_mapped_practice_deck_in ::
    "('e deck_env_scheme) \<Rightarrow> string \<Rightarrow> int \<Rightarrow> string \<Rightarrow> u32 \<Rightarrow> u32 \<Rightarrow> string \<Rightarrow> (disk, u32) io" where
  "reset_mapped_practice_deck_in env file_id ordinal expected_epoch generation revision document =
     with_mapped_deck env file_id ordinal (Some expected_epoch) True (\<lambda>number _ _.
       bind_io (of_result (ok_or number absent_deck)) (\<lambda>number.
         reset_practice_deck_in env file_id number generation revision document))"

definition load_mapped_practice_reviews_in ::
    "('e deck_env_scheme) \<Rightarrow> string \<Rightarrow> int \<Rightarrow> string \<Rightarrow> string option \<Rightarrow> u32 \<Rightarrow> (disk, practice_review_page) io" where
  "load_mapped_practice_reviews_in env file_id ordinal expected_epoch at_cursor limit =
     with_mapped_deck env file_id ordinal (Some expected_epoch) False (\<lambda>number _ _.
       case number of
         Some n \<Rightarrow> load_practice_reviews_in env file_id n at_cursor limit
       | None \<Rightarrow> return_io \<lparr>page_entries = [], next_cursor = None\<rparr>)"

definition acknowledge_mapped_practice_orphans_in ::
    "('e deck_env_scheme) \<Rightarrow> string \<Rightarrow> int \<Rightarrow> string \<Rightarrow> u32 \<Rightarrow> u32 \<Rightarrow> (disk, unit) io" where
  "acknowledge_mapped_practice_orphans_in env file_id ordinal expected_epoch generation acknowledged_count =
     with_mapped_deck env file_id ordinal (Some expected_epoch) False (\<lambda>number _ _.
       bind_io (of_result (ok_or number absent_deck)) (\<lambda>number.
         acknowledge_practice_orphans_in env file_id number generation acknowledged_count))"

end
