(* ===== verification/PracticeLoad.thy ===== *)
theory PracticeLoad
  imports PracticeDeck
begin

text \<open>
  What reading a deck guarantees (\<^verbatim>\<open>read_shards\<close>, \<^verbatim>\<open>reconcile\<close>, \<^verbatim>\<open>load_valid_deck\<close>): the shards it returns
  are those of the directory, none is empty, and the counts of the reconciliation are the lengths
  of the history.
\<close>

definition entries_of :: "shard_file \<Rightarrow> review_shard_entry list" where
  "entries_of s = shard_entries (envelope s)"

subsection \<open>What a loaded deck guarantees\<close>

lemma sum_entries_Inr:
  "sum_entries acc shards = Inr n \<Longrightarrow> unat n = unat acc + length (history shards)"
proof (induction shards arbitrary: acc)
  case (Cons s ss)
  have "unat (of_nat k :: u32) = k" if "k \<le> U32_MAX" for k
    using that by (simp add: unat_of_nat U32_MAX_def)
  thus ?case using Cons
    by (auto simp: then_result_eq_Inr u32_of_len_def ok_or_def history_def
        split: if_splits option.splits dest!: checked_add_Some_unat)
qed (simp add: history_def)

lemma u32_bound: "unat (w :: u32) \<le> U32_MAX"
  using unsigned_less [where w = w and ?'a = nat] by (simp add: U32_MAX_def)

lemma reconcile_Inr:
  assumes "reconcile p shards leaf = Inr rc"
  shows "unat (total_entries rc) = length (history shards)" "applied_entries p \<le> total_entries rc"
    "unat (reconciled_orphans rc) = unat (orphan_entries p) + (length (history shards) - unat (applied_entries p))"
    "length (history shards) \<le> U32_MAX"
proof -
  obtain n where n: "sum_entries 0 shards = Inr n" "applied_entries p \<le> n" "total_entries rc = n"
    "checked_add (orphan_entries p) (n - applied_entries p) = Some (reconciled_orphans rc)"
    using assms by (auto simp: reconcile_def then_result_eq_Inr ok_or_def split: if_splits option.splits)
  have len: "unat n = length (history shards)" using sum_entries_Inr [OF n(1)] by simp
  show "unat (total_entries rc) = length (history shards)" "applied_entries p \<le> total_entries rc"
    using n len by auto
  show "unat (reconciled_orphans rc) = unat (orphan_entries p) + (length (history shards) - unat (applied_entries p))"
    using checked_add_Some_unat [OF n(4)] n(2) len by (simp add: unat_sub word_le_nat_alt)
  show "length (history shards) \<le> U32_MAX" using len u32_bound [of n] by simp
qed

definition shard_valid :: "('e deck_env_scheme) \<Rightarrow> string \<Rightarrow> u32 \<Rightarrow> shard_file \<Rightarrow> bool" where
  "shard_valid env hash generation s \<longleftrightarrow> entries_of s \<noteq> [] \<and> shard_generation (envelope s) = generation
     \<and> parse_owned_leaf (shard_leaf_name s) = Some (ShardLeaf hash generation (shard_ordinal (envelope s)))"

text \<open>One directory entry either is not a shard of the deck or contributes its document.\<close>

definition shard_of_deck :: "string \<Rightarrow> u32 \<Rightarrow> string \<Rightarrow> bool" where
  "shard_of_deck hash generation name \<longleftrightarrow> (\<exists>n. parse_owned_leaf name = Some (ShardLeaf hash generation n))"

lemma read_shard_entry_other:
  "\<not> shard_of_deck hash generation (fst e) \<Longrightarrow> read_shard_entry env hash generation e acc = return_io acc"
  by (auto simp: read_shard_entry_def shard_of_deck_def split: option.splits owned_leaf.splits)

lemma read_shard_entry_Inr:
  assumes "read_shard_entry env hash generation e acc d = (Inr acc', d')" "shard_of_deck hash generation (fst e)"
  shows "\<exists>v. acc' = acc @ [\<lparr>shard_leaf_name = fst e, envelope = v\<rparr>]
     \<and> shard_valid env hash generation \<lparr>shard_leaf_name = fst e, envelope = v\<rparr>
     \<and> read_json (shard_from_slice env) (fst e) PRACTICE_LEGACY_MAX_BYTES ''read review shard'' d = (Inr (Some v), d')"
proof -
  obtain n where n: "parse_owned_leaf (fst e) = Some (ShardLeaf hash generation n)"
    using assms(2) by (auto simp: shard_of_deck_def)
  obtain v where "check_shard env hash generation (fst e) n v = Inr ()"
    and "acc' = acc @ [\<lparr>shard_leaf_name = fst e, envelope = v\<rparr>]"
    and "read_json (shard_from_slice env) (fst e) PRACTICE_LEGACY_MAX_BYTES ''read review shard'' d = (Inr (Some v), d')"
    using assms(1) by (auto simp: read_shard_entry_def n bind_io_eq_Inr ok_or_def split: if_split_asm option.split_asm)
  thus ?thesis using n
    by (auto simp: check_shard_def then_result_eq_Inr shard_valid_def entries_of_def split: if_split_asm)
qed

lemma read_shard_entry_valid:
  "read_shard_entry env hash generation e acc d = (Inr acc', d') \<Longrightarrow>
   \<forall>s \<in> set acc. shard_valid env hash generation s \<Longrightarrow> \<forall>s \<in> set acc'. shard_valid env hash generation s"
  by (cases "shard_of_deck hash generation (fst e)")
    (auto simp: read_shard_entry_other dest!: read_shard_entry_Inr)

lemma for_io_invariant:
  assumes "\<And>x a s a' s'. P a \<Longrightarrow> f x a s = (Inr a', s') \<Longrightarrow> P a'" "P a" "for_io f xs a s = (Inr a', s')"
  shows "P a'"
  using assms(2,3) by (induction xs arbitrary: a s) (auto simp: bind_io_eq_Inr dest: assms(1))

lemma read_shards_valid:
  assumes "read_shards env hash generation d = (Inr shards, d')"
  shows "\<forall>s \<in> set shards. shard_valid env hash generation s"
proof -
  obtain es d1 unsorted where "for_io (read_shard_entry env hash generation) es [] d1 = (Inr unsorted, d')"
    "shards = sort_key (shard_ordinal \<circ> envelope) unsorted"
    using assms by (auto simp: read_shards_def bind_io_eq_Inr)
  thus ?thesis
    using for_io_invariant [where P = "\<lambda>ss. \<forall>s \<in> set ss. shard_valid env hash generation s"
        and f = "read_shard_entry env hash generation" and a = "[]"] read_shard_entry_valid
    by (metis empty_iff list.set(1) set_sort)
qed

lemma attempt_eq: "attempt m s = (Inr r, s') \<longleftrightarrow> m s = (r, s')"
  by (auto simp: attempt_def split: prod.splits)

lemma bind_attempt: "m s = (r, s') \<Longrightarrow> bind_io (attempt m) f s = f r s'"
  by (simp add: bind_io_def attempt_def)

lemma validated_deck_Some:
  assumes "read_validated_deck env hash d = (Inr (Inr v), d')" "deck_positions v = Some p"
  shows "\<exists>state d1 d2 rc. read_state env hash d = (Inr state, d1) \<and> read_positions env hash d1 = (Inr (Some p), d2)
     \<and> read_shards env hash (pos_generation p) d2 = (Inr (deck_shards v), d')
     \<and> reconcile p (deck_shards v) (positions_leaf hash) = Inr rc \<and> deck_reconciliation v = Some rc"
proof -
  obtain sr d1 where sr: "read_state env hash d = (sr, d1)" by force
  obtain pr d2 where pr: "read_positions env hash d1 = (pr, d2)" by force
  note run = assms(1) [unfolded read_validated_deck_def bind_attempt [where m = "read_state env hash", OF sr]
      bind_attempt [where m = "read_positions env hash", OF pr]]
  obtain state where state: "sr = Inr state" using run by (cases sr) auto
  obtain found where found: "pr = Inr found" using run state by (cases pr) (auto simp: Let_def)
  show ?thesis
  proof (cases found)
    case None
    obtain r d3 where r: "all_shard_leaves hash d2 = (r, d3)" by force
    show ?thesis
      using run assms(2) unfolding state found None Let_def sum.case option.case bind_attempt [where m = "all_shard_leaves hash", OF r]
      by (cases r) auto
  next
    case (Some q)
    obtain r d3 where r: "read_shards env hash (pos_generation q) d2 = (r, d3)" by force
    show ?thesis
      using run assms(2) sr pr r unfolding state found Some Let_def sum.case option.case bind_attempt [where m = "read_shards env hash (pos_generation q)", OF r]
      by (cases r) (auto split: sum.splits)
  qed
qed

lemma validated_or_error_Inr:
  "validated_or_error env hash d = (Inr v, d') \<longleftrightarrow> read_validated_deck env hash d = (Inr (Inr v), d')"
  by (cases "read_validated_deck env hash d") (auto simp: validated_or_error_def bind_io_def split: sum.splits)

lemma load_valid_deck_Some:
  assumes "load_valid_deck env hash d = (Inr (Some (p, shards, rc)), d')"
  shows "\<exists>state d1 d2. read_state env hash d = (Inr state, d1) \<and> read_positions env hash d1 = (Inr (Some p), d2)
     \<and> read_shards env hash (pos_generation p) d2 = (Inr shards, d') \<and> reconcile p shards (positions_leaf hash) = Inr rc"
proof -
  obtain v d1 where v: "validated_or_error env hash d = (Inr v, d1)"
    using assms by (auto simp: load_valid_deck_def bind_io_eq_Inr)
  have "deck_positions v = Some p \<and> deck_shards v = shards \<and> deck_reconciliation v = Some rc \<and> d1 = d'"
    using assms unfolding load_valid_deck_def bind_io_Inr [where m = "validated_or_error env hash", OF v]
    by (cases "deck_positions v"; cases "deck_reconciliation v") (auto split: if_split_asm)
  thus ?thesis using validated_deck_Some [OF v [unfolded validated_or_error_Inr]] by fastforce
qed

end
