(* ===== verification/PracticeReviews.thy ===== *)
theory PracticeReviews
  imports PracticeLoad
begin

text \<open>
  The documents of a deck as the directory holds them: which shards a read returns, what appending a
  review to the last shard and replacing the positions document do to them, and how a review
  changes the counts of the deck, on the first attempt and on a retry.
\<close>

subsection \<open>Canonical documents\<close>

lemma canonical_value_idem [simp]: "canonical_value (canonical_value v) = canonical_value v"
proof (induction v rule: canonical_value.induct)
  case (2 members)
  let ?ms = "sort_key fst (map (\<lambda>(k, v). (k, canonical_value v)) members)"
  have "map (\<lambda>(k, v). (k, canonical_value v)) ?ms = ?ms"
    using 2 by (intro map_idI) (auto split: prod.splits)
  moreover have "sort_key fst ?ms = ?ms" by (rule sort_key_id_if_sorted) simp
  ultimately show ?case by simp
qed (auto simp: comp_def)

subsection \<open>The documents of a deck in the directory\<close>

definition positions_at :: "('e deck_env_scheme) \<Rightarrow> string \<Rightarrow> disk \<Rightarrow> positions_envelope option" where
  "positions_at env hash d =
     (case map_of (leaves d) (positions_leaf hash) of Some (RegularFile bs) \<Rightarrow> positions_from_slice env bs | _ \<Rightarrow> None)"

definition shard_at :: "('e deck_env_scheme) \<Rightarrow> string \<Rightarrow> u32 \<Rightarrow> disk \<Rightarrow> u32 \<Rightarrow> review_shard_envelope option" where
  "shard_at env hash generation d n =
     (case map_of (leaves d) (shard_leaf hash generation n) of Some (RegularFile bs) \<Rightarrow> shard_from_slice env bs | _ \<Rightarrow> None)"

text \<open>The directory lists a name once, and the shards of the deck under the names the store gives them.\<close>

definition names_ok :: "string \<Rightarrow> u32 \<Rightarrow> disk \<Rightarrow> bool" where
  "names_ok hash generation d \<longleftrightarrow> distinct (map fst (leaves d))
     \<and> (\<forall>name \<in> fst ` set (leaves d). \<forall>n. parse_owned_leaf name = Some (ShardLeaf hash generation n) \<longrightarrow> name = shard_leaf hash generation n)"

definition same_deck :: "string \<Rightarrow> u32 \<Rightarrow> disk \<Rightarrow> disk \<Rightarrow> bool" where
  "same_deck hash generation d d' \<longleftrightarrow>
     map_of (leaves d') (positions_leaf hash) = map_of (leaves d) (positions_leaf hash)
     \<and> (\<forall>n. map_of (leaves d') (shard_leaf hash generation n) = map_of (leaves d) (shard_leaf hash generation n))
     \<and> (names_ok hash generation d \<longrightarrow> names_ok hash generation d')"

interpretation deck: disk_frame "same_deck hash generation" for hash generation
proof unfold_locales
  show "same_deck hash generation d (d\<lparr>ops_done := n\<rparr>)" for d n by (simp add: same_deck_def names_ok_def)
  show "same_deck hash generation d d' \<Longrightarrow> same_deck hash generation d' d'' \<Longrightarrow> same_deck hash generation d d''" for d d' d''
    unfolding same_deck_def by simp
qed

lemma reads_only_deck: "reads_only m \<Longrightarrow> frame (same_deck hash generation) m"
  by (simp add: frame_def same_leaves_def same_deck_def names_ok_def)

lemma same_deck_docs: "same_deck hash generation d d' \<Longrightarrow>
    positions_at env hash d' = positions_at env hash d \<and> shard_at env hash generation d' = shard_at env hash generation d"
  by (simp add: same_deck_def positions_at_def shard_at_def fun_eq_iff)

subsection \<open>The shards a read returns\<close>

abbreviation ordinal_of :: "shard_file \<Rightarrow> u32" where
  "ordinal_of \<equiv> shard_ordinal \<circ> envelope"

definition lists_shards :: "string \<Rightarrow> u32 \<Rightarrow> (u32 \<Rightarrow> review_shard_envelope option) \<Rightarrow> shard_file list \<Rightarrow> bool" where
  "lists_shards hash generation docs shards \<longleftrightarrow>
     sorted (map ordinal_of shards) \<and> distinct (map ordinal_of shards)
     \<and> (\<forall>s \<in> set shards. shard_leaf_name s = shard_leaf hash generation (ordinal_of s) \<and> docs (ordinal_of s) = Some (envelope s))
     \<and> (\<forall>n v. docs n = Some v \<longrightarrow> n \<in> ordinal_of ` set shards)"

lemma lists_shardsD:
  assumes "lists_shards hash generation docs shards"
  shows "sorted (map ordinal_of shards)" "distinct (map ordinal_of shards)"
    "\<And>s. s \<in> set shards \<Longrightarrow> shard_leaf_name s = shard_leaf hash generation (ordinal_of s) \<and> docs (ordinal_of s) = Some (envelope s)"
    "\<And>n v. docs n = Some v \<Longrightarrow> n \<in> ordinal_of ` set shards"
  using assms unfolding lists_shards_def by blast+

lemma lists_shards_unique:
  assumes "lists_shards hash generation docs xs" "lists_shards hash generation docs ys"
  shows "xs = ys"
proof (rule map_sorted_distinct_set_unique [where f = ordinal_of])
  have same: "s = t" if "s \<in> set xs \<union> set ys" "t \<in> set xs \<union> set ys" "ordinal_of s = ordinal_of t" for s t
  proof -
    have "shard_leaf_name s = shard_leaf_name t" "Some (envelope s) = Some (envelope t)"
      using that assms unfolding lists_shards_def by (metis Un_iff)+
    thus ?thesis by simp
  qed
  thus "inj_on ordinal_of (set xs \<union> set ys)" by (auto simp: inj_on_def)
  have "s \<in> set bs" if "lists_shards hash generation docs as" "lists_shards hash generation docs bs" "set as \<union> set bs = set xs \<union> set ys"
      "s \<in> set as" for as bs s
  proof -
    have "ordinal_of s \<in> ordinal_of ` set bs" using that unfolding lists_shards_def by blast
    then obtain t where "t \<in> set bs" "ordinal_of s = ordinal_of t" by auto
    thus ?thesis using same [of s t] that(3,4) by (metis Un_iff)
  qed
  thus "set xs = set ys" using assms by (metis Un_commute subsetI subset_antisym)
qed (use assms in \<open>auto simp: lists_shards_def\<close>)

lemma shard_leaf_inj: "valid_hash hash \<Longrightarrow> shard_leaf hash generation m = shard_leaf hash generation n \<longleftrightarrow> m = n"
  using parse_owned_leaf_names(4) [of hash generation] by (metis option.inject owned_leaf.inject(3))

lemma reads_only_read_shards: "reads_only (read_shards env hash generation)"
proof -
  have "reads_only (read_shard_entry env hash generation e acc)" for e acc
    unfolding read_shard_entry_def
    by (auto intro!: reads_intros reads_only_read_json split: option.splits owned_leaf.splits)
  thus ?thesis unfolding read_shards_def by (intro reads_intros reads_only_prims)
qed

text \<open>What a successful read of a document says about its leaf.\<close>

lemma wp_faulty [wp_rules]:
  "wp (faulty act) Q E d = (case fault_at d (ops_done d) of
     Fails e \<Rightarrow> E e (d\<lparr>ops_done := Suc (ops_done d)\<rparr>) | _ \<Rightarrow> wp act Q E (d\<lparr>ops_done := Suc (ops_done d)\<rparr>))"
  by (simp add: wp_def faulty_def next_fault_def split: fault.splits)

lemma wp_pair [wp_rules]: "wp (\<lambda>d. (Inr (f d), g d)) Q E d = Q (f d) (g d)"
  by (simp add: wp_def)

lemma wp_frame:
  assumes "frame R m" "\<And>x d'. R d d' \<Longrightarrow> Q x d'" "\<And>e d'. R d d' \<Longrightarrow> E e d'"
  shows "wp m Q E d"
proof -
  have "R d (snd (m d))" using assms(1) by (simp add: frame_def)
  thus ?thesis using assms(2,3) by (auto simp: wp_def split: prod.splits sum.splits)
qed

lemma wp_open_regular:
  "(\<And>bs d'. map_of (leaves d) leaf = Some (RegularFile bs) \<Longrightarrow> Q bs d') \<Longrightarrow> (\<And>e d'. E e d') \<Longrightarrow>
   wp (open_regular_relative leaf) Q E d"
  by (auto simp: wp_def open_regular_relative_def faulty_def next_fault_def split: fault.splits option.splits dir_entry.splits)

lemma read_json_Some:
  assumes "read_json dec leaf mx what d = (Inr (Some v), d')"
  shows "\<exists>bs. map_of (leaves d) leaf = Some (RegularFile bs) \<and> dec bs = Some v"
proof -
  have "wp (read_json dec leaf mx what)
      (\<lambda>r _. \<forall>v. r = Some v \<longrightarrow> (\<exists>bs. map_of (leaves d) leaf = Some (RegularFile bs) \<and> dec bs = Some v)) (\<lambda>_ _. True) d"
    unfolding read_json_def read_leaf_bytes_def wp_bind wp_attempt sum.case
    by (rule wp_open_regular)
      (auto simp: wp_rules file_len_def read_bounded_bytes_def split: fault.splits option.splits)
  from wp_Inr [OF this assms] show ?thesis by simp
qed

definition document_of :: "('e deck_env_scheme) \<Rightarrow> (string \<times> dir_entry) list \<Rightarrow> shard_file \<Rightarrow> bool" where
  "document_of env ls s \<longleftrightarrow>
     (\<exists>bs. map_of ls (shard_leaf_name s) = Some (RegularFile bs) \<and> shard_from_slice env bs = Some (envelope s))"

lemma read_shard_entries:
  assumes "for_io (read_shard_entry env hash generation) es acc d = (Inr shards, d')"
  shows "\<exists>docs. shards = acc @ docs
     \<and> map shard_leaf_name docs = filter (shard_of_deck hash generation) (map fst es)
     \<and> (\<forall>s \<in> set docs. shard_valid env hash generation s \<and> document_of env (leaves d) s)"
  using assms
proof (induction es arbitrary: acc d)
  case (Cons e es)
  then obtain acc1 d1 where step: "read_shard_entry env hash generation e acc d = (Inr acc1, d1)"
    and rest: "for_io (read_shard_entry env hash generation) es acc1 d1 = (Inr shards, d')"
    by (auto simp: bind_io_eq_Inr)
  obtain docs where docs: "shards = acc1 @ docs"
      "map shard_leaf_name docs = filter (shard_of_deck hash generation) (map fst es)"
      "\<forall>s \<in> set docs. shard_valid env hash generation s \<and> document_of env (leaves d1) s"
    using Cons.IH [OF rest] by blast
  show ?case
  proof (cases "shard_of_deck hash generation (fst e)")
    case False
    thus ?thesis using docs step by (auto simp: read_shard_entry_other)
  next
    case True
    obtain v where v: "acc1 = acc @ [\<lparr>shard_leaf_name = fst e, envelope = v\<rparr>]"
      "shard_valid env hash generation \<lparr>shard_leaf_name = fst e, envelope = v\<rparr>"
      "read_json (shard_from_slice env) (fst e) PRACTICE_LEGACY_MAX_BYTES ''read review shard'' d = (Inr (Some v), d1)"
      using read_shard_entry_Inr [OF step True] by blast
    have "leaves d1 = leaves d"
      using reads_only_read_json [of "shard_from_slice env" "fst e"] v(3) by (metis frame_def same_leaves_def snd_conv)
    moreover have "document_of env (leaves d) \<lparr>shard_leaf_name = fst e, envelope = v\<rparr>"
      using read_json_Some [OF v(3)] by (simp add: document_of_def)
    ultimately show ?thesis
      using docs v True by (intro exI [of _ "\<lparr>shard_leaf_name = fst e, envelope = v\<rparr> # docs"]) auto
  qed
qed simp

lemma read_shards_lists:
  assumes "valid_hash hash" "names_ok hash generation d" "read_shards env hash generation d = (Inr shards, d')"
  shows "lists_shards hash generation (shard_at env hash generation d) shards"
proof -
  obtain es d1 unsorted where es: "dir_entries d = (Inr es, d1)"
    and loop: "for_io (read_shard_entry env hash generation) es [] d1 = (Inr unsorted, d')"
    and shards: "shards = sort_key ordinal_of unsorted"
    using assms(3) by (auto simp: read_shards_def bind_io_eq_Inr)
  have d1: "es = leaves d" "leaves d1 = leaves d"
    using es by (auto simp: dir_entries_def faulty_def next_fault_def split: fault.splits)
  have names: "map shard_leaf_name unsorted = filter (shard_of_deck hash generation) (map fst (leaves d))"
    and valid: "\<forall>s \<in> set unsorted. shard_valid env hash generation s \<and> document_of env (leaves d) s"
    using read_shard_entries [OF loop] d1 by auto
  have name: "shard_leaf_name s = shard_leaf hash generation (ordinal_of s)" if "s \<in> set unsorted" for s
  proof -
    have "shard_leaf_name s \<in> fst ` set (leaves d)" using names that by (metis filter_is_subset image_set list.set_map subsetD imageI)
    thus ?thesis using assms(2) valid that by (auto simp: names_ok_def shard_valid_def)
  qed
  have "distinct (map shard_leaf_name unsorted)" using names assms(2) by (simp add: names_ok_def)
  moreover have "map shard_leaf_name unsorted = map (shard_leaf hash generation) (map ordinal_of unsorted)"
    using name by simp
  ultimately have dist: "distinct (map ordinal_of unsorted)" by (metis distinct_map)
  have doc: "shard_at env hash generation d (ordinal_of s) = Some (envelope s)" if "s \<in> set unsorted" for s
    using valid that name [OF that] by (auto simp: shard_at_def document_of_def)
  have all: "n \<in> ordinal_of ` set unsorted" if "shard_at env hash generation d n = Some v" for n v
  proof -
    have "shard_leaf hash generation n \<in> fst ` set (leaves d)"
      using that by (auto simp: shard_at_def map_of_eq_None_iff split: option.splits dest: map_of_SomeD intro: rev_image_eqI)
    moreover have "shard_of_deck hash generation (shard_leaf hash generation n)"
      using parse_owned_leaf_names(4) [OF assms(1)] by (simp add: shard_of_deck_def)
    ultimately have "shard_leaf hash generation n \<in> set (map shard_leaf_name unsorted)" by (simp add: names)
    then obtain s where "s \<in> set unsorted" "shard_leaf hash generation n = shard_leaf_name s" by auto
    thus ?thesis using name shard_leaf_inj [OF assms(1)] by auto
  qed
  show ?thesis
    unfolding lists_shards_def shards using name doc all dist
    by (auto simp: distinct_map)
qed

subsection \<open>Appending a review\<close>

lemma lists_shards_none: "lists_shards hash generation docs [] \<Longrightarrow> docs = (\<lambda>_. None)"
  by (auto simp: lists_shards_def fun_eq_iff)

lemma lists_shards_replace:
  assumes "lists_shards hash generation docs (xs @ [l])" "shard_ordinal v = ordinal_of l"
  shows "lists_shards hash generation (docs(shard_ordinal v \<mapsto> v)) (xs @ [l\<lparr>envelope := v\<rparr>])"
proof -
  let ?l = "l\<lparr>envelope := v\<rparr>"
  have ords: "map ordinal_of (xs @ [?l]) = map ordinal_of (xs @ [l])" using assms(2) by simp
  have other: "ordinal_of s \<noteq> shard_ordinal v" if "s \<in> set xs" for s
    using lists_shardsD(2) [OF assms(1)] assms(2) that by (auto simp: rev_image_eqI)
  have "shard_leaf_name s = shard_leaf hash generation (ordinal_of s) \<and> (docs(shard_ordinal v \<mapsto> v)) (ordinal_of s) = Some (envelope s)"
    if "s \<in> set (xs @ [?l])" for s
  proof (cases "s \<in> set xs")
    case True
    thus ?thesis using lists_shardsD(3) [OF assms(1), of s] other [OF True] by simp
  next
    case False
    hence "s = ?l" using that by simp
    thus ?thesis using lists_shardsD(3) [OF assms(1), of l] assms(2) by simp
  qed
  moreover have "n \<in> ordinal_of ` set (xs @ [?l])" if "(docs(shard_ordinal v \<mapsto> v)) n = Some w" for n w
  proof -
    have "n \<in> ordinal_of ` set (xs @ [l])"
      using lists_shardsD(4) [OF assms(1)] assms(2) that by (cases "n = shard_ordinal v") auto
    thus ?thesis using ords by (metis list.set_map)
  qed
  ultimately show ?thesis
    using lists_shardsD(1,2) [OF assms(1)] unfolding lists_shards_def ords by blast
qed

lemma lists_shards_snoc:
  assumes "lists_shards hash generation docs xs" "\<forall>s \<in> set xs. ordinal_of s < shard_ordinal v"
  shows "lists_shards hash generation (docs(shard_ordinal v \<mapsto> v))
    (xs @ [\<lparr>shard_leaf_name = shard_leaf hash generation (shard_ordinal v), envelope = v\<rparr>])"
proof -
  let ?s = "\<lparr>shard_leaf_name = shard_leaf hash generation (shard_ordinal v), envelope = v\<rparr>"
  have "sorted (map ordinal_of (xs @ [?s]))"
    using lists_shardsD(1) [OF assms(1)] assms(2) by (auto simp: sorted_append intro: less_imp_le)
  moreover have "distinct (map ordinal_of (xs @ [?s]))"
    using lists_shardsD(2) [OF assms(1)] assms(2) by auto
  moreover have "shard_leaf_name s = shard_leaf hash generation (ordinal_of s) \<and> (docs(shard_ordinal v \<mapsto> v)) (ordinal_of s) = Some (envelope s)"
    if "s \<in> set (xs @ [?s])" for s
    using that lists_shardsD(3) [OF assms(1), of s] assms(2) by (cases "s \<in> set xs") auto
  moreover have "n \<in> ordinal_of ` set (xs @ [?s])" if "(docs(shard_ordinal v \<mapsto> v)) n = Some w" for n w
    using lists_shardsD(4) [OF assms(1), of n] that by (cases "n = shard_ordinal v") auto
  ultimately show ?thesis unfolding lists_shards_def by blast
qed

lemma append_sealed_result:
  assumes "lists_shards hash generation docs shards"
    "append_sealed_review env (if shards = [] then [] else [envelope (last shards)]) file_id number generation review = Inr nxt"
  shows "nxt \<noteq> [] \<and> (\<exists>shards'. lists_shards hash generation (docs(shard_ordinal (last nxt) \<mapsto> last nxt)) shards'
    \<and> history shards' = history shards @ [review])"
proof (cases "shards = []")
  case True
  let ?v = "\<lparr>shard_version = PRACTICE_STORAGE_VERSION, shard_file_id = file_id, shard_game = number,
    shard_generation = generation, shard_ordinal = 0, shard_entries = [review]\<rparr>"
  have "nxt = [?v]" using assms(2) True by (auto simp: append_sealed_review_def)
  moreover have "lists_shards hash generation (docs(shard_ordinal ?v \<mapsto> ?v))
      ([] @ [\<lparr>shard_leaf_name = shard_leaf hash generation (shard_ordinal ?v), envelope = ?v\<rparr>])"
    using assms(1) True by (intro lists_shards_snoc) auto
  ultimately show ?thesis using True by (auto simp: history_def)
next
  case False
  then obtain xs l where l: "shards = xs @ [l]" by (metis append_butlast_last_id)
  have sorted: "\<forall>s \<in> set shards. ordinal_of s \<le> ordinal_of l"
    using lists_shardsD(1) [OF assms(1)] l by (auto simp: sorted_append)
  let ?c = "(envelope l)\<lparr>shard_entries := shard_entries (envelope l) @ [review]\<rparr>"
  consider "nxt = [?c]"
    | n where "next_counter (ordinal_of l) ''shard ordinal'' = Inr n"
        "nxt = [envelope l, \<lparr>shard_version = PRACTICE_STORAGE_VERSION, shard_file_id = file_id, shard_game = number,
          shard_generation = generation, shard_ordinal = n, shard_entries = [review]\<rparr>]"
    using assms(2) l by (auto simp: append_sealed_review_def Let_def then_result_eq_Inr split: if_splits)
  thus ?thesis
  proof cases
    case 1
    have "lists_shards hash generation (docs(shard_ordinal ?c \<mapsto> ?c)) (xs @ [l\<lparr>envelope := ?c\<rparr>])"
      using assms(1) l by (intro lists_shards_replace) auto
    thus ?thesis using 1 l by (auto simp: history_def)
  next
    case (2 n)
    have "ordinal_of l < n" using 2(1) by (auto simp: next_counter_def ok_or_def checked_add_one_less split: option.splits)
    hence "\<forall>s \<in> set shards. ordinal_of s < n" using sorted by auto
    thus ?thesis using 2(2) lists_shards_snoc [OF assms(1), of "last nxt"] by (auto simp: history_def)
  qed
qed

subsection \<open>Writing documents\<close>

lemma wp_write_json:
  assumes "\<And>bs d'. to_vec v = Some bs \<Longrightarrow> leaves d' = AList.update leaf (RegularFile bs) (leaves d) \<Longrightarrow> Q () d'"
    "\<And>e d'. leaves d' = leaves d \<or> (\<exists>bs. to_vec v = Some bs \<and> leaves d' = AList.update leaf (RegularFile bs) (leaves d)) \<Longrightarrow> E e d'"
  shows "wp (write_json to_vec leaf v stage what) Q E d"
proof (cases "to_vec v")
  case None
  thus ?thesis using assms(2) by (simp add: write_json_def wp_throw)
next
  case (Some bs)
  thus ?thesis using assms
    by (auto simp: write_json_def write_json_bytes_def wp_rules wp_def [of "atomic_replace_leaf leaf bs"]
        atomic_replace_leaf_def next_fault_def split: fault.splits)
qed

lemma names_ok_update:
  assumes "names_ok hash generation d" "leaves d' = AList.update leaf e (leaves d)"
    "\<And>n. parse_owned_leaf leaf = Some (ShardLeaf hash generation n) \<Longrightarrow> leaf = shard_leaf hash generation n"
  shows "names_ok hash generation d'"
  using assms by (auto simp: names_ok_def AList.distinct_update dom_update)

subsection \<open>The stages of a recorded review\<close>

definition canonical_positions :: "positions_envelope \<Rightarrow> positions_envelope" where
  "canonical_positions p = p\<lparr>positions := map canonical_value (positions p)\<rparr>"

definition deck_holds :: "('e deck_env_scheme) \<Rightarrow> string \<Rightarrow> disk \<Rightarrow> positions_envelope \<Rightarrow> shard_file list \<Rightarrow> bool" where
  "deck_holds env hash d raw shards \<longleftrightarrow> names_ok hash (pos_generation raw) d \<and> positions_at env hash d = Some raw
     \<and> lists_shards hash (pos_generation raw) (shard_at env hash (pos_generation raw) d) shards"

lemma read_positions_Some:
  assumes "read_positions env hash d = (Inr (Some p), d')"
  shows "\<exists>raw. positions_at env hash d = Some raw \<and> p = canonical_positions raw"
proof -
  obtain raw where raw: "\<exists>d1. read_json (positions_from_slice env) (positions_leaf hash) PRACTICE_POSITIONS_MAX_BYTES ''read positions'' d = (Inr (Some raw), d1)"
    and "p = canonical_positions raw"
    using assms by (auto simp: read_positions_def Let_def bind_io_eq_Inr canonical_positions_def split: option.split_asm if_split_asm)
  thus ?thesis using read_json_Some by (fastforce simp: positions_at_def)
qed

lemma reads_only_read_positions: "reads_only (read_positions env hash)" "reads_only (read_state env hash)"
  unfolding read_positions_def read_state_def Let_def
  by (auto intro!: reads_intros reads_only_read_json split: option.splits)

lemma reads_only_load_valid_deck: "reads_only (load_valid_deck env hash)"
  unfolding load_valid_deck_def validated_or_error_def read_validated_deck_def Let_def
  by (auto intro!: reads_intros reads_only_read_positions reads_only_read_shards reads_only_shards split: option.splits sum.splits)

lemma load_holds:
  assumes "valid_hash hash" "deck_holds env hash d raw shards" "load_valid_deck env hash d = (Inr (Some (p, shards', rc)), d')"
  shows "p = canonical_positions raw \<and> shards' = shards \<and> reconcile p shards (positions_leaf hash) = Inr rc"
proof -
  obtain state d1 d2 where s: "read_state env hash d = (Inr state, d1)" and p: "read_positions env hash d1 = (Inr (Some p), d2)"
    and sh: "read_shards env hash (pos_generation p) d2 = (Inr shards', d')" and rc: "reconcile p shards' (positions_leaf hash) = Inr rc"
    using load_valid_deck_Some [OF assms(3)] by blast
  have same: "leaves d1 = leaves d" "leaves d2 = leaves d"
    using s p reads_only_read_positions [of env hash] by (metis frame_def same_leaves_def snd_conv)+
  have raw: "p = canonical_positions raw"
    using read_positions_Some [OF p] assms(2) same by (auto simp: deck_holds_def positions_at_def)
  have g: "pos_generation p = pos_generation raw" by (simp add: raw canonical_positions_def)
  have "lists_shards hash (pos_generation raw) (shard_at env hash (pos_generation raw) d2) shards'"
    using assms(2) same by (intro read_shards_lists [OF assms(1) _ sh [unfolded g]]) (simp add: deck_holds_def names_ok_def)
  moreover have "shard_at env hash (pos_generation raw) d2 = shard_at env hash (pos_generation raw) d"
    using same by (simp add: shard_at_def fun_eq_iff)
  ultimately have "shards' = shards"
    using assms(2) lists_shards_unique by (auto simp: deck_holds_def)
  thus ?thesis using raw rc by simp
qed

lemma deck_holds_same: "same_deck hash (pos_generation raw) d d' \<Longrightarrow> deck_holds env hash d raw shards \<Longrightarrow> deck_holds env hash d' raw shards"
  using same_deck_docs [of hash "pos_generation raw" d d' env] by (simp add: deck_holds_def same_deck_def)

lemma map_of_snoc_other: "k \<noteq> k' \<Longrightarrow> map_of (ls @ [(k, v)]) k' = map_of ls k'"
  by (simp add: map_add_def split: option.splits)

lemma frame_lock: "valid_hash hash \<Longrightarrow> frame (same_deck hash generation) (open_or_create_regular_relative (lock_leaf hash))"
  unfolding open_or_create_regular_relative_def
proof (intro deck.faulty)
  fix d
  assume h: "valid_hash hash"
  note names = parse_owned_leaf_names [OF h]
  have ne: "lock_leaf hash \<noteq> positions_leaf hash" "lock_leaf hash \<noteq> shard_leaf hash generation n" for n
    using names by (metis option.inject owned_leaf.distinct(5), metis option.inject owned_leaf.distinct(11))
  have "same_deck hash generation d (d\<lparr>leaves := leaves d @ [(lock_leaf hash, RegularFile [])]\<rparr>)"
    if "map_of (leaves d) (lock_leaf hash) = None"
    using that names(3) ne by (auto simp: same_deck_def map_of_snoc_other names_ok_def map_of_eq_None_iff simp del: map_of_append)
  thus "same_deck hash generation d (snd (case map_of (leaves d) (lock_leaf hash) of
      None \<Rightarrow> (Inr (), d\<lparr>leaves := leaves d @ [(lock_leaf hash, RegularFile [])]\<rparr>)
     | Some OtherEntry \<Rightarrow> (Inl not_regular, d)
     | Some (RegularFile bs) \<Rightarrow> (Inr (), d)))"
    by (auto simp: deck.refl split: option.splits dir_entry.splits)
qed

subsection \<open>What the review becomes\<close>

text \<open>The deck document that counts one more review.\<close>

definition counted :: "positions_envelope \<Rightarrow> reconciliation \<Rightarrow> string \<Rightarrow> string \<Rightarrow> json list \<Rightarrow> positions_envelope" where
  "counted p rc i digest ps = p\<lparr>pos_revision := pos_revision p + 1, last_entry_id := Some i,
     last_entry_digest := Some digest, applied_entries := total_entries rc + 1,
     orphan_entries := reconciled_orphans rc, positions := ps\<rparr>"

lemma find_backwards_none: "\<forall>r \<in> set rs. review_id r \<noteq> i \<Longrightarrow> find_backwards base i rs = None"
  by (induction rs) auto

lemma next_counter_Inr: "next_counter v label = Inr n \<Longrightarrow> n = v + 1 \<and> unat n = unat v + 1"
  by (auto simp: next_counter_def ok_or_def checked_add_def unat_add_nowrap split: option.splits if_splits)

lemma recorded_fresh:
  assumes "recorded_envelope env p shards rc base i digest v = Inr (q, appended)" "\<forall>r \<in> set (history shards). review_id r \<noteq> i"
    "positions_array v = Inr ps"
  shows "appended \<and> q = counted p rc i digest ps \<and> unat (pos_revision q) = unat (pos_revision p) + 1
     \<and> unat (total_entries rc) < U32_MAX"
proof -
  have "find_entry_since shards base i = None" using assms(2) by (simp add: find_entry_since_def find_backwards_none)
  thus ?thesis using assms(1,3)
    by (auto simp: recorded_envelope_def Let_def then_result_eq_Inr counted_def ok_or_def checked_add_def U32_MAX_def
        dest!: next_counter_Inr split: option.splits if_splits)
qed

lemma position_from_append:
  "\<forall>r \<in> set xs. review_id r \<noteq> i \<Longrightarrow> unat k + length xs \<le> U32_MAX \<Longrightarrow> review_id x = i \<Longrightarrow>
   position_from k i (xs @ x # ys) = Some (of_nat (unat k + length xs))"
proof (induction xs arbitrary: k)
  case (Cons r xs)
  have "checked_add k 1 = Some (k + 1)" "unat (k + 1) = unat k + 1"
    using Cons.prems(2) by (auto simp: checked_add_def unat_add_nowrap U32_MAX_def)
  thus ?case using Cons by simp
qed simp

lemma recorded_retry:
  assumes "recorded_envelope env p shards1 rc1 base i digest v = Inr (q, appended)"
    "history shards1 = history shards @ [r]" "review_id r = i" "base < rev_of r" "\<forall>r \<in> set (history shards). review_id r \<noteq> i"
    "reconcile p shards leaf = Inr rc" "reconcile p shards1 leaf = Inr rc1" "positions_array v = Inr ps"
  shows "\<not> appended \<and> q = counted p rc i digest ps"
proof -
  note rc = reconcile_Inr [OF assms(6)] and rc1 = reconcile_Inr [OF assms(7)]
  have found: "find_entry_since shards1 base i = Some (review_entry r)"
    using assms(2-4) by (simp add: find_entry_since_def not_le)
  have len: "length (history shards) < U32_MAX" using rc1(4) assms(2) by simp
  have pos: "entry_position shards1 i = Some (of_nat (length (history shards)))"
    using position_from_append [of "history shards" i 0 r "[]"] assms(2,3,5) len by (simp add: entry_position_def)
  have total: "total_entries rc = of_nat (length (history shards))" "total_entries rc1 = of_nat (length (history shards)) + 1"
    using rc(1,4) rc1(1) assms(2) len
    by (auto simp: word_unat_eq_iff unat_of_nat U32_MAX_def unat_add_nowrap)
  have applied: "applied_entries p \<le> of_nat (length (history shards))" using rc(2) total by simp
  have "unat (reconciled_orphans rc1) = unat (reconciled_orphans rc) + 1"
    using rc(3) rc1(3) assms(2) rc(1,2) by (simp add: word_le_nat_alt)
  hence orphans: "checked_sub (reconciled_orphans rc1) 1 = Some (reconciled_orphans rc)"
    by (auto simp: checked_sub_def word_le_nat_alt word_unat_eq_iff unat_sub)
  show ?thesis
    using assms(1,8) found pos applied orphans total
    by (auto simp: recorded_envelope_def Let_def then_result_eq_Inr counted_def ok_or_def checked_add_def
        dest!: next_counter_Inr split: if_splits)
qed

text \<open>
  The JSON codec reads back what it wrote, and SHA-256 prints as 64 hexadecimal digits. For documents with
  floating-point numbers in their free JSON values the first is an assumption: \<^verbatim>\<open>serde_json\<close> without
  its \<^verbatim>\<open>float_roundtrip\<close> feature promises it only up to the precision of its parser.
\<close>

definition deck_env_ok :: "('e deck_env_scheme) \<Rightarrow> bool" where
  "deck_env_ok env \<longleftrightarrow> (\<forall>bs. valid_hash (sha256 env bs))
     \<and> (\<forall>p bs. positions_to_vec env p = Some bs \<longrightarrow> positions_from_slice env bs = Some p)
     \<and> (\<forall>s bs. shard_to_vec env s = Some bs \<longrightarrow> shard_from_slice env bs = Some s)
     \<and> (\<forall>s bs. state_to_vec env s = Some bs \<longrightarrow> state_from_slice env bs = Some s)"

lemma deck_hash_valid: "deck_env_ok env \<Longrightarrow> valid_hash (hash_deck env file_id number)"
  by (simp add: deck_env_ok_def hash_deck_def)

lemma positions_not_shard: "valid_hash hash \<Longrightarrow> positions_leaf hash \<noteq> shard_leaf hash generation n"
  using parse_owned_leaf_names [of hash] by (metis option.inject owned_leaf.distinct(3))

lemma deck_holds_shard:
  assumes "valid_hash hash" "deck_holds env hash d raw shards" "shard_from_slice env bs = Some v"
    "leaves d' = AList.update (shard_leaf hash (pos_generation raw) n) (RegularFile bs) (leaves d)"
    "lists_shards hash (pos_generation raw) ((shard_at env hash (pos_generation raw) d)(n \<mapsto> v)) shards'"
  shows "deck_holds env hash d' raw shards'"
proof -
  let ?g = "pos_generation raw"
  have "names_ok hash ?g d'"
    using assms(1,2,4) parse_owned_leaf_names(4) [OF assms(1)]
    by (intro names_ok_update [OF _ assms(4)]) (auto simp: deck_holds_def)
  moreover have "positions_at env hash d' = Some raw"
    using assms(2,4) positions_not_shard [OF assms(1)] by (simp add: deck_holds_def positions_at_def AList.update_conv')
  moreover have "shard_at env hash ?g d' = (shard_at env hash ?g d)(n \<mapsto> v)"
    using assms(3,4) shard_leaf_inj [OF assms(1)] by (auto simp: shard_at_def fun_eq_iff AList.update_conv')
  ultimately show ?thesis using assms(5) by (simp add: deck_holds_def)
qed

lemma deck_holds_positions:
  assumes "valid_hash hash" "deck_holds env hash d raw shards" "positions_from_slice env bs = Some q"
    "leaves d' = AList.update (positions_leaf hash) (RegularFile bs) (leaves d)" "pos_generation q = pos_generation raw"
  shows "deck_holds env hash d' q shards"
proof -
  let ?g = "pos_generation raw"
  have "names_ok hash ?g d'"
    using assms(2) parse_owned_leaf_names(1) [OF assms(1)]
    by (intro names_ok_update [OF _ assms(4)]) (auto simp: deck_holds_def)
  moreover have "shard_at env hash ?g d' = shard_at env hash ?g d"
    using assms(4) positions_not_shard [OF assms(1), symmetric] by (simp add: shard_at_def fun_eq_iff AList.update_conv')
  ultimately show ?thesis
    using assms(2-5) by (simp add: deck_holds_def positions_at_def AList.update_conv')
qed

lemma deck_holds_leaves: "deck_holds env hash d raw shards \<Longrightarrow> leaves d' = leaves d \<Longrightarrow> deck_holds env hash d' raw shards"
  by (simp add: deck_holds_def names_ok_def positions_at_def shard_at_def [abs_def])

lemma wp_write_positions:
  assumes "deck_env_ok env" "valid_hash hash" "deck_holds env hash d raw shards" "pos_generation q = pos_generation raw"
  shows "wp (write_positions env hash q) (\<lambda>_ d'. deck_holds env hash d' q shards)
    (\<lambda>_ d'. deck_holds env hash d' raw shards \<or> deck_holds env hash d' q shards) d"
proof -
  have written: "deck_holds env hash d' q shards"
    if "positions_to_vec env q = Some bs" "leaves d' = AList.update (positions_leaf hash) (RegularFile bs) (leaves d)" for bs d'
    using assms that by (intro deck_holds_positions [OF assms(2,3)]) (auto simp: deck_env_ok_def)
  show ?thesis
    unfolding write_positions_def Let_def wp_bind wp_of_result
    using written assms(3) by (auto split: sum.splits intro!: wp_write_json intro: deck_holds_leaves)
qed

lemma wp_append_review:
  fixes n :: u32 and i :: string and entry :: json
  assumes "deck_env_ok env" "valid_hash hash" "deck_holds env hash d raw shards"
  defines "r \<equiv> \<lparr>review_id = i, rev_of = n, review_entry = canonical_value entry\<rparr>"
  defines "grown \<equiv> \<lambda>d'. \<exists>shards'. deck_holds env hash d' raw shards' \<and> history shards' = history shards @ [r]"
  shows "wp (append_review env hash file_id number (pos_generation raw) n
      (if shards = [] then None else Some (envelope (last shards))) i entry)
    (\<lambda>_. grown) (\<lambda>_ d'. deck_holds env hash d' raw shards \<or> grown d') d"
proof -
  let ?g = "pos_generation raw" and ?latest = "if shards = [] then [] else [envelope (last shards)]"
  have latest: "(case if shards = [] then None else Some (envelope (last shards)) of None \<Rightarrow> [] | Some s \<Rightarrow> [s]) = ?latest"
    by simp
  show ?thesis
  proof (cases "append_sealed_review env ?latest file_id number ?g r")
    case (Inl e)
    thus ?thesis using assms(3) by (simp add: append_review_def Let_def latest r_def wp_throw)
  next
    case (Inr nxt)
    obtain shards' where nxt: "nxt \<noteq> []" and shards': "history shards' = history shards @ [r]"
      "lists_shards hash ?g ((shard_at env hash ?g d)(shard_ordinal (last nxt) \<mapsto> last nxt)) shards'"
      using append_sealed_result [OF _ Inr] assms(3) by (auto simp: deck_holds_def)
    have "grown d'" if "shard_to_vec env (last nxt) = Some bs"
        "leaves d' = AList.update (shard_leaf hash ?g (shard_ordinal (last nxt))) (RegularFile bs) (leaves d)" for bs d'
      using deck_holds_shard [OF assms(2,3) _ that(2) shards'(2)] that(1) assms(1) shards'(1)
      by (auto simp: deck_env_ok_def grown_def)
    thus ?thesis
      using Inr nxt assms(3)
      by (auto simp: append_review_def Let_def latest r_def wp_bind wp_of_result intro!: wp_write_json intro: deck_holds_leaves)
  qed
qed

lemma canonical_positions_fields [simp]:
  "pos_generation (canonical_positions p) = pos_generation p" "pos_revision (canonical_positions p) = pos_revision p"
  "last_entry_id (canonical_positions p) = last_entry_id p" "last_entry_digest (canonical_positions p) = last_entry_digest p"
  by (simp_all add: canonical_positions_def)

lemma load_deck_holds:
  assumes "valid_hash hash" "load_valid_deck env hash d0 = (Inr (Some (p, shards, rc)), d)" "names_ok hash (pos_generation p) d0"
  shows "\<exists>raw. deck_holds env hash d raw shards \<and> p = canonical_positions raw \<and> reconcile p shards (positions_leaf hash) = Inr rc"
proof -
  obtain state d1 d2 where s: "read_state env hash d0 = (Inr state, d1)" and p: "read_positions env hash d1 = (Inr (Some p), d2)"
    and sh: "read_shards env hash (pos_generation p) d2 = (Inr shards, d)" and rc: "reconcile p shards (positions_leaf hash) = Inr rc"
    using load_valid_deck_Some [OF assms(2)] by blast
  have same: "leaves d1 = leaves d0" "leaves d2 = leaves d0" "leaves d = leaves d0"
    using s p sh reads_only_read_positions [of env hash] reads_only_read_shards [of env hash "pos_generation p"]
    by (metis frame_def same_leaves_def snd_conv)+
  obtain raw where raw: "positions_at env hash d1 = Some raw" "p = canonical_positions raw"
    using read_positions_Some [OF p] by blast
  have names: "names_ok hash (pos_generation p) d2" using assms(3) same by (simp add: names_ok_def)
  have "deck_holds env hash d2 raw shards"
    using read_shards_lists [OF assms(1) names sh] names raw same by (simp add: deck_holds_def positions_at_def)
  hence "deck_holds env hash d raw shards" by (rule deck_holds_leaves) (simp add: same)
  thus ?thesis using raw(2) rc by blast
qed

end
