(* ===== verification/PracticeExamples.thy ===== *)
theory PracticeExamples
  imports PracticeReviews "HOL-Library.Code_Target_Nat"
begin

text \<open>
  Concrete stand-ins for the crates (codecs over tables of documents) and small decks, for the
  witnesses of the practice theorems.
\<close>

definition sample_env :: "positions_envelope list \<Rightarrow> review_shard_envelope list \<Rightarrow> migration_state_envelope list \<Rightarrow> deck_env" where
  "sample_env ps ss sts =
     \<lparr>sha256 = (\<lambda>bs. replicate 63 CHR ''0'' @ [if even (length bs) then CHR ''a'' else CHR ''b'']),
      uuid_at = show_nat, uuid_parses = (\<lambda>s. s \<noteq> []), map_to_vec = (\<lambda>_. None), map_from_slice = (\<lambda>_. None),
      value_from_slice = (\<lambda>bs. if bs = bytes_of ''{}'' then Some (JObject [(''positions'', JArray []), (''logs'', JArray [JInt 5, JInt 6])]) else Some (JInt (int (length bs)))),
      positions_to_vec = table_to ps, positions_from_slice = table_from ps,
      shard_to_vec = table_to ss, shard_from_slice = table_from ss,
      state_to_vec = table_to sts, state_from_slice = table_from sts,
      value_to_vec = (\<lambda>v. Some []), value_to_string = (\<lambda>v. case v of JInt n \<Rightarrow> Some (show_int n) | _ \<Rightarrow> None)\<rparr>"

lemma sample_env_ok:
  "length ps \<le> 256 \<Longrightarrow> length ss \<le> 256 \<Longrightarrow> length sts \<le> 256 \<Longrightarrow> deck_env_ok (sample_env ps ss sts)"
  unfolding deck_env_ok_def
  by (simp add: sample_env_def table_codec)
    (simp add: valid_hash_def is_lower_hex_def is_ascii_digit_def list_all_iff)

definition first_positions :: positions_envelope where
  "first_positions = new_positions ''f'' 0 []"

definition example_review :: "nat \<Rightarrow> review_shard_entry" where
  "example_review n = \<lparr>review_id = ''r'' @ show_nat n, rev_of = of_nat n + 1, review_entry = JInt 1\<rparr>"

definition review_shard :: "nat \<Rightarrow> review_shard_envelope" where
  "review_shard n = \<lparr>shard_version = 1, shard_file_id = ''f'', shard_game = 0, shard_generation = 0, shard_ordinal = 0,
     shard_entries = map example_review [1..<n+1]\<rparr>"

definition review_write :: practice_review_write where
  "review_write = \<lparr>write_generation = 0, write_revision = 1, base_revision = 1, write_document = ''{}'', write_entry = ''x'', entry_id = ''r1''\<rparr>"

definition counted_positions :: positions_envelope where
  "counted_positions = counted first_positions \<lparr>total_entries = 0, reconciled_orphans = 0\<rparr> ''r1''
     (replicate 63 CHR ''0'' @ ''a'') []"

definition reviewed_positions :: positions_envelope where
  "reviewed_positions = first_positions\<lparr>applied_entries := 3\<rparr>"

definition review_env :: deck_env where
  "review_env = sample_env [first_positions, counted_positions, reviewed_positions] [review_shard 1, review_shard 3] []"

end
