(* ===== verification/PracticeMigrated.thy ===== *)
theory PracticeMigrated
  imports PracticeMigration PracticeExamples
begin

text \<open>
  Migrating a legacy document (\<^verbatim>\<open>migrate_practice_deck_in\<close>) under any failures of the file system: a
  migration that is started again until it succeeds leaves a deck whose history is the logs of the
  document, once each and in their order.
\<close>

subsection \<open>The imported shards\<close>

text \<open>The reviews that stand for a list of logs; \<^term>\<open>index\<close> counts the logs before them.\<close>

definition reviews_of_logs ::
    "('e deck_env_scheme) \<Rightarrow> string \<Rightarrow> int \<Rightarrow> nat \<Rightarrow> json list \<Rightarrow> review_shard_entry list \<Rightarrow> bool" where
  "reviews_of_logs env file_id number index logs rs \<longleftrightarrow> length rs = length logs
     \<and> (\<forall>i < length logs. hash_migration_entry env file_id number (index + i) (logs ! i) = Inr (review_id (rs ! i))
          \<and> unat (rev_of (rs ! i)) = index + i + 1 \<and> review_entry (rs ! i) = canonical_value (logs ! i))"

lemma reviews_of_logs_Cons:
  assumes "hash_migration_entry env file_id number index l = Inr (review_id r)" "unat (rev_of r) = index + 1"
    "review_entry r = canonical_value l" "reviews_of_logs env file_id number (Suc index) ls rs"
  shows "reviews_of_logs env file_id number index (l # ls) (r # rs)"
  unfolding reviews_of_logs_def
proof (intro conjI allI impI)
  fix i
  assume "i < length (l # ls)"
  thus "hash_migration_entry env file_id number (index + i) ((l # ls) ! i) = Inr (review_id ((r # rs) ! i))"
    "unat (rev_of ((r # rs) ! i)) = index + i + 1" "review_entry ((r # rs) ! i) = canonical_value ((l # ls) ! i)"
    using assms by (cases i; auto simp: reviews_of_logs_def)+
qed (use assms(4) in \<open>simp add: reviews_of_logs_def\<close>)

abbreviation all_entries :: "review_shard_envelope list \<Rightarrow> review_shard_entry list" where
  "all_entries shards \<equiv> concat (map shard_entries shards)"

abbreviation ascending :: "review_shard_envelope list \<Rightarrow> bool" where
  "ascending shards \<equiv> sorted_wrt (<) (map shard_ordinal shards)"

lemma u32_of_len_Inr:
  assumes "u32_of_len n = Inr w"
  shows "unat w = n"
proof -
  have "n \<le> U32_MAX" "w = of_nat n" using assms by (auto simp: u32_of_len_def split: if_splits)
  thus ?thesis by (simp only: unat_of_nat U32_MAX_def) simp
qed

lemma append_sealed_ascending:
  assumes "append_sealed_review env shards file_id number generation r = Inr out_shards" "ascending shards"
  shows "ascending out_shards \<and> all_entries out_shards = all_entries shards @ [r]"
proof (cases shards rule: rev_exhaust)
  case Nil
  thus ?thesis using assms(1) by (auto simp: append_sealed_review_def Let_def)
next
  case (snoc rest current)
  have new: "shard_ordinal current < n \<and> (\<forall>m. m < shard_ordinal current \<longrightarrow> m < n)"
    if "next_counter (shard_ordinal current) label = Inr n" for n label
  proof -
    have "shard_ordinal current < n" using next_counter_Inr [OF that] by (metis lessI Suc_eq_plus1 word_less_nat_alt)
    thus ?thesis by (metis order.strict_trans)
  qed
  show ?thesis using assms snoc
    by (auto simp: append_sealed_review_def Let_def then_result_eq_Inr sorted_wrt_append split: if_splits dest!: new)
qed

lemma import_logs_result:
  assumes "import_logs env file_id number index logs shards = Inr out_shards" "ascending shards"
  shows "ascending out_shards \<and> (\<exists>rs. all_entries out_shards = all_entries shards @ rs \<and> reviews_of_logs env file_id number index logs rs)"
  using assms
proof (induction logs arbitrary: index shards)
  case Nil
  thus ?case by (simp add: reviews_of_logs_def)
next
  case (Cons l ls)
  obtain i n next_shards where i: "hash_migration_entry env file_id number index l = Inr i" and n: "u32_of_len (index + 1) = Inr n"
    and s: "append_sealed_review env shards file_id number 0 \<lparr>review_id = i, rev_of = n, review_entry = canonical_value l\<rparr> = Inr next_shards"
    and rest: "import_logs env file_id number (Suc index) ls next_shards = Inr out_shards"
    using Cons.prems(1) by (auto simp: then_result_eq_Inr)
  have "unat n = index + 1" by (rule u32_of_len_Inr [OF n])
  thus ?case
    using Cons.IH [OF rest] append_sealed_ascending [OF s Cons.prems(2)] i reviews_of_logs_Cons [of env file_id number index l _ ls]
    by fastforce
qed

subsection \<open>Stages of a migration\<close>

definition state_at :: "('e deck_env_scheme) \<Rightarrow> string \<Rightarrow> disk \<Rightarrow> migration_state_envelope option" where
  "state_at env hash d =
     (case map_of (leaves d) (state_leaf hash) of Some (RegularFile bs) \<Rightarrow> state_from_slice env bs | _ \<Rightarrow> None)"

abbreviation not_reset :: "('e deck_env_scheme) \<Rightarrow> string \<Rightarrow> disk \<Rightarrow> bool" where
  "not_reset env hash d \<equiv> map_option phase (state_at env hash d) \<noteq> Some ResetPhase"

text \<open>Before: no positions document, and no reset on record. After: the deck of the logs.\<close>

definition awaits :: "('e deck_env_scheme) \<Rightarrow> string \<Rightarrow> disk \<Rightarrow> bool" where
  "awaits env hash d \<longleftrightarrow> names_ok hash 0 d \<and> map_of (leaves d) (positions_leaf hash) = None \<and> not_reset env hash d"

definition legacy_deck ::
    "('e deck_env_scheme) \<Rightarrow> string \<Rightarrow> (review_shard_entry list \<Rightarrow> bool) \<Rightarrow> json list \<Rightarrow> disk \<Rightarrow> bool" where
  "legacy_deck env hash is_history ps d \<longleftrightarrow> not_reset env hash d
     \<and> (\<exists>q shards. deck_holds env hash d q shards \<and> is_history (history shards) \<and> positions q = ps \<and> pos_generation q = 0
          \<and> pos_revision q = 1 \<and> unat (applied_entries q) = length (history shards) \<and> orphan_entries q = 0)"

lemma awaits_leaves: "leaves d' = leaves d \<Longrightarrow> awaits env hash d' = awaits env hash d"
  by (simp add: awaits_def names_ok_def state_at_def)

interpretation awaiting: disk_frame "\<lambda>d d'. awaits env hash d \<longrightarrow> awaits env hash d'" for env hash
proof unfold_locales
  show "awaits env hash d \<longrightarrow> awaits env hash (d\<lparr>ops_done := n\<rparr>)" for d n
    using awaits_leaves [of "d\<lparr>ops_done := n\<rparr>" d env hash] by simp
qed blast

interpretation faults: disk_frame "\<lambda>d d'. fault_at d' = fault_at d"
  by unfold_locales auto

abbreviation "keeps_faults m \<equiv> frame (\<lambda>d d'. fault_at d' = fault_at d) m"
abbreviation "keeps_awaiting env hash m \<equiv> frame (\<lambda>d d'. awaits env hash d \<longrightarrow> awaits env hash d') m"

lemma reads_only_awaiting: "reads_only m \<Longrightarrow> keeps_awaiting env hash m"
  unfolding frame_def same_leaves_def using awaits_leaves by blast

lemma reads_only_faults: "reads_only m \<Longrightarrow> keeps_faults m"
  by (simp add: frame_def same_leaves_def)

lemma other_leaves:
  assumes "valid_hash hash"
  shows "state_leaf hash \<noteq> positions_leaf hash" "state_leaf hash \<noteq> shard_leaf hash g n" "state_leaf hash \<noteq> lock_leaf hash"
    "shard_leaf hash g n \<noteq> positions_leaf hash" "shard_leaf hash g n \<noteq> state_leaf hash"
    "lock_leaf hash \<noteq> positions_leaf hash" "lock_leaf hash \<noteq> shard_leaf hash g n"
  using parse_owned_leaf_names [OF assms] by (metis option.inject owned_leaf.distinct)+

lemma names_ok_delete: "names_ok hash generation d \<Longrightarrow> leaves d' = AList.delete leaf (leaves d) \<Longrightarrow> names_ok hash generation d'"
  by (simp add: names_ok_def AList.delete_keys distinct_removeAll flip: set_map)

lemma wp_remove_leaf:
  assumes "\<And>d'. leaves d' = AList.delete leaf (leaves d) \<Longrightarrow> Q () d'" "\<And>e d'. leaves d' = leaves d \<Longrightarrow> E e d'"
  shows "wp (remove_leaf_if_present leaf) Q E d"
  unfolding remove_leaf_if_present_def dir_entries_def remove_leaf_identified_def
  using assms
  by (auto simp: wp_rules wp_def [of "return_io _"] AList.delete_id map_of_eq_None_iff split: fault.splits option.splits)

lemma faults_prims:
  "keeps_faults (write_json to_vec leaf v stage what)" "keeps_faults (remove_leaf_if_present leaf)"
  "keeps_faults (open_or_create_regular_relative leaf)"
proof -
  have "keeps_faults (atomic_replace_leaf leaf bs)" for bs
    by (auto simp: frame_def atomic_replace_leaf_def next_fault_def split: fault.splits)
  thus "keeps_faults (write_json to_vec leaf v stage what)"
    unfolding write_json_def write_json_bytes_def
    by (intro faults.bind faults.pure faults.map_err faults.if_frame)
  have "keeps_faults (remove_leaf_identified leaf)" "keeps_faults dir_entries"
    unfolding remove_leaf_identified_def dir_entries_def by (rule faults.faulty, simp)+
  thus "keeps_faults (remove_leaf_if_present leaf)"
    unfolding remove_leaf_if_present_def
    by (auto split: option.splits intro!: faults.bind faults.pure faults.map_err)
  show "keeps_faults (open_or_create_regular_relative leaf)"
    unfolding open_or_create_regular_relative_def by (rule faults.faulty) (auto split: option.splits dir_entry.splits)
qed

lemma state_at_other:
  "leaf \<noteq> state_leaf hash \<Longrightarrow> leaves d' = AList.update leaf e (leaves d) \<or> leaves d' = AList.delete leaf (leaves d) \<Longrightarrow>
   state_at env hash d' = state_at env hash d"
  by (auto simp: state_at_def AList.update_conv' AList.delete_conv')

lemma awaits_shard_change:
  assumes "valid_hash hash" "awaits env hash d"
    "leaves d' = AList.update (shard_leaf hash 0 n) e (leaves d) \<or> leaves d' = AList.delete (shard_leaf hash 0 n) (leaves d)"
  shows "awaits env hash d'"
proof -
  have "names_ok hash 0 d'"
    using assms parse_owned_leaf_names(4) [OF assms(1), of 0] unfolding awaits_def
    by (auto intro: names_ok_update names_ok_delete)
  thus ?thesis
    using assms(2,3) state_at_other [OF other_leaves(5) [OF assms(1)] assms(3), of env] other_leaves(4) [OF assms(1), of 0 n]
    by (auto simp: awaits_def AList.update_conv' AList.delete_conv')
qed

lemma awaits_state_write:
  assumes "valid_hash hash" "awaits env hash d" "leaves d' = AList.update (state_leaf hash) (RegularFile bs) (leaves d)"
    "state_from_slice env bs = Some s" "phase s \<noteq> ResetPhase"
  shows "awaits env hash d'"
  using assms other_leaves [OF assms(1)] names_ok_update [OF _ assms(3)] parse_owned_leaf_names(2) [OF assms(1)]
  by (auto simp: awaits_def state_at_def AList.update_conv')

lemma awaiting_write_state:
  assumes "deck_env_ok env" "valid_hash hash" "phase s \<noteq> ResetPhase"
  shows "keeps_awaiting env hash (write_state env hash s what)"
  unfolding frame_def
proof (intro allI impI)
  fix d
  assume d: "awaits env hash d"
  have "wp (write_state env hash s what) (\<lambda>_. awaits env hash) (\<lambda>_. awaits env hash) d"
    unfolding write_state_def using assms d
    by (auto simp: deck_env_ok_def intro!: wp_write_json intro: awaits_state_write awaits_leaves [THEN iffD2])
  thus "awaits env hash (snd (write_state env hash s what d))"
    by (auto simp: wp_def split: prod.splits sum.splits)
qed

subsection \<open>Replacing the shards\<close>

abbreviation shard_of :: "string \<Rightarrow> review_shard_envelope \<Rightarrow> shard_file" where
  "shard_of hash s \<equiv> \<lparr>shard_leaf_name = shard_leaf hash 0 (shard_ordinal s), envelope = s\<rparr>"

abbreviation has_shards :: "('e deck_env_scheme) \<Rightarrow> string \<Rightarrow> shard_file list \<Rightarrow> disk \<Rightarrow> bool" where
  "has_shards env hash shards d \<equiv> lists_shards hash 0 (shard_at env hash 0 d) shards"

lemma wp_remove_shards:
  assumes "valid_hash hash" "\<forall>s \<in> set ss. shard_leaf_name s = shard_leaf hash 0 (ordinal_of s)" "awaits env hash d"
    "\<And>n v. shard_at env hash 0 d n = Some v \<Longrightarrow> n \<in> ordinal_of ` set ss"
  shows "wp (for_io (\<lambda>s _. remove_leaf_if_present (shard_leaf_name s)) ss ())
    (\<lambda>_ d'. awaits env hash d' \<and> has_shards env hash [] d') (\<lambda>_. awaits env hash) d"
  using assms(2-4)
proof (induction ss arbitrary: d)
  case Nil
  have "shard_at env hash 0 d n = None" for n using Nil(3) [of n] by (cases "shard_at env hash 0 d n") auto
  thus ?case using Nil(2) by (simp add: wp_def lists_shards_def)
next
  case (Cons s ss)
  have s: "shard_leaf_name s = shard_leaf hash 0 (ordinal_of s)" using Cons.prems(1) by simp
  have removed: "awaits env hash d'" "shard_at env hash 0 d' n = (if n = ordinal_of s then None else shard_at env hash 0 d n)"
    if "leaves d' = AList.delete (shard_leaf_name s) (leaves d)" for d' n
    using that s awaits_shard_change [OF assms(1) Cons.prems(2)] shard_leaf_inj [OF assms(1)]
    by (auto simp: shard_at_def AList.delete_conv')
  show ?case
    unfolding for_io.simps wp_bind
  proof (rule wp_remove_leaf)
    fix d' :: disk
    assume d': "leaves d' = AList.delete (shard_leaf_name s) (leaves d)"
    show "wp (for_io (\<lambda>s _. remove_leaf_if_present (shard_leaf_name s)) ss ())
      (\<lambda>_ d'. awaits env hash d' \<and> has_shards env hash [] d') (\<lambda>_. awaits env hash) d'"
      by (rule Cons.IH) (use Cons.prems(1,3) removed [OF d'] in \<open>auto split: if_splits\<close>)
  qed (use Cons.prems(2) awaits_leaves in blast)
qed

lemma wp_write_shards:
  assumes "deck_env_ok env" "valid_hash hash" "ascending ss" "\<forall>s \<in> set ss. \<forall>old \<in> set shards. ordinal_of old < shard_ordinal s"
    "awaits env hash d" "has_shards env hash shards d"
  shows "wp (for_io (\<lambda>s _. write_json (shard_to_vec env) (shard_leaf hash 0 (shard_ordinal s)) s PracticeReviewShard what) ss ())
    (\<lambda>_ d'. awaits env hash d' \<and> has_shards env hash (shards @ map (shard_of hash) ss) d') (\<lambda>_. awaits env hash) d"
  using assms(3-6)
proof (induction ss arbitrary: shards d)
  case Nil
  thus ?case by (simp add: wp_def)
next
  case (Cons s ss)
  have written: "awaits env hash d'" "has_shards env hash (shards @ [shard_of hash s]) d'"
    if bs: "shard_to_vec env s = Some bs" and d': "leaves d' = AList.update (shard_leaf hash 0 (shard_ordinal s)) (RegularFile bs) (leaves d)" for bs d'
  proof -
    show "awaits env hash d'" using awaits_shard_change [OF assms(2) Cons.prems(3)] d' by blast
    have "shard_at env hash 0 d' = (shard_at env hash 0 d)(shard_ordinal s \<mapsto> s)"
      using bs d' assms(1) shard_leaf_inj [OF assms(2)] by (auto simp: deck_env_ok_def shard_at_def fun_eq_iff AList.update_conv')
    thus "has_shards env hash (shards @ [shard_of hash s]) d'"
      using lists_shards_snoc [OF Cons.prems(4)] Cons.prems(2) by simp
  qed
  show ?case
    unfolding for_io.simps wp_bind
  proof (rule wp_write_json)
    fix bs and d' :: disk
    assume "shard_to_vec env s = Some bs" "leaves d' = AList.update (shard_leaf hash 0 (shard_ordinal s)) (RegularFile bs) (leaves d)"
    note w = written [OF this]
    show "wp (for_io (\<lambda>s _. write_json (shard_to_vec env) (shard_leaf hash 0 (shard_ordinal s)) s PracticeReviewShard what) ss ())
      (\<lambda>_ d'. awaits env hash d' \<and> has_shards env hash (shards @ map (shard_of hash) (s # ss)) d') (\<lambda>_. awaits env hash) d'"
      using Cons.IH [OF _ _ w] Cons.prems(1,2) by auto
  qed (use Cons.prems(3) written(1) awaits_leaves in blast)
qed

lemma wp_replace_shards:
  assumes "deck_env_ok env" "valid_hash hash" "ascending ss" "awaits env hash d"
  shows "wp (replace_shards env hash existing ss)
    (\<lambda>_ d'. awaits env hash d' \<and> has_shards env hash (map (shard_of hash) ss) d') (\<lambda>_. awaits env hash) d"
  unfolding replace_shards_def
proof (subst wp_bind, rule wp_frame)
  show "reads_only (for_io (\<lambda>(leaf, generation, _, kind) _. guard_io (generation = 0 \<and> \<not> is_regular kind)
      (invalid_leaf leaf ''migration shard is not a regular file'')) existing ())"
    by (intro reads.for_frame) (auto simp: frame_def reads.refl split: prod.splits)
  fix d1 :: disk and e
  assume d1: "same_leaves d d1"
  hence a1: "awaits env hash d1" using assms(4) awaits_leaves by (auto simp: same_leaves_def)
  thus "awaits env hash d1" .
  have "wp (for_io (\<lambda>s _. remove_leaf_if_present (shard_leaf_name s)) found ()) (\<lambda>_ d'. awaits env hash d' \<and> has_shards env hash [] d') (\<lambda>_. awaits env hash) d2"
    if read: "read_shards env hash 0 d1 = (Inr found, d2)" for found d2
  proof -
    have d2: "leaves d2 = leaves d1" using reads_only_read_shards [of env hash 0] read by (metis frame_def same_leaves_def snd_conv)
    have "shard_at env hash 0 d2 = shard_at env hash 0 d1" using d2 by (simp add: shard_at_def fun_eq_iff)
    moreover have "has_shards env hash found d1"
      using read_shards_lists [OF assms(2) _ read] a1 by (simp add: awaits_def)
    moreover have "awaits env hash d2" using a1 d2 awaits_leaves by blast
    ultimately show ?thesis
      by (intro wp_remove_shards [OF assms(2)]) (auto dest: lists_shardsD)
  qed
  note removed = this
  show "wp (bind_io (read_shards env hash 0) (\<lambda>found. bind_io (for_io (\<lambda>s _. remove_leaf_if_present (shard_leaf_name s)) found ()) (\<lambda>_.
       for_io (\<lambda>s _. write_json (shard_to_vec env) (shard_leaf hash 0 (shard_ordinal s)) s
         PracticeReviewShard ''write migration shard'') ss ())))
      (\<lambda>_ d'. awaits env hash d' \<and> has_shards env hash (map (shard_of hash) ss) d') (\<lambda>_. awaits env hash) d1"
  proof (cases "read_shards env hash 0 d1")
    case (Pair r d2)
    have "awaits env hash d2" using reads_only_awaiting [OF reads_only_read_shards] a1 Pair by (metis frame_def snd_conv)
    moreover have "wp (bind_io (for_io (\<lambda>s _. remove_leaf_if_present (shard_leaf_name s)) found ()) (\<lambda>_.
       for_io (\<lambda>s _. write_json (shard_to_vec env) (shard_leaf hash 0 (shard_ordinal s)) s
         PracticeReviewShard ''write migration shard'') ss ()))
      (\<lambda>_ d'. awaits env hash d' \<and> has_shards env hash (map (shard_of hash) ss) d') (\<lambda>_. awaits env hash) d2" if "r = Inr found" for found
      unfolding wp_bind
      by (rule wp_mono [OF removed [OF Pair [unfolded that]]])
        (use wp_write_shards [OF assms(1-3), where shards = "[]"] in auto)
    ultimately show ?thesis by (cases r) (auto simp: wp_bind wp_def [of "read_shards env hash 0"] Pair)
  qed
qed

subsection \<open>One attempt\<close>

lemma history_shards_of [simp]: "history (map (shard_of hash) ss) = all_entries ss"
  by (induction ss) (simp_all add: history_def)

lemma migrated_envelope_facts:
  "migrated_envelope env file_id number now ps digest es = Inr q \<Longrightarrow>
   positions q = ps \<and> pos_generation q = 0 \<and> pos_revision q = 1 \<and> unat (applied_entries q) = length es \<and> orphan_entries q = 0"
  unfolding migrated_envelope_def then_result_eq_Inr by (auto dest!: u32_of_len_Inr)

lemma plan_facts:
  assumes "plan_migration env hash file_id number now doc state b = Inr plan" "parse_legacy_document env doc = Inr (v, ps, logs)"
  shows "phase (plan_state plan) = Migrating" "ascending (plan_shards plan)"
    "reviews_of_logs env file_id number 0 logs (all_entries (plan_shards plan))"
    "positions (plan_positions plan) = ps \<and> pos_generation (plan_positions plan) = 0 \<and> pos_revision (plan_positions plan) = 1
      \<and> unat (applied_entries (plan_positions plan)) = length (all_entries (plan_shards plan)) \<and> orphan_entries (plan_positions plan) = 0"
proof -
  obtain digest where shards: "imported_shards env file_id number logs = Inr (plan_shards plan)"
    and p: "migrated_envelope env file_id number now ps digest (all_entries (plan_shards plan)) = Inr (plan_positions plan)"
    and state: "phase (plan_state plan) = Migrating"
    using assms by (auto simp: plan_migration_def then_result_eq_Inr split: if_split_asm)
  show "phase (plan_state plan) = Migrating" by (rule state)
  show "ascending (plan_shards plan)" "reviews_of_logs env file_id number 0 logs (all_entries (plan_shards plan))"
    using import_logs_result [OF shards [unfolded imported_shards_def]] by auto
  show "positions (plan_positions plan) = ps \<and> pos_generation (plan_positions plan) = 0 \<and> pos_revision (plan_positions plan) = 1
      \<and> unat (applied_entries (plan_positions plan)) = length (all_entries (plan_shards plan)) \<and> orphan_entries (plan_positions plan) = 0"
    by (rule migrated_envelope_facts [OF p])
qed

lemma legacy_deck_leaves: "leaves d' = leaves d \<Longrightarrow> legacy_deck env hash P ps d \<Longrightarrow> legacy_deck env hash P ps d'"
  unfolding legacy_deck_def state_at_def by (metis deck_holds_leaves)

lemma legacy_deck_state_write:
  assumes "valid_hash hash" "legacy_deck env hash P ps d" "leaves d' = AList.update (state_leaf hash) (RegularFile bs) (leaves d)"
    "state_from_slice env bs = Some s" "phase s \<noteq> ResetPhase"
  shows "legacy_deck env hash P ps d'"
proof -
  have "names_ok hash 0 d \<longrightarrow> names_ok hash 0 d'"
    using names_ok_update [OF _ assms(3)] parse_owned_leaf_names(2) [OF assms(1)] by auto
  hence "same_deck hash 0 d d'"
    using assms(3) other_leaves [OF assms(1)] by (simp add: same_deck_def AList.update_conv')
  moreover have "not_reset env hash d'" using assms(3-5) by (simp add: state_at_def AList.update_conv')
  ultimately show ?thesis using assms(2) unfolding legacy_deck_def by (metis deck_holds_same)
qed

lemma wp_state_legacy:
  assumes "deck_env_ok env" "valid_hash hash" "legacy_deck env hash P ps d" "phase s \<noteq> ResetPhase"
  shows "wp (write_json (state_to_vec env) (state_leaf hash) s stage what) (\<lambda>_. legacy_deck env hash P ps) (\<lambda>_. legacy_deck env hash P ps) d"
  using assms by (auto simp: deck_env_ok_def intro!: wp_write_json intro: legacy_deck_state_write legacy_deck_leaves)

lemma wp_first_positions:
  assumes "deck_env_ok env" "valid_hash hash" "awaits env hash d" "has_shards env hash shards d" "P (history shards)"
    "positions q = ps \<and> pos_generation q = 0 \<and> pos_revision q = 1 \<and> unat (applied_entries q) = length (history shards) \<and> orphan_entries q = 0"
  shows "wp (write_positions env hash q) (\<lambda>_. legacy_deck env hash P ps) (\<lambda>_ d'. awaits env hash d' \<or> legacy_deck env hash P ps d') d"
proof -
  have written: "legacy_deck env hash P ps d'"
    if "positions_to_vec env q = Some bs" "leaves d' = AList.update (positions_leaf hash) (RegularFile bs) (leaves d)" for bs d'
  proof -
    have "names_ok hash 0 d'"
      using names_ok_update [OF _ that(2)] parse_owned_leaf_names(1) [OF assms(2)] assms(3) by (auto simp: awaits_def)
    moreover have "positions_at env hash d' = Some q" using that assms(1) by (simp add: positions_at_def AList.update_conv' deck_env_ok_def)
    moreover have "shard_at env hash 0 d' = shard_at env hash 0 d"
      using that(2) other_leaves(4) [OF assms(2)] by (simp add: shard_at_def fun_eq_iff AList.update_conv')
    moreover have "state_at env hash d' = state_at env hash d"
      by (rule state_at_other [OF other_leaves(1) [OF assms(2), symmetric] disjI1 [OF that(2)]])
    hence "not_reset env hash d'" using assms(3) by (simp add: awaits_def)
    ultimately show ?thesis using assms(4-6) unfolding legacy_deck_def deck_holds_def by metis
  qed
  show ?thesis
    unfolding write_positions_def Let_def wp_bind wp_of_result
    using written assms(3) by (auto split: sum.splits intro!: wp_write_json intro: awaits_leaves [THEN iffD2])
qed

lemma wp_run_plan:
  assumes "deck_env_ok env" "valid_hash hash" "awaits env hash d"
    "plan_migration env hash file_id number now doc state b = Inr plan" "parse_legacy_document env doc = Inr (v, ps, logs)"
  defines "migrated \<equiv> legacy_deck env hash (reviews_of_logs env file_id number 0 logs) ps"
  shows "wp (run_plan env hash existing plan) (\<lambda>_. migrated) (\<lambda>_ d'. awaits env hash d' \<or> migrated d') d"
proof -
  note plan = plan_facts [OF assms(4,5)]
  let ?ss = "map (shard_of hash) (plan_shards plan)"
  have finish: "wp (bind_io (write_state env hash ((plan_state plan)\<lparr>phase := Migrated\<rparr>) what) (\<lambda>_. of_result r))
      (\<lambda>_. migrated) (\<lambda>_ d'. awaits env hash d' \<or> migrated d') d'" if "migrated d'" for d' what and r :: "practice_migration_outcome result"
    unfolding wp_bind write_state_def
    by (rule wp_mono [OF wp_state_legacy [OF assms(1,2) that [unfolded migrated_def]]])
      (auto simp: wp_of_result migrated_def split: sum.splits)
  have positions: "wp (bind_io (write_positions env hash (plan_positions plan)) (\<lambda>_.
        bind_io (write_state env hash ((plan_state plan)\<lparr>phase := Migrated\<rparr>) what) (\<lambda>_. of_result r)))
      (\<lambda>_. migrated) (\<lambda>_ d'. awaits env hash d' \<or> migrated d') d'"
    if "awaits env hash d' \<and> has_shards env hash ?ss d'" for d' what and r :: "practice_migration_outcome result"
    unfolding wp_bind [of "write_positions env hash (plan_positions plan)"]
    by (rule wp_mono [OF wp_first_positions [OF assms(1,2), where shards = ?ss and ps = ps
            and P = "reviews_of_logs env file_id number 0 logs"]])
      (use that plan finish in \<open>auto simp: migrated_def\<close>)
  have check: "wp (read_back_matches env hash (plan_entries plan)) (\<lambda>_ d'. awaits env hash d' \<and> has_shards env hash ?ss d') (\<lambda>_. awaits env hash) d'"
    if "awaits env hash d' \<and> has_shards env hash ?ss d'" for d'
  proof (rule wp_frame)
    show "reads_only (read_back_matches env hash (plan_entries plan))"
      unfolding read_back_matches_def
      by (intro reads_intros reads_only_read_shards) (simp add: frame_def reads.refl)
    fix d''
    assume "same_leaves d' d''"
    hence same: "leaves d'' = leaves d'" by (simp add: same_leaves_def)
    thus "awaits env hash d''" using that awaits_leaves by blast
    thus "awaits env hash d'' \<and> has_shards env hash ?ss d''" using same that by (simp add: shard_at_def [abs_def])
  qed
  have replaced: "wp (bind_io (replace_shards env hash existing (plan_shards plan)) (\<lambda>_. bind_io (read_back_matches env hash (plan_entries plan)) (\<lambda>_.
        bind_io (write_positions env hash (plan_positions plan)) (\<lambda>_.
        bind_io (write_state env hash ((plan_state plan)\<lparr>phase := Migrated\<rparr>) what) (\<lambda>_. of_result r)))))
      (\<lambda>_. migrated) (\<lambda>_ d'. awaits env hash d' \<or> migrated d') d'" if "awaits env hash d'" for d' what and r :: "practice_migration_outcome result"
    unfolding wp_bind [of "replace_shards env hash existing (plan_shards plan)"] wp_bind [of "read_back_matches env hash (plan_entries plan)"]
    by (rule wp_mono [OF wp_replace_shards [OF assms(1,2) plan(2) that]])
      (auto intro: wp_mono [OF check] positions)
  show ?thesis
    unfolding run_plan_def wp_bind [of "write_state env hash (plan_state plan) _"]
    by (rule wp_frame [OF awaiting_write_state [OF assms(1,2)]]) (use plan(1) assms(3) replaced in auto)
qed

lemma read_json_None:
  assumes "read_json dec leaf mx what d = (Inr None, d')" "honest d"
  shows "map_of (leaves d) leaf = None"
  using assms
  by (auto simp: read_json_def read_leaf_bytes_def open_regular_relative_def file_len_def read_bounded_bytes_def map_err_def
      faulty_def next_fault_def bind_io_def attempt_def not_regular_def honest_def
      split: fault.splits option.splits dir_entry.splits if_splits)

lemma read_positions_None:
  "read_positions env hash d = (Inr None, d') \<Longrightarrow> honest d \<Longrightarrow> map_of (leaves d) (positions_leaf hash) = None"
  by (auto simp: read_positions_def Let_def bind_io_eq_Inr dest: read_json_None split: option.splits)

lemma read_state_phase:
  assumes "read_state env hash d = (Inr found, d')" "not_reset env hash d"
  shows "map_option phase found \<noteq> Some ResetPhase"
proof (cases found)
  case (Some st)
  have "\<exists>d1. read_json (state_from_slice env) (state_leaf hash) PRACTICE_LEGACY_MAX_BYTES ''read migration state'' d = (Inr (Some st), d1)"
    using assms(1) Some by (auto simp: read_state_def Let_def bind_io_eq_Inr split: option.split_asm if_split_asm)
  hence "state_at env hash d = Some st" by (auto simp: state_at_def dest!: read_json_Some)
  thus ?thesis using assms(2) Some by simp
qed simp

lemma validated_parts:
  assumes "validated_or_error env hash d = (Inr v, d')"
  shows "\<exists>d1 d2. read_state env hash d = (Inr (deck_state v), d1) \<and> read_positions env hash d1 = (Inr (deck_positions v), d2)"
proof -
  obtain sr d1 where sr: "read_state env hash d = (sr, d1)" by force
  obtain pr d2 where pr: "read_positions env hash d1 = (pr, d2)" by force
  note run = assms [unfolded validated_or_error_Inr, unfolded read_validated_deck_def
      bind_attempt [where m = "read_state env hash", OF sr] bind_attempt [where m = "read_positions env hash", OF pr]]
  obtain state where state: "sr = Inr state" using run by (cases sr) auto
  obtain found where found: "pr = Inr found" using run state by (cases pr) (auto simp: Let_def)
  have "deck_state v = state \<and> deck_positions v = found"
  proof (cases found)
    case None
    obtain r d3 where r: "all_shard_leaves hash d2 = (r, d3)" by force
    show ?thesis
      using run unfolding state found None Let_def sum.case option.case bind_attempt [where m = "all_shard_leaves hash", OF r]
      by (cases r) auto
  next
    case (Some p)
    obtain r d3 where r: "read_shards env hash (pos_generation p) d2 = (r, d3)" by force
    show ?thesis
      using run unfolding state found Some Let_def sum.case option.case
        bind_attempt [where m = "read_shards env hash (pos_generation p)", OF r]
      by (cases r) (auto split: sum.split_asm)
  qed
  thus ?thesis using sr pr state found by simp
qed

lemma reads_only_validated: "reads_only (validated_or_error env hash)"
  unfolding validated_or_error_def read_validated_deck_def Let_def
  by (auto intro!: reads_intros reads_only_read_positions reads_only_read_shards reads_only_shards split: option.splits sum.splits)

lemma stage_same:
  assumes "same_deck hash 0 d d'" "same_leaf (state_leaf hash) d d'"
  shows "awaits env hash d \<Longrightarrow> awaits env hash d'" "legacy_deck env hash P ps d \<Longrightarrow> legacy_deck env hash P ps d'"
proof -
  have "state_at env hash d' = state_at env hash d" using assms(2) by (simp add: state_at_def same_leaf_def)
  thus "awaits env hash d \<Longrightarrow> awaits env hash d'" "legacy_deck env hash P ps d \<Longrightarrow> legacy_deck env hash P ps d'"
    using assms(1) deck_holds_same [of hash _ d d' env] unfolding awaits_def legacy_deck_def same_deck_def by metis+
qed

lemma wp_migrate_awaiting:
  fixes file_id :: string and number :: int
  assumes "deck_env_ok env" "valid_hash hash" "awaits env hash d" "parse_legacy_document env doc = Inr (lv, ps, logs)"
    "map_option phase (deck_state v) \<noteq> Some ResetPhase" "deck_positions v = None"
  defines "migrated \<equiv> legacy_deck env hash (reviews_of_logs env file_id number 0 logs) ps"
  shows "wp (migrate_loaded env hash file_id number now doc v) (\<lambda>_. migrated) (\<lambda>_ d'. awaits env hash d' \<or> migrated d') d"
  using assms(3,5,6) wp_run_plan [OF assms(1-3) _ assms(4), of file_id number now "deck_state v" "deck_shard_leaves v \<noteq> []"]
  by (auto simp: migrate_loaded_def wp_rules migrated_def split: sum.splits)

lemma wp_migrate_again:
  assumes "deck_env_ok env" "valid_hash hash" "legacy_deck env hash P ps d"
    "map_option phase (deck_state v) \<noteq> Some ResetPhase" "deck_positions v = Some p"
  shows "wp (migrate_loaded env hash file_id number now doc v) (\<lambda>_. legacy_deck env hash P ps) (\<lambda>_. legacy_deck env hash P ps) d"
proof -
  have advance: "wp (case deck_state v of None \<Rightarrow> return_io ()
       | Some state \<Rightarrow>
           if phase state = Migrating
           then write_json (state_to_vec env) (state_leaf hash) (state\<lparr>phase := Migrated\<rparr>) PracticeState ''advance migration state''
           else return_io ()) (\<lambda>_. legacy_deck env hash P ps) (\<lambda>_. legacy_deck env hash P ps) d"
    using assms(3) wp_state_legacy [OF assms(1-3)] by (auto simp: wp_def [of "return_io _"] split: option.splits)
  have tail: "wp (bind_io (of_result r) (\<lambda>x. of_result (f x))) (\<lambda>_. legacy_deck env hash P ps) (\<lambda>_. legacy_deck env hash P ps) d'"
    if "legacy_deck env hash P ps d'" for d' and r :: "'x result" and f :: "'x \<Rightarrow> 'y result"
    using that by (auto simp: wp_bind wp_of_result split: sum.splits)
  have "wp (already_migrated env hash v p) (\<lambda>_. legacy_deck env hash P ps) (\<lambda>_. legacy_deck env hash P ps) d"
    unfolding already_migrated_def wp_bind [of "of_result _"] wp_of_result wp_bind [of "case deck_state v of None \<Rightarrow> _ | Some s \<Rightarrow> _ s"]
    using assms(3) wp_mono [OF advance] tail [unfolded wp_bind wp_of_result] by (auto split: sum.splits)
  thus ?thesis using assms(4,5) by (auto simp: migrate_loaded_def)
qed

text \<open>Both stages survive reads and the creation of the lock file.\<close>

abbreviation migration_stage ::
    "('e deck_env_scheme) \<Rightarrow> string \<Rightarrow> (review_shard_entry list \<Rightarrow> bool) \<Rightarrow> json list \<Rightarrow> disk \<Rightarrow> bool" where
  "migration_stage env hash P ps d \<equiv> (awaits env hash d \<or> legacy_deck env hash P ps d) \<and> honest d"

lemma migration_stage_same:
  "same_deck hash 0 d d' \<Longrightarrow> same_leaf (state_leaf hash) d d' \<Longrightarrow> migration_stage env hash P ps d \<Longrightarrow> migration_stage env hash P ps d'"
  using stage_same [of hash d d' env] by (auto simp: same_leaf_def honest_def)

lemma migration_stage_reads: "same_leaves d d' \<Longrightarrow> migration_stage env hash P ps d \<Longrightarrow> migration_stage env hash P ps d'"
  by (erule migration_stage_same [rotated 2]) (simp_all add: same_leaves_def same_deck_def names_ok_def same_leaf_def)

lemma wp_migrate_validated:
  fixes file_id :: string and number :: int
  assumes "deck_env_ok env" "valid_hash hash" "parse_legacy_document env doc = Inr (lv, ps, logs)"
  defines "P \<equiv> reviews_of_logs env file_id number 0 logs"
  assumes "migration_stage env hash P ps d" "validated_or_error env hash d = (Inr v, d')"
  shows "wp (migrate_loaded env hash file_id number now doc v) (\<lambda>_. legacy_deck env hash P ps)
    (\<lambda>_ d'. awaits env hash d' \<or> legacy_deck env hash P ps d') d'"
proof -
  obtain d1 d2 where st: "read_state env hash d = (Inr (deck_state v), d1)" and pos: "read_positions env hash d1 = (Inr (deck_positions v), d2)"
    using validated_parts [OF assms(6)] by blast
  have "same_leaves d d1" using st reads_only_read_positions(2) [of env hash] by (metis frame_def snd_conv)
  hence d1: "leaves d1 = leaves d" "honest d1" using assms(5) by (auto simp: same_leaves_def honest_def)
  have same: "leaves d' = leaves d" using assms(6) reads_only_validated [of env hash] by (metis frame_def same_leaves_def snd_conv)
  have no_reset: "map_option phase (deck_state v) \<noteq> Some ResetPhase"
    by (rule read_state_phase [OF st]) (use assms(5) in \<open>auto simp: awaits_def legacy_deck_def\<close>)
  show ?thesis
  proof (cases "awaits env hash d")
    case True
    hence "positions_at env hash d1 = None" using d1 by (simp add: awaits_def positions_at_def)
    hence "deck_positions v = None" using pos read_positions_Some by (cases "deck_positions v") fastforce+
    moreover have "awaits env hash d'" using True same awaits_leaves by blast
    ultimately show ?thesis
      unfolding P_def by (intro wp_migrate_awaiting [OF assms(1,2) _ assms(3) no_reset])
  next
    case False
    hence old: "legacy_deck env hash P ps d" using assms(5) by blast
    hence "map_of (leaves d1) (positions_leaf hash) \<noteq> None"
      using d1 by (auto simp: legacy_deck_def deck_holds_def positions_at_def split: option.splits)
    then obtain p where p: "deck_positions v = Some p"
      using pos read_positions_None [of env hash d1 d2] d1(2) by (cases "deck_positions v") auto
    have "legacy_deck env hash P ps d'" by (rule legacy_deck_leaves [OF same old])
    thus ?thesis by (intro wp_mono [OF wp_migrate_again [OF assms(1,2) _ no_reset p]]) auto
  qed
qed

lemma wp_migrate:
  fixes file_id :: string and number :: int
  assumes "deck_env_ok env" "parse_legacy_document env doc = Inr (lv, ps, logs)"
  defines "hash \<equiv> hash_deck env file_id number" and "P \<equiv> reviews_of_logs env file_id number 0 logs"
  assumes "migration_stage env hash P ps d"
  shows "wp (migrate_practice_deck_in env file_id number now doc) (\<lambda>_. legacy_deck env hash P ps)
    (\<lambda>_ d'. awaits env hash d' \<or> legacy_deck env hash P ps d') d"
proof -
  let ?failed = "\<lambda>_ :: error. \<lambda>d'. awaits env hash d' \<or> legacy_deck env hash P ps d'"
  let ?body = "bind_io (validated_or_error env hash) (migrate_loaded env hash file_id number now doc)"
  have h: "valid_hash hash" unfolding hash_def by (rule deck_hash_valid [OF assms(1)])
  have locked: "wp ?body (\<lambda>_. legacy_deck env hash P ps) ?failed d'" if "migration_stage env hash P ps d'" for d'
  proof (cases "validated_or_error env hash d'")
    case (Pair r d'')
    hence "migration_stage env hash P ps d''"
      using migration_stage_reads that reads_only_validated [of env hash] by (metis frame_def snd_conv)
    thus ?thesis
      using Pair wp_migrate_validated [OF assms(1) h assms(2) that [unfolded P_def]]
      by (cases r) (auto simp: wp_bind wp_def [of "validated_or_error env hash"] P_def)
  qed
  show ?thesis
    unfolding migrate_practice_deck_in_def Let_def hash_def [symmetric] with_store_lock_def wp_bind [of "open_or_create_regular_relative _"]
      wp_bind [of lock_advisory_file]
  proof (rule wp_frame [where R = "\<lambda>d d'. same_deck hash 0 d d' \<and> same_leaf (state_leaf hash) d d'"])
    show "frame (\<lambda>d d'. same_deck hash 0 d d' \<and> same_leaf (state_leaf hash) d d') (open_or_create_regular_relative (lock_leaf hash))"
      using frame_lock [OF h, of 0] keeps_open_lock [OF other_leaves(3) [OF h]] by (simp add: frame_def)
    fix d'
    assume "same_deck hash 0 d d' \<and> same_leaf (state_leaf hash) d d'"
    hence stage: "migration_stage env hash P ps d'" using migration_stage_same assms(5) by blast
    thus "awaits env hash d' \<or> legacy_deck env hash P ps d'" by blast
    show "wp lock_advisory_file (\<lambda>_. wp ?body (\<lambda>_. legacy_deck env hash P ps) ?failed) ?failed d'"
      by (rule wp_frame [OF reads_only_prims(3)]) (use migration_stage_reads [OF _ stage] locked in blast)+
  qed
qed

subsection \<open>Repeated attempts\<close>

lemmas faults_intros = faults.pure faults.bind faults.attempt faults.map_err faults.if_frame faults.for_frame faults_prims
  reads_only_faults [OF reads_only_read_shards] reads_only_faults [OF reads_only_validated] reads_only_faults [OF reads_only_prims(3)]

lemma migrate_keeps_faults: "keeps_faults (migrate_practice_deck_in env file_id number now doc)"
proof -
  have guards: "keeps_faults (guard_io c e)" for c e by (simp add: frame_def)
  have plan: "keeps_faults (run_plan env hash existing plan)" for hash existing plan
    unfolding run_plan_def write_state_def write_positions_def replace_shards_def read_back_matches_def Let_def
    by (intro faults_intros) (auto intro!: faults_intros guards split: prod.splits)
  have "keeps_faults (migrate_loaded env hash file_id number now doc v)" for hash v
    unfolding migrate_loaded_def already_migrated_def
    by (auto intro!: faults_intros plan split: option.splits)
  thus ?thesis
    unfolding migrate_practice_deck_in_def with_store_lock_def Let_def by (intro faults_intros)
qed

lemma migration_attempts:
  fixes file_id :: string and number :: int
  assumes "deck_env_ok env" "parse_legacy_document env doc = Inr (lv, ps, logs)"
    "migration_stage env (hash_deck env file_id number) (reviews_of_logs env file_id number 0 logs) ps d"
  shows "migration_stage env (hash_deck env file_id number) (reviews_of_logs env file_id number 0 logs) ps
    (fold (\<lambda>now d. snd (migrate_practice_deck_in env file_id number now doc d)) moments d)"
  using assms(3)
proof (induction moments arbitrary: d)
  case (Cons now moments)
  let ?h = "hash_deck env file_id number" and ?P = "reviews_of_logs env file_id number 0 logs"
  let ?d = "snd (migrate_practice_deck_in env file_id number now doc d)"
  have "awaits env ?h ?d \<or> legacy_deck env ?h ?P ps ?d"
    using wp_migrate [OF assms(1,2) Cons.prems, of now] by (auto simp: wp_def split: prod.splits sum.splits)
  moreover have "fault_at ?d = fault_at d" using migrate_keeps_faults [unfolded frame_def] by blast
  hence "honest ?d" using Cons.prems by (simp add: honest_def)
  ultimately show ?case using Cons.IH by simp
qed simp

text \<open>C20. A legacy document whose migration is started again, through any failures of the file system, until
  it succeeds: the deck holds the positions of the document, its history is the logs in their
  order, each once, numbered from one, and the deck document counts them all.\<close>

theorem migration_imports_history:
  assumes "deck_env_ok env" "parse_legacy_document env doc = Inr (lv, ps, logs)" "honest d" "awaits env (hash_deck env file_id number) d"
    "migrate_practice_deck_in env file_id number now doc
       (fold (\<lambda>now d. snd (migrate_practice_deck_in env file_id number now doc d)) moments d) = (Inr res, d')"
  shows "\<exists>q shards. deck_holds env (hash_deck env file_id number) d' q shards
    \<and> reviews_of_logs env file_id number 0 logs (history shards) \<and> positions q = ps
    \<and> unat (applied_entries q) = length logs \<and> orphan_entries q = 0"
proof -
  have "migration_stage env (hash_deck env file_id number) (reviews_of_logs env file_id number 0 logs) ps
      (fold (\<lambda>now d. snd (migrate_practice_deck_in env file_id number now doc d)) moments d)"
    by (rule migration_attempts [OF assms(1,2)]) (use assms(3,4) in blast)
  from wp_Inr [OF wp_migrate [OF assms(1,2) this] assms(5)]
  obtain q shards where "deck_holds env (hash_deck env file_id number) d' q shards" "reviews_of_logs env file_id number 0 logs (history shards)"
    "positions q = ps" "unat (applied_entries q) = length (history shards)" "orphan_entries q = 0"
    unfolding legacy_deck_def by blast
  thus ?thesis unfolding reviews_of_logs_def by metis
qed

definition legacy_review :: "nat \<Rightarrow> review_shard_entry" where
  "legacy_review n = \<lparr>review_id = (case hash_migration_entry (sample_env [] [] []) ''f'' 0 n JNull of Inl _ \<Rightarrow> [] | Inr i \<Rightarrow> i),
     rev_of = of_nat n + 1, review_entry = JInt (int n + 5)\<rparr>"

definition legacy_shard :: review_shard_envelope where
  "legacy_shard = \<lparr>shard_version = 1, shard_file_id = ''f'', shard_game = 0, shard_generation = 0, shard_ordinal = 0,
     shard_entries = [legacy_review 0, legacy_review 1]\<rparr>"

definition legacy_digest_text :: string where
  "legacy_digest_text = sha256 (sample_env [] [] []) []"

definition legacy_positions :: "string \<Rightarrow> positions_envelope" where
  "legacy_positions now = (case migrated_envelope (sample_env [] [] []) ''f'' 0 now [] legacy_digest_text [legacy_review 0, legacy_review 1] of
     Inl _ \<Rightarrow> first_positions | Inr p \<Rightarrow> p)"

definition legacy_state :: "migration_phase \<Rightarrow> migration_state_envelope" where
  "legacy_state ph = \<lparr>state_version = 1, state_file_id = ''f'', state_game = 0, phase = ph, legacy_digest = legacy_digest_text\<rparr>"

definition legacy_env :: deck_env where
  "legacy_env = sample_env [legacy_positions ''t1'', legacy_positions ''t2''] [legacy_shard] [legacy_state Migrating, legacy_state Migrated]"

text \<open>The first attempt fails when it writes the positions document.\<close>

definition legacy_disk :: disk where
  "legacy_disk = \<lparr>leaves = [], fault_at = (\<lambda>n. if n = 11 then Fails GameNotInProgress else NoFault), ops_done = 0, uuids_drawn = 0\<rparr>"

definition legacy_outcome :: practice_migration_outcome where
  "legacy_outcome = \<lparr>outcome_status = MigratedNow, outcome_entries = 2, outcome_positions = 0,
     outcome_positions_digest = legacy_digest_text, outcome_entries_digest = legacy_digest_text\<rparr>"

text \<open>What the first attempt leaves behind.\<close>

definition interrupted_disk :: disk where
  "interrupted_disk = legacy_disk\<lparr>leaves := [(lock_leaf (hash_deck legacy_env ''f'' 0), RegularFile []),
     (state_leaf (hash_deck legacy_env ''f'' 0), RegularFile [0]), (shard_leaf (hash_deck legacy_env ''f'' 0) 0 0, RegularFile [0])], ops_done := 12\<rparr>"

definition disk_view :: "disk \<Rightarrow> (string \<times> dir_entry) list \<times> nat \<times> nat" where
  "disk_view d = (leaves d, ops_done d, uuids_drawn d)"

lemma legacy_first_attempt: "snd (migrate_practice_deck_in legacy_env ''f'' 0 ''t1'' ''{}'' legacy_disk) = interrupted_disk"
proof -
  let ?d = "snd (migrate_practice_deck_in legacy_env ''f'' 0 ''t1'' ''{}'' legacy_disk)"
  have "disk_view ?d = disk_view interrupted_disk" by code_simp
  hence "leaves ?d = leaves interrupted_disk" "ops_done ?d = ops_done interrupted_disk" "uuids_drawn ?d = uuids_drawn interrupted_disk"
    unfolding disk_view_def prod.inject by blast+
  moreover have "fault_at ?d = fault_at legacy_disk" using migrate_keeps_faults [unfolded frame_def] by blast
  moreover have "fault_at interrupted_disk = fault_at legacy_disk" by (simp add: interrupted_disk_def)
  ultimately show ?thesis by (intro disk.equality) simp_all
qed

lemma legacy_second_attempt:
  "fst (migrate_practice_deck_in legacy_env ''f'' 0 ''t2'' ''{}'' interrupted_disk) = Inr legacy_outcome"
  by code_simp

lemma legacy_parse: "parse_legacy_document legacy_env ''{}''
    = Inr (JObject [(''positions'', JArray []), (''logs'', JArray [JInt 5, JInt 6])], [], [JInt 5, JInt 6])"
  by code_simp

theorem migration_imports_history_witness:
  "\<exists>d' q shards. migrate_practice_deck_in legacy_env ''f'' 0 ''t2'' ''{}''
       (snd (migrate_practice_deck_in legacy_env ''f'' 0 ''t1'' ''{}'' legacy_disk)) = (Inr legacy_outcome, d')
     \<and> deck_holds legacy_env (hash_deck legacy_env ''f'' 0) d' q shards
     \<and> map review_entry (history shards) = [JInt 5, JInt 6] \<and> applied_entries q = 2"
proof -
  let ?m = "\<lambda>now. migrate_practice_deck_in legacy_env ''f'' 0 now ''{}''" and ?h = "hash_deck legacy_env ''f'' 0"
  let ?d = "snd (?m ''t2'' (snd (?m ''t1'' legacy_disk)))"
  have env: "deck_env_ok legacy_env" by (simp add: legacy_env_def sample_env_ok)
  have disk: "honest legacy_disk" "awaits legacy_env ?h legacy_disk"
    by (simp_all add: honest_def legacy_disk_def awaits_def names_ok_def state_at_def)
  have run: "?m ''t2'' (snd (?m ''t1'' legacy_disk)) = (Inr legacy_outcome, ?d)"
    using legacy_second_attempt by (intro prod_eqI) (simp_all only: fst_conv snd_conv legacy_first_attempt)
  have again: "?m ''t2'' (fold (\<lambda>now d. snd (?m now d)) [''t1''] legacy_disk) = (Inr legacy_outcome, ?d)"
    using run by (simp only: fold_simps)
  obtain q shards where held: "deck_holds legacy_env ?h ?d q shards"
    "reviews_of_logs legacy_env ''f'' 0 0 [JInt 5, JInt 6] (history shards)" "unat (applied_entries q) = length [JInt 5, JInt 6]"
    using migration_imports_history [OF env legacy_parse disk again] by blast
  have "map review_entry (history shards) = [JInt 5, JInt 6]"
    using held(2) by (auto simp: reviews_of_logs_def list_eq_iff_nth_eq less_Suc_eq)
  moreover have "applied_entries q = 2" using held(3) by (simp add: word_unat_eq_iff)
  ultimately show ?thesis
    using run held(1) by (intro exI [of _ ?d] exI [of _ q] exI [of _ shards] conjI)
qed

end
