(* ===== verification/PracticeRepair.thy ===== *)
theory PracticeRepair
  imports PracticeMigrated
begin

text \<open>
  Repairing a deck (\<^verbatim>\<open>repair_practice_deck_in\<close>): a repair that succeeds leaves an empty deck, and an
  unfinished migration can start again; what a repair that fails reports.
\<close>

lemma map_of_fold_delete: "map_of (fold AList.delete ns ls) k = (if k \<in> set ns then None else map_of ls k)"
  by (induction ns arbitrary: ls) (auto simp: AList.delete_conv')

lemma keys_fold_delete: "fst ` set (fold AList.delete ns ls) = fst ` set ls - set ns"
proof (induction ns arbitrary: ls)
  case (Cons n ns)
  have "fst ` set (AList.delete n ls) = fst ` set ls - {n}"
    using AList.delete_keys [of n ls] by (metis list.set_map set_removeAll)
  thus ?case using Cons by auto
qed simp

lemma wp_repair_remove: "wp (repair_remove leaf k) (\<lambda>_ d'. leaves d' = AList.delete leaf (leaves d)) (\<lambda>_ _. True) d"
  unfolding repair_remove_def by (auto simp: wp_rules intro!: wp_remove_leaf)

lemma wp_repair_shards:
  "wp (for_io repair_shard ss k) (\<lambda>_ d'. leaves d' = fold AList.delete (map fst ss) (leaves d)) (\<lambda>_ _. True) d"
proof (induction ss arbitrary: k d)
  case (Cons s ss)
  have "wp (repair_shard s k) (\<lambda>_ d'. leaves d' = AList.delete (fst s) (leaves d)) (\<lambda>_ _. True) d"
    using wp_repair_remove [of "fst s" k d] by (auto simp: repair_shard_def wp_throw split: prod.splits)
  thus ?case
    unfolding for_io.simps wp_bind
  proof (rule wp_mono)
    fix j and t :: disk
    assume "leaves t = AList.delete (fst s) (leaves d)"
    thus "wp (for_io repair_shard ss j) (\<lambda>_ d'. leaves d' = fold AList.delete (map fst (s # ss)) (leaves d)) (\<lambda>_ _. True) t"
      using Cons [of j t] by simp
  qed simp
qed (simp add: wp_def)

text \<open>The names of the shards of a deck, of any generation.\<close>

definition shard_names :: "string \<Rightarrow> disk \<Rightarrow> string set" where
  "shard_names hash d = {name \<in> fst ` set (leaves d). \<exists>g n. parse_owned_leaf name = Some (ShardLeaf hash g n)}"

lemma all_shard_leaves_names:
  "all_shard_leaves hash d = (Inr shards, d') \<Longrightarrow> fst ` set shards = shard_names hash d"
proof -
  assume run: "all_shard_leaves hash d = (Inr shards, d')"
  let ?f = "\<lambda>(name, e). case parse_owned_leaf name of
      Some (ShardLeaf h generation ordinal) \<Rightarrow> if h = hash then Some (name, generation, ordinal, e) else None | _ \<Rightarrow> None"
  have shards: "shards = List.map_filter ?f (leaves d)"
    using run by (auto simp: all_shard_leaves_def bind_io_eq_Inr dir_entries_def faulty_def next_fault_def split: fault.splits)
  have "x \<in> fst ` set (List.map_filter ?f ls) \<longleftrightarrow> x \<in> {name \<in> fst ` set ls. \<exists>g n. parse_owned_leaf name = Some (ShardLeaf hash g n)}" for x ls
    by (induction ls) (auto simp: map_filter_simps split: option.splits owned_leaf.splits if_splits)
  thus ?thesis unfolding shards shard_names_def by blast
qed

text \<open>The leaves a deck is gone from, whatever its state leaf says.\<close>

definition cleared :: "string \<Rightarrow> disk \<Rightarrow> bool" where
  "cleared hash d \<longleftrightarrow> map_of (leaves d) (positions_leaf hash) = None \<and> shard_names hash d = {}"

lemma cleared_state_change:
  assumes "valid_hash hash" "cleared hash d"
    "leaves d' = AList.update (state_leaf hash) e (leaves d) \<or> leaves d' = AList.delete (state_leaf hash) (leaves d)"
  shows "cleared hash d'"
proof -
  have "fst ` set (leaves d') \<subseteq> insert (state_leaf hash) (fst ` set (leaves d))"
    using assms(3)
  proof
    assume "leaves d' = AList.update (state_leaf hash) e (leaves d)"
    thus ?thesis by (simp add: dom_update)
  next
    assume "leaves d' = AList.delete (state_leaf hash) (leaves d)"
    moreover have "fst ` set (AList.delete (state_leaf hash) (leaves d)) = fst ` set (leaves d) - {state_leaf hash}"
      using keys_fold_delete [of "[state_leaf hash]" "leaves d"] by simp
    ultimately show ?thesis by (simp only:) blast
  qed
  moreover have "state_leaf hash \<notin> shard_names hash d'" using parse_owned_leaf_names(2) [OF assms(1)] by (simp add: shard_names_def)
  ultimately have "name \<in> shard_names hash d" if "name \<in> shard_names hash d'" for name
    using that by (cases "name = state_leaf hash") (auto simp: shard_names_def)
  hence "shard_names hash d' = {}" using assms(2) by (auto simp: cleared_def)
  moreover have "map_of (leaves d') (positions_leaf hash) = map_of (leaves d) (positions_leaf hash)"
    using assms(3) other_leaves(1) [OF assms(1)] by (auto simp: AList.update_conv' AList.delete_conv')
  ultimately show ?thesis using assms(2) by (simp add: cleared_def)
qed

lemma wp_clear:
  assumes "valid_hash hash"
  shows "wp (clear_deck_leaves hash)
    (\<lambda>_ d'. cleared hash d' \<and> map_of (leaves d') (state_leaf hash) = map_of (leaves d) (state_leaf hash)) (\<lambda>_ _. True) d"
proof (cases "all_shard_leaves hash d")
  case (Pair r d1)
  have same: "leaves d1 = leaves d" using Pair reads_only_shards [of hash] by (metis frame_def same_leaves_def snd_conv)
  have done_all: "cleared hash d' \<and> map_of (leaves d') (state_leaf hash) = map_of (leaves d) (state_leaf hash)"
    if r: "r = Inr shards" and d': "leaves d' = fold AList.delete (map fst shards) (AList.delete (positions_leaf hash) (leaves d1))" for shards d'
  proof -
    have names: "set (map fst shards) = shard_names hash d" using all_shard_leaves_names [OF Pair [unfolded r]] by simp
    have "state_leaf hash \<notin> shard_names hash d" using parse_owned_leaf_names(2) [OF assms] by (simp add: shard_names_def)
    moreover have "fst ` set (leaves d') = fst ` set (leaves d) - insert (positions_leaf hash) (shard_names hash d)"
      using keys_fold_delete [of "positions_leaf hash # map fst shards" "leaves d"] names d' same by auto
    ultimately show ?thesis
      using d' names same other_leaves(1) [OF assms]
      by (auto simp: cleared_def map_of_fold_delete AList.delete_conv' shard_names_def [of hash d'] shard_names_def [of hash d])
  qed
  have "wp (bind_io (repair_remove (positions_leaf hash) 0) (for_io repair_shard shards))
      (\<lambda>_ d'. cleared hash d' \<and> map_of (leaves d') (state_leaf hash) = map_of (leaves d) (state_leaf hash)) (\<lambda>_ _. True) d1"
    if "r = Inr shards" for shards
    unfolding wp_bind
  proof (rule wp_mono [OF wp_repair_remove])
    fix j and t :: disk
    assume "leaves t = AList.delete (positions_leaf hash) (leaves d1)"
    thus "wp (for_io repair_shard shards j)
        (\<lambda>_ d'. cleared hash d' \<and> map_of (leaves d') (state_leaf hash) = map_of (leaves d) (state_leaf hash)) (\<lambda>_ _. True) t"
      using done_all [OF that] by (intro wp_mono [OF wp_repair_shards]) simp_all
  qed simp
  thus ?thesis by (cases r) (auto simp: clear_deck_leaves_def wp_bind [of "all_shard_leaves hash"] wp_def [of "all_shard_leaves hash"] Pair)
qed

definition repaired :: "('e deck_env_scheme) \<Rightarrow> string \<Rightarrow> disk \<Rightarrow> disk \<Rightarrow> bool" where
  "repaired env hash d d' \<longleftrightarrow> cleared hash d'
     \<and> (map_of (leaves d') (state_leaf hash) = None \<or> map_option phase (state_at env hash d') = Some ResetPhase)
     \<and> (map_option phase (state_at env hash d) = Some Migrating \<longrightarrow> map_of (leaves d') (state_leaf hash) = None)"

lemma read_state_for_repair_Inr:
  assumes "read_state_for_repair env hash d = (Inr (state, invalid), d')"
  shows "leaves d' = leaves d" "\<not> invalid \<Longrightarrow> read_state env hash d = (Inr state, d')"
proof -
  obtain r d1 where r: "read_state env hash d = (r, d1)" by force
  have run: "(case r of Inr state \<Rightarrow> return_io (state, False) | Inl (InvalidInput _) \<Rightarrow> return_io (None, True) | Inl e \<Rightarrow> throw_io e) d1
      = (Inr (state, invalid), d')"
    using assms unfolding read_state_for_repair_def bind_attempt [where m = "read_state env hash", OF r] .
  hence d': "d' = d1" "\<not> invalid \<Longrightarrow> r = Inr state" by (auto split: sum.split_asm error.split_asm)
  show "leaves d' = leaves d" using r d' reads_only_read_positions(2) [of env hash] by (metis frame_def same_leaves_def snd_conv)
  show "\<not> invalid \<Longrightarrow> read_state env hash d = (Inr state, d')" using r d' by simp
qed

lemma read_state_document:
  assumes "read_state env hash d = (Inr found, d')" "honest d"
  shows "found = None \<Longrightarrow> map_of (leaves d) (state_leaf hash) = None" "found = Some s \<Longrightarrow> state_at env hash d = Some s"
proof -
  obtain r d1 where r: "read_json (state_from_slice env) (state_leaf hash) PRACTICE_LEGACY_MAX_BYTES ''read migration state'' d = (Inr r, d1)"
    and rest: "(case r of None \<Rightarrow> return_io None | Some s \<Rightarrow>
        bind_io (of_result (check_identity env (state_leaf hash) (state_version s) (state_file_id s) (state_game s))) (\<lambda>_.
          if length (legacy_digest s) \<noteq> 64 then throw_io (invalid_leaf (state_leaf hash) ''migration digest is invalid'')
          else return_io (Some s))) d1 = (Inr found, d')"
    using assms(1) unfolding read_state_def Let_def bind_io_eq_Inr [of _ _ d] by blast
  have found: "found = r" using rest by (cases r) (auto simp: bind_io_eq_Inr split: if_split_asm)
  show "found = None \<Longrightarrow> map_of (leaves d) (state_leaf hash) = None" using r found read_json_None assms(2) by blast
  show "found = Some s \<Longrightarrow> state_at env hash d = Some s" using r found by (auto simp: state_at_def dest!: read_json_Some)
qed

lemma wp_repair_state:
  assumes "deck_env_ok env" "valid_hash hash" "honest d" "read_state_for_repair env hash d = (Inr (state, invalid), d1)"
    "cleared hash t" "map_of (leaves t) (state_leaf hash) = map_of (leaves d) (state_leaf hash)"
  shows "wp (repair_state env hash state invalid k) (\<lambda>_. repaired env hash d) (\<lambda>_ _. True) t"
proof (cases "invalid \<or> map_option phase state = Some Migrating")
  case True
  have "repaired env hash d d'" if "leaves d' = AList.delete (state_leaf hash) (leaves t)" for d'
    using cleared_state_change [OF assms(2,5)] that by (auto simp: repaired_def AList.delete_conv')
  thus ?thesis using True by (auto simp: repair_state_def wp_bind wp_return intro!: wp_mono [OF wp_repair_remove])
next
  case False
  hence "read_state env hash d = (Inr state, d1)" using read_state_for_repair_Inr [OF assms(4)] by blast
  note found = read_state_document [OF this assms(3)]
  show ?thesis
  proof (cases state)
    case None
    thus ?thesis using found False assms(5,6) by (simp add: repair_state_def wp_def repaired_def)
  next
    case (Some s)
    have "repaired env hash d d'"
      if "state_to_vec env (s\<lparr>phase := ResetPhase\<rparr>) = Some bs" "leaves d' = AList.update (state_leaf hash) (RegularFile bs) (leaves t)" for bs d'
    proof -
      have "state_at env hash d' = Some (s\<lparr>phase := ResetPhase\<rparr>)"
        using that assms(1) by (simp add: state_at_def AList.update_conv' deck_env_ok_def)
      moreover have "cleared hash d'" using cleared_state_change [OF assms(2,5)] that(2) by blast
      ultimately show ?thesis using found(2) [OF Some] False Some by (simp add: repaired_def)
    qed
    thus ?thesis using Some False by (auto simp: repair_state_def wp_map_err intro!: wp_write_json)
  qed
qed

text \<open>C21. A repair that succeeds, on a file system that does not deny existing entries, leaves no positions
  document and no shard of any generation; what is left of the migration state says that the deck
  was reset, and an unfinished migration leaves nothing, so that it can start again.\<close>

theorem repair_empties_deck:
  assumes "deck_env_ok env" "honest d" "repair_practice_deck_in env file_id number d = (Inr (), d')"
  shows "repaired env (hash_deck env file_id number) d d'"
proof -
  let ?h = "hash_deck env file_id number"
  have h: "valid_hash ?h" by (rule deck_hash_valid [OF assms(1)])
  obtain d1 d2 d3 state invalid where lock: "open_or_create_regular_relative (lock_leaf ?h) d = (Inr (), d1)"
    and adv: "lock_advisory_file d1 = (Inr (), d2)" and r: "read_state_for_repair env ?h d2 = (Inr (state, invalid), d3)"
    and rest: "bind_io (clear_deck_leaves ?h) (repair_state env ?h state invalid) d3 = (Inr (), d')"
    using assms(3) unfolding repair_practice_deck_in_def Let_def with_store_lock_def
    by (auto simp: bind_io_eq_Inr [of _ _ d] bind_io_eq_Inr [of lock_advisory_file] bind_io_eq_Inr [of "read_state_for_repair env ?h"])
  have "same_leaf (state_leaf ?h) d d1" "same_leaves d1 d2"
    using lock adv keeps_open_lock [OF other_leaves(3) [OF h]] reads_only_prims(3) unfolding frame_def by (metis snd_conv)+
  hence same: "map_of (leaves d2) (state_leaf ?h) = map_of (leaves d) (state_leaf ?h)" "fault_at d2 = fault_at d"
    by (simp_all add: same_leaf_def same_leaves_def)
  hence honest: "honest d2" using assms(2) by (simp add: honest_def)
  have "wp (bind_io (clear_deck_leaves ?h) (repair_state env ?h state invalid)) (\<lambda>_. repaired env ?h d2) (\<lambda>_ _. True) d3"
    unfolding wp_bind
    by (rule wp_mono [OF wp_clear [OF h]])
      (use wp_repair_state [OF assms(1) h honest r] read_state_for_repair_Inr(1) [OF r] in simp_all)
  from wp_Inr [OF this rest] show ?thesis by (simp add: repaired_def state_at_def same)
qed

text \<open>A deck whose positions document is damaged, in the middle of a migration.\<close>

definition damaged_disk :: disk where
  "damaged_disk = \<lparr>leaves = [(positions_leaf (hash_deck legacy_env ''f'' 0), RegularFile [9]),
       (shard_leaf (hash_deck legacy_env ''f'' 0) 3 0, RegularFile []), (state_leaf (hash_deck legacy_env ''f'' 0), RegularFile [0])],
     fault_at = (\<lambda>_. NoFault), ops_done = 0, uuids_drawn = 0\<rparr>"

lemma damaged_repair: "fst (repair_practice_deck_in legacy_env ''f'' 0 damaged_disk) = Inr ()"
  by code_simp

lemma damaged_state: "map_option phase (state_at legacy_env (hash_deck legacy_env ''f'' 0) damaged_disk) = Some Migrating"
  by code_simp

theorem repair_empties_deck_witness:
  "\<exists>d'. repair_practice_deck_in legacy_env ''f'' 0 damaged_disk = (Inr (), d')
     \<and> cleared (hash_deck legacy_env ''f'' 0) d' \<and> map_of (leaves d') (state_leaf (hash_deck legacy_env ''f'' 0)) = None"
proof -
  let ?d = "snd (repair_practice_deck_in legacy_env ''f'' 0 damaged_disk)"
  have env: "deck_env_ok legacy_env" by (simp add: legacy_env_def sample_env_ok)
  have disk: "honest damaged_disk" by (simp add: honest_def damaged_disk_def)
  have run: "repair_practice_deck_in legacy_env ''f'' 0 damaged_disk = (Inr (), ?d)"
    using damaged_repair by (intro prod_eqI) (simp_all only: fst_conv snd_conv)
  from repair_empties_deck [OF env disk run] show ?thesis
    unfolding repaired_def using run damaged_state by blast
qed

subsection \<open>What a repair that fails reports\<close>

text \<open>An action whose errors all satisfy \<^term>\<open>P\<close>, as long as those of the file system do.\<close>

definition faults_are :: "(error \<Rightarrow> bool) \<Rightarrow> disk \<Rightarrow> bool" where
  "faults_are P d \<longleftrightarrow> (\<forall>n e. fault_at d n = Fails e \<longrightarrow> P e)"

definition raises :: "(error \<Rightarrow> bool) \<Rightarrow> (disk, 'a) io \<Rightarrow> bool" where
  "raises P m \<longleftrightarrow> (\<forall>d. faults_are P d \<longrightarrow> fault_at (snd (m d)) = fault_at d \<and> (\<forall>e. fst (m d) = Inl e \<longrightarrow> P e))"

lemma faults_are_same: "fault_at d' = fault_at d \<Longrightarrow> faults_are P d' = faults_are P d"
  by (simp add: faults_are_def)

lemma raises_pure: "raises P (return_io x)" "P e \<Longrightarrow> raises P (throw_io e)" "(\<And>e. r = Inl e \<Longrightarrow> P e) \<Longrightarrow> raises P (of_result r)"
  by (auto simp: raises_def of_result_def throw_io_def return_io_def)

lemma raisesD:
  "raises P m \<Longrightarrow> faults_are P d \<Longrightarrow> m d = (r, d')
    \<Longrightarrow> fault_at d' = fault_at d \<and> (\<forall>e. r = Inl e \<longrightarrow> P e)"
  unfolding raises_def by (metis fst_conv snd_conv)

lemma raisesI:
  "(\<And>d r d'. faults_are P d \<Longrightarrow> m d = (r, d')
    \<Longrightarrow> fault_at d' = fault_at d \<and> (\<forall>e. r = Inl e \<longrightarrow> P e)) \<Longrightarrow> raises P m"
  unfolding raises_def by (metis prod.collapse)

lemma raises_bind:
  assumes "raises P m" "\<And>x. raises P (f x)"
  shows "raises P (bind_io m f)"
proof (rule raisesI)
  fix d :: disk and r d'
  assume d: "faults_are P d" and run: "bind_io m f d = (r, d')"
  obtain q d1 where m: "m d = (q, d1)" by force
  note first = raisesD [OF assms(1) d m]
  show "fault_at d' = fault_at d \<and> (\<forall>e. r = Inl e \<longrightarrow> P e)"
  proof (cases q)
    case (Inl e)
    thus ?thesis using run m first by (auto simp: bind_io_def)
  next
    case (Inr x)
    hence "f x d1 = (r, d')" using run m by (simp add: bind_io_def)
    moreover have "faults_are P d1" using faults_are_same d first by blast
    ultimately have "fault_at d' = fault_at d1 \<and> (\<forall>e. r = Inl e \<longrightarrow> P e)" using raisesD [OF assms(2)] by blast
    thus ?thesis using first by simp
  qed
qed

lemma raises_faulty:
  "(\<And>d. fault_at (snd (act d)) = fault_at d) \<Longrightarrow> (\<And>d e. fst (act d) = Inl e \<Longrightarrow> P e) \<Longrightarrow> raises P (faulty act)"
  unfolding raises_def faults_are_def faulty_def next_fault_def by (auto split: fault.splits)

lemma raises_attempt:
  assumes "raises P m" "\<And>x. raises P (f (Inr x))" "\<And>e. P e \<Longrightarrow> raises P (f (Inl e))"
  shows "raises P (bind_io (attempt m) f)"
proof (rule raisesI)
  fix d :: disk and r d'
  assume d: "faults_are P d" and run: "bind_io (attempt m) f d = (r, d')"
  obtain q d1 where m: "m d = (q, d1)" by force
  note first = raisesD [OF assms(1) d m]
  have "raises P (f q)" using assms(2,3) first by (cases q) auto
  moreover have "f q d1 = (r, d')" using run unfolding bind_attempt [where m = m, OF m] .
  moreover have "faults_are P d1" using faults_are_same d first by blast
  ultimately have "fault_at d' = fault_at d1 \<and> (\<forall>e. r = Inl e \<longrightarrow> P e)" by (intro raisesD)
  thus "fault_at d' = fault_at d \<and> (\<forall>e. r = Inl e \<longrightarrow> P e)" using first by simp
qed

lemma raises_map_err: "raises P m \<Longrightarrow> (\<And>e. P e \<Longrightarrow> P (g e)) \<Longrightarrow> raises P (map_err g m)"
  unfolding map_err_def by (auto intro!: raises_attempt raises_pure)

definition plain :: "error \<Rightarrow> bool" where
  "plain e \<longleftrightarrow> (\<forall>n cause. e \<noteq> PartialRemoval n cause)"

lemma plain_errors [simp]:
  "plain (invalid_leaf leaf reason)" "plain not_regular" "plain missing_entry"
  "plain e \<Longrightarrow> plain (operation_error operation leaf e)"
proof -
  show "plain (invalid_leaf leaf reason)" "plain not_regular" "plain missing_entry"
    by (simp_all add: plain_def invalid_leaf_def not_regular_def missing_entry_def)
  show "plain e \<Longrightarrow> plain (operation_error operation leaf e)"
    by (cases e) (simp_all add: plain_def operation_io_def invalid_leaf_def)
qed

lemma raises_read_state: "raises plain (read_state env hash)"
proof -
  have check: "check_identity env leaf v fid g = Inl e \<Longrightarrow> plain e" for leaf v fid g e
    by (auto simp: check_identity_def Let_def split: if_splits)
  have "raises plain (read_json dec leaf mx what)" for dec :: "bytes \<Rightarrow> 'c option" and leaf mx what
    unfolding read_json_def read_leaf_bytes_def open_regular_relative_def file_len_def read_bounded_bytes_def
    by (intro raises_bind raises_attempt raises_faulty)
      (auto intro!: raises_bind raises_pure raises_map_err raises_faulty split: option.splits dir_entry.splits if_splits)
  thus ?thesis
    unfolding read_state_def Let_def
    by (intro raises_bind) (auto intro!: raises_bind raises_pure dest: check split: option.splits)
qed

lemma raises_before_clearing:
  "raises plain (open_or_create_regular_relative leaf)" "raises plain lock_advisory_file"
  "raises plain (read_state_for_repair env hash)" "raises plain (all_shard_leaves hash)"
proof -
  show "raises plain (open_or_create_regular_relative leaf)"
    unfolding open_or_create_regular_relative_def by (intro raises_faulty) (auto split: option.splits dir_entry.splits)
  show "raises plain lock_advisory_file" unfolding lock_advisory_file_def by (intro raises_faulty) auto
  show "raises plain (read_state_for_repair env hash)"
    unfolding read_state_for_repair_def
    by (intro raises_attempt raises_read_state) (auto intro!: raises_pure split: error.split)
  show "raises plain (all_shard_leaves hash)"
    unfolding all_shard_leaves_def dir_entries_def by (intro raises_bind raises_faulty raises_pure) auto
qed

lemma wp_raises: "raises P m \<Longrightarrow> faults_are P d \<Longrightarrow> wp m (\<lambda>_ d'. fault_at d' = fault_at d) (\<lambda>e _. P e) d"
  by (cases "m d") (auto simp: wp_def dest: raisesD split: sum.split)

text \<open>The entries of a directory that are no longer there.\<close>

definition gone :: "disk \<Rightarrow> disk \<Rightarrow> string set" where
  "gone d d' = {name. map_of (leaves d) name \<noteq> None \<and> map_of (leaves d') name = None}"

text \<open>Exactly these shards of the deck are gone.\<close>

definition lost_shards :: "string \<Rightarrow> string set \<Rightarrow> disk \<Rightarrow> disk \<Rightarrow> bool" where
  "lost_shards hash lost d d' \<longleftrightarrow> gone d d' = lost \<and> finite lost
     \<and> (\<forall>name \<in> lost. \<exists>g n. parse_owned_leaf name = Some (ShardLeaf hash g n))
     \<and> map_of (leaves d') (positions_leaf hash) = None"

lemma lost_same: "leaves d'' = leaves d' \<Longrightarrow> lost_shards hash lost d d'' = lost_shards hash lost d d'"
  by (simp add: lost_shards_def gone_def)

lemma lost_one_more:
  assumes "lost_shards hash lost d t" "leaves t' = AList.delete name (leaves t)" "map_of (leaves d) name \<noteq> None"
    "parse_owned_leaf name = Some (ShardLeaf hash g n)"
  shows "lost_shards hash (insert name lost) d t'"
  using assms by (auto simp: lost_shards_def gone_def AList.delete_conv')

lemma lost_then_state:
  assumes "valid_hash hash" "lost_shards hash lost d t" "leaves t' = AList.update (state_leaf hash) e (leaves t)"
  shows "lost_shards hash lost d t'"
proof -
  have "state_leaf hash \<notin> lost" using assms(2) parse_owned_leaf_names(2) [OF assms(1)] by (auto simp: lost_shards_def)
  thus ?thesis using assms(2,3) other_leaves(1) [OF assms(1)]
    by (auto simp: lost_shards_def gone_def AList.update_conv')
qed

text \<open>The claim about an error: a partial removal counts one entry more than are gone.\<close>

definition counts_one_more :: "disk \<Rightarrow> error \<Rightarrow> disk \<Rightarrow> bool" where
  "counts_one_more d e d' \<longleftrightarrow> (\<forall>n cause. e = PartialRemoval n cause \<longrightarrow> n = Suc (card (gone d d')))"

lemma lost_counts: "lost_shards hash lost d t \<Longrightarrow> counts_one_more d (repair_error (Suc (card lost)) e) t"
  by (simp add: counts_one_more_def repair_error_def lost_shards_def)

lemma plain_counts: "plain e \<Longrightarrow> counts_one_more d e t"
  by (simp add: counts_one_more_def plain_def)

lemma wp_lose_shards:
  assumes "lost_shards hash lost d t" "distinct (map fst ss)" "set (map fst ss) \<inter> lost = {}"
    "\<forall>s \<in> set ss. map_of (leaves d) (fst s) \<noteq> None \<and> (\<exists>g n. parse_owned_leaf (fst s) = Some (ShardLeaf hash g n))"
  shows "wp (for_io repair_shard ss (Suc (card lost)))
    (\<lambda>k t'. \<exists>lost. lost_shards hash lost d t' \<and> k = Suc (card lost)) (counts_one_more d) t"
  using assms
proof (induction ss arbitrary: lost t)
  case (Cons s ss)
  obtain name g n kind where s: "s = (name, g, n, kind)" by (cases s)
  let ?Q = "\<lambda>k t'. \<exists>lost. lost_shards hash lost d t' \<and> k = Suc (card lost)"
  have next_one: "wp (for_io repair_shard ss (Suc (Suc (card lost)))) ?Q (counts_one_more d) t'"
    if "leaves t' = AList.delete name (leaves t)" for t'
  proof -
    obtain g' n' where "parse_owned_leaf name = Some (ShardLeaf hash g' n')" using Cons.prems(4) s by auto
    hence more: "lost_shards hash (insert name lost) d t'"
      using Cons.prems(1,4) that s by (intro lost_one_more) auto
    have card: "card (insert name lost) = Suc (card lost)"
      using Cons.prems(1,3) s by (simp add: lost_shards_def)
    show ?thesis
      using Cons.IH [OF more] Cons.prems(2-4) s by (simp add: card)
  qed
  have failed: "counts_one_more d (repair_error (Suc (card lost)) e) t'" if "leaves t' = leaves t" for e t'
    using lost_counts Cons.prems(1) that lost_same by blast
  show ?case
  proof (cases "is_regular kind")
    case True
    hence "repair_shard s k = repair_remove name k" for k by (simp add: s repair_shard_def)
    thus ?thesis
      using next_one failed
      by (auto simp: repair_remove_def wp_bind wp_map_err wp_return intro!: wp_remove_leaf)
  next
    case False
    hence "repair_shard s k = throw_io (repair_error k (invalid_leaf name ''repair found a non-regular shard''))" for k
      by (simp add: s repair_shard_def)
    thus ?thesis using failed [of t] unfolding for_io.simps by (simp only: wp_bind wp_throw)
  qed
qed (auto simp: wp_return)

lemma wp_state_counts:
  assumes "valid_hash hash" "lost_shards hash lost d t"
  shows "wp (repair_state env hash state invalid (Suc (card lost))) (\<lambda>_ _. True) (counts_one_more d) t"
proof -
  have failed: "counts_one_more d (repair_error (Suc (card lost)) e) t'" if "leaves t' = leaves t" for e t'
    using lost_counts assms(2) that lost_same by blast
  have written: "counts_one_more d (repair_error (Suc (card lost)) e) t'"
    if "leaves t' = AList.update (state_leaf hash) x (leaves t)" for e x t'
    using lost_counts lost_then_state [OF assms that] by blast
  show ?thesis
    unfolding repair_state_def repair_remove_def
    by (auto simp: wp_bind wp_map_err wp_return failed written intro!: wp_remove_leaf wp_write_json split: option.splits)
qed

lemma all_shard_leaves_distinct:
  assumes "all_shard_leaves hash d = (Inr shards, d')" "distinct (map fst (leaves d))"
  shows "distinct (map fst shards)"
proof -
  let ?f = "\<lambda>(name, e). case parse_owned_leaf name of
      Some (ShardLeaf h generation ordinal) \<Rightarrow> if h = hash then Some (name, generation, ordinal, e) else None | _ \<Rightarrow> None"
  have shards: "shards = List.map_filter ?f (leaves d)"
    using assms(1) by (auto simp: all_shard_leaves_def bind_io_eq_Inr dir_entries_def faulty_def next_fault_def split: fault.splits)
  have names: "map fst (List.map_filter ?f ls) = filter (\<lambda>name. \<exists>g n. parse_owned_leaf name = Some (ShardLeaf hash g n)) (map fst ls)"
    for ls :: "(string \<times> dir_entry) list"
    by (induction ls) (auto simp: map_filter_simps split: option.splits owned_leaf.splits if_splits)
  show ?thesis unfolding shards names using assms(2) by (rule distinct_filter)
qed

lemma wp_clear_counts:
  assumes "valid_hash hash" "distinct (map fst (leaves t))" "faults_are plain t" "lost_shards hash {} d t"
    "shard_names hash t \<subseteq> {name. map_of (leaves d) name \<noteq> None}"
  shows "wp (bind_io (clear_deck_leaves hash) (repair_state env hash state invalid)) (\<lambda>_ _. True) (counts_one_more d) t"
proof (cases "all_shard_leaves hash t")
  case (Pair r t1)
  have same: "leaves t1 = leaves t" "fault_at t1 = fault_at t"
    using Pair reads_only_shards [of hash] unfolding frame_def same_leaves_def by (metis snd_conv)+
  have l1: "lost_shards hash {} d t1" using assms(4) same lost_same by blast
  have bad: "plain e" if "r = Inl e" for e
    using raisesD [OF raises_before_clearing(4) assms(3) Pair] that by simp
  have body: "wp (bind_io (bind_io (repair_remove (positions_leaf hash) 0) (for_io repair_shard shards)) (repair_state env hash state invalid))
      (\<lambda>_ _. True) (counts_one_more d) t1" if r: "r = Inr shards" for shards
  proof -
    have names: "set (map fst shards) = shard_names hash t" using all_shard_leaves_names [OF Pair [unfolded r]] by simp
    have rest: "wp (for_io repair_shard shards (Suc 0)) (\<lambda>k. wp (repair_state env hash state invalid k) (\<lambda>_ _. True) (counts_one_more d))
        (counts_one_more d) t'" if "leaves t' = leaves t" for t'
    proof -
      have l: "lost_shards hash {} d t'" using assms(4) that lost_same by blast
      have "wp (for_io repair_shard shards (Suc (card ({} :: string set)))) (\<lambda>k t'. \<exists>lost. lost_shards hash lost d t' \<and> k = Suc (card lost)) (counts_one_more d) t'"
      proof (rule wp_lose_shards [OF l])
        show "distinct (map fst shards)" by (rule all_shard_leaves_distinct [OF Pair [unfolded r] assms(2)])
        have "fst s \<in> shard_names hash t" if "s \<in> set shards" for s using names that by auto
        thus "\<forall>s \<in> set shards. map_of (leaves d) (fst s) \<noteq> None \<and> (\<exists>g n. parse_owned_leaf (fst s) = Some (ShardLeaf hash g n))"
          using assms(5) unfolding shard_names_def by blast
      qed simp
      thus ?thesis unfolding card.empty by (elim wp_mono) (use wp_state_counts [OF assms(1)] in auto)
    qed
    have absent: "AList.delete (positions_leaf hash) (leaves t1) = leaves t"
      using l1 same by (simp add: lost_shards_def AList.delete_id map_of_eq_None_iff)
    have "wp (repair_remove (positions_leaf hash) 0) (\<lambda>k t'. k = Suc 0 \<and> leaves t' = leaves t) (\<lambda>e _. plain e) t1"
    proof -
      have "raises plain (remove_leaf_if_present (positions_leaf hash))"
        unfolding remove_leaf_if_present_def dir_entries_def remove_leaf_identified_def
        by (intro raises_bind raises_faulty) (auto intro!: raises_pure raises_map_err raises_faulty split: option.splits)
      from wp_raises [OF this, of t1]
      have 1: "wp (remove_leaf_if_present (positions_leaf hash)) (\<lambda>_ d'. fault_at d' = fault_at t1) (\<lambda>e _. plain e) t1"
        using assms(3) faults_are_same [OF same(2)] by blast
      have 2: "wp (remove_leaf_if_present (positions_leaf hash)) (\<lambda>_ t'. leaves t' = leaves t) (\<lambda>_ _. True) t1"
        using absent by (intro wp_remove_leaf) auto
      have "wp (remove_leaf_if_present (positions_leaf hash)) (\<lambda>_ t'. leaves t' = leaves t) (\<lambda>e _. plain e) t1"
        by (rule wp_mono [OF wp_conj [OF 1 2]]) auto
      thus ?thesis unfolding repair_remove_def by (auto simp: wp_bind wp_map_err wp_return repair_error_def elim!: wp_mono)
    qed
    thus ?thesis unfolding wp_bind by (elim wp_mono) (use rest plain_counts in auto)
  qed
  show ?thesis
  proof (cases r)
    case (Inl e)
    hence "bind_io (clear_deck_leaves hash) (repair_state env hash state invalid) t = (Inl e, t1)"
      using Pair by (simp add: clear_deck_leaves_def bind_io_def)
    thus ?thesis using plain_counts [OF bad [OF Inl]] by (simp add: wp_def)
  next
    case (Inr shards)
    hence "bind_io (clear_deck_leaves hash) (repair_state env hash state invalid) t =
        bind_io (bind_io (repair_remove (positions_leaf hash) 0) (for_io repair_shard shards)) (repair_state env hash state invalid) t1"
      using Pair by (simp add: clear_deck_leaves_def bind_io_def)
    thus ?thesis using body [OF Inr] by (simp add: wp_def)
  qed
qed

lemma clearing_reached:
  assumes "deck_env_ok env" "faults_are plain d"
    "repair_practice_deck_in env file_id number d = (Inl (PartialRemoval n cause), d')"
  defines "hash \<equiv> hash_deck env file_id number"
  obtains state invalid t where
    "bind_io (clear_deck_leaves hash) (repair_state env hash state invalid) t = (Inl (PartialRemoval n cause), d')"
    "faults_are plain t"
    "leaves t = leaves d \<or> map_of (leaves d) (lock_leaf hash) = None \<and> leaves t = leaves d @ [(lock_leaf hash, RegularFile [])]"
proof -
  let ?body = "\<lambda>(state, invalid). bind_io (clear_deck_leaves hash) (repair_state env hash state invalid)"
  obtain r1 d1 where lock: "open_or_create_regular_relative (lock_leaf hash) d = (r1, d1)" by force
  obtain r2 d2 where adv: "lock_advisory_file d1 = (r2, d2)" by force
  obtain r3 t where st: "read_state_for_repair env hash d2 = (r3, t)" by force
  note 1 = raisesD [OF raises_before_clearing(1) assms(2) lock]
  hence f1: "faults_are plain d1" using assms(2) faults_are_same by blast
  note 2 = raisesD [OF raises_before_clearing(2) f1 adv]
  hence f2: "faults_are plain d2" using f1 faults_are_same by blast
  note 3 = raisesD [OF raises_before_clearing(3) f2 st]
  have run: "bind_io (open_or_create_regular_relative (lock_leaf hash)) (\<lambda>_. bind_io lock_advisory_file (\<lambda>_.
      bind_io (read_state_for_repair env hash) ?body)) d = (Inl (PartialRemoval n cause), d')"
    using assms(3) by (simp add: repair_practice_deck_in_def with_store_lock_def Let_def hash_def)
  have "r1 = Inr ()" using run lock 1 by (cases r1) (auto simp: bind_io_def plain_def)
  hence run: "bind_io lock_advisory_file (\<lambda>_. bind_io (read_state_for_repair env hash) ?body) d1 = (Inl (PartialRemoval n cause), d')"
    using run lock by (simp add: bind_io_def [of "open_or_create_regular_relative _"])
  have "r2 = Inr ()" using run adv 2 by (cases r2) (auto simp: bind_io_def plain_def)
  hence run: "bind_io (read_state_for_repair env hash) ?body d2 = (Inl (PartialRemoval n cause), d')"
    using run adv by (simp add: bind_io_def [of lock_advisory_file])
  then obtain state invalid where r3: "r3 = Inr (state, invalid)"
    using st 3 by (cases r3) (auto simp: bind_io_def plain_def)
  have "leaves d2 = leaves d1" using adv reads_only_prims(3) unfolding frame_def same_leaves_def by (metis snd_conv)
  hence "leaves t = leaves d1" using read_state_for_repair_Inr(1) [OF st [unfolded r3]] by simp
  moreover have "leaves d1 = leaves d
      \<or> map_of (leaves d) (lock_leaf hash) = None \<and> leaves d1 = leaves d @ [(lock_leaf hash, RegularFile [])]"
    using lock by (auto simp: open_or_create_regular_relative_def faulty_def next_fault_def
        split: fault.splits option.splits dir_entry.splits)
  moreover have "bind_io (clear_deck_leaves hash) (repair_state env hash state invalid) t = (Inl (PartialRemoval n cause), d')"
    using run st r3 by (simp add: bind_io_def [of "read_state_for_repair env hash"])
  moreover have "faults_are plain t" using 3 f2 faults_are_same by blast
  ultimately show thesis by (intro that [of state invalid t]) simp_all
qed


text \<open>A deck without a positions document whose first shard goes and whose second is not a file.\<close>

definition blocked_disk :: disk where
  "blocked_disk = \<lparr>leaves = [(lock_leaf (hash_deck legacy_env ''f'' 0), RegularFile []),
       (shard_leaf (hash_deck legacy_env ''f'' 0) 0 0, RegularFile []), (shard_leaf (hash_deck legacy_env ''f'' 0) 0 1, OtherEntry)],
     fault_at = (\<lambda>_. NoFault), ops_done = 0, uuids_drawn = 0\<rparr>"

lemma blocked_repair:
  "fst (repair_practice_deck_in legacy_env ''f'' 0 blocked_disk)
     = Inl (PartialRemoval 2 (invalid_leaf (shard_leaf (hash_deck legacy_env ''f'' 0) 0 1) ''repair found a non-regular shard''))"
  by code_simp


end
