(* ===== verification/PracticeMapCalls.thy ===== *)
theory PracticeMapCalls
  imports PracticeCalls PracticeRepair
begin

text \<open>
  All calls that touch the deck map of a file (\<^verbatim>\<open>practice.rs\<close>), one after another and under any failures
  of the file system: the deletions of games and the calls on the deck of a game, its repair
  included. As long as the deletions name games of files the map can describe, the map stays readable
  and the numbers of decks are never reused.
\<close>

subsection \<open>The calls\<close>

text \<open>
  The synchronisation of the PGN file is outside the practice directory, so it only succeeds or fails.
  The inventory resolves pending deletions and reads maps under their locks, as the calls here do.
\<close>

datatype map_call =
    HasPendingDelete
  | ResolvePendingDelete nat "unit result"
  | PrepareDelete nat nat
  | FinishDelete string bool
  | LoadDeck int
  | DeckEpoch int
  | RepairDeck int "string option"
  | MigrateDeck int string string string
  | RecordReview int string practice_review_write
  | SyncPositions int string u32 u32 string
  | ResetDeck int string u32 u32 string
  | LoadReviews int string "string option" u32
  | AcknowledgeOrphans int string u32 u32

fun run_map_call :: "('e deck_env_scheme) \<Rightarrow> string \<Rightarrow> map_call \<Rightarrow> disk \<Rightarrow> disk" where
  "run_map_call env f HasPendingDelete d = snd (has_pending_delete env f d)"
| "run_map_call env f (ResolvePendingDelete num synced) d = snd (resolve_pending_delete_in env f num (of_result synced) d)"
| "run_map_call env f (PrepareDelete ordinal num) d = snd (prepare_delete_in env f ordinal num d)"
| "run_map_call env f (FinishDelete pid landed) d = snd (finish_delete_in env f pid landed d)"
| "run_map_call env f (LoadDeck ordinal) d = snd (load_mapped_practice_deck_in env f ordinal d)"
| "run_map_call env f (DeckEpoch ordinal) d = snd (practice_epoch_in env f ordinal d)"
| "run_map_call env f (RepairDeck ordinal expected) d = snd (repair_mapped_practice_deck_in env f ordinal expected d)"
| "run_map_call env f (MigrateDeck ordinal expected now doc) d = snd (migrate_mapped_practice_deck_in env f ordinal expected now doc d)"
| "run_map_call env f (RecordReview ordinal expected w) d = snd (record_mapped_practice_review_in env f ordinal expected w d)"
| "run_map_call env f (SyncPositions ordinal expected g r doc) d = snd (sync_mapped_practice_positions_in env f ordinal expected g r doc d)"
| "run_map_call env f (ResetDeck ordinal expected g r doc) d = snd (reset_mapped_practice_deck_in env f ordinal expected g r doc d)"
| "run_map_call env f (LoadReviews ordinal expected at_cursor limit) d = snd (load_mapped_practice_reviews_in env f ordinal expected at_cursor limit d)"
| "run_map_call env f (AcknowledgeOrphans ordinal expected g k) d = snd (acknowledge_mapped_practice_orphans_in env f ordinal expected g k d)"

text \<open>A deletion names a game of a file that is not larger than a map can describe. The code does not check this.\<close>

fun deletion_in_bounds :: "map_call \<Rightarrow> bool" where
  "deletion_in_bounds (PrepareDelete ordinal num) = (ordinal < num \<and> num \<le> MAP_MAX_ORDINALS)"
| "deletion_in_bounds _ = True"

subsection \<open>The operations on a deck leave the map alone\<close>

lemma keeps_write_json: "leaf \<noteq> other \<Longrightarrow> keeps leaf (write_json to_vec other v stage what)"
proof -
  assume ne: "leaf \<noteq> other"
  have "keeps leaf (atomic_replace_leaf other bs)" for bs
    using ne by (auto simp: frame_def same_leaf_def atomic_replace_leaf_def next_fault_def AList.update_conv' split: fault.splits)
  thus ?thesis unfolding write_json_def write_json_bytes_def by (intro keep.bind keep.pure keep.map_err keep.if_frame)
qed

text \<open>A leaf that is not one of a deck, with the leaves of one deck.\<close>

definition foreign_leaf :: "string \<Rightarrow> string \<Rightarrow> bool" where
  "foreign_leaf leaf hash \<longleftrightarrow> parse_owned_leaf leaf = None \<and> valid_hash hash"

lemma foreign_other:
  assumes "foreign_leaf leaf hash"
  shows "leaf \<noteq> positions_leaf hash" "leaf \<noteq> state_leaf hash" "leaf \<noteq> lock_leaf hash" "leaf \<noteq> shard_leaf hash g n"
    "parse_owned_leaf name = Some x \<Longrightarrow> leaf \<noteq> name"
  using assms parse_owned_leaf_names [of hash] by (auto simp: foreign_leaf_def)

lemma map_leaf_foreign: "env_ok env \<Longrightarrow> foreign_leaf (map_leaf env f) (hash_deck env g n)"
  by (simp add: foreign_leaf_def map_leaf_unowned hashes_valid)

lemmas deck_reads = reads_only_read_shards reads_only_read_positions reads_only_load_valid_deck reads_only_validated
  reads_only_shards reads_only_prims

definition all_owned :: "shard_file list \<Rightarrow> bool" where
  "all_owned shards \<longleftrightarrow> (\<forall>s \<in> set shards. parse_owned_leaf (shard_leaf_name s) \<noteq> None)"

lemma read_shard_entry_owned:
  assumes "read_shard_entry env hash generation e xs t = (Inr xs', t')" "all_owned xs"
  shows "all_owned xs'"
proof (cases "parse_owned_leaf (fst e)")
  case (Some x)
  thus ?thesis using assms
    by (cases x) (auto simp: read_shard_entry_def all_owned_def bind_io_eq_Inr split: if_split_asm)
qed (use assms in \<open>simp add: read_shard_entry_def\<close>)

lemma read_shards_owned:
  assumes "read_shards env hash generation d = (Inr shards, d')"
  shows "all_owned shards"
proof -
  have "all_owned ys" if "for_io (read_shard_entry env hash generation) es xs t = (Inr ys, t')" "all_owned xs" for es xs ys t t'
    using that
  proof (induction es arbitrary: xs t)
    case (Cons e es)
    obtain zs t1 where "read_shard_entry env hash generation e xs t = (Inr zs, t1)"
      "for_io (read_shard_entry env hash generation) es zs t1 = (Inr ys, t')"
      using Cons.prems(1) unfolding for_io.simps bind_io_eq_Inr by blast
    thus ?case using Cons.IH read_shard_entry_owned Cons.prems(2) by blast
  qed simp
  moreover obtain es found t1 where "for_io (read_shard_entry env hash generation) es [] t1 = (Inr found, d')"
    "shards = sort_key (shard_ordinal \<circ> envelope) found"
    using assms unfolding read_shards_def bind_io_eq_Inr by auto
  ultimately show ?thesis by (auto simp: all_owned_def)
qed

lemmas keeps_deck_lock = keeps_lock [OF foreign_other(3)]
lemmas keeps_deck_reads = deck_reads [THEN reads_only_keeps]

lemma keeps_write_positions: "foreign_leaf leaf hash \<Longrightarrow> keeps leaf (write_positions env hash p)"
  unfolding write_positions_def Let_def by (intro keep.bind keep.pure keeps_write_json foreign_other)

lemma keeps_append_review:
  "foreign_leaf leaf hash \<Longrightarrow> keeps leaf (append_review env hash file_id number generation r latest eid entry)"
  unfolding append_review_def Let_def by (intro keep.bind keep.pure keep.if_frame keeps_write_json foreign_other)

lemma keeps_remove_shards: "all_owned shards \<Longrightarrow> foreign_leaf leaf hash \<Longrightarrow> keeps leaf (remove_old_shards removed shards)"
  by (induction removed shards rule: remove_old_shards.induct)
    (auto simp: all_owned_def foreign_leaf_def intro!: keep_intros keeps_remove)

lemma keeps_guard: "keeps leaf (guard_io c e)"
  by (simp add: frame_def same_leaf_def)

lemma keeps_load: "foreign_leaf leaf (hash_deck env f n) \<Longrightarrow> keeps leaf (load_practice_deck_in env f n)"
  unfolding load_practice_deck_in_def Let_def
  by (intro keeps_deck_lock keep.bind keeps_deck_reads) (auto split: option.split intro!: keep_intros)

lemma keeps_reviews: "foreign_leaf leaf (hash_deck env f n) \<Longrightarrow> keeps leaf (load_practice_reviews_in env f n at_cursor limit)"
  unfolding load_practice_reviews_in_def Let_def
  by (intro keeps_deck_lock keep.bind keeps_deck_reads) (auto split: option.split intro!: keep_intros)

lemma keeps_acknowledge: "foreign_leaf leaf (hash_deck env f n) \<Longrightarrow> keeps leaf (acknowledge_practice_orphans_in env f n g k)"
  unfolding acknowledge_practice_orphans_in_def Let_def
  by (intro keeps_deck_lock keep.bind keeps_deck_reads) (auto split: option.split intro!: keep_intros keeps_write_positions)

lemma keeps_sync: "foreign_leaf leaf (hash_deck env f n) \<Longrightarrow> keeps leaf (sync_practice_positions_in env f n g r doc)"
  unfolding sync_practice_positions_in_def Let_def
  by (intro keep.bind keep.pure keeps_deck_lock keeps_deck_reads)
    (auto split: option.split intro!: keep_intros keeps_write_positions keeps_deck_reads)

lemma keeps_record: "foreign_leaf leaf (hash_deck env f n) \<Longrightarrow> keeps leaf (record_practice_review_in env f n w)"
  unfolding record_practice_review_in_def record_loaded_def Let_def
  by (intro keep.bind keep.pure keep.if_frame keeps_deck_lock keeps_deck_reads)
    (auto split: option.split prod.split intro!: keep_intros keeps_write_positions keeps_append_review)

lemma keeps_reset: "foreign_leaf leaf (hash_deck env f n) \<Longrightarrow> keeps leaf (reset_practice_deck_in env f n g r doc)"
proof -
  assume foreign: "foreign_leaf leaf (hash_deck env f n)"
  have "all_owned shards" if "map_err h (read_shards env hash k) d = (Inr shards, d')" for h hash k d shards d'
    by (rule read_shards_owned [OF map_err_Inr [OF that]])
  hence tail: "keeps leaf (bind_io (map_err h (read_shards env hash k)) (\<lambda>shards. bind_io (remove_old_shards 0 shards) (\<lambda>_. return_io x)))"
    for h hash k and x :: u32
    by (intro keep.bind_result [OF keep.map_err [OF keeps_deck_reads(1)]] keep.bind keep.pure keeps_remove_shards [OF _ foreign])
  show ?thesis
    unfolding reset_practice_deck_in_def Let_def using foreign
    by (intro keep.bind keep.pure keeps_deck_lock keeps_deck_reads)
      (auto split: option.split intro!: tail keep.bind keep.pure keep.if_frame keeps_write_positions)
qed

lemma keeps_migrate: "foreign_leaf leaf (hash_deck env f n) \<Longrightarrow> keeps leaf (migrate_practice_deck_in env f n now doc)"
proof -
  assume foreign: "foreign_leaf leaf (hash_deck env f n)"
  note writes = keeps_write_positions [OF foreign] keeps_write_json [OF foreign_other(2) [OF foreign]]
    keeps_write_json [OF foreign_other(4) [OF foreign]]
  have "keeps leaf (bind_io (read_shards env hash 0) (\<lambda>found. bind_io (for_io (\<lambda>s _. remove_leaf_if_present (shard_leaf_name s)) found ()) (\<lambda>_. m)))"
    if "keeps leaf m" for hash and m :: "(disk, unit) io"
    using foreign that
    by (intro keep.bind_result [OF keeps_deck_reads(1)] keep.bind keep.for_frame keeps_remove)
      (fastforce dest!: read_shards_owned simp: all_owned_def foreign_leaf_def)+
  note removal = this
  have checks: "keeps leaf (for_io (\<lambda>(name, generation, _, kind) _. guard_io (c name generation kind) (e name)) es ())" for c e es
    by (intro keep.for_frame) (auto split: prod.split intro: keeps_guard)
  have written: "keeps leaf (for_io (\<lambda>s _. write_json (shard_to_vec env) (shard_leaf (hash_deck env f n) 0 (shard_ordinal s)) s
      PracticeReviewShard stage) new_shards ())" for stage new_shards
    by (intro keep.for_frame writes)
  have replace: "keeps leaf (replace_shards env (hash_deck env f n) existing new_shards)" for existing new_shards
    unfolding replace_shards_def by (rule keep.bind [OF checks removal [OF written]])
  have plan: "keeps leaf (run_plan env (hash_deck env f n) existing plan)" for existing plan
    unfolding run_plan_def write_state_def read_back_matches_def
    by (intro keep.bind keep.pure writes replace keeps_deck_reads keeps_guard)
  have "keeps leaf (migrate_loaded env (hash_deck env f n) f n now doc v)" for v
    unfolding migrate_loaded_def already_migrated_def
    by (auto intro!: keep_intros plan writes split: option.splits)
  thus ?thesis
    unfolding migrate_practice_deck_in_def Let_def by (intro keeps_deck_lock [OF foreign] keep.bind keeps_deck_reads)
qed

lemma keeps_repair: "foreign_leaf leaf (hash_deck env f n) \<Longrightarrow> keeps leaf (repair_practice_deck_in env f n)"
proof -
  assume foreign: "foreign_leaf leaf (hash_deck env f n)"
  have remove: "keeps leaf (repair_remove other k)" if "leaf \<noteq> other" for other k
    unfolding repair_remove_def using that by (intro keep.bind keep.pure keep.map_err keeps_remove)
  have clear: "keeps leaf (clear_deck_leaves (hash_deck env f n))"
    unfolding clear_deck_leaves_def using foreign
    by (intro keep.bind_result [OF keeps_deck_reads(6)] keep.bind keep.for_frame remove foreign_other(1))
      (auto simp: repair_shard_def foreign_leaf_def dest!: all_shard_leaves_owned intro!: keep_intros remove split: prod.split)
  show ?thesis
    unfolding repair_practice_deck_in_def repair_state_def read_state_for_repair_def Let_def using foreign
    by (intro keeps_deck_lock keep.bind keep.attempt keeps_deck_reads)
      (auto split: sum.split error.split option.split prod.split intro!: clear keep_intros remove keeps_write_json foreign_other keep.bind)
qed

subsection \<open>The map stays readable\<close>

text \<open>What is done with the deck of a game in each call, as an action that leaves the map alone.\<close>

lemma deck_calls_keep:
  assumes "env_ok env"
  shows "keeps (map_leaf env f) (load_practice_deck_in env f n)" "keeps (map_leaf env f) (load_practice_reviews_in env f n at_cursor limit)"
    "keeps (map_leaf env f) (acknowledge_practice_orphans_in env f n g k)" "keeps (map_leaf env f) (sync_practice_positions_in env f n g r doc)"
    "keeps (map_leaf env f) (record_practice_review_in env f n w)" "keeps (map_leaf env f) (reset_practice_deck_in env f n g r doc)"
    "keeps (map_leaf env f) (migrate_practice_deck_in env f n now doc)" "keeps (map_leaf env f) (repair_practice_deck_in env f n)"
  using map_leaf_foreign [OF assms, of f f n]
  by (rule keeps_load keeps_reviews keeps_acknowledge keeps_sync keeps_record keeps_reset keeps_migrate keeps_repair)+

lemmas mapped_calls = load_mapped_practice_deck_in_def practice_epoch_in_def migrate_mapped_practice_deck_in_def
  record_mapped_practice_review_in_def sync_mapped_practice_positions_in_def reset_mapped_practice_deck_in_def
  load_mapped_practice_reviews_in_def acknowledge_mapped_practice_orphans_in_def

lemma keeps_remove_deck: "foreign_leaf leaf hash \<Longrightarrow> keeps leaf (remove_deck_by_hash hash)"
proof -
  assume foreign: "foreign_leaf leaf hash"
  have shards: "keeps leaf (bind_io (all_shard_leaves hash) (\<lambda>shards. for_io (\<lambda>(leaf, _) _. remove_leaf_if_present leaf) shards ()))"
    using foreign
    by (intro keep.bind_result [OF keeps_deck_reads(6)] keep.for_frame)
      (auto simp: foreign_leaf_def dest!: all_shard_leaves_owned intro!: keeps_remove)
  note state = keep.bind [OF keeps_remove [OF foreign_other(2) [OF foreign]] shards]
  show ?thesis
    unfolding remove_deck_by_hash_def
    by (intro keeps_deck_lock [OF foreign] keep.bind [OF keeps_remove [OF foreign_other(1) [OF foreign]] state])
qed

text \<open>What a call on the deck of a game does to the directory does not depend on what it answers.\<close>

lemma mapped_deck_answer:
  "snd (with_mapped_deck env f ordinal expected create operation d)
     = snd (with_mapped_deck env f ordinal expected create (\<lambda>n ep s. bind_io (operation n ep s) (\<lambda>_. return_io ())) d)"
proof -
  have "with_mapped_deck env f ordinal expected create (\<lambda>n ep s. bind_io (operation n ep s) (\<lambda>_. return_io ()))
      = bind_io (with_mapped_deck env f ordinal expected create operation) (\<lambda>_. return_io ())"
    by (simp add: with_mapped_deck_def bind_map_lock bind_io_assoc case_prod_unfold)
  thus ?thesis by (simp add: bind_io_def split: prod.splits sum.splits)
qed

text \<open>
  A call is one on the map, a repair, or an action on the deck of a game that leaves the map alone.
\<close>

lemma on_mapped_deck:
  assumes "\<And>ordinal expected create (operation :: int option \<Rightarrow> string \<Rightarrow> bool \<Rightarrow> (disk, unit) io).
      (\<And>n ep s. keeps leaf (operation n ep s)) \<Longrightarrow> P (snd (with_mapped_deck env f ordinal expected create operation d))"
    "\<And>n ep s. keeps leaf (operation n ep s)"
  shows "P (snd (with_mapped_deck env f ordinal expected create operation d))"
  unfolding mapped_deck_answer [of env f ordinal expected create operation]
  by (intro assms(1) keep.bind assms(2) keep.pure)

lemma run_map_call_cases:
  assumes "env_ok env"
    and mapped: "\<And>ordinal expected create (operation :: int option \<Rightarrow> string \<Rightarrow> bool \<Rightarrow> (disk, unit) io).
      (\<And>n ep s. keeps (map_leaf env f) (operation n ep s)) \<Longrightarrow> P (snd (with_mapped_deck env f ordinal expected create operation d))"
    and "P (snd (has_pending_delete env f d))" "\<And>num synced. P (snd (resolve_pending_delete_in env f num (of_result synced) d))"
    "\<And>ordinal num. c = PrepareDelete ordinal num \<Longrightarrow> P (snd (prepare_delete_in env f ordinal num d))"
    "\<And>pid landed. P (snd (finish_delete_in env f pid landed d))"
    "\<And>ordinal expected. P (snd (repair_mapped_practice_deck_in env f ordinal expected d))"
  shows "P (run_map_call env f c d)"
proof (cases c)
qed (auto simp: mapped_calls assms(3-) intro!: on_mapped_deck [where P = P, OF mapped] keep_intros deck_calls_keep [OF assms(1)]
    split: option.split)

text \<open>The repair of a map that cannot be read removes decks of the file and writes a new map.\<close>

fun hashes_are_valid :: "(string \<times> string \<times> int) list \<times> (string \<times> string) list \<times> int \<Rightarrow> bool" where
  "hashes_are_valid (known, unidentified, _) \<longleftrightarrow>
     (\<forall>name h n. (name, h, n) \<in> set known \<longrightarrow> valid_hash h) \<and> (\<forall>name h. (name, h) \<in> set unidentified \<longrightarrow> valid_hash h)"

lemma inspected_hashes_valid:
  assumes "hashes_are_valid acc" "inspect_leaf env f e acc d = (Inr acc', d')"
  shows "hashes_are_valid acc'"
  using assms parse_owned_valid [of "fst e"]
  by (cases acc) (auto simp: inspect_leaf_def bind_io_eq_Inr Let_def case_prod_unfold all_conj_distrib
      split: option.split_asm owned_leaf.split_asm sum.split_asm if_split_asm)

lemma file_deck_hashes_valid:
  assumes "file_deck_leaves env f d = (Inr ls, d')" "(name, h, n) \<in> set ls"
  shows "valid_hash h"
proof -
  obtain es d1 known unidentified highest where
    run: "for_io (inspect_leaf env f) es ([], [], - 1) d1 = (Inr (known, unidentified, highest), d')"
    and ls: "ls = known @ List.map_filter (\<lambda>(leaf, hash). map_option (\<lambda>n. (leaf, hash, n))
          (attribute env f (max highest (int MAP_MAX_ORDINALS)) hash)) unidentified"
    using assms(1) by (auto simp: file_deck_leaves_def bind_io_eq_Inr Let_def)
  have "hashes_are_valid (known, unidentified, highest)"
    by (rule for_io_invariant [OF inspected_hashes_valid _ run]) auto
  thus ?thesis using assms(2) by (auto simp: ls map_filter_def)
qed

lemma reads_only_file_leaves: "reads_only (file_deck_leaves env f)"
  unfolding file_deck_leaves_def Let_def by (intro reads.bind reads.for_frame reads_only_prims reads_only_inspect) (auto intro: reads.pure)

lemma keeps_remove_decks:
  assumes "env_ok env" "file_deck_leaves env g d = (Inr ls, d')"
  shows "keeps (map_leaf env f) (for_io (\<lambda>hash _. remove_deck_by_hash hash) (sort (remdups (map (\<lambda>(_, hash, _). hash) ls))) ())"
  using map_leaf_unowned [OF assms(1), of f]
  by (intro keep.for_frame keeps_remove_deck) (auto simp: foreign_leaf_def dest: file_deck_hashes_valid [OF assms(2)])

lemma repair_safe:
  assumes "env_ok env"
  shows "safe env f (repair_mapped_practice_deck_in env f ordinal expected)"
proof -
  have reset: "safe env f (bind_io (fresh_map env f 0 False) (\<lambda>m. bind_io (file_deck_leaves env f) (\<lambda>ls.
      bind_io (for_io (\<lambda>hash _. remove_deck_by_hash hash) (sort (remdups (map (\<lambda>(_, hash, _). hash) ls))) ()) (\<lambda>_. write_map env m))))"
    by (intro safe_bind safe_reads safe_keeps [OF reads_only_keeps [OF reads_only_file_leaves]]
        safe_keeps [OF keeps_remove_decks [OF assms]])
      (auto dest!: fresh_map_valid [OF assms] intro: write_map_safe [OF assms])
  have "safe env f (attempt (read_map env f))"
    by (intro safe_keeps keep.attempt reads_only_keeps reads_only_read_map)
  thus ?thesis
    unfolding repair_mapped_practice_deck_in_def
    by (intro safe_lock [OF assms] safe_bind)
      (auto split: sum.split error.split option.split intro!: reset safe_pure safe_keeps [OF deck_calls_keep(8) [OF assms]])
qed

lemma run_map_call_readable:
  assumes "env_ok env" "deletion_in_bounds c" "map_readable env f d"
  shows "map_readable env f (run_map_call env f c d)"
proof (rule run_map_call_cases [OF assms(1)])
  show "map_readable env f (snd (with_mapped_deck env f ordinal expected create operation d))"
    if "\<And>n ep s. keeps (map_leaf env f) (operation n ep s)"
    for ordinal expected create and operation :: "int option \<Rightarrow> string \<Rightarrow> bool \<Rightarrow> (disk, unit) io"
    by (rule safeD [OF mapped_deck_safe [OF assms(1) safe_keeps [OF that]] assms(3)])
  show "map_readable env f (snd (has_pending_delete env f d))"
    unfolding has_pending_delete_def
    by (rule safeD [OF _ assms(3)], intro safe_lock [OF assms(1)] safe_bind safe_reads safe_pure)
  show "map_readable env f (snd (prepare_delete_in env f ordinal num d))" if "c = PrepareDelete ordinal num" for ordinal num
    using assms(2) that by (intro safeD [OF prepare_delete_safe assms(3)] assms(1)) auto
qed (intro safeD [OF _ assms(3)] resolve_delete_safe [OF assms(1)] finish_delete_safe [OF assms(1)] repair_safe [OF assms(1)] safe_pure)+

text \<open>A repair that succeeds leaves a map that can be read, whatever was there before.\<close>

lemma open_honest:
  assumes "honest d" "open_regular_relative leaf d = (r, d')"
  shows "case r of Inl e \<Rightarrow> is_missing_entry e \<longrightarrow> map_of (leaves d) leaf = None
    | Inr bs \<Rightarrow> map_of (leaves d) leaf = Some (RegularFile bs)"
  using assms
  by (auto simp: open_regular_relative_def faulty_def next_fault_def honest_def missing_entry_def not_regular_def
      split: fault.splits option.splits dir_entry.splits sum.splits dest!: spec [of _ "ops_done d"])

lemma read_map_readable:
  assumes "honest d" "read_map env f d = (Inr r, d')"
  shows "map_readable env f d"
proof -
  obtain q d1 where q: "open_regular_relative (map_leaf env f) d = (q, d1)" by force
  show ?thesis
  proof (cases q)
    case (Inl e)
    hence "is_missing_entry e" using assms(2) q
      by (auto simp: read_map_def read_json_def read_leaf_bytes_def bind_io_eq_Inr attempt_eq split: if_split_asm)
    thus ?thesis using open_honest [OF assms(1) q] Inl by (simp add: map_readable_def)
  next
    case (Inr bs)
    have read: "file_len bs d2 = (Inr n, d3) \<Longrightarrow> n = length bs" "read_bounded_bytes bs d2 = (Inr cs, d3) \<Longrightarrow> cs = bs" for n cs d2 d3
      by (auto simp: file_len_def read_bounded_bytes_def faulty_def next_fault_def split: fault.split_asm)
    have "length bs \<le> MAP_MAX_BYTES \<and> (\<exists>m. map_from_slice env bs = Some m \<and> \<not> map_refused env f m)"
      using assms(2) q unfolding Inr
      by (auto simp: read_map_def read_json_def read_leaf_bytes_def bind_io_eq_Inr attempt_eq
          dest!: map_err_Inr read split: if_split_asm option.split_asm)
    thus ?thesis using open_honest [OF assms(1) q] Inr by (auto simp: map_readable_def)
  qed
qed

lemma written_map_readable:
  assumes "env_ok env" "\<not> map_refused env f m" "write_map env m d = (Inr (), d')"
  shows "map_readable env f d'"
proof -
  have f: "map_file_id m = f" using assms(2) by (simp add: map_refused_def)
  obtain bs where bs: "map_to_vec env m = Some bs"
    using assms(3) by (cases "map_to_vec env m") (auto simp: write_map_def Let_def split: if_splits)
  have "map_from_slice env bs = Some m" using assms(1) bs by (simp add: env_ok_def)
  thus ?thesis using assms(2,3) bs f
    by (auto simp: write_map_def Let_def write_json_def write_json_bytes_def map_err_def atomic_replace_leaf_def
        next_fault_def bind_io_eq_Inr attempt_def map_readable_def AList.update_conv' not_less
        split: fault.splits if_splits prod.splits sum.splits)
qed

lemma repaired_map_readable:
  assumes "env_ok env" "honest d" "repair_mapped_practice_deck_in env f ordinal expected d = (Inr (), d')"
  shows "map_readable env f d'"
proof -
  let ?R = "\<lambda>_. map_readable env f" and ?E = "\<lambda>_ _. True"
  have wpI: "(\<And>d3. m d2 = (Inr (), d3) \<Longrightarrow> map_readable env f d3) \<Longrightarrow> wp m ?R ?E d2" for m :: "(disk, unit) io" and d2
    by (auto simp: wp_def split: prod.split sum.split)
  have repaired: "wp (repair_practice_deck_in env f n) ?R ?E d2" if "map_readable env f d2" for n d2
    using that by (intro wp_keeps [OF deck_calls_keep(8) [OF assms(1)]]) (auto simp: map_kept_def)
  have reset: "wp (bind_io (fresh_map env f 0 False) (\<lambda>m. bind_io (file_deck_leaves env f) (\<lambda>ls.
      bind_io (for_io (\<lambda>hash _. remove_deck_by_hash hash) (sort (remdups (map (\<lambda>(_, hash, _). hash) ls))) ()) (\<lambda>_. write_map env m)))) ?R ?E d2" for d2
    by (rule wpI) (auto simp: bind_io_eq_Inr dest: fresh_map_valid [OF assms(1)] written_map_readable [OF assms(1)])
  have read: "wp (read_map env f) (\<lambda>_. map_readable env f) ?E d1" if "honest d1" for d1
    using reads_only_keeps [OF reads_only_read_map, of "map_leaf env f" env f] read_map_readable [OF that, of env f]
      map_readable_keeps [of env f "read_map env f"]
    by (fastforce simp: wp_def split: prod.split sum.split)
  have "wp (repair_mapped_practice_deck_in env f ordinal expected) ?R ?E d"
    unfolding repair_mapped_practice_deck_in_def
  proof (rule wp_map_lock [OF assms(1)], goal_cases)
    case (1 d1)
    hence "honest d1" using assms(2) by (simp add: map_kept_def)
    thus ?case
      unfolding wp_bind wp_attempt
      by (intro wp_mono [OF read]) (auto simp: wp_throw wp_return intro!: reset repaired split: error.split option.split)
  qed simp
  thus ?thesis using assms(3) by (simp add: wp_def)
qed

text \<open>C31. Through any calls and failures the deck map of a file stays readable, as long as the deletions name
  a game of a file of at most a million games. A map that a repair just wrote or accepted is readable
  to begin with.\<close>

theorem map_calls_keep_readable:
  assumes "env_ok env" "\<forall>c \<in> set calls. deletion_in_bounds c"
    "map_readable env f d
      \<or> (\<exists>ordinal expected d0. honest d0 \<and> repair_mapped_practice_deck_in env f ordinal expected d0 = (Inr (), d))"
  shows "\<exists>r. fst (read_map env f ((fold (run_map_call env f) calls d)\<lparr>fault_at := \<lambda>_. NoFault\<rparr>)) = Inr r"
proof -
  have "map_readable env f d" using assms(3) repaired_map_readable [OF assms(1)] by blast
  hence "map_readable env f (fold (run_map_call env f) calls d)"
    using assms(2) by (induction calls arbitrary: d) (auto intro: run_map_call_readable [OF assms(1)])
  thus ?thesis by (simp add: map_readable_read)
qed

subsection \<open>Deck numbers\<close>

text \<open>Deck numbers only grow, and none that the map gave up comes back.\<close>

definition numbers_advance :: "file_deck_map \<Rightarrow> file_deck_map \<Rightarrow> bool" where
  "numbers_advance m m' \<longleftrightarrow> next_deck m \<le> next_deck m'
     \<and> (\<forall>n. Some n \<in> set (ordinals m') \<longrightarrow> Some n \<in> set (ordinals m) \<or> next_deck m \<le> n)"

lemma numbers_advance_refl [simp]: "numbers_advance m m"
  by (simp add: numbers_advance_def)

lemma numbers_advance_trans: "numbers_advance m m' \<Longrightarrow> numbers_advance m' m'' \<Longrightarrow> numbers_advance m m''"
  unfolding numbers_advance_def by (meson order_trans)

lemma numbers_advance_pending [simp]: "numbers_advance m (m\<lparr>pending := p\<rparr>)"
  by (simp add: numbers_advance_def)

lemma numbers_advance_settled [simp]: "numbers_advance m (settled m landed ep)"
  by (auto simp: numbers_advance_def settled_def split: option.splits dest: in_set_takeD in_set_dropD)

lemma numbers_advance_new_deck [simp]: "numbers_advance m (with_new_deck i m)"
  by (auto simp: numbers_advance_def with_new_deck_def dest!: set_update_subset_insert [THEN subsetD])

lemma wp_snd: "wp m (\<lambda>_. P) (\<lambda>_. P) d \<Longrightarrow> P (snd (m d))"
  by (auto simp: wp_def split: prod.splits sum.splits)

text \<open>A failure of the system that is not reported as invalid input.\<close>

definition not_invalid :: "error \<Rightarrow> bool" where
  "not_invalid e \<longleftrightarrow> (\<forall>s. e \<noteq> InvalidInput s)"

lemma not_invalid_operation [simp]: "not_invalid e \<Longrightarrow> not_invalid (operation_error operation leaf e)"
  by (cases e) (auto simp: not_invalid_def operation_io_def)

text \<open>Reading a readable map fails only with the failures of the system.\<close>

lemmas read_steps = read_map_def read_json_def read_leaf_bytes_def open_regular_relative_def file_len_def
  read_bounded_bytes_def map_err_def faulty_def next_fault_def bind_io_def attempt_def

lemma readable_error:
  assumes "map_readable env f d" "faults_are not_invalid d" "read_map env f d = (Inl e, d')"
  shows "not_invalid e"
proof -
  have fault: "fault_at d n = Fails e' \<Longrightarrow> not_invalid e'" for n e' using assms(2) by (simp add: faults_are_def)
  have missing: "not_invalid missing_entry" by (simp add: not_invalid_def missing_entry_def)
  show ?thesis
  proof (cases "map_of (leaves d) (map_leaf env f)")
    case None
    thus ?thesis using assms(3) fault missing
      by (auto simp: read_steps split: fault.split_asm if_split_asm)
  next
    case (Some entry)
    then obtain bs m where leaf: "entry = RegularFile bs" "length bs \<le> MAP_MAX_BYTES"
      and m: "map_from_slice env bs = Some m" "\<not> map_refused env f m"
      using assms(1) by (auto simp: map_readable_def split: dir_entry.split_asm option.split_asm)
    show ?thesis using assms(3) fault Some leaf m
      by (auto simp: read_steps split: fault.split_asm if_split_asm)
  qed
qed

lemma map_kept_numbers:
  "map_kept env f d1 d2 \<Longrightarrow> leaves_map env f d P d1 \<Longrightarrow> leaves_map env f d P d2"
  by (simp add: leaves_map_def map_kept_def)

lemma mapped_deck_numbers:
  assumes "env_ok env" "honest d" "map_readable env f d" "stored_map env f d = Some m"
    "\<And>n ep s. keeps (map_leaf env f) (operation n ep s)"
  shows "leaves_map env f d (numbers_advance m) (snd (with_mapped_deck env f ordinal expected create operation d))"
proof (rule wp_snd)
  let ?L = "\<lambda>_. leaves_map env f d (numbers_advance m)"
  have resolved: "wp (with_mapped_deck env f ordinal expected create (\<lambda>n ep s. return_io (n, ep, s))) ?L ?L d"
    by (rule wp_mono [OF wp_mapped_deck [OF assms(1-4)]]) (auto elim!: leaves_map_mono split: if_splits)
  have "wp (operation n ep s) ?L ?L d'" if "leaves_map env f d (numbers_advance m) d'" for n ep s d'
    by (rule wp_keeps [OF assms(5)]) (auto intro: map_kept_numbers [OF _ that])
  thus "wp (with_mapped_deck env f ordinal expected create operation) ?L ?L d"
    by (subst mapped_deck_bind, subst wp_bind) (rule wp_mono [OF resolved], auto)
qed


lemma repair_numbers:
  assumes "env_ok env" "honest d" "map_readable env f d" "stored_map env f d = Some m" "faults_are not_invalid d"
  shows "leaves_map env f d (numbers_advance m) (snd (repair_mapped_practice_deck_in env f ordinal expected d))"
proof (rule wp_snd)
  let ?L = "\<lambda>_. leaves_map env f d (numbers_advance m)"
  have kept: "leaves_map env f d (numbers_advance m) d'" if "map_kept env f d d'" for d'
    using map_kept_numbers [OF that] assms(4) by (simp add: leaves_map_def)
  have repaired: "wp (repair_practice_deck_in env f n) ?L ?L d'" if "leaves_map env f d (numbers_advance m) d'" for n d'
    by (rule wp_keeps [OF deck_calls_keep(8) [OF assms(1)]]) (auto intro: map_kept_numbers [OF _ that])
  have read: "wp (read_map env f) ?L (\<lambda>e d'. not_invalid e \<and> leaves_map env f d (numbers_advance m) d') d1"
    if d1: "map_kept env f d d1" for d1
  proof -
    have "same_leaf (map_leaf env f) d1 (snd (read_map env f d1))"
      using reads_only_keeps [OF reads_only_read_map, of "map_leaf env f" env f] by (simp add: frame_def)
    hence "leaves_map env f d (numbers_advance m) (snd (read_map env f d1))"
      by (rule map_kept_numbers [OF same_leaf_stored kept [OF d1]])
    moreover have "map_readable env f d1" "faults_are not_invalid d1"
      using d1 assms(3,5) by (simp_all add: map_kept_def faults_are_def)
    ultimately show ?thesis
      using readable_error by (fastforce simp: wp_def split: prod.split sum.split)
  qed
  show "wp (repair_mapped_practice_deck_in env f ordinal expected) ?L ?L d"
    unfolding repair_mapped_practice_deck_in_def
  proof (rule wp_map_lock [OF assms(1)], goal_cases)
    case (1 d1)
    show ?case
      unfolding wp_bind wp_attempt
      by (rule wp_mono [OF read [OF 1]])
        (auto simp: wp_throw wp_return not_invalid_def intro!: repaired split: error.split option.split)
  qed (rule kept)
qed

lemma run_map_call_numbers:
  assumes "env_ok env" "honest d" "map_readable env f d" "stored_map env f d = Some m" "faults_are not_invalid d"
  shows "leaves_map env f d (numbers_advance m) (run_map_call env f c d)"
proof (rule run_map_call_cases [OF assms(1)])
  let ?L = "\<lambda>_. leaves_map env f d (numbers_advance m)"
  note kept = assms(1-4) map_kept_def wp_return leaves_map_def
  show "leaves_map env f d (numbers_advance m) (snd (has_pending_delete env f d))"
    unfolding has_pending_delete_def
    by (rule wp_snd, rule wp_map_lock [OF assms(1)], subst wp_bind, rule wp_read_map) (auto simp: kept)
  show "leaves_map env f d (numbers_advance m) (snd (resolve_pending_delete_in env f num (of_result synced) d))" for num synced
  proof (cases "pending m")
    case None
    show ?thesis
      unfolding resolve_pending_delete_in_def
      by (rule wp_snd, rule wp_map_lock [OF assms(1)], subst wp_bind, rule wp_read_map) (auto simp: kept None)
  next
    case (Some p)
    show ?thesis by (rule wp_snd, rule wp_mono [OF wp_resolve [OF assms(1-4) Some]]) (auto elim!: leaves_map_mono)
  qed
  show "leaves_map env f d (numbers_advance m) (snd (prepare_delete_in env f ordinal num d))" for ordinal num
    by (rule wp_snd, rule wp_mono [OF wp_prepare [OF assms(1-4)]]) (auto elim!: leaves_map_mono)
  show "leaves_map env f d (numbers_advance m) (snd (finish_delete_in env f pid landed d))" for pid landed
    by (rule wp_snd, rule wp_mono [OF wp_finish [OF assms(1-4)]]) (auto elim!: leaves_map_mono split: if_splits)
qed (intro mapped_deck_numbers repair_numbers assms, assumption?)+

text \<open>C32. Through any calls and failures, as long as the deletions name a game of a file of at most a million
  games and the system reports no failure as invalid input, the map of a file stays there, its next
  number never goes down, and every number it holds was there before or is at least the next number
  it had: the number of a retired deck is never given to another game.\<close>

theorem deck_numbers_never_reused:
  assumes "env_ok env" "honest d" "map_readable env f d" "stored_map env f d = Some m"
    "faults_are not_invalid d" "\<forall>c \<in> set calls. deletion_in_bounds c"
  shows "\<exists>m'. stored_map env f (fold (run_map_call env f) calls d) = Some m' \<and> next_deck m \<le> next_deck m'
     \<and> (\<forall>n. Some n \<in> set (ordinals m') \<longrightarrow> Some n \<in> set (ordinals m) \<or> next_deck m \<le> n)"
proof -
  have "leaves_map env f d (numbers_advance m) (fold (run_map_call env f) calls d)"
    using assms(2-)
  proof (induction calls arbitrary: d m)
    case (Cons c calls)
    obtain m1 where m1: "stored_map env f (run_map_call env f c d) = Some m1" "numbers_advance m m1"
      and faults: "fault_at (run_map_call env f c d) = fault_at d"
      using run_map_call_numbers [OF assms(1) Cons.prems(1-4), of c] by (auto simp: leaves_map_def)
    have "leaves_map env f (run_map_call env f c d) (numbers_advance m1) (fold (run_map_call env f) calls (run_map_call env f c d))"
      using Cons.prems m1 faults by (intro Cons.IH run_map_call_readable [OF assms(1)]) (auto simp: honest_def faults_are_def)
    thus ?case using m1 faults by (auto simp: leaves_map_def intro: numbers_advance_trans)
  qed (simp add: leaves_map_def)
  thus ?thesis by (auto simp: leaves_map_def numbers_advance_def)
qed

subsection \<open>Examples\<close>

text \<open>The deck map of three games, the maps the calls below make of it, and a map file that is no document.\<close>

definition restarted_map :: "string \<Rightarrow> file_deck_map" where
  "restarted_map ep = example_map\<lparr>ordinals := [], next_deck := 0, epoch := ep, legacy_superseded := True\<rparr>"

definition mapped_env :: deck_env where
  "mapped_env = (let table = [example_map, example_pending 3, example_deleted ''1'', example_deleted ''0'',
       with_new_deck 4 example_map, example_pending 1000001, restarted_map ''0'', restarted_map ''1'',
       with_new_deck 1 (restarted_map ''0'')]
     in (sample_env [] [] [])\<lparr>uuid_parses := uuid_parses example_env, map_to_vec := table_to table, map_from_slice := table_from table\<rparr>)"

definition mapped_disk :: "u8 \<Rightarrow> disk" where
  "mapped_disk b = \<lparr>leaves = [(map_leaf mapped_env ''f'', RegularFile [b])], fault_at = (\<lambda>_. NoFault), ops_done = 0, uuids_drawn = 0\<rparr>"

lemma mapped_env_ok: "env_ok mapped_env"
proof -
  have "valid_hash (sha256 mapped_env bs)" for bs
    using example_env_ok by (simp add: env_ok_def mapped_env_def sample_env_def example_env_def table_env_def Let_def)
  moreover have "uuid_parses mapped_env (uuid_at mapped_env n)" "\<not> uuid_parses mapped_env NO_MAP_EPOCH" for n
    using example_env_ok by (simp_all add: env_ok_def mapped_env_def sample_env_def example_env_def table_env_def Let_def)
  moreover have "map_from_slice mapped_env bs = Some m" if "map_to_vec mapped_env m = Some bs" for m bs
    using that by (auto simp: mapped_env_def Let_def intro: table_codec)
  ultimately show ?thesis by (simp add: env_ok_def)
qed

lemma mapped_disk_faults: "honest (mapped_disk b)" "faults_are not_invalid (mapped_disk b)"
  by (simp_all add: honest_def faults_are_def mapped_disk_def)

lemma mapped_disk_readable: "map_readable mapped_env ''f'' (mapped_disk 0)"
  by code_simp

lemma mapped_disk_stored: "stored_map mapped_env ''f'' (mapped_disk 0) = Some example_map"
  by (simp add: stored_map_def mapped_disk_def) (simp add: mapped_env_def Let_def table_from_def)

lemma mapped_disk_repaired: "fst (repair_mapped_practice_deck_in mapped_env ''f'' 0 None (mapped_disk 200)) = Inr ()"
  by code_simp

text \<open>
  Beyond the bound: after a deletion in a file of a million and one games nothing but a repair can be
  done, and the repair starts the numbers of the decks again.
\<close>

lemma oversized_delete_restarts_numbers:
  "map_option next_deck (stored_map mapped_env ''f'' (fold (run_map_call mapped_env ''f'')
     [PrepareDelete 1 1000001, RepairDeck 0 None] (mapped_disk 0))) = Some 0"
  by code_simp

theorem map_calls_keep_readable_witness:
  "\<exists>d r. repair_mapped_practice_deck_in mapped_env ''f'' 0 None (mapped_disk 200) = (Inr (), d)
     \<and> fst (read_map mapped_env ''f'' ((fold (run_map_call mapped_env ''f'')
       [PrepareDelete 1 3, ResolvePendingDelete 2 (Inr ()), RepairDeck 0 None, LoadDeck 1] d)\<lparr>fault_at := \<lambda>_. NoFault\<rparr>)) = Inr r"
proof -
  obtain d where run: "repair_mapped_practice_deck_in mapped_env ''f'' 0 None (mapped_disk 200) = (Inr (), d)"
    using mapped_disk_repaired by (metis prod.collapse)
  have "\<forall>c \<in> set [PrepareDelete 1 3, ResolvePendingDelete 2 (Inr ()), RepairDeck 0 None, LoadDeck 1]. deletion_in_bounds c"
    by (simp add: MAP_MAX_ORDINALS_def)
  thus ?thesis
    using run mapped_disk_faults(1) map_calls_keep_readable [OF mapped_env_ok, of _ "''f''" d] by blast
qed

theorem deck_numbers_never_reused_witness:
  "\<exists>m'. stored_map mapped_env ''f'' (fold (run_map_call mapped_env ''f'')
       [PrepareDelete 1 3, FinishDelete ''0'' True, RepairDeck 0 (Some ''1''), DeckEpoch 4] (mapped_disk 0)) = Some m'
     \<and> next_deck example_map \<le> next_deck m'
     \<and> (\<forall>n. Some n \<in> set (ordinals m') \<longrightarrow> Some n \<in> set (ordinals example_map) \<or> next_deck example_map \<le> n)"
  by (rule deck_numbers_never_reused [OF mapped_env_ok mapped_disk_faults(1) mapped_disk_readable mapped_disk_stored
      mapped_disk_faults(2)]) (simp add: MAP_MAX_ORDINALS_def)

end
