(* ===== verification/PracticePages.thy ===== *)
theory PracticePages
  imports PracticeExamples
begin

text \<open>
  Paging through the reviews of a deck (\<^verbatim>\<open>load_practice_reviews_in\<close>): a cursor names a place in the
  history, a page holds the reviews before that place, newest first, and following the cursors
  reads the whole history once.
\<close>

subsection \<open>Cursors\<close>

lemma split_colons_nonempty [simp]: "split_colons s \<noteq> []"
  by (induction s) (auto split: list.splits)

lemma split_colons_part: "CHR '':'' \<notin> set a \<Longrightarrow> split_colons (a @ CHR '':'' # s) = a # split_colons s"
  by (induction a) auto

lemma split_colons_last: "CHR '':'' \<notin> set a \<Longrightarrow> split_colons a = [a]"
  by (induction a) auto

lemma no_colon: "CHR '':'' \<notin> set (show_nat n)"
  using show_nat_digits [of "CHR '':''" n] by auto

lemma parse_print_cursor:
  assumes "offset \<le> U32_MAX"
  shows "parse_cursor (Some (print_cursor generation ordinal offset))
    = Inr (Some \<lparr>cursor_generation = generation, cursor_ordinal = ordinal, cursor_offset = of_nat offset\<rparr>)"
proof -
  have short: "length (show_nat n) \<le> 10" if "n \<le> U32_MAX" for n
    using that by (intro length_show_nat) (auto simp: U32_MAX_def)
  have u32: "unat (w :: u32) \<le> U32_MAX" for w
    using unsigned_less [where w = w and ?'a = nat] by (simp add: U32_MAX_def)
  have "length (print_cursor generation ordinal offset) \<le> PRACTICE_ID_MAX_BYTES"
    using short [OF assms] short [OF u32, of generation] short [OF u32, of ordinal]
    by (simp add: print_cursor_def show_u32_def PRACTICE_ID_MAX_BYTES_def)
  moreover have "split_colons (print_cursor generation ordinal offset) = [show_u32 generation, show_u32 ordinal, show_nat offset]"
    using no_colon by (simp add: print_cursor_def show_u32_def split_colons_part split_colons_last)
  moreover have "parse_u32 (show_nat offset) = Some (of_nat offset)"
    using assms by (simp add: parse_u32_def)
  moreover have "print_cursor generation ordinal offset \<noteq> []" by (simp add: print_cursor_def)
  ultimately show ?thesis by (simp add: parse_cursor_def)
qed

subsection \<open>Places in the history\<close>

text \<open>What the validation of a deck guarantees about its shards.\<close>

definition shards_ok :: "shard_file list \<Rightarrow> bool" where
  "shards_ok shards \<longleftrightarrow> distinct (map (shard_ordinal \<circ> envelope) shards)
     \<and> (\<forall>s \<in> set shards. entries_of s \<noteq> []) \<and> length (history shards) \<le> U32_MAX"

definition render :: "('e deck_env_scheme) \<Rightarrow> review_shard_entry \<Rightarrow> string \<times> string" where
  "render env r = (review_id r, the (value_to_string env (review_entry r)))"

definition renders :: "('e deck_env_scheme) \<Rightarrow> review_shard_entry list \<Rightarrow> bool" where
  "renders env rs \<longleftrightarrow> (\<forall>r \<in> set rs. value_to_string env (review_entry r) \<noteq> None)"

definition place :: "shard_file list \<Rightarrow> nat \<Rightarrow> nat \<Rightarrow> nat" where
  "place shards index offset = length (history (take index shards)) + offset"

lemma history_take_Suc: "i < length shards \<Longrightarrow> history (take (Suc i) shards) = history (take i shards) @ entries_of (shards ! i)"
  by (simp add: history_def entries_of_def take_Suc_conv_app_nth)

lemma history_prefix: "history (take i shards) = take (length (history (take i shards))) (history shards)"
proof -
  have "history shards = history (take i shards) @ history (drop i shards)"
    by (metis append_take_drop_id concat_append history_def map_append)
  thus ?thesis by simp
qed

lemma take_place:
  assumes "i < length shards" "offset \<le> length (entries_of (shards ! i))"
  shows "take (place shards i offset) (history shards) = history (take i shards) @ take offset (entries_of (shards ! i))"
proof -
  have "take (place shards i offset) (history shards) = take (place shards i offset) (history (take (Suc i) shards))"
    using history_take_Suc [OF assms(1)] assms(2) history_prefix [of "Suc i" shards]
    by (metis (no_types, lifting) add_mono_thms_linordered_semiring(2) length_append min.absorb1 place_def take_take)
  thus ?thesis by (simp add: history_take_Suc [OF assms(1)] place_def)
qed

lemma fill_page_result:
  "renders env rs \<Longrightarrow> length page \<le> requested \<Longrightarrow>
   fill_page env requested rs page next_offset
     = Inr (page @ map (render env) (take (requested - length page) rs), next_offset - min (requested - length page) (length rs))"
proof (induction rs arbitrary: page next_offset)
  case (Cons r rs)
  show ?case
  proof (cases "length page = requested")
    case False
    obtain e where e: "value_to_string env (review_entry r) = Some e" using Cons.prems by (auto simp: renders_def)
    have "requested - length page = Suc (requested - Suc (length page))" using False Cons.prems by simp
    thus ?thesis using False Cons e by (simp add: renders_def render_def)
  qed simp
qed simp

subsection \<open>One page\<close>

text \<open>The loop reads from its offset, which is the whole shard from the second turn on.\<close>

definition starts_at :: "shard_file list \<Rightarrow> cursor option \<Rightarrow> nat \<Rightarrow> nat \<Rightarrow> bool" where
  "starts_at shards cur index offset \<longleftrightarrow> index < length shards \<and> offset \<le> length (entries_of (shards ! index))
     \<and> (Suc index = length shards
        \<or> (case cur of None \<Rightarrow> False | Some c \<Rightarrow> cursor_ordinal c = shard_ordinal (envelope (shards ! index)))
        \<or> offset = length (entries_of (shards ! index)))"

text \<open>A printed cursor that names the place where a number of reviews remain.\<close>

definition names_place :: "shard_file list \<Rightarrow> u32 \<Rightarrow> nat \<Rightarrow> string \<Rightarrow> bool" where
  "names_place shards generation remaining c \<longleftrightarrow>
     (\<exists>i offset. i < length shards \<and> 0 < offset \<and> offset \<le> length (entries_of (shards ! i))
        \<and> place shards i offset = remaining
        \<and> c = print_cursor generation (shard_ordinal (envelope (shards ! i))) offset)"

definition page_at :: "('e deck_env_scheme) \<Rightarrow> shard_file list \<Rightarrow> u32 \<Rightarrow> nat \<Rightarrow> nat \<Rightarrow> practice_review_page \<Rightarrow> bool" where
  "page_at env shards generation requested remaining pg \<longleftrightarrow>
     page_entries pg = map (render env) (take requested (rev (take remaining (history shards))))
     \<and> (case next_cursor pg of
          None \<Rightarrow> remaining \<le> requested
        | Some c \<Rightarrow> requested < remaining \<and> names_place shards generation (remaining - requested) c)"

lemma history_nonempty: "shards_ok shards \<Longrightarrow> 0 < i \<Longrightarrow> i \<le> length shards \<Longrightarrow> 0 < length (history (take i shards))"
  by (cases i) (auto simp: shards_ok_def history_take_Suc)

lemma place_previous:
  assumes "shards_ok shards" "0 < i" "i < length shards"
  shows "place shards (i - 1) (length (entries_of (shards ! (i - 1)))) = length (history (take i shards))"
  using assms history_take_Suc [of "i - 1" shards] by (cases i) (auto simp: place_def)

lemma page_loop_step:
  assumes "renders env (history shards)" "starts_at shards cur index offset" "length page < requested"
  defines "n \<equiv> requested - length page" and "es \<equiv> entries_of (shards ! index)"
  shows "page_loop env generation shards cur requested (Suc index) offset page =
    (if n \<le> offset
     then Inr \<lparr>page_entries = page @ map (render env) (take n (rev (take offset es))), next_cursor =
       (if n < offset then Some (print_cursor generation (shard_ordinal (envelope (shards ! index))) (offset - n))
        else if 0 < index
        then Some (print_cursor generation (shard_ordinal (envelope (shards ! (index - 1)))) (length (entries_of (shards ! (index - 1)))))
        else None)\<rparr>
     else page_loop env generation shards cur requested index
       (if 0 < index then length (entries_of (shards ! (index - 1))) else 0)
       (page @ map (render env) (rev (take offset es))))"
proof -
  have idx: "index < length shards" and off: "offset \<le> length es" using assms(2) by (auto simp: starts_at_def es_def)
  have "set es \<subseteq> set (history shards)" using nth_mem [OF idx] by (auto simp: es_def entries_of_def history_def)
  hence ren: "renders env (rev (take offset es))" using assms(1) by (auto simp: renders_def dest: in_set_takeD)
  have start: "(if Suc index = length shards
       \<or> (case cur of None \<Rightarrow> False | Some c \<Rightarrow> cursor_ordinal c = shard_ordinal (envelope (shards ! index)))
     then offset else length (shard_entries (envelope (shards ! index)))) = offset"
    using assms(2) by (auto simp: starts_at_def entries_of_def)
  have fill: "fill_page env requested (rev (take offset es)) page offset
      = Inr (page @ map (render env) (take n (rev (take offset es))), offset - min n offset)"
    using fill_page_result [OF ren, of page requested offset] assms(3) off by (simp add: n_def)
  have len: "length (page @ map (render env) (take n (rev (take offset es)))) = requested \<longleftrightarrow> n \<le> offset"
    using assms(3) off by (auto simp: n_def)
  note fill' = fill [unfolded es_def entries_of_def]
  have room: "\<not> requested \<le> length page" using assms(3) by simp
  show ?thesis
    unfolding page_loop.simps Let_def start fill' then_result_simps prod.case if_not_P [OF room]
    using len off by (auto simp: es_def entries_of_def)
qed

declare page_loop.simps(2) [simp del]

lemma page_loop_result:
  assumes "shards_ok shards" "renders env (history shards)" "starts_at shards cur index offset" "length page < requested"
  shows "\<exists>more nxt. page_loop env generation shards cur requested (Suc index) offset page
       = Inr \<lparr>page_entries = page @ more, next_cursor = nxt\<rparr>
     \<and> page_at env shards generation (requested - length page) (place shards index offset)
         \<lparr>page_entries = more, next_cursor = nxt\<rparr>"
  using assms(3,4)
proof (induction index arbitrary: offset page)
  case 0
  have off: "offset \<le> length (entries_of (shards ! 0))" "0 < length shards" using 0 by (auto simp: starts_at_def)
  hence "take (place shards 0 offset) (history shards) = take offset (entries_of (shards ! 0))"
    using take_place [OF off(2,1)] by (simp add: history_def)
  moreover have "names_place shards generation (offset - n) (print_cursor generation (shard_ordinal (envelope (shards ! 0))) (offset - n))"
    if "n < offset" for n
    unfolding names_place_def using off that by (intro exI [of _ 0] exI [of _ "offset - n"]) (simp add: place_def history_def)
  ultimately show ?case
    using page_loop_step [OF assms(2) 0, of generation] off
    by (auto simp: page_at_def place_def history_def)
next
  case (Suc j)
  let ?n = "requested - length page" and ?es = "entries_of (shards ! Suc j)" and ?e = "entries_of (shards ! j)"
  have idx: "Suc j < length shards" and off: "offset \<le> length ?es" using Suc.prems by (auto simp: starts_at_def)
  have hist: "take (place shards (Suc j) offset) (history shards) = history (take (Suc j) shards) @ take offset ?es"
    by (rule take_place [OF idx off])
  have prev: "place shards j (length ?e) = length (history (take (Suc j) shards))"
    using idx history_take_Suc [of j shards] by (simp add: place_def)
  show ?case
  proof (cases "?n \<le> offset")
    case True
    have "names_place shards generation (place shards (Suc j) offset - ?n)
      (if ?n < offset then print_cursor generation (shard_ordinal (envelope (shards ! Suc j))) (offset - ?n)
       else print_cursor generation (shard_ordinal (envelope (shards ! j))) (length ?e))"
    proof (cases "?n < offset")
      case True
      thus ?thesis using idx off unfolding names_place_def
        by (intro exI [of _ "Suc j"] exI [of _ "offset - ?n"]) (auto simp: place_def)
    next
      case False
      have "?e \<noteq> []" using assms(1) idx by (simp add: shards_ok_def)
      thus ?thesis using True False idx prev unfolding names_place_def
        by (intro exI [of _ j] exI [of _ "length ?e"]) (auto simp: place_def)
    qed
    moreover have "?n < place shards (Suc j) offset"
      using True history_nonempty [OF assms(1), of "Suc j"] idx unfolding place_def by linarith
    ultimately show ?thesis
      using page_loop_step [OF assms(2) Suc.prems, of generation] True off hist
      by (auto simp: page_at_def split: if_splits)
  next
    case False
    let ?page = "page @ map (render env) (rev (take offset ?es))"
    have "starts_at shards cur j (length ?e)" using idx by (simp add: starts_at_def)
    moreover have "length ?page < requested" using False off Suc.prems by simp
    ultimately obtain more nxt where
      more: "page_loop env generation shards cur requested (Suc j) (length ?e) ?page = Inr \<lparr>page_entries = ?page @ more, next_cursor = nxt\<rparr>"
      "page_at env shards generation (requested - length ?page) (place shards j (length ?e)) \<lparr>page_entries = more, next_cursor = nxt\<rparr>"
      using Suc.IH by blast
    have n: "requested - length ?page = ?n - offset" using off by simp
    have "page_at env shards generation ?n (place shards (Suc j) offset)
      \<lparr>page_entries = map (render env) (rev (take offset ?es)) @ more, next_cursor = nxt\<rparr>"
      using more(2) False off hist prev unfolding n page_at_def
      by (auto simp: place_def history_prefix [of "Suc j" shards, symmetric] ac_simps split: option.splits)
    thus ?thesis using page_loop_step [OF assms(2) Suc.prems, of generation] False more(1) by auto
  qed
qed

lemma find_shard_index:
  assumes "shards_ok shards" "i < length shards"
  shows "find_shard shards (shard_ordinal (envelope (shards ! i))) = Some i"
proof -
  have "inj_on (\<lambda>j. shard_ordinal (envelope (shards ! j))) {..<length shards}"
    using assms(1) by (auto simp: shards_ok_def inj_on_def distinct_conv_nth)
  hence "shard_ordinal (envelope (shards ! j)) \<noteq> shard_ordinal (envelope (shards ! i))" if "j < i" for j
    using that assms(2) by (auto simp: inj_on_def)
  thus ?thesis using assms(2) by (auto simp: find_shard_def find_Some_iff intro!: exI [of _ i])
qed

text \<open>What a page is read from: nothing, or a cursor an earlier page printed.\<close>

definition reads_from :: "shard_file list \<Rightarrow> u32 \<Rightarrow> nat \<Rightarrow> string option \<Rightarrow> bool" where
  "reads_from shards generation remaining at_cursor \<longleftrightarrow>
     (case at_cursor of None \<Rightarrow> remaining = length (history shards) | Some c \<Rightarrow> names_place shards generation remaining c)"

lemma place_bound: "reads_from shards generation remaining at_cursor \<Longrightarrow> remaining \<le> length (history shards)"
proof (cases at_cursor)
  case (Some c)
  assume "reads_from shards generation remaining at_cursor"
  then obtain i offset where c: "i < length shards" "offset \<le> length (entries_of (shards ! i))" "place shards i offset = remaining"
    using Some by (auto simp: reads_from_def names_place_def)
  have "length (history (take (Suc i) shards)) \<le> length (history shards)"
    using history_prefix [of "Suc i" shards] by (metis length_take min.bounded_iff order_refl)
  thus ?thesis using c by (simp add: history_take_Suc place_def)
qed (simp add: reads_from_def)

lemma review_page_result:
  assumes "shards_ok shards" "renders env (history shards)" "0 < limit" "reads_from shards generation remaining at_cursor"
  shows "\<exists>pg. review_page env generation shards at_cursor limit = Inr pg
     \<and> page_at env shards generation (unat (min limit PRACTICE_READ_MAX_ENTRIES)) remaining pg"
proof -
  let ?r = "unat (min limit PRACTICE_READ_MAX_ENTRIES)"
  have r: "0 < ?r" using assms(3) by (auto simp: PRACTICE_READ_MAX_ENTRIES_def min_def unat_gt_0 word_gt_0)
  show ?thesis
  proof (cases at_cursor)
    case None
    show ?thesis
    proof (cases "shards = []")
      case True
      thus ?thesis using None assms(4) r
        by (simp add: review_page_def parse_cursor_def page_start_def page_at_def reads_from_def history_def)
    next
      case False
      let ?i = "length shards - 1" and ?o = "length (entries_of (last shards))"
      have last: "shards ! ?i = last shards" using False by (simp add: last_conv_nth)
      have "starts_at shards None ?i ?o" using False last by (simp add: starts_at_def)
      moreover have "place shards ?i ?o = remaining"
        using assms(4) None False last history_take_Suc [of ?i shards] by (simp add: place_def reads_from_def)
      ultimately show ?thesis
        using page_loop_result [OF assms(1,2), of None ?i ?o "[]" ?r generation] r None False
        by (auto simp: review_page_def parse_cursor_def page_start_def entries_of_def)
    qed
  next
    case (Some c)
    then obtain i offset where c: "i < length shards" "0 < offset" "offset \<le> length (entries_of (shards ! i))"
      "place shards i offset = remaining" "c = print_cursor generation (shard_ordinal (envelope (shards ! i))) offset"
      using assms(4) by (auto simp: reads_from_def names_place_def)
    let ?c = "\<lparr>cursor_generation = generation, cursor_ordinal = shard_ordinal (envelope (shards ! i)), cursor_offset = of_nat offset\<rparr>"
    have "length (entries_of (shards ! i)) \<le> length (history shards)"
      using history_take_Suc [OF c(1)] history_prefix [of "Suc i" shards] by (metis le_add2 length_append length_take min.bounded_iff)
    hence small: "offset \<le> U32_MAX" using c(3) assms(1) by (simp add: shards_ok_def)
    hence offset: "unat (of_nat offset :: u32) = offset" by (simp add: unat_of_nat U32_MAX_def)
    have "starts_at shards (Some ?c) i offset" using c by (simp add: starts_at_def)
    thus ?thesis
      using page_loop_result [OF assms(1,2), of "Some ?c" i offset "[]" ?r generation] r Some c offset
      by (auto simp: review_page_def parse_print_cursor [OF small] page_start_def find_shard_index [OF assms(1) c(1)] entries_of_def)
  qed
qed

subsection \<open>The whole history\<close>

text \<open>A client that follows the cursors; the fuel bounds the number of pages.\<close>

fun read_pages ::
    "('e deck_env_scheme) \<Rightarrow> u32 \<Rightarrow> shard_file list \<Rightarrow> u32 \<Rightarrow> nat \<Rightarrow> string option \<Rightarrow> (string \<times> string) list option" where
  "read_pages env generation shards limit 0 at_cursor = None"
| "read_pages env generation shards limit (Suc fuel) at_cursor =
     (case review_page env generation shards at_cursor limit of
        Inl _ \<Rightarrow> None
      | Inr pg \<Rightarrow>
          (case next_cursor pg of
             None \<Rightarrow> Some (page_entries pg)
           | Some c \<Rightarrow> map_option (\<lambda>rest. page_entries pg @ rest) (read_pages env generation shards limit fuel (Some c))))"

lemma read_pages_result:
  assumes "shards_ok shards" "renders env (history shards)" "0 < limit"
  shows "reads_from shards generation remaining at_cursor \<Longrightarrow> remaining \<le> fuel \<Longrightarrow>
    read_pages env generation shards limit (Suc fuel) at_cursor = Some (map (render env) (rev (take remaining (history shards))))"
proof (induction fuel arbitrary: remaining at_cursor)
  case 0
  then obtain pg where "review_page env generation shards at_cursor limit = Inr pg"
    "page_at env shards generation (unat (min limit PRACTICE_READ_MAX_ENTRIES)) remaining pg"
    using review_page_result [OF assms] by blast
  thus ?case using 0 by (auto simp: page_at_def split: option.splits)
next
  case (Suc fuel)
  let ?r = "unat (min limit PRACTICE_READ_MAX_ENTRIES)"
  have r: "0 < ?r" using assms(3) by (auto simp: PRACTICE_READ_MAX_ENTRIES_def min_def unat_gt_0 word_gt_0)
  obtain pg where pg: "review_page env generation shards at_cursor limit = Inr pg" "page_at env shards generation ?r remaining pg"
    using review_page_result [OF assms Suc.prems(1)] by blast
  show ?case
  proof (cases "next_cursor pg")
    case None
    hence "length (rev (take remaining (history shards))) \<le> ?r" using pg(2) by (simp add: page_at_def min.coboundedI2)
    thus ?thesis using None pg by (simp add: page_at_def)
  next
    case (Some c)
    hence c: "?r < remaining" "reads_from shards generation (remaining - ?r) (Some c)"
      using pg(2) by (auto simp: page_at_def reads_from_def)
    have "rev (take remaining (history shards))
        = take ?r (rev (take remaining (history shards))) @ rev (take (remaining - ?r) (history shards))"
    proof -
      let ?t = "take remaining (history shards)"
      have t: "length ?t = remaining" using place_bound [OF Suc.prems(1)] by simp
      have "rev ?t = rev (drop (remaining - ?r) ?t) @ rev (take (remaining - ?r) ?t)"
        by (metis append_take_drop_id rev_append)
      moreover have "take ?r (rev ?t) = rev (drop (remaining - ?r) ?t)" by (simp only: take_rev t)
      moreover have "take (remaining - ?r) ?t = take (remaining - ?r) (history shards)" by (simp add: min_def)
      ultimately show ?thesis by simp
    qed
    thus ?thesis using Suc.IH [OF c(2)] Suc.prems c r pg Some
      by (simp add: page_at_def flip: map_append)
  qed
qed

text \<open>C19. Following the cursors from the newest page on reads every review of a loaded deck exactly once,
  newest first, whatever page size the client asks for: no more pages than reviews, and one.\<close>

theorem review_pages_complete:
  assumes "valid_hash hash" "load_valid_deck env hash d = (Inr (Some (p, shards, rc)), d')"
    "names_ok hash (pos_generation p) d" "renders env (history shards)" "0 < limit"
  shows "read_pages env (pos_generation p) shards limit (Suc (length (history shards))) None
    = Some (map (render env) (rev (history shards)))"
proof -
  have "distinct (map (shard_ordinal \<circ> envelope) shards)"
    using load_deck_holds [OF assms(1-3)] by (auto simp: deck_holds_def dest: lists_shardsD(2))
  hence "shards_ok shards"
    using load_valid_deck_Some [OF assms(2)] read_shards_valid reconcile_Inr(4)
    unfolding shards_ok_def shard_valid_def by meson
  from read_pages_result [OF this assms(4,5), of "pos_generation p" "length (history shards)" None]
  show ?thesis by (simp add: reads_from_def del: read_pages.simps)
qed

text \<open>A deck of three reviews, read two at a time.\<close>

definition reviewed_disk :: disk where
  "reviewed_disk = \<lparr>leaves = [(positions_leaf (hash_deck review_env ''f'' 0), RegularFile [2]),
       (shard_leaf (hash_deck review_env ''f'' 0) 0 0, RegularFile [1])],
     fault_at = (\<lambda>n. NoFault), ops_done = 0, uuids_drawn = 0\<rparr>"

definition reviewed_shard :: shard_file where
  "reviewed_shard = \<lparr>shard_leaf_name = shard_leaf (hash_deck review_env ''f'' 0) 0 0, envelope = review_shard 3\<rparr>"

lemma reviewed_load:
  "fst (load_valid_deck review_env (hash_deck review_env ''f'' 0) reviewed_disk)
   = Inr (Some (reviewed_positions, [reviewed_shard], \<lparr>total_entries = 3, reconciled_orphans = 0\<rparr>))"
  by code_simp

lemma reviewed_render:
  "map (render review_env) (rev (history [reviewed_shard])) = [(''r3'', ''1''), (''r2'', ''1''), (''r1'', ''1'')]"
  by code_simp

lemma reviewed_renders: "renders review_env (history [reviewed_shard])"
  by code_simp

theorem review_pages_complete_witness:
  "read_pages review_env 0 [reviewed_shard] 2 4 None = Some [(''r3'', ''1''), (''r2'', ''1''), (''r1'', ''1'')]"
proof -
  let ?h = "hash_deck review_env ''f'' 0"
  have env: "deck_env_ok review_env" by (simp add: review_env_def sample_env_ok)
  have load: "load_valid_deck review_env ?h reviewed_disk
      = (Inr (Some (reviewed_positions, [reviewed_shard], \<lparr>total_entries = 3, reconciled_orphans = 0\<rparr>)),
         snd (load_valid_deck review_env ?h reviewed_disk))"
    by (rule prod_eqI) (simp_all add: reviewed_load)
  have generation: "pos_generation reviewed_positions = 0"
    by (simp add: reviewed_positions_def first_positions_def new_positions_def)
  have parsed: "parse_owned_leaf (positions_leaf ?h) = Some (PositionsLeaf ?h)"
    "parse_owned_leaf (shard_leaf ?h 0 0) = Some (ShardLeaf ?h 0 0)"
    by (rule parse_owned_leaf_names(1,4) [OF deck_hash_valid [OF env]])+
  hence "positions_leaf ?h \<noteq> shard_leaf ?h 0 0" by force
  hence names: "names_ok ?h (pos_generation reviewed_positions) reviewed_disk"
    using parsed by (auto simp: names_ok_def reviewed_disk_def generation)
  have len: "length (history [reviewed_shard]) = 3" by code_simp
  show ?thesis
    using review_pages_complete [OF deck_hash_valid [OF env] load names reviewed_renders, of 2] len
    by (simp add: generation reviewed_render numeral_eq_Suc del: read_pages.simps)
qed

end
