(* ===== verification/PracticeRecord.thy ===== *)
theory PracticeRecord
  imports PracticeExamples
begin

text \<open>
  Recording a review (\<^verbatim>\<open>record_practice_review_in\<close>) under any failures of the file system: a review
  that is retried until it succeeds is in the history exactly once and counted exactly once. An
  attempt leaves the deck in one of three stages, and a later attempt continues from there.
\<close>

subsection \<open>Attempts\<close>

text \<open>
  A review about to be written: the deck it was computed from, whose history does not have its
  identifier, and the documents its strings decode to.
\<close>

record review_target =
  target_raw :: positions_envelope
  target_shards :: "shard_file list"
  target_counts :: reconciliation
  target_value :: json
  target_positions :: "json list"
  target_entry :: json
  target_digest :: string

definition targets :: "('e deck_env_scheme) \<Rightarrow> string \<Rightarrow> practice_review_write \<Rightarrow> review_target \<Rightarrow> bool" where
  "targets env hash w t \<longleftrightarrow>
     reconcile (canonical_positions (target_raw t)) (target_shards t) (positions_leaf hash) = Inr (target_counts t)
     \<and> pos_generation (target_raw t) = write_generation w \<and> pos_revision (target_raw t) = write_revision w
     \<and> base_revision w \<le> write_revision w \<and> last_entry_id (target_raw t) \<noteq> Some (entry_id w)
     \<and> (\<forall>r \<in> set (history (target_shards t)). review_id r \<noteq> entry_id w)
     \<and> positions_array (target_value t) = Inr (target_positions t)
     \<and> entry_digest env (target_entry t) = Inr (target_digest t)"

definition target_review :: "practice_review_write \<Rightarrow> review_target \<Rightarrow> review_shard_entry" where
  "target_review w t = \<lparr>review_id = entry_id w, rev_of = pos_revision (target_raw t) + 1, review_entry = canonical_value (target_entry t)\<rparr>"

definition target_counted :: "practice_review_write \<Rightarrow> review_target \<Rightarrow> positions_envelope" where
  "target_counted w t =
     counted (canonical_positions (target_raw t)) (target_counts t) (entry_id w) (target_digest t) (target_positions t)"

text \<open>The review is not there yet, is there but not counted, or is there and counted.\<close>

definition untouched :: "('e deck_env_scheme) \<Rightarrow> string \<Rightarrow> review_target \<Rightarrow> disk \<Rightarrow> bool" where
  "untouched env hash t d \<longleftrightarrow> deck_holds env hash d (target_raw t) (target_shards t)"

definition orphaned :: "('e deck_env_scheme) \<Rightarrow> string \<Rightarrow> practice_review_write \<Rightarrow> review_target \<Rightarrow> disk \<Rightarrow> bool" where
  "orphaned env hash w t d \<longleftrightarrow> base_revision w < rev_of (target_review w t)
     \<and> (\<exists>shards'. deck_holds env hash d (target_raw t) shards' \<and> history shards' = history (target_shards t) @ [target_review w t])"

definition recorded :: "('e deck_env_scheme) \<Rightarrow> string \<Rightarrow> practice_review_write \<Rightarrow> review_target \<Rightarrow> disk \<Rightarrow> bool" where
  "recorded env hash w t d \<longleftrightarrow> length (history (target_shards t)) < U32_MAX
     \<and> (\<exists>shards'. deck_holds env hash d (target_counted w t) shards' \<and> history shards' = history (target_shards t) @ [target_review w t])"

definition some_stage :: "('e deck_env_scheme) \<Rightarrow> string \<Rightarrow> practice_review_write \<Rightarrow> review_target \<Rightarrow> disk \<Rightarrow> bool" where
  "some_stage env hash w t d \<longleftrightarrow> untouched env hash t d \<or> orphaned env hash w t d \<or> recorded env hash w t d"

lemma target_counted_generation [simp]:
  "pos_generation (target_counted w t) = pos_generation (target_raw t)"
  "pos_revision (target_counted w t) = pos_revision (target_raw t) + 1"
  "last_entry_id (target_counted w t) = Some (entry_id w)"
  "last_entry_digest (target_counted w t) = Some (target_digest t)"
  by (simp_all add: target_counted_def counted_def canonical_positions_def)

lemma wp_count:
  assumes "deck_env_ok env" "valid_hash hash" "deck_holds env hash d (target_raw t) shards'"
    "history shards' = history (target_shards t) @ [target_review w t]" "base_revision w < rev_of (target_review w t)"
    "length (history (target_shards t)) < U32_MAX"
  shows "wp (write_positions env hash (target_counted w t)) (\<lambda>_. recorded env hash w t) (\<lambda>_. some_stage env hash w t) d"
  by (rule wp_mono [OF wp_write_positions [OF assms(1-3)]])
    (use assms(4-6) in \<open>auto simp: recorded_def some_stage_def orphaned_def\<close>)

lemma wp_record_untouched:
  assumes "deck_env_ok env" "valid_hash hash" "targets env hash w t" "untouched env hash t d"
  shows "wp (record_loaded env hash file_id number w (target_value t) (target_entry t)
      (canonical_positions (target_raw t), target_shards t, target_counts t))
    (\<lambda>n d'. recorded env hash w t d' \<and> n = write_revision w + 1) (\<lambda>_. some_stage env hash w t) d"
proof -
  let ?p = "canonical_positions (target_raw t)"
  note t = assms(3) [unfolded targets_def]
  have stage: "some_stage env hash w t d" using assms(4) by (simp add: some_stage_def)
  have body: "wp (bind_io (of_result (ensure_positions_size env q (positions_leaf hash))) (\<lambda>_.
       bind_io (append_review env hash file_id number (write_generation w) (pos_revision q)
            (if target_shards t = [] then None else Some (envelope (last (target_shards t)))) (entry_id w) (target_entry t)) (\<lambda>_.
       bind_io (write_positions env hash q) (\<lambda>_. return_io (pos_revision q)))))
    (\<lambda>n d'. recorded env hash w t d' \<and> n = write_revision w + 1) (\<lambda>_. some_stage env hash w t) d"
    if q: "q = target_counted w t" and rev: "unat (pos_revision q) = unat (pos_revision ?p) + 1"
      and few: "length (history (target_shards t)) < U32_MAX" for q
  proof (cases "ensure_positions_size env q (positions_leaf hash)")
    case (Inl e)
    thus ?thesis using stage by (simp add: wp_throw)
  next
    case (Inr u)
    have later: "base_revision w < rev_of (target_review w t)"
      using t rev q by (simp add: target_review_def word_less_nat_alt word_le_nat_alt)
    have g: "write_generation w = pos_generation (target_raw t)" using t by simp
    have review: "\<lparr>review_id = entry_id w, rev_of = pos_revision q, review_entry = canonical_value (target_entry t)\<rparr> = target_review w t"
      by (simp add: target_review_def q)
    have append: "wp (append_review env hash file_id number (write_generation w) (pos_revision q)
            (if target_shards t = [] then None else Some (envelope (last (target_shards t)))) (entry_id w) (target_entry t))
        (\<lambda>_ d'. \<exists>shards'. deck_holds env hash d' (target_raw t) shards' \<and> history shards' = history (target_shards t) @ [target_review w t])
        (\<lambda>_. some_stage env hash w t) d"
      unfolding g
      by (rule wp_mono [OF wp_append_review [OF assms(1,2,4) [unfolded untouched_def], where n = "pos_revision q"
            and i = "entry_id w" and entry = "target_entry t" and file_id = file_id and number = number, unfolded review]])
        (use later in \<open>auto simp: untouched_def some_stage_def orphaned_def\<close>)
    have tail: "wp (bind_io (write_positions env hash q) (\<lambda>_. return_io (pos_revision q)))
        (\<lambda>n d'. recorded env hash w t d' \<and> n = write_revision w + 1) (\<lambda>_. some_stage env hash w t) d'"
      if grown: "\<exists>shards'. deck_holds env hash d' (target_raw t) shards' \<and> history shards' = history (target_shards t) @ [target_review w t]" for d'
    proof -
      obtain shards' where s: "deck_holds env hash d' (target_raw t) shards'" "history shards' = history (target_shards t) @ [target_review w t]"
        using grown by blast
      show ?thesis
        unfolding wp_bind q
        by (rule wp_mono [OF wp_count [OF assms(1,2) s later few]]) (use t in \<open>auto simp: wp_return\<close>)
    qed
    show ?thesis
      unfolding Inr bind_io_of_result
      by (subst wp_bind) (rule wp_mono [OF append], auto intro: tail)
  qed
  show ?thesis
  proof (cases "recorded_envelope env ?p (target_shards t) (target_counts t) (base_revision w) (entry_id w) (target_digest t) (target_value t)")
    case (Inl e)
    thus ?thesis using t stage by (simp add: record_loaded_def wp_throw)
  next
    case (Inr x)
    obtain q appended where x: "x = (q, appended)" by force
    have q: "appended" "q = target_counted w t" "unat (pos_revision q) = unat (pos_revision ?p) + 1"
      "length (history (target_shards t)) < U32_MAX"
      using recorded_fresh [OF Inr [unfolded x]] t reconcile_Inr(1) by (auto simp: target_counted_def)
    thus ?thesis using t Inr x q(1) body [OF q(2-4)] by (simp add: record_loaded_def split del: if_split)
  qed
qed

lemma wp_record_orphaned:
  assumes "deck_env_ok env" "valid_hash hash" "targets env hash w t" "orphaned env hash w t d"
    "deck_holds env hash d (target_raw t) shards'" "history shards' = history (target_shards t) @ [target_review w t]"
    "reconcile (canonical_positions (target_raw t)) shards' (positions_leaf hash) = Inr rc'"
  shows "wp (record_loaded env hash file_id number w (target_value t) (target_entry t)
      (canonical_positions (target_raw t), shards', rc'))
    (\<lambda>n d'. recorded env hash w t d' \<and> n = write_revision w + 1) (\<lambda>_. some_stage env hash w t) d"
proof -
  let ?p = "canonical_positions (target_raw t)"
  note t = assms(3) [unfolded targets_def]
  have stage: "some_stage env hash w t d" and later: "base_revision w < rev_of (target_review w t)"
    using assms(4) by (auto simp: some_stage_def orphaned_def)
  have few: "length (history (target_shards t)) < U32_MAX" using reconcile_Inr(4) [OF assms(7)] assms(6) by simp
  have tail: "wp (bind_io (write_positions env hash (target_counted w t)) (\<lambda>_. return_io (pos_revision (target_counted w t))))
      (\<lambda>n d'. recorded env hash w t d' \<and> n = write_revision w + 1) (\<lambda>_. some_stage env hash w t) d"
    unfolding wp_bind by (rule wp_mono [OF wp_count [OF assms(1,2,5,6) later few]]) (use t in \<open>auto simp: wp_return\<close>)
  show ?thesis
  proof (cases "recorded_envelope env ?p shards' rc' (base_revision w) (entry_id w) (target_digest t) (target_value t)")
    case (Inl e)
    thus ?thesis using t stage by (simp add: record_loaded_def wp_throw)
  next
    case (Inr x)
    obtain q appended where x: "x = (q, appended)" by force
    have "\<not> appended \<and> q = target_counted w t"
      using recorded_retry [OF Inr [unfolded x] assms(6) _ later _ _ assms(7)] t
      by (auto simp: target_counted_def target_review_def)
    thus ?thesis using t Inr x tail stage
      by (cases "ensure_positions_size env (target_counted w t) (positions_leaf hash)") (auto simp: record_loaded_def wp_def [of "\<lambda>s. (Inl _, s)"])
  qed
qed

lemma wp_record_recorded:
  assumes "targets env hash w t" "recorded env hash w t d"
  shows "wp (record_loaded env hash file_id number w (target_value t) (target_entry t)
      (canonical_positions (target_counted w t), shards', rc'))
    (\<lambda>n d'. recorded env hash w t d' \<and> n = write_revision w + 1) (\<lambda>_. some_stage env hash w t) d"
  using assms by (auto simp: record_loaded_def targets_def wp_def some_stage_def)

text \<open>One attempt, from any stage.\<close>

lemma same_deck_stage:
  assumes "same_deck hash (pos_generation (target_raw t)) d d'"
  shows "untouched env hash t d \<Longrightarrow> untouched env hash t d'" "orphaned env hash w t d \<Longrightarrow> orphaned env hash w t d'"
    "recorded env hash w t d \<Longrightarrow> recorded env hash w t d'"
proof -
  have raw: "deck_holds env hash d (target_raw t) s \<Longrightarrow> deck_holds env hash d' (target_raw t) s" for s
    using deck_holds_same [where raw = "target_raw t" and d = d and d' = d' and hash = hash] assms by simp
  have counted: "deck_holds env hash d (target_counted w t) s \<Longrightarrow> deck_holds env hash d' (target_counted w t) s" for s
    using deck_holds_same [where raw = "target_counted w t" and d = d and d' = d' and hash = hash] assms by simp
  show "untouched env hash t d \<Longrightarrow> untouched env hash t d'" using raw by (simp add: untouched_def)
  show "orphaned env hash w t d \<Longrightarrow> orphaned env hash w t d'" using raw unfolding orphaned_def by blast
  show "recorded env hash w t d \<Longrightarrow> recorded env hash w t d'" using counted unfolding recorded_def by blast
qed

lemma wp_load_record:
  assumes "deck_env_ok env" "valid_hash hash" "targets env hash w t" "some_stage env hash w t d"
  shows "wp (bind_io (load_valid_deck env hash) (\<lambda>loaded. bind_io (of_result (ok_or loaded e))
       (record_loaded env hash file_id number w (target_value t) (target_entry t))))
    (\<lambda>n d'. recorded env hash w t d' \<and> n = write_revision w + 1) (\<lambda>_. some_stage env hash w t) d"
proof -
  obtain r d' where load: "load_valid_deck env hash d = (r, d')" by force
  have same: "same_deck hash (pos_generation (target_raw t)) d d'"
    using reads_only_deck [OF reads_only_load_valid_deck] load by (metis frame_def snd_conv)
  have stage: "some_stage env hash w t d'"
    using assms(4) same_deck_stage [OF same, of env] by (auto simp: some_stage_def)
  have "wp (record_loaded env hash file_id number w (target_value t) (target_entry t) (p, shards', rc'))
      (\<lambda>n d'. recorded env hash w t d' \<and> n = write_revision w + 1) (\<lambda>_. some_stage env hash w t) d'"
    if "r = Inr (Some (p, shards', rc'))" for p shards' rc'
  proof -
    note held = load_holds [OF assms(2) _ load [unfolded that]]
    consider "untouched env hash t d" | "orphaned env hash w t d" | "recorded env hash w t d"
      using assms(4) by (auto simp: some_stage_def)
    thus ?thesis
    proof cases
      case 1
      hence "p = canonical_positions (target_raw t)" "shards' = target_shards t" "rc' = target_counts t"
        using held [OF 1 [unfolded untouched_def]] assms(3) by (auto simp: targets_def)
      thus ?thesis using wp_record_untouched [OF assms(1-3)] same_deck_stage(1) [OF same 1] by simp
    next
      case 2
      then obtain shards1 where s: "deck_holds env hash d (target_raw t) shards1" "history shards1 = history (target_shards t) @ [target_review w t]"
        by (auto simp: orphaned_def)
      show ?thesis
        using held [OF s(1)] s(2) deck_holds_same [OF same s(1)] same_deck_stage(2) [OF same 2]
        by (auto intro!: wp_record_orphaned [OF assms(1-3)])
    next
      case 3
      then obtain shards1 where s: "deck_holds env hash d (target_counted w t) shards1" by (auto simp: recorded_def)
      show ?thesis
        using held [OF s] same_deck_stage(3) [OF same 3] by (auto intro!: wp_record_recorded [OF assms(3)])
    qed
  qed
  thus ?thesis
    unfolding wp_bind using stage load
    by (cases r) (auto simp: wp_def [of "load_valid_deck env hash"] wp_of_result ok_or_def split: option.splits)
qed

lemma some_stage_same: "same_deck hash (pos_generation (target_raw t)) d d' \<Longrightarrow> some_stage env hash w t d \<Longrightarrow> some_stage env hash w t d'"
  by (auto simp: some_stage_def dest: same_deck_stage)

lemma wp_locked:
  assumes "valid_hash hash" "some_stage env hash w t d"
    "\<And>d'. some_stage env hash w t d' \<Longrightarrow> wp m Q (\<lambda>_. some_stage env hash w t) d'"
  shows "wp (with_store_lock hash m) Q (\<lambda>_. some_stage env hash w t) d"
  unfolding with_store_lock_def wp_bind
proof (rule wp_frame [OF frame_lock [OF assms(1), of "pos_generation (target_raw t)"]])
  fix d'
  assume same: "same_deck hash (pos_generation (target_raw t)) d d'"
  hence stage: "some_stage env hash w t d'" using some_stage_same assms(2) by blast
  show "wp lock_advisory_file (\<lambda>_. wp m Q (\<lambda>_. some_stage env hash w t)) (\<lambda>_. some_stage env hash w t) d'"
    by (rule wp_frame [OF reads_only_deck [OF reads_only_prims(3), where generation = "pos_generation (target_raw t)" and hash = hash]])
      (use some_stage_same [OF _ stage] assms(3) in blast)+
  show "some_stage env hash w t d'" by (rule stage)
qed

text \<open>The strings of a write decode to the documents of the target.\<close>

definition decodes :: "('e deck_env_scheme) \<Rightarrow> practice_review_write \<Rightarrow> review_target \<Rightarrow> bool" where
  "decodes env w t \<longleftrightarrow> entry_id w \<noteq> [] \<and> length (entry_id w) \<le> PRACTICE_ID_MAX_BYTES
     \<and> validate_positions_document env (write_document w) ''incoming-positions'' = Inr (target_value t)
     \<and> validate_entry env (write_entry w) ''incoming-review'' = Inr (target_entry t)"

lemma wp_record:
  assumes "deck_env_ok env" "targets env (hash_deck env file_id number) w t" "decodes env w t"
    "some_stage env (hash_deck env file_id number) w t d"
  shows "wp (record_practice_review_in env file_id number w)
    (\<lambda>n d'. recorded env (hash_deck env file_id number) w t d' \<and> n = write_revision w + 1)
    (\<lambda>_. some_stage env (hash_deck env file_id number) w t) d"
proof -
  have w: "\<not> (entry_id w = [] \<or> PRACTICE_ID_MAX_BYTES < length (entry_id w))" using assms(3) by (auto simp: decodes_def)
  note v = assms(3) [unfolded decodes_def]
  show ?thesis
    unfolding record_practice_review_in_def if_not_P [OF w] Let_def
    using v by (auto intro!: wp_locked wp_load_record assms deck_hash_valid [OF assms(1)])
qed

lemma attempts_stage:
  assumes "deck_env_ok env" "targets env (hash_deck env file_id number) w t" "decodes env w t"
    "some_stage env (hash_deck env file_id number) w t d"
  shows "some_stage env (hash_deck env file_id number) w t (((\<lambda>d. snd (record_practice_review_in env file_id number w d)) ^^ k) d)"
proof (induction k)
  case (Suc k)
  let ?d = "((\<lambda>d. snd (record_practice_review_in env file_id number w d)) ^^ k) d"
  have "wp (record_practice_review_in env file_id number w) (\<lambda>_. some_stage env (hash_deck env file_id number) w t)
      (\<lambda>_. some_stage env (hash_deck env file_id number) w t) ?d"
    by (rule wp_mono [OF wp_record [OF assms(1-3) Suc]]) (auto simp: some_stage_def)
  thus ?case by (auto simp: wp_def split: prod.splits sum.splits)
qed (use assms(4) in simp)

lemma record_decodes:
  assumes "record_practice_review_in env file_id number w d = (Inr n, d')"
  shows "\<exists>v inc ps digest. validate_positions_document env (write_document w) ''incoming-positions'' = Inr v
    \<and> validate_entry env (write_entry w) ''incoming-review'' = Inr inc \<and> positions_array v = Inr ps
    \<and> entry_digest env inc = Inr digest \<and> entry_id w \<noteq> [] \<and> length (entry_id w) \<le> PRACTICE_ID_MAX_BYTES"
proof -
  have w: "\<not> (entry_id w = [] \<or> PRACTICE_ID_MAX_BYTES < length (entry_id w))"
    using assms by (auto simp: record_practice_review_in_def split: if_split_asm)
  obtain v inc loaded d1 where v: "validate_positions_document env (write_document w) ''incoming-positions'' = Inr v"
    and inc: "validate_entry env (write_entry w) ''incoming-review'' = Inr inc"
    and run: "record_loaded env (hash_deck env file_id number) file_id number w v inc loaded d1 = (Inr n, d')"
    using assms by (auto simp: record_practice_review_in_def if_not_P [OF w] Let_def bind_io_eq_Inr with_store_lock_def)
  have "\<exists>digest. entry_digest env inc = Inr digest"
    using run by (cases loaded) (auto simp: record_loaded_def bind_io_eq_Inr split: if_split_asm)
  moreover have "\<exists>ps. positions_array v = Inr ps"
    using v by (auto simp: validate_positions_document_def then_result_eq_Inr positions_array_def Let_def ok_or_def split: if_split_asm option.split_asm)
  ultimately show ?thesis using v inc w by auto
qed

text \<open>C18. A review that is sent again and again, through any failures of the file system, until it is
  accepted: the history is the old one with the review once at its end, the deck document counts
  every review of the history and no more orphans than before, and the answer is the next revision.\<close>

theorem review_recorded_exactly_once:
  assumes "deck_env_ok env"
    "load_valid_deck env (hash_deck env file_id number) d0 = (Inr (Some (p, shards, rc)), d)"
    "names_ok (hash_deck env file_id number) (pos_generation p) d0"
    "write_generation w = pos_generation p" "write_revision w = pos_revision p" "base_revision w \<le> write_revision w"
    "last_entry_id p \<noteq> Some (entry_id w)" "\<forall>r \<in> set (history shards). review_id r \<noteq> entry_id w"
    "record_practice_review_in env file_id number w
       (((\<lambda>d. snd (record_practice_review_in env file_id number w d)) ^^ k) d) = (Inr n, d')"
  shows "n = pos_revision p + 1 \<and> (\<exists>q shards' entry. deck_holds env (hash_deck env file_id number) d' q shards'
     \<and> validate_entry env (write_entry w) ''incoming-review'' = Inr entry
     \<and> history shards' = history shards @ [\<lparr>review_id = entry_id w, rev_of = n, review_entry = canonical_value entry\<rparr>]
     \<and> pos_revision q = n \<and> last_entry_id q = Some (entry_id w) \<and> unat (applied_entries q) = length (history shards) + 1
     \<and> orphan_entries q = reconciled_orphans rc)"
proof -
  let ?h = "hash_deck env file_id number"
  have h: "valid_hash ?h" by (rule deck_hash_valid [OF assms(1)])
  obtain raw where raw: "deck_holds env ?h d raw shards" "p = canonical_positions raw"
    and rc: "reconcile p shards (positions_leaf ?h) = Inr rc"
    using load_deck_holds [OF h assms(2,3)] by blast
  obtain v inc ps digest where dec: "validate_positions_document env (write_document w) ''incoming-positions'' = Inr v"
    "validate_entry env (write_entry w) ''incoming-review'' = Inr inc" "positions_array v = Inr ps"
    "entry_digest env inc = Inr digest" "entry_id w \<noteq> []" "length (entry_id w) \<le> PRACTICE_ID_MAX_BYTES"
    using record_decodes [OF assms(9)] by blast
  define t where "t = \<lparr>target_raw = raw, target_shards = shards, target_counts = rc, target_value = v,
    target_positions = ps, target_entry = inc, target_digest = digest\<rparr>"
  have targets: "targets env ?h w t" using assms(4-8) raw(2) rc dec by (simp add: targets_def t_def)
  have decodes: "decodes env w t" using dec by (simp add: decodes_def t_def)
  have "some_stage env ?h w t d" using raw(1) by (simp add: some_stage_def untouched_def t_def)
  hence "some_stage env ?h w t (((\<lambda>d. snd (record_practice_review_in env file_id number w d)) ^^ k) d)"
    by (rule attempts_stage [OF assms(1) targets decodes])
  from wp_Inr [OF wp_record [OF assms(1) targets decodes this] assms(9)]
  have rec: "recorded env ?h w t d'" and n: "n = write_revision w + 1" by auto
  have count: "unat (total_entries rc + 1) = length (history shards) + 1"
    using rec reconcile_Inr(1) [OF rc] by (simp add: recorded_def t_def unat_add_nowrap U32_MAX_def)
  obtain shards' where "deck_holds env ?h d' (target_counted w t) shards'" "history shards' = history shards @ [target_review w t]"
    using rec by (auto simp: recorded_def t_def)
  thus ?thesis
    using n assms(5) raw(2) dec(2) count
    by (intro conjI exI [of _ "target_counted w t"] exI [of _ shards'] exI [of _ inc])
      (auto simp: target_review_def target_counted_def counted_def t_def)
qed

text \<open>The write of the positions document fails in the first attempt.\<close>

definition example_deck_disk :: disk where
  "example_deck_disk = \<lparr>leaves = [(positions_leaf (hash_deck review_env ''f'' 0), RegularFile [0])],
     fault_at = (\<lambda>n. if n = 13 then Fails GameNotInProgress else NoFault), ops_done = 0, uuids_drawn = 0\<rparr>"

abbreviation example_load :: "((positions_envelope \<times> shard_file list \<times> reconciliation) option) result \<times> disk" where
  "example_load \<equiv> load_valid_deck review_env (hash_deck review_env ''f'' 0) example_deck_disk"

lemma example_load_eval: "fst example_load = Inr (Some (first_positions, [], \<lparr>total_entries = 0, reconciled_orphans = 0\<rparr>))"
  by code_simp

lemma example_second_attempt:
  "fst (record_practice_review_in review_env ''f'' 0 review_write
     (snd (record_practice_review_in review_env ''f'' 0 review_write (snd example_load)))) = Inr 2"
  by code_simp


theorem review_recorded_exactly_once_witness:
  "\<exists>d' q shards' entry.
     record_practice_review_in review_env ''f'' 0 review_write
       (snd (record_practice_review_in review_env ''f'' 0 review_write (snd example_load))) = (Inr 2, d')
     \<and> deck_holds review_env (hash_deck review_env ''f'' 0) d' q shards'
     \<and> history shards' = [\<lparr>review_id = ''r1'', rev_of = 2, review_entry = canonical_value entry\<rparr>]
     \<and> applied_entries q = 1"
proof -
  let ?r = "record_practice_review_in review_env ''f'' 0 review_write"
  have load: "load_valid_deck review_env (hash_deck review_env ''f'' 0) example_deck_disk
      = (Inr (Some (first_positions, [], \<lparr>total_entries = 0, reconciled_orphans = 0\<rparr>)), snd example_load)"
    by (rule prod_eqI) (simp_all add: example_load_eval)
  have second: "?r (((\<lambda>d. snd (?r d)) ^^ 1) (snd example_load)) = (Inr 2, snd (?r (snd (?r (snd example_load)))))"
    by (rule prod_eqI) (simp_all add: example_second_attempt)
  have env: "deck_env_ok review_env" by (simp add: review_env_def sample_env_ok)
  have names: "names_ok (hash_deck review_env ''f'' 0) (pos_generation first_positions) example_deck_disk"
    using parse_owned_leaf_names(1) [OF deck_hash_valid [OF env]] by (auto simp: names_ok_def example_deck_disk_def)
  have fresh: "pos_generation first_positions = 0" "pos_revision first_positions = 1" "last_entry_id first_positions = None"
    by (simp_all add: first_positions_def new_positions_def)
  have sent: "write_generation review_write = 0" "write_revision review_write = 1" "base_revision review_write = 1"
    "entry_id review_write = ''r1''"
    by (simp_all add: review_write_def)
  have none: "history [] = []" by (simp add: history_def)
  have applies: "write_generation review_write = pos_generation first_positions" "write_revision review_write = pos_revision first_positions"
    "base_revision review_write \<le> write_revision review_write" "last_entry_id first_positions \<noteq> Some (entry_id review_write)"
    "\<forall>r \<in> set (history []). review_id r \<noteq> entry_id review_write"
    by (simp_all add: sent fresh none)
  obtain q shards' entry where held: "deck_holds review_env (hash_deck review_env ''f'' 0) (snd (?r (snd (?r (snd example_load))))) q shards'"
    "history shards' = [\<lparr>review_id = ''r1'', rev_of = 2, review_entry = canonical_value entry\<rparr>]"
    "unat (applied_entries q) = 1"
    using review_recorded_exactly_once [OF env load names applies second, unfolded sent none] by auto
  have "applied_entries q = 1" using held(3) by (simp add: word_unat_eq_iff)
  hence "(Inr 2, snd (?r (snd (?r (snd example_load))))) = (Inr 2, snd (?r (snd (?r (snd example_load))))) \<and>
      deck_holds review_env (hash_deck review_env ''f'' 0) (snd (?r (snd (?r (snd example_load))))) q shards'
      \<and> history shards' = [\<lparr>review_id = ''r1'', rev_of = 2, review_entry = canonical_value entry\<rparr>] \<and> applied_entries q = 1"
    using held(1,2) by blast
  moreover have "?r (snd (?r (snd example_load))) = (Inr 2, snd (?r (snd (?r (snd example_load)))))"
    using second by (simp only: funpow.simps(2) One_nat_def funpow_0 comp_def id_def)
  ultimately show ?thesis by metis
qed

end
