(* ===== verification/PracticeInventory.thy ===== *)
theory PracticeInventory
  imports PracticeMigration
begin

text \<open>
  The inventory of the practice store (\<^verbatim>\<open>list_practice_decks_in\<close>): every deck of the directory, what is
  wrong with the damaged ones, and the translation of deck numbers to the games that own them.
\<close>

subsection \<open>Data\<close>

datatype practice_store_anomaly_kind =
    OrphanShard
  | DamagedDeck
  | IdentityMismatch
  | UnreadableLeaf
  | NotARegularFile
  | StrandedMigration

record practice_store_anomaly =
  anomaly_kind :: practice_store_anomaly_kind
  anomaly_leaf :: string
  anomaly_file_id :: "string option"
  anomaly_game :: "int option"
  anomaly_epoch :: "string option"

record practice_deck_inventory =
  inventory_decks :: "practice_deck_identity list"
  inventory_anomalies :: "practice_store_anomaly list"

definition anomaly :: "practice_store_anomaly_kind \<Rightarrow> string \<Rightarrow> practice_deck_identity option \<Rightarrow> practice_store_anomaly" where
  "anomaly kind leaf identity =
     \<lparr>anomaly_kind = kind, anomaly_leaf = leaf, anomaly_file_id = map_option identity_file_id identity,
      anomaly_game = map_option identity_game identity, anomaly_epoch = None\<rparr>"

definition validation_failure_kind :: "deck_validation_failure \<Rightarrow> practice_store_anomaly_kind" where
  "validation_failure_kind f = (if failure_io f then UnreadableLeaf else DamagedDeck)"

subsection \<open>The decks of the directory\<close>

text \<open>The first pass over the entries: hashes, shards, hashes with a positions leaf, anomalies.\<close>

record inventory_scan =
  candidate_hashes :: "string list"
  shard_candidates :: "(string \<times> string \<times> u32 \<times> u32) list"
  position_leaf_hashes :: "string list"
  scan_anomalies :: "practice_store_anomaly list"

definition scan_entry :: "string \<times> dir_entry \<Rightarrow> inventory_scan \<Rightarrow> inventory_scan" where
  "scan_entry e sc =
     (case parse_owned_leaf (fst e) of
        None \<Rightarrow> sc
      | Some (LockLeaf _) \<Rightarrow> sc
      | Some owned \<Rightarrow>
          let hash = owned_hash owned;
              sc = sc\<lparr>candidate_hashes := List.insert hash (candidate_hashes sc)\<rparr>
          in if \<not> is_regular (snd e)
             then sc\<lparr>scan_anomalies := scan_anomalies sc @ [anomaly NotARegularFile (fst e) None]\<rparr>
             else (case owned of
                     PositionsLeaf _ \<Rightarrow> sc\<lparr>position_leaf_hashes := List.insert hash (position_leaf_hashes sc)\<rparr>
                   | ShardLeaf _ generation ordinal \<Rightarrow>
                       sc\<lparr>shard_candidates := shard_candidates sc @ [(hash, fst e, generation, ordinal)]\<rparr>
                   | _ \<Rightarrow> sc))"

definition scan_entries :: "(string \<times> dir_entry) list \<Rightarrow> inventory_scan" where
  "scan_entries es = fold scan_entry es
     \<lparr>candidate_hashes = [], shard_candidates = [], position_leaf_hashes = [], scan_anomalies = []\<rparr>"

text \<open>The second pass: every deck is validated the way a load validates it.\<close>

record inventory_decks_found =
  found_decks :: "(string \<times> practice_deck_identity) list"
  healthy_positions :: "string list"
  found_anomalies :: "practice_store_anomaly list"

definition deck_anomalies :: "string \<Rightarrow> validated_deck \<Rightarrow> practice_deck_identity \<Rightarrow> practice_store_anomaly list" where
  "deck_anomalies hash loaded identity =
     (if deck_positions loaded \<noteq> None
      then if map_option phase (deck_state loaded) = Some Migrating
           then [anomaly DamagedDeck (positions_leaf hash) (Some identity)] else []
      else case deck_state loaded of
             None \<Rightarrow> []
           | Some s \<Rightarrow>
               if phase s = ResetPhase then []
               else anomaly DamagedDeck (positions_leaf hash) (Some identity)
                 # (if phase s = Migrating then [anomaly StrandedMigration (state_leaf hash) (Some identity)] else []))"

definition deck_identity :: "validated_deck \<Rightarrow> practice_deck_identity option" where
  "deck_identity loaded =
     (case deck_positions loaded of
        Some p \<Rightarrow> Some (positions_identity p)
      | None \<Rightarrow> map_option state_identity (deck_state loaded))"

definition inspect_deck ::
    "('e deck_env_scheme) \<Rightarrow> string \<Rightarrow> inventory_decks_found \<Rightarrow> (disk, inventory_decks_found) io" where
  "inspect_deck env hash fd =
     bind_io (read_validated_deck env hash) (\<lambda>r.
       case r of
         Inr loaded \<Rightarrow>
           (case deck_identity loaded of
              None \<Rightarrow> return_io fd
            | Some identity \<Rightarrow>
                return_io (fd\<lparr>found_decks := found_decks fd @ [(hash, identity)],
                  healthy_positions := (if deck_positions loaded \<noteq> None then hash # healthy_positions fd else healthy_positions fd),
                  found_anomalies := found_anomalies fd @ deck_anomalies hash loaded identity\<rparr>))
       | Inl f \<Rightarrow>
           (case failure_identity f of
              Some identity \<Rightarrow>
                return_io (fd\<lparr>found_decks := found_decks fd @ [(hash, identity)],
                  found_anomalies := found_anomalies fd @ [anomaly (validation_failure_kind f) (positions_leaf hash) (Some identity)]\<rparr>)
            | None \<Rightarrow>
                return_io (fd\<lparr>found_anomalies := found_anomalies fd @ [anomaly UnreadableLeaf (positions_leaf hash) None]\<rparr>)))"

text \<open>The third pass: shards of decks without a positions leaf.\<close>

definition orphan_anomaly ::
    "('e deck_env_scheme) \<Rightarrow> string \<Rightarrow> u32 \<Rightarrow> u32 \<Rightarrow> review_shard_envelope option result \<Rightarrow> practice_store_anomaly" where
  "orphan_anomaly env leaf generation ordinal r =
     (case r of
        Inr (Some v) \<Rightarrow>
          if shard_generation v \<noteq> generation \<or> shard_ordinal v \<noteq> ordinal
             \<or> isl (check_identity env leaf (shard_version v) (shard_file_id v) (shard_game v))
          then anomaly IdentityMismatch leaf None
          else if shard_entries v = [] \<or> list_ex review_refused (shard_entries v)
          then anomaly UnreadableLeaf leaf None
          else anomaly OrphanShard leaf (Some \<lparr>identity_file_id = shard_file_id v, identity_game = shard_game v\<rparr>)
      | _ \<Rightarrow> anomaly UnreadableLeaf leaf None)"

definition inspect_shard ::
    "('e deck_env_scheme) \<Rightarrow> string list \<Rightarrow> string list \<Rightarrow> string \<times> string \<times> u32 \<times> u32 \<Rightarrow> practice_store_anomaly list
      \<Rightarrow> (disk, practice_store_anomaly list) io" where
  "inspect_shard env healthy with_positions s anomalies =
     (case s of (hash, leaf, generation, ordinal) \<Rightarrow>
        if hash \<in> set healthy \<or> hash \<in> set with_positions then return_io anomalies
        else bind_io (attempt (read_json (shard_from_slice env) leaf PRACTICE_LEGACY_MAX_BYTES ''inventory review shard'')) (\<lambda>r.
               return_io (anomalies @ [orphan_anomaly env leaf generation ordinal r])))"

definition list_practice_decks_raw :: "('e deck_env_scheme) \<Rightarrow> (disk, practice_deck_inventory) io" where
  "list_practice_decks_raw env =
     bind_io dir_entries (\<lambda>es.
     let sc = scan_entries es
     in bind_io (for_io (inspect_deck env) (sort (candidate_hashes sc))
             \<lparr>found_decks = [], healthy_positions = [], found_anomalies = scan_anomalies sc\<rparr>) (\<lambda>fd.
        bind_io (for_io (inspect_shard env (healthy_positions fd) (position_leaf_hashes sc)) (shard_candidates sc) (found_anomalies fd)) (\<lambda>anomalies.
          return_io \<lparr>inventory_decks = map snd (found_decks fd), inventory_anomalies = anomalies\<rparr>)))"

subsection \<open>Translation to games\<close>

text \<open>
  The maps read so far: a file is absent when it has no map, and has \<^const>\<open>None\<close> when its map cannot be
  used.
\<close>

record inventory_maps =
  listed_files :: "string list"
  file_maps :: "(string \<times> file_deck_map option) list"
  map_anomalies :: "practice_store_anomaly list"

definition damaged_map :: "string \<Rightarrow> string option \<Rightarrow> practice_store_anomaly" where
  "damaged_map leaf file_id =
     \<lparr>anomaly_kind = DamagedDeck, anomaly_leaf = leaf, anomaly_file_id = file_id, anomaly_game = None, anomaly_epoch = None\<rparr>"

definition note_map :: "string \<Rightarrow> string \<Rightarrow> file_deck_map option result \<Rightarrow> inventory_maps \<Rightarrow> inventory_maps" where
  "note_map leaf file_id r im =
     (case r of
        Inr (Some m) \<Rightarrow>
          if pending m = None then im\<lparr>file_maps := (file_id, Some m) # file_maps im\<rparr>
          else im\<lparr>file_maps := (file_id, None) # file_maps im, map_anomalies := map_anomalies im @ [damaged_map leaf (Some file_id)]\<rparr>
      | _ \<Rightarrow> im\<lparr>file_maps := (file_id, None) # file_maps im, map_anomalies := map_anomalies im @ [damaged_map leaf (Some file_id)]\<rparr>)"

definition inspect_map :: "('e deck_env_scheme) \<Rightarrow> string \<times> dir_entry \<Rightarrow> inventory_maps \<Rightarrow> (disk, inventory_maps) io" where
  "inspect_map env e im =
     bind_io (attempt (read_json (value_from_slice env) (fst e) MAP_MAX_BYTES ''inventory deck map'')) (\<lambda>r.
       case Option.bind (case r of Inr v \<Rightarrow> v | Inl _ \<Rightarrow> None) (\<lambda>v. Option.bind (json_get ''fileId'' v) as_str) of
         Some file_id \<Rightarrow>
           bind_io (attempt (with_map_lock env file_id
             (if map_leaf env file_id \<noteq> fst e then throw_io (invalid_leaf (fst e) ''map identity mismatch'')
              else read_map env file_id))) (\<lambda>m.
             return_io (note_map (fst e) file_id m (im\<lparr>listed_files := List.insert file_id (listed_files im)\<rparr>)))
       | None \<Rightarrow> return_io (im\<lparr>map_anomalies := map_anomalies im @ [damaged_map (fst e) None]\<rparr>))"

definition inspect_file :: "('e deck_env_scheme) \<Rightarrow> string \<Rightarrow> inventory_maps \<Rightarrow> (disk, inventory_maps) io" where
  "inspect_file env file_id im =
     (if map_of (file_maps im) file_id \<noteq> None then return_io im
      else bind_io (attempt (with_map_lock env file_id (read_map env file_id))) (\<lambda>r.
             return_io (if r = Inr None then im else note_map (map_leaf env file_id) file_id r im)))"

text \<open>The game that owns a deck number, if the file has a usable map or none.\<close>

definition game_of :: "(string \<times> file_deck_map option) list \<Rightarrow> string \<Rightarrow> int \<Rightarrow> int option" where
  "game_of maps file_id number =
     (case map_of maps file_id of
        Some (Some m) \<Rightarrow>
          (case find (\<lambda>i. ordinals m ! i = Some number) [0..<length (ordinals m)] of
             None \<Rightarrow> None
           | Some i \<Rightarrow> if int i \<le> I32_MAX then Some (int i) else None)
      | Some None \<Rightarrow> None
      | None \<Rightarrow> Some number)"

definition translate_deck ::
    "(string \<times> file_deck_map option) list \<Rightarrow> practice_deck_identity \<Rightarrow> practice_deck_identity option" where
  "translate_deck maps deck =
     map_option (\<lambda>g. deck\<lparr>identity_game := g\<rparr>) (game_of maps (identity_file_id deck) (identity_game deck))"

definition translate_anomaly ::
    "(string \<times> file_deck_map option) list \<Rightarrow> practice_store_anomaly \<Rightarrow> practice_store_anomaly option" where
  "translate_anomaly maps a =
     (case anomaly_file_id a of
        None \<Rightarrow> Some a
      | Some file_id \<Rightarrow>
          let a = a\<lparr>anomaly_epoch := (case map_of maps file_id of
                      Some m \<Rightarrow> map_option epoch m | None \<Rightarrow> Some NO_MAP_EPOCH)\<rparr>
          in case anomaly_game a of
               None \<Rightarrow> Some a
             | Some number \<Rightarrow> map_option (\<lambda>g. a\<lparr>anomaly_game := Some g\<rparr>) (game_of maps file_id number))"

definition list_practice_decks_in :: "('e deck_env_scheme) \<Rightarrow> (disk, practice_deck_inventory) io" where
  "list_practice_decks_in env =
     bind_io (list_practice_decks_raw env) (\<lambda>inv.
     bind_io dir_entries (\<lambda>es.
     let files = remdups (map identity_file_id (inventory_decks inv) @ List.map_filter anomaly_file_id (inventory_anomalies inv))
     in bind_io (for_io (inspect_map env) (filter (\<lambda>e. ends_with (fst e) MAP_SUFFIX) es)
             \<lparr>listed_files = files, file_maps = [], map_anomalies = inventory_anomalies inv\<rparr>) (\<lambda>im.
        bind_io (for_io (inspect_file env) (sort (listed_files im)) im) (\<lambda>im.
          return_io \<lparr>inventory_decks = List.map_filter (translate_deck (file_maps im)) (inventory_decks inv),
                     inventory_anomalies = List.map_filter (translate_anomaly (file_maps im)) (map_anomalies im)\<rparr>))))"

text \<open>The files whose map has a deletion to resolve before the inventory is taken.\<close>

definition note_pending :: "('e deck_env_scheme) \<Rightarrow> string \<times> dir_entry \<Rightarrow> string list \<Rightarrow> (disk, string list) io" where
  "note_pending env e found =
     bind_io (attempt (read_json (map_from_slice env) (fst e) MAP_MAX_BYTES ''inventory pending map'')) (\<lambda>r.
       case r of
         Inr (Some m) \<Rightarrow>
           if map_leaf env (map_file_id m) \<noteq> fst e then return_io found
           else bind_io (attempt (has_pending_delete env (map_file_id m))) (\<lambda>p.
                  return_io (if p = Inr True then found @ [map_file_id m] else found))
       | _ \<Rightarrow> return_io found)"

definition pending_files :: "('e deck_env_scheme) \<Rightarrow> (disk, string list) io" where
  "pending_files env =
     bind_io dir_entries (\<lambda>es. for_io (note_pending env) (filter (\<lambda>e. ends_with (fst e) MAP_SUFFIX) es) [])"

end
