(* ===== verification/PracticeListing.thy ===== *)
theory PracticeListing
  imports PracticeInventory PracticePages
begin

text \<open>
  What the inventory promises (\<^verbatim>\<open>list_practice_decks_raw\<close>): it validates a deck with the reads a load
  uses, so on a directory nobody changes a deck that it lists without an anomaly can be loaded, and
  a deck that can be loaded is listed.
\<close>

subsection \<open>Reads of a directory nobody changes\<close>

abbreviation quiet :: "disk \<Rightarrow> bool" where
  "quiet d \<equiv> fault_at d = (\<lambda>_. NoFault)"

text \<open>A query changes nothing and answers from the leaves alone.\<close>

definition query :: "(disk, 'a) io \<Rightarrow> bool" where
  "query m \<longleftrightarrow> reads_only m \<and> (\<forall>d d'. quiet d \<longrightarrow> quiet d' \<longrightarrow> leaves d = leaves d' \<longrightarrow> fst (m d) = fst (m d'))"

named_theorems query_intros \<open>composition of queries\<close>

lemma query_pure [query_intros]: "query (return_io x)" "query (throw_io e)" "query (of_result r)"
  by (simp_all add: query_def reads.pure)

lemma query_bind [query_intros]:
  assumes "query m" "\<And>x. query (f x)"
  shows "query (bind_io m f)"
  unfolding query_def
proof (intro conjI allI impI)
  show "reads_only (bind_io m f)" using assms by (auto simp: query_def intro: reads.bind)
  fix d d' :: disk
  assume q: "quiet d" "quiet d'" "leaves d = leaves d'"
  obtain r d1 where m: "m d = (r, d1)" by force
  obtain r' d1' where m': "m d' = (r', d1')" by force
  have "r' = r" using assms(1) q m m' by (metis query_def fst_conv)
  moreover have "same_leaves d d1" "same_leaves d' d1'"
    using assms(1) m m' unfolding query_def frame_def by (metis snd_conv)+
  hence "quiet d1" "quiet d1'" "leaves d1 = leaves d1'" using q by (auto simp: same_leaves_def)
  hence "fst (f x d1) = fst (f x d1')" for x using assms(2) [of x] unfolding query_def by blast
  ultimately show "fst (bind_io m f d) = fst (bind_io m f d')" using m m' by (cases r) (simp_all add: bind_io_def)
qed

lemma query_attempt [query_intros]: "query m \<Longrightarrow> query (attempt m)"
  using reads.attempt by (auto simp: query_def attempt_def split: prod.splits)

lemma query_map_err [query_intros]: "query m \<Longrightarrow> query (map_err f m)"
  unfolding map_err_def by (auto intro!: query_intros split: sum.splits)

lemma query_for [query_intros]: "(\<And>x a. query (f x a)) \<Longrightarrow> query (for_io f xs a)"
  by (induction xs arbitrary: a) (simp_all add: query_intros)

lemma query_faulty: "query (faulty (\<lambda>d. (f (leaves d), d)))"
  by (auto simp: query_def frame_def faulty_def next_fault_def same_leaves_def split: fault.splits)

lemma query_prims [query_intros]:
  "query dir_entries" "query (open_regular_relative leaf)" "query (file_len bs)" "query (read_bounded_bytes bs)"
  unfolding dir_entries_def open_regular_relative_def file_len_def read_bounded_bytes_def by (rule query_faulty)+

lemma query_read_json [query_intros]: "query (read_json dec leaf mx what)"
  unfolding read_json_def read_leaf_bytes_def by (auto intro!: query_intros split: option.splits sum.splits)

lemma query_validated [query_intros]: "query (read_validated_deck env hash)"
proof -
  have entry: "query (read_shard_entry env hash generation e acc)" for generation e acc
    unfolding read_shard_entry_def by (auto intro!: query_intros split: option.splits owned_leaf.splits)
  have "query (read_shards env hash generation)" for generation
    unfolding read_shards_def by (intro query_intros entry)
  moreover have "query (read_state env hash)" "query (read_positions env hash)" "query (all_shard_leaves hash)"
    unfolding read_state_def read_positions_def all_shard_leaves_def Let_def by (auto intro!: query_intros split: option.splits)
  ultimately show ?thesis
    unfolding read_validated_deck_def Let_def by (auto intro!: query_intros split: sum.splits option.splits)
qed

lemma query_run:
  assumes "query m" "quiet d" "m d = (r, d')"
  shows "quiet d' \<and> leaves d' = leaves d"
proof -
  have "same_leaves d (snd (m d))" using assms(1) unfolding query_def frame_def by blast
  thus ?thesis using assms(2,3) by (simp add: same_leaves_def)
qed

text \<open>The validation of a deck never fails as an action: its failures are values.\<close>

lemma bind_attempt_total: "(\<And>r d'. \<exists>x. fst (f r d') = Inr x) \<Longrightarrow> \<exists>x. fst (bind_io (attempt m) f d) = Inr x"
  by (cases "m d") (simp add: bind_io_def attempt_def)

lemma validated_total: "\<exists>v. fst (read_validated_deck env hash d) = Inr v"
  unfolding read_validated_deck_def Let_def
  by (intro bind_attempt_total) (auto intro!: bind_attempt_total split: sum.splits option.splits)

text \<open>The verdict on a deck, as long as nobody changes the directory.\<close>

definition verdict :: "('e deck_env_scheme) \<Rightarrow> disk \<Rightarrow> string \<Rightarrow> deck_validation_failure + validated_deck" where
  "verdict env d hash = projr (fst (read_validated_deck env hash d))"

lemma validated_verdict:
  assumes "quiet d" "quiet d'" "leaves d' = leaves d"
  shows "fst (read_validated_deck env hash d') = Inr (verdict env d hash)"
proof -
  have "fst (read_validated_deck env hash d') = fst (read_validated_deck env hash d)"
    using query_validated assms unfolding query_def by blast
  thus ?thesis using validated_total [of env hash d] by (auto simp: verdict_def)
qed

text \<open>What one deck adds to the inventory.\<close>

definition listed :: "string \<Rightarrow> deck_validation_failure + validated_deck \<Rightarrow> (string \<times> practice_deck_identity) list" where
  "listed hash v = (case v of
       Inr loaded \<Rightarrow> (case deck_identity loaded of None \<Rightarrow> [] | Some i \<Rightarrow> [(hash, i)])
     | Inl f \<Rightarrow> (case failure_identity f of None \<Rightarrow> [] | Some i \<Rightarrow> [(hash, i)]))"

definition complaints :: "string \<Rightarrow> deck_validation_failure + validated_deck \<Rightarrow> practice_store_anomaly list" where
  "complaints hash v = (case v of
       Inr loaded \<Rightarrow> (case deck_identity loaded of None \<Rightarrow> [] | Some i \<Rightarrow> deck_anomalies hash loaded i)
     | Inl f \<Rightarrow> (case failure_identity f of
           None \<Rightarrow> [anomaly UnreadableLeaf (positions_leaf hash) None]
         | Some i \<Rightarrow> [anomaly (validation_failure_kind f) (positions_leaf hash) (Some i)]))"

lemma inspect_decks_result:
  assumes "for_io (inspect_deck env) hs fd d = (Inr fd', d')" "quiet d" "quiet d0" "leaves d = leaves d0"
  shows "found_decks fd' = found_decks fd @ concat (map (\<lambda>h. listed h (verdict env d0 h)) hs)
     \<and> found_anomalies fd' = found_anomalies fd @ concat (map (\<lambda>h. complaints h (verdict env d0 h)) hs)
     \<and> quiet d' \<and> leaves d' = leaves d0"
  using assms(1,2,4)
proof (induction hs arbitrary: fd d)
  case (Cons h hs)
  obtain fd1 d1 where one: "inspect_deck env h fd d = (Inr fd1, d1)" and rest: "for_io (inspect_deck env) hs fd1 d1 = (Inr fd', d')"
    using Cons.prems(1) by (auto simp: bind_io_eq_Inr)
  obtain r where v: "read_validated_deck env h d = (Inr (verdict env d0 h), r)"
    using validated_verdict [OF assms(3) Cons.prems(2,3), of env h] by (cases "read_validated_deck env h d") auto
  have r: "quiet r" "leaves r = leaves d0" using query_run [OF query_validated Cons.prems(2) v] Cons.prems(3) by auto
  have "found_decks fd1 = found_decks fd @ listed h (verdict env d0 h)
      \<and> found_anomalies fd1 = found_anomalies fd @ complaints h (verdict env d0 h) \<and> d1 = r"
    using one unfolding inspect_deck_def bind_io_Inr [where m = "read_validated_deck env h", OF v]
    by (auto simp: listed_def complaints_def split: sum.split_asm option.split_asm)
  thus ?case using Cons.IH [OF rest] r by simp
qed (use assms in auto)

subsection \<open>Whose decks they are\<close>

lemma check_identity_Inr: "check_identity env leaf version file_id number = Inr h \<Longrightarrow>
    h = hash_deck env file_id number \<and> map_option owned_hash (parse_owned_leaf leaf) = Some h"
  by (auto simp: check_identity_def Let_def split: if_splits)

lemma check_positions_identity:
  assumes "check_positions env hash leaf p = Inr ()"
  shows "hash_deck env (pos_file_id p) (pos_game p) = hash"
proof -
  obtain h where "check_identity env leaf (pos_version p) (pos_file_id p) (pos_game p) = Inr h" "h = hash"
    using assms unfolding check_positions_def then_result_eq_Inr by (metis Inl_Inr_False)
  thus ?thesis using check_identity_Inr by blast
qed

lemma read_positions_identity:
  "read_positions env hash d = (Inr (Some p), d') \<Longrightarrow> hash_deck env (pos_file_id p) (pos_game p) = hash"
  by (auto simp: read_positions_def Let_def bind_io_eq_Inr dest!: check_positions_identity split: option.split_asm)

lemma read_state_identity:
  assumes "valid_hash hash" "read_state env hash d = (Inr (Some s), d')"
  shows "hash_deck env (state_file_id s) (state_game s) = hash"
proof -
  obtain h where "check_identity env (state_leaf hash) (state_version s) (state_file_id s) (state_game s) = Inr h"
    using assms(2) by (auto simp: read_state_def Let_def bind_io_eq_Inr split: option.split_asm if_split_asm)
  from check_identity_Inr [OF this] show ?thesis using parse_owned_leaf_names(2) [OF assms(1)] by simp
qed

lemma validated_identity:
  assumes "read_validated_deck env hash d = (Inr v, d')" "(h, i) \<in> set (listed hash v)"
  shows "h = hash \<and> ((\<exists>d1 p d2. read_positions env hash d1 = (Inr (Some p), d2) \<and> i = positions_identity p)
     \<or> (\<exists>d1 s. read_state env hash d = (Inr (Some s), d1) \<and> i = state_identity s))"
proof -
  obtain sr d1 where sr: "read_state env hash d = (sr, d1)" by force
  obtain pr d2 where pr: "read_positions env hash d1 = (pr, d2)" by force
  note run = assms(1) [unfolded read_validated_deck_def bind_attempt [where m = "read_state env hash", OF sr]
      bind_attempt [where m = "read_positions env hash", OF pr]]
  have h: "h = hash" using assms(2) by (auto simp: listed_def split: sum.split_asm option.split_asm)
  show ?thesis
  proof (cases sr)
    case (Inl e)
    then obtain p where "pr = Inr (Some p)" "i = positions_identity p" using run assms(2)
      by (auto simp: listed_def validation_failure_def split: sum.split_asm option.split_asm)
    thus ?thesis using pr h by blast
  next
    case (Inr state)
    note state = Inr
    show ?thesis
    proof (cases pr)
      case (Inl e)
      thus ?thesis using run sr state h assms(2) by (auto simp: Let_def listed_def validation_failure_def split: option.split_asm)
    next
      case (Inr found)
      show ?thesis
      proof (cases found)
        case (Some p)
        obtain r d3 where r: "read_shards env hash (pos_generation p) d2 = (r, d3)" by force
        have "i = positions_identity p"
          using run assms(2) unfolding state Inr Some Let_def sum.case option.case
            bind_attempt [where m = "read_shards env hash (pos_generation p)", OF r]
          by (cases r) (auto simp: listed_def validation_failure_def deck_identity_def split: sum.split_asm)
        thus ?thesis using pr Inr Some h by blast
      next
        case None
        obtain r d3 where r: "all_shard_leaves hash d2 = (r, d3)" by force
        show ?thesis
          using run assms(2) sr h unfolding state Inr None Let_def sum.case option.case
            bind_attempt [where m = "all_shard_leaves hash", OF r]
          by (cases r) (auto simp: listed_def validation_failure_def deck_identity_def split: option.split_asm)
      qed
    qed
  qed
qed

lemma verdict_identity:
  assumes "valid_hash hash" "(h, i) \<in> set (listed hash (verdict env d hash))"
  shows "h = hash \<and> hash_deck env (identity_file_id i) (identity_game i) = hash"
proof -
  obtain d' where "read_validated_deck env hash d = (Inr (verdict env d hash), d')"
    using validated_total [of env hash d] by (cases "read_validated_deck env hash d") (auto simp: verdict_def)
  from validated_identity [OF this assms(2)] show ?thesis
    using read_positions_identity [of env hash] read_state_identity [OF assms(1), of env d]
    by (auto simp: positions_identity_def state_identity_def)
qed

subsection \<open>Listing and loading\<close>

text \<open>A load is decided by the verdict.\<close>

lemma load_verdict:
  assumes "verdict env d hash = Inr v" "quiet d" "quiet d'" "leaves d' = leaves d"
  shows "fst (load_valid_deck env hash d') =
    (case deck_positions v of
       None \<Rightarrow> if map_option phase (deck_state v) = Some ResetPhase then Inr None
               else if deck_state v \<noteq> None \<or> deck_shard_leaves v \<noteq> []
               then Inl (invalid_leaf (positions_leaf hash) ''positions document is missing'') else Inr None
     | Some p \<Rightarrow> (case deck_reconciliation v of
           None \<Rightarrow> Inl (invalid_leaf (positions_leaf hash) ''practice reconciliation is missing'')
         | Some rc \<Rightarrow> Inr (Some (p, deck_shards v, rc))))"
proof -
  obtain t where "read_validated_deck env hash d' = (Inr (Inr v), t)"
    using validated_verdict [OF assms(2-4), of env hash] assms(1) by (cases "read_validated_deck env hash d'") auto
  hence v: "validated_or_error env hash d' = (Inr v, t)" by (simp add: validated_or_error_Inr)
  show ?thesis
    unfolding load_valid_deck_def bind_io_Inr [where m = "validated_or_error env hash", OF v]
    by (cases "deck_positions v"; cases "deck_reconciliation v") simp_all
qed

lemma scan_entry_candidates:
  "set (candidate_hashes (scan_entry e sc)) = set (candidate_hashes sc)
     \<union> {h. \<exists>w. parse_owned_leaf (fst e) = Some w \<and> (\<forall>x. w \<noteq> LockLeaf x) \<and> h = owned_hash w}"
  by (auto simp: scan_entry_def Let_def split: option.splits owned_leaf.splits)

lemma scan_candidates:
  "set (candidate_hashes (scan_entries es)) = {h. \<exists>e \<in> set es. \<exists>w. parse_owned_leaf (fst e) = Some w \<and> (\<forall>x. w \<noteq> LockLeaf x) \<and> h = owned_hash w}"
proof -
  have "set (candidate_hashes (fold scan_entry es sc)) = set (candidate_hashes sc)
      \<union> {h. \<exists>e \<in> set es. \<exists>w. parse_owned_leaf (fst e) = Some w \<and> (\<forall>x. w \<noteq> LockLeaf x) \<and> h = owned_hash w}" for sc
    by (induction es arbitrary: sc) (auto simp: scan_entry_candidates)
  thus ?thesis by (simp add: scan_entries_def)
qed

lemma inspect_shards_more:
  "for_io (inspect_shard env healthy ps) ss ys d = (Inr ys', d') \<Longrightarrow> set ys \<subseteq> set ys'"
  by (induction ss arbitrary: ys d)
    (fastforce simp: bind_io_eq_Inr inspect_shard_def attempt_eq split: prod.split_asm if_split_asm)+

lemma query_listing: "query (list_practice_decks_raw env)"
proof -
  have "query (inspect_deck env h fd)" for h fd
    unfolding inspect_deck_def by (auto intro!: query_intros split: sum.splits option.splits)
  moreover have "query (inspect_shard env a b c e)" for a b c e
    unfolding inspect_shard_def by (auto intro!: query_intros split: prod.splits)
  ultimately show ?thesis unfolding list_practice_decks_raw_def Let_def by (intro query_intros)
qed

text \<open>The inventory in terms of the verdicts.\<close>

lemma inventory_verdicts:
  assumes "quiet d" "list_practice_decks_raw env d = (Inr iv, d')"
  shows "set (inventory_decks iv) = (\<Union>h \<in> set (candidate_hashes (scan_entries (leaves d))). snd ` set (listed h (verdict env d h)))"
    "h \<in> set (candidate_hashes (scan_entries (leaves d))) \<Longrightarrow> set (complaints h (verdict env d h)) \<subseteq> set (inventory_anomalies iv)"
proof -
  obtain d1 fd d2 ys where es: "dir_entries d = (Inr (leaves d), d1)"
    and fd: "for_io (inspect_deck env) (sort (candidate_hashes (scan_entries (leaves d))))
        \<lparr>found_decks = [], healthy_positions = [], found_anomalies = scan_anomalies (scan_entries (leaves d))\<rparr> d1 = (Inr fd, d2)"
    and ys: "for_io (inspect_shard env (healthy_positions fd) (position_leaf_hashes (scan_entries (leaves d))))
        (shard_candidates (scan_entries (leaves d))) (found_anomalies fd) d2 = (Inr ys, d')"
    and iv: "iv = \<lparr>inventory_decks = map snd (found_decks fd), inventory_anomalies = ys\<rparr>"
    using assms by (auto simp: list_practice_decks_raw_def bind_io_eq_Inr Let_def dir_entries_def faulty_def next_fault_def)
  have d1: "quiet d1" "leaves d1 = leaves d" using query_run [OF query_prims(1) assms(1) es] by auto
  note found = inspect_decks_result [OF fd d1(1) assms(1) d1(2)]
  show "set (inventory_decks iv) = (\<Union>h \<in> set (candidate_hashes (scan_entries (leaves d))). snd ` set (listed h (verdict env d h)))"
    using found iv by auto
  show "h \<in> set (candidate_hashes (scan_entries (leaves d))) \<Longrightarrow> set (complaints h (verdict env d h)) \<subseteq> set (inventory_anomalies iv)"
    using found iv inspect_shards_more [OF ys] by auto
qed

lemma clean_verdict_loads:
  assumes "(h, i) \<in> set (listed h (verdict env d h))" "\<forall>a \<in> set (complaints h (verdict env d h)). anomaly_leaf a \<noteq> positions_leaf h"
    "quiet d" "quiet d'" "leaves d' = leaves d"
  shows "\<exists>r. fst (load_valid_deck env h d') = Inr r"
proof -
  obtain v where v: "verdict env d h = Inr v"
    using assms(2) by (cases "verdict env d h") (auto simp: complaints_def anomaly_def split: option.splits)
  have i: "deck_identity v = Some i" using assms(1) by (auto simp: v listed_def split: option.split_asm)
  have clean: "\<forall>a \<in> set (deck_anomalies h v i). anomaly_leaf a \<noteq> positions_leaf h" using assms(2) i by (simp add: v complaints_def)
  note load = load_verdict [OF v assms(3-5)]
  show ?thesis
  proof (cases "deck_positions v")
    case None
    then obtain s where s: "deck_state v = Some s" using i by (auto simp: deck_identity_def)
    have "phase s = ResetPhase"
    proof (rule ccontr)
      assume "phase s \<noteq> ResetPhase"
      hence "anomaly DamagedDeck (positions_leaf h) (Some i) \<in> set (deck_anomalies h v i)" using None s by (simp add: deck_anomalies_def)
      thus False using clean by (auto simp: anomaly_def)
    qed
    thus ?thesis using load None s by simp
  next
    case (Some p)
    obtain t where "read_validated_deck env h d = (Inr (Inr v), t)"
      using validated_verdict [OF assms(3,3) HOL.refl, of env h] v by (cases "read_validated_deck env h d") auto
    then obtain rc where "deck_reconciliation v = Some rc" using validated_deck_Some Some by blast
    thus ?thesis using load Some by simp
  qed
qed

lemma loaded_is_listed:
  assumes "fst (load_valid_deck env h d) = Inr (Some (p, ss, rc))" "quiet d" "valid_hash h"
  shows "h \<in> set (candidate_hashes (scan_entries (leaves d))) \<and> (h, positions_identity p) \<in> set (listed h (verdict env d h))"
proof -
  obtain t where run: "load_valid_deck env h d = (Inr (Some (p, ss, rc)), t)" using assms(1) by (cases "load_valid_deck env h d") auto
  obtain state d1 d2 where s: "read_state env h d = (Inr state, d1)" and p: "read_positions env h d1 = (Inr (Some p), d2)"
    using load_valid_deck_Some [OF run] by blast
  have "leaves d1 = leaves d" using s reads_only_read_positions(2) [of env h] by (metis frame_def same_leaves_def snd_conv)
  then obtain bs where "map_of (leaves d) (positions_leaf h) = Some (RegularFile bs)"
    using read_positions_Some [OF p] by (auto simp: positions_at_def split: option.split_asm dir_entry.split_asm)
  hence "\<exists>e \<in> set (leaves d). fst e = positions_leaf h" by (force dest: map_of_SomeD)
  hence "h \<in> set (candidate_hashes (scan_entries (leaves d)))"
    using parse_owned_leaf_names(1) [OF assms(3)] by (force simp: scan_candidates)
  moreover have "(h, positions_identity p) \<in> set (listed h (verdict env d h))"
  proof (cases "verdict env d h")
    case (Inl f)
    have "fst (validated_or_error env h d) = Inl (failure_error f)"
      using validated_verdict [OF assms(2,2) HOL.refl, of env h] Inl by (cases "read_validated_deck env h d") (auto simp: validated_or_error_def bind_io_def)
    thus ?thesis using run by (cases "validated_or_error env h d") (auto simp: load_valid_deck_def bind_io_def)
  next
    case (Inr v)
    thus ?thesis using load_verdict [OF Inr assms(2,2) HOL.refl] assms(1)
      by (auto simp: listed_def deck_identity_def split: option.splits if_splits)
  qed
  ultimately show ?thesis by blast
qed

text \<open>C22. In a directory that nobody changes and whose reads do not fail, the inventory and the loads agree:
  a deck that it lists and whose positions leaf it does not complain about can be loaded, and a deck
  with a positions document that can be loaded is listed.\<close>

theorem inventory_agrees_with_loads:
  assumes "quiet d" "deck_env_ok env" "list_practice_decks_raw env d = (Inr iv, d')"
  shows "(i \<in> set (inventory_decks iv)
       \<and> (\<forall>a \<in> set (inventory_anomalies iv). anomaly_leaf a \<noteq> positions_leaf (hash_deck env (identity_file_id i) (identity_game i)))
       \<longrightarrow> (\<exists>r. fst (load_valid_deck env (hash_deck env (identity_file_id i) (identity_game i)) d') = Inr r))
    \<and> (fst (load_valid_deck env (hash_deck env file_id number) d') = Inr (Some (p, ss, rc))
       \<longrightarrow> positions_identity p \<in> set (inventory_decks iv))"
proof (intro conjI impI)
  have same_disk: "quiet d'" "leaves d' = leaves d" using query_run [OF query_listing assms(1,3)] by auto
  note iv = inventory_verdicts [OF assms(1,3)]
  assume i: "i \<in> set (inventory_decks iv)
    \<and> (\<forall>a \<in> set (inventory_anomalies iv). anomaly_leaf a \<noteq> positions_leaf (hash_deck env (identity_file_id i) (identity_game i)))"
  then obtain h h' where h: "h \<in> set (candidate_hashes (scan_entries (leaves d)))" "(h', i) \<in> set (listed h (verdict env d h))"
    unfolding iv(1) by auto
  have "valid_hash h" using h(1) parse_owned_valid by (auto simp: scan_candidates)
  hence same: "h' = h" "hash_deck env (identity_file_id i) (identity_game i) = h" using verdict_identity [OF _ h(2)] by auto
  show "\<exists>r. fst (load_valid_deck env (hash_deck env (identity_file_id i) (identity_game i)) d') = Inr r"
    unfolding same(2) by (rule clean_verdict_loads [OF h(2) [unfolded same(1)] _ assms(1) same_disk]) (use i iv(2) [OF h(1)] same(2) in auto)
next
  have same_disk: "quiet d'" "leaves d' = leaves d" using query_run [OF query_listing assms(1,3)] by auto
  assume load: "fst (load_valid_deck env (hash_deck env file_id number) d') = Inr (Some (p, ss, rc))"
  have "verdict env d' h = verdict env d h" for h
    using validated_verdict [OF assms(1) same_disk, of env h] by (simp add: verdict_def)
  thus "positions_identity p \<in> set (inventory_decks iv)"
    using loaded_is_listed [OF load same_disk(1) deck_hash_valid [OF assms(2)]] inventory_verdicts(1) [OF assms(1,3)] same_disk(2) by force
qed

definition reviewed_inventory :: practice_deck_inventory where
  "reviewed_inventory = \<lparr>inventory_decks = [\<lparr>identity_file_id = ''f'', identity_game = 0\<rparr>], inventory_anomalies = []\<rparr>"

lemma reviewed_listing: "fst (list_practice_decks_raw review_env reviewed_disk) = Inr reviewed_inventory"
  by code_simp

theorem inventory_agrees_with_loads_witness:
  "\<exists>d'. list_practice_decks_raw review_env reviewed_disk = (Inr reviewed_inventory, d')
     \<and> (\<exists>r. fst (load_valid_deck review_env (hash_deck review_env ''f'' 0) d') = Inr r)"
proof -
  let ?d = "snd (list_practice_decks_raw review_env reviewed_disk)" and ?i = "\<lparr>identity_file_id = ''f'', identity_game = 0\<rparr>"
  have env: "deck_env_ok review_env" by (simp add: review_env_def sample_env_ok)
  have quiet: "quiet reviewed_disk" by (simp add: reviewed_disk_def)
  have run: "list_practice_decks_raw review_env reviewed_disk = (Inr reviewed_inventory, ?d)"
    using reviewed_listing by (intro prod_eqI) (simp_all only: fst_conv snd_conv)
  have "\<exists>r. fst (load_valid_deck review_env (hash_deck review_env ''f'' 0) ?d) = Inr r"
    using inventory_agrees_with_loads [OF quiet env run, of ?i] by (simp add: reviewed_inventory_def)
  thus ?thesis using run by blast
qed

end
