(* ===== verification/OperationTypes.thy ===== *)
theory OperationTypes
  imports Progress
begin

text \<open>
  The data of the registry of native operations, \<^verbatim>\<open>infra/operations.rs\<close>, of the mailbox of
  engine completions, \<^verbatim>\<open>infra/operations/completions.rs\<close>, and of account imports,
  \<^verbatim>\<open>infra/operations/accounts.rs\<close>, with the validation of the two requests.

  A hash map is an association list: its order is arbitrary, and every theorem holds for each
  order. The registry mutex is held for a whole operation, so operations are atomic; poisoning
  after a panic is left out. A \<^verbatim>\<open>CancellationToken\<close> is an address in a table of flags, because the
  entry and the lease share it; a oneshot channel behind a \<^verbatim>\<open>Shared\<close> future is an address in a
  table of channel states. \<^verbatim>\<open>Uuid::new_v4()\<close> and \<^verbatim>\<open>Instant::now()\<close> are arguments of the
  operations, one for each call. The options of an engine's configuration are of a type of the
  \<^verbatim>\<open>vampirc_uci\<close> crate and remain a type variable.
\<close>

subsection \<open>Reservations, accepted operations and leases\<close>

definition READ_RESERVATION_TTL :: nat where "READ_RESERVATION_TTL = 60 * 10 ^ 9"
definition MAX_NATIVE_READS :: nat where "MAX_NATIVE_READS = 128"
definition MAX_ACCEPTED_OPERATIONS :: nat where "MAX_ACCEPTED_OPERATIONS = 128"

type_synonym cancellation = nat
type_synonym channel_id = nat

datatype read_entry_state = Reserved nat | CancelledReserved nat | Active cancellation string

datatype reservation_kind = ReadKind | AnalysisKind string | DownloadKind | ConversionKind

datatype cancelled_operation_kind = ReadCancelled | AnalysisCancelledKind | DownloadCancelled | ConversionCancelled

record cancelled_operation =
  cancelled_id :: string
  cancelled_kind :: cancelled_operation_kind

record read_entry =
  read_owner :: string
  read_kind :: reservation_kind
  entry_state :: read_entry_state

record accepted_entry =
  accepted_owner :: string
  accepted_label :: string
  accepted_token :: cancellation
  accepted_kind :: "reservation_kind option"
  accepted_progress :: "string option"
  admission_key :: "string option"
  committing :: bool

datatype lease_kind = LeaseRead | LeaseAccepted | LeaseAnalysis

record operation_lease =
  op_id :: string
  op_token :: cancellation
  op_kind :: lease_kind

definition is_download :: "accepted_entry \<Rightarrow> bool" where
  "is_download e \<longleftrightarrow> accepted_kind e = Some DownloadKind"

fun lease_kind_of :: "reservation_kind \<Rightarrow> lease_kind" where
  "lease_kind_of ReadKind = LeaseRead"
| "lease_kind_of (AnalysisKind _) = LeaseAnalysis"
| "lease_kind_of DownloadKind = LeaseAccepted"
| "lease_kind_of ConversionKind = LeaseAccepted"

fun capacity_error :: "reservation_kind \<Rightarrow> string" where
  "capacity_error ReadKind = ''too many native read operations''"
| "capacity_error (AnalysisKind _) = ''too many prepared analysis operations''"
| "capacity_error DownloadKind = ''too many download reservations''"
| "capacity_error ConversionKind = ''too many conversion reservations''"

fun unknown_error :: "reservation_kind \<Rightarrow> string" where
  "unknown_error ReadKind = ''native read reservation is unknown or expired''"
| "unknown_error (AnalysisKind _) = ''analysis reservation is unknown or expired''"
| "unknown_error DownloadKind = ''download reservation is unknown or expired''"
| "unknown_error ConversionKind = ''conversion reservation is unknown or expired''"

fun owner_error :: "reservation_kind \<Rightarrow> string" where
  "owner_error ReadKind = ''native read reservation belongs to another webview''"
| "owner_error (AnalysisKind _) = ''analysis reservation belongs to another webview or tab''"
| "owner_error DownloadKind = ''download reservation belongs to another webview''"
| "owner_error ConversionKind = ''conversion reservation belongs to another webview''"

fun wrong_kind_error :: "reservation_kind \<Rightarrow> bool \<Rightarrow> string" where
  "wrong_kind_error ConversionKind False = ''reservation cannot be claimed as a conversion''"
| "wrong_kind_error ConversionKind True = ''reservation cannot be cancelled as a conversion''"
| "wrong_kind_error ReadKind False = ''analysis reservation cannot be claimed as a native read''"
| "wrong_kind_error ReadKind True = ''analysis reservation cannot be cancelled as a native read''"
| "wrong_kind_error (AnalysisKind _) False = ''native read reservation cannot be claimed as an analysis''"
| "wrong_kind_error (AnalysisKind _) True = ''native read reservation cannot be cancelled as an analysis''"
| "wrong_kind_error DownloadKind False = ''native read or analysis reservation cannot be claimed as a download''"
| "wrong_kind_error DownloadKind True = ''native read or analysis reservation cannot be cancelled as a download''"

fun claimed_error :: "reservation_kind \<Rightarrow> string" where
  "claimed_error ReadKind = ''native read reservation was already claimed''"
| "claimed_error (AnalysisKind _) = ''analysis reservation was already claimed''"
| "claimed_error DownloadKind = ''download reservation was already claimed''"
| "claimed_error ConversionKind = ''conversion reservation was already claimed''"

subsection \<open>Engine completions\<close>

text \<open>A handle is the id of its \<^verbatim>\<open>PathRef\<close>; its kind has one value. An \<^verbatim>\<open>f64\<close> is a rational or not finite.\<close>

type_synonym path_ref = string

datatype f64 = FiniteF64 rat | NotFiniteF64

datatype engine_install_intent = AddEngine string | UpgradeEngine string path_ref

fun intent_engine_id :: "engine_install_intent \<Rightarrow> string" where
  "intent_engine_id (AddEngine engine) = engine"
| "intent_engine_id (UpgradeEngine engine _) = engine"

definition is_upgrade :: "engine_install_intent \<Rightarrow> bool" where
  "is_upgrade i = (case i of UpgradeEngine _ _ \<Rightarrow> True | AddEngine _ \<Rightarrow> False)"

record engine_install_request =
  intent :: engine_install_intent
  engine_root :: path_ref
  request_progress_id :: string
  request_url :: string
  request_sha256 :: string
  request_signature :: string
  request_relative_path :: string
  request_name :: string
  request_version :: string
  request_elo :: "f64 option"
  request_download_size :: "f64 option"

definition MAX_COMPLETION_IDENTITY_BYTES :: nat where "MAX_COMPLETION_IDENTITY_BYTES = 256"
definition MAX_COMPLETION_TEXT_BYTES :: nat where "MAX_COMPLETION_TEXT_BYTES = 4096"
definition MAX_COMPLETION_NAME_BYTES :: nat where "MAX_COMPLETION_NAME_BYTES = 1024"

text \<open>\<^term>\<open>uuid\<close> answers whether \<^verbatim>\<open>Uuid::parse_str\<close> accepts a text.\<close>

definition engine_request_invalid :: "(string \<Rightarrow> bool) \<Rightarrow> string \<Rightarrow> engine_install_request \<Rightarrow> bool" where
  "engine_request_invalid uuid key r \<longleftrightarrow>
     \<not> uuid key
     \<or> (case intent r of AddEngine engine \<Rightarrow> \<not> uuid engine | UpgradeEngine _ _ \<Rightarrow> False)
     \<or> intent_engine_id (intent r) = []
     \<or> MAX_COMPLETION_IDENTITY_BYTES < length (intent_engine_id (intent r))
     \<or> request_progress_id r = []
     \<or> MAX_COMPLETION_TEXT_BYTES < length (request_progress_id r)
     \<or> MAX_COMPLETION_TEXT_BYTES < length (request_url r)
     \<or> MAX_COMPLETION_TEXT_BYTES < length (request_signature r)
     \<or> length (request_sha256 r) \<noteq> 64
     \<or> request_relative_path r = []
     \<or> MAX_COMPLETION_TEXT_BYTES < length (request_relative_path r)
     \<or> MAX_COMPLETION_NAME_BYTES < length (request_name r)
     \<or> MAX_COMPLETION_IDENTITY_BYTES < length (request_version r)
     \<or> MAX_COMPLETION_IDENTITY_BYTES < length (engine_root r)
     \<or> (case intent r of UpgradeEngine _ expected \<Rightarrow> MAX_COMPLETION_IDENTITY_BYTES < length expected
         | AddEngine _ \<Rightarrow> False)
     \<or> request_elo r = Some NotFiniteF64
     \<or> request_download_size r = Some NotFiniteF64"

definition validate_engine_request :: "(string \<Rightarrow> bool) \<Rightarrow> string \<Rightarrow> engine_install_request \<Rightarrow> unit result" where
  "validate_engine_request uuid key r =
     (if engine_request_invalid uuid key r
      then Inl (InvalidInput ''invalid engine completion request'') else Inr ())"

record 'o engine_config =
  config_name :: string
  config_options :: "'o list"

record 'o installed_engine_result =
  installed_handle :: path_ref
  installed_config :: "'o engine_config"
  installed_filename :: string

datatype 'a completion_outcome = CompletionRunning | CompletionSucceeded 'a | CompletionFailed error_payload

record 'o engine_completion =
  completion_id :: string
  completion_request :: engine_install_request
  outcome :: "'o installed_engine_result completion_outcome"
  retired :: bool

text \<open>
  A shared future: ready at once, or fed by a channel. Its sender may send or be dropped; \<^verbatim>\<open>peek\<close>
  answers only after somebody has polled the future to its end.
\<close>

datatype completion_application = ReadyOk | FromChannel channel_id

datatype 'a channel = Waiting | Sent 'a | SenderDropped | Observed 'a

record 'o engine_completion_entry =
  entry_owner :: string
  operation_id :: string
  snapshot :: "'o engine_completion"
  entry_progress :: "progress_lease option"
  retirement :: nat
  retirement_job :: "completion_application option"
  acknowledgement_job :: "completion_application option"

datatype engine_application_step = Retirement | Acknowledgement

subsection \<open>Account completions\<close>

datatype account_import_target = Linked string | Unlinked path_ref string

datatype commit_durability = Durable | DurabilityUncertain durability_stage

record artifact_publication =
  publication_handle :: path_ref
  publication_durability :: commit_durability

record coverage_hold =
  hold_id :: string
  hold_created_at_ms :: int
  hold_ongoing :: bool

record account_import_request =
  provider :: string
  account :: string
  account_handle :: "string option"
  destination :: path_ref
  pending_batch :: "path_ref option"
  since_ms :: "int option"
  target :: account_import_target

definition MAX_ACCOUNT_NAME_BYTES :: nat where "MAX_ACCOUNT_NAME_BYTES = 64"
definition MAX_ACCOUNT_ID_BYTES :: nat where "MAX_ACCOUNT_ID_BYTES = 256"
definition MAX_ACCOUNT_TITLE_BYTES :: nat where "MAX_ACCOUNT_TITLE_BYTES = 4096"

definition is_ascii_alphanumeric :: "char \<Rightarrow> bool" where
  "is_ascii_alphanumeric c \<longleftrightarrow>
     is_ascii_digit c \<or> (let n = (of_char c :: nat) in (65 \<le> n \<and> n \<le> 90) \<or> (97 \<le> n \<and> n \<le> 122))"

definition account_request_invalid :: "(string \<Rightarrow> bool) \<Rightarrow> account_import_request \<Rightarrow> bool" where
  "account_request_invalid uuid r \<longleftrightarrow>
     \<not> (provider r = ''lichess'' \<or> provider r = ''chesscom'')
     \<or> account r = []
     \<or> MAX_ACCOUNT_NAME_BYTES < length (account r)
     \<or> \<not> list_all (\<lambda>b. is_ascii_alphanumeric b \<or> b = CHR ''_'' \<or> b = CHR ''-'') (account r)
     \<or> MAX_ACCOUNT_ID_BYTES < length (destination r)
     \<or> (case account_handle r of Some handle \<Rightarrow> MAX_ACCOUNT_ID_BYTES < length handle | None \<Rightarrow> False)
     \<or> (case target r of Linked collection \<Rightarrow> \<not> uuid collection | Unlinked _ _ \<Rightarrow> False)
     \<or> (case target r of
          Unlinked database title \<Rightarrow>
            MAX_ACCOUNT_ID_BYTES < length database \<or> MAX_ACCOUNT_TITLE_BYTES < length title
        | Linked _ \<Rightarrow> False)
     \<or> (case pending_batch r of Some handle \<Rightarrow> MAX_ACCOUNT_ID_BYTES < length handle | None \<Rightarrow> False)"

definition validate_account_request :: "(string \<Rightarrow> bool) \<Rightarrow> account_import_request \<Rightarrow> unit result" where
  "validate_account_request uuid r =
     (if account_request_invalid uuid r
      then Inl (InvalidInput ''invalid account completion request'') else Inr ())"

record account_import_result =
  collection_notice :: bool

record account_completion =
  account_id :: string
  account_request :: account_import_request
  progress_id :: string
  attempt_count :: u32
  account_outcome :: "account_import_result completion_outcome"
  publication :: "artifact_publication option"
  committed_database :: "path_ref option"
  deletion_pending :: bool
  importing :: bool
  coverage_holds :: "coverage_hold list option"
  coverage_floor_ms :: "int option"

record account_completion_entry =
  account_owner :: string
  account_snapshot :: account_completion
  account_attempt :: channel_id

definition to_ascii_lowercase :: "char \<Rightarrow> char" where
  "to_ascii_lowercase c =
     (let n = (of_char c :: nat) in if 65 \<le> n \<and> n \<le> 90 then char_of (n + 32) else c)"

definition eq_ignore_ascii_case :: "string \<Rightarrow> string \<Rightarrow> bool" where
  "eq_ignore_ascii_case a b \<longleftrightarrow> map to_ascii_lowercase a = map to_ascii_lowercase b"

subsection \<open>The registry and what its handles point to\<close>

record 'o registry_state =
  reads :: "(string \<times> read_entry) list"
  accepted :: "(string \<times> accepted_entry) list"
  completions :: "(string \<times> 'o engine_completion_entry) list"
  accounts :: "(string \<times> account_completion_entry) list"
  sealed :: bool

record 'o op_world = "'o registry_state" +
  cancelled :: "cancellation \<Rightarrow> bool"
  next_token :: cancellation
  applications :: "channel_id \<Rightarrow> unit result channel"
  next_application :: channel_id
  attempts :: "channel_id \<Rightarrow> account_completion result channel"
  next_attempt :: channel_id
  next_retirement :: nat

definition op_world_start :: "'o op_world" where
  "op_world_start =
     \<lparr>reads = [], accepted = [], completions = [], accounts = [], sealed = False,
      cancelled = (\<lambda>_. False), next_token = 0, applications = (\<lambda>_. Waiting), next_application = 0,
      attempts = (\<lambda>_. Waiting), next_attempt = 0, next_retirement = 0\<rparr>"

definition token_new :: "'o op_world \<Rightarrow> cancellation \<times> 'o op_world" where
  "token_new w =
     (next_token w, w\<lparr>cancelled := (cancelled w)(next_token w := False), next_token := Suc (next_token w)\<rparr>)"

definition token_cancel :: "cancellation \<Rightarrow> 'o op_world \<Rightarrow> 'o op_world" where
  "token_cancel t w = w\<lparr>cancelled := (cancelled w)(t := True)\<rparr>"

end
