(* ===== verification/Operations.thy ===== *)
theory Operations
  imports OperationTypes
begin

text \<open>
  The operations of the registry, in the order of \<^verbatim>\<open>infra/operations.rs\<close>: which requests of the
  windows are admitted, which run, how they are cancelled, and what is kept of their results. An
  operation answers a result and the state it leaves; an error leaves what was written before it
  (expired reservations stay purged).
\<close>

subsection \<open>Reservations\<close>

definition reservation_live :: "nat \<Rightarrow> read_entry \<Rightarrow> bool" where
  "reservation_live now e =
     (case entry_state e of
        Reserved created_at \<Rightarrow> now - created_at < READ_RESERVATION_TTL
      | CancelledReserved created_at \<Rightarrow> now - created_at < READ_RESERVATION_TTL
      | Active _ _ \<Rightarrow> True)"

definition purge_expired :: "nat \<Rightarrow> 'o op_world \<Rightarrow> 'o op_world" where
  "purge_expired now w = w\<lparr>reads := filter (\<lambda>(_, e). reservation_live now e) (reads w)\<rparr>"

abbreviation admission_sealed :: error where
  "admission_sealed \<equiv> Conflict ''native operation admission is sealed''"

definition prepare_reservation ::
  "string \<Rightarrow> nat \<Rightarrow> nat \<Rightarrow> string \<Rightarrow> reservation_kind \<Rightarrow> ('o op_world, string) io" where
  "prepare_reservation ticket now created owner kind w =
     (let w = purge_expired now w
      in if sealed w then (Inl admission_sealed, w)
         else if MAX_NATIVE_READS \<le> length (reads w) then (Inl (ResourceLimit (capacity_error kind)), w)
         else (Inr ticket,
               w\<lparr>reads := AList.update ticket
                   \<lparr>read_owner = owner, read_kind = kind, entry_state = Reserved created\<rparr> (reads w)\<rparr>))"

text \<open>The match on the kind of the claim, before the state of the entry is looked at.\<close>

definition claim_refused :: "reservation_kind \<Rightarrow> string \<Rightarrow> read_entry \<Rightarrow> string option" where
  "claim_refused kind owner e =
     (case kind of
        ReadKind \<Rightarrow>
          if read_owner e \<noteq> owner then Some (owner_error kind)
          else if read_kind e \<noteq> ReadKind then Some (wrong_kind_error kind False)
          else None
      | AnalysisKind tab \<Rightarrow>
          if read_owner e \<noteq> owner \<or> read_kind e \<noteq> AnalysisKind tab then Some (owner_error kind) else None
      | _ \<Rightarrow> None)"

definition is_reserved :: "read_entry_state \<Rightarrow> bool" where
  "is_reserved st = (case st of Reserved _ \<Rightarrow> True | _ \<Rightarrow> False)"

definition is_active :: "read_entry_state \<Rightarrow> bool" where
  "is_active st = (case st of Active _ _ \<Rightarrow> True | _ \<Rightarrow> False)"

definition claim_reservation ::
  "nat \<Rightarrow> string \<Rightarrow> string \<Rightarrow> reservation_kind \<Rightarrow> string \<Rightarrow> ('o op_world, operation_lease) io" where
  "claim_reservation now ticket owner kind label w =
     (let w = purge_expired now w
      in if sealed w then (Inl admission_sealed, w)
         else case map_of (reads w) ticket of
                None \<Rightarrow> (Inl (Conflict (unknown_error kind)), w)
              | Some e \<Rightarrow>
                  (case claim_refused kind owner e of
                     Some message \<Rightarrow> (Inl (Conflict message), w)
                   | None \<Rightarrow>
                       if \<not> is_reserved (entry_state e) then (Inl (Conflict (claimed_error kind)), w)
                       else (let (t, w) = token_new w
                             in (Inr \<lparr>op_id = ticket, op_token = t, op_kind = lease_kind_of kind\<rparr>,
                                 w\<lparr>reads := AList.update ticket (e\<lparr>entry_state := Active t label\<rparr>) (reads w)\<rparr>))))"

definition cancel_entry :: "string \<Rightarrow> 'o op_world \<Rightarrow> 'o op_world" where
  "cancel_entry ticket w =
     (case map_of (reads w) ticket of
        None \<Rightarrow> w
      | Some e \<Rightarrow>
          (case entry_state e of
             Active t _ \<Rightarrow> token_cancel t w
           | _ \<Rightarrow> w\<lparr>reads := AList.delete ticket (reads w)\<rparr>))"

definition is_analysis :: "reservation_kind \<Rightarrow> bool" where
  "is_analysis kind = (case kind of AnalysisKind _ \<Rightarrow> True | _ \<Rightarrow> False)"

definition cancel_reservation :: "nat \<Rightarrow> string \<Rightarrow> string \<Rightarrow> bool \<Rightarrow> ('o op_world, unit) io" where
  "cancel_reservation now ticket owner requested_analysis w =
     (let w = purge_expired now w
      in case map_of (reads w) ticket of
           None \<Rightarrow> (Inr (), w)
         | Some e \<Rightarrow>
             if read_owner e \<noteq> owner
             then (Inl (Conflict (if requested_analysis then ''analysis reservation belongs to another webview''
                                  else ''native read reservation belongs to another webview'')), w)
             else if requested_analysis
             then (if \<not> is_analysis (read_kind e)
                   then (Inl (Conflict (wrong_kind_error (AnalysisKind []) True)), w)
                   else (Inr (), cancel_entry ticket w))
             else (if read_kind e \<noteq> ReadKind
                   then (Inl (Conflict ''download reservation cannot be cancelled as a native read''), w)
                   else (Inr (), cancel_entry ticket w)))"

definition prepare_read :: "string \<Rightarrow> nat \<Rightarrow> nat \<Rightarrow> string \<Rightarrow> ('o op_world, string) io" where
  "prepare_read ticket now created owner = prepare_reservation ticket now created owner ReadKind"

definition claim_read :: "nat \<Rightarrow> string \<Rightarrow> string \<Rightarrow> string \<Rightarrow> ('o op_world, operation_lease) io" where
  "claim_read now ticket owner label = claim_reservation now ticket owner ReadKind label"

definition cancel_read :: "nat \<Rightarrow> string \<Rightarrow> string \<Rightarrow> ('o op_world, unit) io" where
  "cancel_read now ticket owner = cancel_reservation now ticket owner False"

definition prepare_analysis :: "string \<Rightarrow> nat \<Rightarrow> nat \<Rightarrow> string \<Rightarrow> string \<Rightarrow> ('o op_world, string) io" where
  "prepare_analysis ticket now created owner tab =
     prepare_reservation ticket now created owner (AnalysisKind tab)"

definition claim_analysis ::
  "nat \<Rightarrow> string \<Rightarrow> string \<Rightarrow> string \<Rightarrow> string \<Rightarrow> ('o op_world, operation_lease) io" where
  "claim_analysis now ticket owner tab label = claim_reservation now ticket owner (AnalysisKind tab) label"

definition cancel_analysis :: "nat \<Rightarrow> string \<Rightarrow> string \<Rightarrow> ('o op_world, unit) io" where
  "cancel_analysis now ticket owner = cancel_reservation now ticket owner True"

definition cancel_analyses_for_tab :: "string \<Rightarrow> string \<Rightarrow> ('o op_world, string list) io" where
  "cancel_analyses_for_tab owner tab w =
     (let tickets = map fst (filter (\<lambda>(_, e). read_owner e = owner \<and> read_kind e = AnalysisKind tab) (reads w))
      in (Inr tickets, fold cancel_entry tickets w))"

subsection \<open>Accepted operations\<close>

definition occupied :: "'o op_world \<Rightarrow> nat" where
  "occupied w =
     length (accepted w)
     + length (filter (\<lambda>(key, e). map_of (accepted w) key = None \<and> map_of (accepted w) (operation_id e) = None)
                 (completions w))"

definition accept_in_state :: "string \<Rightarrow> string \<Rightarrow> ('o op_world, operation_lease) io" where
  "accept_in_state key label w =
     (if sealed w then (Inl admission_sealed, w)
      else if MAX_ACCEPTED_OPERATIONS \<le> occupied w
      then (Inl (ResourceLimit ''too many accepted native operations''), w)
      else if map_of (accepted w) key \<noteq> None
      then (Inl (Conflict ''native operation is already active''), w)
      else (let (t, w) = token_new w
            in (Inr \<lparr>op_id = key, op_token = t, op_kind = LeaseAccepted\<rparr>,
                w\<lparr>accepted := AList.update key
                    \<lparr>accepted_owner = [], accepted_label = label, accepted_token = t,
                     accepted_kind = None, accepted_progress = None, admission_key = None,
                     committing = False\<rparr> (accepted w)\<rparr>)))"

definition accept :: "string \<Rightarrow> string \<Rightarrow> ('o op_world, operation_lease) io" where
  "accept key label = accept_in_state key label"

record download_policy =
  policy_progress :: string
  policy_key :: string
  policy_exclusive :: bool
  policy_cap :: nat

definition progress_taken :: "string \<Rightarrow> download_policy \<Rightarrow> 'o op_world \<Rightarrow> bool" where
  "progress_taken owner p w \<longleftrightarrow>
     list_ex (\<lambda>(_, e). is_download e \<and> (policy_exclusive p \<or> accepted_owner e = owner)
                        \<and> admission_key e = Some (policy_key p) \<and> \<not> cancelled w (accepted_token e))
       (accepted w)"

definition active_downloads :: "'o op_world \<Rightarrow> nat" where
  "active_downloads w = length (filter (\<lambda>(_, e). is_download e) (accepted w))"

text \<open>The checks of a claim after the reservation itself is found good.\<close>

definition admission_refused :: "string \<Rightarrow> string \<Rightarrow> download_policy option \<Rightarrow> 'o op_world \<Rightarrow> error option" where
  "admission_refused ticket owner policy w =
     (case (case policy of
              None \<Rightarrow> None
            | Some p \<Rightarrow>
                if progress_taken owner p w then Some (Conflict ''download progress is already active'')
                else if policy_cap p \<le> active_downloads w then Some (ResourceLimit ''too many active downloads'')
                else None) of
        Some e \<Rightarrow> Some e
      | None \<Rightarrow>
          if MAX_ACCEPTED_OPERATIONS \<le> occupied w
          then Some (ResourceLimit ''too many accepted native operations'')
          else if map_of (accepted w) ticket \<noteq> None
          then Some (Conflict ''native operation is already active'')
          else None)"

definition claim_prepared_in_state ::
  "nat \<Rightarrow> string \<Rightarrow> string \<Rightarrow> string \<Rightarrow> reservation_kind \<Rightarrow> download_policy option
   \<Rightarrow> ('o op_world, operation_lease) io" where
  "claim_prepared_in_state now ticket owner label kind policy w =
     (let w = purge_expired now w
      in if sealed w then (Inl admission_sealed, w)
         else case map_of (reads w) ticket of
                None \<Rightarrow> (Inl (Conflict (unknown_error kind)), w)
              | Some e \<Rightarrow>
                  if read_owner e \<noteq> owner then (Inl (Conflict (owner_error kind)), w)
                  else if read_kind e \<noteq> kind then (Inl (Conflict (wrong_kind_error kind False)), w)
                  else (case entry_state e of
                          CancelledReserved _ \<Rightarrow>
                            (Inl Cancellation, w\<lparr>reads := AList.delete ticket (reads w)\<rparr>)
                        | Active _ _ \<Rightarrow> (Inl (Conflict (claimed_error kind)), w)
                        | Reserved _ \<Rightarrow>
                            (case admission_refused ticket owner policy w of
                               Some err \<Rightarrow> (Inl err, w)
                             | None \<Rightarrow>
                                 (let (t, w) = token_new (w\<lparr>reads := AList.delete ticket (reads w)\<rparr>)
                                  in (Inr \<lparr>op_id = ticket, op_token = t, op_kind = LeaseAccepted\<rparr>,
                                      w\<lparr>accepted := AList.update ticket
                                          \<lparr>accepted_owner = owner, accepted_label = label,
                                           accepted_token = t, accepted_kind = Some kind,
                                           accepted_progress = map_option policy_progress policy,
                                           admission_key = map_option policy_key policy,
                                           committing = False\<rparr> (accepted w)\<rparr>)))))"

definition prepare_download :: "string \<Rightarrow> nat \<Rightarrow> nat \<Rightarrow> string \<Rightarrow> ('o op_world, string) io" where
  "prepare_download ticket now created owner = prepare_reservation ticket now created owner DownloadKind"

definition claim_download ::
  "nat \<Rightarrow> string \<Rightarrow> string \<Rightarrow> string \<Rightarrow> download_policy \<Rightarrow> ('o op_world, operation_lease) io" where
  "claim_download now ticket owner label policy =
     claim_prepared_in_state now ticket owner label DownloadKind (Some policy)"

definition prepare_conversion :: "string \<Rightarrow> nat \<Rightarrow> nat \<Rightarrow> string \<Rightarrow> ('o op_world, string) io" where
  "prepare_conversion ticket now created owner = prepare_reservation ticket now created owner ConversionKind"

definition claim_conversion :: "nat \<Rightarrow> string \<Rightarrow> string \<Rightarrow> ('o op_world, operation_lease) io" where
  "claim_conversion now ticket owner =
     claim_prepared_in_state now ticket owner ''convert_pgn'' ConversionKind None"

definition accepted_matches :: "accepted_entry \<Rightarrow> reservation_kind \<Rightarrow> bool" where
  "accepted_matches e kind =
     (case kind of
        DownloadKind \<Rightarrow> is_download e
      | ConversionKind \<Rightarrow> accepted_kind e = Some ConversionKind
      | _ \<Rightarrow> False)"

definition cancel_accepted_download :: "accepted_entry \<Rightarrow> 'o op_world \<Rightarrow> bool \<times> 'o op_world" where
  "cancel_accepted_download e w =
     (if committing e then (False, w) else (True, token_cancel (accepted_token e) w))"

definition cancel_prepared ::
  "nat \<Rightarrow> nat \<Rightarrow> string \<Rightarrow> string \<Rightarrow> reservation_kind \<Rightarrow> ('o op_world, bool) io" where
  "cancel_prepared now created ticket owner kind w =
     (let w = purge_expired now w
      in case map_of (reads w) ticket of
           Some e \<Rightarrow>
             if read_owner e \<noteq> owner then (Inl (Conflict (owner_error kind)), w)
             else if read_kind e \<noteq> kind then (Inl (Conflict (wrong_kind_error kind True)), w)
             else (case entry_state e of
                     Reserved _ \<Rightarrow>
                       (Inr True, w\<lparr>reads := AList.update ticket (e\<lparr>entry_state := CancelledReserved created\<rparr>) (reads w)\<rparr>)
                   | CancelledReserved _ \<Rightarrow> (Inr True, w)
                   | Active _ _ \<Rightarrow> (Inl (Conflict (claimed_error kind)), w))
         | None \<Rightarrow>
             (case map_of (accepted w) ticket of
                None \<Rightarrow> (Inr False, w)
              | Some e \<Rightarrow>
                  if \<not> accepted_matches e kind then (Inl (Conflict (wrong_kind_error kind True)), w)
                  else if accepted_owner e \<noteq> owner then (Inl (Conflict (owner_error kind)), w)
                  else if is_download e
                  then (let (done, w) = cancel_accepted_download e w in (Inr done, w))
                  else (Inr True, token_cancel (accepted_token e) w)))"

definition cancel_download :: "nat \<Rightarrow> nat \<Rightarrow> string \<Rightarrow> string \<Rightarrow> ('o op_world, bool) io" where
  "cancel_download now created ticket owner = cancel_prepared now created ticket owner DownloadKind"

definition cancel_conversion :: "nat \<Rightarrow> nat \<Rightarrow> string \<Rightarrow> string \<Rightarrow> ('o op_world, bool) io" where
  "cancel_conversion now created ticket owner = cancel_prepared now created ticket owner ConversionKind"

fun cancel_progress_loop :: "accepted_entry list \<Rightarrow> bool \<Rightarrow> 'o op_world \<Rightarrow> bool \<times> 'o op_world" where
  "cancel_progress_loop [] already_cancelled w = (already_cancelled, w)"
| "cancel_progress_loop (e # es) already_cancelled w =
     (if cancelled w (accepted_token e) then cancel_progress_loop es True w
      else cancel_accepted_download e w)"

definition cancel_download_for_progress :: "string \<Rightarrow> string \<Rightarrow> ('o op_world, bool) io" where
  "cancel_download_for_progress progress owner w =
     (let (answer, w) =
        cancel_progress_loop
          (filter (\<lambda>e. is_download e \<and> accepted_owner e = owner \<and> accepted_progress e = Some progress)
             (map snd (accepted w))) False w
      in (Inr answer, w))"

definition with_live_download_for_progress :: "string \<Rightarrow> (bool \<Rightarrow> 'r) \<Rightarrow> ('o op_world, 'r) io" where
  "with_live_download_for_progress progress decide w =
     (Inr (decide (list_ex (\<lambda>(_, e). is_download e \<and> accepted_progress e = Some progress
                                       \<and> \<not> cancelled w (accepted_token e)) (accepted w))), w)"

definition release_prepared :: "nat \<Rightarrow> string \<Rightarrow> string \<Rightarrow> reservation_kind \<Rightarrow> ('o op_world, unit) io" where
  "release_prepared now ticket owner kind w =
     (let w = purge_expired now w
      in case map_of (reads w) ticket of
           Some e \<Rightarrow>
             if read_owner e \<noteq> owner then (Inl (Conflict (owner_error kind)), w)
             else if read_kind e \<noteq> kind then (Inl (Conflict (wrong_kind_error kind True)), w)
             else (Inr (), w\<lparr>reads := AList.delete ticket (reads w)\<rparr>)
         | None \<Rightarrow>
             (case map_of (accepted w) ticket of
                Some e \<Rightarrow>
                  if \<not> accepted_matches e kind \<or> accepted_owner e \<noteq> owner
                  then (Inl (Conflict (owner_error kind)), w) else (Inr (), w)
              | None \<Rightarrow> (Inr (), w)))"

definition release_download :: "nat \<Rightarrow> string \<Rightarrow> string \<Rightarrow> ('o op_world, unit) io" where
  "release_download now ticket owner = release_prepared now ticket owner DownloadKind"

definition release_conversion :: "nat \<Rightarrow> string \<Rightarrow> string \<Rightarrow> ('o op_world, unit) io" where
  "release_conversion now ticket owner = release_prepared now ticket owner ConversionKind"

subsection \<open>Owners, sealing and draining\<close>

fun cancelled_kind_of :: "reservation_kind \<Rightarrow> cancelled_operation_kind" where
  "cancelled_kind_of ReadKind = ReadCancelled"
| "cancelled_kind_of (AnalysisKind _) = AnalysisCancelledKind"
| "cancelled_kind_of DownloadKind = DownloadCancelled"
| "cancelled_kind_of ConversionKind = ConversionCancelled"

definition cancel_owner_reservations_in_state ::
  "string \<Rightarrow> 'o op_world \<Rightarrow> cancelled_operation list \<times> 'o op_world" where
  "cancel_owner_reservations_in_state owner w =
     (let ops = map (\<lambda>(ticket, e). \<lparr>cancelled_id = ticket, cancelled_kind = cancelled_kind_of (read_kind e)\<rparr>)
                  (filter (\<lambda>(_, e). read_owner e = owner) (reads w))
      in (ops, fold (\<lambda>c. cancel_entry (cancelled_id c)) ops w))"

definition cancel_owner_reservations :: "string \<Rightarrow> ('o op_world, cancelled_operation list) io" where
  "cancel_owner_reservations owner w =
     (let (ops, w) = cancel_owner_reservations_in_state owner w in (Inr ops, w))"

definition cancel_owner :: "string \<Rightarrow> ('o op_world, cancelled_operation list) io" where
  "cancel_owner owner w =
     (let (ops, w) = cancel_owner_reservations_in_state owner w;
          own = filter (\<lambda>(_, e). is_download e \<and> accepted_owner e = owner \<and> \<not> committing e) (accepted w)
      in (Inr (ops @ map (\<lambda>(ticket, _). \<lparr>cancelled_id = ticket, cancelled_kind = DownloadCancelled\<rparr>) own),
          fold (\<lambda>(_, e). token_cancel (accepted_token e)) own w))"

definition active_tokens :: "(string \<times> read_entry) list \<Rightarrow> cancellation list" where
  "active_tokens es = concat (map (\<lambda>(_, e). case entry_state e of Active t _ \<Rightarrow> [t] | _ \<Rightarrow> []) es)"

definition seal_and_request_cancellation :: "('o op_world, unit) io" where
  "seal_and_request_cancellation w =
     (let w = w\<lparr>sealed := True\<rparr>;
          w = fold token_cancel (active_tokens (reads w)) w;
          w = w\<lparr>reads := filter (\<lambda>(_, e). is_active (entry_state e)) (reads w)\<rparr>
      in (Inr (), fold (\<lambda>(_, e). token_cancel (accepted_token e)) (accepted w) w))"

definition drained :: "'o op_world \<Rightarrow> bool" where
  "drained w \<longleftrightarrow> \<not> list_ex (\<lambda>(_, e). is_active (entry_state e)) (reads w) \<and> accepted w = []"

text \<open>
  The wait observes the registry each time it holds the mutex: at observation \<^term>\<open>n\<close> the world,
  the clock, and whether the wait that follows times out. \<^verbatim>\<open>None\<close> is a wait that never ends.
\<close>

partial_function (option) drain_loop ::
  "(nat \<Rightarrow> 'o op_world) \<Rightarrow> (nat \<Rightarrow> nat) \<Rightarrow> (nat \<Rightarrow> bool) \<Rightarrow> nat \<Rightarrow> nat \<Rightarrow> bool result option" where
  "drain_loop observed clock timed_out deadline n =
     (if drained (observed n) then Some (Inr True)
      else if deadline - clock n = 0 then Some (Inr False)
      else if timed_out n then Some (Inr False)
      else drain_loop observed clock timed_out deadline (Suc n))"

definition wait_for_drain ::
  "(nat \<Rightarrow> 'o op_world) \<Rightarrow> nat \<Rightarrow> (nat \<Rightarrow> nat) \<Rightarrow> (nat \<Rightarrow> bool) \<Rightarrow> nat \<Rightarrow> bool result option" where
  "wait_for_drain observed now clock timed_out timeout = drain_loop observed clock timed_out (now + timeout) 0"

definition read_diagnostic :: "string \<times> read_entry \<Rightarrow> string list" where
  "read_diagnostic kv =
     (case kv of (key, e) \<Rightarrow>
        (case entry_state e of
           Active _ label \<Rightarrow>
             [key @ '' ['' @ (if is_analysis (read_kind e) then ''analysis-active'' else ''read-active'') @ ''] '' @ label]
         | _ \<Rightarrow> []))"

definition accepted_diagnostic :: "string \<times> accepted_entry \<Rightarrow> string" where
  "accepted_diagnostic kv =
     (case kv of (key, e) \<Rightarrow>
        key @ '' ['' @ (if is_download e then ''download-accepted''
                        else if accepted_kind e = Some ConversionKind then ''conversion-accepted''
                        else ''accepted-active'') @ ''] '' @ accepted_label e)"

definition outstanding_diagnostics :: "('o op_world, string list) io" where
  "outstanding_diagnostics w =
     (Inr (sort_key bytes_of (concat (map read_diagnostic (reads w)) @ map accepted_diagnostic (accepted w))), w)"

subsection \<open>Leases\<close>

definition begin_commit :: "string \<Rightarrow> ('o op_world, unit) io" where
  "begin_commit key w =
     (case map_of (accepted w) key of
        None \<Rightarrow> (Inl (Conflict ''download operation is no longer active''), w)
      | Some e \<Rightarrow>
          if \<not> is_download e then (Inl (Conflict ''native operation is not a download''), w)
          else if cancelled w (accepted_token e) then (Inl Cancellation, w)
          else (Inr (), w\<lparr>accepted := AList.update key (e\<lparr>committing := True\<rparr>) (accepted w)\<rparr>))"

definition operation_lease_drop :: "operation_lease \<Rightarrow> 'o op_world \<Rightarrow> 'o op_world" where
  "operation_lease_drop l w =
     (case op_kind l of
        LeaseRead \<Rightarrow> w\<lparr>reads := AList.delete (op_id l) (reads w)\<rparr>
      | LeaseAccepted \<Rightarrow> w\<lparr>accepted := AList.delete (op_id l) (accepted w)\<rparr>
      | LeaseAnalysis \<Rightarrow> w\<lparr>reads := AList.delete (op_id l) (reads w)\<rparr>)"

text \<open>
  A workflow runs under its lease; \<^term>\<open>None\<close> is a panic. The lease is released before the result is
  delivered. A command whose future is dropped first cancels a transient read and nothing else.
\<close>

definition run_native_operation ::
  "operation_lease \<Rightarrow> string \<Rightarrow> ('o op_world \<Rightarrow> 'a result option \<times> 'o op_world) \<Rightarrow> ('o op_world, 'a) io" where
  "run_native_operation lease label workflow w =
     (case workflow w of (terminal, w) \<Rightarrow>
        (case terminal of
           Some r \<Rightarrow> r
         | None \<Rightarrow> Inl (Conflict (''native operation panicked ('' @ label @ '')'')),
         operation_lease_drop lease w))"

definition abandon_native_operation :: "operation_lease \<Rightarrow> 'o op_world \<Rightarrow> 'o op_world" where
  "abandon_native_operation lease w =
     (if op_kind lease = LeaseRead then token_cancel (op_token lease) w else w)"

text \<open>
  The blocking gateway, \<^verbatim>\<open>infra/blocking.rs\<close>: what joining a blocking task gives, and the two ways to
  run one. Whether the semaphore is still open, and what the token says while the task waits for a
  permit and when it starts, are arguments; a worker that started is not cancelled any more.
\<close>

datatype 'a join = Joined "'a result option" | JoinCancelled | JoinPanicked

definition map_join :: "'a join \<Rightarrow> 'a result" where
  "map_join j =
     (case j of
        Joined (Some r) \<Rightarrow> r
      | Joined None \<Rightarrow> Inl (Conflict ''Blocking task panicked'')
      | JoinCancelled \<Rightarrow> Inl Cancellation
      | JoinPanicked \<Rightarrow> Inl (Conflict ''Blocking task panicked''))"

definition gateway_spawn :: "bool \<Rightarrow> ('s \<Rightarrow> 'a join \<times> 's) \<Rightarrow> ('s, 'a) io" where
  "gateway_spawn permit task s =
     (if \<not> permit then (Inl Cancellation, s)
      else (case task s of (j, s) \<Rightarrow> (map_join j, s)))"

definition gateway_spawn_cancellable ::
  "bool \<Rightarrow> bool \<Rightarrow> bool \<Rightarrow> ('s \<Rightarrow> 'a join \<times> 's) \<Rightarrow> ('s, 'a) io" where
  "gateway_spawn_cancellable cancelled_waiting permit cancelled_at_worker task s =
     (if cancelled_waiting \<or> \<not> permit then (Inl Cancellation, s)
      else (case (if cancelled_at_worker then (Joined (Some (Inl Cancellation)), s) else task s) of
              (j, s) \<Rightarrow> (map_join j, s)))"

definition run_accepted_blocking ::
  "string \<Rightarrow> string \<Rightarrow> bool \<Rightarrow> ('o op_world \<Rightarrow> 'a join \<times> 'o op_world) \<Rightarrow> ('o op_world, 'a) io" where
  "run_accepted_blocking key label permit workflow =
     bind_io (accept key label) (\<lambda>lease.
       run_native_operation lease label (\<lambda>w. case gateway_spawn permit workflow w of (r, w) \<Rightarrow> (Some r, w)))"

subsection \<open>The mailbox of engine completions\<close>

text \<open>
  A tail is the accepted operation that applies a finished completion. It is not counted against
  the capacity again.
\<close>

definition accept_completion_tail_in_state :: "string \<Rightarrow> string \<Rightarrow> ('o op_world, operation_lease) io" where
  "accept_completion_tail_in_state key owner w =
     (if sealed w \<or> map_of (accepted w) key \<noteq> None
         \<or> \<not> (case map_of (completions w) key of Some e \<Rightarrow> entry_owner e = owner | None \<Rightarrow> False)
      then (Inl (Conflict ''completion tail is unavailable''), w)
      else (let (t, w) = token_new w
            in (Inr \<lparr>op_id = key, op_token = t, op_kind = LeaseAccepted\<rparr>,
                w\<lparr>accepted := AList.update key
                    \<lparr>accepted_owner = owner, accepted_label = ''engine completion application'',
                     accepted_token = t, accepted_kind = None, accepted_progress = None,
                     admission_key = None, committing = True\<rparr> (accepted w)\<rparr>)))"

definition upgrade_pending :: "string \<Rightarrow> 'o op_world \<Rightarrow> bool" where
  "upgrade_pending engine w \<longleftrightarrow>
     list_ex (\<lambda>(_, e). let i = intent (completion_request (snapshot e)) in is_upgrade i \<and> intent_engine_id i = engine)
       (completions w)"

definition admit_engine_completion ::
  "(string \<Rightarrow> bool) \<Rightarrow> nat \<Rightarrow> string \<Rightarrow> string \<Rightarrow> string \<Rightarrow> engine_install_request \<Rightarrow> nat
   \<Rightarrow> ('o op_world, 'o engine_completion \<times> operation_lease option) io" where
  "admit_engine_completion uuid now key owner ticket request download_cap w =
     (case validate_engine_request uuid key request of
        Inl e \<Rightarrow> (Inl e, w)
      | Inr _ \<Rightarrow>
          (case map_of (completions w) key of
             Some existing \<Rightarrow>
               if entry_owner existing \<noteq> owner \<or> completion_request (snapshot existing) \<noteq> request
               then (Inl (Conflict ''completion identity belongs to another request''), w)
               else (Inr (snapshot existing, None), w)
           | None \<Rightarrow>
               if MAX_ACCEPTED_OPERATIONS \<le> length (completions w)
               then (Inl (ResourceLimit ''too many unacknowledged completions''), w)
               else if upgrade_pending (intent_engine_id (intent request)) w
               then (Inl (Conflict ''engine upgrade application is pending''), w)
               else (case claim_prepared_in_state now ticket owner ''install_engine_workflow'' DownloadKind
                            (Some \<lparr>policy_progress = request_progress_id request,
                                   policy_key = request_progress_id request,
                                   policy_exclusive = False, policy_cap = download_cap\<rparr>) w of
                       (Inl e, w) \<Rightarrow> (Inl e, w)
                     | (Inr lease, w) \<Rightarrow>
                         (let c = \<lparr>completion_id = key, completion_request = request,
                                   outcome = CompletionRunning, retired = False\<rparr>
                          in (Inr (c, Some lease),
                              w\<lparr>completions := AList.update key
                                  \<lparr>entry_owner = owner, operation_id = ticket, snapshot = c,
                                   entry_progress = None, retirement = next_retirement w,
                                   retirement_job = None, acknowledgement_job = None\<rparr> (completions w),
                                next_retirement := Suc (next_retirement w)\<rparr>)))))"

definition engine_completions :: "string \<Rightarrow> ('o op_world, 'o engine_completion list) io" where
  "engine_completions owner w =
     (Inr (map snapshot (filter (\<lambda>e. entry_owner e = owner) (map snd (completions w)))), w)"

abbreviation completion_unavailable :: error where
  "completion_unavailable \<equiv> Conflict ''completion is unavailable''"

definition set_engine_completion_progress :: "string \<Rightarrow> progress_lease \<Rightarrow> ('o op_world, unit) io" where
  "set_engine_completion_progress key p w =
     (case map_of (completions w) key of
        None \<Rightarrow> (Inl completion_unavailable, w)
      | Some e \<Rightarrow> (Inr (), w\<lparr>completions := AList.update key (e\<lparr>entry_progress := Some p\<rparr>) (completions w)\<rparr>))"

definition finish_engine_completion ::
  "string \<Rightarrow> 'o installed_engine_result result \<Rightarrow> ('o op_world, 'o engine_completion) io" where
  "finish_engine_completion key result w =
     (case map_of (completions w) key of
        None \<Rightarrow> (Inl completion_unavailable, w)
      | Some e \<Rightarrow>
          (let c = (snapshot e)\<lparr>outcome := (case result of
                       Inr r \<Rightarrow> CompletionSucceeded r
                     | Inl err \<Rightarrow> CompletionFailed (renderer_payload err))\<rparr>
           in (Inr c, w\<lparr>completions := AList.update key (e\<lparr>snapshot := c\<rparr>) (completions w)\<rparr>)))"

definition has_succeeded :: "'a completion_outcome \<Rightarrow> bool" where
  "has_succeeded oc = (case oc of CompletionSucceeded _ \<Rightarrow> True | _ \<Rightarrow> False)"

text \<open>An upgrade that succeeded is unfinished until the old binary is retired.\<close>

definition application_unfinished :: "'o engine_completion \<Rightarrow> bool" where
  "application_unfinished c \<longleftrightarrow>
     outcome c = CompletionRunning
     \<or> (has_succeeded (outcome c) \<and> is_upgrade (intent (completion_request c)) \<and> \<not> retired c)"

definition peek :: "completion_application \<Rightarrow> 'o op_world \<Rightarrow> unit result option" where
  "peek job w =
     (case job of
        ReadyOk \<Rightarrow> None
      | FromChannel c \<Rightarrow> (case applications w c of Observed r \<Rightarrow> Some r | _ \<Rightarrow> None))"

definition application_new :: "'o op_world \<Rightarrow> channel_id \<times> 'o op_world" where
  "application_new w =
     (next_application w,
      w\<lparr>applications := (applications w)(next_application w := Waiting),
        next_application := Suc (next_application w)\<rparr>)"

record 'o application_start =
  start_snapshot :: "'o engine_completion"
  start_retirement :: nat
  start_lease :: operation_lease
  start_result :: channel_id

fun step_job :: "engine_application_step \<Rightarrow> 'o engine_completion_entry \<Rightarrow> completion_application option" where
  "step_job Retirement e = retirement_job e"
| "step_job Acknowledgement e = acknowledgement_job e"

fun set_step_job ::
  "engine_application_step \<Rightarrow> completion_application \<Rightarrow> 'o engine_completion_entry \<Rightarrow> 'o engine_completion_entry" where
  "set_step_job Retirement job e = e\<lparr>retirement_job := Some job\<rparr>"
| "set_step_job Acknowledgement job e = e\<lparr>acknowledgement_job := Some job\<rparr>"

text \<open>An attempt that is still running, or whose lease is still held, is joined.\<close>

definition joinable_job ::
  "engine_application_step \<Rightarrow> string \<Rightarrow> 'o engine_completion_entry \<Rightarrow> 'o op_world \<Rightarrow> completion_application option" where
  "joinable_job step key e w =
     (case step_job step e of
        Some job \<Rightarrow> if peek job w = None \<or> map_of (accepted w) key \<noteq> None then Some job else None
      | None \<Rightarrow> None)"

definition begin_engine_application ::
  "string \<Rightarrow> string \<Rightarrow> engine_application_step
   \<Rightarrow> ('o op_world, completion_application \<times> 'o application_start option) io" where
  "begin_engine_application key owner step w =
     (case map_of (completions w) key of
        None \<Rightarrow> (Inr (ReadyOk, None), w)
      | Some e \<Rightarrow>
          if entry_owner e \<noteq> owner then (Inl (Conflict ''completion belongs to another webview''), w)
          else if step = Retirement \<and> \<not> has_succeeded (outcome (snapshot e))
          then (Inl (Conflict ''completion is not ready for application''), w)
          else if step = Acknowledgement \<and> application_unfinished (snapshot e)
          then (Inl (Conflict ''completion application is unfinished''), w)
          else (case joinable_job step key e w of
                  Some job \<Rightarrow> (Inr (job, None), w)
                | None \<Rightarrow>
                    if step = Retirement \<and> retired (snapshot e) then (Inr (ReadyOk, None), w)
                    else (case accept_completion_tail_in_state key owner w of
                            (Inl err, w) \<Rightarrow> (Inl err, w)
                          | (Inr lease, w) \<Rightarrow>
                              (let (c, w) = application_new w;
                                   w = w\<lparr>completions := AList.update key (set_step_job step (FromChannel c) e) (completions w)\<rparr>
                               in (Inr (FromChannel c,
                                        Some \<lparr>start_snapshot = snapshot e, start_retirement = retirement e,
                                              start_lease = lease, start_result = c\<rparr>), w)))))"

definition finish_engine_retirement :: "string \<Rightarrow> string \<Rightarrow> ('o op_world, unit) io" where
  "finish_engine_retirement key owner w =
     (case map_of (completions w) key of
        None \<Rightarrow> (Inl completion_unavailable, w)
      | Some e \<Rightarrow>
          if entry_owner e \<noteq> owner then (Inl completion_unavailable, w)
          else (Inr (), w\<lparr>completions :=
                  AList.update key (e\<lparr>snapshot := (snapshot e)\<lparr>retired := True\<rparr>\<rparr>) (completions w)\<rparr>))"

definition acknowledge_engine_completion :: "string \<Rightarrow> string \<Rightarrow> ('o op_world, progress_lease option) io" where
  "acknowledge_engine_completion key owner w =
     (case map_of (completions w) key of
        None \<Rightarrow> (Inr None, w)
      | Some e \<Rightarrow>
          if entry_owner e \<noteq> owner then (Inl (Conflict ''completion belongs to another webview''), w)
          else if application_unfinished (snapshot e)
          then (Inl (Conflict ''completion application is unfinished''), w)
          else (Inr (entry_progress e), w\<lparr>completions := AList.delete key (completions w)\<rparr>))"

text \<open>
  The sender of an application sends its outcome after the lease is gone; whoever awaits the shared
  future observes it. A sender that is dropped gives the error of the job.
\<close>

definition application_send :: "channel_id \<Rightarrow> unit result \<Rightarrow> 'o op_world \<Rightarrow> 'o op_world" where
  "application_send c r w = w\<lparr>applications := (applications w)(c := Sent r)\<rparr>"

definition application_poll :: "channel_id \<Rightarrow> 'o op_world \<Rightarrow> 'o op_world" where
  "application_poll c w =
     (case applications w c of
        Sent r \<Rightarrow> w\<lparr>applications := (applications w)(c := Observed r)\<rparr>
      | SenderDropped \<Rightarrow>
          w\<lparr>applications := (applications w)(c := Observed (Inl (Conflict ''completion application result unavailable'')))\<rparr>
      | _ \<Rightarrow> w)"

definition run_completion_application ::
  "operation_lease \<Rightarrow> channel_id \<Rightarrow> string \<Rightarrow> ('o op_world \<Rightarrow> unit result option \<times> 'o op_world) \<Rightarrow> 'o op_world \<Rightarrow> 'o op_world" where
  "run_completion_application lease c label workflow w =
     (case run_native_operation lease label workflow w of (r, w) \<Rightarrow> application_send c r w)"

subsection \<open>Account completions in the registry\<close>

record account_start =
  account_start_snapshot :: account_completion
  account_start_lease :: operation_lease
  account_start_result :: channel_id

definition attempt_new :: "'o op_world \<Rightarrow> channel_id \<times> 'o op_world" where
  "attempt_new w =
     (next_attempt w,
      w\<lparr>attempts := (attempts w)(next_attempt w := Waiting), next_attempt := Suc (next_attempt w)\<rparr>)"

definition same_account :: "string \<Rightarrow> account_import_request \<Rightarrow> account_completion_entry \<Rightarrow> bool" where
  "same_account owner request e \<longleftrightarrow>
     account_owner e = owner \<and> provider (account_request (account_snapshot e)) = provider request
     \<and> eq_ignore_ascii_case (account (account_request (account_snapshot e))) (account request)"

definition fresh_account_completion :: "string \<Rightarrow> string \<Rightarrow> account_import_request \<Rightarrow> account_completion" where
  "fresh_account_completion key progress request =
     \<lparr>account_id = key, account_request = request, progress_id = progress, attempt_count = 0,
      account_outcome = CompletionRunning, publication = None, committed_database = None,
      deletion_pending = False, importing = False, coverage_holds = None, coverage_floor_ms = None\<rparr>"

definition start_attempt ::
  "string \<Rightarrow> string \<Rightarrow> account_completion \<Rightarrow> ('o op_world, channel_id \<times> account_start option) io" where
  "start_attempt op owner c w =
     (case accept_in_state op ''import_account_games'' w of
        (Inl e, w) \<Rightarrow> (Inl e, w)
      | (Inr lease, w) \<Rightarrow>
          (let c = c\<lparr>attempt_count := attempt_count c + 1, account_outcome := CompletionRunning\<rparr>;
               (a, w) = attempt_new w;
               w = w\<lparr>accounts := AList.update (account_id c)
                       \<lparr>account_owner = owner, account_snapshot = c, account_attempt = a\<rparr> (accounts w)\<rparr>
           in (Inr (a, Some \<lparr>account_start_snapshot = c, account_start_lease = lease,
                             account_start_result = a\<rparr>), w)))"

definition admit_account_completion ::
  "(string \<Rightarrow> bool) \<Rightarrow> string \<Rightarrow> string \<Rightarrow> string \<Rightarrow> string \<Rightarrow> account_import_request
   \<Rightarrow> ('o op_world, channel_id \<times> account_start option) io" where
  "admit_account_completion uuid key progress op owner request w =
     (case validate_account_request uuid request of
        Inl e \<Rightarrow> (Inl e, w)
      | Inr _ \<Rightarrow>
          (case find (\<lambda>(_, e). same_account owner request e) (accounts w) of
             Some (_, e) \<Rightarrow>
               if \<not> deletion_pending (account_snapshot e) \<or> account_outcome (account_snapshot e) = CompletionRunning
               then (Inr (account_attempt e, None), w)
               else start_attempt op owner (account_snapshot e) w
           | None \<Rightarrow>
               if MAX_ACCEPTED_OPERATIONS \<le> length (accounts w)
               then (Inl (ResourceLimit ''too many unacknowledged account completions''), w)
               else start_attempt op owner (fresh_account_completion key progress request) w))"

definition account_completions :: "string \<Rightarrow> ('o op_world, account_completion list) io" where
  "account_completions owner w =
     (Inr (map account_snapshot (filter (\<lambda>e. account_owner e = owner) (map snd (accounts w)))), w)"

definition update_account_completion :: "account_completion \<Rightarrow> ('o op_world, unit) io" where
  "update_account_completion c w =
     (case map_of (accounts w) (account_id c) of
        None \<Rightarrow> (Inl (Conflict ''account completion unavailable''), w)
      | Some e \<Rightarrow>
          (Inr (), w\<lparr>accounts := AList.update (account_id c) (e\<lparr>account_snapshot := c\<rparr>) (accounts w)\<rparr>))"

definition acknowledge_account_completion :: "string \<Rightarrow> string \<Rightarrow> ('o op_world, unit) io" where
  "acknowledge_account_completion key owner w =
     (case map_of (accounts w) key of
        None \<Rightarrow> (Inr (), w)
      | Some e \<Rightarrow>
          if account_owner e \<noteq> owner then (Inl (Conflict ''completion belongs to another webview''), w)
          else if \<not> deletion_pending (account_snapshot e) \<and> account_outcome (account_snapshot e) \<noteq> CompletionRunning
          then (Inr (), w\<lparr>accounts := AList.delete key (accounts w)\<rparr>)
          else (Inr (), w))"

end
