(* ===== verification/OperationSteps.thy ===== *)
theory OperationSteps
  imports Operations "HOL-Library.Multiset"
begin

text \<open>
  The registry as a state machine. A state is the set of identifiers \<^verbatim>\<open>Uuid::new_v4()\<close> has given,
  the leases that are alive, and the world. \<^term>\<open>op_step\<close> has one rule for each call of the registry
  and one for the drop of a lease; identifiers are never given twice. Every step is a sequence of
  the few elementary changes of \<^term>\<open>prim\<close>, and the invariants are proved of those.
\<close>

type_synonym 'o op_system = "string set \<times> operation_lease list \<times> 'o op_world"

definition admitted :: "operation_lease result \<Rightarrow> operation_lease list \<Rightarrow> operation_lease list" where
  "admitted r ls = (case r of Inr l \<Rightarrow> l # ls | Inl _ \<Rightarrow> ls)"

definition admitted_opt :: "operation_lease option result \<Rightarrow> operation_lease list \<Rightarrow> operation_lease list" where
  "admitted_opt r ls = (case r of Inr (Some l) \<Rightarrow> l # ls | _ \<Rightarrow> ls)"

inductive op_step :: "'o op_system \<Rightarrow> 'o op_system \<Rightarrow> bool" where
  step_prepare:
    "ticket \<notin> u \<Longrightarrow> prepare_reservation ticket now created owner kind w = (r, w') \<Longrightarrow>
     op_step (u, ls, w) (insert ticket u, ls, w')"
| step_claim_read:
    "claim_read now ticket owner label w = (r, w') \<Longrightarrow> op_step (u, ls, w) (u, admitted r ls, w')"
| step_claim_analysis:
    "claim_analysis now ticket owner tab label w = (r, w') \<Longrightarrow> op_step (u, ls, w) (u, admitted r ls, w')"
| step_cancel_reservation:
    "cancel_reservation now ticket owner analysis w = (r, w') \<Longrightarrow> op_step (u, ls, w) (u, ls, w')"
| step_cancel_tab:
    "cancel_analyses_for_tab owner tab w = (r, w') \<Longrightarrow> op_step (u, ls, w) (u, ls, w')"
| step_accept:
    "key \<notin> u \<Longrightarrow> accept key label w = (r, w') \<Longrightarrow> op_step (u, ls, w) (insert key u, admitted r ls, w')"
| step_claim_download:
    "claim_download now ticket owner label policy w = (r, w') \<Longrightarrow> op_step (u, ls, w) (u, admitted r ls, w')"
| step_claim_conversion:
    "claim_conversion now ticket owner w = (r, w') \<Longrightarrow> op_step (u, ls, w) (u, admitted r ls, w')"
| step_cancel_download:
    "cancel_download now created ticket owner w = (r, w') \<Longrightarrow> op_step (u, ls, w) (u, ls, w')"
| step_cancel_conversion:
    "cancel_conversion now created ticket owner w = (r, w') \<Longrightarrow> op_step (u, ls, w) (u, ls, w')"
| step_cancel_progress:
    "cancel_download_for_progress progress owner w = (r, w') \<Longrightarrow> op_step (u, ls, w) (u, ls, w')"
| step_release_download:
    "release_download now ticket owner w = (r, w') \<Longrightarrow> op_step (u, ls, w) (u, ls, w')"
| step_release_conversion:
    "release_conversion now ticket owner w = (r, w') \<Longrightarrow> op_step (u, ls, w) (u, ls, w')"
| step_cancel_owner_reservations:
    "cancel_owner_reservations owner w = (r, w') \<Longrightarrow> op_step (u, ls, w) (u, ls, w')"
| step_cancel_owner:
    "cancel_owner owner w = (r, w') \<Longrightarrow> op_step (u, ls, w) (u, ls, w')"
| step_seal:
    "seal_and_request_cancellation w = (r, w') \<Longrightarrow> op_step (u, ls, w) (u, ls, w')"
| step_commit:
    "begin_commit key w = (r, w') \<Longrightarrow> op_step (u, ls, w) (u, ls, w')"
| step_admit_engine:
    "admit_engine_completion uuid now key owner ticket request cap w = (r, w') \<Longrightarrow>
     op_step (u, ls, w) (u, admitted_opt (map_sum id snd r) ls, w')"
| step_set_progress:
    "set_engine_completion_progress key p w = (r, w') \<Longrightarrow> op_step (u, ls, w) (u, ls, w')"
| step_finish_engine:
    "finish_engine_completion key result w = (r, w') \<Longrightarrow> op_step (u, ls, w) (u, ls, w')"
| step_begin_application:
    "begin_engine_application key owner step w = (r, w') \<Longrightarrow>
     op_step (u, ls, w) (u, admitted_opt (map_sum id (map_option start_lease \<circ> snd) r) ls, w')"
| step_finish_retirement:
    "finish_engine_retirement key owner w = (r, w') \<Longrightarrow> op_step (u, ls, w) (u, ls, w')"
| step_acknowledge_engine:
    "acknowledge_engine_completion key owner w = (r, w') \<Longrightarrow> op_step (u, ls, w) (u, ls, w')"
| step_admit_account:
    "op \<notin> u \<Longrightarrow> admit_account_completion uuid key progress op owner request w = (r, w') \<Longrightarrow>
     op_step (u, ls, w) (insert op u, admitted_opt (map_sum id (map_option account_start_lease \<circ> snd) r) ls, w')"
| step_update_account:
    "update_account_completion c w = (r, w') \<Longrightarrow> op_step (u, ls, w) (u, ls, w')"
| step_acknowledge_account:
    "acknowledge_account_completion key owner w = (r, w') \<Longrightarrow> op_step (u, ls, w) (u, ls, w')"
| step_send:
    "op_step (u, ls, w) (u, ls, application_send c result w)"
| step_poll:
    "op_step (u, ls, w) (u, ls, application_poll c w)"
| step_abandon:
    "l \<in> set ls \<Longrightarrow> op_step (u, ls, w) (u, ls, abandon_native_operation l w)"
| step_drop:
    "l \<in> set ls \<Longrightarrow> op_step (u, ls, w) (u, remove1 l ls, operation_lease_drop l w)"

definition op_start :: "'o op_system" where
  "op_start = ({}, [], op_world_start)"

definition op_reachable :: "'o op_system \<Rightarrow> bool" where
  "op_reachable s \<longleftrightarrow> op_step\<^sup>*\<^sup>* op_start s"

subsection \<open>Elementary changes\<close>

definition add_accepted :: "string \<Rightarrow> accepted_entry \<Rightarrow> 'o op_world \<Rightarrow> 'o op_world" where
  "add_accepted key e w =
     (let (t, w) = token_new w in w\<lparr>accepted := AList.update key (e\<lparr>accepted_token := t\<rparr>) (accepted w)\<rparr>)"

definition is_tail :: "accepted_entry \<Rightarrow> bool" where
  "is_tail e \<longleftrightarrow> accepted_kind e = None \<and> committing e"

definition op_cancellable :: "cancellation \<Rightarrow> 'o op_world \<Rightarrow> bool" where
  "op_cancellable t w \<longleftrightarrow>
     t \<in> set (active_tokens (reads w))
     \<or> (\<exists>(k, e) \<in> set (accepted w). accepted_token e = t \<and> \<not> (is_download e \<and> committing e))"

definition same_admission :: "accepted_entry \<Rightarrow> accepted_entry \<Rightarrow> bool" where
  "same_admission d e \<longleftrightarrow>
     is_download d \<and> is_download e \<and> accepted_owner d = accepted_owner e \<and> admission_key d = admission_key e"

definition accounts_keyed :: "'o op_world \<Rightarrow> bool" where
  "accounts_keyed w \<longleftrightarrow> (\<forall>(k, e) \<in> set (accounts w). account_id (account_snapshot e) = k)"

definition same_registry :: "'o op_world \<Rightarrow> 'o op_world \<Rightarrow> bool" where
  "same_registry w v \<longleftrightarrow>
     reads v = reads w \<and> accepted v = accepted w \<and> completions v = completions w \<and> sealed v = sealed w
     \<and> cancelled v = cancelled w \<and> next_token v = next_token w
     \<and> length (accounts v) \<le> max MAX_ACCEPTED_OPERATIONS (length (accounts w))
     \<and> (accounts_keyed w \<longrightarrow> accounts_keyed v)"

inductive prim :: "'o op_system \<Rightarrow> 'o op_system \<Rightarrow> bool" where
  p_forget:
    "(\<And>k e. (k, e) \<in> set (reads w) \<Longrightarrow> is_active (entry_state e) \<Longrightarrow> keep (k, e)) \<Longrightarrow>
     prim (u, ls, w) (u, ls, w\<lparr>reads := filter keep (reads w)\<rparr>)"
| p_reserve:
    "ticket \<notin> u \<Longrightarrow> \<not> sealed w \<Longrightarrow> length (reads w) < MAX_NATIVE_READS \<Longrightarrow>
     e = \<lparr>read_owner = owner, read_kind = kind, entry_state = Reserved created\<rparr> \<Longrightarrow>
     prim (u, ls, w) (insert ticket u, ls, w\<lparr>reads := AList.update ticket e (reads w)\<rparr>)"
| p_claim:
    "\<not> sealed w \<Longrightarrow> map_of (reads w) ticket = Some e \<Longrightarrow> is_reserved (entry_state e) \<Longrightarrow>
     lease_kind_of (read_kind e) \<noteq> LeaseAccepted \<Longrightarrow> token_new w = (t, v) \<Longrightarrow>
     prim (u, ls, w)
       (u, \<lparr>op_id = ticket, op_token = t, op_kind = lease_kind_of (read_kind e)\<rparr> # ls,
        v\<lparr>reads := AList.update ticket (e\<lparr>entry_state := Active t label\<rparr>) (reads v)\<rparr>)"
| p_mark:
    "map_of (reads w) ticket = Some e \<Longrightarrow> is_reserved (entry_state e) \<Longrightarrow>
     prim (u, ls, w) (u, ls, w\<lparr>reads := AList.update ticket (e\<lparr>entry_state := CancelledReserved created\<rparr>) (reads w)\<rparr>)"
| p_cancel:
    "op_cancellable t w \<or> sealed w \<Longrightarrow> prim (u, ls, w) (u, ls, token_cancel t w)"
| p_seal:
    "prim (u, ls, w) (u, ls, w\<lparr>sealed := True\<rparr>)"
| p_claim_prepared:
    "\<not> sealed w \<Longrightarrow> occupied w < MAX_ACCEPTED_OPERATIONS \<Longrightarrow> map_of (accepted w) ticket = None \<Longrightarrow>
     map_of (reads w) ticket = Some r \<Longrightarrow> is_reserved (entry_state r) \<Longrightarrow> accepted_kind e = Some (read_kind r) \<Longrightarrow>
     \<not> committing e \<Longrightarrow>
     \<forall>(k, d) \<in> set (accepted w). same_admission d e \<longrightarrow> cancelled w (accepted_token d) \<Longrightarrow>
     prim (u, ls, w)
       (u, \<lparr>op_id = ticket, op_token = next_token w, op_kind = LeaseAccepted\<rparr> # ls,
        add_accepted ticket e (w\<lparr>reads := AList.delete ticket (reads w)\<rparr>))"
| p_accept:
    "key \<notin> u \<Longrightarrow> \<not> sealed w \<Longrightarrow> occupied w < MAX_ACCEPTED_OPERATIONS \<Longrightarrow> map_of (accepted w) key = None \<Longrightarrow>
     accepted_kind e = None \<Longrightarrow> \<not> committing e \<Longrightarrow>
     prim (u, ls, w)
       (insert key u, \<lparr>op_id = key, op_token = next_token w, op_kind = LeaseAccepted\<rparr> # ls, add_accepted key e w)"
| p_tail:
    "\<not> sealed w \<Longrightarrow> map_of (completions w) key \<noteq> None \<Longrightarrow> map_of (accepted w) key = None \<Longrightarrow> is_tail e \<Longrightarrow>
     prim (u, ls, w)
       (u, \<lparr>op_id = key, op_token = next_token w, op_kind = LeaseAccepted\<rparr> # ls, add_accepted key e w)"
| p_issue:
    "prim (u, ls, w) (insert key u, ls, w)"
| p_commit:
    "map_of (accepted w) key = Some e \<Longrightarrow> is_download e \<Longrightarrow> \<not> cancelled w (accepted_token e) \<Longrightarrow>
     prim (u, ls, w) (u, ls, w\<lparr>accepted := AList.update key (e\<lparr>committing := True\<rparr>) (accepted w)\<rparr>)"
| p_complete:
    "map_of (completions w) key = None \<Longrightarrow> length (completions w) < MAX_ACCEPTED_OPERATIONS \<Longrightarrow>
     length (accepted w) \<le> MAX_ACCEPTED_OPERATIONS \<Longrightarrow>
     \<not> upgrade_pending (intent_engine_id (intent (completion_request (snapshot e)))) w \<Longrightarrow>
     prim (u, ls, w)
       (u, ls, w\<lparr>completions := AList.update key e (completions w), next_retirement := Suc (next_retirement w)\<rparr>)"
| p_update:
    "map_of (completions w) key = Some e \<Longrightarrow> entry_owner e' = entry_owner e \<Longrightarrow>
     completion_request (snapshot e') = completion_request (snapshot e) \<Longrightarrow>
     retired (snapshot e) \<longrightarrow> retired (snapshot e') \<Longrightarrow>
     prim (u, ls, w) (u, ls, w\<lparr>completions := AList.update key e' (completions w)\<rparr>)"
| p_acknowledge:
    "map_of (completions w) key = Some e \<Longrightarrow> \<not> application_unfinished (snapshot e) \<Longrightarrow>
     prim (u, ls, w) (u, ls, w\<lparr>completions := AList.delete key (completions w)\<rparr>)"
| p_other:
    "same_registry w v \<Longrightarrow> prim (u, ls, w) (u, ls, v)"
| p_drop:
    "l \<in> set ls \<Longrightarrow> prim (u, ls, w) (u, remove1 l ls, operation_lease_drop l w)"

inductive_cases primE: "prim s s'"
inductive_cases op_stepE: "op_step s s'"

subsection \<open>Association lists with distinct keys\<close>

lemma map_of_splits:
  assumes "distinct (map fst xs)" "map_of xs k = Some v"
  obtains ys zs where "xs = ys @ (k, v) # zs" "k \<notin> fst ` set ys" "k \<notin> fst ` set zs"
proof -
  obtain ys zs where "xs = ys @ (k, v) # zs" using map_of_SomeD [OF assms(2)] by (meson split_list)
  with assms(1) that show thesis by fastforce
qed

lemma update_absent: "map_of xs k = None \<Longrightarrow> AList.update k v xs = xs @ [(k, v)]"
  by (induction xs) (auto split: if_split_asm)

lemma update_split: "k \<notin> fst ` set ys \<Longrightarrow> AList.update k v' (ys @ (k, v) # zs) = ys @ (k, v') # zs"
  by (induction ys) auto

lemma delete_split:
  "k \<notin> fst ` set ys \<Longrightarrow> k \<notin> fst ` set zs \<Longrightarrow> AList.delete k (ys @ (k, v) # zs) = ys @ zs"
  by (induction ys) (auto simp: delete_idem)

lemma map_of_in_set: "distinct (map fst xs) \<Longrightarrow> (k, v) \<in> set xs \<longleftrightarrow> map_of xs k = Some v"
  by auto

lemma delete_is_filter: "\<exists>keep. AList.delete k xs = filter keep xs"
  using AList.delete_eq by metis

lemma keep_all: "\<exists>keep. xs = filter keep xs"
  by (rule exI [of _ "\<lambda>_. True"]) simp

lemma length_delete_present:
  assumes "distinct (map fst xs)" "map_of xs k = Some v"
  shows "Suc (length (AList.delete k xs)) = length xs"
proof -
  from assms obtain ys zs where "xs = ys @ (k, v) # zs" "k \<notin> fst ` set ys" "k \<notin> fst ` set zs"
    by (rule map_of_splits)
  then show ?thesis by (simp add: delete_split)
qed

lemma length_update: "length (AList.update k v xs) = (if map_of xs k = None then Suc (length xs) else length xs)"
  by (induction xs) auto

subsection \<open>The leases the tables know of\<close>

definition read_leases :: "(string \<times> read_entry) list \<Rightarrow> operation_lease list" where
  "read_leases es =
     concat (map (\<lambda>(k, e). case entry_state e of
                    Active t _ \<Rightarrow> [\<lparr>op_id = k, op_token = t, op_kind = lease_kind_of (read_kind e)\<rparr>]
                  | _ \<Rightarrow> []) es)"

definition accepted_leases :: "(string \<times> accepted_entry) list \<Rightarrow> operation_lease list" where
  "accepted_leases es = map (\<lambda>(k, e). \<lparr>op_id = k, op_token = accepted_token e, op_kind = LeaseAccepted\<rparr>) es"

definition table_leases :: "'o op_world \<Rightarrow> operation_lease list" where
  "table_leases w = read_leases (reads w) @ accepted_leases (accepted w)"

lemma read_leases_simps [simp]:
  "read_leases [] = []"
  "read_leases ((k, e) # es) =
     (case entry_state e of
        Active t _ \<Rightarrow> \<lparr>op_id = k, op_token = t, op_kind = lease_kind_of (read_kind e)\<rparr> # read_leases es
      | _ \<Rightarrow> read_leases es)"
  "read_leases (es @ fs) = read_leases es @ read_leases fs"
  by (simp_all add: read_leases_def split: read_entry_state.split)

lemma accepted_leases_simps [simp]:
  "accepted_leases [] = []"
  "accepted_leases ((k, e) # es) =
     \<lparr>op_id = k, op_token = accepted_token e, op_kind = LeaseAccepted\<rparr> # accepted_leases es"
  "accepted_leases (es @ fs) = accepted_leases es @ accepted_leases fs"
  by (simp_all add: accepted_leases_def)

lemma read_leases_filter:
  "(\<And>k e. (k, e) \<in> set es \<Longrightarrow> is_active (entry_state e) \<Longrightarrow> keep (k, e)) \<Longrightarrow>
   read_leases (filter keep es) = read_leases es"
proof (induction es)
  case (Cons p es)
  obtain k e where [simp]: "p = (k, e)" by fastforce
  have "is_active (entry_state e) \<Longrightarrow> keep (k, e)" using Cons.prems by auto
  moreover have "read_leases (filter keep es) = read_leases es" by (rule Cons.IH) (use Cons.prems in auto)
  ultimately show ?case by (auto simp: is_active_def split: read_entry_state.splits)
qed simp

lemma read_leases_update:
  assumes "distinct (map fst es)" "map_of es k = Some e" "\<not> is_active (entry_state e)"
  shows "mset (read_leases (AList.update k e' es)) = mset (read_leases [(k, e')]) + mset (read_leases es)"
    and "read_leases (AList.delete k es) = read_leases es"
proof -
  from assms(1,2) obtain ys zs where *: "es = ys @ (k, e) # zs" "k \<notin> fst ` set ys" "k \<notin> fst ` set zs"
    by (rule map_of_splits)
  have none: "read_leases [(k, e)] = []" using assms(3) by (auto simp: is_active_def split: read_entry_state.splits)
  then have "read_leases ((k, e) # zs) = read_leases zs" by (simp split: read_entry_state.splits)
  with * show "read_leases (AList.delete k es) = read_leases es" by (simp add: delete_split del: read_leases_simps(2))
  from * none show "mset (read_leases (AList.update k e' es)) = mset (read_leases [(k, e')]) + mset (read_leases es)"
    by (simp add: update_split split: read_entry_state.splits)
qed

lemma read_leases_delete_active:
  assumes "distinct (map fst es)" "map_of es k = Some e" "entry_state e = Active t label"
  shows "mset (read_leases es) =
    {#\<lparr>op_id = k, op_token = t, op_kind = lease_kind_of (read_kind e)\<rparr>#} + mset (read_leases (AList.delete k es))"
proof -
  from assms(1,2) obtain ys zs where "es = ys @ (k, e) # zs" "k \<notin> fst ` set ys" "k \<notin> fst ` set zs"
    by (rule map_of_splits)
  with assms(3) show ?thesis by (simp add: delete_split)
qed

lemma accepted_leases_delete:
  assumes "distinct (map fst es)" "map_of es k = Some e"
  shows "mset (accepted_leases es) =
    {#\<lparr>op_id = k, op_token = accepted_token e, op_kind = LeaseAccepted\<rparr>#} + mset (accepted_leases (AList.delete k es))"
proof -
  from assms obtain ys zs where "es = ys @ (k, e) # zs" "k \<notin> fst ` set ys" "k \<notin> fst ` set zs"
    by (rule map_of_splits)
  then show ?thesis by (simp add: delete_split)
qed

lemma accepted_leases_update:
  assumes "distinct (map fst es)" "map_of es k = Some e" "accepted_token e' = accepted_token e"
  shows "accepted_leases (AList.update k e' es) = accepted_leases es"
proof -
  from assms(1,2) obtain ys zs where "es = ys @ (k, e) # zs" "k \<notin> fst ` set ys" "k \<notin> fst ` set zs"
    by (rule map_of_splits)
  with assms(3) show ?thesis by (simp add: update_split)
qed

lemma in_read_leases:
  "l \<in> set (read_leases es) \<longleftrightarrow>
   (\<exists>(k, e) \<in> set es. \<exists>t label. entry_state e = Active t label \<and>
      l = \<lparr>op_id = k, op_token = t, op_kind = lease_kind_of (read_kind e)\<rparr>)"
proof (induction es)
  case (Cons p es)
  obtain k e where p: "p = (k, e)" by fastforce
  show ?case by (cases "entry_state e") (simp_all add: p Cons.IH)
qed simp

lemma in_accepted_leases:
  "l \<in> set (accepted_leases es) \<longleftrightarrow>
   (\<exists>(k, e) \<in> set es. l = \<lparr>op_id = k, op_token = accepted_token e, op_kind = LeaseAccepted\<rparr>)"
  by (auto simp: accepted_leases_def)

lemma active_tokens_read_leases: "set (active_tokens es) = op_token ` set (read_leases es)"
  by (induction es) (auto simp: active_tokens_def split: read_entry_state.splits)

subsection \<open>Leases and tables agree\<close>

text \<open>
  Keys are distinct, an active reservation is a read or an analysis, every live lease has its entry
  with the same token and every active or accepted entry has exactly one live lease.
\<close>

fun op_ok :: "'o op_system \<Rightarrow> bool" where
  "op_ok (u, ls, w) \<longleftrightarrow>
     distinct (map fst (reads w)) \<and> distinct (map fst (accepted w)) \<and> distinct (map fst (completions w))
     \<and> fst ` set (reads w) \<subseteq> u
     \<and> (\<forall>(k, e) \<in> set (reads w). is_active (entry_state e) \<longrightarrow> lease_kind_of (read_kind e) \<noteq> LeaseAccepted)
     \<and> mset ls = mset (table_leases w)
     \<and> distinct (map op_token ls) \<and> (\<forall>l \<in> set ls. op_token l < next_token w)"

lemma op_ok_start: "op_ok op_start"
  by (simp add: op_start_def op_world_start_def table_leases_def)

lemma token_cancel_simps [simp]:
  "reads (token_cancel t w) = reads w" "accepted (token_cancel t w) = accepted w"
  "completions (token_cancel t w) = completions w" "accounts (token_cancel t w) = accounts w"
  "sealed (token_cancel t w) = sealed w" "next_token (token_cancel t w) = next_token w"
  "cancelled (token_cancel t w) x \<longleftrightarrow> x = t \<or> cancelled w x"
  by (simp_all add: token_cancel_def)

lemma token_new_simps [simp]:
  "fst (token_new w) = next_token w" "reads (snd (token_new w)) = reads w"
  "accepted (snd (token_new w)) = accepted w" "completions (snd (token_new w)) = completions w"
  "accounts (snd (token_new w)) = accounts w" "sealed (snd (token_new w)) = sealed w"
  "next_token (snd (token_new w)) = Suc (next_token w)"
  "cancelled (snd (token_new w)) x \<longleftrightarrow> x \<noteq> next_token w \<and> cancelled w x"
  by (simp_all add: token_new_def)

lemma add_accepted_simps [simp]:
  "reads (add_accepted key e w) = reads w" "completions (add_accepted key e w) = completions w"
  "accounts (add_accepted key e w) = accounts w" "sealed (add_accepted key e w) = sealed w"
  "next_token (add_accepted key e w) = Suc (next_token w)"
  "cancelled (add_accepted key e w) x \<longleftrightarrow> x \<noteq> next_token w \<and> cancelled w x"
  "accepted (add_accepted key e w) = AList.update key (e\<lparr>accepted_token := next_token w\<rparr>) (accepted w)"
  by (simp_all add: add_accepted_def token_new_def Let_def split_def)

lemma op_okI:
  "\<lbrakk>distinct (map fst (reads w)); distinct (map fst (accepted w)); distinct (map fst (completions w));
    fst ` set (reads w) \<subseteq> u;
    \<And>k e. (k, e) \<in> set (reads w) \<Longrightarrow> is_active (entry_state e) \<Longrightarrow> lease_kind_of (read_kind e) \<noteq> LeaseAccepted;
    mset ls = mset (table_leases w); distinct (map op_token ls); \<And>l. l \<in> set ls \<Longrightarrow> op_token l < next_token w\<rbrakk>
   \<Longrightarrow> op_ok (u, ls, w)"
  by auto

lemma op_okD:
  assumes "op_ok (u, ls, w)"
  shows "distinct (map fst (reads w))" "distinct (map fst (accepted w))" "distinct (map fst (completions w))"
    "fst ` set (reads w) \<subseteq> u"
    "\<And>k e. (k, e) \<in> set (reads w) \<Longrightarrow> is_active (entry_state e) \<Longrightarrow> lease_kind_of (read_kind e) \<noteq> LeaseAccepted"
    "mset ls = mset (table_leases w)" "distinct (map op_token ls)" "\<And>l. l \<in> set ls \<Longrightarrow> op_token l < next_token w"
  using assms by auto

lemma op_ok_new_token:
  assumes ok: "op_ok (u, ls, w)"
  shows "distinct (map op_token (\<lparr>op_id = key, op_token = next_token w, op_kind = kind\<rparr> # ls))"
    and "l \<in> set (\<lparr>op_id = key, op_token = next_token w, op_kind = kind\<rparr> # ls) \<Longrightarrow> op_token l < Suc (next_token w)"
  using op_okD(7) [OF ok] op_okD(8) [OF ok] by (force, fastforce simp: less_Suc_eq)

lemma op_ok_accept:
  assumes ok: "op_ok (u, ls, w)" and new: "map_of (accepted w) key = None"
  shows "op_ok (u, \<lparr>op_id = key, op_token = next_token w, op_kind = LeaseAccepted\<rparr> # ls, add_accepted key e w)"
proof (rule op_okI)
  show "mset (\<lparr>op_id = key, op_token = next_token w, op_kind = LeaseAccepted\<rparr> # ls) = mset (table_leases (add_accepted key e w))"
    using new op_okD(6) [OF ok] by (simp add: table_leases_def update_absent)
qed (use op_okD [OF ok] op_ok_new_token [OF ok] in \<open>simp_all add: distinct_update\<close>)

text \<open>Changes of the tables that keep every lease's entry.\<close>

lemma op_ok_frame:
  assumes ok: "op_ok (u, ls, w)" and d: "distinct (map fst (reads v))" "distinct (map fst (accepted v))"
    "distinct (map fst (completions v))"
    and r: "fst ` set (reads v) \<subseteq> u'"
    and k: "\<And>k e. (k, e) \<in> set (reads v) \<Longrightarrow> is_active (entry_state e) \<Longrightarrow> (k, e) \<in> set (reads w)"
    and t: "mset (read_leases (reads v)) = mset (read_leases (reads w))"
      "accepted_leases (accepted v) = accepted_leases (accepted w)" "next_token v = next_token w"
  shows "op_ok (u', ls, v)"
proof (rule op_okI)
  show "mset ls = mset (table_leases v)" using op_okD(6) [OF ok] t by (simp add: table_leases_def)
  show "lease_kind_of (read_kind e) \<noteq> LeaseAccepted" if "(k, e) \<in> set (reads v)" "is_active (entry_state e)" for k e
    using op_okD(5) [OF ok] k that by blast
qed (use op_okD [OF ok] d r t(3) in simp_all)

lemma op_ok_drop:
  assumes ok: "op_ok (u, ls, w)" and l: "l \<in> set ls"
  shows "op_ok (u, remove1 l ls, operation_lease_drop l w)"
proof -
  have "l \<in># mset (table_leases w)" using ok l by (metis op_ok.simps set_mset_mset)
  then consider (read) k e t label where "(k, e) \<in> set (reads w)" "entry_state e = Active t label"
      "l = \<lparr>op_id = k, op_token = t, op_kind = lease_kind_of (read_kind e)\<rparr>"
    | (accepted) k e where "(k, e) \<in> set (accepted w)"
      "l = \<lparr>op_id = k, op_token = accepted_token e, op_kind = LeaseAccepted\<rparr>"
    by (auto simp: table_leases_def in_read_leases in_accepted_leases)
  then have "mset (table_leases w) = add_mset l (mset (table_leases (operation_lease_drop l w)))
      \<and> (\<exists>keep. reads (operation_lease_drop l w) = filter keep (reads w))
      \<and> (\<exists>keep. accepted (operation_lease_drop l w) = filter keep (accepted w))
      \<and> completions (operation_lease_drop l w) = completions w
      \<and> next_token (operation_lease_drop l w) = next_token w"
  proof cases
    case read
    have m: "map_of (reads w) k = Some e" using read(1) op_okD(1) [OF ok] by simp
    have "lease_kind_of (read_kind e) \<noteq> LeaseAccepted" using op_okD(5) [OF ok read(1)] read(2) by (simp add: is_active_def)
    then have d: "operation_lease_drop l w = w\<lparr>reads := AList.delete k (reads w)\<rparr>"
      by (auto simp: operation_lease_drop_def read(3) split: lease_kind.splits)
    have "mset (read_leases (reads w)) = {#l#} + mset (read_leases (AList.delete k (reads w)))"
      using read_leases_delete_active [OF op_okD(1) [OF ok] m read(2)] read(3) by simp
    then show ?thesis using delete_is_filter [of k "reads w"] keep_all [of "accepted w"]
      by (simp add: d table_leases_def)
  next
    case accepted
    have m: "map_of (accepted w) k = Some e" using accepted(1) op_okD(2) [OF ok] by simp
    have "mset (accepted_leases (accepted w)) = {#l#} + mset (accepted_leases (AList.delete k (accepted w)))"
      using accepted_leases_delete [OF op_okD(2) [OF ok] m] accepted(2) by simp
    moreover have "operation_lease_drop l w = w\<lparr>accepted := AList.delete k (accepted w)\<rparr>"
      by (simp add: operation_lease_drop_def accepted(2))
    ultimately show ?thesis using delete_is_filter [of k "accepted w"] keep_all [of "reads w"]
      by (simp add: table_leases_def)
  qed
  then obtain keep keep' where m: "mset (table_leases w) = add_mset l (mset (table_leases (operation_lease_drop l w)))"
    and r: "reads (operation_lease_drop l w) = filter keep (reads w)"
    and a: "accepted (operation_lease_drop l w) = filter keep' (accepted w)"
    and c: "completions (operation_lease_drop l w) = completions w"
      "next_token (operation_lease_drop l w) = next_token w" by blast
  show ?thesis
  proof (rule op_okI)
    show "mset (remove1 l ls) = mset (table_leases (operation_lease_drop l w))"
      using m op_okD(6) [OF ok] by simp
    show "distinct (map op_token (remove1 l ls))"
      using op_okD(7) [OF ok] by (metis distinct_map distinct_remove1 inj_on_subset set_remove1_subset)
    show "op_token x < next_token (operation_lease_drop l w)" if "x \<in> set (remove1 l ls)" for x
      using op_okD(8) [OF ok] that notin_set_remove1 c(2) by metis
    show "lease_kind_of (read_kind e) \<noteq> LeaseAccepted"
      if "(k, e) \<in> set (reads (operation_lease_drop l w))" "is_active (entry_state e)" for k e
      using op_okD(5) [OF ok, of k e] that by (simp add: r)
  qed (use op_okD [OF ok] in \<open>auto simp: r a c distinct_map_filter\<close>)
qed

lemma prim_ok: "prim s s' \<Longrightarrow> op_ok s \<Longrightarrow> op_ok s'"
proof (induction rule: prim.induct)
  case (p_forget w keep u ls)
  show ?case
    by (rule op_ok_frame [OF p_forget.prems])
      (use op_okD [OF p_forget.prems] p_forget.hyps in \<open>auto simp: read_leases_filter distinct_map_filter\<close>)
next
  case (p_reserve ticket u w e owner kind created ls)
  have new: "map_of (reads w) ticket = None" using op_okD(4) [OF p_reserve.prems] p_reserve.hyps(1)
    by (auto simp: map_of_eq_None_iff)
  show ?case
    by (rule op_ok_frame [OF p_reserve.prems])
      (use op_okD [OF p_reserve.prems] p_reserve.hyps(4) new in
        \<open>auto simp: distinct_update update_absent is_active_def map_of_eq_None_iff\<close>)
next
  case (p_claim w ticket e t v u ls label)
  have v: "v = snd (token_new w)" "t = next_token w" using p_claim.hyps(5) by (auto simp: token_new_def)
  note d = op_okD [OF p_claim.prems]
  have idle: "\<not> is_active (entry_state e)" using p_claim.hyps(3) by (auto simp: is_reserved_def is_active_def split: read_entry_state.splits)
  obtain ys zs where split: "reads w = ys @ (ticket, e) # zs" "ticket \<notin> fst ` set ys" "ticket \<notin> fst ` set zs"
    using d(1) p_claim.hyps(2) by (rule map_of_splits)
  show ?case
  proof (rule op_okI)
    show "mset (\<lparr>op_id = ticket, op_token = t, op_kind = lease_kind_of (read_kind e)\<rparr> # ls) =
      mset (table_leases (v\<lparr>reads := AList.update ticket (e\<lparr>entry_state := Active t label\<rparr>) (reads v)\<rparr>))"
      using read_leases_update(1) [OF d(1) p_claim.hyps(2) idle, of "e\<lparr>entry_state := Active t label\<rparr>"] d(6)
      by (simp add: table_leases_def v)
    show "lease_kind_of (read_kind f) \<noteq> LeaseAccepted"
      if "(k, f) \<in> set (reads (v\<lparr>reads := AList.update ticket (e\<lparr>entry_state := Active t label\<rparr>) (reads v)\<rparr>))"
        "is_active (entry_state f)" for k f
      using that d(5) p_claim.hyps(4) split by (auto simp: v update_split)
    show "fst ` set (reads (v\<lparr>reads := AList.update ticket (e\<lparr>entry_state := Active t label\<rparr>) (reads v)\<rparr>)) \<subseteq> u"
      using d(4) split by (simp add: v update_split)
  qed (use d op_ok_new_token [OF p_claim.prems] in \<open>simp_all add: v distinct_update\<close>)
next
  case (p_mark w ticket e u ls created)
  note d = op_okD [OF p_mark.prems]
  have idle: "\<not> is_active (entry_state e)" using p_mark.hyps(2) by (auto simp: is_reserved_def is_active_def split: read_entry_state.splits)
  obtain ys zs where split: "reads w = ys @ (ticket, e) # zs" "ticket \<notin> fst ` set ys" "ticket \<notin> fst ` set zs"
    using d(1) p_mark.hyps(1) by (rule map_of_splits)
  have m: "mset (read_leases (AList.update ticket (e\<lparr>entry_state := CancelledReserved created\<rparr>) (reads w)))
      = mset (read_leases (reads w))"
    using read_leases_update(1) [OF d(1) p_mark.hyps(1) idle, of "e\<lparr>entry_state := CancelledReserved created\<rparr>"] by simp
  show ?case
    by (rule op_ok_frame [OF p_mark.prems])
      (use d m split in \<open>auto simp: distinct_update update_split is_active_def split: read_entry_state.splits\<close>)
next
  case (p_claim_prepared w ticket r e u ls)
  note d = op_okD [OF p_claim_prepared.prems]
  have idle: "\<not> is_active (entry_state r)"
    using p_claim_prepared.hyps(5) by (auto simp: is_reserved_def is_active_def split: read_entry_state.splits)
  let ?w = "w\<lparr>reads := AList.delete ticket (reads w)\<rparr>"
  have "op_ok (u, ls, ?w)"
    by (rule op_ok_frame [OF p_claim_prepared.prems])
      (use d read_leases_update(2) [OF d(1) p_claim_prepared.hyps(4) idle] in \<open>auto simp: AList.delete_eq distinct_map_filter\<close>)
  from op_ok_accept [OF this, of ticket e] p_claim_prepared.hyps(3) show ?case by simp
next
  case (p_accept key u w e ls)
  have "op_ok (insert key u, ls, w)" using p_accept.prems by (auto simp del: mset_append)
  from op_ok_accept [OF this p_accept.hyps(4)] show ?case .
next
  case (p_tail w key e u ls)
  show ?case by (rule op_ok_accept [OF p_tail.prems p_tail.hyps(3)])
next
  case (p_commit w key e u ls)
  note d = op_okD [OF p_commit.prems]
  show ?case
    by (rule op_ok_frame [OF p_commit.prems])
      (use d accepted_leases_update [OF d(2) p_commit.hyps(1)] in \<open>simp_all add: distinct_update\<close>)
next
  case (p_drop l ls u w)
  show ?case by (rule op_ok_drop [OF p_drop.prems p_drop.hyps])
next
  case (p_cancel t w u ls)
  show ?case by (rule op_ok_frame [OF p_cancel.prems]) (use op_okD [OF p_cancel.prems] in simp_all)
next
  case (p_seal u ls w)
  show ?case by (rule op_ok_frame [OF p_seal.prems]) (use op_okD [OF p_seal.prems] in simp_all)
next
  case (p_issue u ls w key)
  show ?case by (rule op_ok_frame [OF p_issue.prems]) (use op_okD [OF p_issue.prems] in auto)
next
  case (p_complete w key e u ls)
  show ?case by (rule op_ok_frame [OF p_complete.prems]) (use op_okD [OF p_complete.prems] in \<open>simp_all add: distinct_update\<close>)
next
  case (p_update w key e e' u ls)
  show ?case by (rule op_ok_frame [OF p_update.prems]) (use op_okD [OF p_update.prems] in \<open>simp_all add: distinct_update\<close>)
next
  case (p_acknowledge w key e u ls)
  show ?case by (rule op_ok_frame [OF p_acknowledge.prems]) (use op_okD [OF p_acknowledge.prems] in \<open>simp_all add: distinct_delete\<close>)
next
  case (p_other w v u ls)
  show ?case by (rule op_ok_frame [OF p_other.prems]) (use op_okD [OF p_other.prems] p_other.hyps in \<open>simp_all add: same_registry_def\<close>)
qed

end
