(* ===== verification/OperationRefine.thy ===== *)
theory OperationRefine
  imports OperationSteps
begin

text \<open>
  Every call of the registry is a sequence of the elementary changes of \<^term>\<open>prim\<close>
  (\<^verbatim>\<open>op_step_prims\<close>): what is proved of those holds in every reachable state of the registry.
\<close>

lemma prims_ok: "prim\<^sup>*\<^sup>* s s' \<Longrightarrow> op_ok s \<Longrightarrow> op_ok s'"
  by (induction rule: rtranclp_induct) (auto intro: prim_ok)

lemma prim_purge: "prim (u, ls, w) (u, ls, purge_expired now w)"
  unfolding purge_expired_def
  by (rule p_forget) (auto simp: reservation_live_def is_active_def split: read_entry_state.splits)

lemma purge_simps [simp]:
  "accepted (purge_expired now w) = accepted w" "completions (purge_expired now w) = completions w"
  "sealed (purge_expired now w) = sealed w" "cancelled (purge_expired now w) = cancelled w"
  "next_token (purge_expired now w) = next_token w" "accounts (purge_expired now w) = accounts w"
  "next_retirement (purge_expired now w) = next_retirement w"
  by (simp_all add: purge_expired_def)

lemma after_purge:
  assumes "op_ok (u, ls, w)"
    and "op_ok (u, ls, purge_expired now w) \<Longrightarrow> prim\<^sup>*\<^sup>* (u, ls, purge_expired now w) s"
  shows "prim\<^sup>*\<^sup>* (u, ls, w) s"
  using assms prim_ok [OF prim_purge assms(1)] prim_purge by (meson converse_rtranclp_into_rtranclp)

lemma prim_delete_idle:
  assumes ok: "op_ok (u, ls, w)" and e: "map_of (reads w) ticket = Some e" "\<not> is_active (entry_state e)"
  shows "prim (u, ls, w) (u, ls, w\<lparr>reads := AList.delete ticket (reads w)\<rparr>)"
proof -
  have "prim (u, ls, w) (u, ls, w\<lparr>reads := filter (\<lambda>(k, _). ticket \<noteq> k) (reads w)\<rparr>)"
  proof (rule p_forget)
    fix k f assume "(k, f) \<in> set (reads w)" "is_active (entry_state f)"
    moreover from this have "map_of (reads w) k = Some f" using op_okD(1) [OF ok] by simp
    ultimately show "case (k, f) of (k, _) \<Rightarrow> ticket \<noteq> k" using e by auto
  qed
  then show ?thesis by (simp add: AList.delete_eq split_def)
qed

lemma not_accepted_kind_idle:
  "op_ok (u, ls, w) \<Longrightarrow> map_of (reads w) ticket = Some e \<Longrightarrow> lease_kind_of (read_kind e) = LeaseAccepted \<Longrightarrow>
   \<not> is_active (entry_state e)"
  by (metis map_of_SomeD op_okD(5))

lemma sim_prepare:
  assumes "op_ok (u, ls, w)" "ticket \<notin> u" "prepare_reservation ticket now created owner kind w = (r, w')"
  shows "prim\<^sup>*\<^sup>* (u, ls, w) (insert ticket u, ls, w')"
proof (rule after_purge [OF assms(1), of now])
  let ?v = "purge_expired now w"
  have "prim (u, ls, ?v) (insert ticket u, ls, w')"
    using assms(2,3) by (auto simp: prepare_reservation_def Let_def not_le split: if_split_asm intro: p_issue p_reserve)
  then show "prim\<^sup>*\<^sup>* (u, ls, ?v) (insert ticket u, ls, w')" by blast
qed

lemma sim_claim:
  assumes "op_ok (u, ls, w)" "claim_reservation now ticket owner kind label w = (r, w')"
    "lease_kind_of kind \<noteq> LeaseAccepted"
  shows "prim\<^sup>*\<^sup>* (u, ls, w) (u, admitted r ls, w')"
proof (rule after_purge [OF assms(1), of now])
  let ?v = "purge_expired now w"
  show "prim\<^sup>*\<^sup>* (u, ls, ?v) (u, admitted r ls, w')"
  proof (cases r)
    case (Inl err)
    then have "w' = ?v" using assms(2)
      by (auto simp: claim_reservation_def Let_def split: if_split_asm option.split_asm prod.split_asm)
    with Inl show ?thesis by (simp add: admitted_def)
  next
    case (Inr l)
    obtain e t v where c: "\<not> sealed ?v" "map_of (reads ?v) ticket = Some e" "claim_refused kind owner e = None"
        "is_reserved (entry_state e)" "token_new ?v = (t, v)"
      and l: "l = \<lparr>op_id = ticket, op_token = t, op_kind = lease_kind_of kind\<rparr>"
        "w' = v\<lparr>reads := AList.update ticket (e\<lparr>entry_state := Active t label\<rparr>) (reads v)\<rparr>"
      using assms(2) Inr by (auto simp: claim_reservation_def Let_def split: if_split_asm option.split_asm prod.split_asm)
    have "read_kind e = kind" using c(3) assms(3)
      by (auto simp: claim_refused_def split: reservation_kind.splits if_split_asm)
    with p_claim [OF c(1,2,4) _ c(5), of u ls label] assms(3) show ?thesis by (auto simp: Inr l admitted_def)
  qed
qed

lemma prims_cancel_entry:
  assumes "op_ok (u, ls, w)"
  shows "prim\<^sup>*\<^sup>* (u, ls, w) (u, ls, cancel_entry ticket w)"
proof (cases "map_of (reads w) ticket")
  case None
  then show ?thesis by (simp add: cancel_entry_def)
next
  case (Some e)
  show ?thesis
  proof (cases "entry_state e")
    case (Active t label)
    then have "t \<in> set (active_tokens (reads w))" using map_of_SomeD [OF Some] by (force simp: active_tokens_def)
    then have "prim (u, ls, w) (u, ls, token_cancel t w)" by (intro p_cancel) (simp add: op_cancellable_def)
    then show ?thesis by (auto simp: cancel_entry_def Some Active)
  next
    case (Reserved n)
    then show ?thesis using prim_delete_idle [OF assms Some] by (auto simp: cancel_entry_def Some is_active_def)
  next
    case (CancelledReserved n)
    then show ?thesis using prim_delete_idle [OF assms Some] by (auto simp: cancel_entry_def Some is_active_def)
  qed
qed

lemma prims_cancel_entries:
  "op_ok (u, ls, w) \<Longrightarrow> prim\<^sup>*\<^sup>* (u, ls, w) (u, ls, fold cancel_entry tickets w)"
proof (induction tickets arbitrary: w)
  case (Cons x xs)
  note head = prims_cancel_entry [OF Cons.prems, of x]
  from Cons.IH [OF prims_ok [OF head Cons.prems]] head show ?case by simp
qed simp

lemma sim_cancel_reservation:
  assumes ok: "op_ok (u, ls, w)" and c: "cancel_reservation now ticket owner analysis w = (r, w')"
  shows "prim\<^sup>*\<^sup>* (u, ls, w) (u, ls, w')"
proof (rule after_purge [OF ok, of now])
  let ?v = "purge_expired now w"
  assume "op_ok (u, ls, ?v)"
  moreover have "w' = ?v \<or> w' = cancel_entry ticket ?v" using c
    by (auto simp: cancel_reservation_def Let_def split: if_split_asm option.split_asm)
  ultimately show "prim\<^sup>*\<^sup>* (u, ls, ?v) (u, ls, w')" using prims_cancel_entry by blast
qed

lemma sim_accept:
  assumes "key \<notin> u" "accept_in_state key label w = (r, w')"
  shows "prim (u, ls, w) (insert key u, admitted r ls, w')"
proof (cases r)
  case (Inl err)
  then have "w' = w" using assms(2) by (auto simp: accept_in_state_def Let_def split: if_split_asm prod.split_asm)
  with Inl show ?thesis by (auto simp: admitted_def intro: p_issue)
next
  case (Inr l)
  let ?e = "\<lparr>accepted_owner = [], accepted_label = label, accepted_token = next_token w, accepted_kind = None,
             accepted_progress = None, admission_key = None, committing = False\<rparr>"
  have "\<not> sealed w" "occupied w < MAX_ACCEPTED_OPERATIONS" "map_of (accepted w) key = None"
    "l = \<lparr>op_id = key, op_token = next_token w, op_kind = LeaseAccepted\<rparr>" "w' = add_accepted key ?e w"
    using assms(2) Inr
    by (auto simp: accept_in_state_def add_accepted_def token_new_def Let_def not_le split: if_split_asm)
  then show ?thesis using p_accept [OF assms(1), of w ?e ls] by (simp add: Inr admitted_def)
qed

lemma progress_not_taken:
  assumes "\<not> progress_taken owner p w" "accepted_owner e = owner" "admission_key e = Some (policy_key p)"
  shows "\<forall>(k, d) \<in> set (accepted w). same_admission d e \<longrightarrow> cancelled w (accepted_token d)"
  using assms by (auto simp: progress_taken_def same_admission_def list_ex_iff)

lemma admission_refused_None:
  assumes "admission_refused ticket owner policy w = None"
  shows "occupied w < MAX_ACCEPTED_OPERATIONS" "map_of (accepted w) ticket = None"
    "policy = Some p \<Longrightarrow> \<not> progress_taken owner p w"
  using assms by (auto simp: admission_refused_def split: option.split_asm if_split_asm)

lemma claim_prepared_Inl:
  assumes ok: "op_ok (u, ls, w)" and c: "claim_prepared_in_state now ticket owner label kind policy w = (Inl err, w')"
  shows "prim\<^sup>*\<^sup>* (u, ls, w) (u, ls, w')"
proof (rule after_purge [OF ok, of now])
  let ?v = "purge_expired now w"
  assume okv: "op_ok (u, ls, ?v)"
  show "prim\<^sup>*\<^sup>* (u, ls, ?v) (u, ls, w')"
  proof (cases "map_of (reads ?v) ticket")
    case None
    with c have "w' = ?v" by (simp add: claim_prepared_in_state_def Let_def split: if_split_asm)
    then show ?thesis by simp
  next
    case (Some e)
    have "w' = ?v \<or> \<not> is_active (entry_state e) \<and> w' = ?v\<lparr>reads := AList.delete ticket (reads ?v)\<rparr>"
    proof (cases "entry_state e")
      case (Reserved n)
      with c Some show ?thesis
        by (simp add: claim_prepared_in_state_def Let_def split: if_split_asm option.split_asm prod.split_asm)
    qed (use c Some in \<open>simp_all add: claim_prepared_in_state_def Let_def is_active_def split: if_split_asm\<close>)
    with prim_delete_idle [OF okv Some] show ?thesis by blast
  qed
qed

lemma claim_prepared_Inr:
  assumes c: "claim_prepared_in_state now ticket owner label kind policy w = (Inr l, w')"
  obtains r e where "\<not> sealed w" "map_of (reads (purge_expired now w)) ticket = Some r"
    "read_owner r = owner" "read_kind r = kind" "is_reserved (entry_state r)"
    "admission_refused ticket owner policy (purge_expired now w) = None"
    "e = \<lparr>accepted_owner = owner, accepted_label = label, accepted_token = next_token w, accepted_kind = Some kind,
          accepted_progress = map_option policy_progress policy, admission_key = map_option policy_key policy,
          committing = False\<rparr>"
    "l = \<lparr>op_id = ticket, op_token = next_token w, op_kind = LeaseAccepted\<rparr>"
    "w' = add_accepted ticket e ((purge_expired now w)\<lparr>reads := AList.delete ticket (reads (purge_expired now w))\<rparr>)"
proof -
  let ?v = "purge_expired now w"
  have unsealed: "\<not> sealed w" using c by (auto simp: claim_prepared_in_state_def Let_def)
  obtain r where r: "map_of (reads ?v) ticket = Some r"
    using c unsealed by (cases "map_of (reads ?v) ticket") (auto simp: claim_prepared_in_state_def Let_def)
  have o: "read_owner r = owner" "read_kind r = kind"
    using c unsealed r by (auto simp: claim_prepared_in_state_def Let_def split: if_split_asm)
  have st: "is_reserved (entry_state r)"
    using c unsealed r o by (cases "entry_state r") (simp_all add: claim_prepared_in_state_def Let_def is_reserved_def)
  then obtain n where n: "entry_state r = Reserved n" by (auto simp: is_reserved_def split: read_entry_state.split_asm)
  have a: "admission_refused ticket owner policy ?v = None"
    using c unsealed r o n by (cases "admission_refused ticket owner policy ?v") (simp_all add: claim_prepared_in_state_def Let_def)
  show thesis
    by (rule that [OF unsealed r o st a refl]) (use c unsealed r o n a in \<open>simp_all add: claim_prepared_in_state_def Let_def add_accepted_def token_new_def\<close>)
qed

lemma claim_prepared_prims:
  assumes ok: "op_ok (u, ls, w)" and c: "claim_prepared_in_state now ticket owner label kind policy w = (Inr l, w')"
    and p: "kind = DownloadKind \<Longrightarrow> policy \<noteq> None"
  shows "prim\<^sup>*\<^sup>* (u, ls, w) (u, l # ls, w')" and "length (accepted w') \<le> MAX_ACCEPTED_OPERATIONS"
    and "completions w' = completions w" and "next_retirement w' = next_retirement w"
proof -
  let ?v = "purge_expired now w"
  obtain r e where r: "\<not> sealed w" "map_of (reads ?v) ticket = Some r" "read_owner r = owner" "read_kind r = kind"
    "is_reserved (entry_state r)" "admission_refused ticket owner policy ?v = None"
    and e: "e = \<lparr>accepted_owner = owner, accepted_label = label, accepted_token = next_token w, accepted_kind = Some kind,
          accepted_progress = map_option policy_progress policy, admission_key = map_option policy_key policy,
          committing = False\<rparr>"
    and l: "l = \<lparr>op_id = ticket, op_token = next_token w, op_kind = LeaseAccepted\<rparr>"
    and w': "w' = add_accepted ticket e (?v\<lparr>reads := AList.delete ticket (reads ?v)\<rparr>)"
    using c by (rule claim_prepared_Inr)
  note a = admission_refused_None [OF r(6)]
  have same: "\<forall>(k, d) \<in> set (accepted ?v). same_admission d e \<longrightarrow> cancelled ?v (accepted_token d)"
  proof (cases policy)
    case None
    with p have "kind \<noteq> DownloadKind" by blast
    then show ?thesis by (auto simp: same_admission_def e is_download_def)
  next
    case (Some q)
    show ?thesis by (rule progress_not_taken [OF a(3) [OF Some]]) (simp_all add: e Some)
  qed
  have "prim (u, ls, ?v) (u, \<lparr>op_id = ticket, op_token = next_token ?v, op_kind = LeaseAccepted\<rparr> # ls, w')"
    unfolding w' by (rule p_claim_prepared) (use r(1,2,5) r(4) [symmetric] a(1,2) same in \<open>simp_all add: e\<close>)
  then have "prim (u, ls, ?v) (u, l # ls, w')" by (simp add: l)
  with prim_purge [of u ls w now] show "prim\<^sup>*\<^sup>* (u, ls, w) (u, l # ls, w')"
    by (meson converse_rtranclp_into_rtranclp r_into_rtranclp)
  have "length (accepted ?v) < MAX_ACCEPTED_OPERATIONS" using a(1) by (simp add: occupied_def)
  then show "length (accepted w') \<le> MAX_ACCEPTED_OPERATIONS" by (simp add: w' length_update)
  show "completions w' = completions w" "next_retirement w' = next_retirement w"
    by (simp_all add: w' add_accepted_def token_new_def)
qed

lemma sim_claim_prepared:
  assumes ok: "op_ok (u, ls, w)" and c: "claim_prepared_in_state now ticket owner label kind policy w = (r, w')"
    and p: "kind = DownloadKind \<Longrightarrow> policy \<noteq> None"
  shows "prim\<^sup>*\<^sup>* (u, ls, w) (u, admitted r ls, w')"
  using claim_prepared_Inl [OF ok] claim_prepared_prims(1) [OF ok _ p] c by (cases r) (auto simp: admitted_def)

lemma sim_cancel_prepared:
  assumes ok: "op_ok (u, ls, w)" and c: "cancel_prepared now created ticket owner kind w = (r, w')"
  shows "prim\<^sup>*\<^sup>* (u, ls, w) (u, ls, w')"
proof (rule after_purge [OF ok, of now])
  let ?v = "purge_expired now w"
  show "prim\<^sup>*\<^sup>* (u, ls, ?v) (u, ls, w')"
  proof (cases "map_of (reads ?v) ticket")
    case (Some e)
    then have "w' = ?v \<or> is_reserved (entry_state e) \<and>
        w' = ?v\<lparr>reads := AList.update ticket (e\<lparr>entry_state := CancelledReserved created\<rparr>) (reads ?v)\<rparr>"
      using c by (cases "entry_state e") (auto simp: cancel_prepared_def Let_def is_reserved_def split: if_split_asm)
    with p_mark [OF Some] show ?thesis by blast
  next
    case None
    show ?thesis
    proof (cases "map_of (accepted w) ticket")
      case None
      with \<open>map_of (reads ?v) ticket = None\<close> c show ?thesis by (simp add: cancel_prepared_def Let_def)
    next
      case (Some e)
      have "w' = ?v \<or> \<not> (is_download e \<and> committing e) \<and> w' = token_cancel (accepted_token e) ?v"
        using c None Some
        by (simp add: cancel_prepared_def Let_def cancel_accepted_download_def split: if_split_asm)
      moreover have "op_cancellable (accepted_token e) ?v" if "\<not> (is_download e \<and> committing e)"
        using map_of_SomeD [OF Some] that by (force simp: op_cancellable_def)
      ultimately show ?thesis using p_cancel by blast
    qed
  qed
qed

lemma sim_release:
  assumes ok: "op_ok (u, ls, w)" and c: "release_prepared now ticket owner kind w = (r, w')"
    and k: "lease_kind_of kind = LeaseAccepted"
  shows "prim\<^sup>*\<^sup>* (u, ls, w) (u, ls, w')"
proof (rule after_purge [OF ok, of now])
  let ?v = "purge_expired now w"
  assume okv: "op_ok (u, ls, ?v)"
  consider "w' = ?v" | e where "map_of (reads ?v) ticket = Some e" "read_kind e = kind"
      "w' = ?v\<lparr>reads := AList.delete ticket (reads ?v)\<rparr>"
    using c by (auto simp: release_prepared_def Let_def split: if_split_asm option.split_asm)
  then show "prim\<^sup>*\<^sup>* (u, ls, ?v) (u, ls, w')"
  proof cases
    case (2 e)
    with k not_accepted_kind_idle [OF okv 2(1)] prim_delete_idle [OF okv 2(1)] show ?thesis by auto
  qed simp
qed

lemma prims_cancel_loop:
  "(\<And>e. e \<in> set es \<Longrightarrow> is_download e \<and> e \<in> snd ` set (accepted w)) \<Longrightarrow>
   prim\<^sup>*\<^sup>* (u, ls, w) (u, ls, snd (cancel_progress_loop es already w))"
proof (induction es arbitrary: already)
  case (Cons e es)
  have "op_cancellable (accepted_token e) w" if "\<not> committing e"
    using Cons.prems [of e] that by (force simp: op_cancellable_def)
  then have "prim\<^sup>*\<^sup>* (u, ls, w) (u, ls, snd (cancel_accepted_download e w))"
    by (auto simp: cancel_accepted_download_def intro: p_cancel)
  with Cons show ?case by simp
qed simp

lemma prims_cancel_own:
  "(\<And>k e. (k, e) \<in> set own \<Longrightarrow> (k, e) \<in> set (accepted w) \<and> \<not> committing e) \<Longrightarrow>
   prim\<^sup>*\<^sup>* (u, ls, w) (u, ls, fold (\<lambda>(_, e). token_cancel (accepted_token e)) own w)"
proof (induction own arbitrary: w)
  case (Cons p own)
  obtain k e where p: "p = (k, e)" by fastforce
  have "op_cancellable (accepted_token e) w" using Cons.prems [of k e] by (force simp: op_cancellable_def p)
  then have "prim (u, ls, w) (u, ls, token_cancel (accepted_token e) w)" by (intro p_cancel) simp
  moreover have "prim\<^sup>*\<^sup>* (u, ls, token_cancel (accepted_token e) w)
      (u, ls, fold (\<lambda>(_, e). token_cancel (accepted_token e)) own (token_cancel (accepted_token e) w))"
    by (rule Cons.IH) (use Cons.prems in auto)
  ultimately show ?case by (simp add: p converse_rtranclp_into_rtranclp)
qed simp

lemma accepted_cancel_entry [simp]: "accepted (cancel_entry ticket w) = accepted w"
  by (auto simp: cancel_entry_def split: option.splits read_entry_state.splits)

lemma accepted_fold_cancel_entry [simp]: "accepted (fold cancel_entry tickets w) = accepted w"
  by (induction tickets arbitrary: w) simp_all

lemma fold_cancel_operations:
  "fold (\<lambda>c. cancel_entry (cancelled_id c)) ops = fold cancel_entry (map cancelled_id ops)"
  by (simp add: fold_map o_def)

lemma sim_cancel_owner:
  assumes ok: "op_ok (u, ls, w)" and c: "cancel_owner owner w = (r, w')"
  shows "prim\<^sup>*\<^sup>* (u, ls, w) (u, ls, w')"
proof -
  obtain ops v where v: "cancel_owner_reservations_in_state owner w = (ops, v)" by fastforce
  then have v': "v = fold cancel_entry (map cancelled_id ops) w"
    by (auto simp: cancel_owner_reservations_in_state_def Let_def fold_cancel_operations)
  have w': "w' = fold (\<lambda>(_, e). token_cancel (accepted_token e))
      (filter (\<lambda>(_, e). is_download e \<and> accepted_owner e = owner \<and> \<not> committing e) (accepted v)) v"
    using c v by (simp add: cancel_owner_def Let_def)
  have "prim\<^sup>*\<^sup>* (u, ls, v) (u, ls, w')" unfolding w' by (rule prims_cancel_own) auto
  with prims_cancel_entries [OF ok, of "map cancelled_id ops"] show ?thesis by (simp add: v')
qed

lemma prims_sealed_tokens:
  "sealed w \<Longrightarrow> prim\<^sup>*\<^sup>* (u, ls, w) (u, ls, fold token_cancel ts w)"
proof (induction ts arbitrary: w)
  case (Cons t ts)
  have "prim (u, ls, w) (u, ls, token_cancel t w)" using Cons.prems by (intro p_cancel) simp
  moreover have "prim\<^sup>*\<^sup>* (u, ls, token_cancel t w) (u, ls, fold token_cancel ts (token_cancel t w))"
    by (rule Cons.IH) (simp add: Cons.prems)
  ultimately show ?case by (simp add: converse_rtranclp_into_rtranclp)
qed simp

lemma fold_token_cancel_simps [simp]:
  "reads (fold token_cancel ts w) = reads w" "accepted (fold token_cancel ts w) = accepted w"
  "sealed (fold token_cancel ts w) = sealed w"
  "cancelled (fold token_cancel ts w) t \<longleftrightarrow> t \<in> set ts \<or> cancelled w t"
  by (induction ts arbitrary: w) auto

lemma fold_cancel_accepted:
  "fold (\<lambda>(_, e). token_cancel (accepted_token e)) es = fold token_cancel (map (accepted_token \<circ> snd) es)"
  by (simp add: fold_map o_def split_def)

lemma sim_seal:
  assumes "seal_and_request_cancellation w = (r, w')"
  shows "prim\<^sup>*\<^sup>* (u, ls, w) (u, ls, w')"
proof -
  define w1 where "w1 = w\<lparr>sealed := True\<rparr>"
  define w2 where "w2 = fold token_cancel (active_tokens (reads w1)) w1"
  define w3 where "w3 = w2\<lparr>reads := filter (\<lambda>(_, e). is_active (entry_state e)) (reads w2)\<rparr>"
  have w': "w' = fold token_cancel (map (accepted_token \<circ> snd) (accepted w3)) w3"
    using assms by (simp add: seal_and_request_cancellation_def Let_def w1_def w2_def w3_def fold_cancel_accepted)
  have sealed: "sealed w1" "sealed w3" by (simp_all add: w1_def w2_def w3_def)
  have "prim\<^sup>*\<^sup>* (u, ls, w) (u, ls, w1)" unfolding w1_def by (rule r_into_rtranclp, rule p_seal)
  also have "prim\<^sup>*\<^sup>* (u, ls, w1) (u, ls, w2)" unfolding w2_def by (rule prims_sealed_tokens [OF sealed(1)])
  also have "prim\<^sup>*\<^sup>* (u, ls, w2) (u, ls, w3)" unfolding w3_def by (rule r_into_rtranclp, rule p_forget) simp
  also have "prim\<^sup>*\<^sup>* (u, ls, w3) (u, ls, w')" unfolding w' by (rule prims_sealed_tokens [OF sealed(2)])
  finally show ?thesis .
qed

lemma map_sum_snd_simps [simp]:
  "map_sum id f (Inl e) = Inl e" "map_sum id f (Inr x) = Inr (f x)"
  by simp_all

lemma admitted_simps [simp]:
  "admitted (Inl e) ls = ls" "admitted (Inr l) ls = l # ls" "admitted_opt (Inl e) ls = ls"
  "admitted_opt (Inr None) ls = ls" "admitted_opt (Inr (Some l)) ls = l # ls"
  by (simp_all add: admitted_def admitted_opt_def)

lemma sim_admit_engine:
  assumes ok: "op_ok (u, ls, w)"
    and c: "admit_engine_completion uuid now key owner ticket request cap w = (r, w')"
  shows "prim\<^sup>*\<^sup>* (u, ls, w) (u, admitted_opt (map_sum id snd r) ls, w')"
proof -
  let ?policy = "\<lparr>policy_progress = request_progress_id request, policy_key = request_progress_id request,
                  policy_exclusive = False, policy_cap = cap\<rparr>"
  let ?claim = "claim_prepared_in_state now ticket owner ''install_engine_workflow'' DownloadKind (Some ?policy) w"
  consider (idle) "w' = w" "admitted_opt (map_sum id snd r) ls = ls"
    | (claims) "map_of (completions w) key = None" "length (completions w) < MAX_ACCEPTED_OPERATIONS"
      "\<not> upgrade_pending (intent_engine_id (intent request)) w"
      "(case ?claim of
          (Inl e, w) \<Rightarrow> (Inl e, w)
        | (Inr lease, w) \<Rightarrow>
            (let c = \<lparr>completion_id = key, completion_request = request, outcome = CompletionRunning, retired = False\<rparr>
             in (Inr (c, Some lease),
                 w\<lparr>completions := AList.update key
                     \<lparr>entry_owner = owner, operation_id = ticket, snapshot = c, entry_progress = None,
                      retirement = next_retirement w, retirement_job = None, acknowledgement_job = None\<rparr> (completions w),
                   next_retirement := Suc (next_retirement w)\<rparr>))) = (r, w')"
  proof (cases "validate_engine_request uuid key request")
    case (Inl e)
    with c idle show ?thesis by (auto simp: admit_engine_completion_def)
  next
    case (Inr x)
    show ?thesis
    proof (cases "map_of (completions w) key")
      case None
      from c Inr None idle claims show ?thesis
        by (auto simp: admit_engine_completion_def not_le split: if_split_asm)
    next
      case (Some e)
      from c Inr Some idle show ?thesis by (auto simp: admit_engine_completion_def split: if_split_asm)
    qed
  qed
  then show ?thesis
  proof cases
    case idle
    then show ?thesis by simp
  next
    case claims
    obtain q v where q: "?claim = (q, v)" by fastforce
    show ?thesis
    proof (cases q)
      case (Inl e)
      have "prim\<^sup>*\<^sup>* (u, ls, w) (u, ls, v)" by (rule claim_prepared_Inl [OF ok q [unfolded Inl]])
      moreover have "r = Inl e" "w' = v" using claims(4) by (simp_all add: q Inl)
      ultimately show ?thesis by simp
    next
      case (Inr l)
      note p = claim_prepared_prims [OF ok q [unfolded Inr]]
      let ?c = "\<lparr>completion_id = key, completion_request = request, outcome = CompletionRunning, retired = False\<rparr>"
      let ?e = "\<lparr>entry_owner = owner, operation_id = ticket, snapshot = ?c, entry_progress = None,
                 retirement = next_retirement v, retirement_job = None, acknowledgement_job = None\<rparr>"
      have w': "r = Inr (?c, Some l)"
        "w' = v\<lparr>completions := AList.update key ?e (completions v), next_retirement := Suc (next_retirement v)\<rparr>"
        using claims(4) by (simp_all add: q Inr Let_def)
      have "prim (u, l # ls, v) (u, l # ls, w')"
        unfolding w' by (rule p_complete) (use claims p in \<open>simp_all add: upgrade_pending_def\<close>)
      with p(1) show ?thesis by (simp add: w'(1))
    qed
  qed
qed

lemma completion_update_prim:
  assumes "map_of (completions w) key = Some e" "entry_owner e' = entry_owner e"
    "completion_request (snapshot e') = completion_request (snapshot e)" "retired (snapshot e) \<longrightarrow> retired (snapshot e')"
  shows "prim\<^sup>*\<^sup>* (u, ls, w) (u, ls, w\<lparr>completions := AList.update key e' (completions w)\<rparr>)"
  using p_update [OF assms] by blast

lemma sim_set_progress:
  "set_engine_completion_progress key p w = (r, w') \<Longrightarrow> prim\<^sup>*\<^sup>* (u, ls, w) (u, ls, w')"
  by (auto simp: set_engine_completion_progress_def split: option.split_asm intro!: completion_update_prim)

lemma sim_finish_engine:
  "finish_engine_completion key result w = (r, w') \<Longrightarrow> prim\<^sup>*\<^sup>* (u, ls, w) (u, ls, w')"
  by (auto simp: finish_engine_completion_def Let_def split: option.split_asm intro!: completion_update_prim)

lemma sim_finish_retirement:
  "finish_engine_retirement key owner w = (r, w') \<Longrightarrow> prim\<^sup>*\<^sup>* (u, ls, w) (u, ls, w')"
  by (auto simp: finish_engine_retirement_def split: option.split_asm if_split_asm intro!: completion_update_prim)

lemma sim_acknowledge_engine:
  "acknowledge_engine_completion key owner w = (r, w') \<Longrightarrow> prim\<^sup>*\<^sup>* (u, ls, w) (u, ls, w')"
  by (auto simp: acknowledge_engine_completion_def split: option.split_asm if_split_asm intro: p_acknowledge)

lemma set_step_job_simps [simp]:
  "entry_owner (set_step_job step job e) = entry_owner e" "snapshot (set_step_job step job e) = snapshot e"
  by (cases step; simp)+

lemma application_new_other: "same_registry w (snd (application_new w))"
  by (simp add: same_registry_def application_new_def accounts_keyed_def)

lemma sim_begin_application:
  assumes c: "begin_engine_application key owner step w = (r, w')"
  shows "prim\<^sup>*\<^sup>* (u, ls, w) (u, admitted_opt (map_sum id (map_option start_lease \<circ> snd) r) ls, w')"
proof -
  consider (idle) "w' = w" "admitted_opt (map_sum id (map_option start_lease \<circ> snd) r) ls = ls"
    | (tail) e where "map_of (completions w) key = Some e"
      "(case accept_completion_tail_in_state key owner w of
          (Inl err, w) \<Rightarrow> (Inl err, w)
        | (Inr lease, w) \<Rightarrow>
            (let (c, w) = application_new w;
                 w = w\<lparr>completions := AList.update key (set_step_job step (FromChannel c) e) (completions w)\<rparr>
             in (Inr (FromChannel c,
                      Some \<lparr>start_snapshot = snapshot e, start_retirement = retirement e,
                            start_lease = lease, start_result = c\<rparr>), w))) = (r, w')"
  proof (cases "map_of (completions w) key")
    case None
    with c idle show ?thesis by (auto simp: begin_engine_application_def)
  next
    case (Some e)
    show ?thesis
    proof (cases "entry_owner e \<noteq> owner \<or> step = Retirement \<and> \<not> has_succeeded (outcome (snapshot e))
        \<or> step = Acknowledgement \<and> application_unfinished (snapshot e)
        \<or> joinable_job step key e w \<noteq> None \<or> step = Retirement \<and> retired (snapshot e)")
      case True
      then have "w' = w \<and> admitted_opt (map_sum id (map_option start_lease \<circ> snd) r) ls = ls"
        using c Some by (auto simp: begin_engine_application_def split: if_split_asm option.split_asm)
      with idle show ?thesis by blast
    next
      case False
      with c Some tail [OF Some] show ?thesis by (auto simp: begin_engine_application_def)
    qed
  qed
  then show ?thesis
  proof cases
    case idle
    then show ?thesis by simp
  next
    case (tail e)
    show ?thesis
    proof (cases "accept_completion_tail_in_state key owner w")
      case (Pair q v)
      show ?thesis
      proof (cases q)
        case (Inl err)
        have "v = w" using Pair Inl by (auto simp: accept_completion_tail_in_state_def Let_def split: if_split_asm prod.split_asm)
        with tail(2) show ?thesis by (auto simp: Pair Inl)
      next
        case (Inr l)
        let ?t = "\<lparr>accepted_owner = owner, accepted_label = ''engine completion application'',
                   accepted_token = next_token w, accepted_kind = None, accepted_progress = None,
                   admission_key = None, committing = True\<rparr>"
        have t: "\<not> sealed w" "map_of (accepted w) key = None"
          "l = \<lparr>op_id = key, op_token = next_token w, op_kind = LeaseAccepted\<rparr>" "v = add_accepted key ?t w"
          using Pair Inr by (auto simp: accept_completion_tail_in_state_def add_accepted_def token_new_def split: if_split_asm)
        obtain c x where x: "application_new v = (c, x)" by fastforce
        have w': "r = Inr (FromChannel c, Some \<lparr>start_snapshot = snapshot e, start_retirement = retirement e,
                            start_lease = l, start_result = c\<rparr>)"
          "w' = x\<lparr>completions := AList.update key (set_step_job step (FromChannel c) e) (completions x)\<rparr>"
          using tail(2) by (simp_all add: Pair Inr x)
        have "prim\<^sup>*\<^sup>* (u, ls, w) (u, l # ls, v)"
          unfolding t(3,4) by (rule r_into_rtranclp, rule p_tail) (use t tail(1) in \<open>simp_all add: is_tail_def\<close>)
        also have "prim\<^sup>*\<^sup>* (u, l # ls, v) (u, l # ls, x)"
          using p_other [OF application_new_other [of v]] x by auto
        also have "completions x = completions w" using x t(4) by (auto simp: application_new_def)
        then have "prim\<^sup>*\<^sup>* (u, l # ls, x) (u, l # ls, w')"
          unfolding w' by (intro completion_update_prim [of x key e]) (use tail(1) in simp_all)
        finally show ?thesis by (simp add: w'(1))
      qed
    qed
  qed
qed

lemma keyed_update:
  "accounts_keyed w \<Longrightarrow> account_id (account_snapshot e) = k \<Longrightarrow> accounts v = AList.update k e (accounts w) \<Longrightarrow> accounts_keyed v"
proof -
  have "(\<forall>(k, e) \<in> set es. account_id (account_snapshot e) = k) \<Longrightarrow> account_id (account_snapshot e) = k
      \<Longrightarrow> (\<forall>(k, e) \<in> set (AList.update k e es). account_id (account_snapshot e) = k)" for es
    by (induction es) auto
  then show "accounts_keyed w \<Longrightarrow> account_id (account_snapshot e) = k \<Longrightarrow> accounts v = AList.update k e (accounts w) \<Longrightarrow> accounts_keyed v"
    by (simp add: accounts_keyed_def)
qed

lemma sim_start_attempt:
  assumes op: "op \<notin> u" and len: "map_of (accounts w) (account_id c) \<noteq> None \<or> length (accounts w) < MAX_ACCEPTED_OPERATIONS"
    and s: "start_attempt op owner c w = (r, w')"
  shows "prim\<^sup>*\<^sup>* (u, ls, w) (insert op u, admitted_opt (map_sum id (map_option account_start_lease \<circ> snd) r) ls, w')"
proof (cases "accept_in_state op ''import_account_games'' w")
  case (Pair q v)
  have step: "prim (u, ls, w) (insert op u, admitted q ls, v)" by (rule sim_accept [OF op Pair])
  show ?thesis
  proof (cases q)
    case (Inl e)
    with s step Pair show ?thesis by (auto simp: start_attempt_def)
  next
    case (Inr l)
    have acc: "accounts v = accounts w"
      using Pair by (auto simp: accept_in_state_def token_new_def Let_def split: if_split_asm)
    have r: "r = Inr (next_attempt v, Some \<lparr>account_start_snapshot =
              c\<lparr>attempt_count := attempt_count c + 1, account_outcome := CompletionRunning\<rparr>,
              account_start_lease = l, account_start_result = next_attempt v\<rparr>)"
      and w': "w' = (snd (attempt_new v))\<lparr>accounts := AList.update (account_id c)
              \<lparr>account_owner = owner,
               account_snapshot = c\<lparr>attempt_count := attempt_count c + 1, account_outcome := CompletionRunning\<rparr>,
               account_attempt = next_attempt v\<rparr> (accounts v)\<rparr>"
      using s by (auto simp: start_attempt_def Pair Inr Let_def attempt_new_def)
    have "accounts_keyed v \<Longrightarrow> accounts_keyed w'"
      by (erule keyed_update [where k = "account_id c"]) (simp_all add: w')
    then have "same_registry v w'"
      using len by (auto simp: w' attempt_new_def same_registry_def length_update acc)
    with step show ?thesis by (simp add: Inr r) (meson p_other converse_rtranclp_into_rtranclp r_into_rtranclp)
  qed
qed

lemma sim_admit_account:
  assumes op: "op \<notin> u" and keyed: "accounts_keyed w"
    and c: "admit_account_completion uuid key progress op owner request w = (r, w')"
  shows "prim\<^sup>*\<^sup>* (u, ls, w) (insert op u, admitted_opt (map_sum id (map_option account_start_lease \<circ> snd) r) ls, w')"
proof -
  note issue = r_into_rtranclp [of prim, OF p_issue [of u ls w op]]
  show ?thesis
  proof (cases "validate_account_request uuid request")
    case (Inl e)
    with c issue show ?thesis by (auto simp: admit_account_completion_def)
  next
    case (Inr x)
    show ?thesis
    proof (cases "find (\<lambda>(_, e). same_account owner request e) (accounts w)")
      case None
      show ?thesis
      proof (cases "MAX_ACCEPTED_OPERATIONS \<le> length (accounts w)")
        case True
        with c None Inr issue show ?thesis by (auto simp: admit_account_completion_def)
      next
        case False
        with c None Inr show ?thesis by (intro sim_start_attempt [OF op]) (auto simp: admit_account_completion_def)
      qed
    next
      case (Some p)
      obtain k e where p: "p = (k, e)" by fastforce
      have "(k, e) \<in> set (accounts w)" using Some unfolding find_Some_iff p by (metis nth_mem)
      moreover from this have "account_id (account_snapshot e) = k" using keyed by (auto simp: accounts_keyed_def)
      ultimately have known: "map_of (accounts w) (account_id (account_snapshot e)) \<noteq> None"
        by (metis map_of_eq_None_iff fst_conv image_eqI)
      show ?thesis
      proof (cases "\<not> deletion_pending (account_snapshot e) \<or> account_outcome (account_snapshot e) = CompletionRunning")
        case True
        with c Some Inr issue show ?thesis by (auto simp: admit_account_completion_def p)
      next
        case False
        with c Some Inr known show ?thesis
          by (intro sim_start_attempt [OF op]) (auto simp: admit_account_completion_def p)
      qed
    qed
  qed
qed

lemma sim_update_account:
  assumes "update_account_completion c w = (r, w')"
  shows "prim\<^sup>*\<^sup>* (u, ls, w) (u, ls, w')"
proof (cases "map_of (accounts w) (account_id c)")
  case (Some e)
  then have w': "w' = w\<lparr>accounts := AList.update (account_id c) (e\<lparr>account_snapshot := c\<rparr>) (accounts w)\<rparr>"
    using assms by (simp add: update_account_completion_def)
  have "accounts_keyed w \<Longrightarrow> accounts_keyed w'"
    by (erule keyed_update [where k = "account_id c"]) (simp_all add: w')
  with Some have "same_registry w w'" by (simp add: w' same_registry_def length_update)
  then show ?thesis by (intro r_into_rtranclp p_other)
qed (use assms in \<open>simp add: update_account_completion_def\<close>)

lemma sim_acknowledge_account:
  assumes "acknowledge_account_completion key owner w = (r, w')"
  shows "prim\<^sup>*\<^sup>* (u, ls, w) (u, ls, w')"
proof -
  have "w' = w \<or> w' = w\<lparr>accounts := AList.delete key (accounts w)\<rparr>"
    using assms by (auto simp: acknowledge_account_completion_def split: option.split_asm if_split_asm)
  moreover have "same_registry w (w\<lparr>accounts := AList.delete key (accounts w)\<rparr>)"
    by (auto simp: same_registry_def accounts_keyed_def AList.delete_eq le_max_iff_disj intro: le_trans [OF length_filter_le])
  ultimately show ?thesis by (auto intro: p_other)
qed

lemma sim_channels:
  "prim (u, ls, w) (u, ls, application_send c result w)"
  "prim\<^sup>*\<^sup>* (u, ls, w) (u, ls, application_poll c w)"
proof -
  have "same_registry w (w\<lparr>applications := f\<rparr>)" for f by (simp add: same_registry_def accounts_keyed_def)
  then have *: "prim (u, ls, w) (u, ls, w\<lparr>applications := f\<rparr>)" for f by (rule p_other)
  then show "prim (u, ls, w) (u, ls, application_send c result w)" by (simp add: application_send_def)
  from * show "prim\<^sup>*\<^sup>* (u, ls, w) (u, ls, application_poll c w)"
    by (auto simp: application_poll_def split: channel.split)
qed

lemma sim_abandon:
  assumes ok: "op_ok (u, ls, w)" and l: "l \<in> set ls"
  shows "prim\<^sup>*\<^sup>* (u, ls, w) (u, ls, abandon_native_operation l w)"
proof (cases "op_kind l = LeaseRead")
  case True
  have "l \<in># mset (table_leases w)" using op_okD(6) [OF ok] l by (metis set_mset_mset)
  with True have "l \<in> set (read_leases (reads w))" by (auto simp: table_leases_def in_accepted_leases)
  then have "op_cancellable (op_token l) w" by (auto simp: op_cancellable_def active_tokens_read_leases)
  then show ?thesis using True by (auto simp: abandon_native_operation_def intro: p_cancel)
qed (simp add: abandon_native_operation_def)

lemma prim_keyed: "prim s s' \<Longrightarrow> accounts_keyed (snd (snd s)) \<Longrightarrow> accounts_keyed (snd (snd s'))"
  by (induction rule: prim.induct)
    (auto simp: accounts_keyed_def same_registry_def token_new_def operation_lease_drop_def split: lease_kind.splits)

lemma prims_keyed: "prim\<^sup>*\<^sup>* s s' \<Longrightarrow> accounts_keyed (snd (snd s)) \<Longrightarrow> accounts_keyed (snd (snd s'))"
  by (induction rule: rtranclp_induct) (auto intro: prim_keyed)

lemma op_step_prims:
  assumes "op_step s s'" "op_ok s" "accounts_keyed (snd (snd s))"
  shows "prim\<^sup>*\<^sup>* s s'"
  using assms
proof (induction rule: op_step.induct)
  case step_prepare then show ?case by (blast intro: sim_prepare)
next
  case step_claim_read then show ?case by (auto simp: claim_read_def intro!: sim_claim)
next
  case step_claim_analysis then show ?case by (auto simp: claim_analysis_def intro!: sim_claim)
next
  case step_cancel_reservation then show ?case by (blast intro: sim_cancel_reservation)
next
  case step_cancel_tab then show ?case by (auto simp: cancel_analyses_for_tab_def Let_def intro!: prims_cancel_entries)
next
  case step_accept then show ?case by (auto simp: accept_def intro!: r_into_rtranclp sim_accept)
next
  case step_claim_download then show ?case by (auto simp: claim_download_def intro!: sim_claim_prepared)
next
  case step_claim_conversion then show ?case by (auto simp: claim_conversion_def intro!: sim_claim_prepared)
next
  case step_cancel_download then show ?case unfolding cancel_download_def by (blast intro: sim_cancel_prepared)
next
  case step_cancel_conversion then show ?case unfolding cancel_conversion_def by (blast intro: sim_cancel_prepared)
next
  case (step_cancel_progress progress owner w r w' u ls)
  let ?es = "filter (\<lambda>e. is_download e \<and> accepted_owner e = owner \<and> accepted_progress e = Some progress) (map snd (accepted w))"
  have "w' = snd (cancel_progress_loop ?es False w)"
    using step_cancel_progress.hyps by (auto simp: cancel_download_for_progress_def split_def Let_def)
  then show ?case by (simp only:) (rule prims_cancel_loop, auto)
next
  case step_release_download then show ?case unfolding release_download_def by (auto intro: sim_release)
next
  case step_release_conversion then show ?case unfolding release_conversion_def by (auto intro: sim_release)
next
  case (step_cancel_owner_reservations owner w r w' u ls)
  then show ?case
    by (auto simp: cancel_owner_reservations_def cancel_owner_reservations_in_state_def Let_def fold_cancel_operations
        intro!: prims_cancel_entries)
next
  case step_cancel_owner then show ?case by (blast intro: sim_cancel_owner)
next
  case step_seal then show ?case by (blast intro: sim_seal)
next
  case (step_commit key w r w' u ls)
  have "w' = w \<or> (\<exists>e. map_of (accepted w) key = Some e \<and> is_download e \<and> \<not> cancelled w (accepted_token e)
      \<and> w' = w\<lparr>accepted := AList.update key (e\<lparr>committing := True\<rparr>) (accepted w)\<rparr>)"
    using step_commit.hyps by (cases "map_of (accepted w) key") (simp_all add: begin_commit_def split: if_split_asm)
  then show ?case using p_commit by blast
next
  case step_admit_engine then show ?case by (blast intro: sim_admit_engine)
next
  case step_set_progress then show ?case by (blast intro: sim_set_progress)
next
  case step_finish_engine then show ?case by (blast intro: sim_finish_engine)
next
  case step_begin_application then show ?case by (blast intro: sim_begin_application)
next
  case step_finish_retirement then show ?case by (blast intro: sim_finish_retirement)
next
  case step_acknowledge_engine then show ?case by (blast intro: sim_acknowledge_engine)
next
  case step_admit_account then show ?case by (auto intro!: sim_admit_account)
next
  case step_update_account then show ?case by (blast intro: sim_update_account)
next
  case step_acknowledge_account then show ?case by (blast intro: sim_acknowledge_account)
next
  case step_send show ?case using sim_channels(1) by blast
next
  case step_poll show ?case by (rule sim_channels(2))
next
  case step_abandon then show ?case by (blast intro: sim_abandon)
next
  case step_drop then show ?case by (blast intro: p_drop)
qed

lemma op_steps_prims:
  assumes "op_step\<^sup>*\<^sup>* s s'" "op_ok s" "accounts_keyed (snd (snd s))"
  shows "prim\<^sup>*\<^sup>* s s' \<and> op_ok s' \<and> accounts_keyed (snd (snd s'))"
  using assms
proof (induction rule: rtranclp_induct)
  case (step t v)
  then have "prim\<^sup>*\<^sup>* t v" by (blast intro: op_step_prims)
  with step show ?case by (meson prims_keyed prims_ok rtranclp_trans)
qed simp

lemma op_reachable_prims:
  assumes "op_reachable s"
  shows "prim\<^sup>*\<^sup>* op_start s" "op_ok s" "accounts_keyed (snd (snd s))"
  using op_steps_prims [OF assms [unfolded op_reachable_def] op_ok_start]
  by (simp_all add: op_start_def op_world_start_def accounts_keyed_def)

lemma op_reachable_step:
  "op_reachable s \<Longrightarrow> op_step\<^sup>*\<^sup>* s s' \<Longrightarrow> op_reachable s'"
  unfolding op_reachable_def by (rule rtranclp_trans)

end
