(* ===== verification/OperationSafety.thy ===== *)
theory OperationSafety
  imports OperationRefine
begin

text \<open>
  What holds in every reachable state of the operations registry: live leases and table entries
  correspond, the tables are bounded, a sealed registry admits nothing and drains, a download that
  commits is not cancelled, and admission is exclusive where the code says so.
\<close>

subsection \<open>Invariants of the elementary changes\<close>

definition work_keys :: "'o op_world \<Rightarrow> string set" where
  "work_keys w = fst ` set (accepted w) \<union> fst ` set (completions w)"

fun op_bounded :: "'o op_system \<Rightarrow> bool" where
  "op_bounded (u, ls, w) \<longleftrightarrow>
     length (reads w) \<le> MAX_NATIVE_READS
     \<and> length (completions w) \<le> MAX_ACCEPTED_OPERATIONS
     \<and> length (accounts w) \<le> MAX_ACCEPTED_OPERATIONS
     \<and> card (work_keys w) \<le> 2 * MAX_ACCEPTED_OPERATIONS"

lemma keys_update: "fst ` set (AList.update k v es) = insert k (fst ` set es)"
  by (induction es) auto

lemma keys_delete: "fst ` set (AList.delete k es) = fst ` set es - {k}"
  by (auto simp: AList.delete_eq)

lemma card_keys: "card (fst ` set es) \<le> length es"
  by (metis card_length length_map list.set_map)

lemma work_keys_small:
  "length (accepted w) \<le> m \<Longrightarrow> length (completions w) \<le> n \<Longrightarrow> card (work_keys w) \<le> m + n"
  unfolding work_keys_def by (meson add_mono card_Un_le card_keys le_trans)

lemma work_keys_mono: "work_keys v \<subseteq> work_keys w \<Longrightarrow> card (work_keys v) \<le> card (work_keys w)"
  by (rule card_mono) (simp_all add: work_keys_def)

lemma length_delete_le: "length (AList.delete k es) \<le> length es"
  by (simp add: AList.delete_eq)

lemma op_bounded_frame:
  assumes "op_bounded (u, ls, w)" "length (reads v) \<le> length (reads w)" "length (completions v) \<le> length (completions w)"
    "length (accounts v) \<le> max MAX_ACCEPTED_OPERATIONS (length (accounts w))" "work_keys v \<subseteq> work_keys w"
  shows "op_bounded (u', ls', v)"
  using assms work_keys_mono [OF assms(5)] by auto

lemma prim_bounded: "prim s s' \<Longrightarrow> op_bounded s \<Longrightarrow> op_bounded s'"
proof (induction rule: prim.induct)
  case (p_forget w keep u ls)
  show ?case by (rule op_bounded_frame [OF p_forget.prems]) (simp_all add: work_keys_def)
next
  case (p_reserve ticket u w e owner kind created ls)
  then show ?case by (simp add: length_update work_keys_def)
next
  case (p_claim w ticket e t v u ls label)
  then have v: "v = snd (token_new w)" by simp
  show ?case by (rule op_bounded_frame [OF p_claim.prems]) (simp_all add: v work_keys_def length_update p_claim.hyps(2))
next
  case (p_mark w ticket e u ls created)
  show ?case by (rule op_bounded_frame [OF p_mark.prems]) (simp_all add: work_keys_def length_update p_mark.hyps(1))
next
  case (p_claim_prepared w ticket r e u ls)
  let ?v = "add_accepted ticket e (w\<lparr>reads := AList.delete ticket (reads w)\<rparr>)"
  have "card (work_keys ?v) \<le> MAX_ACCEPTED_OPERATIONS + MAX_ACCEPTED_OPERATIONS"
    by (rule work_keys_small) (use p_claim_prepared in \<open>simp_all add: length_update occupied_def\<close>)
  with p_claim_prepared.prems length_delete_le [of ticket "reads w"] show ?case by simp
next
  case (p_accept key u w e ls)
  have "card (work_keys (add_accepted key e w)) \<le> MAX_ACCEPTED_OPERATIONS + MAX_ACCEPTED_OPERATIONS"
    by (rule work_keys_small) (use p_accept in \<open>simp_all add: length_update occupied_def\<close>)
  with p_accept.prems show ?case by simp
next
  case (p_tail w key e u ls)
  have "key \<in> fst ` set (completions w)" using p_tail.hyps(2) by (simp add: map_of_eq_None_iff)
  then show ?case by (intro op_bounded_frame [OF p_tail.prems]) (auto simp: work_keys_def keys_update)
next
  case (p_commit w key e u ls)
  have "key \<in> fst ` set (accepted w)" using map_of_SomeD [OF p_commit.hyps(1)] by force
  then show ?case by (intro op_bounded_frame [OF p_commit.prems]) (auto simp: work_keys_def keys_update)
next
  case (p_complete w key e u ls)
  let ?v = "w\<lparr>completions := AList.update key e (completions w), next_retirement := Suc (next_retirement w)\<rparr>"
  have "card (work_keys ?v) \<le> MAX_ACCEPTED_OPERATIONS + MAX_ACCEPTED_OPERATIONS"
    by (rule work_keys_small) (use p_complete in \<open>simp_all add: length_update\<close>)
  with p_complete show ?case by (simp add: length_update)
next
  case (p_update w key e e' u ls)
  have "key \<in> fst ` set (completions w)" using map_of_SomeD [OF p_update.hyps(1)] by force
  then show ?case
    by (intro op_bounded_frame [OF p_update.prems]) (auto simp: work_keys_def keys_update length_update p_update.hyps(1))
next
  case (p_acknowledge w key e u ls)
  show ?case
    by (rule op_bounded_frame [OF p_acknowledge.prems]) (auto simp: work_keys_def keys_delete length_delete_le)
next
  case (p_other w v u ls)
  then show ?case by (intro op_bounded_frame [OF p_other.prems]) (auto simp: same_registry_def work_keys_def)
next
  case (p_drop l ls u w)
  show ?case
    by (rule op_bounded_frame [OF p_drop.prems])
      (auto simp: operation_lease_drop_def work_keys_def keys_delete length_delete_le split: lease_kind.splits)
qed (auto simp: work_keys_def)

lemma op_reachable_bounded:
  assumes "op_reachable s"
  shows "op_bounded s"
  using op_reachable_prims(1) [OF assms]
  by (induction rule: rtranclp_induct) (auto simp: op_start_def op_world_start_def work_keys_def intro: prim_bounded)

subsection \<open>Sealing\<close>

fun all_cancelled :: "'o op_system \<Rightarrow> bool" where
  "all_cancelled (u, ls, w) \<longleftrightarrow> sealed w \<and> (\<forall>l \<in> set ls. cancelled w (op_token l))"

lemma prim_sealed:
  "prim s s' \<Longrightarrow> all_cancelled s \<Longrightarrow>
   all_cancelled s' \<and> mset (fst (snd s')) \<subseteq># mset (fst (snd s))"
proof (induction rule: prim.induct)
  case (p_drop l ls u w)
  have "sealed (operation_lease_drop l w) = sealed w" "cancelled (operation_lease_drop l w) = cancelled w"
    by (simp_all add: operation_lease_drop_def split: lease_kind.splits)
  with p_drop.prems show ?case by (auto dest: notin_set_remove1)
qed (auto simp: same_registry_def)

lemma prims_sealed:
  "prim\<^sup>*\<^sup>* s s' \<Longrightarrow> all_cancelled s \<Longrightarrow>
   all_cancelled s' \<and> mset (fst (snd s')) \<subseteq># mset (fst (snd s))"
proof (induction rule: rtranclp_induct)
  case (step t v)
  then show ?case using prim_sealed subset_mset.order_trans by blast
qed simp

lemma seal_cancels_all:
  assumes ok: "op_ok (u, ls, w)" and c: "seal_and_request_cancellation w = (r, w')"
  shows "all_cancelled (u, ls, w')"
proof -
  have "cancelled w' (op_token l)" if "l \<in> set ls" for l
  proof -
    have "l \<in># mset (table_leases w)" using op_okD(6) [OF ok] that by (metis set_mset_mset)
    then consider "l \<in> set (read_leases (reads w))" | "l \<in> set (accepted_leases (accepted w))"
      by (auto simp: table_leases_def)
    then have "op_token l \<in> set (active_tokens (reads w)) \<or> op_token l \<in> set (map (accepted_token \<circ> snd) (accepted w))"
      by cases (simp add: active_tokens_read_leases, force simp: accepted_leases_def)
    moreover have "cancelled w' t \<longleftrightarrow> t \<in> set (map (accepted_token \<circ> snd) (accepted w))
        \<or> t \<in> set (active_tokens (reads w)) \<or> cancelled w t" for t
      using c by (auto simp: seal_and_request_cancellation_def Let_def fold_cancel_accepted simp del: set_map)
    ultimately show ?thesis by blast
  qed
  moreover have "sealed w'" using c by (auto simp: seal_and_request_cancellation_def Let_def fold_cancel_accepted)
  ultimately show ?thesis by simp
qed

lemma drained_iff:
  assumes "op_ok (u, ls, w)"
  shows "drained w \<longleftrightarrow> ls = []"
proof -
  have "ls = [] \<longleftrightarrow> table_leases w = []" using op_okD(6) [OF assms] by (metis mset_zero_iff)
  also have "\<dots> \<longleftrightarrow> read_leases (reads w) = [] \<and> accepted w = []" by (auto simp: table_leases_def accepted_leases_def)
  also have "read_leases (reads w) = [] \<longleftrightarrow> \<not> list_ex (\<lambda>(_, e). is_active (entry_state e)) (reads w)"
    by (induction "reads w" rule: list.induct) (auto simp: read_leases_def is_active_def list_ex_iff split: read_entry_state.splits)
  finally show ?thesis by (simp add: drained_def)
qed

lemma drop_all_leases:
  "\<exists>w'. op_step\<^sup>*\<^sup>* (u, ls, w) (u, [], w')"
proof (induction ls arbitrary: w)
  case (Cons l ls)
  have "op_step (u, l # ls, w) (u, ls, operation_lease_drop l w)" using step_drop [of l "l # ls" u w] by simp
  with Cons.IH show ?case by (meson converse_rtranclp_into_rtranclp)
qed blast

subsection \<open>Commit and cancellation\<close>

lemma set_update_subset: "set (AList.update k v es) \<subseteq> insert (k, v) (set es)"
  by (induction es) auto

lemma set_update_distinct:
  "distinct (map fst es) \<Longrightarrow> set (AList.update k v es) = insert (k, v) {p \<in> set es. fst p \<noteq> k}"
  by (induction es) (auto simp: image_iff)

lemma table_tokens:
  assumes ok: "op_ok (u, ls, w)"
  shows "distinct (map op_token (table_leases w))" "\<And>l. l \<in> set (table_leases w) \<Longrightarrow> op_token l < next_token w"
proof -
  note m = op_okD(6) [OF ok]
  from m have "mset (map op_token ls) = mset (map op_token (table_leases w))" by simp
  with op_okD(7) [OF ok] show "distinct (map op_token (table_leases w))" by (metis mset_eq_imp_distinct_iff)
  from m have "set ls = set (table_leases w)" by (metis set_mset_mset)
  with op_okD(8) [OF ok] show "\<And>l. l \<in> set (table_leases w) \<Longrightarrow> op_token l < next_token w" by blast
qed

lemma accepted_tokens:
  assumes ok: "op_ok (u, ls, w)" and e: "(k, e) \<in> set (accepted w)"
  shows "accepted_token e < next_token w" "accepted_token e \<notin> set (active_tokens (reads w))"
    "(j, d) \<in> set (accepted w) \<Longrightarrow> accepted_token d = accepted_token e \<Longrightarrow> j = k \<and> d = e"
proof -
  let ?l = "\<lparr>op_id = k, op_token = accepted_token e, op_kind = LeaseAccepted\<rparr>"
  have l: "?l \<in> set (accepted_leases (accepted w))" using e by (force simp: accepted_leases_def)
  with table_tokens(2) [OF ok, of ?l] show "accepted_token e < next_token w" by (simp add: table_leases_def)
  have "op_token ` set (read_leases (reads w)) \<inter> op_token ` set (accepted_leases (accepted w)) = {}"
    using table_tokens(1) [OF ok] by (simp add: table_leases_def)
  with imageI [OF l, of op_token] show "accepted_token e \<notin> set (active_tokens (reads w))"
    by (auto simp: active_tokens_read_leases)
  assume d: "(j, d) \<in> set (accepted w)" and t: "accepted_token d = accepted_token e"
  have inj: "inj_on op_token (set (accepted_leases (accepted w)))"
    using table_tokens(1) [OF ok] by (simp add: table_leases_def distinct_map inj_on_Un)
  have "\<lparr>op_id = j, op_token = accepted_token d, op_kind = LeaseAccepted\<rparr> \<in> set (accepted_leases (accepted w))"
    using d by (force simp: accepted_leases_def)
  from inj_onD [OF inj _ this l] t have "j = k" by simp
  moreover from this have "d = e" using d e op_okD(2) [OF ok] by (meson eq_key_imp_eq_value)
  ultimately show "j = k \<and> d = e" by simp
qed

text \<open>
  A set of facts about accepted entries: \<^term>\<open>commit_quiet\<close> of each, \<^term>\<open>admission_unique\<close> of each
  two, and \<^term>\<open>upgrades_unique\<close> of the completions.
\<close>

definition commit_quiet :: "'o op_world \<Rightarrow> bool" where
  "commit_quiet w \<longleftrightarrow>
     sealed w \<or> (\<forall>k e. (k, e) \<in> set (accepted w) \<longrightarrow> is_download e \<longrightarrow> committing e \<longrightarrow> \<not> cancelled w (accepted_token e))"

definition admission_unique :: "'o op_world \<Rightarrow> bool" where
  "admission_unique w \<longleftrightarrow>
     (\<forall>j d k e. (j, d) \<in> set (accepted w) \<longrightarrow> (k, e) \<in> set (accepted w) \<longrightarrow> same_admission d e \<longrightarrow>
        \<not> cancelled w (accepted_token d) \<longrightarrow> \<not> cancelled w (accepted_token e) \<longrightarrow> j = k)"

definition upgrade_of :: "'o engine_completion_entry \<Rightarrow> string option" where
  "upgrade_of e = (let i = intent (completion_request (snapshot e)) in
     if is_upgrade i then Some (intent_engine_id i) else None)"

definition upgrades_unique :: "'o op_world \<Rightarrow> bool" where
  "upgrades_unique w \<longleftrightarrow>
     (\<forall>j d k e. (j, d) \<in> set (completions w) \<longrightarrow> (k, e) \<in> set (completions w) \<longrightarrow>
        upgrade_of d \<noteq> None \<longrightarrow> upgrade_of d = upgrade_of e \<longrightarrow> j = k)"

lemma commit_quiet_frame:
  assumes "commit_quiet w" "sealed w \<longrightarrow> sealed v"
    "\<And>k e. \<not> sealed v \<Longrightarrow> (k, e) \<in> set (accepted v) \<Longrightarrow> is_download e \<Longrightarrow> committing e \<Longrightarrow>
       (k, e) \<in> set (accepted w) \<and> (cancelled v (accepted_token e) \<longrightarrow> cancelled w (accepted_token e))
       \<or> \<not> cancelled v (accepted_token e)"
  shows "commit_quiet v"
  using assms unfolding commit_quiet_def by blast

lemma add_accepted_set:
  "(k, e) \<in> set (accepted (add_accepted key d w)) \<Longrightarrow>
   (k, e) \<in> set (accepted w) \<or> k = key \<and> e = d\<lparr>accepted_token := next_token w\<rparr>"
  using set_update_subset by fastforce

lemma drop_frame:
  "set (accepted (operation_lease_drop l w)) \<subseteq> set (accepted w)" "sealed (operation_lease_drop l w) = sealed w"
  "cancelled (operation_lease_drop l w) = cancelled w" "completions (operation_lease_drop l w) = completions w"
  by (auto simp: operation_lease_drop_def AList.delete_eq split: lease_kind.splits)

lemma prim_commit_quiet: "prim s s' \<Longrightarrow> op_ok s \<Longrightarrow> commit_quiet (snd (snd s)) \<Longrightarrow> commit_quiet (snd (snd s'))"
proof (induction rule: prim.induct)
  case (p_claim w ticket e t v u ls label)
  then have v: "v = snd (token_new w)" by simp
  show ?case using p_claim.prems(2) by (auto simp: commit_quiet_def v)
next
  case (p_cancel t w u ls)
  show ?case
  proof (rule commit_quiet_frame [OF p_cancel.prems(2)])
    fix k e
    assume a: "\<not> sealed (snd (snd (u, ls, token_cancel t w)))" "(k, e) \<in> set (accepted (snd (snd (u, ls, token_cancel t w))))"
      "is_download e" "committing e"
    then have e: "(k, e) \<in> set (accepted w)" "op_cancellable t w" using p_cancel.hyps by auto
    then have "accepted_token e \<noteq> t" using a(3,4) accepted_tokens(2,3) [OF p_cancel.prems(1) e(1)]
      by (fastforce simp: op_cancellable_def)
    with e show "(k, e) \<in> set (accepted (snd (snd (u, ls, w)))) \<and>
        (cancelled (snd (snd (u, ls, token_cancel t w))) (accepted_token e) \<longrightarrow>
         cancelled (snd (snd (u, ls, w))) (accepted_token e))
      \<or> \<not> cancelled (snd (snd (u, ls, token_cancel t w))) (accepted_token e)" by simp
  qed simp
next
  case (p_claim_prepared w ticket r e u ls)
  show ?case
    by (rule commit_quiet_frame [OF p_claim_prepared.prems(2)])
      (use p_claim_prepared.hyps in \<open>auto simp del: add_accepted_simps(7) dest!: add_accepted_set\<close>)
next
  case (p_accept key u w e ls)
  show ?case
    by (rule commit_quiet_frame [OF p_accept.prems(2)])
      (use p_accept.hyps in \<open>auto simp del: add_accepted_simps(7) dest!: add_accepted_set\<close>)
next
  case (p_tail w key e u ls)
  show ?case
    by (rule commit_quiet_frame [OF p_tail.prems(2)])
      (use p_tail.hyps in \<open>auto simp: is_tail_def is_download_def simp del: add_accepted_simps(7) dest!: add_accepted_set\<close>)
next
  case (p_commit w key e u ls)
  show ?case
    by (rule commit_quiet_frame [OF p_commit.prems(2)])
      (use p_commit.hyps set_update_subset in \<open>fastforce+\<close>)
next
  case (p_drop l ls u w)
  show ?case
    by (rule commit_quiet_frame [OF p_drop.prems(2)]) (use drop_frame [of l w] in auto)
qed (auto simp: commit_quiet_def same_registry_def)

lemma prim_upgrades: "prim s s' \<Longrightarrow> op_ok s \<Longrightarrow> upgrades_unique (snd (snd s)) \<Longrightarrow> upgrades_unique (snd (snd s'))"
proof (induction rule: prim.induct)
  case (p_claim w ticket e t v u ls label)
  then have v: "v = snd (token_new w)" by simp
  show ?case using p_claim.prems(2) by (simp add: upgrades_unique_def v)
next
  case (p_complete w key e u ls)
  have new: "upgrade_of d \<noteq> upgrade_of e" if "(k, d) \<in> set (completions w)" "upgrade_of d \<noteq> None" for k d
    using p_complete.hyps(4) that by (force simp: upgrade_pending_def list_ex_iff upgrade_of_def Let_def split: if_splits)
  have "(k, d) \<in> set (AList.update key e (completions w)) \<longleftrightarrow> (k, d) = (key, e) \<or> (k, d) \<in> set (completions w)" for k d
    using p_complete.hyps(1) by (auto simp: update_absent)
  with new p_complete.prems(2) show ?case unfolding upgrades_unique_def by (simp, metis)
next
  case (p_update w key e e' u ls)
  have "upgrade_of e' = upgrade_of e" using p_update.hyps by (simp add: upgrade_of_def)
  moreover have "(key, e) \<in> set (completions w)" using p_update.hyps(1) by (rule map_of_SomeD)
  ultimately show ?case using p_update.prems(2) op_okD(3) [OF p_update.prems(1)]
    unfolding upgrades_unique_def by (simp add: set_update_distinct) metis
next
  case (p_acknowledge w key e u ls)
  then show ?case by (auto simp: upgrades_unique_def AList.delete_eq)
next
  case (p_drop l ls u w)
  then show ?case by (simp add: upgrades_unique_def drop_frame)
qed (auto simp: upgrades_unique_def same_registry_def)

lemma prim_admission: "prim s s' \<Longrightarrow> op_ok s \<Longrightarrow> admission_unique (snd (snd s)) \<Longrightarrow> admission_unique (snd (snd s'))"
proof (induction rule: prim.induct)
  case (p_claim w ticket e t v u ls label)
  then have v: "v = snd (token_new w)" by simp
  show ?case using p_claim.prems(2) accepted_tokens(1) [OF p_claim.prems(1)] by (fastforce simp: admission_unique_def v)
next
  case (p_claim_prepared w ticket r e u ls)
  let ?v = "add_accepted ticket e (w\<lparr>reads := AList.delete ticket (reads w)\<rparr>)"
  let ?e = "e\<lparr>accepted_token := next_token w\<rparr>"
  have old: "cancelled ?v (accepted_token d) = cancelled w (accepted_token d)" if "(k, d) \<in> set (accepted w)" for k d
    using accepted_tokens(1) [OF p_claim_prepared.prems(1) that] by simp
  have new: "cancelled w (accepted_token d)" if "(k, d) \<in> set (accepted w)" "same_admission d ?e \<or> same_admission ?e d" for k d
    using p_claim_prepared.hyps(8) that by (fastforce simp: same_admission_def is_download_def)
  have "(k, d) \<in> set (accepted ?v) \<longleftrightarrow> k = ticket \<and> d = ?e \<or> (k, d) \<in> set (accepted w)" for k d
    using p_claim_prepared.hyps(3) by (auto simp: update_absent)
  with old new p_claim_prepared.prems(2) show ?case unfolding admission_unique_def by (simp only: snd_conv) metis
next
  case (p_accept key u w e ls)
  have "\<not> same_admission d (e\<lparr>accepted_token := t\<rparr>)" "\<not> same_admission (e\<lparr>accepted_token := t\<rparr>) d" for d t
    using p_accept.hyps(5) by (simp_all add: same_admission_def is_download_def)
  with p_accept.hyps(4) p_accept.prems(2) accepted_tokens(1) [OF p_accept.prems(1)] show ?case
    by (fastforce simp: admission_unique_def update_absent)
next
  case (p_tail w key e u ls)
  have "\<not> same_admission d (e\<lparr>accepted_token := t\<rparr>)" "\<not> same_admission (e\<lparr>accepted_token := t\<rparr>) d" for d t
    using p_tail.hyps(4) by (simp_all add: same_admission_def is_download_def is_tail_def)
  with p_tail.hyps(3) p_tail.prems(2) accepted_tokens(1) [OF p_tail.prems(1)] show ?case
    by (fastforce simp: admission_unique_def update_absent)
next
  case (p_commit w key e u ls)
  let ?e = "e\<lparr>committing := True\<rparr>"
  have e: "(key, e) \<in> set (accepted w)" using p_commit.hyps(1) by (rule map_of_SomeD)
  have "same_admission ?e d = same_admission e d" "same_admission d ?e = same_admission d e" for d
    by (simp_all add: same_admission_def is_download_def)
  with e p_commit.prems(2) op_okD(2) [OF p_commit.prems(1)] show ?case
    unfolding admission_unique_def by (simp add: set_update_distinct) metis
next
  case (p_drop l ls u w)
  then show ?case using drop_frame(1) [of l w] unfolding admission_unique_def by (simp add: drop_frame(3)) blast
qed (auto simp: admission_unique_def same_registry_def)

lemma op_reachable_policy:
  assumes "op_reachable (u, ls, w)"
  shows "commit_quiet w \<and> admission_unique w \<and> upgrades_unique w"
proof -
  have "op_ok s \<and> commit_quiet (snd (snd s)) \<and> admission_unique (snd (snd s)) \<and> upgrades_unique (snd (snd s))"
    if "prim\<^sup>*\<^sup>* op_start s" for s :: "'a op_system"
    using that
  proof (induction rule: rtranclp_induct)
    case base
    show ?case using op_ok_start by (auto simp: op_start_def op_world_start_def commit_quiet_def admission_unique_def upgrades_unique_def)
  next
    case (step y z)
    then show ?case using prim_ok prim_commit_quiet prim_admission prim_upgrades by blast
  qed
  with op_reachable_prims(1) [OF assms] show ?thesis by fastforce
qed

end
