(* ===== verification/OperationTheorems.thy ===== *)
theory OperationTheorems
  imports OperationSafety
begin

text \<open>
  The properties of the operations registry, each over every sequence of calls and lease drops, and
  a small run of the registry at which they apply.
\<close>

subsection \<open>A run of the registry\<close>

definition demo_prepared :: "unit op_world" where
  "demo_prepared = snd (prepare_download ''t'' 0 0 ''main'' op_world_start)"

definition demo_policy :: download_policy where
  "demo_policy = \<lparr>policy_progress = ''p'', policy_key = ''p'', policy_exclusive = False, policy_cap = 8\<rparr>"

definition demo_claim :: "operation_lease result \<times> unit op_world" where
  "demo_claim = claim_download 1 ''t'' ''main'' ''install'' demo_policy demo_prepared"

definition demo_lease :: operation_lease where
  "demo_lease = \<lparr>op_id = ''t'', op_token = 0, op_kind = LeaseAccepted\<rparr>"

lemma op_step_reachable: "op_reachable s \<Longrightarrow> op_step s s' \<Longrightarrow> op_reachable s'"
  unfolding op_reachable_def by (rule rtranclp.rtrancl_into_rtrancl)

lemma op_reachable_start: "op_reachable op_start"
  by (simp add: op_reachable_def)

lemma demo_prepared_reachable: "op_reachable ({''t''}, [], demo_prepared)"
proof (rule op_step_reachable [OF op_reachable_start])
  have "prepare_reservation ''t'' 0 0 ''main'' DownloadKind op_world_start = (Inr ''t'', demo_prepared)"
    by (simp add: demo_prepared_def prepare_download_def prepare_reservation_def purge_expired_def
        op_world_start_def MAX_NATIVE_READS_def)
  from step_prepare [OF _ this, of "{}" "[]"] show "op_step op_start ({''t''}, [], demo_prepared)"
    by (simp add: op_start_def)
qed

lemma demo_prepared_eq:
  "demo_prepared = op_world_start\<lparr>reads := [(''t'', \<lparr>read_owner = ''main'', read_kind = DownloadKind, entry_state = Reserved 0\<rparr>)]\<rparr>"
  by (simp add: demo_prepared_def prepare_download_def prepare_reservation_def purge_expired_def
      op_world_start_def MAX_NATIVE_READS_def)

lemma demo_claim_eq:
  "demo_claim = (Inr demo_lease,
     op_world_start\<lparr>accepted := [(''t'', \<lparr>accepted_owner = ''main'', accepted_label = ''install'', accepted_token = 0,
        accepted_kind = Some DownloadKind, accepted_progress = Some ''p'', admission_key = Some ''p'', committing = False\<rparr>)],
        next_token := 1\<rparr>)"
  by (simp add: demo_claim_def claim_download_def claim_prepared_in_state_def purge_expired_def demo_prepared_eq
      op_world_start_def reservation_live_def READ_RESERVATION_TTL_def admission_refused_def progress_taken_def
      demo_policy_def active_downloads_def occupied_def MAX_ACCEPTED_OPERATIONS_def token_new_def demo_lease_def
      fun_upd_idem_iff)

lemma demo_claimed_reachable: "op_reachable ({''t''}, [demo_lease], snd demo_claim)"
proof (rule op_step_reachable [OF demo_prepared_reachable])
  have "claim_download 1 ''t'' ''main'' ''install'' demo_policy demo_prepared = (Inr demo_lease, snd demo_claim)"
    using demo_claim_eq by (simp add: demo_claim_def prod_eq_iff)
  from step_claim_download [OF this, of "{''t''}" "[]"]
  show "op_step ({''t''}, [], demo_prepared) ({''t''}, [demo_lease], snd demo_claim)" by simp
qed

subsection \<open>Leases\<close>

definition lease_entry :: "operation_lease \<Rightarrow> 'o op_world \<Rightarrow> bool" where
  "lease_entry l w \<longleftrightarrow>
     (if op_kind l = LeaseAccepted
      then (case map_of (accepted w) (op_id l) of Some e \<Rightarrow> accepted_token e = op_token l | None \<Rightarrow> False)
      else (case map_of (reads w) (op_id l) of
              Some e \<Rightarrow> lease_kind_of (read_kind e) = op_kind l
                        \<and> (case entry_state e of Active t _ \<Rightarrow> t = op_token l | _ \<Rightarrow> False)
            | None \<Rightarrow> False))"

lemma length_read_leases: "length (read_leases es) = length (filter (\<lambda>(_, e). is_active (entry_state e)) es)"
  by (induction es) (auto simp: is_active_def split: read_entry_state.splits)

lemma live_lease_entry:
  assumes ok: "op_ok (u, ls, w)" and l: "l \<in> set ls"
  shows "lease_entry l w"
proof -
  have "l \<in># mset (table_leases w)" using op_okD(6) [OF ok] l by (metis set_mset_mset)
  then consider "l \<in> set (read_leases (reads w))" | "l \<in> set (accepted_leases (accepted w))"
    by (auto simp: table_leases_def)
  then show ?thesis
  proof cases
    case 1
    then obtain k e t label where e: "(k, e) \<in> set (reads w)" "entry_state e = Active t label"
      "l = \<lparr>op_id = k, op_token = t, op_kind = lease_kind_of (read_kind e)\<rparr>" by (auto simp: in_read_leases)
    have "map_of (reads w) k = Some e" using e(1) op_okD(1) [OF ok] by simp
    moreover have "lease_kind_of (read_kind e) \<noteq> LeaseAccepted" using op_okD(5) [OF ok e(1)] e(2) by (simp add: is_active_def)
    ultimately show ?thesis using e(2,3) by (simp add: lease_entry_def)
  next
    case 2
    then obtain k e where e: "(k, e) \<in> set (accepted w)"
      "l = \<lparr>op_id = k, op_token = accepted_token e, op_kind = LeaseAccepted\<rparr>" by (auto simp: in_accepted_leases)
    have "map_of (accepted w) k = Some e" using e(1) op_okD(2) [OF ok] by simp
    with e(2) show ?thesis by (simp add: lease_entry_def)
  qed
qed

text \<open>
  C23. Active leases are never evicted or reused: in every reachable state each live lease has its own
  entry, with its own cancellation token, no entry that runs is without a lease, and the wait for the
  drain ends exactly when no lease is alive.
\<close>

theorem leases_match_tables:
  assumes "op_reachable (u, ls, w)"
  shows "distinct (map op_token ls) \<and> (\<forall>l \<in> set ls. lease_entry l w)
    \<and> length ls = length (filter (\<lambda>(_, e). is_active (entry_state e)) (reads w)) + length (accepted w)
    \<and> (drained w \<longleftrightarrow> ls = [])"
proof -
  note ok = op_reachable_prims(2) [OF assms]
  have "length ls = length (table_leases w)" using op_okD(6) [OF ok] by (metis size_mset)
  then show ?thesis using op_okD(7) [OF ok] live_lease_entry [OF ok] drained_iff [OF ok]
    by (simp add: table_leases_def length_read_leases accepted_leases_def)
qed

theorem leases_match_tables_witness:
  "lease_entry demo_lease (snd demo_claim) \<and> \<not> drained (snd demo_claim)"
  using leases_match_tables [OF demo_claimed_reachable] by simp

text \<open>
  C24. Once the registry is sealed no call admits work any more: after any further calls the live
  leases are among those that were alive, all of their tokens are cancelled, and when the last of them
  is dropped the registry is drained.
\<close>

theorem sealed_registry_drains:
  assumes "op_reachable (u, ls, w)" "seal_and_request_cancellation w = (r, w1)"
    "op_step\<^sup>*\<^sup>* (u, ls, w1) (u', ls', w')"
  shows "mset ls' \<subseteq># mset ls \<and> (\<forall>l \<in> set ls'. cancelled w' (op_token l)) \<and> (drained w' \<longleftrightarrow> ls' = [])
    \<and> (\<exists>v. op_step\<^sup>*\<^sup>* (u', ls', w') (u', [], v) \<and> drained v)"
proof -
  have step: "op_step (u, ls, w) (u, ls, w1)" by (rule step_seal [OF assms(2)])
  have reach: "op_reachable (u, ls, w1)" by (rule op_step_reachable [OF assms(1) step])
  note r' = op_reachable_step [OF reach assms(3)]
  note ok = op_reachable_prims(2) [OF assms(1)]
  have "prim\<^sup>*\<^sup>* (u, ls, w1) (u', ls', w')"
    using op_steps_prims [OF assms(3) op_reachable_prims(2,3) [OF reach]] by simp
  from prims_sealed [OF this seal_cancels_all [OF ok assms(2)]]
  have "mset ls' \<subseteq># mset ls" "\<forall>l \<in> set ls'. cancelled w' (op_token l)" by simp_all
  moreover obtain v where v: "op_step\<^sup>*\<^sup>* (u', ls', w') (u', [], v)" using drop_all_leases by blast
  moreover have "drained v" using drained_iff [OF op_reachable_prims(2) [OF op_reachable_step [OF r' v]]] by simp
  ultimately show ?thesis using drained_iff [OF op_reachable_prims(2) [OF r']] by blast
qed

theorem sealed_registry_drains_witness:
  "\<exists>v. op_step\<^sup>*\<^sup>* ({''t''}, [demo_lease], snd (seal_and_request_cancellation (snd demo_claim))) ({''t''}, [], v) \<and> drained v"
  using sealed_registry_drains [OF demo_claimed_reachable prod.collapse [symmetric] rtranclp.rtrancl_refl] by blast

text \<open>
  C29. However the calls are interleaved, the registry holds at most 128 reservations and reads, 128
  completions of each kind, and 256 accepted operations: 128 that were counted against the capacity,
  and one application for each completion.
\<close>

theorem registry_bounded:
  assumes "op_reachable (u, ls, w)"
  shows "length (reads w) \<le> MAX_NATIVE_READS \<and> length (completions w) \<le> MAX_ACCEPTED_OPERATIONS
    \<and> length (accounts w) \<le> MAX_ACCEPTED_OPERATIONS \<and> length (accepted w) \<le> 2 * MAX_ACCEPTED_OPERATIONS"
proof -
  note ok = op_reachable_prims(2) [OF assms]
  have "length (accepted w) = card (fst ` set (accepted w))"
    using op_okD(2) [OF ok] by (metis distinct_card length_map list.set_map)
  also have "\<dots> \<le> card (work_keys w)" by (rule card_mono) (simp_all add: work_keys_def)
  finally show ?thesis using op_reachable_bounded [OF assms] by simp
qed

theorem registry_bounded_witness: "length (accepted (snd demo_claim)) \<le> 256"
  using registry_bounded [OF demo_claimed_reachable] by (simp add: MAX_ACCEPTED_OPERATIONS_def)

subsection \<open>Commit and cancellation\<close>

fun committed_token :: "cancellation \<Rightarrow> 'o op_system \<Rightarrow> bool" where
  "committed_token t (u, ls, w) \<longleftrightarrow>
     t < next_token w \<and> (\<forall>k e. (k, e) \<in> set (accepted w) \<longrightarrow> accepted_token e = t \<longrightarrow> is_download e \<and> committing e)"

lemma prim_committed: "prim s s' \<Longrightarrow> committed_token t s \<Longrightarrow> committed_token t s'"
proof (induction rule: prim.induct)
  case (p_claim w ticket e x v u ls label)
  then have v: "v = snd (token_new w)" by simp
  show ?case using p_claim.prems by (simp add: v)
next
  case (p_claim_prepared w ticket r e u ls)
  then show ?case by (auto simp: update_absent)
next
  case (p_accept key u w e ls)
  then show ?case by (auto simp: update_absent)
next
  case (p_tail w key e u ls)
  then show ?case by (auto simp: update_absent)
next
  case (p_commit w key e u ls)
  then have "(key, e) \<in> set (accepted w)" by (simp add: map_of_SomeD)
  with p_commit show ?case using set_update_subset [of key "e\<lparr>committing := True\<rparr>" "accepted w"] by (auto simp: is_download_def)
next
  case (p_drop l ls u w)
  have "next_token (operation_lease_drop l w) = next_token w" by (simp add: operation_lease_drop_def split: lease_kind.split)
  with p_drop show ?case using drop_frame(1) [of l w] by auto
qed (auto simp: same_registry_def)

lemma prims_committed: "prim\<^sup>*\<^sup>* s s' \<Longrightarrow> committed_token t s \<Longrightarrow> committed_token t s'"
  by (induction rule: rtranclp_induct) (auto intro: prim_committed)

text \<open>
  C25. Commit and cancellation exclude each other. Once a download has passed its commit gate, no
  sequence of calls, by its window or by another, cancels it as long as it runs; only sealing the
  registry does.
\<close>

theorem committed_download_not_cancelled:
  assumes "op_reachable (u, ls, w)" "l \<in> set ls" "op_kind l = LeaseAccepted"
    "begin_commit (op_id l) w = (Inr (), w1)" "op_step\<^sup>*\<^sup>* (u, ls, w1) (u', ls', w')" "l \<in> set ls'" "\<not> sealed w'"
  shows "\<not> cancelled w' (op_token l)"
proof -
  note ok = op_reachable_prims(2) [OF assms(1)]
  have step: "op_step (u, ls, w) (u, ls, w1)" by (rule step_commit [OF assms(4)])
  have reach: "op_reachable (u, ls, w1)" by (rule op_step_reachable [OF assms(1) step])
  note reach' = op_reachable_step [OF reach assms(5)]
  obtain e where e: "map_of (accepted w) (op_id l) = Some e" "is_download e"
    "w1 = w\<lparr>accepted := AList.update (op_id l) (e\<lparr>committing := True\<rparr>) (accepted w)\<rparr>"
    using assms(4) by (cases "map_of (accepted w) (op_id l)") (auto simp: begin_commit_def split: if_split_asm)
  note e' = map_of_SomeD [OF e(1)]
  have t: "accepted_token e = op_token l" using live_lease_entry [OF ok assms(2)] assms(3) e(1) by (simp add: lease_entry_def)
  have "committed_token (op_token l) (u, ls, w1)"
    using accepted_tokens(1,3) [OF ok e'] op_okD(2) [OF ok] e(2)
    by (auto simp: e(3) set_update_distinct t is_download_def)
  moreover have "prim\<^sup>*\<^sup>* (u, ls, w1) (u', ls', w')"
    using op_steps_prims [OF assms(5) op_reachable_prims(2,3) [OF reach]] by simp
  ultimately have c: "committed_token (op_token l) (u', ls', w')" by (rule prims_committed [rotated])
  obtain d where d: "map_of (accepted w') (op_id l) = Some d" "accepted_token d = op_token l"
    using live_lease_entry [OF op_reachable_prims(2) [OF reach'] assms(6)] assms(3)
    by (auto simp: lease_entry_def split: option.split_asm)
  then have d': "(op_id l, d) \<in> set (accepted w')" by (simp add: map_of_SomeD)
  with c d(2) have "is_download d" "committing d" by auto
  with d' d(2) op_reachable_policy [OF reach'] assms(7) show ?thesis unfolding commit_quiet_def by metis
qed

lemma demo_commit: "begin_commit ''t'' (snd demo_claim) = (Inr (), snd (begin_commit ''t'' (snd demo_claim)))"
  by (simp add: begin_commit_def demo_claim_eq is_download_def op_world_start_def)

theorem committed_download_not_cancelled_witness:
  "\<not> cancelled (snd (cancel_download 2 2 ''t'' ''main'' (snd (begin_commit ''t'' (snd demo_claim))))) 0"
proof -
  let ?w = "snd (begin_commit ''t'' (snd demo_claim))"
  have "op_step ({''t''}, [demo_lease], ?w) ({''t''}, [demo_lease], snd (cancel_download 2 2 ''t'' ''main'' ?w))"
    by (rule step_cancel_download [OF prod.collapse [symmetric]])
  moreover have "\<not> sealed (snd (cancel_download 2 2 ''t'' ''main'' ?w))"
    by (simp add: begin_commit_def demo_claim_eq is_download_def op_world_start_def cancel_download_def
        cancel_prepared_def purge_expired_def accepted_matches_def cancel_accepted_download_def)
  ultimately have "\<not> cancelled (snd (cancel_download 2 2 ''t'' ''main'' ?w)) (op_token demo_lease)"
    by (intro committed_download_not_cancelled [OF demo_claimed_reachable, of demo_lease ?w "{''t''}" "[demo_lease]"])
      (use demo_commit in \<open>simp_all add: demo_lease_def r_into_rtranclp\<close>)
  then show ?thesis by (simp add: demo_lease_def)
qed

text \<open>
  C26. Admission is exclusive: of the downloads of one window with one admission key at most one is not
  cancelled, and of the upgrades of one engine at most one completion is unacknowledged.
\<close>

theorem admission_exclusive:
  assumes "op_reachable (u, ls, w)"
  shows "(\<forall>j d k e. (j, d) \<in> set (accepted w) \<longrightarrow> (k, e) \<in> set (accepted w) \<longrightarrow> is_download d \<longrightarrow> is_download e \<longrightarrow>
            accepted_owner d = accepted_owner e \<longrightarrow> admission_key d = admission_key e \<longrightarrow>
            \<not> cancelled w (accepted_token d) \<longrightarrow> \<not> cancelled w (accepted_token e) \<longrightarrow> j = k)
    \<and> (\<forall>j d k e. (j, d) \<in> set (completions w) \<longrightarrow> (k, e) \<in> set (completions w) \<longrightarrow>
         upgrade_of d \<noteq> None \<longrightarrow> upgrade_of d = upgrade_of e \<longrightarrow> j = k)"
  using op_reachable_policy [OF assms]
  unfolding admission_unique_def upgrades_unique_def same_admission_def by blast

theorem admission_exclusive_witness:
  "\<not> (\<exists>j d k e. (j, d) \<in> set (accepted (snd demo_claim)) \<and> (k, e) \<in> set (accepted (snd demo_claim)) \<and>
     is_download d \<and> is_download e \<and> accepted_owner d = accepted_owner e \<and> admission_key d = admission_key e \<and>
     \<not> cancelled (snd demo_claim) (accepted_token d) \<and> \<not> cancelled (snd demo_claim) (accepted_token e) \<and> j \<noteq> k)"
  using admission_exclusive [OF demo_claimed_reachable] by blast

subsection \<open>Cancelled reservations\<close>

fun tickets_apart :: "'o op_system \<Rightarrow> bool" where
  "tickets_apart (u, ls, w) \<longleftrightarrow>
     (\<forall>k e. (k, e) \<in> set (accepted w) \<longrightarrow> accepted_kind e \<noteq> None \<longrightarrow> k \<in> u \<and> k \<notin> fst ` set (reads w))"

fun ticket_dead :: "string \<Rightarrow> 'o op_system \<Rightarrow> bool" where
  "ticket_dead ticket (u, ls, w) \<longleftrightarrow>
     ticket \<in> u \<and> (\<forall>e. (ticket, e) \<in> set (reads w) \<longrightarrow> \<not> is_reserved (entry_state e) \<and> \<not> is_active (entry_state e))
     \<and> (\<forall>e. (ticket, e) \<in> set (accepted w) \<longrightarrow> accepted_kind e = None)"

lemma prim_tickets_apart: "prim s s' \<Longrightarrow> op_ok s \<Longrightarrow> tickets_apart s \<Longrightarrow> tickets_apart s'"
proof (induction rule: prim.induct)
  case (p_forget w keep u ls)
  have "fst ` set (filter keep (reads w)) \<subseteq> fst ` set (reads w)" by auto
  with p_forget.prems(2) show ?case by (simp del: op_ok.simps) blast
next
  case (p_reserve ticket u w e owner kind created ls)
  then show ?case by (auto simp: keys_update simp del: op_ok.simps)
next
  case (p_claim w ticket e t v u ls label)
  then have v: "v = snd (token_new w)" by simp
  have "ticket \<in> fst ` set (reads w)" using map_of_SomeD [OF p_claim.hyps(2)] by force
  with p_claim.prems(2) show ?case by (auto simp: v keys_update)
next
  case (p_mark w ticket e u ls created)
  have "ticket \<in> fst ` set (reads w)" using map_of_SomeD [OF p_mark.hyps(1)] by force
  with p_mark.prems(2) show ?case by (auto simp: keys_update)
next
  case (p_claim_prepared w ticket r e u ls)
  have "ticket \<in> u" using op_okD(4) [OF p_claim_prepared.prems(1)] map_of_SomeD [OF p_claim_prepared.hyps(4)] by force
  with p_claim_prepared.prems(2) p_claim_prepared.hyps(3) show ?case by (auto simp: update_absent keys_delete)
next
  case (p_accept key u w e ls)
  then show ?case by (auto simp: update_absent simp del: op_ok.simps)
next
  case (p_tail w key e u ls)
  then show ?case by (auto simp: update_absent is_tail_def simp del: op_ok.simps)
next
  case (p_commit w key e u ls)
  have "(key, e) \<in> set (accepted w)" using p_commit.hyps(1) by (rule map_of_SomeD)
  with p_commit.prems(2) set_update_subset [of key "e\<lparr>committing := True\<rparr>" "accepted w"] show ?case by fastforce
next
  case (p_drop l ls u w)
  have "fst ` set (reads (operation_lease_drop l w)) \<subseteq> fst ` set (reads w)"
    by (auto simp: operation_lease_drop_def AList.delete_eq split: lease_kind.splits)
  with p_drop.prems(2) drop_frame(1) [of l w] show ?case unfolding tickets_apart.simps by blast
qed (auto simp: same_registry_def simp del: op_ok.simps)

lemma prim_ticket_dead: "prim s s' \<Longrightarrow> op_ok s \<Longrightarrow> ticket_dead ticket s \<Longrightarrow> ticket_dead ticket s'"
proof (induction rule: prim.induct)
  case (p_reserve fresh u w e owner kind created ls)
  then have "fresh \<noteq> ticket" by auto
  with p_reserve.prems(2) set_update_subset [of fresh e "reads w"] show ?case by auto
next
  case (p_claim w key e t v u ls label)
  then have v: "v = snd (token_new w)" by simp
  have "key \<noteq> ticket" using map_of_SomeD [OF p_claim.hyps(2)] p_claim.hyps(3) p_claim.prems(2) by auto
  with p_claim.prems(2) set_update_subset [of key "e\<lparr>entry_state := Active t label\<rparr>" "reads w"] show ?case by (auto simp: v)
next
  case (p_mark w key e u ls created)
  have "key \<noteq> ticket" using map_of_SomeD [OF p_mark.hyps(1)] p_mark.hyps(2) p_mark.prems(2) by auto
  with p_mark.prems(2) set_update_subset [of key "e\<lparr>entry_state := CancelledReserved created\<rparr>" "reads w"] show ?case by auto
next
  case (p_claim_prepared w key r e u ls)
  have "key \<noteq> ticket" using map_of_SomeD [OF p_claim_prepared.hyps(4)] p_claim_prepared.hyps(5) p_claim_prepared.prems(2) by auto
  with p_claim_prepared show ?case by (auto simp: update_absent AList.delete_eq simp del: op_ok.simps)
next
  case (p_accept key u w e ls)
  then show ?case by (auto simp: update_absent simp del: op_ok.simps)
next
  case (p_tail w key e u ls)
  then show ?case by (auto simp: update_absent is_tail_def simp del: op_ok.simps)
next
  case (p_commit w key e u ls)
  have "(key, e) \<in> set (accepted w)" using p_commit.hyps(1) by (rule map_of_SomeD)
  with p_commit.prems(2) set_update_subset [of key "e\<lparr>committing := True\<rparr>" "accepted w"] show ?case by fastforce
next
  case (p_drop l ls u w)
  have "set (reads (operation_lease_drop l w)) \<subseteq> set (reads w)"
    by (auto simp: operation_lease_drop_def AList.delete_eq split: lease_kind.splits)
  with p_drop.prems(2) drop_frame(1) [of l w] show ?case unfolding ticket_dead.simps by blast
qed (auto simp: same_registry_def simp del: op_ok.simps)

lemma op_reachable_tickets: "op_reachable s \<Longrightarrow> tickets_apart s"
proof -
  have "op_ok s \<and> tickets_apart s" if "prim\<^sup>*\<^sup>* op_start s" for s :: "'a op_system"
    using that
  proof (induction rule: rtranclp_induct)
    case base
    show ?case using op_ok_start by (simp add: op_start_def op_world_start_def)
  next
    case (step y z)
    then show ?case using prim_ok prim_tickets_apart by blast
  qed
  then show "op_reachable s \<Longrightarrow> tickets_apart s" for s :: "'a op_system" using op_reachable_prims(1) by blast
qed

lemma prims_ticket_dead:
  "prim\<^sup>*\<^sup>* s s' \<Longrightarrow> op_ok s \<Longrightarrow> ticket_dead ticket s \<Longrightarrow> ticket_dead ticket s'"
proof (induction rule: rtranclp_induct)
  case (step y z)
  then show ?case by (meson prim_ticket_dead prims_ok)
qed simp

lemma cancelled_reservation_dead:
  assumes ok: "op_ok (u, ls, w)" and apart: "tickets_apart (u, ls, w)"
    and e: "map_of (reads (purge_expired now w)) ticket = Some e"
    and c: "cancel_download now created ticket owner w = (Inr True, w1)"
  shows "ticket_dead ticket (u, ls, w1)"
proof -
  let ?v = "purge_expired now w"
  have ok': "op_ok (u, ls, ?v)" by (rule prim_ok [OF prim_purge ok])
  have e': "(ticket, e) \<in> set (reads ?v)" using e by (rule map_of_SomeD)
  have only: "d = e" if "(ticket, d) \<in> set (reads ?v)" for d
    using that e' op_okD(1) [OF ok'] by (meson eq_key_imp_eq_value)
  have key: "ticket \<in> fst ` set (reads w)" using e' by (force simp: purge_expired_def)
  have "\<exists>d. w1 = ?v\<lparr>reads := AList.update ticket d (reads ?v)\<rparr> \<and> \<not> is_reserved (entry_state d) \<and> \<not> is_active (entry_state d)"
  proof (cases "entry_state e")
    case (Reserved n)
    then show ?thesis using c e by (force simp: cancel_download_def cancel_prepared_def Let_def is_reserved_def is_active_def split: if_split_asm)
  next
    case (CancelledReserved n)
    have "AList.update ticket e (reads ?v) = reads ?v"
      by (rule map_of_splits [OF op_okD(1) [OF ok'] e]) (simp add: update_split)
    moreover have "w1 = ?v" using c e CancelledReserved by (auto simp: cancel_download_def cancel_prepared_def Let_def split: if_split_asm)
    ultimately show ?thesis using CancelledReserved by (intro exI [of _ e]) (simp add: is_reserved_def is_active_def)
  next
    case (Active t label)
    then show ?thesis using c e by (auto simp: cancel_download_def cancel_prepared_def Let_def split: if_split_asm)
  qed
  moreover have "accepted_kind d = None" if "(ticket, d) \<in> set (accepted w)" for d
    using apart key that unfolding tickets_apart.simps by blast
  moreover have "ticket \<in> u" using key op_okD(4) [OF ok] by blast
  ultimately show ?thesis using op_okD(1) [OF ok'] by (auto simp: set_update_distinct)
qed

text \<open>
  C27. The cancellation of a download that has not started yet is remembered: when \<^verbatim>\<open>cancel_download\<close>
  answered true on a reservation, no later sequence of calls makes its ticket a running download.
\<close>

theorem cancelled_reservation_never_runs:
  assumes "op_reachable (u, ls, w)" "map_of (reads (purge_expired now w)) ticket \<noteq> None"
    "cancel_download now created ticket owner w = (Inr True, w1)" "op_step\<^sup>*\<^sup>* (u, ls, w1) (u', ls', w')"
  shows "case map_of (accepted w') ticket of Some e \<Rightarrow> \<not> is_download e | None \<Rightarrow> True"
proof -
  obtain e where e: "map_of (reads (purge_expired now w)) ticket = Some e" using assms(2) by blast
  note ok = op_reachable_prims(2) [OF assms(1)]
  have dead: "ticket_dead ticket (u, ls, w1)"
    by (rule cancelled_reservation_dead [OF ok op_reachable_tickets [OF assms(1)] e assms(3)])
  have "op_step (u, ls, w) (u, ls, w1)" by (rule step_cancel_download [OF assms(3)])
  note reach = op_reachable_step [OF assms(1) r_into_rtranclp [of op_step, OF this]]
  have "prim\<^sup>*\<^sup>* (u, ls, w1) (u', ls', w')"
    using op_steps_prims [OF assms(4) op_reachable_prims(2,3) [OF reach]] by simp
  from prims_ticket_dead [OF this op_reachable_prims(2) [OF reach] dead] show ?thesis
    by (auto simp: is_download_def split: option.split dest: map_of_SomeD)
qed

theorem cancelled_reservation_never_runs_witness:
  "\<exists>w1. cancel_download 1 1 ''t'' ''main'' demo_prepared = (Inr True, w1)
     \<and> (case map_of (accepted (snd (claim_download 2 ''t'' ''main'' ''install'' demo_policy w1))) ''t'' of
          Some e \<Rightarrow> \<not> is_download e | None \<Rightarrow> True)"
proof -
  have c: "cancel_download 1 1 ''t'' ''main'' demo_prepared = (Inr True, snd (cancel_download 1 1 ''t'' ''main'' demo_prepared))"
    by (simp add: cancel_download_def cancel_prepared_def purge_expired_def demo_prepared_eq
        op_world_start_def reservation_live_def READ_RESERVATION_TTL_def)
  have "map_of (reads (purge_expired 1 demo_prepared)) ''t'' \<noteq> None"
    by (simp add: purge_expired_def demo_prepared_eq op_world_start_def reservation_live_def READ_RESERVATION_TTL_def)
  from cancelled_reservation_never_runs [OF demo_prepared_reachable this c
      r_into_rtranclp [of op_step, OF step_claim_download [OF prod.collapse [symmetric]]]]
  show ?thesis using c by blast
qed

end
