(* ===== verification/OperationOwners.thy ===== *)
theory OperationOwners
  imports OperationTheorems
begin

text \<open>
  Windows are kept apart: a call made for one window leaves the reservations, running operations,
  completions and cancellation tokens of every other window as they are, except that expired
  reservations disappear.
\<close>

inductive owner_call :: "string \<Rightarrow> nat \<Rightarrow> 'o op_world \<Rightarrow> 'o op_world \<Rightarrow> bool" for owner now where
  "claim_read now ticket owner label w = (r, w') \<Longrightarrow> owner_call owner now w w'"
| "claim_analysis now ticket owner tab label w = (r, w') \<Longrightarrow> owner_call owner now w w'"
| "cancel_read now ticket owner w = (r, w') \<Longrightarrow> owner_call owner now w w'"
| "cancel_analysis now ticket owner w = (r, w') \<Longrightarrow> owner_call owner now w w'"
| "cancel_analyses_for_tab owner tab w = (r, w') \<Longrightarrow> owner_call owner now w w'"
| "claim_download now ticket owner label policy w = (r, w') \<Longrightarrow> owner_call owner now w w'"
| "claim_conversion now ticket owner w = (r, w') \<Longrightarrow> owner_call owner now w w'"
| "cancel_download now created ticket owner w = (r, w') \<Longrightarrow> owner_call owner now w w'"
| "cancel_conversion now created ticket owner w = (r, w') \<Longrightarrow> owner_call owner now w w'"
| "cancel_download_for_progress progress owner w = (r, w') \<Longrightarrow> owner_call owner now w w'"
| "release_download now ticket owner w = (r, w') \<Longrightarrow> owner_call owner now w w'"
| "release_conversion now ticket owner w = (r, w') \<Longrightarrow> owner_call owner now w w'"
| "cancel_owner_reservations owner w = (r, w') \<Longrightarrow> owner_call owner now w w'"
| "cancel_owner owner w = (r, w') \<Longrightarrow> owner_call owner now w w'"
| "finish_engine_retirement key owner w = (r, w') \<Longrightarrow> owner_call owner now w w'"
| "acknowledge_engine_completion key owner w = (r, w') \<Longrightarrow> owner_call owner now w w'"
| "acknowledge_account_completion key owner w = (r, w') \<Longrightarrow> owner_call owner now w w'"

text \<open>The tokens of the work of other windows.\<close>

definition foreign_token :: "string \<Rightarrow> 'o op_world \<Rightarrow> cancellation \<Rightarrow> bool" where
  "foreign_token owner w t \<longleftrightarrow>
     (\<exists>k e label. map_of (reads w) k = Some e \<and> read_owner e \<noteq> owner \<and> entry_state e = Active t label)
     \<or> (\<exists>k e. map_of (accepted w) k = Some e \<and> accepted_owner e \<noteq> owner \<and> accepted_token e = t)"

definition foreign_same :: "string \<Rightarrow> 'o op_world \<Rightarrow> 'o op_world \<Rightarrow> bool" where
  "foreign_same owner w v \<longleftrightarrow>
     (\<forall>k e. map_of (reads w) k = Some e \<longrightarrow> read_owner e \<noteq> owner \<longrightarrow> map_of (reads v) k = Some e)
     \<and> (\<forall>k e. map_of (accepted w) k = Some e \<longrightarrow> accepted_owner e \<noteq> owner \<longrightarrow> map_of (accepted v) k = Some e)
     \<and> (\<forall>k e. map_of (completions w) k = Some e \<longrightarrow> entry_owner e \<noteq> owner \<longrightarrow> map_of (completions v) k = Some e)
     \<and> (\<forall>k e. map_of (accounts w) k = Some e \<longrightarrow> account_owner e \<noteq> owner \<longrightarrow> map_of (accounts v) k = Some e)
     \<and> (\<forall>t. foreign_token owner w t \<longrightarrow> cancelled v t = cancelled w t)"

lemma foreign_same_refl [simp]: "foreign_same owner w w"
  by (simp add: foreign_same_def)

lemma foreign_same_trans [trans]:
  assumes "foreign_same owner w v" "foreign_same owner v x"
  shows "foreign_same owner w x"
proof -
  have "foreign_token owner w t \<Longrightarrow> foreign_token owner v t" for t
    using assms(1) unfolding foreign_token_def foreign_same_def by metis
  with assms show ?thesis unfolding foreign_same_def
    by (elim conjE, intro conjI allI impI) simp_all
qed

lemma foreign_update_read:
  "map_of (reads w) k = Some e \<Longrightarrow> read_owner e = owner \<Longrightarrow>
   foreign_same owner w (w\<lparr>reads := AList.update k e' (reads w)\<rparr>)"
  "map_of (reads w) k = Some e \<Longrightarrow> read_owner e = owner \<Longrightarrow>
   foreign_same owner w (w\<lparr>reads := AList.delete k (reads w)\<rparr>)"
  by (auto simp: foreign_same_def update_conv' delete_conv')

lemma foreign_add_accepted:
  "map_of (accepted w) k = None \<Longrightarrow> foreign_same owner w (w\<lparr>accepted := AList.update k e (accepted w)\<rparr>)"
  by (auto simp: foreign_same_def update_conv')

lemma foreign_cancel: "\<not> foreign_token owner w t \<Longrightarrow> foreign_same owner w (token_cancel t w)"
  by (auto simp: foreign_same_def)

lemma active_tokens_known:
  assumes ok: "op_ok (u, ls, w)" and e: "map_of (reads w) k = Some e" "entry_state e = Active t label"
  shows "t < next_token w" "map_of (reads w) j = Some d \<Longrightarrow> entry_state d = Active t label' \<Longrightarrow> j = k"
    "map_of (accepted w) j = Some a \<Longrightarrow> accepted_token a \<noteq> t"
proof -
  have lease: "\<lparr>op_id = i, op_token = t, op_kind = lease_kind_of (read_kind f)\<rparr> \<in> set (read_leases (reads w))"
    if "map_of (reads w) i = Some f" "entry_state f = Active t label'" for i f label'
    using map_of_SomeD [OF that(1)] that(2) by (auto simp: in_read_leases)
  note l = lease [OF e]
  show "t < next_token w" using table_tokens(2) [OF ok, OF UnI1 [of _ "set (read_leases (reads w))" "set (accepted_leases (accepted w))", OF l, folded set_append, folded table_leases_def]]
    by simp
  have inj: "inj_on op_token (set (read_leases (reads w)))"
    using table_tokens(1) [OF ok] by (simp add: table_leases_def distinct_map inj_on_Un)
  show "j = k" if "map_of (reads w) j = Some d" "entry_state d = Active t label'"
    using inj_onD [OF inj _ lease [OF that] l] by simp
  have "t \<in> set (active_tokens (reads w))" using imageI [OF l, of op_token] by (simp add: active_tokens_read_leases)
  then show "accepted_token a \<noteq> t" if "map_of (accepted w) j = Some a"
    using accepted_tokens(2) [OF ok map_of_SomeD [OF that]] by auto
qed

lemma foreign_token_fresh: "op_ok (u, ls, w) \<Longrightarrow> foreign_token owner w t \<Longrightarrow> t < next_token w"
  unfolding foreign_token_def
proof (elim disjE exE conjE)
  fix k e label
  assume "op_ok (u, ls, w)" "map_of (reads w) k = Some e" "entry_state e = Active t label"
  then show "t < next_token w" by (rule active_tokens_known(1))
next
  fix k e
  assume "op_ok (u, ls, w)" "map_of (accepted w) k = Some e" "accepted_token e = t"
  then show "t < next_token w" using accepted_tokens(1) [OF _ map_of_SomeD] by blast
qed

lemma foreign_token_new:
  assumes "op_ok (u, ls, w)"
  shows "foreign_same owner w (snd (token_new w))"
  using foreign_token_fresh [OF assms] unfolding foreign_same_def by auto

lemma own_accepted_token:
  assumes ok: "op_ok (u, ls, w)" and e: "(k, e) \<in> set (accepted w)" "accepted_owner e = owner"
  shows "\<not> foreign_token owner w (accepted_token e)"
  unfolding foreign_token_def
proof (intro notI, elim disjE exE conjE)
  fix j d label
  assume "map_of (reads w) j = Some d" "entry_state d = Active (accepted_token e) label"
  from active_tokens_known(3) [OF ok this, of k e] e(1) op_okD(2) [OF ok] show False by simp
next
  fix j d
  assume "map_of (accepted w) j = Some d" "accepted_owner d \<noteq> owner" "accepted_token d = accepted_token e"
  with accepted_tokens(3) [OF ok e(1), of j d] e(2) show False by (auto dest: map_of_SomeD)
qed

lemma own_read_token:
  assumes ok: "op_ok (u, ls, w)" and e: "map_of (reads w) k = Some e" "read_owner e = owner" "entry_state e = Active t label"
  shows "\<not> foreign_token owner w t"
  unfolding foreign_token_def
proof (intro notI, elim disjE exE conjE)
  fix j d label'
  assume d: "map_of (reads w) j = Some d" "read_owner d \<noteq> owner" "entry_state d = Active t label'"
  from active_tokens_known(2) [OF ok e(1,3) d(1,3)] d(1,2) e(1,2) show False by simp
next
  fix j d
  assume "map_of (accepted w) j = Some d" "accepted_token d = t"
  with active_tokens_known(3) [OF ok e(1,3)] show False by blast
qed

lemma foreign_cancel_entry:
  assumes ok: "op_ok (u, ls, w)" and own: "\<And>e. map_of (reads w) k = Some e \<Longrightarrow> read_owner e = owner"
  shows "foreign_same owner w (cancel_entry k w)"
proof (cases "map_of (reads w) k")
  case (Some e)
  then show ?thesis using own [OF Some] foreign_cancel [OF own_read_token [OF ok Some own [OF Some]]]
      foreign_update_read(2) [OF Some]
    by (auto simp: cancel_entry_def split: read_entry_state.split)
qed (simp add: cancel_entry_def)

lemma reads_cancel_entry:
  "map_of (reads (cancel_entry j w)) k = Some e \<Longrightarrow> map_of (reads w) k = Some e"
  by (auto simp: cancel_entry_def delete_conv' split: option.split_asm read_entry_state.split_asm if_split_asm)

lemma foreign_cancel_entries:
  "op_ok (u, ls, w) \<Longrightarrow> (\<And>k e. k \<in> set ks \<Longrightarrow> map_of (reads w) k = Some e \<Longrightarrow> read_owner e = owner) \<Longrightarrow>
   foreign_same owner w (fold cancel_entry ks w)"
proof (induction ks arbitrary: w)
  case (Cons k ks)
  have "foreign_same owner w (cancel_entry k w)" using Cons.prems by (intro foreign_cancel_entry) auto
  also have "foreign_same owner (cancel_entry k w) (fold cancel_entry ks (cancel_entry k w))"
  proof (rule Cons.IH)
    show "op_ok (u, ls, cancel_entry k w)" by (rule prims_ok [OF prims_cancel_entry [OF Cons.prems(1)] Cons.prems(1)])
    show "read_owner e = owner" if "j \<in> set ks" "map_of (reads (cancel_entry k w)) j = Some e" for j e
      using Cons.prems(2) that reads_cancel_entry by (metis list.set_intros(2))
  qed
  finally show ?case by simp
qed simp

lemma foreign_cancel_own:
  "op_ok (u, ls, w) \<Longrightarrow> (\<And>k e. (k, e) \<in> set own \<Longrightarrow> (k, e) \<in> set (accepted w) \<and> accepted_owner e = owner) \<Longrightarrow>
   foreign_same owner w (fold (\<lambda>(_, e). token_cancel (accepted_token e)) own w)"
proof (induction own arbitrary: w)
  case (Cons p own)
  obtain k e where p: "p = (k, e)" by fastforce
  have "foreign_same owner w (token_cancel (accepted_token e) w)"
    using Cons.prems by (intro foreign_cancel own_accepted_token [of u ls]) (auto simp: p)
  also have "foreign_same owner \<dots> (fold (\<lambda>(_, e). token_cancel (accepted_token e)) own (token_cancel (accepted_token e) w))"
  proof (rule Cons.IH)
    show "op_ok (u, ls, token_cancel (accepted_token e) w)"
      by (rule op_ok_frame [OF Cons.prems(1)]) (use op_okD [OF Cons.prems(1)] in simp_all)
  qed (use Cons.prems(2) in auto)
  finally show ?case by (simp add: p)
qed simp

subsection \<open>Every call\<close>

definition kept_apart :: "string \<Rightarrow> nat \<Rightarrow> 'o op_world \<Rightarrow> 'o op_world \<Rightarrow> bool" where
  "kept_apart owner now w v \<longleftrightarrow> foreign_same owner w v \<or> foreign_same owner (purge_expired now w) v"

lemma ok_purge: "op_ok (u, ls, w) \<Longrightarrow> op_ok (u, ls, purge_expired now w)"
  by (rule prim_ok [OF prim_purge])

lemma claim_foreign:
  assumes ok: "op_ok (u, ls, w)" and c: "claim_reservation now ticket owner kind label w = (r, w')"
    and k: "lease_kind_of kind \<noteq> LeaseAccepted"
  shows "kept_apart owner now w w'"
proof (cases r)
  case (Inl err)
  then have "w' = purge_expired now w" using c
    by (auto simp: claim_reservation_def Let_def split: if_split_asm option.split_asm prod.split_asm)
  then show ?thesis by (simp add: kept_apart_def)
next
  case (Inr l)
  let ?v = "purge_expired now w"
  obtain e where e: "map_of (reads ?v) ticket = Some e" "claim_refused kind owner e = None"
    "w' = (snd (token_new ?v))\<lparr>reads := AList.update ticket (e\<lparr>entry_state := Active (next_token ?v) label\<rparr>) (reads ?v)\<rparr>"
    using c Inr by (auto simp: claim_reservation_def Let_def token_new_def split: if_split_asm option.split_asm)
  have own: "read_owner e = owner" using e(2) k by (auto simp: claim_refused_def split: reservation_kind.splits if_split_asm)
  have "foreign_same owner ?v (snd (token_new ?v))" by (rule foreign_token_new [OF ok_purge [OF ok]])
  also have "foreign_same owner (snd (token_new ?v)) w'"
    unfolding e(3) using foreign_update_read(1) [of "snd (token_new ?v)" ticket e owner] e(1) own by simp
  finally show ?thesis by (simp add: kept_apart_def)
qed

lemma claim_prepared_foreign:
  assumes ok: "op_ok (u, ls, w)" and c: "claim_prepared_in_state now ticket owner label kind policy w = (r, w')"
  shows "kept_apart owner now w w'"
proof (cases r)
  case (Inl err)
  let ?v = "purge_expired now w"
  have "w' = ?v \<or> (\<exists>e. map_of (reads ?v) ticket = Some e \<and> read_owner e = owner
      \<and> w' = ?v\<lparr>reads := AList.delete ticket (reads ?v)\<rparr>)"
  proof (cases "map_of (reads ?v) ticket")
    case None
    with c Inl show ?thesis by (simp add: claim_prepared_in_state_def Let_def split: if_split_asm)
  next
    case (Some e)
    show ?thesis
      by (cases "entry_state e")
        (use c Inl Some in \<open>simp_all add: claim_prepared_in_state_def Let_def
          split: if_split_asm option.split_asm prod.split_asm\<close>)
  qed
  then show ?thesis using foreign_update_read(2) by (auto simp: kept_apart_def)
next
  case (Inr l)
  let ?v = "purge_expired now w"
  let ?x = "?v\<lparr>reads := AList.delete ticket (reads ?v)\<rparr>"
  obtain q e where q: "map_of (reads ?v) ticket = Some q" "read_owner q = owner" "is_reserved (entry_state q)"
    "admission_refused ticket owner policy ?v = None" "w' = add_accepted ticket e ?x"
    using c [unfolded Inr] by (rule claim_prepared_Inr)
  note ok' = ok_purge [OF ok, of now]
  have "\<not> is_active (entry_state q)" using q(3) by (auto simp: is_reserved_def is_active_def split: read_entry_state.splits)
  then have okx: "op_ok (u, ls, ?x)" using prim_ok [OF prim_delete_idle [OF ok' q(1)] ok'] by blast
  have "foreign_same owner ?v ?x" by (rule foreign_update_read(2) [OF q(1,2)])
  also have "foreign_same owner ?x (snd (token_new ?x))" by (rule foreign_token_new [OF okx])
  also have "foreign_same owner (snd (token_new ?x)) w'"
    using foreign_add_accepted [of "snd (token_new ?x)" ticket owner "e\<lparr>accepted_token := next_token ?x\<rparr>"]
      admission_refused_None(2) [OF q(4)]
    by (simp add: q(5) add_accepted_def token_new_def)
  finally show ?thesis by (simp add: kept_apart_def)
qed

lemma cancel_reservation_foreign:
  assumes ok: "op_ok (u, ls, w)" and c: "cancel_reservation now ticket owner analysis w = (r, w')"
  shows "kept_apart owner now w w'"
proof -
  let ?v = "purge_expired now w"
  have "w' = ?v \<or> (\<exists>e. map_of (reads ?v) ticket = Some e \<and> read_owner e = owner \<and> w' = cancel_entry ticket ?v)"
    using c by (cases "map_of (reads ?v) ticket") (auto simp: cancel_reservation_def Let_def split: if_split_asm)
  then have "foreign_same owner ?v w'"
    using foreign_cancel_entry [OF ok_purge [OF ok], of now ticket owner] by fastforce
  then show ?thesis by (simp add: kept_apart_def)
qed

lemma cancel_prepared_foreign:
  assumes ok: "op_ok (u, ls, w)" and c: "cancel_prepared now created ticket owner kind w = (r, w')"
  shows "kept_apart owner now w w'"
proof -
  let ?v = "purge_expired now w"
  note ok' = ok_purge [OF ok, of now]
  show ?thesis
  proof (cases "map_of (reads ?v) ticket")
    case (Some e)
    then have "w' = ?v \<or> read_owner e = owner \<and>
        w' = ?v\<lparr>reads := AList.update ticket (e\<lparr>entry_state := CancelledReserved created\<rparr>) (reads ?v)\<rparr>"
      using c by (cases "entry_state e") (auto simp: cancel_prepared_def Let_def split: if_split_asm)
    with foreign_update_read(1) [OF Some] show ?thesis by (auto simp: kept_apart_def)
  next
    case None
    show ?thesis
    proof (cases "map_of (accepted ?v) ticket")
      case (Some e)
      have "w' = ?v \<or> accepted_owner e = owner \<and> w' = token_cancel (accepted_token e) ?v"
        using c None Some by (simp add: cancel_prepared_def Let_def cancel_accepted_download_def split: if_split_asm)
      with foreign_cancel [OF own_accepted_token [OF ok' map_of_SomeD [OF Some]]] show ?thesis by (auto simp: kept_apart_def)
    qed (use c None in \<open>simp add: cancel_prepared_def Let_def kept_apart_def\<close>)
  qed
qed

lemma release_foreign:
  assumes c: "release_prepared now ticket owner kind w = (r, w')"
  shows "kept_apart owner now w w'"
proof -
  let ?v = "purge_expired now w"
  have "w' = ?v \<or> (\<exists>e. map_of (reads ?v) ticket = Some e \<and> read_owner e = owner
      \<and> w' = ?v\<lparr>reads := AList.delete ticket (reads ?v)\<rparr>)"
    using c by (cases "map_of (reads ?v) ticket")
      (auto simp: release_prepared_def Let_def split: if_split_asm option.split_asm)
  then show ?thesis using foreign_update_read(2) by (auto simp: kept_apart_def)
qed

lemma cancel_loop_foreign:
  "op_ok (u, ls, w) \<Longrightarrow> (\<And>e. e \<in> set es \<Longrightarrow> accepted_owner e = owner \<and> e \<in> snd ` set (accepted w)) \<Longrightarrow>
   foreign_same owner w (snd (cancel_progress_loop es already w))"
proof (induction es arbitrary: already)
  case (Cons e es)
  obtain k where "(k, e) \<in> set (accepted w)" using Cons.prems(2) [of e] by auto
  then have "foreign_same owner w (token_cancel (accepted_token e) w)"
    using Cons.prems by (intro foreign_cancel own_accepted_token [of u ls]) auto
  with Cons show ?case by (simp add: cancel_accepted_download_def)
qed simp

lemma cancel_reservations_foreign:
  assumes "op_ok (u, ls, w)"
  shows "foreign_same owner w (snd (cancel_owner_reservations_in_state owner w))"
proof -
  have "foreign_same owner w (fold cancel_entry (map fst (filter (\<lambda>(_, e). read_owner e = owner) (reads w))) w)"
  proof (rule foreign_cancel_entries [OF assms])
    fix k e
    assume k: "k \<in> set (map fst (filter (\<lambda>(_, e). read_owner e = owner) (reads w)))" and m: "map_of (reads w) k = Some e"
    then obtain d where "(k, d) \<in> set (reads w)" "read_owner d = owner" by auto
    then show "read_owner e = owner" using m op_okD(1) [OF assms] by (metis map_of_in_set option.inject)
  qed
  then show ?thesis
    by (simp add: cancel_owner_reservations_in_state_def Let_def fold_cancel_operations o_def split_def)
qed

lemma owner_call_apart:
  assumes ok: "op_ok (u, ls, w)" and c: "owner_call owner now w w'"
  shows "kept_apart owner now w w'"
  using c
proof cases
  case (1 ticket label r)
  then show ?thesis unfolding claim_read_def using claim_foreign [OF ok] by simp
next
  case (2 ticket tab label r)
  then show ?thesis unfolding claim_analysis_def using claim_foreign [OF ok] by simp
next
  case (3 ticket r)
  then show ?thesis unfolding cancel_read_def by (rule cancel_reservation_foreign [OF ok])
next
  case (4 ticket r)
  then show ?thesis unfolding cancel_analysis_def by (rule cancel_reservation_foreign [OF ok])
next
  case (5 tab r)
  let ?ks = "map fst (filter (\<lambda>(_, e). read_owner e = owner \<and> read_kind e = AnalysisKind tab) (reads w))"
  have "foreign_same owner w (fold cancel_entry ?ks w)"
  proof (rule foreign_cancel_entries [OF ok])
    fix k e
    assume k: "k \<in> set ?ks" and m: "map_of (reads w) k = Some e"
    then obtain d where "(k, d) \<in> set (reads w)" "read_owner d = owner" by auto
    then show "read_owner e = owner" using m op_okD(1) [OF ok] by (metis map_of_in_set option.inject)
  qed
  with 5 show ?thesis by (auto simp: cancel_analyses_for_tab_def Let_def kept_apart_def)
next
  case (6 ticket label policy r)
  then show ?thesis unfolding claim_download_def by (rule claim_prepared_foreign [OF ok])
next
  case (7 ticket r)
  then show ?thesis unfolding claim_conversion_def by (rule claim_prepared_foreign [OF ok])
next
  case (8 created ticket r)
  then show ?thesis unfolding cancel_download_def by (rule cancel_prepared_foreign [OF ok])
next
  case (9 created ticket r)
  then show ?thesis unfolding cancel_conversion_def by (rule cancel_prepared_foreign [OF ok])
next
  case (10 progress r)
  let ?es = "filter (\<lambda>e. is_download e \<and> accepted_owner e = owner \<and> accepted_progress e = Some progress) (map snd (accepted w))"
  have "w' = snd (cancel_progress_loop ?es False w)" using 10 by (auto simp: cancel_download_for_progress_def split_def Let_def)
  with cancel_loop_foreign [OF ok, of ?es] show ?thesis by (auto simp: kept_apart_def)
next
  case (11 ticket r)
  then show ?thesis unfolding release_download_def by (rule release_foreign)
next
  case (12 ticket r)
  then show ?thesis unfolding release_conversion_def by (rule release_foreign)
next
  case (13 r)
  then have "w' = snd (cancel_owner_reservations_in_state owner w)" by (auto simp: cancel_owner_reservations_def split_def Let_def)
  with cancel_reservations_foreign [OF ok] show ?thesis by (simp add: kept_apart_def)
next
  case (14 r)
  obtain ops v where v: "cancel_owner_reservations_in_state owner w = (ops, v)" by fastforce
  have v': "v = fold cancel_entry (map cancelled_id ops) w"
    using v by (auto simp: cancel_owner_reservations_in_state_def Let_def fold_cancel_operations)
  have okv: "op_ok (u, ls, v)" unfolding v' by (rule prims_ok [OF prims_cancel_entries [OF ok] ok])
  have "foreign_same owner w v" using cancel_reservations_foreign [OF ok, of owner] by (simp add: v)
  also have "foreign_same owner v w'"
    using 14 v by (auto simp: cancel_owner_def Let_def intro!: foreign_cancel_own [OF okv])
  finally show ?thesis by (simp add: kept_apart_def)
next
  case (15 key r)
  then show ?thesis
    by (auto simp: finish_engine_retirement_def kept_apart_def foreign_same_def update_conv' foreign_token_def
        split: option.split_asm if_split_asm)
next
  case (16 key r)
  then show ?thesis
    by (auto simp: acknowledge_engine_completion_def kept_apart_def foreign_same_def delete_conv' foreign_token_def
        split: option.split_asm if_split_asm)
next
  case (17 key r)
  then show ?thesis
    by (auto simp: acknowledge_account_completion_def kept_apart_def foreign_same_def delete_conv' foreign_token_def
        split: option.split_asm if_split_asm)
qed

text \<open>
  C28. Windows are kept apart: a claim, a cancellation, a release or an acknowledgement made for one
  window, successful or not, changes no reservation, running operation, completion or cancellation
  token of another window, except that reservations that are expired disappear.
\<close>

theorem windows_kept_apart:
  assumes "op_reachable (u, ls, w)" "owner_call owner now w w'"
  shows "foreign_same owner w w' \<or> foreign_same owner (purge_expired now w) w'"
  using owner_call_apart [OF op_reachable_prims(2) [OF assms(1)] assms(2)] by (simp add: kept_apart_def)

theorem windows_kept_apart_witness:
  "\<not> cancelled (snd (cancel_owner ''other'' (snd demo_claim))) 0"
proof -
  have c: "owner_call ''other'' 2 (snd demo_claim) (snd (cancel_owner ''other'' (snd demo_claim)))"
    by (rule owner_call.intros(14) [OF prod.collapse [symmetric]])
  have "\<not> cancelled (snd demo_claim) 0 \<and> foreign_token ''other'' (snd demo_claim) 0
      \<and> foreign_token ''other'' (purge_expired 2 (snd demo_claim)) 0"
    by (auto simp: demo_claim_eq foreign_token_def op_world_start_def purge_expired_def)
  with windows_kept_apart [OF demo_claimed_reachable c] show ?thesis
    unfolding foreign_same_def by (metis purge_simps(4))
qed

end
