(* ===== verification/AccountImport.thy ===== *)
theory AccountImport
  imports OperationTheorems
begin

text \<open>
  The workflow of an account import, \<^verbatim>\<open>start_account_completion\<close> of
  \<^verbatim>\<open>infra/operations/accounts.rs\<close>: a loop that downloads a batch of games, imports it into a linked
  collection or a database, deletes the empty games, and goes on with the next batch, keeping in
  its snapshot what a later attempt can resume from. The registry calls are those of \<^verbatim>\<open>Operations\<close>;
  the download is a parameter of the code itself, and what the database, the linked collections,
  the progress events and the identifiers do is an interface, \<^term>\<open>account_env\<close>: actions on the
  registry and on the rest of the process. A panic of such an action is not modelled.
\<close>

subsection \<open>The interface\<close>

type_synonym ('o, 'e) process = "'o op_world \<times> 'e"

record runtime_download =
  download_publication :: artifact_publication
  receipt_error :: "error option"
  download_coverage_holds :: "coverage_hold list option"
  download_coverage_floor_ms :: "int option"

record append_outcome =
  appended :: int
  committed :: bool
  index_ready :: bool
  durability_confirmed :: bool

record account_import_context =
  context_provider :: string
  context_account :: string
  context_since_ms :: "int option"
  context_coverage_holds :: "coverage_hold list option"
  context_coverage_floor_ms :: "int option"

record ('o, 'e) account_env =
  env_cursor :: "account_import_target \<Rightarrow> (('o, 'e) process, int option) io"
  env_ticket :: "(('o, 'e) process, string \<times> nat \<times> nat) io"
  env_now :: "('o, 'e) process \<Rightarrow> nat"
  env_emit :: "string \<Rightarrow> (('o, 'e) process, unit) io"
  env_download :: "account_import_request \<Rightarrow> string \<Rightarrow> string \<Rightarrow> (('o, 'e) process, runtime_download) io"
  env_append_batch :: "string \<Rightarrow> path_ref \<Rightarrow> (('o, 'e) process, append_outcome) io"
  env_begin_progress :: "string \<Rightarrow> (('o, 'e) process, progress_lease) io"
  env_convert :: "path_ref \<Rightarrow> path_ref \<Rightarrow> account_import_context \<Rightarrow> string \<Rightarrow> string \<Rightarrow> (('o, 'e) process, unit) io"
  env_update_progress :: "progress_lease \<Rightarrow> f32 \<Rightarrow> progress_state \<Rightarrow> (('o, 'e) process, unit) io"
  env_delete_empty :: "path_ref \<Rightarrow> (('o, 'e) process, unit) io"

text \<open>The state of the task: its snapshot, and the process.\<close>

type_synonym ('o, 'e) import_task = "account_completion \<times> ('o, 'e) process"

definition in_process :: "(('o, 'e) process, 'a) io \<Rightarrow> (('o, 'e) import_task, 'a) io" where
  "in_process m s = (case m (snd s) of (r, p) \<Rightarrow> (r, fst s, p))"

definition registry_call :: "('o op_world, 'a) io \<Rightarrow> (('o, 'e) process, 'a) io" where
  "registry_call m p = (case m (fst p) of (r, w) \<Rightarrow> (r, w, snd p))"

definition the_snapshot :: "(('o, 'e) import_task, account_completion) io" where
  "the_snapshot s = (Inr (fst s), s)"

definition set_snapshot :: "(account_completion \<Rightarrow> account_completion) \<Rightarrow> (('o, 'e) import_task, unit) io" where
  "set_snapshot f s = (Inr (), f (fst s), snd s)"

abbreviation then_io :: "('s, 'a) io \<Rightarrow> ('s, 'b) io \<Rightarrow> ('s, 'b) io" where
  "then_io m n \<equiv> bind_io m (\<lambda>_. n)"

subsection \<open>One turn of the loop\<close>

definition is_unlinked :: "account_import_target \<Rightarrow> bool" where
  "is_unlinked t = (case t of Unlinked _ _ \<Rightarrow> True | Linked _ \<Rightarrow> False)"

definition set_since :: "int option \<Rightarrow> account_completion \<Rightarrow> account_completion" where
  "set_since since c = c\<lparr>account_request := (account_request c)\<lparr>since_ms := since\<rparr>\<rparr>"

text \<open>An unlinked import asks its database where to go on.\<close>

definition refresh_since :: "('o, 'e) account_env \<Rightarrow> (('o, 'e) import_task, unit) io" where
  "refresh_since env =
     bind_io the_snapshot (\<lambda>c.
       if publication c = None \<and> is_unlinked (target (account_request c))
       then bind_io (in_process (env_cursor env (target (account_request c)))) (\<lambda>since. set_snapshot (set_since since))
       else return_io ())"

text \<open>A failed notification is only logged.\<close>

definition notify :: "('o, 'e) account_env \<Rightarrow> (('o, 'e) import_task, unit) io" where
  "notify env =
     bind_io the_snapshot (\<lambda>c. bind_io (attempt (in_process (env_emit env (account_id c)))) (\<lambda>_. return_io ()))"

definition publish_snapshot :: "('o, 'e) account_env \<Rightarrow> (('o, 'e) import_task, unit) io" where
  "publish_snapshot env =
     bind_io the_snapshot (\<lambda>c.
       then_io (in_process (registry_call (update_account_completion c))) (notify env))"

definition adopt_account_download :: "runtime_download result \<Rightarrow> runtime_download result" where
  "adopt_account_download downloaded =
     (case downloaded of Inl e \<Rightarrow> Inl e | Inr d \<Rightarrow> Inr (d\<lparr>receipt_error := None\<rparr>))"

definition download_batch :: "('o, 'e) account_env \<Rightarrow> (('o, 'e) import_task, artifact_publication) io" where
  "download_batch env =
     bind_io the_snapshot (\<lambda>c.
     let native_owner = ''account-workflow:'' @ account_id c in
     bind_io (in_process (env_ticket env)) (\<lambda>(fresh, now, created).
     bind_io (in_process (registry_call (prepare_download fresh now created native_owner))) (\<lambda>ticket.
     then_io (set_snapshot (\<lambda>c. c\<lparr>progress_id := ticket\<rparr>))
     (then_io (publish_snapshot env)
     (bind_io the_snapshot (\<lambda>c.
     bind_io (attempt (in_process (env_download env (account_request c) ticket native_owner))) (\<lambda>downloaded.
     then_io (in_process (\<lambda>p. registry_call (release_download (env_now env p) ticket native_owner) p))
     (bind_io (of_result downloaded) (\<lambda>d.
     then_io (set_snapshot (\<lambda>c. c\<lparr>coverage_holds := download_coverage_holds d,
                                 coverage_floor_ms := download_coverage_floor_ms d\<rparr>))
     (return_io (download_publication d)))))))))))"

text \<open>The publication of this turn, and whether it was downloaded now.\<close>

definition obtain_publication :: "('o, 'e) account_env \<Rightarrow> (('o, 'e) import_task, artifact_publication \<times> bool) io" where
  "obtain_publication env =
     bind_io the_snapshot (\<lambda>c.
       case (publication c, pending_batch (account_request c)) of
         (Some p, _) \<Rightarrow> return_io (p, False)
       | (None, Some handle) \<Rightarrow>
           return_io (\<lparr>publication_handle = handle, publication_durability = Durable\<rparr>, False)
       | (None, None) \<Rightarrow> bind_io (download_batch env) (\<lambda>p. return_io (p, True)))"

definition import_unlinked ::
  "('o, 'e) account_env \<Rightarrow> artifact_publication \<Rightarrow> path_ref \<Rightarrow> string \<Rightarrow> (('o, 'e) import_task, unit) io" where
  "import_unlinked env p database title =
     then_io (set_snapshot (\<lambda>c. c\<lparr>importing := True\<rparr>))
     (then_io (publish_snapshot env)
     (bind_io the_snapshot (\<lambda>c.
     bind_io (in_process (env_begin_progress env (progress_id c))) (\<lambda>progress.
     bind_io (attempt (in_process (env_convert env (publication_handle p) database
        \<lparr>context_provider = provider (account_request c), context_account = account (account_request c),
         context_since_ms = since_ms (account_request c), context_coverage_holds = coverage_holds c,
         context_coverage_floor_ms = coverage_floor_ms c\<rparr> title (''conversion:'' @ account_id c)))) (\<lambda>converted.
     then_io (attempt (in_process (env_update_progress env progress
        (case converted of Inr _ \<Rightarrow> Finite 100 | Inl _ \<Rightarrow> Finite 0)
        (case converted of Inr _ \<Rightarrow> Succeeded | Inl _ \<Rightarrow> Failed))))
     (then_io (of_result converted)
     (set_snapshot (\<lambda>c. c\<lparr>committed_database := Some database, deletion_pending := True\<rparr>))))))))"

text \<open>\<^term>\<open>Some\<close> result ends the workflow; otherwise it tells whether the turn downloaded.\<close>

definition import_batch :: "('o, 'e) account_env \<Rightarrow> (('o, 'e) import_task, account_import_result + bool) io" where
  "import_batch env =
     bind_io the_snapshot (\<lambda>c.
     if deletion_pending c then return_io (Inr False)
     else then_io (refresh_since env)
       (bind_io (obtain_publication env) (\<lambda>(p, downloaded).
       then_io (set_snapshot (\<lambda>c. c\<lparr>publication := Some p\<rparr>))
       (case target (account_request c) of
          Linked collection \<Rightarrow>
            bind_io (in_process (env_append_batch env collection (publication_handle p))) (\<lambda>outcome.
            if \<not> index_ready outcome \<or> \<not> durability_confirmed outcome
            then return_io (Inl \<lparr>collection_notice = True\<rparr>)
            else return_io (Inr downloaded))
        | Unlinked database title \<Rightarrow>
            then_io (import_unlinked env p database title) (return_io (Inr downloaded))))))"

definition delete_empty_games :: "('o, 'e) account_env \<Rightarrow> (('o, 'e) import_task, unit) io" where
  "delete_empty_games env =
     bind_io the_snapshot (\<lambda>c.
     if deletion_pending c
     then bind_io (of_result (ok_or (committed_database c) (Conflict ''committed account database unavailable''))) (\<lambda>database.
          then_io (in_process (env_delete_empty env database)) (set_snapshot (\<lambda>c. c\<lparr>deletion_pending := False\<rparr>)))
     else return_io ())"

text \<open>The order of \<^verbatim>\<open>Option<i64>\<close>: \<^verbatim>\<open>None\<close> is below everything.\<close>

definition le_cursor :: "int option \<Rightarrow> int option \<Rightarrow> bool" where
  "le_cursor a b = (case (a, b) of (None, _) \<Rightarrow> True | (Some _, None) \<Rightarrow> False | (Some x, Some y) \<Rightarrow> x \<le> y)"

definition next_batch :: "int option \<Rightarrow> account_completion \<Rightarrow> account_completion" where
  "next_batch since c =
     c\<lparr>account_request := (account_request c)\<lparr>since_ms := since, pending_batch := None\<rparr>,
       publication := None, coverage_holds := None, coverage_floor_ms := None,
       committed_database := None, deletion_pending := False, importing := False\<rparr>"

definition advance :: "('o, 'e) account_env \<Rightarrow> bool \<Rightarrow> (('o, 'e) import_task, account_import_result option) io" where
  "advance env downloaded =
     bind_io the_snapshot (\<lambda>c.
     if provider (account_request c) \<noteq> ''chesscom'' \<or> (downloaded \<and> coverage_floor_ms c = None)
     then return_io (Some \<lparr>collection_notice = False\<rparr>)
     else bind_io (in_process (env_cursor env (target (account_request c)))) (\<lambda>next.
       if downloaded \<and> le_cursor next (since_ms (account_request c))
       then throw_io (Conflict ''Chess.com history could not advance'')
       else then_io (set_snapshot (next_batch next)) (return_io None)))"

definition import_turn :: "('o, 'e) account_env \<Rightarrow> cancellation \<Rightarrow> (('o, 'e) import_task, account_import_result option) io" where
  "import_turn env token =
     then_io (\<lambda>s. if cancelled (fst (snd s)) token then (Inl Cancellation, s) else (Inr (), s))
     (bind_io (import_batch env) (\<lambda>step.
      case step of
        Inl r \<Rightarrow> return_io (Some r)
      | Inr downloaded \<Rightarrow> then_io (delete_empty_games env) (advance env downloaded)))"

partial_function (option) import_loop ::
  "('o, 'e) account_env \<Rightarrow> cancellation \<Rightarrow> ('o, 'e) import_task
   \<Rightarrow> (account_import_result result \<times> ('o, 'e) import_task) option" where
  "import_loop env token s =
     (case import_turn env token s of
        (Inl e, s) \<Rightarrow> Some (Inl e, s)
      | (Inr (Some r), s) \<Rightarrow> Some (Inr r, s)
      | (Inr None, s) \<Rightarrow> import_loop env token s)"

subsection \<open>The task\<close>

definition finished_snapshot :: "account_import_result result \<Rightarrow> account_completion \<Rightarrow> account_completion" where
  "finished_snapshot r c =
     c\<lparr>importing := False,
       account_outcome := (case r of Inr v \<Rightarrow> CompletionSucceeded v | Inl e \<Rightarrow> CompletionFailed (renderer_payload e))\<rparr>"

text \<open>
  The whole task under its lease: the loop, the record of its outcome, the release of the lease, and
  the result for whoever awaits the attempt. \<^term>\<open>None\<close> is a loop that does not end.
\<close>

definition start_account_completion ::
  "('o, 'e) account_env \<Rightarrow> account_start \<Rightarrow> ('o, 'e) process \<Rightarrow> ('o, 'e) process option" where
  "start_account_completion env start p =
     (let lease = account_start_lease start in
      case import_loop env (op_token lease) (account_start_snapshot start, p) of
        None \<Rightarrow> None
      | Some (r, c, p) \<Rightarrow>
          let c = finished_snapshot r c;
              (terminal, _, p) = bind_io (publish_snapshot env) (\<lambda>_. return_io c) (c, p);
              w = operation_lease_drop lease (fst p)
          in Some (w\<lparr>attempts := (attempts w)(account_start_result start := Sent terminal)\<rparr>, snd p))"

text \<open>
  \<^verbatim>\<open>import_account_games_with_download\<close>: admission, the task of a new attempt, and the shared attempt
  that every caller awaits. An attempt whose result is not there yet is still awaited: \<^term>\<open>None\<close>.
\<close>

definition await_attempt :: "channel_id \<Rightarrow> 'o op_world \<Rightarrow> account_completion result option" where
  "await_attempt a w =
     (case attempts w a of
        Sent r \<Rightarrow> Some r
      | Observed r \<Rightarrow> Some r
      | SenderDropped \<Rightarrow> Some (Inl (Conflict ''account completion result unavailable''))
      | Waiting \<Rightarrow> None)"

definition import_account_games_with_download ::
  "(string \<Rightarrow> bool) \<Rightarrow> ('o, 'e) account_env \<Rightarrow> string \<Rightarrow> string \<Rightarrow> string \<Rightarrow> string \<Rightarrow> account_import_request
   \<Rightarrow> ('o, 'e) process \<Rightarrow> (account_completion result option \<times> ('o, 'e) process) option" where
  "import_account_games_with_download uuid env key progress op owner request p =
     (case registry_call (admit_account_completion uuid key progress op owner request) p of
        (Inl e, p) \<Rightarrow> Some (Some (Inl e), p)
      | (Inr (a, start), p) \<Rightarrow>
          (case (case start of None \<Rightarrow> Some p | Some st \<Rightarrow> start_account_completion env st p) of
             None \<Rightarrow> None
           | Some p \<Rightarrow>
               Some (map_option (\<lambda>r. case r of Inl e \<Rightarrow> Inl (Conflict (diagnostic e)) | Inr c \<Rightarrow> Inr c)
                       (await_attempt a (fst p)), p)))"

text \<open>The production download: the client of the provider, given the file name of the account.\<close>

definition download_account ::
  "(string \<Rightarrow> path_ref \<Rightarrow> string \<Rightarrow> string \<Rightarrow> int option \<Rightarrow> string \<Rightarrow> string \<Rightarrow> ('p, runtime_download) io)
   \<Rightarrow> (path_ref \<Rightarrow> string \<Rightarrow> string \<Rightarrow> int option \<Rightarrow> string \<Rightarrow> string \<Rightarrow> ('p, runtime_download) io)
   \<Rightarrow> account_import_request \<Rightarrow> string \<Rightarrow> string \<Rightarrow> ('p, runtime_download) io" where
  "download_account lichess chesscom request ticket owner p =
     (let filename = account request @ ''_'' @ provider request @ ''.pgn'' in
      case (if provider request = ''lichess''
            then (case account_handle request of
                    None \<Rightarrow> (Inl (OAuthFailure ''authenticated Lichess account unavailable''), p)
                  | Some handle \<Rightarrow>
                      lichess handle (destination request) filename (account request) (since_ms request) ticket owner p)
            else chesscom (destination request) filename (account request) (since_ms request) ticket owner p) of
        (downloaded, p) \<Rightarrow> (adopt_account_download downloaded, p))"

subsection \<open>The loop ends\<close>

text \<open>A property of the snapshot that an action keeps, whatever the process does.\<close>

definition keeps :: "(account_completion \<Rightarrow> bool) \<Rightarrow> (('o, 'e) import_task, 'a) io \<Rightarrow> bool" where
  "keeps P m \<longleftrightarrow> (\<forall>s. P (fst s) \<longrightarrow> P (fst (snd (m s))))"

named_theorems keeps_rules \<open>properties of the snapshot kept by the actions of the workflow\<close>

lemma keeps_basic [keeps_rules]:
  "keeps P (return_io x)" "keeps P (throw_io e)" "keeps P (of_result r)" "keeps P (in_process m)"
  by (auto simp: keeps_def in_process_def split: prod.split)

lemma keeps_set [keeps_rules]: "(\<And>c. P c \<Longrightarrow> P (f c)) \<Longrightarrow> keeps P (set_snapshot f)"
  by (simp add: keeps_def set_snapshot_def)

lemma keeps_attempt [keeps_rules]: "keeps P m \<Longrightarrow> keeps P (attempt m)"
  by (auto simp: keeps_def attempt_def split: prod.split) (metis fst_conv snd_conv)

lemma keeps_bind: "keeps P m \<Longrightarrow> (\<And>x. keeps P (f x)) \<Longrightarrow> keeps P (bind_io m f)"
  unfolding keeps_def bind_io_def by (auto split: prod.split sum.split) (metis fst_conv snd_conv)+

lemma keeps_snapshot: "(\<And>c. P c \<Longrightarrow> keeps P (f c)) \<Longrightarrow> keeps P (bind_io the_snapshot f)"
  by (simp add: keeps_def bind_io_def the_snapshot_def)

lemma keeps_if: "(b \<Longrightarrow> keeps P m) \<Longrightarrow> (\<not> b \<Longrightarrow> keeps P n) \<Longrightarrow> keeps P (if b then m else n)"
  by simp

lemma keeps_case_option: "keeps P m \<Longrightarrow> (\<And>x. keeps P (f x)) \<Longrightarrow> keeps P (case r of None \<Rightarrow> m | Some x \<Rightarrow> f x)"
  by (cases r) simp_all

lemma keeps_case_prod: "(\<And>x y. keeps P (f x y)) \<Longrightarrow> keeps P (case r of (x, y) \<Rightarrow> f x y)"
  by (cases r) simp_all

text \<open>The target and the cursor of a snapshot with a linked target.\<close>

definition linked_at :: "string \<Rightarrow> int option \<Rightarrow> account_completion \<Rightarrow> bool" where
  "linked_at collection since c \<longleftrightarrow>
     target (account_request c) = Linked collection \<and> since_ms (account_request c) = since"

lemmas keeps_step = keeps_rules keeps_snapshot keeps_bind keeps_if keeps_case_option keeps_case_prod

lemma keeps_publish [keeps_rules]: "keeps P (publish_snapshot env)"
  unfolding publish_snapshot_def notify_def by (intro keeps_step)

lemma keeps_download: "keeps (linked_at collection since) (download_batch env)"
  unfolding download_batch_def Let_def by (intro keeps_step keeps_publish) (simp_all add: linked_at_def)

lemma keeps_refresh: "keeps (linked_at collection since) (refresh_since env)"
  unfolding refresh_since_def by (intro keeps_step) (simp_all add: linked_at_def is_unlinked_def)

lemma keeps_obtain: "keeps (linked_at collection since) (obtain_publication env)"
  unfolding obtain_publication_def prod.case by (intro keeps_step keeps_download)

lemma keeps_batch: "keeps (linked_at collection since) (import_batch env)"
  unfolding import_batch_def
  by (intro keeps_step keeps_refresh keeps_obtain) (auto simp: linked_at_def intro!: keeps_step split: account_import_target.split)

lemma keeps_delete: "keeps (linked_at collection since) (delete_empty_games env)"
  unfolding delete_empty_games_def by (intro keeps_step) (simp add: linked_at_def)

lemma keepsD: "keeps P m \<Longrightarrow> P (fst s) \<Longrightarrow> m s = (r, s') \<Longrightarrow> P (fst s')"
  unfolding keeps_def by (metis snd_conv)

definition between_batches :: "account_completion \<Rightarrow> bool" where
  "between_batches c \<longleftrightarrow>
     publication c = None \<and> pending_batch (account_request c) = None \<and> \<not> deletion_pending c"

lemma fresh_batch_downloads:
  assumes b: "between_batches (fst s)" and l: "linked_at collection since (fst s)"
    and r: "import_batch env s = (Inr (Inr d), s')"
  shows "d"
proof -
  have refresh: "refresh_since env s = (Inr (), s)"
    using b l by (simp add: refresh_since_def bind_io_def the_snapshot_def between_batches_def linked_at_def is_unlinked_def)
  have obtain_eq: "obtain_publication env s = bind_io (download_batch env) (\<lambda>p. return_io (p, True)) s"
    using b by (simp add: obtain_publication_def bind_io_def the_snapshot_def between_batches_def)
  have "snd q" if "obtain_publication env s = (Inr q, t)" for q t
    using that unfolding obtain_eq by (auto simp: bind_io_eq_Inr)
  with b r refresh l show ?thesis
    by (auto simp: import_batch_def bind_io_eq_Inr the_snapshot_def between_batches_def linked_at_def
        set_snapshot_def split: if_split_asm)
qed

lemma turn_advances:
  assumes l: "linked_at collection since (fst s)" and t: "import_turn env token s = (Inr None, s')"
  obtains new p p' where "env_cursor env (Linked collection) p = (Inr new, p')" "between_batches (fst s')"
    "linked_at collection new (fst s')" "between_batches (fst s) \<Longrightarrow> \<not> le_cursor new since"
proof -
  from t obtain q s1 where q: "import_batch env s = (Inr q, s1)"
    "(case q of Inl r \<Rightarrow> return_io (Some r) | Inr d \<Rightarrow> then_io (delete_empty_games env) (advance env d)) s1 = (Inr None, s')"
    unfolding import_turn_def bind_io_eq_Inr by (metis (no_types, lifting) old.prod.inject sum.simps(4))
  then obtain d where s1: "import_batch env s = (Inr (Inr d), s1)"
    and rest: "then_io (delete_empty_games env) (advance env d) s1 = (Inr None, s')"
    by (cases q) auto
  from rest obtain s2 where s2: "delete_empty_games env s1 = (Inr (), s2)" "advance env d s2 = (Inr None, s')"
    by (auto simp: bind_io_eq_Inr)
  have l2: "linked_at collection since (fst s2)"
    using keepsD [OF keeps_delete keepsD [OF keeps_batch l s1] s2(1)] .
  from s2(2) l2 obtain new p' where n: "env_cursor env (Linked collection) (snd s2) = (Inr new, p')"
    "\<not> (d \<and> le_cursor new since)" "fst s' = next_batch new (fst s2)"
    by (auto simp: advance_def bind_io_eq_Inr the_snapshot_def set_snapshot_def in_process_def linked_at_def
        split: if_split_asm prod.split_asm)
  show thesis
    by (rule that [OF n(1)])
      (use n l2 fresh_batch_downloads [OF _ l s1] in \<open>auto simp: next_batch_def between_batches_def linked_at_def\<close>)
qed

text \<open>A cursor is an \<^verbatim>\<open>i64\<close>; how far one can still go up.\<close>

definition is_i64 :: "int option \<Rightarrow> bool" where
  "is_i64 c = (case c of None \<Rightarrow> True | Some v \<Rightarrow> - (2 ^ 63) \<le> v \<and> v < 2 ^ 63)"

definition cursor_room :: "int option \<Rightarrow> nat" where
  "cursor_room c = (case c of None \<Rightarrow> 2 ^ 64 + 1 | Some v \<Rightarrow> nat (2 ^ 63 - v))"

lemma cursor_room_less: "is_i64 new \<Longrightarrow> \<not> le_cursor new old \<Longrightarrow> cursor_room new < cursor_room old"
  by (auto simp: is_i64_def le_cursor_def cursor_room_def split: option.split_asm)

lemma loop_ends_between:
  assumes i64: "\<And>t p v p'. env_cursor env t p = (Inr v, p') \<Longrightarrow> is_i64 v"
  shows "linked_at collection since (fst s) \<Longrightarrow> between_batches (fst s) \<Longrightarrow> import_loop env token s \<noteq> None"
proof (induction "cursor_room since" arbitrary: since s rule: less_induct)
  case less
  obtain r s' where Pair: "import_turn env token s = (r, s')" by (metis prod.collapse)
  show ?case
  proof (cases "r = Inr None")
      case True
      from turn_advances [OF less.prems(1) Pair [unfolded True]] obtain new p p' where
        n: "env_cursor env (Linked collection) p = (Inr new, p')" "between_batches (fst s')"
          "linked_at collection new (fst s')" "\<not> le_cursor new since" using less.prems(2) by metis
      have "import_loop env token s' \<noteq> None"
        by (rule less.hyps [OF cursor_room_less [OF i64 [OF n(1)] n(4)] n(3,2)])
      with Pair True show ?thesis by (simp add: import_loop.simps [of env token s])
    next
      case False
      with Pair show ?thesis
        by (cases r; cases s') (auto simp: import_loop.simps [of env token s] split: option.split)
  qed
qed

definition demo_env :: "(unit, unit) account_env" where
  "demo_env =
     \<lparr>env_cursor = (\<lambda>_ p. (Inr (Some 5), p)), env_ticket = (\<lambda>p. (Inr (''u'', 0, 0), p)), env_now = (\<lambda>_. 0),
      env_emit = (\<lambda>_ p. (Inr (), p)),
      env_download = (\<lambda>_ _ _ p. (Inr \<lparr>download_publication = \<lparr>publication_handle = ''f'', publication_durability = Durable\<rparr>,
         receipt_error = None, download_coverage_holds = None, download_coverage_floor_ms = Some 1\<rparr>, p)),
      env_append_batch = (\<lambda>_ _ p. (Inr \<lparr>appended = 1, committed = True, index_ready = True, durability_confirmed = True\<rparr>, p)),
      env_begin_progress = (\<lambda>_ p. (Inr \<lparr>lease_id = [], lease_generation = 0\<rparr>, p)),
      env_convert = (\<lambda>_ _ _ _ _ p. (Inr (), p)), env_update_progress = (\<lambda>_ _ _ p. (Inr (), p)),
      env_delete_empty = (\<lambda>_ p. (Inr (), p))\<rparr>"

definition demo_completion :: "string \<Rightarrow> account_import_target \<Rightarrow> account_completion" where
  "demo_completion client t =
     fresh_account_completion ''c'' ''p''
       \<lparr>provider = client, account = ''anna'', account_handle = None, destination = ''d'',
        pending_batch = None, since_ms = None, target = t\<rparr>"

definition demo_committed :: account_completion where
  "demo_committed =
     (demo_completion ''lichess'' (Unlinked ''b'' ''t''))\<lparr>deletion_pending := True, committed_database := Some ''b''\<rparr>"

text \<open>
  C30. The import of an account into a linked collection ends, whatever its downloads, the
  collection and the process do, and wherever an earlier attempt stopped: after the first turn every
  turn must move the cursor up, and a cursor is a 64-bit integer.
\<close>

theorem linked_import_ends:
  assumes "\<And>t p v p'. env_cursor env t p = (Inr v, p') \<Longrightarrow> is_i64 v" "target (account_request c) = Linked collection"
  shows "\<exists>r s. import_loop env token (c, p) = Some (r, s)"
proof -
  obtain r s where Pair: "import_turn env token (c, p) = (r, s)" by (metis prod.collapse)
  have l: "linked_at collection (since_ms (account_request c)) (fst (c, p))" using assms(2) by (simp add: linked_at_def)
  show ?thesis
  proof (cases "r = Inr None")
    case True
    from turn_advances [OF l Pair [unfolded True]] obtain new where
      "between_batches (fst s)" "linked_at collection new (fst s)" by metis
    from loop_ends_between [where env = env, OF assms(1) this(2,1)] Pair True show ?thesis
      by (simp add: import_loop.simps [of env token "(c, p)"])
  next
    case False
    with Pair show ?thesis
      by (cases r; cases s) (auto simp: import_loop.simps [of env token "(c, p)"] split: option.split)
  qed
qed

theorem linked_import_ends_witness:
  "\<exists>r s. import_loop demo_env 0 (demo_completion ''chesscom'' (Linked ''k''), op_world_start, ()) = Some (r, s)"
  by (rule linked_import_ends [where collection = "''k''"])
    (auto simp: demo_env_def is_i64_def demo_completion_def fresh_account_completion_def)

text \<open>
  An attempt that resumes after its games were committed repeats neither the download nor the
  import: for a provider without further batches its only effect on the process is the deletion of the
  empty games of the committed database, and it succeeds exactly when that does.
\<close>

theorem resumed_import_only_deletes:
  assumes "deletion_pending c" "committed_database c = Some database" "provider (account_request c) \<noteq> ''chesscom''"
    "\<not> cancelled (fst p) token"
  shows "import_loop env token (c, p) =
    (case env_delete_empty env database p of
       (Inl e, p') \<Rightarrow> Some (Inl e, c, p')
     | (Inr _, p') \<Rightarrow> Some (Inr \<lparr>collection_notice = False\<rparr>, c\<lparr>deletion_pending := False\<rparr>, p'))"
  using assms
  by (simp add: import_loop.simps [of env token "(c, p)"] import_turn_def import_batch_def delete_empty_games_def
      advance_def bind_io_def the_snapshot_def set_snapshot_def in_process_def split: prod.split sum.split)

theorem resumed_import_only_deletes_witness:
  "import_loop demo_env 0 (demo_committed, op_world_start, ()) =
     Some (Inr \<lparr>collection_notice = False\<rparr>, demo_committed\<lparr>deletion_pending := False\<rparr>, op_world_start, ())"
proof -
  have "deletion_pending demo_committed" "committed_database demo_committed = Some ''b''"
    "provider (account_request demo_committed) \<noteq> ''chesscom''"
    by (simp_all add: demo_committed_def demo_completion_def fresh_account_completion_def)
  moreover have "\<not> cancelled (fst (op_world_start :: unit op_world, ())) 0" by (simp add: op_world_start_def)
  ultimately show ?thesis
    using resumed_import_only_deletes [of demo_committed "''b''" "(op_world_start, ())" 0 demo_env]
    by (simp add: demo_env_def)
qed

end
