(* ===== verification/EngineProtocol.thy ===== *)
theory EngineProtocol
  imports OperationTypes
begin

text \<open>
  What the program says to a chess engine: the text it accepts, the options, the search commands
  (\<^verbatim>\<open>engine/types.rs\<close>) and the position command (\<^verbatim>\<open>engine/uci.rs\<close>). The chess rules come from
  the crate \<^verbatim>\<open>shakmaty\<close> and are a parameter, the record \<^verbatim>\<open>chess_rules\<close>. Strings are the lists of
  their bytes.
\<close>

subsection \<open>The chess rules\<close>

datatype color = White | Black

fun other_color :: "color \<Rightarrow> color" where
  "other_color White = Black"
| "other_color Black = White"

record ('p, 'm, 'u, 's, 'k, 'e) chess_rules =
  fen_parse :: "string \<Rightarrow> foreign + 's"
  mode_detect :: "'s \<Rightarrow> 'k"
  setup_position :: "'s \<Rightarrow> 'k \<Rightarrow> 'e + 'p"
  ignore_material :: "'e \<Rightarrow> 'e + 'p"
  position_failure :: "'e \<Rightarrow> foreign"
  setup_of :: "'p \<Rightarrow> 's"
  setup_pseudo_legal :: "'p \<Rightarrow> 's"
  setup_halfmoves :: "'s \<Rightarrow> nat"
  setup_fullmoves :: "'s \<Rightarrow> nat"
  with_counters :: "nat \<Rightarrow> nat \<Rightarrow> 's \<Rightarrow> 's"
  fen_print :: "'s \<Rightarrow> string"
  uci_parse :: "string \<Rightarrow> foreign + 'u"
  uci_to_move :: "'u \<Rightarrow> 'p \<Rightarrow> foreign + 'm"
  uci_print :: "'m \<Rightarrow> 'k \<Rightarrow> string"
  play_move :: "'p \<Rightarrow> 'm \<Rightarrow> 'p"
  san_print :: "'p \<Rightarrow> 'm \<Rightarrow> string"
  side_to_move :: "'p \<Rightarrow> color"
  in_checkmate :: "'p \<Rightarrow> bool"
  in_stalemate :: "'p \<Rightarrow> bool"
  no_material :: "'p \<Rightarrow> bool"
  lacks_material :: "'p \<Rightarrow> color \<Rightarrow> bool"
  halfmove_clock :: "'p \<Rightarrow> nat"

text \<open>\<^verbatim>\<open>UciMove::from_ascii\<close> and \<^verbatim>\<open>to_move\<close>, with the conversion of their errors.\<close>

definition uci_move :: "('p, 'm, 'u, 's, 'k, 'e) chess_rules \<Rightarrow> 'p \<Rightarrow> string \<Rightarrow> 'm result" where
  "uci_move R p text =
     (case uci_parse R text of
        Inl f \<Rightarrow> Inl (ParseUciMove f)
      | Inr u \<Rightarrow> (case uci_to_move R u p of Inl f \<Rightarrow> Inl (IllegalUciMove f) | Inr m \<Rightarrow> Inr m))"

definition fen_of :: "('p, 'm, 'u, 's, 'k, 'e) chess_rules \<Rightarrow> 'p \<Rightarrow> string" where
  "fen_of R p = fen_print R (setup_of R p)"

definition parse_fen_to_position :: "('p, 'm, 'u, 's, 'k, 'e) chess_rules \<Rightarrow> string \<Rightarrow> 'p result" where
  "parse_fen_to_position R fen =
     (case fen_parse R fen of
        Inl f \<Rightarrow> Inl (Fen f)
      | Inr setup \<Rightarrow>
          (case setup_position R setup (mode_detect R setup) of
             Inr p \<Rightarrow> Inr p
           | Inl e \<Rightarrow> (case ignore_material R e of Inl e' \<Rightarrow> Inl (ChessPosition (position_failure R e')) | Inr p \<Rightarrow> Inr p)))"

subsection \<open>Text for the engine\<close>

text \<open>
  \<^verbatim>\<open>char::is_control\<close> holds of U+0000 to U+001F, of U+007F, and of U+0080 to U+009F, which are the
  two bytes 0xC2 and 0x80 to 0x9F; in UTF-8 a byte 0xC2 always starts such a pair.
\<close>

fun has_control :: "string \<Rightarrow> bool" where
  "has_control [] \<longleftrightarrow> False"
| "has_control (c # cs) \<longleftrightarrow>
     (let n = (of_char c :: nat)
      in n < 32 \<or> n = 127
         \<or> (n = 194 \<and> cs \<noteq> [] \<and> 128 \<le> (of_char (hd cs) :: nat) \<and> (of_char (hd cs) :: nat) < 160)
         \<or> has_control cs)"

definition validate_uci_text :: "string \<Rightarrow> string \<Rightarrow> unit result" where
  "validate_uci_text field v =
     (if v = [] then Inl (InvalidInput (field @ '' must not be empty''))
      else if has_control v then Inl (InvalidInput (field @ '' contains a UCI control character''))
      else Inr ())"

definition GAME_ENGINE_KEY_PREFIX :: string where "GAME_ENGINE_KEY_PREFIX = ''game:''"

record engine_key =
  key_tab :: string
  key_engine :: string

abbreviation then_check :: "unit result \<Rightarrow> 'a result \<Rightarrow> 'a result" where
  "then_check r k \<equiv> (case r of Inl e \<Rightarrow> Inl e | Inr _ \<Rightarrow> k)"

definition engine_key_validated :: "string \<Rightarrow> string \<Rightarrow> engine_key result" where
  "engine_key_validated tab engine =
     then_check (validate_uci_text ''tab'' tab)
       (then_check (validate_uci_text ''engine'' engine) (Inr \<lparr>key_tab = tab, key_engine = engine\<rparr>))"

definition has_prefix :: "string \<Rightarrow> string \<Rightarrow> bool" where
  "has_prefix p s \<longleftrightarrow> take (length p) s = p"

text \<open>The prefix is printed with quotes, as Rust's debug format does.\<close>

definition engine_key_new :: "string \<Rightarrow> string \<Rightarrow> engine_key result" where
  "engine_key_new tab engine =
     (if has_prefix GAME_ENGINE_KEY_PREFIX tab
      then Inl (InvalidInput (''tab prefix '' @ CHR 0x22 # GAME_ENGINE_KEY_PREFIX @ CHR 0x22
                              # '' is reserved for native game engines''))
      else engine_key_validated tab engine)"

definition engine_key_game :: "string \<Rightarrow> nat \<Rightarrow> string \<Rightarrow> string \<Rightarrow> engine_key result" where
  "engine_key_game game session side engine =
     then_check (validate_uci_text ''game id'' game)
       (then_check (validate_uci_text ''side'' side)
         (engine_key_validated (GAME_ENGINE_KEY_PREFIX @ game @ '':'' @ show_nat session @ '':'' @ side) engine))"

subsection \<open>Options\<close>

datatype engine_resource_kind = ResourceFile | ResourceDirectory

record engine_resource =
  resource_id :: path_ref
  resource_kind :: engine_resource_kind
  resource_name :: string

datatype engine_option =
    StringOption string string
  | ResourceOption string "engine_resource list"

fun option_name :: "engine_option \<Rightarrow> string" where
  "option_name (StringOption name _) = name"
| "option_name (ResourceOption name _) = name"

definition MAX_ENGINE_OPTION_RESOURCES :: nat where "MAX_ENGINE_OPTION_RESOURCES = 32"

fun contains_text :: "string \<Rightarrow> string \<Rightarrow> bool" where
  "contains_text p [] \<longleftrightarrow> p = []"
| "contains_text p (c # cs) \<longleftrightarrow> has_prefix p (c # cs) \<or> contains_text p cs"

definition expected_resource_kind :: "string \<Rightarrow> engine_resource_kind option" where
  "expected_resource_kind name =
     (let lower = map to_ascii_lowercase name
      in if contains_text ''path'' lower then Some ResourceDirectory
         else if contains_text ''file'' lower then Some ResourceFile
         else None)"

definition is_ascii_alphabetic :: "char \<Rightarrow> bool" where
  "is_ascii_alphabetic c \<longleftrightarrow> (let n = (of_char c :: nat) in (65 \<le> n \<and> n \<le> 90) \<or> (97 \<le> n \<and> n \<le> 122))"

text \<open>\<^verbatim>\<open>str::trim\<close>, through the bytes of the text.\<close>

definition text_of_bytes :: "bytes \<Rightarrow> string" where
  "text_of_bytes bs = map (\<lambda>b. char_of (unat b)) bs"

definition trim_text :: "string \<Rightarrow> string" where
  "trim_text s = text_of_bytes (trim (bytes_of s))"

definition is_filesystem_path :: "string \<Rightarrow> bool" where
  "is_filesystem_path text =
     (let v = trim_text text
      in has_prefix ''/'' v \<or> has_prefix [CHR 0x5C, CHR 0x5C] v
         \<or> has_prefix ''./'' v \<or> has_prefix ''../'' v
         \<or> has_prefix (CHR ''.'' # [CHR 0x5C]) v \<or> has_prefix (''..'' @ [CHR 0x5C]) v
         \<or> has_prefix ''~/'' v \<or> has_prefix (CHR ''~'' # [CHR 0x5C]) v
         \<or> (3 \<le> length v \<and> is_ascii_alphabetic (v ! 0) \<and> v ! 1 = CHR '':'' \<and> (v ! 2 = CHR ''/'' \<or> v ! 2 = CHR 0x5C)))"

fun validate_engine_option :: "engine_option \<Rightarrow> unit result" where
  "validate_engine_option (StringOption name v) =
     then_check (validate_uci_text ''option name'' name)
       (then_check (validate_uci_text ''option value'' v)
         (if is_filesystem_path v \<or> expected_resource_kind name \<noteq> None
          then Inl (InvalidInput (name @ '' must use an opaque engine resource'')) else Inr ()))"
| "validate_engine_option (ResourceOption name resources) =
     then_check (validate_uci_text ''option name'' name)
       (case expected_resource_kind name of
          None \<Rightarrow> Inl (InvalidInput (name @ '' is not a file or directory option''))
        | Some expected \<Rightarrow>
            if resources = [] \<or> MAX_ENGINE_OPTION_RESOURCES < length resources
            then Inl (ResourceLimit (''engine resource option requires 1 to ''
                   @ show_nat MAX_ENGINE_OPTION_RESOURCES @ '' resources''))
            else if list_ex (\<lambda>r. resource_kind r \<noteq> expected) resources
            then Inl (InvalidInput (name @ '' received the wrong engine resource kind''))
            else Inr ())"

fun has_same_value :: "engine_option \<Rightarrow> engine_option \<Rightarrow> bool" where
  "has_same_value (ResourceOption name rs) (ResourceOption name' rs') \<longleftrightarrow>
     name = name' \<and> length rs = length rs'
     \<and> list_all (\<lambda>(l, r). resource_id l = resource_id r \<and> resource_kind l = resource_kind r) (zip rs rs')"
| "has_same_value a b \<longleftrightarrow> a = b"

text \<open>The first option of the name is overwritten in place, or the option is added at the end.\<close>

fun place_option :: "engine_option \<Rightarrow> engine_option list \<Rightarrow> engine_option list" where
  "place_option opt [] = [opt]"
| "place_option opt (previous # rest) =
     (if option_name previous = option_name opt then opt # rest else previous # place_option opt rest)"

definition effective_engine_options :: "engine_option list \<Rightarrow> engine_option list" where
  "effective_engine_options options = foldl (\<lambda>effective opt. place_option opt effective) [] options"

subsection \<open>Search commands\<close>

definition MAX_ENGINE_LIMIT :: nat where "MAX_ENGINE_LIMIT = 24 * 60 * 60 * 1000"

record players_time =
  pt_white :: u32
  pt_black :: u32
  pt_winc :: u32
  pt_binc :: u32

datatype go_mode = GoPlayersTime players_time | GoDepth u32 | GoTime u32 | GoNodes u32 | GoInfinite

fun first_excess :: "nat \<Rightarrow> (string \<times> nat) list \<Rightarrow> string option" where
  "first_excess limit [] = None"
| "first_excess limit ((name, v) # rest) = (if limit < v then Some name else first_excess limit rest)"

definition players_time_validate :: "players_time \<Rightarrow> unit result" where
  "players_time_validate t =
     (case first_excess MAX_ENGINE_LIMIT
             [(''white clock'', unat (pt_white t)), (''black clock'', unat (pt_black t)),
              (''white increment'', unat (pt_winc t)), (''black increment'', unat (pt_binc t))] of
        Some name \<Rightarrow> Inl (InvalidInput (name @ '' must not exceed '' @ show_nat MAX_ENGINE_LIMIT))
      | None \<Rightarrow>
          if pt_white t = 0 \<and> pt_black t = 0
          then Inl (InvalidInput ''at least one player clock must be non-zero'') else Inr ())"

definition validate_limit :: "string \<Rightarrow> u32 \<Rightarrow> unit result" where
  "validate_limit name v =
     (if v = 0 \<or> MAX_ENGINE_LIMIT < unat v
      then Inl (InvalidInput (name @ '' must be between 1 and '' @ show_nat MAX_ENGINE_LIMIT)) else Inr ())"

fun go_validate :: "go_mode \<Rightarrow> unit result" where
  "go_validate (GoDepth v) = validate_limit ''depth'' v"
| "go_validate (GoTime v) = validate_limit ''time'' v"
| "go_validate (GoNodes v) = validate_limit ''nodes'' v"
| "go_validate (GoPlayersTime t) = players_time_validate t"
| "go_validate GoInfinite = Inr ()"

definition show_word32 :: "u32 \<Rightarrow> string" where "show_word32 v = show_nat (unat v)"

fun go_text :: "go_mode \<Rightarrow> string" where
  "go_text (GoDepth d) = ''go depth '' @ show_word32 d"
| "go_text (GoTime t) = ''go movetime '' @ show_word32 t"
| "go_text (GoNodes n) = ''go nodes '' @ show_word32 n"
| "go_text (GoPlayersTime t) =
     ''go wtime '' @ show_word32 (pt_white t) @ '' btime '' @ show_word32 (pt_black t)
     @ '' winc '' @ show_word32 (pt_winc t) @ '' binc '' @ show_word32 (pt_binc t)"
| "go_text GoInfinite = ''go infinite''"

definition to_uci_string :: "go_mode \<Rightarrow> string result" where
  "to_uci_string mode = then_check (go_validate mode) (Inr (go_text mode))"

subsection \<open>The position command\<close>

definition MAX_UCI_HALFMOVES :: nat where "MAX_UCI_HALFMOVES = 32767"
definition MAX_UCI_FULLMOVES :: nat where "MAX_UCI_FULLMOVES = 100000"
definition HALFMOVE_FIELD :: nat where "HALFMOVE_FIELD = 4"
definition THREE_CHECK_HALFMOVE_FIELD :: nat where "THREE_CHECK_HALFMOVE_FIELD = 5"

record ('p, 'k) canonical_position =
  wire_fen :: string
  wire_moves :: "string list"
  wire_mode :: 'k
  reached_position :: 'p

fun join_with :: "string \<Rightarrow> string list \<Rightarrow> string" where
  "join_with sep [] = []"
| "join_with sep [s] = s"
| "join_with sep (s # ss) = s @ sep @ join_with sep ss"

definition position_command :: "('p, 'k) canonical_position \<Rightarrow> string" where
  "position_command c =
     (if wire_moves c = [] then ''position fen '' @ wire_fen c
      else ''position fen '' @ wire_fen c @ '' moves '' @ join_with '' '' (wire_moves c))"

fun split_fields :: "string \<Rightarrow> string list" where
  "split_fields [] = [[]]"
| "split_fields (c # cs) =
     (if c = CHR '' '' \<or> c = CHR ''_'' then [] # split_fields cs
      else case split_fields cs of f # fs \<Rightarrow> (c # f) # fs | [] \<Rightarrow> [[c]])"

definition fen_fields :: "string \<Rightarrow> string list" where
  "fen_fields fen = filter (\<lambda>f. f \<noteq> []) (split_fields fen)"

definition zero_negative :: "nat \<Rightarrow> string list \<Rightarrow> string list" where
  "zero_negative i parts =
     (if i < length parts then
        (case parts ! i of
           c # digits \<Rightarrow>
             if c = CHR ''-'' \<and> digits \<noteq> [] \<and> list_all is_ascii_digit digits then parts[i := ''0''] else parts
         | [] \<Rightarrow> parts)
      else parts)"

definition clock_field :: "string list \<Rightarrow> nat" where
  "clock_field parts =
     (if HALFMOVE_FIELD < length parts \<and> CHR ''+'' \<in> set (parts ! HALFMOVE_FIELD)
      then THREE_CHECK_HALFMOVE_FIELD else HALFMOVE_FIELD)"

definition normalized_fen :: "string \<Rightarrow> string" where
  "normalized_fen fen =
     (let parts = fen_fields fen; clocks = clock_field parts
      in join_with '' '' (zero_negative (clocks + 1) (zero_negative clocks parts)))"

text \<open>\<^verbatim>\<open>NonZeroU32::new(..).unwrap_or(MIN)\<close> of a full-move number clamped from above.\<close>

definition clamp_setup :: "('p, 'm, 'u, 's, 'k, 'e) chess_rules \<Rightarrow> 's \<Rightarrow> 's" where
  "clamp_setup R s =
     with_counters R (min (setup_halfmoves R s) MAX_UCI_HALFMOVES)
       (max 1 (min (setup_fullmoves R s) MAX_UCI_FULLMOVES)) s"

fun normalize_moves ::
  "('p, 'm, 'u, 's, 'k, 'e) chess_rules \<Rightarrow> 'k \<Rightarrow> 'p \<Rightarrow> string list \<Rightarrow> (string list \<times> 'p) result" where
  "normalize_moves R mode p [] = Inr ([], p)"
| "normalize_moves R mode p (m # ms) =
     (case uci_move R p m of
        Inl e \<Rightarrow> Inl e
      | Inr mv \<Rightarrow>
          (case normalize_moves R mode (play_move R p mv) ms of
             Inl e \<Rightarrow> Inl e
           | Inr (texts, q) \<Rightarrow> Inr (uci_print R mv mode # texts, q)))"

definition canonicalize_inner ::
  "('p, 'm, 'u, 's, 'k, 'e) chess_rules \<Rightarrow> string \<Rightarrow> string list \<Rightarrow> ('p, 'k) canonical_position result" where
  "canonicalize_inner R fen ms =
     then_check (validate_uci_text ''FEN'' fen)
       (case fen_parse R (normalized_fen fen) of
          Inl f \<Rightarrow> Inl (Fen f)
        | Inr setup \<Rightarrow>
            (let mode = mode_detect R setup
             in case setup_position R setup mode of
                  Inl e \<Rightarrow> Inl (ChessPosition (position_failure R e))
                | Inr p \<Rightarrow>
                    (let canonical = fen_print R (clamp_setup R (setup_of R p))
                     in case normalize_moves R mode p ms of
                          Inl e \<Rightarrow> Inl e
                        | Inr (texts, q) \<Rightarrow>
                            Inr \<lparr>wire_fen = canonical, wire_moves = texts, wire_mode = mode, reached_position = q\<rparr>)))"

definition canonicalize_engine_position ::
  "('p, 'm, 'u, 's, 'k, 'e) chess_rules \<Rightarrow> string \<Rightarrow> string list \<Rightarrow> ('p, 'k) canonical_position result" where
  "canonicalize_engine_position R fen ms =
     (case canonicalize_inner R fen ms of Inl e \<Rightarrow> Inl (EnginePositionRejected e) | Inr c \<Rightarrow> Inr c)"

subsection \<open>What is sent\<close>

text \<open>
  The options that count: of several values for one name the last, at the place of the first; the
  names are distinct.
\<close>

abbreviation by_name :: "engine_option list \<Rightarrow> (string \<times> engine_option) list" where
  "by_name options \<equiv> map (\<lambda>opt. (option_name opt, opt)) options"

lemma place_option_names:
  "set (map option_name (place_option opt options)) = insert (option_name opt) (set (map option_name options))"
  by (induction options) auto

lemma place_option_distinct:
  "distinct (map option_name options) \<Longrightarrow> distinct (map option_name (place_option opt options))"
  using place_option_names [of opt] by (induction options) auto

lemma place_option_lookup:
  "distinct (map option_name options) \<Longrightarrow>
     map_of (by_name (place_option opt options)) = (map_of (by_name options))(option_name opt \<mapsto> opt)"
  by (induction options) (auto simp: fun_eq_iff map_of_eq_None_iff)

lemma effective_fold:
  "distinct (map option_name kept) \<Longrightarrow>
     (let eff = foldl (\<lambda>effective opt. place_option opt effective) kept options
      in distinct (map option_name eff)
         \<and> map_of (by_name eff) = map_of (by_name kept) ++ map_of (rev (by_name options)))"
proof (induction options arbitrary: kept)
  case (Cons opt options)
  from Cons.IH [OF place_option_distinct [OF Cons.prems, of opt]] show ?case
    by (simp add: Let_def place_option_lookup [OF Cons.prems] rev_map) (simp add: fun_upd_def)
qed simp

theorem effective_options_last_wins:
  "distinct (map option_name (effective_engine_options options))
   \<and> map_of (by_name (effective_engine_options options)) = map_of (rev (by_name options))"
  using effective_fold [of "[]" options] by (simp add: effective_engine_options_def Let_def)

text \<open>A command is one line of printable ASCII when what the chess library prints is.\<close>

definition printable :: "string \<Rightarrow> bool" where
  "printable s \<longleftrightarrow> list_all (\<lambda>c. 32 \<le> (of_char c :: nat) \<and> (of_char c :: nat) < 127) s"

lemma printable_append [simp]: "printable (a @ b) \<longleftrightarrow> printable a \<and> printable b"
  by (simp add: printable_def)

lemma printable_no_control: "printable s \<Longrightarrow> \<not> has_control s"
  by (induction s) (auto simp: printable_def Let_def)

lemma printable_number [simp]: "printable (show_nat n)"
proof (induction n rule: show_nat.induct)
  case (1 n)
  have "printable [digit_char k]" if "k < 10" for k
    using that by (simp add: printable_def of_char_digit_char)
  with 1 show ?case by (simp add: show_nat.simps [of n])
qed

lemma printable_go: "printable (go_text mode)"
proof -
  have "printable ''go depth ''" "printable ''go movetime ''" "printable ''go nodes ''" "printable ''go infinite''"
    "printable ''go wtime ''" "printable '' btime ''" "printable '' winc ''" "printable '' binc ''"
    unfolding printable_def by code_simp+
  then show ?thesis by (cases mode) (simp_all add: show_word32_def del: append.simps)
qed

lemma printable_join: "printable sep \<Longrightarrow> list_all printable ss \<Longrightarrow> printable (join_with sep ss)"
  by (induction sep ss rule: join_with.induct) (auto simp: printable_def)

lemma normalize_prints:
  "(\<And>m k. printable (uci_print R m k)) \<Longrightarrow> normalize_moves R mode p ms = Inr (texts, q) \<Longrightarrow>
     list_all printable texts \<and> length texts = length ms"
  by (induction R mode p ms arbitrary: texts q rule: normalize_moves.induct) (auto split: sum.splits)

theorem position_command_single_line:
  assumes "\<And>s. printable (fen_print R s)" "\<And>m k. printable (uci_print R m k)"
    "canonicalize_engine_position R fen ms = Inr c"
  shows "\<not> has_control (position_command c) \<and> length (wire_moves c) = length ms"
proof -
  have "printable (wire_fen c) \<and> list_all printable (wire_moves c) \<and> length (wire_moves c) = length ms"
    using assms(3) normalize_prints [OF assms(2)]
    by (auto simp: canonicalize_engine_position_def canonicalize_inner_def Let_def assms(1) split: sum.splits)
  moreover have "printable ''position fen ''" "printable '' moves ''" "printable '' ''"
    unfolding printable_def by code_simp+
  ultimately show ?thesis
    by (auto simp: position_command_def printable_join simp del: append.simps intro!: printable_no_control)
qed

end
