(* ===== verification/PolyglotBook.thy ===== *)
theory PolyglotBook
  imports EngineProtocol
begin

text \<open>
  The Polyglot opening books of \<^verbatim>\<open>game.rs\<close>: a file of 16-byte records is parsed and sorted by its
  position keys under a cancellation token, the moves of a position are looked up, and one of them
  is drawn by weight. A run of the sorted slice is the list of its records, and the written part of
  the merge buffer the list of what was written. Lengths are below \<^verbatim>\<open>usize::MAX\<close>, so that the doubling of
  the width never saturates.
\<close>

subsection \<open>Records\<close>

record polyglot_record =
  record_key :: u64
  move_data :: u16
  record_weight :: u16

record polyglot_move =
  move_string :: string
  move_weight :: u16

type_synonym polyglot_book = "polyglot_record list"

definition MAX_OPENING_BOOK_BYTES :: nat where "MAX_OPENING_BOOK_BYTES = 32 * 1024 * 1024"

definition from_be_bytes :: "bytes \<Rightarrow> 'a::len word" where
  "from_be_bytes bs = foldl (\<lambda>acc b. acc * 256 + ucast b) 0 bs"

definition parse_record :: "bytes \<Rightarrow> polyglot_record" where
  "parse_record r =
     \<lparr>record_key = from_be_bytes (take 8 r), move_data = from_be_bytes (take 2 (drop 8 r)),
      record_weight = from_be_bytes (take 2 (drop 10 r))\<rparr>"

text \<open>The loop over the records: \<^term>\<open>i\<close> is the index of the next one.\<close>

fun parse_records :: "nat \<Rightarrow> bytes list \<Rightarrow> polyglot_record list \<Rightarrow> (token, polyglot_record list) io" where
  "parse_records i [] parsed = return_io parsed"
| "parse_records i (r # rs) parsed =
     bind_io (if i mod 1024 = 0 then check_token else return_io ())
       (\<lambda>_. parse_records (Suc i) rs (parsed @ [parse_record r]))"

function as_chunks :: "bytes \<Rightarrow> bytes list" where
  "as_chunks bs = (if length bs < 16 then [] else take 16 bs # as_chunks (drop 16 bs))"
  by pat_completeness auto
termination by (relation "measure length") auto

declare as_chunks.simps [simp del]

subsection \<open>The sort\<close>

fun merge_runs ::
  "nat \<Rightarrow> polyglot_record list \<Rightarrow> polyglot_record list \<Rightarrow> polyglot_record list \<Rightarrow> (token, polyglot_record list) io" where
  "merge_runs i (x # xs) (y # ys) buffer =
     bind_io (if (i + 1) mod 4096 = 0 then check_token else return_io ())
       (\<lambda>_. if record_key x \<le> record_key y then merge_runs (i + 1) xs (y # ys) (buffer @ [x])
            else merge_runs (i + 1) (x # xs) ys (buffer @ [y]))"
| "merge_runs i xs ys buffer = return_io (buffer @ xs @ ys)"

text \<open>One pass merges neighbouring runs of the width; \<^term>\<open>start\<close> is where the rest begins.\<close>

function merge_pass :: "nat \<Rightarrow> nat \<Rightarrow> polyglot_record list \<Rightarrow> (token, polyglot_record list) io" where
  "merge_pass width start rest =
     (if rest = [] \<or> width = 0 then return_io rest
      else bind_io check_token (\<lambda>_.
           bind_io (merge_runs start (take width rest) (take width (drop width rest)) []) (\<lambda>merged.
           bind_io (merge_pass width (start + length merged) (drop (2 * width) rest)) (\<lambda>others.
           return_io (merged @ others)))))"
  by pat_completeness auto
termination by (relation "measure (\<lambda>(w, s, r). length r)") auto

declare merge_pass.simps [simp del]

lemma wp_token_step [wp_rules]:
  "(\<And>tk. Q () tk) \<Longrightarrow> (\<And>e tk. E e tk) \<Longrightarrow> wp (if c then check_token else return_io ()) Q E tk"
  by (cases tk rule: is_cancelled.cases) (auto simp: wp_def check_token_def)

lemma merge_runs_length:
  "merge_runs i xs ys buffer tk = (Inr r, tk') \<Longrightarrow> length r = length buffer + length xs + length ys"
  by (induction i xs ys buffer arbitrary: tk rule: merge_runs.induct)
    (auto simp: bind_io_eq_Inr split: if_splits)

lemma merge_pass_length: "merge_pass w s rest tk = (Inr r, tk') \<Longrightarrow> length r = length rest"
proof (induction "length rest" arbitrary: s rest tk r rule: less_induct)
  case less
  show ?case
  proof (cases "rest = [] \<or> w = 0")
    case True
    with less.prems show ?thesis by (simp add: merge_pass.simps [of w s rest])
  next
    case False
    with less.prems obtain a b c merged others where m:
      "merge_runs s (take w rest) (take w (drop w rest)) [] a = (Inr merged, b)"
      "merge_pass w (s + length merged) (drop (2 * w) rest) b = (Inr others, tk')" "r = merged @ others"
      by (auto simp: merge_pass.simps [of w s rest] bind_io_eq_Inr)
    have "length (drop (2 * w) rest) < length rest" using False by (cases rest) auto
    from less.hyps [OF this m(2)] merge_runs_length [OF m(1)] m(3) show ?thesis by simp
  qed
qed

function sort_loop :: "nat \<Rightarrow> polyglot_record list \<Rightarrow> (token, polyglot_record list) io" where
  "sort_loop width es tk =
     (if width = 0 \<or> length es \<le> width then return_io es tk
      else bind_io (merge_pass width 0 es) (\<lambda>merged tk'. sort_loop (2 * width) merged tk') tk)"
  by pat_completeness auto
termination
  by (relation "measure (\<lambda>(w, es, tk). length es - w)") (auto dest: merge_pass_length)

declare sort_loop.simps [simp del]

definition cancellable_polyglot_sort :: "polyglot_record list \<Rightarrow> (token, polyglot_record list) io" where
  "cancellable_polyglot_sort es = (if length es < 2 then return_io es else sort_loop 1 es)"

definition load_polyglot_book_cancellable :: "bytes \<Rightarrow> (token, polyglot_book) io" where
  "load_polyglot_book_cancellable bs =
     bind_io check_token (\<lambda>_.
     if MAX_OPENING_BOOK_BYTES < length bs
     then throw_io (ResourceLimit ''Polyglot book exceeds the configured size limit'')
     else if length bs mod 16 \<noteq> 0
     then throw_io (InvalidInput ''Polyglot book is not aligned to 16-byte records'')
     else bind_io (parse_records 0 (as_chunks bs) []) cancellable_polyglot_sort)"

subsection \<open>The lookup\<close>

text \<open>\<^verbatim>\<open>binary_search_by_key\<close> of the standard library: an index of the key, when there is one.\<close>

function search_base :: "u64 \<Rightarrow> polyglot_record list \<Rightarrow> nat \<Rightarrow> nat \<Rightarrow> nat" where
  "search_base key es num base =
     (if num \<le> 1 then base
      else (let half = num div 2; mid = base + half
            in search_base key es (num - half) (if key < record_key (es ! mid) then base else mid)))"
  by pat_completeness auto
termination by (relation "measure (\<lambda>(k, es, s, b). s)") auto

declare search_base.simps [simp del]

definition binary_search :: "u64 \<Rightarrow> polyglot_record list \<Rightarrow> nat option" where
  "binary_search key es =
     (if es = [] then None
      else let base = search_base key es (length es) 0
           in if record_key (es ! base) = key then Some base else None)"

fun first_index :: "u64 \<Rightarrow> polyglot_record list \<Rightarrow> nat \<Rightarrow> nat" where
  "first_index key es 0 = 0"
| "first_index key es (Suc i) = (if record_key (es ! i) = key then first_index key es i else Suc i)"

definition square_text :: "u8 \<Rightarrow> string" where
  "square_text sq = [char_of (97 + unat (sq mod 8)), char_of (49 + unat (sq div 8))]"

definition polyglot_move_to_uci :: "u16 \<Rightarrow> string option" where
  "polyglot_move_to_uci d =
     (let source = (ucast (and (drop_bit 6 d) 0x3f) :: u8);
          dest = (ucast (and d 0x3f) :: u8);
          kind = and (drop_bit 12 d) 0x0f;
          uci = square_text source @ square_text dest
      in if kind = 0 then Some uci
         else if kind = 1 then Some (uci @ ''n'')
         else if kind = 2 then Some (uci @ ''b'')
         else if kind = 3 then Some (uci @ ''r'')
         else if kind = 4 then Some (uci @ ''q'')
         else None)"

definition move_entry :: "polyglot_record \<Rightarrow> polyglot_move option" where
  "move_entry e =
     map_option (\<lambda>s. \<lparr>move_string = s, move_weight = record_weight e\<rparr>) (polyglot_move_to_uci (move_data e))"

text \<open>
  The hash of a position (\<^verbatim>\<open>polyglot_hash_from_fen\<close>, a library) is a parameter; a stable sort by
  falling weight is \<^const>\<open>sort_key\<close> by the complement.
\<close>

definition get_all_moves_from_fen :: "(string \<Rightarrow> u64 option) \<Rightarrow> polyglot_book \<Rightarrow> string \<Rightarrow> polyglot_move list" where
  "get_all_moves_from_fen hash es fen =
     (case hash fen of
        None \<Rightarrow> []
      | Some key \<Rightarrow>
          (case binary_search key es of
             None \<Rightarrow> []
           | Some i \<Rightarrow>
               sort_key (\<lambda>m. - int (unat (move_weight m)))
                 (List.map_filter move_entry (takeWhile (\<lambda>e. record_key e = key) (drop (first_index key es i) es)))))"

subsection \<open>The draw\<close>

definition normalize_polyglot_uci :: "string \<Rightarrow> string" where
  "normalize_polyglot_uci uci =
     (if uci = ''e1h1'' then ''e1g1'' else if uci = ''e1a1'' then ''e1c1''
      else if uci = ''e8h8'' then ''e8g8'' else if uci = ''e8a8'' then ''e8c8'' else uci)"

text \<open>\<^term>\<open>i\<close> is the index of the first weight, \<^term>\<open>n\<close> the number of all.\<close>

fun weighted_from :: "nat \<Rightarrow> nat \<Rightarrow> u16 list \<Rightarrow> nat \<Rightarrow> nat" where
  "weighted_from n i [] t = n - 1"
| "weighted_from n i (w # ws) t = (if t < unat w then i else weighted_from n (Suc i) ws (t - unat w))"

definition choose_weighted_target :: "u16 list \<Rightarrow> nat \<Rightarrow> nat" where
  "choose_weighted_target ws t = weighted_from (length ws) 0 ws t"

text \<open>\<^term>\<open>gen n\<close> is what \<^verbatim>\<open>gen_range(0..n)\<close> draws.\<close>

definition choose_weighted_index :: "u16 list \<Rightarrow> (nat \<Rightarrow> nat) \<Rightarrow> nat" where
  "choose_weighted_index ws gen =
     (let total = sum_list (map unat ws)
      in if total = 0 then gen (length ws) else choose_weighted_target ws (gen total))"

end
