(* ===== verification/PolyglotTheorems.thy ===== *)
theory PolyglotTheorems
  imports PolyglotBook "HOL-Library.Multiset"
begin

text \<open>
  The Polyglot books of \<^verbatim>\<open>PolyglotBook\<close> are correct: the cancellable sort is the stable sort by key,
  the lookup finds the records of a position in the order of their weights, and the draw picks each
  record as often as its weight says.
\<close>

subsection \<open>Actions that only a cancellation can stop\<close>

definition computes :: "(token, 'a) io \<Rightarrow> 'a \<Rightarrow> bool" where
  "computes m x \<longleftrightarrow> m Never = (Inr x, Never) \<and> (\<forall>tk. fst (m tk) = Inl Cancellation \<or> fst (m tk) = Inr x)"

named_theorems computes_rules \<open>results of cancellable actions\<close>

lemma computes_return [computes_rules]: "computes (return_io x) x"
  by (simp add: computes_def)

lemma computes_pair [simp]: "computes (Pair (Inr x)) x"
  by (simp add: computes_def)

lemma computes_check [computes_rules]: "computes check_token ()"
proof -
  have "fst (check_token tk) = Inl Cancellation \<or> fst (check_token tk) = Inr ()" for tk
    using check_token_cases [OF refl, of tk] by auto
  then show ?thesis by (simp add: computes_def)
qed

lemma computes_poll [computes_rules]: "computes (if c then check_token else return_io ()) ()"
  by (simp add: computes_check computes_return)

lemma computes_bind [computes_rules]:
  assumes "computes m x" "computes (f x) y"
  shows "computes (bind_io m f) y"
proof -
  have "fst (bind_io m f tk) = Inl Cancellation \<or> fst (bind_io m f tk) = Inr y" for tk
  proof (cases "m tk")
    case (Pair r tk')
    with assms(1) have "r = Inl Cancellation \<or> r = Inr x" unfolding computes_def by (metis fst_conv)
    with Pair assms(2) show ?thesis by (auto simp: bind_io_def computes_def)
  qed
  with assms show ?thesis by (simp add: computes_def bind_io_def)
qed

subsection \<open>The sort\<close>

fun merge_stable :: "polyglot_record list \<Rightarrow> polyglot_record list \<Rightarrow> polyglot_record list" where
  "merge_stable (x # xs) (y # ys) =
     (if record_key x \<le> record_key y then x # merge_stable xs (y # ys) else y # merge_stable (x # xs) ys)"
| "merge_stable xs ys = xs @ ys"

abbreviation ordered :: "polyglot_record list \<Rightarrow> bool" where
  "ordered es \<equiv> sorted (map record_key es)"

abbreviation of_key :: "u64 \<Rightarrow> polyglot_record list \<Rightarrow> polyglot_record list" where
  "of_key k es \<equiv> filter (\<lambda>e. record_key e = k) es"

lemma merge_runs_computes: "computes (merge_runs i xs ys buffer) (buffer @ merge_stable xs ys)"
proof (induction i xs ys buffer rule: merge_runs.induct)
  case (1 i x xs y ys buffer)
  show ?case unfolding merge_runs.simps by (rule computes_bind [OF computes_poll]) (use 1 in simp)
qed (simp_all add: computes_return)

lemma set_merge [simp]: "set (merge_stable xs ys) = set xs \<union> set ys"
  by (induction xs ys rule: merge_stable.induct) auto

lemma length_merge [simp]: "length (merge_stable xs ys) = length xs + length ys"
  by (induction xs ys rule: merge_stable.induct) auto

lemma mset_merge [simp]: "mset (merge_stable xs ys) = mset xs + mset ys"
  by (induction xs ys rule: merge_stable.induct) auto

lemma ordered_merge: "ordered xs \<Longrightarrow> ordered ys \<Longrightarrow> ordered (merge_stable xs ys)"
  by (induction xs ys rule: merge_stable.induct) (auto intro: order.trans)

lemma of_key_merge: "ordered xs \<Longrightarrow> of_key k (merge_stable xs ys) = of_key k xs @ of_key k ys"
proof (induction xs ys rule: merge_stable.induct)
  case (1 x xs y ys)
  have "of_key k (x # xs) = []" if "\<not> record_key x \<le> record_key y" "record_key y = k"
    using that 1(3) by (auto simp: filter_empty_conv)
  with 1 show ?case by auto
qed auto

text \<open>A pass, without its polls, and runs of a width.\<close>

function merged_runs :: "nat \<Rightarrow> polyglot_record list \<Rightarrow> polyglot_record list" where
  "merged_runs w es =
     (if es = [] \<or> w = 0 then es
      else merge_stable (take w es) (take w (drop w es)) @ merged_runs w (drop (2 * w) es))"
  by pat_completeness auto
termination by (relation "measure (\<lambda>(w, es). length es)") auto

declare merged_runs.simps [simp del]

function in_runs :: "nat \<Rightarrow> polyglot_record list \<Rightarrow> bool" where
  "in_runs w es = (if es = [] \<or> w = 0 then True else ordered (take w es) \<and> in_runs w (drop w es))"
  by pat_completeness auto
termination by (relation "measure (\<lambda>(w, es). length es)") auto

declare in_runs.simps [simp del]

lemma merge_pass_computes: "computes (merge_pass w s es) (merged_runs w es)"
proof (induction w s es rule: merge_pass.induct)
  case (1 w s es)
  let ?m = "merge_stable (take w es) (take w (drop w es))"
  have "computes (merge_runs s (take w es) (take w (drop w es)) []) ?m"
    using merge_runs_computes [of s "take w es" "take w (drop w es)" "[]"] by simp
  with 1 show ?case
    by (auto simp: merge_pass.simps [of w s es] merged_runs.simps [of w es] intro!: computes_rules)
qed

lemma split_runs: "es = take w es @ take w (drop w es) @ drop (2 * w) es"
  by (metis append_take_drop_id drop_drop mult_2)

lemma mset_merged [simp]: "mset (merged_runs w es) = mset es"
proof (induction w es rule: merged_runs.induct)
  case (1 w es)
  have "mset es = mset (take w es) + (mset (take w (drop w es)) + mset (drop (2 * w) es))"
    by (metis split_runs mset_append)
  with 1 show ?case by (simp add: merged_runs.simps [of w es])
qed

lemma length_merged [simp]: "length (merged_runs w es) = length es"
  by (metis mset_merged size_mset)

lemma in_runs_step: "w \<noteq> 0 \<Longrightarrow> in_runs w es \<Longrightarrow> ordered (take w es) \<and> in_runs w (drop w es)"
  by (cases "es = []") (simp_all add: in_runs.simps [of w es])

lemma of_key_merged: "in_runs w es \<Longrightarrow> of_key k (merged_runs w es) = of_key k es"
proof (induction w es rule: merged_runs.induct)
  case (1 w es)
  show ?case
  proof (cases "es = [] \<or> w = 0")
    case False
    have runs: "in_runs w (drop w es)" "ordered (take w es)" using in_runs_step 1(2) False by auto
    then have "in_runs w (drop (2 * w) es)" using in_runs_step [of w "drop w es"] False by (simp add: mult_2)
    with 1(1) [OF False] have "of_key k (merged_runs w (drop (2 * w) es)) = of_key k (drop (2 * w) es)" by simp
    with False runs have "of_key k (merged_runs w es) =
        of_key k (take w es @ take w (drop w es) @ drop (2 * w) es)"
      by (simp add: merged_runs.simps [of w es] of_key_merge)
    then show ?thesis by (simp only: split_runs [symmetric])
  qed (simp add: merged_runs.simps [of w es])
qed

lemma in_runs_append:
  "w \<noteq> 0 \<Longrightarrow> ordered a \<Longrightarrow> length a \<le> w \<Longrightarrow> (b \<noteq> [] \<Longrightarrow> length a = w) \<Longrightarrow> in_runs w b \<Longrightarrow> in_runs w (a @ b)"
  by (cases "b = []") (auto simp: in_runs.simps [of w "a @ b"] in_runs.simps [of w a] in_runs.simps [of w "[]"])

lemma in_runs_merged: "w \<noteq> 0 \<Longrightarrow> in_runs w es \<Longrightarrow> in_runs (2 * w) (merged_runs w es)"
proof (induction w es rule: merged_runs.induct)
  case (1 w es)
  show ?case
  proof (cases "es = []")
    case False
    let ?m = "merge_stable (take w es) (take w (drop w es))"
    have runs: "ordered (take w es)" "in_runs w (drop w es)" using in_runs_step [OF 1(2,3)] by auto
    then have rest: "ordered (take w (drop w es))" "in_runs w (drop (2 * w) es)"
      using in_runs_step [OF 1(2), of "drop w es"] by (auto simp: mult_2)
    have "merged_runs w (drop (2 * w) es) \<noteq> [] \<Longrightarrow> length ?m = 2 * w"
      using length_merged [of w "drop (2 * w) es"]
      by (cases "drop (2 * w) es = []") (auto simp: min_def merged_runs.simps [of w "[]"])
    moreover have "in_runs (2 * w) (merged_runs w (drop (2 * w) es))" using 1(1) False 1(2) rest by simp
    ultimately have "in_runs (2 * w) (?m @ merged_runs w (drop (2 * w) es))"
      using 1(2) runs rest by (intro in_runs_append) (auto simp: ordered_merge min_def)
    with False 1(2) show ?thesis by (simp add: merged_runs.simps [of w es])
  qed (simp add: merged_runs.simps [of w "[]"] in_runs.simps [of "2 * w" "[]"])
qed

lemma sort_loop_computes:
  assumes "w \<noteq> 0" "in_runs w es"
  shows "\<exists>r. computes (sort_loop w es) r \<and> mset r = mset es \<and> ordered r \<and> (\<forall>k. of_key k r = of_key k es)"
  using assms
proof (induction "length es - w" arbitrary: w es rule: less_induct)
  case less
  show ?case
  proof (cases "length es \<le> w")
    case True
    then have "sort_loop w es = return_io es" by (intro ext) (simp add: sort_loop.simps)
    moreover have "ordered es" using less.prems True by (cases "es = []") (simp_all add: in_runs.simps [of w es])
    ultimately show ?thesis by (metis computes_return)
  next
    case False
    let ?m = "merged_runs w es"
    have "\<exists>r. computes (sort_loop (2 * w) ?m) r \<and> mset r = mset ?m \<and> ordered r \<and> (\<forall>k. of_key k r = of_key k ?m)"
      using less False by (intro less.hyps) (auto simp: in_runs_merged)
    then obtain r where r: "computes (sort_loop (2 * w) ?m) r" "mset r = mset ?m" "ordered r"
      "\<forall>k. of_key k r = of_key k ?m" by blast
    have "sort_loop w es = bind_io (merge_pass w 0 es) (sort_loop (2 * w))"
      using False less.prems by (intro ext) (simp add: sort_loop.simps [of w es])
    with r(1) have "computes (sort_loop w es) r" by (auto intro: computes_bind [OF merge_pass_computes])
    with r less.prems of_key_merged show ?thesis by (intro exI [of _ r]) simp
  qed
qed

lemma in_runs_one: "in_runs (Suc 0) es"
  by (induction es) (simp_all add: in_runs.simps [of "Suc 0"] take_Suc)

lemma of_key_flip: "filter (\<lambda>x. record_key e = record_key x) es = of_key (record_key e) es"
  by (rule filter_cong) auto

lemma sort_computes: "computes (cancellable_polyglot_sort es) (sort_key record_key es)"
proof (cases "length es < 2")
  case True
  then have "sort_key record_key es = es" by (cases es; cases "tl es") auto
  with True show ?thesis by (simp add: cancellable_polyglot_sort_def computes_return)
next
  case False
  obtain r where "computes (sort_loop 1 es) r" "mset r = mset es" "ordered r" "\<forall>k. of_key k r = of_key k es"
    using sort_loop_computes [of 1 es] in_runs_one by auto
  moreover from this(2-4) have "sort_key record_key es = r"
    by (intro properties_for_sort_key) (simp_all only: of_key_flip)
  ultimately show ?thesis using False by (simp add: cancellable_polyglot_sort_def)
qed

subsection \<open>The lookup\<close>

lemma ordered_nth: "ordered es \<Longrightarrow> i \<le> j \<Longrightarrow> j < length es \<Longrightarrow> record_key (es ! i) \<le> record_key (es ! j)"
  using sorted_nth_mono [of "map record_key es" i j] by simp

lemma search_base_range: "1 \<le> n \<Longrightarrow> base + n \<le> length es \<Longrightarrow> search_base key es n base < length es"
proof (induction key es n base rule: search_base.induct)
  case (1 key es n base)
  then show ?case by (auto simp: search_base.simps [of key es n base] Let_def)
qed

lemma search_base_finds:
  assumes "ordered es" "base + n \<le> length es" "base \<le> i" "i < base + n" "record_key (es ! i) = key"
  shows "record_key (es ! search_base key es n base) = key"
  using assms
proof (induction key es n base arbitrary: i rule: search_base.induct)
  case (1 key es n base)
  show ?case
  proof (cases "n \<le> 1")
    case True
    with 1(4,5) have "i = base" by simp
    with True 1(6) show ?thesis by (simp add: search_base.simps)
  next
    case False
    let ?mid = "base + n div 2"
    have room: "?mid < length es" "base + (n - n div 2) \<le> length es" "?mid + (n - n div 2) \<le> length es"
      using False 1(3) by auto
    note IH = 1(1) [OF False refl refl]
    show ?thesis
    proof (cases "key < record_key (es ! ?mid)")
      case True
      have "i < ?mid" using ordered_nth [OF 1(2), of ?mid i] 1(3,5,6) True by (cases "i < ?mid") auto
      then have "i < base + (n - n div 2)" by simp
      with True IH [of i] 1(2,4,6) room False show ?thesis
        by (simp add: search_base.simps [of key es n base] Let_def)
    next
      case mid: False
      obtain j where "?mid \<le> j" "j < ?mid + (n - n div 2)" "record_key (es ! j) = key"
      proof (cases "?mid \<le> i")
        case True
        with that [of i] 1(5,6) show thesis by simp
      next
        case below: False
        with ordered_nth [OF 1(2), of i ?mid] room 1(6) mid have "record_key (es ! ?mid) = key" by simp
        with that [of ?mid] False show thesis by simp
      qed
      with mid IH [of j] 1(2) room False show ?thesis
        by (simp add: search_base.simps [of key es n base] Let_def)
    qed
  qed
qed

lemma binary_search_result:
  assumes "ordered es"
  shows "case binary_search key es of
           Some i \<Rightarrow> i < length es \<and> record_key (es ! i) = key
         | None \<Rightarrow> of_key key es = []"
proof (cases "es = []")
  case False
  then have "search_base key es (length es) 0 < length es" by (intro search_base_range) (cases es, auto)
  moreover have "of_key key es = []" if "record_key (es ! search_base key es (length es) 0) \<noteq> key"
    using that search_base_finds [OF assms, of 0 "length es"]
    by (auto simp: filter_empty_conv in_set_conv_nth)
  ultimately show ?thesis using False by (auto simp: binary_search_def Let_def)
qed (simp add: binary_search_def)

lemma first_index_facts:
  "first_index key es i \<le> i \<and> (0 < first_index key es i \<longrightarrow> record_key (es ! (first_index key es i - 1)) \<noteq> key)"
  by (induction key es i rule: first_index.induct) auto

lemma first_index_key: "record_key (es ! i) = key \<Longrightarrow> record_key (es ! first_index key es i) = key"
  by (induction key es i rule: first_index.induct) auto

lemma takeWhile_of_key: "ordered es \<Longrightarrow> \<forall>e \<in> set es. key \<le> record_key e \<Longrightarrow>
    takeWhile (\<lambda>e. record_key e = key) es = of_key key es"
proof (induction es)
  case (Cons e es)
  have "of_key key es = []" if "record_key e \<noteq> key"
    using Cons.prems that by (auto simp: filter_empty_conv)
  with Cons show ?case by auto
qed simp

lemma first_index_takes:
  assumes "ordered es" "i < length es" "record_key (es ! i) = key"
  shows "takeWhile (\<lambda>e. record_key e = key) (drop (first_index key es i) es) = of_key key es"
proof -
  let ?f = "first_index key es i"
  have f: "?f < length es" "record_key (es ! ?f) = key"
    using first_index_facts [of key es i] assms(2) first_index_key [OF assms(3)] by auto
  have "record_key (es ! j) \<noteq> key" if "j < ?f" for j
  proof
    assume "record_key (es ! j) = key"
    with that f ordered_nth [OF assms(1), of j "?f - 1"] ordered_nth [OF assms(1), of "?f - 1" ?f]
    have "record_key (es ! (?f - 1)) = key" by simp
    with first_index_facts [of key es i] that show False by simp
  qed
  then have before: "of_key key (take ?f es) = []" by (fastforce simp: filter_empty_conv in_set_conv_nth)
  have "key \<le> record_key (es ! (?f + k))" if "?f + k < length es" for k
    using f ordered_nth [OF assms(1), of ?f "?f + k"] that by simp
  then have "\<forall>e \<in> set (drop ?f es). key \<le> record_key e" by (auto simp: in_set_conv_nth)
  with assms(1) have "takeWhile (\<lambda>e. record_key e = key) (drop ?f es) = of_key key (drop ?f es)"
    by (intro takeWhile_of_key) (simp_all add: drop_map [symmetric] sorted_wrt_drop)
  also have "\<dots> = of_key key (take ?f es @ drop ?f es)" using before by (simp only: filter_append) simp
  finally show ?thesis by simp
qed

lemma parse_records_computes: "computes (parse_records i rs parsed) (parsed @ map parse_record rs)"
proof (induction i rs parsed rule: parse_records.induct)
  case (2 i r rs parsed)
  show ?case unfolding parse_records.simps by (rule computes_bind [OF computes_poll]) (use 2 in simp)
qed simp

lemma lookup_sorted:
  "get_all_moves_from_fen hash (sort_key record_key es) fen =
     (case hash fen of
        None \<Rightarrow> []
      | Some key \<Rightarrow> sort_key (\<lambda>m. - int (unat (move_weight m))) (List.map_filter move_entry (of_key key es)))"
proof (cases "hash fen")
  case (Some key)
  let ?s = "sort_key record_key es"
  have o: "ordered ?s" by simp
  have same: "of_key key ?s = of_key key es"
    using sort_key_stable [of record_key key es] by (simp add: eq_commute [of key])
  show ?thesis
  proof (cases "binary_search key ?s")
    case None
    with binary_search_result [OF o, of key] same Some show ?thesis
      by (simp add: get_all_moves_from_fen_def map_filter_simps)
  next
    case (Some i)
    with binary_search_result [OF o, of key] first_index_takes [OF o, of i key] same \<open>hash fen = Some key\<close>
    show ?thesis by (simp add: get_all_moves_from_fen_def)
  qed
qed (simp add: get_all_moves_from_fen_def)

subsection \<open>The draw\<close>

lemma weighted_from_ge: "t < sum_list (map unat ws) \<Longrightarrow> i \<le> weighted_from n i ws t"
proof (induction n i ws t rule: weighted_from.induct)
  case (2 n i w ws t)
  then show ?case by (cases "t < unat w") (auto intro: Suc_leD)
qed simp

lemma weighted_targets:
  "j < length ws \<Longrightarrow> card {t. t < sum_list (map unat ws) \<and> weighted_from n i ws t = i + j} = unat (ws ! j)"
proof (induction ws arbitrary: i j)
  case (Cons w ws)
  let ?S = "sum_list (map unat ws)"
  have later: "Suc i \<le> weighted_from n (Suc i) ws (t - unat w)" if "t < unat w + ?S" "\<not> t < unat w" for t
    using that by (intro weighted_from_ge) simp
  show ?case
  proof (cases j)
    case 0
    have "{t. t < unat w + ?S \<and> weighted_from n i (w # ws) t = i + j} = {..< unat w}"
      using later 0 by (fastforce split: if_splits)
    with 0 show ?thesis by simp
  next
    case (Suc k)
    let ?T = "{t. t < ?S \<and> weighted_from n (Suc i) ws t = Suc i + k}"
    have "{t. t < unat w + ?S \<and> weighted_from n i (w # ws) t = i + j} = (+) (unat w) ` ?T"
    proof (intro equalityI subsetI)
      fix t assume t: "t \<in> {t. t < unat w + ?S \<and> weighted_from n i (w # ws) t = i + j}"
      then have "t - unat w \<in> ?T" "t = unat w + (t - unat w)" using Suc by (auto split: if_splits)
      then show "t \<in> (+) (unat w) ` ?T" by blast
    qed (use Suc in auto)
    then show ?thesis using Cons.IH [of k "Suc i"] Cons.prems Suc by (simp add: card_image)
  qed
qed simp

subsection \<open>Properties\<close>

text \<open>
  C16. Loading a book under any cancellation token reports the cancellation or a file that is too large
  or not made of 16-byte records, or gives a book in which looking up a position finds exactly the
  records the file has for it: those with a legible move, by falling weight, and those of one weight
  in the order of the file.
\<close>

theorem book_lookup_complete:
  "case load_polyglot_book_cancellable bs tk of
     (Inr book, _) \<Rightarrow>
       get_all_moves_from_fen hash book fen =
         (case hash fen of
            None \<Rightarrow> []
          | Some key \<Rightarrow> sort_key (\<lambda>m. - int (unat (move_weight m)))
              (List.map_filter move_entry (filter (\<lambda>e. record_key e = key) (map parse_record (as_chunks bs)))))
   | (Inl e, _) \<Rightarrow> e = Cancellation \<or> MAX_OPENING_BOOK_BYTES < length bs \<or> 0 < length bs mod 16"
proof (cases "MAX_OPENING_BOOK_BYTES < length bs \<or> length bs mod 16 \<noteq> 0")
  case True
  then have "\<exists>e tk'. load_polyglot_book_cancellable bs tk = (Inl e, tk')"
    using check_token_cases [OF refl, of tk] by (auto simp: load_polyglot_book_cancellable_def bind_io_def)
  with True show ?thesis by auto
next
  case False
  have "computes (load_polyglot_book_cancellable bs) (sort_key record_key (map parse_record (as_chunks bs)))"
    using False parse_records_computes [of 0 "as_chunks bs" "[]"]
    by (auto simp: load_polyglot_book_cancellable_def intro!: computes_bind computes_check sort_computes)
  then have "fst (load_polyglot_book_cancellable bs tk) \<in>
      {Inl Cancellation, Inr (sort_key record_key (map parse_record (as_chunks bs)))}"
    by (auto simp: computes_def)
  then show ?thesis using lookup_sorted by (auto split: prod.splits)
qed

text \<open>
  The weighted draw is exact: of the targets below the sum of the weights, as many choose an entry
  as its weight says; an entry of weight zero is never chosen, and every target chooses an entry.
\<close>

theorem draw_follows_weights:
  "map (\<lambda>i. card {t. t < sum_list (map unat ws) \<and> choose_weighted_target ws t = i}) [0..<length ws] = map unat ws"
  using weighted_targets [of _ ws "length ws" 0]
  by (intro nth_equalityI) (simp_all add: choose_weighted_target_def)

end
