(* ===== verification/GameController.thy ===== *)
theory GameController
  imports PolyglotBook Progress
begin

text \<open>
  The controller of a live game, \<^verbatim>\<open>GameController\<close> of \<^verbatim>\<open>game.rs\<close>: the position and its moves, the two
  clocks, the request to an engine that may be outstanding, and the events sent to the windows. A
  method is a function on the controller. With the controller goes what its methods touch outside
  of it: the process clock (the next readings of \<^verbatim>\<open>Instant::now\<close> are \<^verbatim>\<open>delays\<close> nanoseconds apart), the
  cancellation tokens, how the next event emissions end and which were attempted. Counters and
  clocks are natural numbers with the saturation at \<^verbatim>\<open>u64::MAX\<close> written out; a position that occurs
  \<^verbatim>\<open>u32::MAX\<close> times is out of reach. Log lines are left out.
\<close>

subsection \<open>Data\<close>

datatype player_config =
    Human string
  | EnginePlayer string string path_ref "engine_option list" "go_mode option"

record time_control =
  initial_time :: nat
  increment :: nat

record opening_book_config =
  book_handle :: path_ref
  book_max_ply :: nat

record game_config =
  white_config :: player_config
  black_config :: player_config
  white_time_control :: "time_control option"
  black_time_control :: "time_control option"
  config_fen :: "string option"
  config_moves :: "string list"
  opening_book :: "opening_book_config option"

datatype game_interruption_reason = EngineFailed | EngineTaskFailed
datatype game_end_reason = Checkmate | Timeout | Resignation | Abandonment
datatype draw_reason = Stalemate | InsufficientMaterial | ThreefoldRepetition | FiftyMoveRule | Agreement

datatype game_result =
    WhiteWins game_end_reason
  | BlackWins game_end_reason
  | Draw draw_reason
  | Interrupted game_interruption_reason "engine_terminal_snapshot option"

datatype game_status = Playing | Finished game_result

record game_move =
  mv_uci :: string
  mv_san :: string
  mv_fen_after :: string
  mv_clock :: "nat option"
  mv_white_time :: "nat option"
  mv_black_time :: "nat option"

record game_state =
  st_game_id :: string
  st_session :: nat
  st_revision :: nat
  st_status :: game_status
  st_initial_fen :: string
  st_moves :: "game_move list"
  st_current_fen :: string
  st_ply :: nat
  st_turn :: string
  st_white_time :: "nat option"
  st_black_time :: "nat option"
  st_white_player :: string
  st_black_player :: string

datatype game_event =
    GameMoveEvent string nat nat "game_move list" string "nat option" "nat option"
  | ClockUpdateEvent string nat nat "nat option" "nat option"
  | GameOverEvent string nat nat game_result "game_move list"

record clock_state =
  clock_white :: "nat option"
  clock_black :: "nat option"
  white_increment :: nat
  black_increment :: nat
  last_tick :: nat

record engine_request_context =
  ctx_session :: nat
  ctx_generation :: nat
  ctx_nonce :: nat
  ctx_token :: cancellation

record active_engine_request =
  request_context :: engine_request_context
  request_id :: "nat option"

record registered_game_engine =
  engine_actor :: nat
  engine_identity :: engine_key
  engine_generation :: nat

datatype game_event_kind = MoveKind | ClockKind | GameOverKind

record emission_latch =
  move_failed :: bool
  clock_failed :: bool
  terminal_failed :: bool

record 'p game_controller =
  game_id :: string
  session :: nat
  revision :: nat
  position_generation :: nat
  next_engine_request :: nat
  config :: game_config
  initial_fen :: string
  root_position :: 'p
  moves :: "game_move list"
  position :: 'p
  position_history :: "string \<Rightarrow> nat option"
  status :: game_status
  terminal_attempt_claimed :: bool
  emission_diagnostics :: emission_latch
  clock :: "clock_state option"
  white_engine :: "registered_game_engine option"
  black_engine :: "registered_game_engine option"
  move_notify :: "bool option"
  engine_thinking :: bool
  active_request :: "active_engine_request option"
  polyglot_book :: "polyglot_book option"
  polyglot_max_ply :: nat

datatype tauri_error = TauriJson | TauriRuntime | TauriIo | TauriFailedToReceive | TauriOther

record 'p live_game = "'p game_controller" +
  wall :: nat
  delays :: "nat list"
  cancelled_tokens :: "cancellation list"
  fresh_token :: cancellation
  emit_faults :: "tauri_error option list"
  attempted :: "game_event list"

subsection \<open>Time and counters\<close>

definition sat_u64 :: "nat \<Rightarrow> nat" where "sat_u64 n = min n U64_MAX"

definition read_now :: "'p live_game \<Rightarrow> nat \<times> 'p live_game" where
  "read_now g =
     (case delays g of
        [] \<Rightarrow> (wall g, g)
      | d # ds \<Rightarrow> (wall g + d, g\<lparr>wall := wall g + d, delays := ds\<rparr>))"

text \<open>\<^verbatim>\<open>elapsed().as_millis() as u64\<close> of an instant, at the reading.\<close>

definition elapsed_ms :: "nat \<Rightarrow> nat \<Rightarrow> nat" where
  "elapsed_ms now tick = (now - tick) div 10 ^ 6 mod 2 ^ 64"

definition reset_tick :: "clock_state \<Rightarrow> 'p live_game \<Rightarrow> 'p live_game" where
  "reset_tick c g = (let (t, g) = read_now g in g\<lparr>clock := Some (c\<lparr>last_tick := t\<rparr>)\<rparr>)"

definition side_time :: "color \<Rightarrow> clock_state \<Rightarrow> nat option" where
  "side_time side c = (if side = White then clock_white c else clock_black c)"

definition set_side_time :: "color \<Rightarrow> nat option \<Rightarrow> clock_state \<Rightarrow> clock_state" where
  "set_side_time side t c = (if side = White then c\<lparr>clock_white := t\<rparr> else c\<lparr>clock_black := t\<rparr>)"

subsection \<open>Configuration\<close>

definition validate_time_controls :: "game_config \<Rightarrow> unit result" where
  "validate_time_controls cfg =
     (case (white_time_control cfg, black_time_control cfg) of
        (Some w, Some b) \<Rightarrow>
          (case first_excess MAX_ENGINE_LIMIT
                  [(''white initial time'', initial_time w), (''black initial time'', initial_time b),
                   (''white increment'', increment w), (''black increment'', increment b)] of
             Some name \<Rightarrow> Inl (InvalidInput (name @ '' must not exceed '' @ show_nat MAX_ENGINE_LIMIT @ '' milliseconds''))
           | None \<Rightarrow>
               if initial_time w = 0 \<and> initial_time b = 0
               then Inl (InvalidInput ''at least one player clock must be non-zero'') else Inr ())
      | (None, None) \<Rightarrow> Inr ()
      | _ \<Rightarrow> Inl (InvalidInput ''both players must provide a time control''))"

fun is_engine :: "player_config \<Rightarrow> bool" where
  "is_engine (EnginePlayer _ _ _ _ _) \<longleftrightarrow> True"
| "is_engine (Human _) \<longleftrightarrow> False"

fun player_name :: "player_config \<Rightarrow> string" where
  "player_name (Human name) = name"
| "player_name (EnginePlayer name _ _ _ _) = name"

subsection \<open>Positions\<close>

text \<open>\<^verbatim>\<open>split_whitespace\<close>; a printed FEN is ASCII.\<close>

definition is_ascii_space :: "char \<Rightarrow> bool" where
  "is_ascii_space c \<longleftrightarrow> (let n = (of_char c :: nat) in n = 32 \<or> (9 \<le> n \<and> n \<le> 13))"

fun words_from :: "string \<Rightarrow> string \<Rightarrow> string list" where
  "words_from word [] = (if word = [] then [] else [word])"
| "words_from word (c # cs) =
     (if is_ascii_space c then (if word = [] then words_from [] cs else word # words_from [] cs)
      else words_from (word @ [c]) cs)"

definition position_key :: "('p, 'm, 'u, 's, 'k, 'e) chess_rules \<Rightarrow> 'p \<Rightarrow> string" where
  "position_key R p = join_with '' '' (take 4 (words_from [] (fen_of R p)))"

definition count_key :: "string \<Rightarrow> (string \<Rightarrow> nat option) \<Rightarrow> (string \<Rightarrow> nat option)" where
  "count_key k h = h(k := Some ((case h k of None \<Rightarrow> 0 | Some n \<Rightarrow> n) + 1))"

subsection \<open>Requests to the engine\<close>

definition token_is_cancelled :: "cancellation \<Rightarrow> 'p live_game \<Rightarrow> bool" where
  "token_is_cancelled t g \<longleftrightarrow> t \<in> set (cancelled_tokens g)"

definition cancel_engine_request :: "'p live_game \<Rightarrow> 'p live_game" where
  "cancel_engine_request g =
     (let g = (case active_request g of
                 Some a \<Rightarrow> g\<lparr>cancelled_tokens := ctx_token (request_context a) # cancelled_tokens g\<rparr>
               | None \<Rightarrow> g)
      in g\<lparr>active_request := None, engine_thinking := False\<rparr>)"

definition advance_position_generation :: "'p live_game \<Rightarrow> 'p live_game" where
  "advance_position_generation g =
     cancel_engine_request (g\<lparr>position_generation := sat_u64 (position_generation g + 1)\<rparr>)"

definition bump_revision :: "'p live_game \<Rightarrow> 'p live_game" where
  "bump_revision g = g\<lparr>revision := sat_u64 (revision g + 1)\<rparr>"

definition current_turn_player :: "('p, 'm, 'u, 's, 'k, 'e) chess_rules \<Rightarrow> 'p live_game \<Rightarrow> player_config" where
  "current_turn_player R g =
     (if side_to_move R (position g) = White then white_config (config g) else black_config (config g))"

definition is_engine_turn :: "('p, 'm, 'u, 's, 'k, 'e) chess_rules \<Rightarrow> 'p live_game \<Rightarrow> bool" where
  "is_engine_turn R g = is_engine (current_turn_player R g)"

definition begin_engine_request ::
  "('p, 'm, 'u, 's, 'k, 'e) chess_rules \<Rightarrow> 'p live_game \<Rightarrow> engine_request_context option \<times> 'p live_game" where
  "begin_engine_request R g =
     (if status g \<noteq> Playing \<or> \<not> is_engine_turn R g \<or> engine_thinking g then (None, g)
      else (let nonce = sat_u64 (next_engine_request g + 1);
                ctx = \<lparr>ctx_session = session g, ctx_generation = position_generation g, ctx_nonce = nonce,
                       ctx_token = fresh_token g\<rparr>
            in (Some ctx,
                g\<lparr>next_engine_request := nonce, fresh_token := Suc (fresh_token g), engine_thinking := True,
                  active_request := Some \<lparr>request_context = ctx, request_id = None\<rparr>\<rparr>)))"

definition register_engine_request_id ::
  "engine_request_context \<Rightarrow> nat \<Rightarrow> 'p live_game \<Rightarrow> bool \<times> 'p live_game" where
  "register_engine_request_id ctx rid g =
     (case active_request g of
        None \<Rightarrow> (False, g)
      | Some a \<Rightarrow>
          (let c = request_context a
           in if ctx_session c \<noteq> ctx_session ctx \<or> ctx_generation c \<noteq> ctx_generation ctx
                 \<or> ctx_nonce c \<noteq> ctx_nonce ctx \<or> token_is_cancelled (ctx_token c) g
              then (False, g)
              else (True, g\<lparr>active_request := Some (a\<lparr>request_id := Some rid\<rparr>)\<rparr>)))"

definition accepts_engine_context :: "engine_request_context \<Rightarrow> 'p live_game \<Rightarrow> bool" where
  "accepts_engine_context ctx g \<longleftrightarrow>
     status g = Playing \<and> session g = ctx_session ctx \<and> position_generation g = ctx_generation ctx
     \<and> (case active_request g of
          None \<Rightarrow> False
        | Some a \<Rightarrow>
            (let c = request_context a
             in ctx_nonce c = ctx_nonce ctx \<and> ctx_session c = ctx_session ctx
                \<and> ctx_generation c = ctx_generation ctx \<and> \<not> token_is_cancelled (ctx_token c) g))"

definition accepts_engine_result :: "engine_request_context \<Rightarrow> nat \<Rightarrow> 'p live_game \<Rightarrow> bool" where
  "accepts_engine_result ctx rid g \<longleftrightarrow>
     status g = Playing \<and> session g = ctx_session ctx \<and> position_generation g = ctx_generation ctx
     \<and> (case active_request g of
          None \<Rightarrow> False
        | Some a \<Rightarrow>
            (let c = request_context a
             in ctx_nonce c = ctx_nonce ctx \<and> ctx_session c = ctx_session ctx
                \<and> ctx_generation c = ctx_generation ctx
                \<and> request_id a = Some rid \<and> \<not> token_is_cancelled (ctx_token c) g))"

subsection \<open>Clocks and the end of a game\<close>

definition timeout_result :: "('p, 'm, 'u, 's, 'k, 'e) chess_rules \<Rightarrow> 'p \<Rightarrow> color \<Rightarrow> game_result" where
  "timeout_result R p winner =
     (if lacks_material R p winner then Draw InsufficientMaterial
      else if winner = White then WhiteWins Timeout else BlackWins Timeout)"

definition settle_active_clock ::
  "('p, 'm, 'u, 's, 'k, 'e) chess_rules \<Rightarrow> 'p live_game \<Rightarrow> game_result option \<times> 'p live_game" where
  "settle_active_clock R g =
     (case clock g of
        None \<Rightarrow> (None, g)
      | Some c \<Rightarrow>
          (let (now, g) = read_now g;
               elapsed = elapsed_ms now (last_tick c);
               flagged = side_to_move R (position g)
           in case side_time flagged c of
                None \<Rightarrow> (None, reset_tick c g)
              | Some remaining \<Rightarrow>
                  if remaining \<le> elapsed
                  then (Some (timeout_result R (position g) (other_color flagged)),
                        reset_tick (set_side_time flagged (Some 0) c) g)
                  else (None, reset_tick (set_side_time flagged (Some (remaining - elapsed)) c) g)))"

definition get_current_times ::
  "('p, 'm, 'u, 's, 'k, 'e) chess_rules \<Rightarrow> 'p live_game \<Rightarrow> (nat option \<times> nat option) \<times> 'p live_game" where
  "get_current_times R g =
     (case clock g of
        None \<Rightarrow> ((None, None), g)
      | Some c \<Rightarrow>
          if status g \<noteq> Playing then ((clock_white c, clock_black c), g)
          else (let (now, g) = read_now g; elapsed = elapsed_ms now (last_tick c)
                in ((if side_to_move R (position g) = White then map_option (\<lambda>t. t - elapsed) (clock_white c)
                     else clock_white c,
                     if side_to_move R (position g) = Black then map_option (\<lambda>t. t - elapsed) (clock_black c)
                     else clock_black c), g)))"

definition end_game_with ::
  "('p, 'm, 'u, 's, 'k, 'e) chess_rules \<Rightarrow> game_result \<Rightarrow> 'p live_game \<Rightarrow> bool \<times> 'p live_game" where
  "end_game_with R r g =
     (if status g \<noteq> Playing then (False, g)
      else (let ((w, b), g) = get_current_times R g;
                g = (case clock g of
                       Some c \<Rightarrow> g\<lparr>clock := Some (c\<lparr>clock_white := w, clock_black := b\<rparr>)\<rparr>
                     | None \<Rightarrow> g);
                g = advance_position_generation (g\<lparr>status := Finished r\<rparr>)
            in (True, bump_revision (g\<lparr>terminal_attempt_claimed := False\<rparr>))))"

definition game_end :: "('p, 'm, 'u, 's, 'k, 'e) chess_rules \<Rightarrow> 'p \<Rightarrow> (string \<Rightarrow> nat option) \<Rightarrow> game_result option" where
  "game_end R p h =
     (if in_checkmate R p then Some (if side_to_move R p = White then BlackWins Checkmate else WhiteWins Checkmate)
      else if in_stalemate R p then Some (Draw Stalemate)
      else if no_material R p then Some (Draw InsufficientMaterial)
      else if 100 \<le> halfmove_clock R p then Some (Draw FiftyMoveRule)
      else case h (position_key R p) of
             Some n \<Rightarrow> if 3 \<le> n then Some (Draw ThreefoldRepetition) else None
           | None \<Rightarrow> None)"

definition check_game_end :: "('p, 'm, 'u, 's, 'k, 'e) chess_rules \<Rightarrow> 'p live_game \<Rightarrow> 'p live_game" where
  "check_game_end R g =
     (case game_end R (position g) (position_history g) of
        Some r \<Rightarrow> snd (end_game_with R r g)
      | None \<Rightarrow> g)"

end
