(* ===== verification/GamePlay.thy ===== *)
theory GamePlay
  imports GameController
begin

text \<open>
  The operations on a live game: moves, taking back, the events, and what the handlers of the
  manager and the tasks of a game do while they hold its write lock. The searches of the engine
  are not modelled: a task hands in the text the engine answered.
\<close>

subsection \<open>Moves\<close>

definition credit_mover :: "('p, 'm, 'u, 's, 'k, 'e) chess_rules \<Rightarrow> 'p \<Rightarrow> clock_state \<Rightarrow> clock_state" where
  "credit_mover R p c =
     (if side_to_move R p = Black
      then (case clock_white c of
              Some w \<Rightarrow> c\<lparr>clock_white := Some (sat_u64 (w + white_increment c))\<rparr>
            | None \<Rightarrow> c)
      else (case clock_black c of
              Some b \<Rightarrow> c\<lparr>clock_black := Some (sat_u64 (b + black_increment c))\<rparr>
            | None \<Rightarrow> c))"

definition clock_times :: "clock_state option \<Rightarrow> nat option \<times> nat option" where
  "clock_times c = (case c of Some c \<Rightarrow> (clock_white c, clock_black c) | None \<Rightarrow> (None, None))"

text \<open>Playing a legal move on the board: the position, its generation and the count of its key.\<close>

definition play_on_board :: "('p, 'm, 'u, 's, 'k, 'e) chess_rules \<Rightarrow> 'm \<Rightarrow> 'p live_game \<Rightarrow> 'p live_game" where
  "play_on_board R mv g =
     (let g = advance_position_generation (g\<lparr>position := play_move R (position g) mv\<rparr>)
      in g\<lparr>position_history := count_key (position_key R (position g)) (position_history g)\<rparr>)"

definition apply_move ::
  "('p, 'm, 'u, 's, 'k, 'e) chess_rules \<Rightarrow> string \<Rightarrow> ('p live_game, game_move) io" where
  "apply_move R uci g =
     (if status g \<noteq> Playing then (Inl GameNotInProgress, g)
      else case settle_active_clock R g of
        (Some r, g) \<Rightarrow> (Inl GameNotInProgress, snd (end_game_with R r g))
      | (None, g) \<Rightarrow>
          (case uci_move R (position g) uci of
             Inl e \<Rightarrow> (Inl e, g)
           | Inr mv \<Rightarrow>
               (let san = san_print R (position g) mv;
                    before = (case clock g of Some c \<Rightarrow> side_time (side_to_move R (position g)) c | None \<Rightarrow> None);
                    g = play_on_board R mv g;
                    g = (case clock g of
                           Some c \<Rightarrow> reset_tick (credit_mover R (position g) c) g
                         | None \<Rightarrow> g);
                    (w, b) = clock_times (clock g);
                    m = \<lparr>mv_uci = uci, mv_san = san, mv_fen_after = fen_of R (position g), mv_clock = before,
                         mv_white_time = w, mv_black_time = b\<rparr>
                in (Inr m, check_game_end R (bump_revision (g\<lparr>moves := moves g @ [m]\<rparr>))))))"

definition apply_move_no_clock ::
  "('p, 'm, 'u, 's, 'k, 'e) chess_rules \<Rightarrow> string \<Rightarrow> ('p live_game, game_move) io" where
  "apply_move_no_clock R uci g =
     (case uci_move R (position g) uci of
        Inl e \<Rightarrow> (Inl e, g)
      | Inr mv \<Rightarrow>
          (let san = san_print R (position g) mv;
               g = play_on_board R mv g;
               (w, b) = clock_times (clock g);
               m = \<lparr>mv_uci = uci, mv_san = san, mv_fen_after = fen_of R (position g), mv_clock = None,
                    mv_white_time = w, mv_black_time = b\<rparr>
           in (Inr m, check_game_end R (g\<lparr>moves := moves g @ [m]\<rparr>))))"

subsection \<open>Taking back\<close>

text \<open>The loop over the kept moves; on a failure the position and the counts stay where it stopped.\<close>

fun replay_moves ::
  "('p, 'm, 'u, 's, 'k, 'e) chess_rules \<Rightarrow> game_move list \<Rightarrow> ('p live_game, unit) io" where
  "replay_moves R [] g = (Inr (), g)"
| "replay_moves R (m # ms) g =
     (case uci_move R (position g) (mv_uci m) of
        Inl e \<Rightarrow> (Inl e, g)
      | Inr mv \<Rightarrow>
          (let p = play_move R (position g) mv
           in replay_moves R ms
                (g\<lparr>position := p, position_history := count_key (position_key R p) (position_history g)\<rparr>)))"

definition restored_clock :: "'p live_game \<Rightarrow> clock_state \<Rightarrow> clock_state" where
  "restored_clock g c =
     (let c = c\<lparr>clock_white := map_option initial_time (white_time_control (config g)),
                clock_black := map_option initial_time (black_time_control (config g))\<rparr>
      in if moves g = [] then c
         else (let l = List.last (moves g)
               in if mv_white_time l \<noteq> None \<or> mv_black_time l \<noteq> None
                  then c\<lparr>clock_white := mv_white_time l, clock_black := mv_black_time l\<rparr> else c))"

definition rebuild_position_from_moves ::
  "('p, 'm, 'u, 's, 'k, 'e) chess_rules \<Rightarrow> ('p live_game, unit) io" where
  "rebuild_position_from_moves R g =
     bind_io (replay_moves R (moves g))
       (\<lambda>_ g. case clock g of
          Some c \<Rightarrow> (Inr (), reset_tick (restored_clock g c) g)
        | None \<Rightarrow> (Inr (), g))
       (g\<lparr>position := root_position g,
          position_history := (\<lambda>_. None)(position_key R (root_position g) := Some 1)\<rparr>)"

definition take_back_moves ::
  "('p, 'm, 'u, 's, 'k, 'e) chess_rules \<Rightarrow> nat \<Rightarrow> ('p live_game, unit) io" where
  "take_back_moves R n g =
     (let g = cancel_engine_request g
      in bind_io (rebuild_position_from_moves R)
           (\<lambda>_ g. (Inr (), check_game_end R (bump_revision (advance_position_generation g))))
           (g\<lparr>moves := (butlast ^^ n) (moves g), status := Playing\<rparr>))"

subsection \<open>Events\<close>

definition move_event_revision :: "'p live_game \<Rightarrow> nat" where
  "move_event_revision g = (case status g of Finished _ \<Rightarrow> revision g - 1 | Playing \<Rightarrow> revision g)"

fun safe_tauri_error_label :: "tauri_error \<Rightarrow> string" where
  "safe_tauri_error_label TauriJson = ''serialization''"
| "safe_tauri_error_label TauriRuntime = ''runtime''"
| "safe_tauri_error_label TauriIo = ''io''"
| "safe_tauri_error_label TauriFailedToReceive = ''message-receive''"
| "safe_tauri_error_label TauriOther = ''other-tauri''"

fun latched :: "game_event_kind \<Rightarrow> emission_latch \<Rightarrow> bool" where
  "latched MoveKind l = move_failed l"
| "latched ClockKind l = clock_failed l"
| "latched GameOverKind l = terminal_failed l"

fun set_latch :: "game_event_kind \<Rightarrow> emission_latch \<Rightarrow> emission_latch" where
  "set_latch MoveKind l = l\<lparr>move_failed := True\<rparr>"
| "set_latch ClockKind l = l\<lparr>clock_failed := True\<rparr>"
| "set_latch GameOverKind l = l\<lparr>terminal_failed := True\<rparr>"

text \<open>The first failure of each kind answers the label of its cause.\<close>

definition attempt_event_emission ::
  "game_event_kind \<Rightarrow> game_event \<Rightarrow> 'p live_game \<Rightarrow> string option \<times> 'p live_game" where
  "attempt_event_emission kind ev g =
     (let g' = g\<lparr>attempted := attempted g @ [ev], emit_faults := tl (emit_faults g)\<rparr>
      in case emit_faults g of
           Some e # _ \<Rightarrow>
             if latched kind (emission_diagnostics g) then (None, g')
             else (Some (safe_tauri_error_label e),
                   g'\<lparr>emission_diagnostics := set_latch kind (emission_diagnostics g)\<rparr>)
         | _ \<Rightarrow> (None, g'))"

definition attempt_terminal_event_emission :: "'p live_game \<Rightarrow> bool \<times> 'p live_game" where
  "attempt_terminal_event_emission g =
     (case status g of
        Playing \<Rightarrow> (False, g)
      | Finished r \<Rightarrow>
          if terminal_attempt_claimed g then (False, g)
          else (let g = g\<lparr>terminal_attempt_claimed := True\<rparr>;
                    ev = GameOverEvent (game_id g) (session g) (revision g) r (moves g)
                in (True, snd (attempt_event_emission GameOverKind ev g))))"

definition emit_move ::
  "('p, 'm, 'u, 's, 'k, 'e) chess_rules \<Rightarrow> string \<Rightarrow> 'p live_game \<Rightarrow> 'p live_game" where
  "emit_move R fen g =
     (let ((w, b), g) = get_current_times R g;
          ev = GameMoveEvent (game_id g) (session g) (move_event_revision g) (moves g) fen w b
      in snd (attempt_event_emission MoveKind ev g))"

definition get_state :: "('p, 'm, 'u, 's, 'k, 'e) chess_rules \<Rightarrow> 'p live_game \<Rightarrow> game_state \<times> 'p live_game" where
  "get_state R g =
     (let ((w, b), g') = get_current_times R g
      in (\<lparr>st_game_id = game_id g, st_session = session g, st_revision = revision g, st_status = status g,
           st_initial_fen = initial_fen g, st_moves = moves g, st_current_fen = fen_of R (position g),
           st_ply = length (moves g) mod 2 ^ 32,
           st_turn = (if side_to_move R (position g) = White then ''white'' else ''black''),
           st_white_time = w, st_black_time = b,
           st_white_player = player_name (white_config (config g)),
           st_black_player = player_name (black_config (config g))\<rparr>, g'))"

definition notify_loop :: "'p live_game \<Rightarrow> 'p live_game" where
  "notify_loop g = g\<lparr>move_notify := map_option (\<lambda>_. True) (move_notify g)\<rparr>"

definition reset_clock :: "'p live_game \<Rightarrow> 'p live_game" where
  "reset_clock g = (case clock g of Some c \<Rightarrow> reset_tick c g | None \<Rightarrow> g)"

subsection \<open>A new game\<close>

definition STARTING_FEN :: string where
  "STARTING_FEN = ''rnbqkbnr/pppppppp/8/8/8/8/PPPPPPPP/RNBQKBNR w KQkq - 0 1''"

fun play_initial ::
  "('p, 'm, 'u, 's, 'k, 'e) chess_rules \<Rightarrow> string list \<Rightarrow> 'p live_game \<Rightarrow> 'p live_game result" where
  "play_initial R [] g = Inr g"
| "play_initial R (m # ms) g =
     (if status g \<noteq> Playing then Inl (InvalidInput ''initial moves continue after a terminal position'')
      else case apply_move_no_clock R m g of
             (Inl e, _) \<Rightarrow> Inl e
           | (Inr _, g) \<Rightarrow> play_initial R ms g)"

definition start_position ::
  "('p, 'm, 'u, 's, 'k, 'e) chess_rules \<Rightarrow> game_config \<Rightarrow> string \<Rightarrow> 'p result" where
  "start_position R cfg fen =
     (if is_engine (white_config cfg) \<or> is_engine (black_config cfg)
      then (case canonicalize_engine_position R fen [] of Inl e \<Rightarrow> Inl e | Inr c \<Rightarrow> Inr (reached_position c))
      else parse_fen_to_position R fen)"

definition start_clock :: "game_config \<Rightarrow> nat \<Rightarrow> clock_state option" where
  "start_clock cfg now =
     (if white_time_control cfg = None \<and> black_time_control cfg = None then None
      else Some \<lparr>clock_white = map_option initial_time (white_time_control cfg),
                 clock_black = map_option initial_time (black_time_control cfg),
                 white_increment = (case white_time_control cfg of Some t \<Rightarrow> increment t | None \<Rightarrow> 0),
                 black_increment = (case black_time_control cfg of Some t \<Rightarrow> increment t | None \<Rightarrow> 0),
                 last_tick = now\<rparr>)"

definition fresh_game ::
  "('p, 'm, 'u, 's, 'k, 'e) chess_rules \<Rightarrow> string \<Rightarrow> nat \<Rightarrow> game_config \<Rightarrow> string \<Rightarrow> 'p \<Rightarrow> nat \<Rightarrow> nat list \<Rightarrow> 'p live_game" where
  "fresh_game R gid sess cfg fen p now ds =
     \<lparr>game_id = gid, session = sess, revision = 0, position_generation = 0, next_engine_request = 0,
      config = cfg, initial_fen = fen, root_position = p, moves = [], position = p,
      position_history = (\<lambda>_. None)(position_key R p := Some 1), status = Playing,
      terminal_attempt_claimed = False,
      emission_diagnostics = \<lparr>move_failed = False, clock_failed = False, terminal_failed = False\<rparr>,
      clock = start_clock cfg now, white_engine = None, black_engine = None, move_notify = None,
      engine_thinking = False, active_request = None, polyglot_book = None, polyglot_max_ply = 0,
      wall = now, delays = ds, cancelled_tokens = [], fresh_token = 0, emit_faults = [], attempted = []\<rparr>"

definition game_controller_new ::
  "('p, 'm, 'u, 's, 'k, 'e) chess_rules \<Rightarrow> string \<Rightarrow> nat \<Rightarrow> game_config \<Rightarrow> nat \<Rightarrow> nat list \<Rightarrow> 'p live_game result" where
  "game_controller_new R gid sess cfg now ds =
     then_check (validate_time_controls cfg)
       (let fen = (case config_fen cfg of Some f \<Rightarrow> f | None \<Rightarrow> STARTING_FEN)
        in case start_position R cfg fen of
             Inl e \<Rightarrow> Inl e
           | Inr p \<Rightarrow> play_initial R (config_moves cfg) (check_game_end R (fresh_game R gid sess cfg fen p now ds)))"

subsection \<open>The handlers of the manager, under the write lock of the game\<close>

text \<open>
  The second part of a result tells whether the handler sends the shutdown of the game's loop after
  it released the lock.
\<close>

definition make_move_locked ::
  "('p, 'm, 'u, 's, 'k, 'e) chess_rules \<Rightarrow> string \<Rightarrow> nat \<Rightarrow> ('p live_game, game_state \<times> bool) io" where
  "make_move_locked R uci expected_ply g =
     (if is_engine_turn R g then (Inl NotHumanTurn, g)
      else if length (moves g) \<noteq> expected_ply then (Inl (Conflict ''game position changed before move commit''), g)
      else case apply_move R uci g of
        (Inl e, g) \<Rightarrow>
          (case status g of
             Playing \<Rightarrow> (Inl e, g)
           | Finished _ \<Rightarrow>
               (let (claimed, g) = attempt_terminal_event_emission g; (st, g) = get_state R g
                in (Inr (st, claimed), g)))
      | (Inr m, g) \<Rightarrow>
          (let g = emit_move R (mv_fen_after m) g;
               (claimed, g) = attempt_terminal_event_emission g;
               g = (if claimed then g else notify_loop g);
               (st, g) = get_state R g
           in (Inr (st, claimed), g)))"

definition human_color :: "game_config \<Rightarrow> color option" where
  "human_color cfg =
     (case (is_engine (white_config cfg), is_engine (black_config cfg)) of
        (False, True) \<Rightarrow> Some White
      | (True, False) \<Rightarrow> Some Black
      | _ \<Rightarrow> None)"

definition take_back_locked ::
  "('p, 'm, 'u, 's, 'k, 'e) chess_rules \<Rightarrow> ('p live_game, game_state \<times> bool) io" where
  "take_back_locked R g =
     (if status g \<noteq> Playing then (Inl GameNotInProgress, g)
      else if moves g = [] then (Inl NoMovesFound, g)
      else bind_io
        (take_back_moves R (if human_color (config g) = Some (side_to_move R (position g)) then 2 else 1))
        (\<lambda>_ g.
          let g = emit_move R (fen_of R (position g)) g;
              (claimed, g) = attempt_terminal_event_emission g;
              g = (if \<not> claimed \<and> is_engine_turn R g then notify_loop g else g);
              (st, g) = get_state R g
          in (Inr (st, claimed), g)) g)"

definition resign_locked ::
  "('p, 'm, 'u, 's, 'k, 'e) chess_rules \<Rightarrow> string \<Rightarrow> ('p live_game, game_state \<times> bool) io" where
  "resign_locked R side g =
     (if status g \<noteq> Playing then (Inl GameNotInProgress, g)
      else case (if side = ''white'' then Some (BlackWins Resignation)
                 else if side = ''black'' then Some (WhiteWins Resignation) else None) of
        None \<Rightarrow> (Inl (InvalidColor side), g)
      | Some r \<Rightarrow>
          (let (finished, g) = end_game_with R r g;
               g = snd (attempt_terminal_event_emission g);
               (st, g) = get_state R g
           in (Inr (st, finished), g)))"

subsection \<open>The loop and the engine tasks, under the write lock of the game\<close>

text \<open>One tick of the clock: whether the loop goes on.\<close>

definition clock_tick :: "('p, 'm, 'u, 's, 'k, 'e) chess_rules \<Rightarrow> 'p live_game \<Rightarrow> bool \<times> 'p live_game" where
  "clock_tick R g =
     (if status g \<noteq> Playing then (False, g)
      else case settle_active_clock R g of
        (Some r, g) \<Rightarrow> (False, snd (attempt_terminal_event_emission (snd (end_game_with R r g))))
      | (None, g) \<Rightarrow>
          (let ((w, b), g) = get_current_times R g;
               g = bump_revision g;
               ev = ClockUpdateEvent (game_id g) (session g) (revision g) w b;
               g = snd (attempt_event_emission ClockKind ev g)
           in (status g = Playing, g)))"

text \<open>An engine task that ended with an error, or whose thread failed; was its token cancelled?\<close>

definition engine_task_failed ::
  "('p, 'm, 'u, 's, 'k, 'e) chess_rules \<Rightarrow> cancellation option \<Rightarrow> game_interruption_reason
     \<Rightarrow> engine_terminal_snapshot option \<Rightarrow> 'p live_game \<Rightarrow> bool \<times> 'p live_game" where
  "engine_task_failed R tk reason snap g =
     (if (case tk of Some t \<Rightarrow> token_is_cancelled t g | None \<Rightarrow> False) then (True, g)
      else (let g = g\<lparr>engine_thinking := False\<rparr>;
                g = (if status g = Playing then snd (end_game_with R (Interrupted reason snap) g) else g)
            in (False, snd (attempt_terminal_event_emission g))))"

definition legal_book_moves ::
  "('p, 'm, 'u, 's, 'k, 'e) chess_rules \<Rightarrow> 'p \<Rightarrow> polyglot_move list \<Rightarrow> (string \<times> u16) list" where
  "legal_book_moves R p ms =
     List.map_filter (\<lambda>m. let uci = normalize_polyglot_uci (move_string m)
                          in case uci_move R p uci of Inl _ \<Rightarrow> None | Inr _ \<Rightarrow> Some (uci, move_weight m)) ms"

definition try_polyglot_book_move ::
  "('p, 'm, 'u, 's, 'k, 'e) chess_rules \<Rightarrow> (string \<Rightarrow> u64 option) \<Rightarrow> (nat \<Rightarrow> nat) \<Rightarrow> 'p live_game \<Rightarrow> string option" where
  "try_polyglot_book_move R hash gen g =
     (case polyglot_book g of
        None \<Rightarrow> None
      | Some b \<Rightarrow>
          if polyglot_max_ply g \<le> length (moves g) then None
          else (let legal = legal_book_moves R (position g)
                      (get_all_moves_from_fen hash b (fen_print R (setup_pseudo_legal R (position g))))
                in if legal = [] then None
                   else Some (fst (legal ! choose_weighted_index (map snd legal) gen))))"

text \<open>The commit of a move an engine or its book chose; \<^term>\<open>allowed\<close> is what was checked before.\<close>

definition commit_engine_move ::
  "('p, 'm, 'u, 's, 'k, 'e) chess_rules \<Rightarrow> bool \<Rightarrow> color \<Rightarrow> string \<Rightarrow> ('p live_game, unit) io" where
  "commit_engine_move R allowed turn uci g =
     (if \<not> allowed \<or> side_to_move R (position g) \<noteq> turn then (Inr (), g)
      else case apply_move R uci g of
        (Inl e, g) \<Rightarrow>
          (case status g of
             Playing \<Rightarrow> (Inl e, g)
           | Finished _ \<Rightarrow> (Inr (), snd (attempt_terminal_event_emission g)))
      | (Inr m, g) \<Rightarrow> (Inr (), snd (attempt_terminal_event_emission (emit_move R (mv_fen_after m) g))))"

definition commit_book_move ::
  "('p, 'm, 'u, 's, 'k, 'e) chess_rules \<Rightarrow> bool \<Rightarrow> engine_request_context \<Rightarrow> color \<Rightarrow> string \<Rightarrow> ('p live_game, unit) io" where
  "commit_book_move R current ctx turn uci g =
     commit_engine_move R (current \<and> accepts_engine_context ctx g) turn uci g"

definition commit_engine_result ::
  "('p, 'm, 'u, 's, 'k, 'e) chess_rules \<Rightarrow> bool \<Rightarrow> engine_request_context \<Rightarrow> nat \<Rightarrow> color \<Rightarrow> string
     \<Rightarrow> ('p live_game, unit) io" where
  "commit_engine_result R current ctx rid turn uci g =
     commit_engine_move R (current \<and> accepts_engine_result ctx rid g) turn uci g"

definition to_u32 :: "string \<Rightarrow> nat \<Rightarrow> u32 result" where
  "to_u32 what n = (if n < 2 ^ 32 then Inr (word_of_nat n) else Inl (InvalidInput (what @ '' exceeds UCI range'')))"

definition search_mode ::
  "nat option \<times> nat option \<Rightarrow> clock_state option \<Rightarrow> go_mode option \<Rightarrow> go_mode result" where
  "search_mode both c go =
     (case (both, c) of
        ((None, None), None) \<Rightarrow> Inr (case go of Some m \<Rightarrow> m | None \<Rightarrow> GoDepth 20)
      | ((Some w, Some b), Some c) \<Rightarrow>
          (case to_u32 ''white clock'' w of Inl e \<Rightarrow> Inl e | Inr w \<Rightarrow>
          (case to_u32 ''black clock'' b of Inl e \<Rightarrow> Inl e | Inr b \<Rightarrow>
          (case to_u32 ''white increment'' (white_increment c) of Inl e \<Rightarrow> Inl e | Inr wi \<Rightarrow>
          (case to_u32 ''black increment'' (black_increment c) of Inl e \<Rightarrow> Inl e | Inr bi \<Rightarrow>
             Inr (GoPlayersTime \<lparr>pt_white = w, pt_black = b, pt_winc = wi, pt_binc = bi\<rparr>)))))
      | _ \<Rightarrow> Inl (Conflict ''game clock state is asymmetric or incomplete''))"

text \<open>What a task asks of its engine: nothing when the game is over.\<close>

definition engine_search_request ::
  "('p, 'm, 'u, 's, 'k, 'e) chess_rules
     \<Rightarrow> ('p live_game, (registered_game_engine \<times> go_mode \<times> string \<times> string list \<times> color) option) io" where
  "engine_search_request R g =
     (if status g \<noteq> Playing then (Inr None, g)
      else (let turn = side_to_move R (position g)
            in case (if turn = White then white_engine g else black_engine g) of
                 None \<Rightarrow> (Inl EngineNotInitialized, g)
               | Some engine \<Rightarrow>
                   (case (if turn = White then white_config (config g) else black_config (config g)) of
                      Human _ \<Rightarrow> (Inl NotEngineTurn, g)
                    | EnginePlayer _ _ _ _ go \<Rightarrow>
                        (let (both, g) = get_current_times R g
                         in (case search_mode both (clock g) go of
                               Inl e \<Rightarrow> Inl e
                             | Inr mode \<Rightarrow>
                                 Inr (Some (engine, mode, initial_fen g, map mv_uci (moves g), turn)), g)))))"

end
