(* ===== verification/GameFrames.thy ===== *)
theory GameFrames
  imports GamePlay
begin

text \<open>
  What the operations on a live game leave alone, field by field, and what they do to the fields
  they change: the simplification rules of the proofs about games.
\<close>


lemma read_now_frame [simp]:
  "game_id (snd (read_now g)) = game_id g" "session (snd (read_now g)) = session g"
  "revision (snd (read_now g)) = revision g" "position_generation (snd (read_now g)) = position_generation g"
  "next_engine_request (snd (read_now g)) = next_engine_request g" "config (snd (read_now g)) = config g"
  "initial_fen (snd (read_now g)) = initial_fen g" "root_position (snd (read_now g)) = root_position g"
  "moves (snd (read_now g)) = moves g" "position (snd (read_now g)) = position g"
  "position_history (snd (read_now g)) = position_history g" "status (snd (read_now g)) = status g"
  "terminal_attempt_claimed (snd (read_now g)) = terminal_attempt_claimed g"
  "emission_diagnostics (snd (read_now g)) = emission_diagnostics g" "clock (snd (read_now g)) = clock g"
  "white_engine (snd (read_now g)) = white_engine g" "black_engine (snd (read_now g)) = black_engine g"
  "move_notify (snd (read_now g)) = move_notify g" "engine_thinking (snd (read_now g)) = engine_thinking g"
  "active_request (snd (read_now g)) = active_request g" "polyglot_book (snd (read_now g)) = polyglot_book g"
  "polyglot_max_ply (snd (read_now g)) = polyglot_max_ply g"
  "cancelled_tokens (snd (read_now g)) = cancelled_tokens g" "fresh_token (snd (read_now g)) = fresh_token g"
  "emit_faults (snd (read_now g)) = emit_faults g" "attempted (snd (read_now g)) = attempted g"
  by (simp_all add: read_now_def split: list.split)

lemma reset_tick_frame [simp]:
  "game_id (reset_tick c g) = game_id g" "session (reset_tick c g) = session g"
  "revision (reset_tick c g) = revision g" "position_generation (reset_tick c g) = position_generation g"
  "next_engine_request (reset_tick c g) = next_engine_request g" "config (reset_tick c g) = config g"
  "initial_fen (reset_tick c g) = initial_fen g" "root_position (reset_tick c g) = root_position g"
  "moves (reset_tick c g) = moves g" "position (reset_tick c g) = position g"
  "position_history (reset_tick c g) = position_history g" "status (reset_tick c g) = status g"
  "terminal_attempt_claimed (reset_tick c g) = terminal_attempt_claimed g"
  "emission_diagnostics (reset_tick c g) = emission_diagnostics g"
  "white_engine (reset_tick c g) = white_engine g" "black_engine (reset_tick c g) = black_engine g"
  "move_notify (reset_tick c g) = move_notify g" "engine_thinking (reset_tick c g) = engine_thinking g"
  "active_request (reset_tick c g) = active_request g" "polyglot_book (reset_tick c g) = polyglot_book g"
  "polyglot_max_ply (reset_tick c g) = polyglot_max_ply g"
  "cancelled_tokens (reset_tick c g) = cancelled_tokens g" "fresh_token (reset_tick c g) = fresh_token g"
  "emit_faults (reset_tick c g) = emit_faults g" "attempted (reset_tick c g) = attempted g"
  by (simp_all add: reset_tick_def case_prod_unfold Let_def)

lemma settle_frame [simp]:
  "game_id (snd (settle_active_clock R g)) = game_id g" "session (snd (settle_active_clock R g)) = session g"
  "revision (snd (settle_active_clock R g)) = revision g"
  "position_generation (snd (settle_active_clock R g)) = position_generation g"
  "next_engine_request (snd (settle_active_clock R g)) = next_engine_request g"
  "config (snd (settle_active_clock R g)) = config g"
  "initial_fen (snd (settle_active_clock R g)) = initial_fen g"
  "root_position (snd (settle_active_clock R g)) = root_position g"
  "moves (snd (settle_active_clock R g)) = moves g" "position (snd (settle_active_clock R g)) = position g"
  "position_history (snd (settle_active_clock R g)) = position_history g"
  "status (snd (settle_active_clock R g)) = status g"
  "terminal_attempt_claimed (snd (settle_active_clock R g)) = terminal_attempt_claimed g"
  "emission_diagnostics (snd (settle_active_clock R g)) = emission_diagnostics g"
  "white_engine (snd (settle_active_clock R g)) = white_engine g"
  "black_engine (snd (settle_active_clock R g)) = black_engine g"
  "move_notify (snd (settle_active_clock R g)) = move_notify g"
  "engine_thinking (snd (settle_active_clock R g)) = engine_thinking g"
  "active_request (snd (settle_active_clock R g)) = active_request g"
  "polyglot_book (snd (settle_active_clock R g)) = polyglot_book g"
  "polyglot_max_ply (snd (settle_active_clock R g)) = polyglot_max_ply g"
  "cancelled_tokens (snd (settle_active_clock R g)) = cancelled_tokens g"
  "fresh_token (snd (settle_active_clock R g)) = fresh_token g"
  "emit_faults (snd (settle_active_clock R g)) = emit_faults g"
  "attempted (snd (settle_active_clock R g)) = attempted g"
  by (simp_all add: settle_active_clock_def case_prod_unfold Let_def split: option.split)

lemma times_frame [simp]:
  "game_id (snd (get_current_times R g)) = game_id g" "session (snd (get_current_times R g)) = session g"
  "revision (snd (get_current_times R g)) = revision g"
  "position_generation (snd (get_current_times R g)) = position_generation g"
  "next_engine_request (snd (get_current_times R g)) = next_engine_request g"
  "config (snd (get_current_times R g)) = config g" "initial_fen (snd (get_current_times R g)) = initial_fen g"
  "root_position (snd (get_current_times R g)) = root_position g"
  "moves (snd (get_current_times R g)) = moves g" "position (snd (get_current_times R g)) = position g"
  "position_history (snd (get_current_times R g)) = position_history g"
  "status (snd (get_current_times R g)) = status g"
  "terminal_attempt_claimed (snd (get_current_times R g)) = terminal_attempt_claimed g"
  "emission_diagnostics (snd (get_current_times R g)) = emission_diagnostics g"
  "clock (snd (get_current_times R g)) = clock g" "white_engine (snd (get_current_times R g)) = white_engine g"
  "black_engine (snd (get_current_times R g)) = black_engine g"
  "move_notify (snd (get_current_times R g)) = move_notify g"
  "engine_thinking (snd (get_current_times R g)) = engine_thinking g"
  "active_request (snd (get_current_times R g)) = active_request g"
  "polyglot_book (snd (get_current_times R g)) = polyglot_book g"
  "polyglot_max_ply (snd (get_current_times R g)) = polyglot_max_ply g"
  "cancelled_tokens (snd (get_current_times R g)) = cancelled_tokens g"
  "fresh_token (snd (get_current_times R g)) = fresh_token g"
  "emit_faults (snd (get_current_times R g)) = emit_faults g"
  "attempted (snd (get_current_times R g)) = attempted g"
  by (simp_all add: get_current_times_def case_prod_unfold Let_def split: option.split)

lemma cancel_request_frame [simp]:
  "game_id (cancel_engine_request g) = game_id g" "session (cancel_engine_request g) = session g"
  "revision (cancel_engine_request g) = revision g"
  "position_generation (cancel_engine_request g) = position_generation g"
  "next_engine_request (cancel_engine_request g) = next_engine_request g"
  "config (cancel_engine_request g) = config g" "initial_fen (cancel_engine_request g) = initial_fen g"
  "root_position (cancel_engine_request g) = root_position g" "moves (cancel_engine_request g) = moves g"
  "position (cancel_engine_request g) = position g"
  "position_history (cancel_engine_request g) = position_history g"
  "status (cancel_engine_request g) = status g"
  "terminal_attempt_claimed (cancel_engine_request g) = terminal_attempt_claimed g"
  "emission_diagnostics (cancel_engine_request g) = emission_diagnostics g"
  "clock (cancel_engine_request g) = clock g" "white_engine (cancel_engine_request g) = white_engine g"
  "black_engine (cancel_engine_request g) = black_engine g"
  "move_notify (cancel_engine_request g) = move_notify g"
  "polyglot_book (cancel_engine_request g) = polyglot_book g"
  "polyglot_max_ply (cancel_engine_request g) = polyglot_max_ply g" "wall (cancel_engine_request g) = wall g"
  "delays (cancel_engine_request g) = delays g" "fresh_token (cancel_engine_request g) = fresh_token g"
  "emit_faults (cancel_engine_request g) = emit_faults g" "attempted (cancel_engine_request g) = attempted g"
  by (simp_all add: cancel_engine_request_def Let_def split: option.split)

lemma advance_frame [simp]:
  "game_id (advance_position_generation g) = game_id g" "session (advance_position_generation g) = session g"
  "revision (advance_position_generation g) = revision g"
  "next_engine_request (advance_position_generation g) = next_engine_request g"
  "config (advance_position_generation g) = config g"
  "initial_fen (advance_position_generation g) = initial_fen g"
  "root_position (advance_position_generation g) = root_position g"
  "moves (advance_position_generation g) = moves g" "position (advance_position_generation g) = position g"
  "position_history (advance_position_generation g) = position_history g"
  "status (advance_position_generation g) = status g"
  "terminal_attempt_claimed (advance_position_generation g) = terminal_attempt_claimed g"
  "emission_diagnostics (advance_position_generation g) = emission_diagnostics g"
  "clock (advance_position_generation g) = clock g"
  "white_engine (advance_position_generation g) = white_engine g"
  "black_engine (advance_position_generation g) = black_engine g"
  "move_notify (advance_position_generation g) = move_notify g"
  "polyglot_book (advance_position_generation g) = polyglot_book g"
  "polyglot_max_ply (advance_position_generation g) = polyglot_max_ply g"
  "wall (advance_position_generation g) = wall g" "delays (advance_position_generation g) = delays g"
  "fresh_token (advance_position_generation g) = fresh_token g"
  "emit_faults (advance_position_generation g) = emit_faults g"
  "attempted (advance_position_generation g) = attempted g"
  by (simp_all add: advance_position_generation_def)

lemma bump_frame [simp]:
  "game_id (bump_revision g) = game_id g" "session (bump_revision g) = session g"
  "position_generation (bump_revision g) = position_generation g"
  "next_engine_request (bump_revision g) = next_engine_request g" "config (bump_revision g) = config g"
  "initial_fen (bump_revision g) = initial_fen g" "root_position (bump_revision g) = root_position g"
  "moves (bump_revision g) = moves g" "position (bump_revision g) = position g"
  "position_history (bump_revision g) = position_history g" "status (bump_revision g) = status g"
  "terminal_attempt_claimed (bump_revision g) = terminal_attempt_claimed g"
  "emission_diagnostics (bump_revision g) = emission_diagnostics g" "clock (bump_revision g) = clock g"
  "white_engine (bump_revision g) = white_engine g" "black_engine (bump_revision g) = black_engine g"
  "move_notify (bump_revision g) = move_notify g" "engine_thinking (bump_revision g) = engine_thinking g"
  "active_request (bump_revision g) = active_request g" "polyglot_book (bump_revision g) = polyglot_book g"
  "polyglot_max_ply (bump_revision g) = polyglot_max_ply g" "wall (bump_revision g) = wall g"
  "delays (bump_revision g) = delays g" "cancelled_tokens (bump_revision g) = cancelled_tokens g"
  "fresh_token (bump_revision g) = fresh_token g" "emit_faults (bump_revision g) = emit_faults g"
  "attempted (bump_revision g) = attempted g"
  by (simp_all add: bump_revision_def)

lemma end_game_frame [simp]:
  "game_id (snd (end_game_with R r g)) = game_id g" "session (snd (end_game_with R r g)) = session g"
  "next_engine_request (snd (end_game_with R r g)) = next_engine_request g"
  "config (snd (end_game_with R r g)) = config g" "initial_fen (snd (end_game_with R r g)) = initial_fen g"
  "root_position (snd (end_game_with R r g)) = root_position g" "moves (snd (end_game_with R r g)) = moves g"
  "position (snd (end_game_with R r g)) = position g" "position_history (snd (end_game_with R r g)) = position_history g"
  "emission_diagnostics (snd (end_game_with R r g)) = emission_diagnostics g"
  "white_engine (snd (end_game_with R r g)) = white_engine g" "black_engine (snd (end_game_with R r g)) = black_engine g"
  "move_notify (snd (end_game_with R r g)) = move_notify g" "polyglot_book (snd (end_game_with R r g)) = polyglot_book g"
  "polyglot_max_ply (snd (end_game_with R r g)) = polyglot_max_ply g"
  "fresh_token (snd (end_game_with R r g)) = fresh_token g" "emit_faults (snd (end_game_with R r g)) = emit_faults g"
  "attempted (snd (end_game_with R r g)) = attempted g"
  by (simp_all add: end_game_with_def case_prod_unfold Let_def split: option.split)

lemma check_end_frame [simp]:
  "game_id (check_game_end R g) = game_id g" "session (check_game_end R g) = session g"
  "next_engine_request (check_game_end R g) = next_engine_request g" "config (check_game_end R g) = config g"
  "initial_fen (check_game_end R g) = initial_fen g" "root_position (check_game_end R g) = root_position g"
  "moves (check_game_end R g) = moves g" "position (check_game_end R g) = position g"
  "position_history (check_game_end R g) = position_history g"
  "emission_diagnostics (check_game_end R g) = emission_diagnostics g"
  "white_engine (check_game_end R g) = white_engine g" "black_engine (check_game_end R g) = black_engine g"
  "move_notify (check_game_end R g) = move_notify g" "polyglot_book (check_game_end R g) = polyglot_book g"
  "polyglot_max_ply (check_game_end R g) = polyglot_max_ply g"
  "fresh_token (check_game_end R g) = fresh_token g" "emit_faults (check_game_end R g) = emit_faults g"
  "attempted (check_game_end R g) = attempted g"
  by (simp_all add: check_game_end_def split: option.split)

lemma play_board_frame [simp]:
  "game_id (play_on_board R mv g) = game_id g" "session (play_on_board R mv g) = session g"
  "revision (play_on_board R mv g) = revision g"
  "next_engine_request (play_on_board R mv g) = next_engine_request g"
  "config (play_on_board R mv g) = config g" "initial_fen (play_on_board R mv g) = initial_fen g"
  "root_position (play_on_board R mv g) = root_position g" "moves (play_on_board R mv g) = moves g"
  "status (play_on_board R mv g) = status g"
  "terminal_attempt_claimed (play_on_board R mv g) = terminal_attempt_claimed g"
  "emission_diagnostics (play_on_board R mv g) = emission_diagnostics g"
  "clock (play_on_board R mv g) = clock g" "white_engine (play_on_board R mv g) = white_engine g"
  "black_engine (play_on_board R mv g) = black_engine g" "move_notify (play_on_board R mv g) = move_notify g"
  "polyglot_book (play_on_board R mv g) = polyglot_book g"
  "polyglot_max_ply (play_on_board R mv g) = polyglot_max_ply g" "wall (play_on_board R mv g) = wall g"
  "delays (play_on_board R mv g) = delays g" "fresh_token (play_on_board R mv g) = fresh_token g"
  "emit_faults (play_on_board R mv g) = emit_faults g" "attempted (play_on_board R mv g) = attempted g"
  by (simp_all add: play_on_board_def Let_def)

lemma emission_frame [simp]:
  "game_id (snd (attempt_event_emission kind ev g)) = game_id g"
  "session (snd (attempt_event_emission kind ev g)) = session g"
  "revision (snd (attempt_event_emission kind ev g)) = revision g"
  "position_generation (snd (attempt_event_emission kind ev g)) = position_generation g"
  "next_engine_request (snd (attempt_event_emission kind ev g)) = next_engine_request g"
  "config (snd (attempt_event_emission kind ev g)) = config g"
  "initial_fen (snd (attempt_event_emission kind ev g)) = initial_fen g"
  "root_position (snd (attempt_event_emission kind ev g)) = root_position g"
  "moves (snd (attempt_event_emission kind ev g)) = moves g"
  "position (snd (attempt_event_emission kind ev g)) = position g"
  "position_history (snd (attempt_event_emission kind ev g)) = position_history g"
  "status (snd (attempt_event_emission kind ev g)) = status g"
  "terminal_attempt_claimed (snd (attempt_event_emission kind ev g)) = terminal_attempt_claimed g"
  "clock (snd (attempt_event_emission kind ev g)) = clock g"
  "white_engine (snd (attempt_event_emission kind ev g)) = white_engine g"
  "black_engine (snd (attempt_event_emission kind ev g)) = black_engine g"
  "move_notify (snd (attempt_event_emission kind ev g)) = move_notify g"
  "engine_thinking (snd (attempt_event_emission kind ev g)) = engine_thinking g"
  "active_request (snd (attempt_event_emission kind ev g)) = active_request g"
  "polyglot_book (snd (attempt_event_emission kind ev g)) = polyglot_book g"
  "polyglot_max_ply (snd (attempt_event_emission kind ev g)) = polyglot_max_ply g"
  "wall (snd (attempt_event_emission kind ev g)) = wall g"
  "delays (snd (attempt_event_emission kind ev g)) = delays g"
  "cancelled_tokens (snd (attempt_event_emission kind ev g)) = cancelled_tokens g"
  "fresh_token (snd (attempt_event_emission kind ev g)) = fresh_token g"
  by (simp_all add: attempt_event_emission_def Let_def split: list.split option.split)

lemma terminal_frame [simp]:
  "game_id (snd (attempt_terminal_event_emission g)) = game_id g"
  "session (snd (attempt_terminal_event_emission g)) = session g"
  "revision (snd (attempt_terminal_event_emission g)) = revision g"
  "position_generation (snd (attempt_terminal_event_emission g)) = position_generation g"
  "next_engine_request (snd (attempt_terminal_event_emission g)) = next_engine_request g"
  "config (snd (attempt_terminal_event_emission g)) = config g"
  "initial_fen (snd (attempt_terminal_event_emission g)) = initial_fen g"
  "root_position (snd (attempt_terminal_event_emission g)) = root_position g"
  "moves (snd (attempt_terminal_event_emission g)) = moves g"
  "position (snd (attempt_terminal_event_emission g)) = position g"
  "position_history (snd (attempt_terminal_event_emission g)) = position_history g"
  "status (snd (attempt_terminal_event_emission g)) = status g"
  "clock (snd (attempt_terminal_event_emission g)) = clock g"
  "white_engine (snd (attempt_terminal_event_emission g)) = white_engine g"
  "black_engine (snd (attempt_terminal_event_emission g)) = black_engine g"
  "move_notify (snd (attempt_terminal_event_emission g)) = move_notify g"
  "engine_thinking (snd (attempt_terminal_event_emission g)) = engine_thinking g"
  "active_request (snd (attempt_terminal_event_emission g)) = active_request g"
  "polyglot_book (snd (attempt_terminal_event_emission g)) = polyglot_book g"
  "polyglot_max_ply (snd (attempt_terminal_event_emission g)) = polyglot_max_ply g"
  "wall (snd (attempt_terminal_event_emission g)) = wall g"
  "delays (snd (attempt_terminal_event_emission g)) = delays g"
  "cancelled_tokens (snd (attempt_terminal_event_emission g)) = cancelled_tokens g"
  "fresh_token (snd (attempt_terminal_event_emission g)) = fresh_token g"
  by (simp_all add: attempt_terminal_event_emission_def Let_def split: game_status.split)

lemma emit_move_frame [simp]:
  "game_id (emit_move R fen g) = game_id g" "session (emit_move R fen g) = session g"
  "revision (emit_move R fen g) = revision g" "position_generation (emit_move R fen g) = position_generation g"
  "next_engine_request (emit_move R fen g) = next_engine_request g" "config (emit_move R fen g) = config g"
  "initial_fen (emit_move R fen g) = initial_fen g" "root_position (emit_move R fen g) = root_position g"
  "moves (emit_move R fen g) = moves g" "position (emit_move R fen g) = position g"
  "position_history (emit_move R fen g) = position_history g" "status (emit_move R fen g) = status g"
  "terminal_attempt_claimed (emit_move R fen g) = terminal_attempt_claimed g"
  "clock (emit_move R fen g) = clock g" "white_engine (emit_move R fen g) = white_engine g"
  "black_engine (emit_move R fen g) = black_engine g" "move_notify (emit_move R fen g) = move_notify g"
  "engine_thinking (emit_move R fen g) = engine_thinking g"
  "active_request (emit_move R fen g) = active_request g" "polyglot_book (emit_move R fen g) = polyglot_book g"
  "polyglot_max_ply (emit_move R fen g) = polyglot_max_ply g"
  "cancelled_tokens (emit_move R fen g) = cancelled_tokens g" "fresh_token (emit_move R fen g) = fresh_token g"
  by (simp_all add: emit_move_def case_prod_unfold Let_def)

lemma get_state_frame [simp]:
  "game_id (snd (get_state R g)) = game_id g" "session (snd (get_state R g)) = session g"
  "revision (snd (get_state R g)) = revision g"
  "position_generation (snd (get_state R g)) = position_generation g"
  "next_engine_request (snd (get_state R g)) = next_engine_request g" "config (snd (get_state R g)) = config g"
  "initial_fen (snd (get_state R g)) = initial_fen g" "root_position (snd (get_state R g)) = root_position g"
  "moves (snd (get_state R g)) = moves g" "position (snd (get_state R g)) = position g"
  "position_history (snd (get_state R g)) = position_history g" "status (snd (get_state R g)) = status g"
  "terminal_attempt_claimed (snd (get_state R g)) = terminal_attempt_claimed g"
  "emission_diagnostics (snd (get_state R g)) = emission_diagnostics g" "clock (snd (get_state R g)) = clock g"
  "white_engine (snd (get_state R g)) = white_engine g" "black_engine (snd (get_state R g)) = black_engine g"
  "move_notify (snd (get_state R g)) = move_notify g"
  "engine_thinking (snd (get_state R g)) = engine_thinking g"
  "active_request (snd (get_state R g)) = active_request g"
  "polyglot_book (snd (get_state R g)) = polyglot_book g"
  "polyglot_max_ply (snd (get_state R g)) = polyglot_max_ply g"
  "cancelled_tokens (snd (get_state R g)) = cancelled_tokens g"
  "fresh_token (snd (get_state R g)) = fresh_token g" "emit_faults (snd (get_state R g)) = emit_faults g"
  "attempted (snd (get_state R g)) = attempted g"
  by (simp_all add: get_state_def case_prod_unfold Let_def)

lemma notify_frame [simp]:
  "game_id (notify_loop g) = game_id g" "session (notify_loop g) = session g"
  "revision (notify_loop g) = revision g" "position_generation (notify_loop g) = position_generation g"
  "next_engine_request (notify_loop g) = next_engine_request g" "config (notify_loop g) = config g"
  "initial_fen (notify_loop g) = initial_fen g" "root_position (notify_loop g) = root_position g"
  "moves (notify_loop g) = moves g" "position (notify_loop g) = position g"
  "position_history (notify_loop g) = position_history g" "status (notify_loop g) = status g"
  "terminal_attempt_claimed (notify_loop g) = terminal_attempt_claimed g"
  "emission_diagnostics (notify_loop g) = emission_diagnostics g" "clock (notify_loop g) = clock g"
  "white_engine (notify_loop g) = white_engine g" "black_engine (notify_loop g) = black_engine g"
  "engine_thinking (notify_loop g) = engine_thinking g" "active_request (notify_loop g) = active_request g"
  "polyglot_book (notify_loop g) = polyglot_book g" "polyglot_max_ply (notify_loop g) = polyglot_max_ply g"
  "wall (notify_loop g) = wall g" "delays (notify_loop g) = delays g"
  "cancelled_tokens (notify_loop g) = cancelled_tokens g" "fresh_token (notify_loop g) = fresh_token g"
  "emit_faults (notify_loop g) = emit_faults g" "attempted (notify_loop g) = attempted g"
  by (simp_all add: notify_loop_def)

lemma begin_frame [simp]:
  "game_id (snd (begin_engine_request R g)) = game_id g" "session (snd (begin_engine_request R g)) = session g"
  "revision (snd (begin_engine_request R g)) = revision g"
  "position_generation (snd (begin_engine_request R g)) = position_generation g"
  "config (snd (begin_engine_request R g)) = config g"
  "initial_fen (snd (begin_engine_request R g)) = initial_fen g"
  "root_position (snd (begin_engine_request R g)) = root_position g"
  "moves (snd (begin_engine_request R g)) = moves g" "position (snd (begin_engine_request R g)) = position g"
  "position_history (snd (begin_engine_request R g)) = position_history g"
  "status (snd (begin_engine_request R g)) = status g"
  "terminal_attempt_claimed (snd (begin_engine_request R g)) = terminal_attempt_claimed g"
  "emission_diagnostics (snd (begin_engine_request R g)) = emission_diagnostics g"
  "clock (snd (begin_engine_request R g)) = clock g"
  "white_engine (snd (begin_engine_request R g)) = white_engine g"
  "black_engine (snd (begin_engine_request R g)) = black_engine g"
  "move_notify (snd (begin_engine_request R g)) = move_notify g"
  "polyglot_book (snd (begin_engine_request R g)) = polyglot_book g"
  "polyglot_max_ply (snd (begin_engine_request R g)) = polyglot_max_ply g"
  "wall (snd (begin_engine_request R g)) = wall g" "delays (snd (begin_engine_request R g)) = delays g"
  "cancelled_tokens (snd (begin_engine_request R g)) = cancelled_tokens g"
  "emit_faults (snd (begin_engine_request R g)) = emit_faults g"
  "attempted (snd (begin_engine_request R g)) = attempted g"
  by (simp_all add: begin_engine_request_def Let_def)

lemma register_frame [simp]:
  "game_id (snd (register_engine_request_id ctx rid g)) = game_id g"
  "session (snd (register_engine_request_id ctx rid g)) = session g"
  "revision (snd (register_engine_request_id ctx rid g)) = revision g"
  "position_generation (snd (register_engine_request_id ctx rid g)) = position_generation g"
  "next_engine_request (snd (register_engine_request_id ctx rid g)) = next_engine_request g"
  "config (snd (register_engine_request_id ctx rid g)) = config g"
  "initial_fen (snd (register_engine_request_id ctx rid g)) = initial_fen g"
  "root_position (snd (register_engine_request_id ctx rid g)) = root_position g"
  "moves (snd (register_engine_request_id ctx rid g)) = moves g"
  "position (snd (register_engine_request_id ctx rid g)) = position g"
  "position_history (snd (register_engine_request_id ctx rid g)) = position_history g"
  "status (snd (register_engine_request_id ctx rid g)) = status g"
  "terminal_attempt_claimed (snd (register_engine_request_id ctx rid g)) = terminal_attempt_claimed g"
  "emission_diagnostics (snd (register_engine_request_id ctx rid g)) = emission_diagnostics g"
  "clock (snd (register_engine_request_id ctx rid g)) = clock g"
  "white_engine (snd (register_engine_request_id ctx rid g)) = white_engine g"
  "black_engine (snd (register_engine_request_id ctx rid g)) = black_engine g"
  "move_notify (snd (register_engine_request_id ctx rid g)) = move_notify g"
  "engine_thinking (snd (register_engine_request_id ctx rid g)) = engine_thinking g"
  "polyglot_book (snd (register_engine_request_id ctx rid g)) = polyglot_book g"
  "polyglot_max_ply (snd (register_engine_request_id ctx rid g)) = polyglot_max_ply g"
  "wall (snd (register_engine_request_id ctx rid g)) = wall g"
  "delays (snd (register_engine_request_id ctx rid g)) = delays g"
  "cancelled_tokens (snd (register_engine_request_id ctx rid g)) = cancelled_tokens g"
  "fresh_token (snd (register_engine_request_id ctx rid g)) = fresh_token g"
  "emit_faults (snd (register_engine_request_id ctx rid g)) = emit_faults g"
  "attempted (snd (register_engine_request_id ctx rid g)) = attempted g"
  by (simp_all add: register_engine_request_id_def Let_def split: option.split)

lemma search_frame [simp]:
  "game_id (snd (engine_search_request R g)) = game_id g"
  "session (snd (engine_search_request R g)) = session g"
  "revision (snd (engine_search_request R g)) = revision g"
  "position_generation (snd (engine_search_request R g)) = position_generation g"
  "next_engine_request (snd (engine_search_request R g)) = next_engine_request g"
  "config (snd (engine_search_request R g)) = config g"
  "initial_fen (snd (engine_search_request R g)) = initial_fen g"
  "root_position (snd (engine_search_request R g)) = root_position g"
  "moves (snd (engine_search_request R g)) = moves g" "position (snd (engine_search_request R g)) = position g"
  "position_history (snd (engine_search_request R g)) = position_history g"
  "status (snd (engine_search_request R g)) = status g"
  "terminal_attempt_claimed (snd (engine_search_request R g)) = terminal_attempt_claimed g"
  "emission_diagnostics (snd (engine_search_request R g)) = emission_diagnostics g"
  "clock (snd (engine_search_request R g)) = clock g"
  "white_engine (snd (engine_search_request R g)) = white_engine g"
  "black_engine (snd (engine_search_request R g)) = black_engine g"
  "move_notify (snd (engine_search_request R g)) = move_notify g"
  "engine_thinking (snd (engine_search_request R g)) = engine_thinking g"
  "active_request (snd (engine_search_request R g)) = active_request g"
  "polyglot_book (snd (engine_search_request R g)) = polyglot_book g"
  "polyglot_max_ply (snd (engine_search_request R g)) = polyglot_max_ply g"
  "cancelled_tokens (snd (engine_search_request R g)) = cancelled_tokens g"
  "fresh_token (snd (engine_search_request R g)) = fresh_token g"
  "emit_faults (snd (engine_search_request R g)) = emit_faults g"
  "attempted (snd (engine_search_request R g)) = attempted g"
  by (simp_all add: engine_search_request_def Let_def case_prod_unfold split: option.split player_config.split)

lemma reset_clock_frame [simp]:
  "game_id (reset_clock g) = game_id g" "session (reset_clock g) = session g"
  "revision (reset_clock g) = revision g" "position_generation (reset_clock g) = position_generation g"
  "next_engine_request (reset_clock g) = next_engine_request g" "config (reset_clock g) = config g"
  "initial_fen (reset_clock g) = initial_fen g" "root_position (reset_clock g) = root_position g"
  "moves (reset_clock g) = moves g" "position (reset_clock g) = position g"
  "position_history (reset_clock g) = position_history g" "status (reset_clock g) = status g"
  "terminal_attempt_claimed (reset_clock g) = terminal_attempt_claimed g"
  "emission_diagnostics (reset_clock g) = emission_diagnostics g"
  "white_engine (reset_clock g) = white_engine g" "black_engine (reset_clock g) = black_engine g"
  "move_notify (reset_clock g) = move_notify g" "engine_thinking (reset_clock g) = engine_thinking g"
  "active_request (reset_clock g) = active_request g" "polyglot_book (reset_clock g) = polyglot_book g"
  "polyglot_max_ply (reset_clock g) = polyglot_max_ply g"
  "cancelled_tokens (reset_clock g) = cancelled_tokens g" "fresh_token (reset_clock g) = fresh_token g"
  "emit_faults (reset_clock g) = emit_faults g" "attempted (reset_clock g) = attempted g"
  by (simp_all add: reset_clock_def split: option.split)

lemma read_now_wall [simp]: "fst (read_now g) = wall (snd (read_now g))" "wall g \<le> wall (snd (read_now g))"
  by (simp_all add: read_now_def split: list.split)

lemma reset_tick_clock [simp]:
  "clock (reset_tick c g) = Some (c\<lparr>last_tick := wall (reset_tick c g)\<rparr>)" "wall g \<le> wall (reset_tick c g)"
  by (simp_all add: reset_tick_def case_prod_unfold Let_def)

lemma emission_attempted [simp]:
  "attempted (snd (attempt_event_emission kind ev g)) = attempted g @ [ev]"
  by (simp add: attempt_event_emission_def Let_def split: list.split option.split)

lemma emit_move_attempted [simp]:
  "attempted (emit_move R fen g) = attempted g @
     [GameMoveEvent (game_id g) (session g) (move_event_revision g) (moves g) fen
        (fst (fst (get_current_times R g))) (snd (fst (get_current_times R g)))]"
  by (simp add: emit_move_def case_prod_unfold Let_def move_event_revision_def split: game_status.split)

lemma terminal_idle [simp]:
  "status g = Playing \<Longrightarrow> attempt_terminal_event_emission g = (False, g)"
  "terminal_attempt_claimed g \<Longrightarrow> attempt_terminal_event_emission g = (False, g)"
  by (simp_all add: attempt_terminal_event_emission_def split: game_status.split)

lemma terminal_emits:
  assumes "status g = Finished r" "\<not> terminal_attempt_claimed g"
  shows "fst (attempt_terminal_event_emission g)"
    and "terminal_attempt_claimed (snd (attempt_terminal_event_emission g))"
    and "attempted (snd (attempt_terminal_event_emission g)) =
      attempted g @ [GameOverEvent (game_id g) (session g) (revision g) r (moves g)]"
  using assms by (simp_all add: attempt_terminal_event_emission_def Let_def)

lemma cancel_request_fields [simp]:
  "active_request (cancel_engine_request g) = None" "\<not> engine_thinking (cancel_engine_request g)"
  "set (cancelled_tokens g) \<subseteq> set (cancelled_tokens (cancel_engine_request g))"
  by (auto simp: cancel_engine_request_def Let_def split: option.split)

lemma advance_fields [simp]:
  "active_request (advance_position_generation g) = None" "\<not> engine_thinking (advance_position_generation g)"
  "position_generation (advance_position_generation g) = sat_u64 (position_generation g + 1)"
  by (simp_all add: advance_position_generation_def)

lemma play_board_fields [simp]:
  "position (play_on_board R mv g) = play_move R (position g) mv"
  "position_history (play_on_board R mv g) =
     count_key (position_key R (play_move R (position g) mv)) (position_history g)"
  "active_request (play_on_board R mv g) = None" "\<not> engine_thinking (play_on_board R mv g)"
  by (simp_all add: play_on_board_def Let_def)

lemma bump_fields [simp]: "revision (bump_revision g) = sat_u64 (revision g + 1)"
  by (simp add: bump_revision_def)

lemma end_game_idle [simp]: "status g \<noteq> Playing \<Longrightarrow> end_game_with R r g = (False, g)"
  by (simp add: end_game_with_def)

lemma end_game_playing [simp]:
  assumes "status g = Playing"
  shows "fst (end_game_with R r g)" "status (snd (end_game_with R r g)) = Finished r"
    "revision (snd (end_game_with R r g)) = sat_u64 (revision g + 1)"
    "\<not> terminal_attempt_claimed (snd (end_game_with R r g))"
    "active_request (snd (end_game_with R r g)) = None" "\<not> engine_thinking (snd (end_game_with R r g))"
  using assms by (simp_all add: end_game_with_def case_prod_unfold Let_def split: option.split)

text \<open>How a game ends by the rules.\<close>

lemma check_end_cases:
  assumes "status g = Playing"
  obtains (on) "game_end R (position g) (position_history g) = None" "check_game_end R g = g"
    | (over) r where "game_end R (position g) (position_history g) = Some r"
        "check_game_end R g = snd (end_game_with R r g)"
  by (cases "game_end R (position g) (position_history g)") (simp_all add: check_game_end_def that)

end
