(* ===== verification/GameSteps.thy ===== *)
theory GameSteps
  imports GameFrames
begin

text \<open>
  The life of a game as a sequence of steps. A step is what one holder of the write lock does:
  a handler of the manager, the loop, or a task of an engine; the environment moves the process
  clock and decides which emissions fail. A task may present any request context and any text.
\<close>

datatype game_input =
    HumanMove string nat
  | TakeBack
  | Resign string
  | ClockTick
  | BeginRequest
  | RegisterRequest engine_request_context nat
  | BookMove bool engine_request_context color string
  | EngineMove bool engine_request_context nat color string
  | SearchRequest
  | TaskFailed "cancellation option" game_interruption_reason "engine_terminal_snapshot option"
  | StartEmission
  | ReadState
  | StopRequested
  | Environment "nat list" "tauri_error option list"

fun game_step :: "('p, 'm, 'u, 's, 'k, 'e) chess_rules \<Rightarrow> game_input \<Rightarrow> 'p live_game \<Rightarrow> 'p live_game" where
  "game_step R (HumanMove uci ply) g = snd (make_move_locked R uci ply g)"
| "game_step R TakeBack g = snd (take_back_locked R g)"
| "game_step R (Resign side) g = snd (resign_locked R side g)"
| "game_step R ClockTick g = snd (clock_tick R g)"
| "game_step R BeginRequest g = snd (begin_engine_request R g)"
| "game_step R (RegisterRequest ctx rid) g = snd (register_engine_request_id ctx rid g)"
| "game_step R (BookMove current ctx turn uci) g = snd (commit_book_move R current ctx turn uci g)"
| "game_step R (EngineMove current ctx rid turn uci) g = snd (commit_engine_result R current ctx rid turn uci g)"
| "game_step R SearchRequest g = snd (engine_search_request R g)"
| "game_step R (TaskFailed tk reason snap) g = snd (engine_task_failed R tk reason snap g)"
| "game_step R StartEmission g = snd (attempt_terminal_event_emission g)"
| "game_step R ReadState g = snd (get_state R g)"
| "game_step R StopRequested g = cancel_engine_request g"
| "game_step R (Environment ds fs) g = g\<lparr>delays := ds, emit_faults := fs\<rparr>"

text \<open>What \<^verbatim>\<open>start_game\<close> installs in a new controller before the game is published.\<close>

definition install_controller ::
  "polyglot_book option \<Rightarrow> nat \<Rightarrow> registered_game_engine option \<Rightarrow> registered_game_engine option
     \<Rightarrow> 'p live_game \<Rightarrow> 'p live_game" where
  "install_controller book max_ply white black g =
     (let g = reset_clock (g\<lparr>polyglot_book := book, polyglot_max_ply := max_ply,
                             white_engine := white, black_engine := black\<rparr>)
      in g\<lparr>move_notify := Some False\<rparr>)"

text \<open>The requests issued so far, each with the position and the moves it was issued for.\<close>

type_synonym 'p issued = "(engine_request_context \<times> 'p \<times> game_move list) list"

definition issue ::
  "('p, 'm, 'u, 's, 'k, 'e) chess_rules \<Rightarrow> game_input \<Rightarrow> 'p live_game \<Rightarrow> 'p issued" where
  "issue R i g =
     (case i of
        BeginRequest \<Rightarrow>
          (case fst (begin_engine_request R g) of
             Some ctx \<Rightarrow> [(ctx, position g, moves g)]
           | None \<Rightarrow> [])
      | _ \<Rightarrow> [])"

inductive reached ::
  "('p, 'm, 'u, 's, 'k, 'e) chess_rules \<Rightarrow> 'p issued \<Rightarrow> 'p live_game \<Rightarrow> bool" for R where
  started: "game_controller_new R gid sess cfg now ds = Inr g \<Longrightarrow>
     reached R [] (install_controller book max_ply white black g)"
| step: "reached R issued g \<Longrightarrow> reached R (issue R i g @ issued) (game_step R i g)"

lemma new_game:
  "game_controller_new R gid sess cfg now ds = Inr g \<Longrightarrow>
     validate_time_controls cfg = Inr () \<and>
     (\<exists>fen p. play_initial R (config_moves cfg) (check_game_end R (fresh_game R gid sess cfg fen p now ds)) = Inr g)"
  by (auto simp: game_controller_new_def Let_def split: sum.splits)

subsection \<open>The board\<close>

text \<open>
  Playing texts from a position: the position they lead to, the counts of the positions on the
  way, and the FEN after each.
\<close>

fun board ::
  "('p, 'm, 'u, 's, 'k, 'e) chess_rules \<Rightarrow> string list \<Rightarrow> 'p \<Rightarrow> (string \<Rightarrow> nat option)
     \<Rightarrow> ('p \<times> (string \<Rightarrow> nat option) \<times> string list) option" where
  "board R [] p h = Some (p, h, [])"
| "board R (u # us) p h =
     (case uci_move R p u of
        Inl _ \<Rightarrow> None
      | Inr m \<Rightarrow>
          (let q = play_move R p m
           in map_option (\<lambda>(p', h', fens). (p', h', fen_of R q # fens))
                (board R us q (count_key (position_key R q) h))))"

abbreviation first_count :: "('p, 'm, 'u, 's, 'k, 'e) chess_rules \<Rightarrow> 'p \<Rightarrow> (string \<Rightarrow> nat option)" where
  "first_count R p \<equiv> (\<lambda>_. None)(position_key R p := Some 1)"

definition on_board :: "('p, 'm, 'u, 's, 'k, 'e) chess_rules \<Rightarrow> 'p live_game \<Rightarrow> bool" where
  "on_board R g \<longleftrightarrow>
     board R (map mv_uci (moves g)) (root_position g) (first_count R (root_position g))
       = Some (position g, position_history g, map mv_fen_after (moves g))"

definition undecided :: "('p, 'm, 'u, 's, 'k, 'e) chess_rules \<Rightarrow> 'p live_game \<Rightarrow> bool" where
  "undecided R g \<longleftrightarrow> (status g = Playing \<longrightarrow> game_end R (position g) (position_history g) = None)"

lemma board_snoc:
  "board R (us @ [u]) p h =
     (case board R us p h of
        None \<Rightarrow> None
      | Some (q, h', fens) \<Rightarrow>
          (case uci_move R q u of
             Inl _ \<Rightarrow> None
           | Inr m \<Rightarrow> (let q' = play_move R q m
                       in Some (q', count_key (position_key R q') h', fens @ [fen_of R q']))))"
  by (induction us arbitrary: p h) (auto simp: Let_def split: sum.split option.split)

lemma board_fens: "board R us p h = Some (q, h', fens) \<Longrightarrow> length fens = length us"
  by (induction us arbitrary: p h q h' fens) (auto simp: Let_def split: sum.splits)

lemma board_take: "board R us p h = Some (q, h', fens) \<Longrightarrow> \<exists>q' h''. board R (take n us) p h = Some (q', h'', take n fens)"
proof (induction us arbitrary: p h fens n)
  case (Cons u us)
  then show ?case by (cases n) (fastforce simp: Let_def split: sum.splits)+
qed simp

lemma replay_board:
  "(case board R (map mv_uci ms) (position g) (position_history g) of
      Some (p, h, _) \<Rightarrow> replay_moves R ms g = (Inr (), g\<lparr>position := p, position_history := h\<rparr>)
    | None \<Rightarrow> fst (replay_moves R ms g) \<noteq> Inr ())"
proof (induction ms arbitrary: g)
  case (Cons m ms)
  show ?case
  proof (cases "uci_move R (position g) (mv_uci m)")
    case (Inr mv)
    let ?p = "play_move R (position g) mv"
    show ?thesis
      using Cons [of "g\<lparr>position := ?p, position_history := count_key (position_key R ?p) (position_history g)\<rparr>"] Inr
      by (auto simp: Let_def split: option.splits)
  qed simp
qed simp

end
