(* ===== verification/GameBoard.thy ===== *)
theory GameBoard
  imports GameSteps
begin

text \<open>
  In every game that can be reached the board is what the list of moves says, a game in play is
  not decided by the rules, and taking moves back never fails.
\<close>

definition sound :: "('p, 'm, 'u, 's, 'k, 'e) chess_rules \<Rightarrow> 'p live_game \<Rightarrow> bool" where
  "sound R g \<longleftrightarrow> on_board R g \<and> undecided R g"

text \<open>Operations that leave the board alone, or end the game.\<close>

lemma sound_same:
  "sound R g \<Longrightarrow> moves g' = moves g \<Longrightarrow> root_position g' = root_position g \<Longrightarrow> position g' = position g
     \<Longrightarrow> position_history g' = position_history g \<Longrightarrow> (status g' = Playing \<Longrightarrow> status g = Playing) \<Longrightarrow> sound R g'"
  by (auto simp: sound_def on_board_def undecided_def)

lemma status_end_game: "status (snd (end_game_with R r g)) = (if status g = Playing then Finished r else status g)"
  by simp

lemma sound_end_game [simp]: "sound R g \<Longrightarrow> sound R (snd (end_game_with R r g))"
  by (rule sound_same) (simp_all add: status_end_game split: if_splits)

lemma sound_frames [simp]:
  "sound R g \<Longrightarrow> sound R (snd (settle_active_clock R' g))"
  "sound R g \<Longrightarrow> sound R (snd (get_current_times R' g))"
  "sound R g \<Longrightarrow> sound R (cancel_engine_request g)"
  "sound R g \<Longrightarrow> sound R (bump_revision g)"
  "sound R g \<Longrightarrow> sound R (snd (attempt_event_emission kind ev g))"
  "sound R g \<Longrightarrow> sound R (snd (attempt_terminal_event_emission g))"
  "sound R g \<Longrightarrow> sound R (emit_move R' fen g)"
  "sound R g \<Longrightarrow> sound R (snd (get_state R' g))"
  "sound R g \<Longrightarrow> sound R (notify_loop g)"
  by (rule sound_same, assumption, simp_all)+

lemma undecided_check: "undecided R (check_game_end R g)"
proof (cases "status g")
  case Playing
  then show ?thesis by (rule check_end_cases [of g R]) (use Playing in \<open>simp_all add: undecided_def\<close>)
next
  case (Finished r)
  then show ?thesis by (simp add: check_game_end_def undecided_def split: option.split)
qed

lemma on_board_check [simp]: "on_board R (check_game_end R g) = on_board R g"
  by (simp add: on_board_def)

subsection \<open>Moves\<close>

lemma on_board_play:
  assumes "on_board R g" "uci_move R (position g) u = Inr mv" "mv_uci m = u"
    "mv_fen_after m = fen_of R (play_move R (position g) mv)"
    "moves g' = moves g @ [m]" "root_position g' = root_position g"
    "position g' = play_move R (position g) mv"
    "position_history g' = count_key (position_key R (play_move R (position g) mv)) (position_history g)"
  shows "on_board R g'"
  using assms by (simp add: on_board_def board_snoc Let_def)

lemma sound_apply_move: "sound R g \<Longrightarrow> sound R (snd (apply_move R u g))"
proof (cases "status g \<noteq> Playing")
  case False
  assume s: "sound R g"
  obtain r h where settled: "settle_active_clock R g = (r, h)" by (metis prod.collapse)
  have h: "sound R h" "position h = position g"
    using s settled sound_frames(1) [of R g R] settle_frame [of R g] by (simp_all add: settled)
  show ?thesis
  proof (cases r)
    case (Some a)
    then show ?thesis using False settled h(1) by (simp add: apply_move_def)
  next
    case None
    show ?thesis
    proof (cases "uci_move R (position h) u")
      case (Inl e)
      then show ?thesis using False settled h(1) None by (simp add: apply_move_def)
    next
      case (Inr mv)
      let ?k = "play_on_board R mv h"
      let ?l = "case clock ?k of Some c \<Rightarrow> reset_tick (credit_mover R (position ?k) c) ?k | None \<Rightarrow> ?k"
      have l: "moves ?l = moves h" "root_position ?l = root_position h"
        "position ?l = play_move R (position h) mv"
        "position_history ?l = count_key (position_key R (play_move R (position h) mv)) (position_history h)"
        by (simp_all split: option.split)
      from False settled None Inr obtain m where
        m: "snd (apply_move R u g) = check_game_end R (bump_revision (?l\<lparr>moves := moves ?l @ [m]\<rparr>))"
        "mv_uci m = u" "mv_fen_after m = fen_of R (position ?l)"
        by (simp add: apply_move_def Let_def case_prod_unfold)
      have "on_board R (bump_revision (?l\<lparr>moves := moves ?l @ [m]\<rparr>))"
        by (rule on_board_play [where g = h and m = m, OF _ Inr])
          (use h(1) l m in \<open>simp_all add: sound_def\<close>)
      then show ?thesis using m undecided_check by (simp add: sound_def)
    qed
  qed
qed (simp add: apply_move_def)

lemma sound_apply_no_clock: "sound R g \<Longrightarrow> sound R (snd (apply_move_no_clock R u g))"
proof (cases "uci_move R (position g) u")
  case (Inr mv)
  assume s: "sound R g"
  let ?k = "play_on_board R mv g"
  from Inr obtain m where m: "snd (apply_move_no_clock R u g) = check_game_end R (?k\<lparr>moves := moves ?k @ [m]\<rparr>)"
    "mv_uci m = u" "mv_fen_after m = fen_of R (position ?k)"
    by (simp add: apply_move_no_clock_def Let_def case_prod_unfold)
  have "on_board R (?k\<lparr>moves := moves ?k @ [m]\<rparr>)"
    by (rule on_board_play [where g = g and m = m, OF _ Inr]) (use s m in \<open>simp_all add: sound_def\<close>)
  then show ?thesis using m undecided_check by (simp add: sound_def)
qed (simp add: apply_move_no_clock_def)

subsection \<open>Taking back\<close>

lemma butlast_times: "(butlast ^^ n) xs = take (length xs - n) xs"
  by (induction n) (simp_all add: butlast_take)

definition taken_back :: "('p, 'm, 'u, 's, 'k, 'e) chess_rules \<Rightarrow> nat \<Rightarrow> 'p live_game \<Rightarrow> 'p live_game \<Rightarrow> bool" where
  "taken_back R n g g' \<longleftrightarrow>
     moves g' = take (length (moves g) - n) (moves g) \<and> root_position g' = root_position g \<and> sound R g'"

lemma restored_clock_board [simp]:
  "restored_clock (g\<lparr>position := p, position_history := h\<rparr>) c = restored_clock g c"
  by (simp add: restored_clock_def Let_def)

lemma rebuild_result:
  assumes "board R (map mv_uci (moves g)) (root_position g) (first_count R (root_position g))
    = Some (p, h, map mv_fen_after (moves g))"
  shows "\<exists>g'. rebuild_position_from_moves R g = (Inr (), g') \<and> moves g' = moves g
    \<and> root_position g' = root_position g \<and> on_board R g' \<and> position g' = p \<and> position_history g' = h
    \<and> session g' = session g \<and> config g' = config g \<and> revision g' = revision g \<and> status g' = status g
    \<and> attempted g' = attempted g \<and> terminal_attempt_claimed g' = terminal_attempt_claimed g
    \<and> clock g' = map_option (\<lambda>c. (restored_clock g c)\<lparr>last_tick := wall g'\<rparr>) (clock g)
    \<and> position_generation g' = position_generation g \<and> fresh_token g' = fresh_token g
    \<and> next_engine_request g' = next_engine_request g \<and> cancelled_tokens g' = cancelled_tokens g
    \<and> game_id g' = game_id g"
proof -
  let ?g = "g\<lparr>position := root_position g, position_history := first_count R (root_position g)\<rparr>"
  let ?k = "?g\<lparr>position := p, position_history := h\<rparr>"
  have "replay_moves R (moves g) ?g = (Inr (), ?k)"
    using replay_board [of R "moves g" ?g] assms by simp
  then have r: "rebuild_position_from_moves R g =
      (case clock g of Some c \<Rightarrow> (Inr (), reset_tick (restored_clock g c) ?k) | None \<Rightarrow> (Inr (), ?k))"
    by (simp add: rebuild_position_from_moves_def bind_io_def split: option.split)
  show ?thesis using assms by (cases "clock g") (simp_all add: r on_board_def)
qed

lemma take_back_result:
  assumes "on_board R g"
  shows "\<exists>g'. take_back_moves R n g = (Inr (), g') \<and> taken_back R n g g'"
proof -
  let ?g = "(cancel_engine_request g)\<lparr>moves := (butlast ^^ n) (moves g), status := Playing\<rparr>"
  from board_take [OF assms [unfolded on_board_def], of "length (moves g) - n"] obtain p h where
    "board R (map mv_uci (moves ?g)) (root_position ?g) (first_count R (root_position ?g))
      = Some (p, h, map mv_fen_after (moves ?g))"
    by (auto simp: butlast_times take_map)
  from rebuild_result [OF this] obtain g' where
    "rebuild_position_from_moves R ?g = (Inr (), g')" "moves g' = moves ?g" "root_position g' = root_position g" "on_board R g'"
    by auto
  then show ?thesis
    using undecided_check [of R "bump_revision (advance_position_generation g')"]
    by (simp add: take_back_moves_def bind_io_def taken_back_def sound_def on_board_def butlast_times)
qed

subsection \<open>Every step\<close>

lemma sound_human_move: "sound R g \<Longrightarrow> sound R (snd (make_move_locked R u n g))"
  using sound_apply_move [of R g u]
  by (cases "apply_move R u g")
    (auto simp: make_move_locked_def Let_def case_prod_unfold split: sum.split game_status.split)

lemma sound_take_back: "sound R g \<Longrightarrow> sound R (snd (take_back_locked R g))"
proof -
  assume s: "sound R g"
  then obtain n g' where
    "take_back_moves R (if human_color (config g) = Some (side_to_move R (position g)) then 2 else 1) g = (Inr (), g')"
    "sound R g'"
    using take_back_result [of R g] by (metis sound_def taken_back_def)
  with s show ?thesis by (simp add: take_back_locked_def bind_io_def Let_def case_prod_unfold)
qed

lemma sound_resign: "sound R g \<Longrightarrow> sound R (snd (resign_locked R side g))"
  by (simp add: resign_locked_def Let_def case_prod_unfold split: option.split)

lemma sound_tick: "sound R g \<Longrightarrow> sound R (snd (clock_tick R g))"
  using sound_frames(1) [of R g R]
  by (cases "settle_active_clock R g")
    (auto simp: clock_tick_def Let_def case_prod_unfold split: option.split)

lemma sound_commit: "sound R g \<Longrightarrow> sound R (snd (commit_engine_move R allowed turn u g))"
  using sound_apply_move [of R g u]
  by (cases "apply_move R u g") (auto simp: commit_engine_move_def split: sum.split game_status.split)

lemma sound_failed: "sound R g \<Longrightarrow> sound R (snd (engine_task_failed R tk reason snap g))"
proof -
  assume "sound R g"
  then have "sound R (g\<lparr>engine_thinking := False\<rparr>)" by (rule sound_same) simp_all
  with \<open>sound R g\<close> show ?thesis by (simp add: engine_task_failed_def Let_def split: option.split)
qed

lemma sound_requests [simp]:
  "sound R g \<Longrightarrow> sound R (snd (begin_engine_request R' g))"
  "sound R g \<Longrightarrow> sound R (snd (register_engine_request_id ctx rid g))"
  "sound R g \<Longrightarrow> sound R (snd (engine_search_request R' g))"
  "sound R g \<Longrightarrow> sound R (g\<lparr>delays := ds, emit_faults := fs\<rparr>)"
  by (rule sound_same, assumption, simp_all)+

lemma sound_step: "sound R g \<Longrightarrow> sound R (game_step R i g)"
  by (cases i) (simp_all add: sound_human_move sound_take_back sound_resign sound_tick sound_failed sound_commit
    commit_book_move_def commit_engine_result_def)

subsection \<open>From the start\<close>

lemma sound_initial: "sound R g \<Longrightarrow> play_initial R ms g = Inr g' \<Longrightarrow> sound R g'"
proof (induction R ms g rule: play_initial.induct)
  case (2 R m ms g)
  then show ?case using sound_apply_no_clock [of R g m]
    by (cases "apply_move_no_clock R m g") (auto split: if_splits sum.splits)
qed simp

lemma sound_new: "game_controller_new R gid sess cfg now ds = Inr g \<Longrightarrow> sound R g"
proof -
  assume "game_controller_new R gid sess cfg now ds = Inr g"
  then obtain fen p where g: "play_initial R (config_moves cfg) (check_game_end R (fresh_game R gid sess cfg fen p now ds)) = Inr g"
    using new_game by blast
  have "on_board R (fresh_game R gid sess cfg fen p now ds)" by (simp add: on_board_def fresh_game_def)
  then have "sound R (check_game_end R (fresh_game R gid sess cfg fen p now ds))"
    by (simp add: sound_def undecided_check)
  from sound_initial [OF this g] show ?thesis .
qed

lemma sound_install: "sound R g \<Longrightarrow> sound R (install_controller book n w b g)"
  by (rule sound_same [where g = g])
    (simp_all add: install_controller_def Let_def)

lemma played_sound: "reached R issued g \<Longrightarrow> sound R g"
  by (induction rule: reached.induct) (simp_all add: sound_new sound_install sound_step)

end
