(* ===== verification/GameEvents.thy ===== *)
theory GameEvents
  imports GameBoard
begin

text \<open>
  The events of a game reach the windows in the order of their revisions, and the end of the game
  is announced once, as the last of them.
\<close>

fun event_revision :: "game_event \<Rightarrow> nat" where
  "event_revision (GameMoveEvent _ _ r _ _ _ _) = r"
| "event_revision (ClockUpdateEvent _ _ r _ _) = r"
| "event_revision (GameOverEvent _ _ r _ _) = r"

fun is_game_over :: "game_event \<Rightarrow> bool" where
  "is_game_over (GameOverEvent _ _ _ _ _) \<longleftrightarrow> True"
| "is_game_over _ \<longleftrightarrow> False"

definition over_event :: "game_result \<Rightarrow> 'p live_game \<Rightarrow> game_event" where
  "over_event r g = GameOverEvent (game_id g) (session g) (revision g) r (moves g)"

definition announced :: "'p live_game \<Rightarrow> game_event list" where
  "announced g =
     (case status g of
        Playing \<Rightarrow> []
      | Finished r \<Rightarrow> if terminal_attempt_claimed g then [over_event r g] else [])"

text \<open>Strictly ordered, all below the bound.\<close>

definition up_to :: "nat \<Rightarrow> game_event list \<Rightarrow> bool" where
  "up_to n evs \<longleftrightarrow> sorted_wrt (<) (map event_revision evs) \<and> (\<forall>e \<in> set evs. event_revision e < n)"

definition events_ordered :: "'p live_game \<Rightarrow> bool" where
  "events_ordered g \<longleftrightarrow>
     (status g = Playing \<longrightarrow> \<not> terminal_attempt_claimed g)
     \<and> filter is_game_over (attempted g) = announced g
     \<and> up_to (Suc (revision g)) (attempted g)
     \<and> (status g \<noteq> Playing \<longrightarrow> \<not> terminal_attempt_claimed g \<longrightarrow> up_to (revision g) (attempted g))"

definition events_ok :: "'p live_game \<Rightarrow> bool" where
  "events_ok g \<longleftrightarrow> (revision g < U64_MAX \<longrightarrow> events_ordered g)"

text \<open>A move was made and is not announced yet: its revision is free.\<close>

definition move_due :: "'p live_game \<Rightarrow> bool" where
  "move_due g \<longleftrightarrow>
     (revision g < U64_MAX \<longrightarrow>
        \<not> terminal_attempt_claimed g \<and> filter is_game_over (attempted g) = [] \<and> up_to (move_event_revision g) (attempted g)
        \<and> (status g \<noteq> Playing \<longrightarrow> 0 < revision g))"

lemma up_to_mono: "up_to m evs \<Longrightarrow> m \<le> n \<Longrightarrow> up_to n evs"
  by (auto simp: up_to_def)

lemma up_to_snoc [simp]: "up_to n (evs @ [e]) \<longleftrightarrow> up_to (event_revision e) evs \<and> event_revision e < n"
  by (auto simp: up_to_def sorted_wrt_append)

lemma sat_below: "sat_u64 (n + 1) < U64_MAX \<Longrightarrow> sat_u64 (n + 1) = Suc n \<and> n < U64_MAX"
  by (simp add: sat_u64_def min_def split: if_splits)

lemma events_same:
  "events_ok g \<Longrightarrow> revision g' = revision g \<Longrightarrow> status g' = status g
     \<Longrightarrow> terminal_attempt_claimed g' = terminal_attempt_claimed g \<Longrightarrow> attempted g' = attempted g \<Longrightarrow> game_id g' = game_id g
     \<Longrightarrow> session g' = session g \<Longrightarrow> moves g' = moves g \<Longrightarrow> events_ok g'"
  by (cases "status g") (simp_all add: events_ok_def events_ordered_def announced_def over_event_def)

lemma events_frames [simp]:
  "events_ok g \<Longrightarrow> events_ok (snd (settle_active_clock R g))"
  "events_ok g \<Longrightarrow> events_ok (snd (get_current_times R g))"
  "events_ok g \<Longrightarrow> events_ok (cancel_engine_request g)"
  "events_ok g \<Longrightarrow> events_ok (snd (get_state R g))"
  "events_ok g \<Longrightarrow> events_ok (notify_loop g)"
  "events_ok g \<Longrightarrow> events_ok (snd (begin_engine_request R g))"
  "events_ok g \<Longrightarrow> events_ok (snd (register_engine_request_id ctx rid g))"
  "events_ok g \<Longrightarrow> events_ok (snd (engine_search_request R g))"
  "events_ok g \<Longrightarrow> events_ok (g\<lparr>delays := ds, emit_faults := fs\<rparr>)"
  "events_ok g \<Longrightarrow> events_ok (g\<lparr>engine_thinking := b\<rparr>)"
  by (rule events_same, assumption, simp_all)+

lemma quiet_in_play:
  "events_ok g \<Longrightarrow> status g = Playing \<Longrightarrow> revision g < U64_MAX \<Longrightarrow>
     \<not> terminal_attempt_claimed g \<and> filter is_game_over (attempted g) = [] \<and> up_to (Suc (revision g)) (attempted g)"
  by (simp add: events_ok_def events_ordered_def announced_def)

lemma events_end_game [simp]: "events_ok g \<Longrightarrow> events_ok (snd (end_game_with R r g))"
proof (cases "status g")
  case Playing
  assume ok: "events_ok g"
  show ?thesis
  proof (cases "sat_u64 (revision g + 1) < U64_MAX")
    case True
    then have s: "sat_u64 (revision g + 1) = Suc (revision g)" "revision g < U64_MAX"
      using sat_below by metis+
    from quiet_in_play [OF ok Playing s(2)] have "up_to (Suc (Suc (revision g))) (attempted g)"
      by (auto intro: up_to_mono)
    with s quiet_in_play [OF ok Playing s(2)] Playing show ?thesis
      by (simp add: events_ok_def events_ordered_def announced_def)
  qed (simp add: events_ok_def Playing)
qed simp

lemma events_terminal [simp]: "events_ok g \<Longrightarrow> events_ok (snd (attempt_terminal_event_emission g))"
proof (cases "status g")
  case (Finished r)
  assume ok: "events_ok g"
  show ?thesis
  proof (cases "terminal_attempt_claimed g")
    case False
    with ok Finished show ?thesis
      by (auto simp: events_ok_def events_ordered_def announced_def over_event_def terminal_emits)
  qed (simp add: ok)
qed simp

lemma due_check:
  assumes "events_ok g" "status g = Playing" "revision h = sat_u64 (revision g + 1)" "status h = Playing"
    "terminal_attempt_claimed h = terminal_attempt_claimed g" "attempted h = attempted g"
  shows "move_due (check_game_end R h)"
proof (rule check_end_cases [OF assms(4), of R])
  assume same: "check_game_end R h = h"
  show ?thesis
  proof (cases "revision h < U64_MAX")
    case True
    then have r: "revision h = Suc (revision g)" "revision g < U64_MAX"
      using assms(3) sat_below by metis+
    with quiet_in_play [OF assms(1,2)] show ?thesis
      by (simp add: move_due_def same move_event_revision_def assms(4-6))
  qed (simp add: move_due_def same)
next
  fix r
  assume over: "check_game_end R h = snd (end_game_with R r h)"
  show ?thesis
  proof (cases "sat_u64 (revision h + 1) < U64_MAX")
    case True
    then have s: "sat_u64 (revision h + 1) = Suc (revision h)" "revision h < U64_MAX"
      using sat_below by metis+
    then have r: "revision h = Suc (revision g)" "revision g < U64_MAX"
      using assms(3) sat_below by metis+
    with quiet_in_play [OF assms(1,2)] s show ?thesis
      by (simp add: move_due_def over move_event_revision_def assms(4-6))
  qed (simp add: move_due_def over assms(4))
qed

lemma events_emit_move [simp]: "move_due g \<Longrightarrow> events_ok (emit_move R fen g)"
  by (cases "status g"; cases "revision g < U64_MAX")
    (simp_all add: events_ok_def move_due_def events_ordered_def announced_def move_event_revision_def)

lemma events_tick:
  assumes "events_ok h" "status h = Playing" "revision k = sat_u64 (revision h + 1)" "status k = Playing"
    "terminal_attempt_claimed k = terminal_attempt_claimed h" "attempted k = attempted h"
    "event_revision ev = revision k" "\<not> is_game_over ev"
  shows "events_ok (snd (attempt_event_emission kind ev k))"
proof (cases "revision k < U64_MAX")
  case True
  then have "revision k = Suc (revision h)" "revision h < U64_MAX"
    using assms(3) sat_below by metis+
  with quiet_in_play [OF assms(1,2)] show ?thesis
    by (simp add: events_ok_def events_ordered_def announced_def assms(4-8))
qed (simp add: events_ok_def)

lemma events_apply_move:
  assumes "events_ok g"
  shows "case apply_move R u g of (Inl _, g') \<Rightarrow> events_ok g' | (Inr _, g') \<Rightarrow> move_due g'"
proof (cases "status g \<noteq> Playing")
  case False
  obtain r h where settled: "settle_active_clock R g = (r, h)" by (metis prod.collapse)
  have h: "events_ok h" "status h = Playing"
    using assms settled events_frames(1) [of g R] settle_frame [of R g] False by (simp_all add: settled)
  show ?thesis
  proof (cases r)
    case (Some a)
    then show ?thesis using False settled h by (simp add: apply_move_def)
  next
    case None
    show ?thesis
    proof (cases "uci_move R (position h) u")
      case (Inl e)
      then show ?thesis using False settled h None by (simp add: apply_move_def)
    next
      case (Inr mv)
      let ?k = "play_on_board R mv h"
      let ?l = "case clock ?k of Some c \<Rightarrow> reset_tick (credit_mover R (position ?k) c) ?k | None \<Rightarrow> ?k"
      have l: "status ?l = Playing" "revision ?l = revision h" "attempted ?l = attempted h"
        "terminal_attempt_claimed ?l = terminal_attempt_claimed h"
        using h by (simp_all split: option.split)
      from False settled None Inr obtain m where
        m: "apply_move R u g = (Inr m, check_game_end R (bump_revision (?l\<lparr>moves := moves ?l @ [m]\<rparr>)))"
        by (simp add: apply_move_def Let_def case_prod_unfold)
      have "move_due (check_game_end R (bump_revision (?l\<lparr>moves := moves ?l @ [m]\<rparr>)))"
        by (rule due_check [where g = h]) (use h l in simp_all)
      with m show ?thesis by simp
    qed
  qed
qed (simp add: apply_move_def assms)

lemma events_take_back_moves:
  assumes "events_ok g" "on_board R g" "status g = Playing"
  shows "case take_back_moves R n g of (Inl _, g') \<Rightarrow> False | (Inr _, g') \<Rightarrow> move_due g'"
proof -
  let ?g = "(cancel_engine_request g)\<lparr>moves := (butlast ^^ n) (moves g), status := Playing\<rparr>"
  from board_take [OF assms(2) [unfolded on_board_def], of "length (moves g) - n"] obtain p h where
    "board R (map mv_uci (moves ?g)) (root_position ?g) (first_count R (root_position ?g))
      = Some (p, h, map mv_fen_after (moves ?g))"
    by (auto simp: butlast_times take_map)
  from rebuild_result [OF this] obtain g' where g':
    "rebuild_position_from_moves R ?g = (Inr (), g')" "revision g' = revision g" "status g' = Playing"
    "attempted g' = attempted g" "terminal_attempt_claimed g' = terminal_attempt_claimed g"
    by auto
  have "move_due (check_game_end R (bump_revision (advance_position_generation g')))"
    by (rule due_check [where g = g]) (use assms g' in simp_all)
  with g' show ?thesis by (simp add: take_back_moves_def bind_io_def)
qed

lemma events_step: "events_ok g \<Longrightarrow> sound R g \<Longrightarrow> events_ok (game_step R i g)"
proof (cases i)
  case (HumanMove u n)
  assume "events_ok g"
  with events_apply_move [of g R u] HumanMove show ?thesis
    by (cases "apply_move R u g")
      (auto simp: make_move_locked_def Let_def case_prod_unfold split: sum.splits game_status.split)
next
  case TakeBack
  assume "events_ok g" "sound R g"
  with TakeBack show ?thesis
    using events_take_back_moves [of g R "if human_color (config g) = Some (side_to_move R (position g)) then 2 else 1"]
    by (auto simp: take_back_locked_def bind_io_def Let_def case_prod_unfold sound_def split: prod.splits sum.splits)
next
  case (Resign side)
  assume "events_ok g"
  with Resign show ?thesis by (simp add: resign_locked_def Let_def case_prod_unfold split: option.split)
next
  case ClockTick
  assume ok: "events_ok g"
  obtain r h where settled: "settle_active_clock R g = (r, h)" by (metis prod.collapse)
  have h: "events_ok h" using ok settled events_frames(1) [of g R] by simp
  have playing: "status h = status g" using settled settle_frame [of R g] by simp
  have "events_ok (snd (clock_tick R g))" if "status g = Playing"
  proof (cases r)
    case None
    have "snd (clock_tick R g) = snd (attempt_event_emission ClockKind
        (ClockUpdateEvent (game_id h) (session h) (sat_u64 (revision h + 1))
           (fst (fst (get_current_times R h))) (snd (fst (get_current_times R h))))
        (bump_revision (snd (get_current_times R h))))"
      using that settled None by (simp add: clock_tick_def Let_def case_prod_unfold)
    then show ?thesis using events_tick [OF h, of "bump_revision (snd (get_current_times R h))"] that playing by simp
  qed (use that settled h in \<open>simp add: clock_tick_def\<close>)
  then show ?thesis using ClockTick ok by (cases "status g") (simp_all add: clock_tick_def)
next
  case (BookMove current ctx turn u)
  assume "events_ok g"
  with events_apply_move [of g R u] BookMove show ?thesis
    by (cases "apply_move R u g")
      (auto simp: commit_book_move_def commit_engine_move_def split: sum.splits game_status.split)
next
  case (EngineMove current ctx rid turn u)
  assume "events_ok g"
  with events_apply_move [of g R u] EngineMove show ?thesis
    by (cases "apply_move R u g")
      (auto simp: commit_engine_result_def commit_engine_move_def split: sum.splits game_status.split)
next
  case (TaskFailed tk reason snap)
  assume "events_ok g"
  with TaskFailed show ?thesis by (simp add: engine_task_failed_def Let_def split: option.split)
qed simp_all

subsection \<open>From the start\<close>

definition silent :: "'p live_game \<Rightarrow> bool" where
  "silent g \<longleftrightarrow> attempted g = [] \<and> \<not> terminal_attempt_claimed g"

lemma silent_events: "silent g \<Longrightarrow> events_ok g"
  by (simp add: silent_def events_ok_def events_ordered_def announced_def up_to_def split: game_status.split)

lemma silent_end: "silent g \<Longrightarrow> silent (snd (end_game_with R r g))"
  by (cases "status g") (simp_all add: silent_def)

lemma silent_check: "silent g \<Longrightarrow> silent (check_game_end R g)"
  by (simp add: check_game_end_def silent_end split: option.split)

lemma silent_initial: "silent g \<Longrightarrow> play_initial R ms g = Inr g' \<Longrightarrow> silent g'"
proof (induction R ms g rule: play_initial.induct)
  case (2 R m ms g)
  have "silent (snd (apply_move_no_clock R m g))"
  proof (cases "uci_move R (position g) m")
    case (Inr mv)
    have "silent ((play_on_board R mv g)\<lparr>moves := ms'\<rparr>)" for ms' using 2(2) by (simp add: silent_def)
    then show ?thesis using Inr by (simp add: apply_move_no_clock_def Let_def case_prod_unfold silent_check)
  qed (simp add: apply_move_no_clock_def 2(2))
  with 2 show ?case by (cases "apply_move_no_clock R m g") (auto split: if_splits sum.splits)
qed simp

lemma silent_new: "game_controller_new R gid sess cfg now ds = Inr g \<Longrightarrow> silent g"
proof -
  assume "game_controller_new R gid sess cfg now ds = Inr g"
  then obtain fen p where g: "play_initial R (config_moves cfg) (check_game_end R (fresh_game R gid sess cfg fen p now ds)) = Inr g"
    using new_game by blast
  have "silent (check_game_end R (fresh_game R gid sess cfg fen p now ds))"
    by (intro silent_check) (simp add: silent_def fresh_game_def)
  from silent_initial [OF this g] show ?thesis .
qed

lemma played_events: "reached R issued g \<Longrightarrow> events_ok g"
proof (induction rule: reached.induct)
  case (started gid sess cfg now ds g book max_ply white black)
  from silent_new [OF this] have "silent (install_controller book max_ply white black g)"
    by (simp add: silent_def install_controller_def Let_def)
  then show ?case by (rule silent_events)
qed (simp add: events_step played_sound)

end
