(* ===== verification/GameRequests.thy ===== *)
theory GameRequests
  imports GameEvents
begin

text \<open>
  An engine answers the position it was asked about: whatever else happens to a game meanwhile, a
  move is accepted from an engine or its book only while the game stands where it stood when the
  request was issued.
\<close>

text \<open>What an operation may do to the outstanding request: nothing, or withdraw it.\<close>

definition keeps_request :: "'p live_game \<Rightarrow> 'p live_game \<Rightarrow> bool" where
  "keeps_request g h \<longleftrightarrow>
     next_engine_request h = next_engine_request g
     \<and> (active_request h = None
        \<or> (map_option request_context (active_request h) = map_option request_context (active_request g)
           \<and> position h = position g \<and> moves h = moves g))"

lemma keeps_refl [simp]: "keeps_request g g"
  by (simp add: keeps_request_def)

lemma keeps_trans: "keeps_request g h \<Longrightarrow> keeps_request h k \<Longrightarrow> keeps_request g k"
  by (auto simp: keeps_request_def)

lemma keeps_frames:
  "keeps_request g (snd (settle_active_clock R g))"
  "keeps_request g (snd (get_current_times R g))"
  "keeps_request g (cancel_engine_request g)"
  "keeps_request g (snd (get_state R g))"
  "keeps_request g (notify_loop g)"
  "keeps_request g (snd (engine_search_request R g))"
  "keeps_request g (g\<lparr>delays := ds, emit_faults := fs\<rparr>)"
  "keeps_request g (g\<lparr>engine_thinking := b\<rparr>)"
  "keeps_request g (snd (attempt_event_emission kind ev g))"
  "keeps_request g (snd (attempt_terminal_event_emission g))"
  "keeps_request g (emit_move R fen g)"
  "keeps_request g (bump_revision g)"
  by (simp_all add: keeps_request_def)

lemma keeps_register: "keeps_request g (snd (register_engine_request_id ctx rid g))"
  by (auto simp: keeps_request_def register_engine_request_id_def Let_def split: option.split)

lemma keeps_end_game: "keeps_request g (snd (end_game_with R r g))"
  by (cases "status g") (simp_all add: keeps_request_def)

lemma withdrawn: "active_request h = None \<Longrightarrow> next_engine_request h = next_engine_request g \<Longrightarrow> keeps_request g h"
  by (simp add: keeps_request_def)

lemma active_check: "active_request g = None \<Longrightarrow> active_request (check_game_end R g) = None"
  by (cases "status g") (simp_all add: check_game_end_def split: option.split)

lemma keeps_apply_move: "keeps_request g (snd (apply_move R u g))"
proof (cases "status g \<noteq> Playing")
  case False
  obtain r h where settled: "settle_active_clock R g = (r, h)" by (metis prod.collapse)
  have h: "keeps_request g h" using keeps_frames(1) [of g R] settled by simp
  show ?thesis
  proof (cases r)
    case (Some a)
    then show ?thesis using False settled keeps_trans [OF h keeps_end_game] by (simp add: apply_move_def)
  next
    case None
    show ?thesis
    proof (cases "uci_move R (position h) u")
      case (Inl e)
      then show ?thesis using False settled h None by (simp add: apply_move_def)
    next
      case (Inr mv)
      let ?k = "play_on_board R mv h"
      let ?l = "case clock ?k of Some c \<Rightarrow> reset_tick (credit_mover R (position ?k) c) ?k | None \<Rightarrow> ?k"
      have l: "active_request ?l = None" "next_engine_request ?l = next_engine_request g"
        using h by (simp_all add: keeps_request_def split: option.split)
      from False settled None Inr obtain m where
        "snd (apply_move R u g) = check_game_end R (bump_revision (?l\<lparr>moves := moves ?l @ [m]\<rparr>))"
        by (simp add: apply_move_def Let_def case_prod_unfold)
      with l show ?thesis by (intro withdrawn) (simp_all add: active_check)
    qed
  qed
qed (simp add: apply_move_def)

lemma keeps_replay: "next_engine_request (snd (replay_moves R ms g)) = next_engine_request g
    \<and> active_request (snd (replay_moves R ms g)) = active_request g"
  by (induction R ms g rule: replay_moves.induct) (auto simp: Let_def split: sum.split)

lemma keeps_take_back: "keeps_request g (snd (take_back_moves R n g))"
proof -
  let ?g = "(cancel_engine_request g)\<lparr>moves := (butlast ^^ n) (moves g), status := Playing\<rparr>"
  obtain r h where rb: "rebuild_position_from_moves R ?g = (r, h)" by (metis prod.collapse)
  have "active_request (snd (rebuild_position_from_moves R ?g)) = None"
    "next_engine_request (snd (rebuild_position_from_moves R ?g)) = next_engine_request g"
    using keeps_replay [of R "(butlast ^^ n) (moves g)"
      "?g\<lparr>position := root_position g, position_history := first_count R (root_position g)\<rparr>"]
    by (auto simp: rebuild_position_from_moves_def bind_io_def split: prod.splits sum.splits option.splits)
  with rb show ?thesis
    by (intro withdrawn) (auto simp: take_back_moves_def bind_io_def active_check split: sum.split)
qed

lemma keeps_tail [simp]:
  "keeps_request g (snd (get_state R h)) \<longleftrightarrow> keeps_request g h"
  "keeps_request g (snd (get_current_times R h)) \<longleftrightarrow> keeps_request g h"
  "keeps_request g (snd (attempt_event_emission kind ev h)) \<longleftrightarrow> keeps_request g h"
  "keeps_request g (snd (attempt_terminal_event_emission h)) \<longleftrightarrow> keeps_request g h"
  "keeps_request g (emit_move R fen h) \<longleftrightarrow> keeps_request g h"
  "keeps_request g (notify_loop h) \<longleftrightarrow> keeps_request g h"
  "keeps_request g (bump_revision h) \<longleftrightarrow> keeps_request g h"
  by (simp_all add: keeps_request_def)

lemma request_step: "i \<noteq> BeginRequest \<Longrightarrow> keeps_request g (game_step R i g)"
proof (cases i)
  case (HumanMove u n)
  have "keeps_request g (snd (make_move_locked R u n g))"
    using keeps_apply_move [of g R u]
    by (cases "apply_move R u g")
      (simp_all add: make_move_locked_def Let_def case_prod_unfold split: sum.splits game_status.split)
  with HumanMove show ?thesis by simp
next
  case TakeBack
  have "keeps_request g (snd (take_back_locked R g))"
    using keeps_take_back [of g R "if human_color (config g) = Some (side_to_move R (position g)) then 2 else 1"]
    by (auto simp: take_back_locked_def bind_io_def Let_def case_prod_unfold split: prod.splits sum.splits)
  with TakeBack show ?thesis by simp
next
  case (Resign side)
  have "keeps_request g (snd (resign_locked R side g))"
    using keeps_end_game [of g R]
    by (simp add: resign_locked_def Let_def case_prod_unfold split: option.split)
  with Resign show ?thesis by simp
next
  case ClockTick
  obtain r h where settled: "settle_active_clock R g = (r, h)" by (metis prod.collapse)
  have h: "keeps_request g h" using keeps_frames(1) [of g R] settled by simp
  have "keeps_request g (snd (clock_tick R g))"
  proof (cases r)
    case (Some a)
    have "keeps_request g (snd (attempt_terminal_event_emission (snd (end_game_with R a h))))"
      by (rule keeps_trans [OF keeps_trans [OF h keeps_end_game] keeps_frames(10)])
    with settled Some show ?thesis by (simp add: clock_tick_def)
  next
    case None
    from h settled this show ?thesis
      by (simp add: clock_tick_def Let_def case_prod_unfold)
  qed
  with ClockTick show ?thesis by simp
next
  case (BookMove current ctx turn u)
  have "keeps_request g (snd (commit_book_move R current ctx turn u g))"
    using keeps_apply_move [of g R u]
    by (cases "apply_move R u g")
      (simp_all add: commit_book_move_def commit_engine_move_def split: sum.splits game_status.split)
  with BookMove show ?thesis by simp
next
  case (EngineMove current ctx rid turn u)
  have "keeps_request g (snd (commit_engine_result R current ctx rid turn u g))"
    using keeps_apply_move [of g R u]
    by (cases "apply_move R u g")
      (simp_all add: commit_engine_result_def commit_engine_move_def split: sum.splits game_status.split)
  with EngineMove show ?thesis by simp
next
  case (TaskFailed tk reason snap)
  have "keeps_request g (snd (engine_task_failed R tk reason snap g))"
  proof -
    have "keeps_request g (snd (attempt_terminal_event_emission (snd (end_game_with R r (g\<lparr>engine_thinking := False\<rparr>)))))" for r
      by (rule keeps_trans [OF keeps_trans [OF keeps_frames(8) keeps_end_game] keeps_frames(10)])
    moreover have "keeps_request g (snd (attempt_terminal_event_emission (g\<lparr>engine_thinking := False\<rparr>)))"
      by (rule keeps_trans [OF keeps_frames(8) keeps_frames(10)])
    ultimately show ?thesis by (simp add: engine_task_failed_def Let_def split: option.split)
  qed
  with TaskFailed show ?thesis by simp
qed (simp_all add: keeps_frames keeps_register)

subsection \<open>The requests of a game\<close>

definition nonces :: "'p issued \<Rightarrow> nat list" where
  "nonces issued = map (\<lambda>(c, _). ctx_nonce c) issued"

lemma nonces_Cons [simp]: "nonces ((c, x) # issued) = ctx_nonce c # nonces issued"
  by (simp add: nonces_def)

definition requests_ok :: "'p issued \<Rightarrow> 'p live_game \<Rightarrow> bool" where
  "requests_ok issued g \<longleftrightarrow>
     next_engine_request g \<le> U64_MAX
     \<and> (\<forall>n \<in> set (nonces issued). n \<le> next_engine_request g)
     \<and> (next_engine_request g < U64_MAX \<longrightarrow> distinct (nonces issued))
     \<and> (case active_request g of
          None \<Rightarrow> True
        | Some a \<Rightarrow> (request_context a, position g, moves g) \<in> set issued)"

lemma requests_keep: "requests_ok issued g \<Longrightarrow> keeps_request g h \<Longrightarrow> requests_ok issued h"
  by (auto simp: requests_ok_def keeps_request_def map_option_eq_Some split: option.splits)

lemma requests_begin:
  assumes "requests_ok issued g"
  shows "requests_ok (issue R BeginRequest g @ issued) (snd (begin_engine_request R g))"
proof (cases "status g \<noteq> Playing \<or> \<not> is_engine_turn R g \<or> engine_thinking g")
  case True
  then have "begin_engine_request R g = (None, g)" by (simp add: begin_engine_request_def)
  with assms show ?thesis by (simp add: issue_def)
next
  case False
  let ?n = "sat_u64 (next_engine_request g + 1)"
  let ?c = "\<lparr>ctx_session = session g, ctx_generation = position_generation g, ctx_nonce = ?n, ctx_token = fresh_token g\<rparr>"
  have n: "next_engine_request g \<le> ?n" "?n \<le> U64_MAX" "?n < U64_MAX \<Longrightarrow> next_engine_request g < ?n"
    using assms by (auto simp: requests_ok_def sat_u64_def)
  have began: "fst (begin_engine_request R g) = Some ?c"
    "next_engine_request (snd (begin_engine_request R g)) = ?n"
    "active_request (snd (begin_engine_request R g)) = Some \<lparr>request_context = ?c, request_id = None\<rparr>"
    using False by (simp_all add: begin_engine_request_def Let_def)
  then have "issue R BeginRequest g = [(?c, position g, moves g)]" by (simp add: issue_def)
  moreover have "k \<le> ?n" "?n < U64_MAX \<Longrightarrow> k \<noteq> ?n" if "k \<in> set (nonces issued)" for k
    using assms that n by (fastforce simp: requests_ok_def)+
  moreover have "?n < U64_MAX \<Longrightarrow> distinct (nonces issued)" using assms n by (simp add: requests_ok_def)
  ultimately show ?thesis using began n by (auto simp: requests_ok_def)
qed

definition unasked :: "'p live_game \<Rightarrow> bool" where
  "unasked g \<longleftrightarrow> next_engine_request g = 0 \<and> active_request g = None"

lemma unasked_initial: "unasked g \<Longrightarrow> play_initial R ms g = Inr g' \<Longrightarrow> unasked g'"
proof (induction R ms g rule: play_initial.induct)
  case (2 R m ms g)
  have "unasked (snd (apply_move_no_clock R m g))"
    using 2(2) by (simp add: apply_move_no_clock_def Let_def case_prod_unfold unasked_def active_check split: sum.split)
  with 2 show ?case by (cases "apply_move_no_clock R m g") (auto split: if_splits sum.splits)
qed simp

lemma unasked_new: "game_controller_new R gid sess cfg now ds = Inr g \<Longrightarrow> unasked g"
proof -
  assume "game_controller_new R gid sess cfg now ds = Inr g"
  then obtain fen p where g: "play_initial R (config_moves cfg) (check_game_end R (fresh_game R gid sess cfg fen p now ds)) = Inr g"
    using new_game by blast
  have "unasked (check_game_end R (fresh_game R gid sess cfg fen p now ds))"
    by (simp add: unasked_def active_check fresh_game_def)
  from unasked_initial [OF this g] show ?thesis .
qed

lemma played_requests: "reached R issued g \<Longrightarrow> requests_ok issued g"
proof (induction rule: reached.induct)
  case (started gid sess cfg now ds g book max_ply white black)
  from unasked_new [OF this] show ?case
    by (simp add: requests_ok_def unasked_def install_controller_def Let_def nonces_def)
next
  case (step issued g i)
  show ?case
  proof (cases "i = BeginRequest")
    case False
    then have "issue R i g = []" by (cases i) (simp_all add: issue_def)
    with requests_keep [OF step.IH request_step [OF False]] show ?thesis by simp
  qed (use requests_begin [OF step.IH] in simp)
qed

end
