(* ===== verification/GameClocks.thy ===== *)
theory GameClocks
  imports GameRequests
begin

text \<open>
  The clocks of a game: a side never has more time than its initial time and one increment for
  each move of the game, whatever is played and taken back.
\<close>

abbreviation at_most :: "nat option \<Rightarrow> nat option \<Rightarrow> bool" where
  "at_most \<equiv> rel_option (\<le>)"

definition time_limit :: "time_control option \<Rightarrow> nat \<Rightarrow> nat option" where
  "time_limit control n = map_option (\<lambda>t. initial_time t + n * increment t) control"

lemma at_most_refl [simp]: "at_most a a"
  by (cases a) simp_all

lemma at_most_trans: "at_most a b \<Longrightarrow> at_most b c \<Longrightarrow> at_most a c"
  by (cases a; cases b; cases c) simp_all

lemma time_limit_mono: "m \<le> n \<Longrightarrow> at_most (time_limit c m) (time_limit c n)"
  by (cases c) (simp_all add: time_limit_def)

lemma at_most_minus [simp]: "at_most (map_option (\<lambda>t. t - d) a) a"
  by (cases a) simp_all

text \<open>An operation that lets time pass.\<close>

definition clock_runs :: "clock_state \<Rightarrow> clock_state \<Rightarrow> bool" where
  "clock_runs c d \<longleftrightarrow>
     at_most (clock_white d) (clock_white c) \<and> at_most (clock_black d) (clock_black c)
     \<and> white_increment d = white_increment c \<and> black_increment d = black_increment c"

definition winds_down :: "'p live_game \<Rightarrow> 'p live_game \<Rightarrow> bool" where
  "winds_down g h \<longleftrightarrow> config h = config g \<and> moves h = moves g \<and> rel_option clock_runs (clock g) (clock h)"

lemma clock_runs_refl [simp]: "clock_runs c c"
  by (simp add: clock_runs_def)

lemma clock_runs_opt_refl [simp]: "rel_option clock_runs c c"
  by (cases c) simp_all

lemma winds_refl [simp]: "winds_down g g"
  by (simp add: winds_down_def)

lemma clock_runs_trans: "clock_runs a b \<Longrightarrow> clock_runs b c \<Longrightarrow> clock_runs a c"
  by (auto simp: clock_runs_def intro: at_most_trans)

lemma winds_trans: "winds_down g h \<Longrightarrow> winds_down h k \<Longrightarrow> winds_down g k"
  by (cases "clock g"; cases "clock h"; cases "clock k") (auto simp: winds_down_def intro: clock_runs_trans)

lemma winds_tail [simp]:
  "winds_down g (snd (get_state R h)) \<longleftrightarrow> winds_down g h"
  "winds_down g (snd (get_current_times R h)) \<longleftrightarrow> winds_down g h"
  "winds_down g (snd (attempt_event_emission kind ev h)) \<longleftrightarrow> winds_down g h"
  "winds_down g (snd (attempt_terminal_event_emission h)) \<longleftrightarrow> winds_down g h"
  "winds_down g (emit_move R fen h) \<longleftrightarrow> winds_down g h"
  "winds_down g (notify_loop h) \<longleftrightarrow> winds_down g h"
  "winds_down g (bump_revision h) \<longleftrightarrow> winds_down g h"
  "winds_down g (cancel_engine_request h) \<longleftrightarrow> winds_down g h"
  "winds_down g (snd (engine_search_request R h)) \<longleftrightarrow> winds_down g h"
  "winds_down g (snd (register_engine_request_id ctx rid h)) \<longleftrightarrow> winds_down g h"
  "winds_down g (snd (begin_engine_request R h)) \<longleftrightarrow> winds_down g h"
  "winds_down g (h\<lparr>engine_thinking := b\<rparr>) \<longleftrightarrow> winds_down g h"
  "winds_down g (h\<lparr>delays := ds, emit_faults := fs\<rparr>) \<longleftrightarrow> winds_down g h"
  by (simp_all add: winds_down_def)

lemma side_runs:
  "side_time side c = Some t \<Longrightarrow> t' \<le> t \<Longrightarrow> clock_runs c ((set_side_time side (Some t') c)\<lparr>last_tick := n\<rparr>)"
  "clock_runs c (c\<lparr>last_tick := n\<rparr>)"
  by (auto simp: clock_runs_def set_side_time_def side_time_def split: if_splits)

lemma winds_settle: "winds_down g (snd (settle_active_clock R g))"
proof (cases "clock g")
  case (Some c)
  then show ?thesis
    using side_runs(2)
    by (cases "side_time (side_to_move R (position g)) c")
      (auto simp: winds_down_def settle_active_clock_def Let_def case_prod_unfold intro: side_runs(1))
qed (simp add: winds_down_def settle_active_clock_def)

lemma winds_end_game: "winds_down g (snd (end_game_with R r g))"
proof (cases "status g")
  case Playing
  then show ?thesis
    by (cases "clock g")
      (auto simp: winds_down_def end_game_with_def get_current_times_def clock_runs_def Let_def case_prod_unfold)
qed simp

lemma winds_check: "winds_down g (check_game_end R g)"
  by (simp add: check_game_end_def winds_end_game split: option.split)

subsection \<open>The invariant\<close>

definition move_times_ok :: "game_config \<Rightarrow> game_move list \<Rightarrow> bool" where
  "move_times_ok cfg ms \<longleftrightarrow>
     (\<forall>i < length ms.
        at_most (mv_white_time (ms ! i)) (time_limit (white_time_control cfg) (Suc i))
        \<and> at_most (mv_black_time (ms ! i)) (time_limit (black_time_control cfg) (Suc i)))"

definition clock_ok :: "game_config \<Rightarrow> nat \<Rightarrow> clock_state option \<Rightarrow> bool" where
  "clock_ok cfg n clk \<longleftrightarrow>
     at_most (fst (clock_times clk)) (time_limit (white_time_control cfg) n)
     \<and> at_most (snd (clock_times clk)) (time_limit (black_time_control cfg) n)
     \<and> (\<forall>c t. clk = Some c \<longrightarrow> white_time_control cfg = Some t \<longrightarrow> white_increment c = increment t)
     \<and> (\<forall>c t. clk = Some c \<longrightarrow> black_time_control cfg = Some t \<longrightarrow> black_increment c = increment t)"

definition clocks_ok :: "'p live_game \<Rightarrow> bool" where
  "clocks_ok g \<longleftrightarrow> clock_ok (config g) (length (moves g)) (clock g) \<and> move_times_ok (config g) (moves g)"

lemma clock_ok_runs: "clock_ok cfg n c \<Longrightarrow> rel_option clock_runs c d \<Longrightarrow> clock_ok cfg n d"
  by (cases c; cases d) (auto simp: clock_ok_def clock_runs_def clock_times_def intro: at_most_trans)

lemma clocks_winds: "clocks_ok g \<Longrightarrow> winds_down g h \<Longrightarrow> clocks_ok h"
  by (auto simp: clocks_ok_def winds_down_def intro: clock_ok_runs)

lemma clocks_end_game: "clocks_ok g \<Longrightarrow> clocks_ok (snd (end_game_with R r g))"
  using clocks_winds winds_end_game by blast

lemma clocks_check: "clocks_ok g \<Longrightarrow> clocks_ok (check_game_end R g)"
  using clocks_winds winds_check by blast

lemma clock_ok_tick: "clock_ok cfg n (Some c) \<Longrightarrow> clock_ok cfg n (Some (c\<lparr>last_tick := t\<rparr>))"
  by (simp add: clock_ok_def clock_times_def)

lemma credit_limit:
  assumes "at_most (Some t) (time_limit c n)" "\<And>k. c = Some k \<Longrightarrow> i = increment k"
  shows "at_most (Some (sat_u64 (t + i))) (time_limit c (Suc n))"
  using assms by (cases c) (auto simp: time_limit_def sat_u64_def)

lemma clock_ok_credit: "clock_ok cfg n (Some c) \<Longrightarrow> clock_ok cfg (Suc n) (Some (credit_mover R p c))"
proof -
  assume ok: "clock_ok cfg n (Some c)"
  have w: "at_most (clock_white c) (time_limit (white_time_control cfg) (Suc n))"
    and b: "at_most (clock_black c) (time_limit (black_time_control cfg) (Suc n))"
    using ok at_most_trans [OF _ time_limit_mono [of n "Suc n"]] by (auto simp: clock_ok_def clock_times_def)
  have "at_most (Some (sat_u64 (t + white_increment c))) (time_limit (white_time_control cfg) (Suc n))"
    if "clock_white c = Some t" for t
    using ok that by (intro credit_limit) (auto simp: clock_ok_def clock_times_def)
  moreover have "at_most (Some (sat_u64 (t + black_increment c))) (time_limit (black_time_control cfg) (Suc n))"
    if "clock_black c = Some t" for t
    using ok that by (intro credit_limit) (auto simp: clock_ok_def clock_times_def)
  ultimately show ?thesis using ok w b
    by (auto simp: clock_ok_def clock_times_def credit_mover_def split: option.splits)
qed

lemma move_times_snoc:
  "move_times_ok cfg ms \<Longrightarrow> clock_ok cfg (Suc (length ms)) clk \<Longrightarrow> mv_white_time m = fst (clock_times clk)
     \<Longrightarrow> mv_black_time m = snd (clock_times clk) \<Longrightarrow> move_times_ok cfg (ms @ [m])"
  by (auto simp: move_times_ok_def clock_ok_def nth_append less_Suc_eq)

lemma clocks_extended:
  assumes "clocks_ok g" "moves h = moves g @ [m]" "config h = config g" "clock_ok (config g) (Suc (length (moves g))) (clock h)"
    "mv_white_time m = fst (clock_times (clock h))" "mv_black_time m = snd (clock_times (clock h))"
  shows "clocks_ok h"
  using assms move_times_snoc [OF _ assms(4,5,6)] by (simp add: clocks_ok_def)

lemma clock_ok_none: "clock_ok cfg n None \<Longrightarrow> clock_ok cfg m None"
  by (cases "white_time_control cfg"; cases "black_time_control cfg") (auto simp: clock_ok_def clock_times_def time_limit_def)

lemma clocks_apply_move: "clocks_ok g \<Longrightarrow> clocks_ok (snd (apply_move R u g))"
proof (cases "status g \<noteq> Playing")
  case False
  assume ok: "clocks_ok g"
  obtain r h where settled: "settle_active_clock R g = (r, h)" by (metis prod.collapse)
  have h: "clocks_ok h" using clocks_winds [OF ok winds_settle [of g R]] settled by simp
  show ?thesis
  proof (cases r)
    case (Some a)
    then show ?thesis using False settled clocks_winds [OF h winds_end_game] by (simp add: apply_move_def)
  next
    case None
    show ?thesis
    proof (cases "uci_move R (position h) u")
      case (Inl e)
      then show ?thesis using False settled h None by (simp add: apply_move_def)
    next
      case (Inr mv)
      let ?k = "play_on_board R mv h"
      let ?l = "case clock ?k of Some c \<Rightarrow> reset_tick (credit_mover R (position ?k) c) ?k | None \<Rightarrow> ?k"
      have "clock_ok (config h) (Suc (length (moves h))) (clock ?l)"
        using h by (cases "clock h")
          (auto simp: clocks_ok_def intro: clock_ok_none clock_ok_tick clock_ok_credit)
      moreover have "moves ?l = moves h" "config ?l = config h" by (simp_all split: option.split)
      moreover from False settled None Inr obtain m where
        m: "snd (apply_move R u g) = check_game_end R (bump_revision (?l\<lparr>moves := moves ?l @ [m]\<rparr>))"
        "mv_white_time m = fst (clock_times (clock ?l))" "mv_black_time m = snd (clock_times (clock ?l))"
        by (simp add: apply_move_def Let_def case_prod_unfold)
      ultimately have "clocks_ok (bump_revision (?l\<lparr>moves := moves ?l @ [m]\<rparr>))"
        by (intro clocks_extended [where g = h, OF h]) simp_all
      with clocks_winds winds_check m(1) show ?thesis by metis
    qed
  qed
qed (simp add: apply_move_def)

lemma clocks_no_clock: "clocks_ok g \<Longrightarrow> clocks_ok (snd (apply_move_no_clock R u g))"
proof (cases "uci_move R (position g) u")
  case (Inr mv)
  assume ok: "clocks_ok g"
  let ?k = "play_on_board R mv g"
  from Inr obtain m where m: "snd (apply_move_no_clock R u g) = check_game_end R (?k\<lparr>moves := moves ?k @ [m]\<rparr>)"
    "mv_white_time m = fst (clock_times (clock g))" "mv_black_time m = snd (clock_times (clock g))"
    by (simp add: apply_move_no_clock_def Let_def case_prod_unfold)
  have "clock_ok (config g) (Suc (length (moves g))) (clock g)"
    using ok at_most_trans [OF _ time_limit_mono [of "length (moves g)" "Suc (length (moves g))"]]
    by (auto simp: clocks_ok_def clock_ok_def)
  with m have "clocks_ok (?k\<lparr>moves := moves ?k @ [m]\<rparr>)" by (intro clocks_extended [OF ok]) simp_all
  with clocks_winds winds_check m(1) show ?thesis by metis
qed (simp add: apply_move_no_clock_def)

lemma clock_ok_restored:
  assumes "move_times_ok (config g) (moves g)" "clock_ok (config g) n (Some c)"
  shows "clock_ok (config g) (length (moves g)) (Some (restored_clock g c))"
proof -
  have start: "at_most (map_option initial_time control) (time_limit control n)" for control n
    by (cases control) (simp_all add: time_limit_def)
  show ?thesis
  proof (cases "moves g" rule: rev_cases)
    case (snoc ms l)
    then have "at_most (mv_white_time l) (time_limit (white_time_control (config g)) (length (moves g)))"
      "at_most (mv_black_time l) (time_limit (black_time_control (config g)) (length (moves g)))"
      using assms(1) by (auto simp: move_times_ok_def dest: spec [of _ "length ms"])
    with snoc start assms(2) show ?thesis by (auto simp: restored_clock_def clock_ok_def clock_times_def Let_def)
  qed (use start assms(2) in \<open>auto simp: restored_clock_def clock_ok_def clock_times_def Let_def\<close>)
qed

lemma clocks_take_back: "clocks_ok g \<Longrightarrow> on_board R g \<Longrightarrow> clocks_ok (snd (take_back_moves R n g))"
proof -
  assume ok: "clocks_ok g" and b: "on_board R g"
  let ?g = "(cancel_engine_request g)\<lparr>moves := (butlast ^^ n) (moves g), status := Playing\<rparr>"
  from board_take [OF b [unfolded on_board_def], of "length (moves g) - n"] obtain p h where
    "board R (map mv_uci (moves ?g)) (root_position ?g) (first_count R (root_position ?g))
      = Some (p, h, map mv_fen_after (moves ?g))"
    by (auto simp: butlast_times take_map)
  from rebuild_result [OF this] obtain g' where g':
    "rebuild_position_from_moves R ?g = (Inr (), g')" "moves g' = moves ?g" "config g' = config g"
    "clock g' = map_option (\<lambda>c. (restored_clock ?g c)\<lparr>last_tick := wall g'\<rparr>) (clock g)"
    by auto
  have ms: "move_times_ok (config g) (moves ?g)"
    using ok by (auto simp: clocks_ok_def move_times_ok_def butlast_times)
  have "clock_ok (config g) (length (moves ?g)) (clock g')"
  proof (cases "clock g")
    case None
    with ok g' show ?thesis by (auto simp: clocks_ok_def intro: clock_ok_none)
  next
    case (Some c)
    with ok ms clock_ok_restored [of ?g "length (moves g)" c] g'(4) show ?thesis
      by (auto simp: clocks_ok_def intro: clock_ok_tick)
  qed
  with ms g' have "clocks_ok (bump_revision (advance_position_generation g'))" by (simp add: clocks_ok_def)
  with g'(1) show ?thesis by (simp add: take_back_moves_def bind_io_def clocks_check)
qed

lemma clocks_tail [simp]:
  "clocks_ok (snd (get_state R h)) \<longleftrightarrow> clocks_ok h"
  "clocks_ok (snd (get_current_times R h)) \<longleftrightarrow> clocks_ok h"
  "clocks_ok (snd (attempt_event_emission kind ev h)) \<longleftrightarrow> clocks_ok h"
  "clocks_ok (snd (attempt_terminal_event_emission h)) \<longleftrightarrow> clocks_ok h"
  "clocks_ok (emit_move R fen h) \<longleftrightarrow> clocks_ok h"
  "clocks_ok (notify_loop h) \<longleftrightarrow> clocks_ok h"
  "clocks_ok (bump_revision h) \<longleftrightarrow> clocks_ok h"
  "clocks_ok (h\<lparr>engine_thinking := b\<rparr>) \<longleftrightarrow> clocks_ok h"
  by (simp_all add: clocks_ok_def)

lemma clocks_commit: "clocks_ok g \<Longrightarrow> clocks_ok (snd (commit_engine_move R allowed turn u g))"
  using clocks_apply_move [of g R u]
  by (cases "apply_move R u g") (auto simp: commit_engine_move_def split: sum.split game_status.split)

lemma clocks_step: "clocks_ok g \<Longrightarrow> sound R g \<Longrightarrow> clocks_ok (game_step R i g)"
proof (cases i)
  case (HumanMove u n)
  assume "clocks_ok g"
  with clocks_apply_move [of g R u] HumanMove show ?thesis
    by (cases "apply_move R u g")
      (simp_all add: make_move_locked_def Let_def case_prod_unfold split: sum.splits game_status.split)
next
  case TakeBack
  assume "clocks_ok g" "sound R g"
  with TakeBack show ?thesis
    using clocks_take_back [of g R "if human_color (config g) = Some (side_to_move R (position g)) then 2 else 1"]
    by (auto simp: take_back_locked_def bind_io_def Let_def case_prod_unfold sound_def split: prod.splits sum.splits)
next
  case (Resign side)
  assume "clocks_ok g"
  with Resign show ?thesis
    by (simp add: clocks_end_game resign_locked_def Let_def case_prod_unfold split: option.split)
next
  case ClockTick
  assume ok: "clocks_ok g"
  obtain r h where settled: "settle_active_clock R g = (r, h)" by (metis prod.collapse)
  have h: "clocks_ok h" using clocks_winds [OF ok winds_settle [of g R]] settled by simp
  with ClockTick ok settled show ?thesis
    by (simp add: clocks_end_game clock_tick_def Let_def case_prod_unfold split: option.split)
next
  case (TaskFailed tk reason snap)
  assume "clocks_ok g"
  with TaskFailed show ?thesis
    by (simp add: clocks_end_game engine_task_failed_def Let_def split: option.split)
qed (auto simp: commit_book_move_def commit_engine_result_def clocks_commit intro: clocks_winds)

subsection \<open>From the start\<close>

lemma clocks_initial: "clocks_ok g \<Longrightarrow> play_initial R ms g = Inr g' \<Longrightarrow> clocks_ok g'"
proof (induction R ms g rule: play_initial.induct)
  case (2 R m ms g)
  then show ?case using clocks_no_clock [of g R m]
    by (cases "apply_move_no_clock R m g") (auto split: if_splits sum.splits)
qed simp

lemma clocks_fresh: "clocks_ok (fresh_game R gid sess cfg fen p now ds)"
  by (cases "white_time_control cfg"; cases "black_time_control cfg")
    (simp_all add: clocks_ok_def clock_ok_def move_times_ok_def fresh_game_def start_clock_def clock_times_def time_limit_def)

lemma clocks_new: "game_controller_new R gid sess cfg now ds = Inr g \<Longrightarrow> clocks_ok g"
  using new_game clocks_initial clocks_winds [OF clocks_fresh winds_check] by metis

lemma clocks_install: "clocks_ok g \<Longrightarrow> clocks_ok (install_controller book n w b g)"
  by (rule clocks_winds [of g], assumption)
    (simp_all add: winds_down_def install_controller_def reset_clock_def Let_def side_runs split: option.split)

lemma played_clocks: "reached R issued g \<Longrightarrow> clocks_ok g"
  by (induction rule: reached.induct) (simp_all add: clocks_new clocks_install clocks_step played_sound)

end
