(* ===== verification/GameExamples.thy ===== *)
theory GameExamples
  imports GameClocks
begin

text \<open>
  Small games for the witnesses. The rules of the examples know one thing, the number of moves
  played: every text but the empty one is a legal move and no game ends on the board. The games use
  a clock of 24 hours, the longest the program accepts, with an increment.
\<close>

definition demo_rules :: "(nat, unit, string, nat, unit, unit) chess_rules" where
  "demo_rules =
     \<lparr>fen_parse = (\<lambda>_. Inr 0), mode_detect = (\<lambda>_. ()), setup_position = (\<lambda>s _. Inr s), ignore_material = (\<lambda>e. Inl e),
      position_failure = (\<lambda>_. \<lparr>foreign_text = [], foreign_sources = []\<rparr>), setup_of = (\<lambda>p. p), setup_pseudo_legal = (\<lambda>p. p),
      setup_halfmoves = (\<lambda>_. 0), setup_fullmoves = (\<lambda>_. 1), with_counters = (\<lambda>_ _ s. s),
      fen_print = (\<lambda>s. replicate s CHR ''x''), uci_parse = (\<lambda>t. if t = [] then Inl \<lparr>foreign_text = [], foreign_sources = []\<rparr> else Inr t),
      uci_to_move = (\<lambda>_ _. Inr ()), uci_print = (\<lambda>_ _. ''m''), play_move = (\<lambda>p _. Suc p), san_print = (\<lambda>_ _. ''m''),
      side_to_move = (\<lambda>p. if even p then White else Black), in_checkmate = (\<lambda>_. False), in_stalemate = (\<lambda>_. False),
      no_material = (\<lambda>_. False), lacks_material = (\<lambda>_ _. False), halfmove_clock = (\<lambda>_. 0)\<rparr>"

definition demo_control :: time_control where
  "demo_control = \<lparr>initial_time = 86400000, increment = 1000\<rparr>"

definition demo_config :: game_config where
  "demo_config =
     \<lparr>white_config = EnginePlayer ''e'' ''id'' ''h'' [] None, black_config = Human ''h'',
      white_time_control = Some demo_control, black_time_control = Some demo_control,
      config_fen = Some ''x'', config_moves = [], opening_book = None\<rparr>"

definition demo_engine :: registered_game_engine where
  "demo_engine = \<lparr>engine_actor = 0, engine_identity = \<lparr>key_tab = ''t'', key_engine = ''e''\<rparr>, engine_generation = 1\<rparr>"

definition demo_new :: "nat live_game" where
  "demo_new = fresh_game demo_rules ''g'' 2 demo_config ''x'' 0 0 []"

definition demo_start :: "nat live_game" where
  "demo_start = install_controller None 0 (Some demo_engine) None demo_new"

definition demo_ctx :: engine_request_context where
  "demo_ctx = \<lparr>ctx_session = 2, ctx_generation = 0, ctx_nonce = 1, ctx_token = 0\<rparr>"

text \<open>The engine is asked and answers, and the human moves.\<close>

definition demo_asked :: "nat live_game" where
  "demo_asked = game_step demo_rules (RegisterRequest demo_ctx 7) (game_step demo_rules BeginRequest demo_start)"

definition demo_answered :: "nat live_game" where
  "demo_answered = game_step demo_rules (EngineMove True demo_ctx 7 White ''a'') demo_asked"

definition demo_replied :: "nat live_game" where
  "demo_replied = game_step demo_rules (HumanMove ''b'' 1) demo_answered"

definition demo_resigned :: "nat live_game" where
  "demo_resigned = game_step demo_rules (Resign ''white'') demo_replied"

lemmas demo_rules_simps [simp] =
  demo_rules_def [THEN arg_cong [where f = side_to_move], simplified]
  demo_rules_def [THEN arg_cong [where f = play_move], simplified]
  demo_rules_def [THEN arg_cong [where f = fen_print], simplified]
  demo_rules_def [THEN arg_cong [where f = setup_of], simplified]
  demo_rules_def [THEN arg_cong [where f = uci_parse], simplified]
  demo_rules_def [THEN arg_cong [where f = uci_to_move], simplified]
  demo_rules_def [THEN arg_cong [where f = in_checkmate], simplified]
  demo_rules_def [THEN arg_cong [where f = in_stalemate], simplified]
  demo_rules_def [THEN arg_cong [where f = no_material], simplified]
  demo_rules_def [THEN arg_cong [where f = halfmove_clock], simplified]
  demo_rules_def [THEN arg_cong [where f = san_print], simplified]

lemma demo_move [simp]: "uci_move demo_rules p (c # cs) = Inr ()"
  by (simp add: uci_move_def)

lemma demo_words: "words_from (replicate k CHR ''x'') (replicate n CHR ''x'') =
    (if k + n = 0 then [] else [replicate (k + n) CHR ''x''])"
proof (induction n arbitrary: k)
  case (Suc n)
  from Suc [of "Suc k"] show ?case by (simp add: is_ascii_space_def replicate_append_same)
qed simp

lemma demo_key [simp]: "position_key demo_rules p = replicate p CHR ''x''"
  using demo_words [of 0 p] by (cases p) (simp_all add: position_key_def fen_of_def)

lemma demo_valid: "validate_time_controls demo_config = Inr ()"
  by (simp add: validate_time_controls_def demo_config_def demo_control_def MAX_ENGINE_LIMIT_def)

lemma demo_new_game: "game_controller_new demo_rules ''g'' 2 demo_config 0 [] = Inr demo_new"
proof -
  have "canonicalize_engine_position demo_rules ''x'' [] =
      Inr \<lparr>wire_fen = [], wire_moves = [], wire_mode = (), reached_position = 0\<rparr>"
    by (simp add: canonicalize_engine_position_def canonicalize_inner_def validate_uci_text_def demo_rules_def
        clamp_setup_def)
  then have "start_position demo_rules demo_config ''x'' = Inr 0"
    by (simp add: start_position_def demo_config_def)
  moreover have "check_game_end demo_rules demo_new = demo_new"
    by (simp add: check_game_end_def game_end_def demo_new_def fresh_game_def)
  moreover have "config_fen demo_config = Some ''x''" "config_moves demo_config = []"
    by (simp_all add: demo_config_def)
  ultimately show ?thesis using demo_valid by (simp add: game_controller_new_def demo_new_def [symmetric])
qed

lemma demo_start_played: "reached demo_rules [] demo_start"
  unfolding demo_start_def by (rule reached.started [OF demo_new_game])

subsection \<open>What the games look like\<close>

definition demo_clock :: "nat \<Rightarrow> nat \<Rightarrow> clock_state" where
  "demo_clock w b = \<lparr>clock_white = Some w, clock_black = Some b, white_increment = 1000, black_increment = 1000,
     last_tick = 0\<rparr>"

lemma demo_config_fields [simp]:
  "is_engine (white_config demo_config)" "\<not> is_engine (black_config demo_config)"
  "white_config demo_config = EnginePlayer ''e'' ''id'' ''h'' [] None"
  by (simp_all add: demo_config_def)

lemma demo_new_fields [simp]:
  "status demo_new = Playing" "clock demo_new = Some (demo_clock 86400000 86400000)" "position demo_new = 0"
  "config demo_new = demo_config" "session demo_new = 2" "position_generation demo_new = 0" "moves demo_new = []"
  "next_engine_request demo_new = 0" "fresh_token demo_new = 0" "\<not> engine_thinking demo_new" "delays demo_new = []"
  "wall demo_new = 0" "cancelled_tokens demo_new = []" "active_request demo_new = None" "revision demo_new = 0"
  "position_history demo_new = [[] \<mapsto> 1]" "emit_faults demo_new = []" "attempted demo_new = []"
  "\<not> terminal_attempt_claimed demo_new" "polyglot_book demo_new = None" "game_id demo_new = ''g''"
  by (simp_all add: demo_new_def fresh_game_def start_clock_def demo_config_def demo_control_def demo_clock_def)

lemma read_now_still [simp]: "delays g = [] \<Longrightarrow> read_now g = (wall g, g)"
  by (simp add: read_now_def)

lemma demo_start_eq:
  "demo_start = demo_new\<lparr>polyglot_book := None, polyglot_max_ply := 0, white_engine := Some demo_engine,
     black_engine := None, clock := Some (demo_clock 86400000 86400000), move_notify := Some False\<rparr>"
  by (simp add: demo_start_def install_controller_def reset_clock_def reset_tick_def demo_clock_def)

lemma demo_asked_eq:
  "demo_asked = demo_start\<lparr>next_engine_request := 1, fresh_token := 1, engine_thinking := True,
     active_request := Some \<lparr>request_context = demo_ctx, request_id = Some 7\<rparr>\<rparr>"
  by (simp add: demo_asked_def demo_start_eq begin_engine_request_def is_engine_turn_def
      current_turn_player_def register_engine_request_id_def token_is_cancelled_def demo_ctx_def
      sat_u64_def U64_MAX_def Let_def)

lemma demo_accepts: "accepts_engine_result demo_ctx 7 demo_asked"
  by (simp add: accepts_engine_result_def demo_asked_eq demo_start_eq demo_ctx_def token_is_cancelled_def)

definition demo_move :: "string \<Rightarrow> nat \<Rightarrow> nat \<Rightarrow> nat \<Rightarrow> nat \<Rightarrow> game_move" where
  "demo_move u p before w b =
     \<lparr>mv_uci = u, mv_san = ''m'', mv_fen_after = replicate p CHR ''x'', mv_clock = Some before,
      mv_white_time = Some w, mv_black_time = Some b\<rparr>"

lemma demo_settle:
  assumes "clock g = Some (demo_clock w b)" "delays g = []" "wall g = 0" "0 < w" "0 < b"
  shows "settle_active_clock demo_rules g = (None, g)"
  using assms
  by (simp add: settle_active_clock_def elapsed_ms_def side_time_def set_side_time_def demo_clock_def reset_tick_def)

lemma times_still [simp]: "delays g = [] \<Longrightarrow> snd (get_current_times R g) = g"
  by (simp add: get_current_times_def Let_def split: option.split)

lemma demo_apply:
  fixes g :: "nat live_game" and u :: char and us :: string
  assumes "status g = Playing" "clock g = Some (demo_clock w b)" "delays g = []" "wall g = 0"
    "0 < w" "0 < b" "w \<le> 10 ^ 9" "b \<le> 10 ^ 9" "position_history g (replicate (Suc (position g)) CHR ''x'') = None"
  defines "w' \<equiv> if even (position g) then w + 1000 else w" and "b' \<equiv> if even (position g) then b else b + 1000"
  defines "m \<equiv> demo_move (u # us) (Suc (position g)) (if even (position g) then w else b) w' b'"
  shows "apply_move demo_rules (u # us) g =
    (Inr m, bump_revision ((play_on_board demo_rules () g)\<lparr>clock := Some (demo_clock w' b'), moves := moves g @ [m]\<rparr>))"
proof -
  have "sat_u64 (w + 1000) = w + 1000" "sat_u64 (b + 1000) = b + 1000"
    using assms(7,8) by (simp_all add: sat_u64_def U64_MAX_def)
  with assms(1-6,9) demo_settle [OF assms(2-6)] show ?thesis
    by (simp add: apply_move_def Let_def case_prod_unfold check_game_end_def game_end_def count_key_def reset_tick_def
        credit_mover_def demo_clock_def clock_times_def side_time_def demo_move_def w'_def b'_def m_def fen_of_def)
qed

lemma demo_asked_fields [simp]:
  "status demo_asked = Playing" "clock demo_asked = Some (demo_clock 86400000 86400000)" "position demo_asked = 0"
  "moves demo_asked = []" "config demo_asked = demo_config" "delays demo_asked = []" "wall demo_asked = 0"
  "revision demo_asked = 0" "position_history demo_asked = [[] \<mapsto> 1]" "emit_faults demo_asked = []"
  "white_engine demo_asked = Some demo_engine" "next_engine_request demo_asked = 1"
  by (simp_all add: demo_asked_eq demo_start_eq)

lemma demo_answered_fields [simp]:
  "status demo_answered = Playing" "clock demo_answered = Some (demo_clock 86401000 86400000)" "position demo_answered = 1"
  "moves demo_answered = [demo_move ''a'' 1 86400000 86401000 86400000]" "config demo_answered = demo_config"
  "delays demo_answered = []" "wall demo_answered = 0" "revision demo_answered = 1" "active_request demo_answered = None"
  "position_history demo_answered [CHR ''x'', CHR ''x''] = None" "white_engine demo_answered = Some demo_engine"
  by (simp_all add: demo_answered_def commit_engine_result_def commit_engine_move_def demo_apply demo_accepts
      emit_move_def case_prod_unfold Let_def count_key_def sat_u64_def U64_MAX_def)

lemma demo_replied_fields [simp]:
  "status demo_replied = Playing" "clock demo_replied = Some (demo_clock 86401000 86401000)" "position demo_replied = 2"
  "config demo_replied = demo_config" "delays demo_replied = []" "wall demo_replied = 0"
  "white_engine demo_replied = Some demo_engine" "length (moves demo_replied) = 2"
  by (simp_all add: demo_replied_def make_move_locked_def is_engine_turn_def current_turn_player_def demo_apply
      emit_move_def case_prod_unfold Let_def get_state_def sat_u64_def U64_MAX_def)

text \<open>All of them are reached by playing.\<close>

lemma demo_asked_played: "reached demo_rules [(demo_ctx, 0, [])] demo_asked"
proof -
  have "issue demo_rules BeginRequest demo_start = [(demo_ctx, 0, [])]"
    by (simp add: issue_def begin_engine_request_def is_engine_turn_def current_turn_player_def demo_start_eq
        demo_ctx_def sat_u64_def U64_MAX_def Let_def)
  with reached.step [OF demo_start_played, of BeginRequest]
  have "reached demo_rules [(demo_ctx, 0, [])] (game_step demo_rules BeginRequest demo_start)" by simp
  from reached.step [OF this, of "RegisterRequest demo_ctx 7"] show ?thesis by (simp add: demo_asked_def issue_def)
qed

lemma demo_answered_played: "reached demo_rules [(demo_ctx, 0, [])] demo_answered"
  using reached.step [OF demo_asked_played, of "EngineMove True demo_ctx 7 White ''a''"]
  by (simp add: demo_answered_def issue_def)

lemma demo_replied_played: "reached demo_rules [(demo_ctx, 0, [])] demo_replied"
  using reached.step [OF demo_answered_played, of "HumanMove ''b'' 1"] by (simp add: demo_replied_def issue_def)

end
