(* ===== verification/GameTheorems.thy ===== *)
theory GameTheorems
  imports GameExamples
begin

text \<open>The properties of live games.\<close>

text \<open>
  C9. In every reachable game the board is what the moves say: playing their texts from the root
  position leads to the current position, with the counts of the positions on the way and the FEN
  after each move; and a game in play is not decided by checkmate, stalemate, material, the fifty
  move rule or a third repetition.
\<close>

theorem game_replays_its_moves:
  assumes "reached R issued g"
  shows "board R (map mv_uci (moves g)) (root_position g) (first_count R (root_position g))
           = Some (position g, position_history g, map mv_fen_after (moves g))
         \<and> (status g = Playing \<longrightarrow> game_end R (position g) (position_history g) = None)"
  using played_sound [OF assms] by (simp add: sound_def on_board_def undecided_def)

theorem game_replays_its_moves_witness:
  "\<exists>h fens. board demo_rules (map mv_uci (moves demo_answered)) (root_position demo_answered)
      (first_count demo_rules (root_position demo_answered)) = Some (1, h, fens)
    \<and> game_end demo_rules (position demo_answered) (position_history demo_answered) = None"
  using game_replays_its_moves [OF demo_answered_played] by simp

text \<open>
  A game that is over stays as it is: whatever the windows, the loop and the engines still do,
  its result, moves, position, clock and revision do not change.
\<close>

theorem finished_game_frozen:
  assumes "status g = Finished r"
  shows "status (game_step R i g) = Finished r \<and> moves (game_step R i g) = moves g
    \<and> position (game_step R i g) = position g \<and> clock (game_step R i g) = clock g
    \<and> revision (game_step R i g) = revision g"
  using assms
  by (cases i)
    (simp_all add: make_move_locked_def apply_move_def take_back_locked_def resign_locked_def clock_tick_def
      commit_book_move_def commit_engine_result_def commit_engine_move_def accepts_engine_context_def
      accepts_engine_result_def engine_task_failed_def case_prod_unfold Let_def split: option.split)

theorem finished_game_frozen_witness:
  "position (game_step demo_rules (HumanMove ''b'' 1)
      (snd (end_game_with demo_rules (WhiteWins Resignation) demo_answered))) = 1"
  using finished_game_frozen [where i = "HumanMove ''b'' 1" and R = demo_rules and r = "WhiteWins Resignation"
      and g = "snd (end_game_with demo_rules (WhiteWins Resignation) demo_answered)"] by simp

text \<open>
  C11. The events of a game carry strictly increasing revisions, so that a window can order them,
  and the end of the game is announced at most once, with its final revision and moves, and only
  after the game is over. (The revision saturates at \<^term>\<open>U64_MAX\<close>.)
\<close>

theorem events_in_order:
  assumes "reached R issued g" "revision g < U64_MAX"
  shows "sorted_wrt (<) (map event_revision (attempted g))
    \<and> filter is_game_over (attempted g) =
        (case status g of
           Playing \<Rightarrow> []
         | Finished r \<Rightarrow>
             if terminal_attempt_claimed g
             then [GameOverEvent (game_id g) (session g) (revision g) r (moves g)] else [])"
  using played_events [OF assms(1)] assms(2)
  by (cases "status g") (simp_all add: events_ok_def events_ordered_def announced_def over_event_def up_to_def)

theorem events_in_order_witness:
  "sorted_wrt (<) (map event_revision (attempted demo_answered)) \<and> filter is_game_over (attempted demo_answered) = []"
  using events_in_order [OF demo_answered_played] by (simp add: U64_MAX_def)

text \<open>
  C10. An engine or its book moves only in the position it was asked about: when the answer to a
  request changes the game, the game is in play and stands where it stood when the request was
  issued. (Requests are numbered up to \<^term>\<open>U64_MAX\<close>.)
\<close>

theorem engine_answers_its_position:
  assumes "reached R issued g" "next_engine_request g < U64_MAX" "(ctx, p, ms) \<in> set issued"
    "h = snd (commit_engine_result R current ctx rid turn uci g) \<or> h = snd (commit_book_move R current ctx turn uci g)"
  shows "h = g \<or> (current \<and> status g = Playing \<and> position g = p \<and> moves g = ms)"
proof -
  have ok: "distinct (nonces issued)" "case active_request g of
      None \<Rightarrow> True | Some a \<Rightarrow> (request_context a, position g, moves g) \<in> set issued"
    using played_requests [OF assms(1)] assms(2) by (simp_all add: requests_ok_def)
  have same: "position g = p \<and> moves g = ms" if "active_request g = Some a" "ctx_nonce (request_context a) = ctx_nonce ctx" for a
  proof -
    have "(request_context a, position g, moves g) \<in> set issued" using ok(2) that(1) by simp
    with assms(3) that(2) ok(1) show ?thesis by (auto simp: nonces_def distinct_map inj_on_def)
  qed
  show ?thesis
  proof (cases "current \<and> (accepts_engine_result ctx rid g \<or> accepts_engine_context ctx g)")
    case True
    then show ?thesis using same
      by (auto simp: accepts_engine_result_def accepts_engine_context_def Let_def split: option.splits)
  qed (use assms(4) in \<open>auto simp: commit_engine_result_def commit_book_move_def commit_engine_move_def\<close>)
qed

theorem engine_answers_its_position_witness:
  "position demo_asked = 0 \<and> moves demo_asked = [] \<and> demo_answered \<noteq> demo_asked"
proof -
  have "demo_answered = demo_asked \<or> (True \<and> status demo_asked = Playing \<and> position demo_asked = 0 \<and> moves demo_asked = [])"
    using demo_asked_played
    by (rule engine_answers_its_position [where rid = 7 and turn = White and uci = "''a''" and ctx = demo_ctx])
      (simp_all add: U64_MAX_def demo_answered_def)
  moreover have "demo_answered \<noteq> demo_asked"
  proof
    assume "demo_answered = demo_asked"
    then have "position demo_answered = position demo_asked" by simp
    then show False by simp
  qed
  ultimately show ?thesis by simp
qed

definition times_after :: "game_config \<Rightarrow> game_move list \<Rightarrow> nat option \<times> nat option" where
  "times_after cfg ms =
     (if ms = [] \<or> (mv_white_time (last ms) = None \<and> mv_black_time (last ms) = None)
      then (map_option initial_time (white_time_control cfg), map_option initial_time (black_time_control cfg))
      else (mv_white_time (last ms), mv_black_time (last ms)))"

lemma restored_times:
  "(clock_white (restored_clock g c), clock_black (restored_clock g c)) = times_after (config g) (moves g)"
  by (simp add: restored_clock_def times_after_def Let_def)

lemma clock_check: "(clock (check_game_end R x) = None) = (clock x = None)"
  using winds_check [of x R]
  by (cases "clock x"; cases "clock (check_game_end R x)") (simp_all add: winds_down_def)

lemma apply_move_extends:
  assumes "apply_move R u g = (Inr m, h)"
  shows "status g = Playing \<and> moves h = moves g @ [m] \<and> root_position h = root_position g \<and> config h = config g
     \<and> (clock h = None) = (clock g = None)"
proof -
  from assms have p: "status g = Playing" by (auto simp: apply_move_def split: if_splits)
  obtain r k where settled: "settle_active_clock R g = (r, k)" by (metis prod.collapse)
  have k: "moves k = moves g" "root_position k = root_position g" "config k = config g" "(clock k = None) = (clock g = None)"
    using settle_frame [of R g] winds_settle [of g R] settled
    by (cases "clock g"; cases "clock k"; simp add: winds_down_def)+
  have r: "r = None" using assms p settled by (cases r) (simp_all add: apply_move_def)
  obtain mv where mv: "uci_move R (position k) u = Inr mv"
    using assms p settled r by (cases "uci_move R (position k) u") (simp_all add: apply_move_def)
  let ?k = "play_on_board R mv k"
  let ?l = "case clock ?k of Some c \<Rightarrow> reset_tick (credit_mover R (position ?k) c) ?k | None \<Rightarrow> ?k"
  have l: "moves ?l = moves k" "root_position ?l = root_position k" "config ?l = config k" "(clock ?l = None) = (clock k = None)"
    by (simp_all split: option.split)
  have "h = check_game_end R (bump_revision (?l\<lparr>moves := moves ?l @ [m]\<rparr>))"
    using assms p settled r mv by (auto simp: apply_move_def Let_def case_prod_unfold)
  then show ?thesis using p k l clock_check [of R "bump_revision (?l\<lparr>moves := moves ?l @ [m]\<rparr>)"]
    by (simp del: not_None_eq)
qed

text \<open>
  C13. Taking back the last move undoes it: the moves, the position and the counts of positions are
  those before it, the game is in play, and both clocks show what they showed after the move
  before, or the initial times.
\<close>

theorem take_back_undoes_move:
  assumes "reached R issued g" "apply_move R u g = (Inr m, h)"
  shows "\<exists>k. take_back_moves R 1 h = (Inr (), k) \<and> moves k = moves g \<and> position k = position g
    \<and> position_history k = position_history g \<and> status k = Playing
    \<and> map_option (\<lambda>c. (clock_white c, clock_black c)) (clock k)
        = map_option (\<lambda>_. times_after (config g) (moves g)) (clock g)"
proof -
  note ext = apply_move_extends [OF assms(2)]
  have s: "sound R g" by (rule played_sound [OF assms(1)])
  let ?g = "(cancel_engine_request h)\<lparr>moves := (butlast ^^ 1) (moves h), status := Playing\<rparr>"
  have "board R (map mv_uci (moves ?g)) (root_position ?g) (first_count R (root_position ?g))
      = Some (position g, position_history g, map mv_fen_after (moves ?g))"
    using s ext by (simp add: sound_def on_board_def)
  from rebuild_result [OF this] obtain k where k:
    "rebuild_position_from_moves R ?g = (Inr (), k)" "moves k = moves g" "position k = position g"
    "position_history k = position_history g" "status k = Playing"
    "clock k = map_option (\<lambda>c. (restored_clock ?g c)\<lparr>last_tick := wall k\<rparr>) (clock h)"
    using ext by auto
  have "game_end R (position g) (position_history g) = None" using s ext by (simp add: sound_def undecided_def)
  with k have "take_back_moves R 1 h = (Inr (), bump_revision (advance_position_generation k))"
    by (simp add: take_back_moves_def bind_io_def check_game_end_def)
  moreover have "map_option (\<lambda>c. (clock_white c, clock_black c)) (clock k)
      = map_option (\<lambda>_. times_after (config g) (moves g)) (clock g)"
    using k(6) ext restored_times [of ?g] by (cases "clock h"; cases "clock g") auto
  ultimately show ?thesis using k by simp
qed

theorem take_back_undoes_move_witness:
  "\<exists>k. take_back_moves demo_rules 1 (snd (apply_move demo_rules ''b'' demo_answered)) = (Inr (), k)
     \<and> length (moves k) = 1 \<and> position k = 1 \<and> map_option clock_white (clock k) = Some (Some 86401000)"
proof -
  let ?r = "apply_move demo_rules ''b'' demo_answered"
  have "?r = (Inr (projr (fst ?r)), snd ?r)" by (simp add: demo_apply)
  from take_back_undoes_move [OF demo_answered_played this] show ?thesis
    by (auto simp: times_after_def demo_move_def split: option.splits)
qed

text \<open>
  C12. A player never has more time than the initial time and an increment for each move of the
  game, whatever was played and taken back.
\<close>

theorem clocks_bounded:
  assumes "reached R issued g" "clock g = Some c" "white_time_control (config g) = Some w" "black_time_control (config g) = Some b"
  shows "\<exists>tw tb. clock_white c = Some tw \<and> tw \<le> initial_time w + length (moves g) * increment w
    \<and> clock_black c = Some tb \<and> tb \<le> initial_time b + length (moves g) * increment b"
  using played_clocks [OF assms(1)] assms(2-4)
  by (cases "clock_white c"; cases "clock_black c") (auto simp: clocks_ok_def clock_ok_def clock_times_def time_limit_def)

theorem clocks_bounded_witness:
  "\<exists>tw tb. clock_white (demo_clock 86401000 86400000) = Some tw \<and> tw \<le> 86400000 + 1 * 1000
    \<and> clock_black (demo_clock 86401000 86400000) = Some tb \<and> tb \<le> 86400000 + 1 * 1000"
  using clocks_bounded [OF demo_answered_played, of "demo_clock 86401000 86400000" demo_control demo_control]
  by (simp add: demo_config_def demo_control_def)

text \<open>
  C34. A clock above 24 hours, White's or Black's, stops an engine: the search the game asks of its
  engine is refused before it is sent, with the name of the first such clock. In the witness both
  players start with 24 hours and an increment, which the time controls of a game allow, and the
  second request is refused.
\<close>

theorem long_clock_refuses_search:
  assumes "fst (get_current_times R g) = (Some w, Some b)" "MAX_ENGINE_LIMIT < w \<or> MAX_ENGINE_LIMIT < b"
    "fst (engine_search_request R g) = Inr (Some (engine, mode, rest))"
  shows "to_uci_string mode =
    Inl (InvalidInput ((if MAX_ENGINE_LIMIT < w then ''white clock'' else ''black clock'') @ '' must not exceed 86400000''))"
proof -
  have "map digit_char [8, 6, 4, 0] = ''8640''" by code_simp
  then have limit: "show_nat MAX_ENGINE_LIMIT = ''86400000''"
    by (simp add: MAX_ENGINE_LIMIT_def show_nat.simps)
  obtain t where m: "mode = GoPlayersTime t" "pt_white t = word_of_nat w" "pt_black t = word_of_nat b" "w < 2 ^ 32" "b < 2 ^ 32"
    using assms by (auto simp: engine_search_request_def search_mode_def to_u32_def Let_def case_prod_unfold
        split: if_splits option.splits player_config.splits sum.splits)
  then have "unat (pt_white t) = w" "unat (pt_black t) = b" by (simp_all add: unat_of_nat)
  with assms(2) m(1) limit show ?thesis
    by (auto simp: to_uci_string_def players_time_validate_def)
qed

theorem long_clock_refuses_search_witness:
  "validate_time_controls (config demo_replied) = Inr () \<and> reached demo_rules [(demo_ctx, 0, [])] demo_replied
   \<and> (\<exists>engine mode rest. fst (engine_search_request demo_rules demo_replied) = Inr (Some (engine, mode, rest))
        \<and> to_uci_string mode = Inl (InvalidInput ''white clock must not exceed 86400000''))"
proof -
  let ?t = "\<lparr>pt_white = 86401000, pt_black = 86401000, pt_winc = 1000, pt_binc = 1000\<rparr>"
  have times: "fst (get_current_times demo_rules demo_replied) = (Some 86401000, Some 86401000)"
    by (simp add: get_current_times_def elapsed_ms_def demo_clock_def)
  then have "\<exists>rest. fst (engine_search_request demo_rules demo_replied) = Inr (Some (demo_engine, GoPlayersTime ?t, rest))"
    by (simp add: engine_search_request_def search_mode_def to_u32_def case_prod_unfold demo_clock_def Let_def)
  then show ?thesis
    using long_clock_refuses_search [OF times, of demo_engine "GoPlayersTime ?t"] demo_valid demo_replied_played
    by (auto simp: MAX_ENGINE_LIMIT_def)
qed

end
