(* ===== verification/GameSessions.thy ===== *)
theory GameSessions
  imports GameTheorems
begin

text \<open>
  The sessions of games, \<^verbatim>\<open>GameManager\<close> of \<^verbatim>\<open>game.rs\<close>: each game has a public identity, each start of
  it a session number, and every call names both. The manager keeps the live sessions, what became
  of the latest session of each game, and the final states of the last completed ones. The lifecycle lock of
  a game makes its calls atomic. Spawning engines and reading books is an argument of the start (what
  it constructs, or its error); waiting for a loop and for engines to end is its outcome.
\<close>

subsection \<open>State\<close>

definition COMPLETED_GAME_SNAPSHOTS :: nat where "COMPLETED_GAME_SNAPSHOTS = 128"
definition MAX_SAFE_JS_COUNTER :: nat where "MAX_SAFE_JS_COUNTER = 9007199254740991"

record 'p live_session =
  session_no :: nat
  controller :: "'p live_game"
  shutdown_sent :: bool
  cleanup_failed :: bool

datatype session_disposition = SessionActive | SessionCompleted | SessionTombstoned

record latest_session =
  latest_no :: nat
  disposition :: session_disposition

record completed_snapshot =
  snap_game :: string
  snap_session :: nat
  snap_state :: game_state

record 'p game_manager =
  live_games :: "string \<Rightarrow> 'p live_session option"
  next_session :: nat
  starts_sealed :: bool
  snapshots :: "completed_snapshot list"
  latest :: "string \<Rightarrow> latest_session option"

definition manager_new :: "'p game_manager" where
  "manager_new = \<lparr>live_games = (\<lambda>_. None), next_session = 0, starts_sealed = False, snapshots = [], latest = (\<lambda>_. None)\<rparr>"

subsection \<open>Bookkeeping\<close>

definition keeps_latest :: "'p game_manager \<Rightarrow> string \<Rightarrow> latest_session \<Rightarrow> bool" where
  "keeps_latest m gid l =
     (case disposition l of
        SessionActive \<Rightarrow> (case live_games m gid of Some live \<Rightarrow> session_no live = latest_no l | None \<Rightarrow> False)
      | SessionCompleted \<Rightarrow> list_ex (\<lambda>s. snap_game s = gid \<and> snap_session s = latest_no l) (snapshots m)
      | SessionTombstoned \<Rightarrow> list_ex (\<lambda>s. snap_game s = gid) (snapshots m))"

definition prune :: "'p game_manager \<Rightarrow> 'p game_manager" where
  "prune m =
     (let m = m\<lparr>snapshots := drop (length (snapshots m) - COMPLETED_GAME_SNAPSHOTS) (snapshots m)\<rparr>
      in m\<lparr>latest := (\<lambda>gid. case latest m gid of
                          Some l \<Rightarrow> if keeps_latest m gid l then Some l else None
                        | None \<Rightarrow> None)\<rparr>)"

definition set_latest :: "string \<Rightarrow> nat \<Rightarrow> session_disposition \<Rightarrow> 'p game_manager \<Rightarrow> 'p game_manager" where
  "set_latest gid s d m = m\<lparr>latest := (latest m)(gid := Some \<lparr>latest_no = s, disposition = d\<rparr>)\<rparr>"

definition ensure_accepting_starts :: "'p game_manager \<Rightarrow> unit result" where
  "ensure_accepting_starts m =
     (if starts_sealed m then Inl (Conflict ''application is shutting down'') else Inr ())"

definition allocate_session :: "('p game_manager, nat) io" where
  "allocate_session m =
     (if MAX_SAFE_JS_COUNTER \<le> next_session m then (Inl (ResourceLimit ''game session generation exhausted''), m)
      else (Inr (next_session m + 1), m\<lparr>next_session := next_session m + 1\<rparr>))"

definition publish_live :: "string \<Rightarrow> nat \<Rightarrow> 'p live_session \<Rightarrow> ('p game_manager, unit) io" where
  "publish_live gid s live m =
     (case ensure_accepting_starts m of
        Inl e \<Rightarrow> (Inl e, m)
      | Inr _ \<Rightarrow>
          (Inr (), prune (set_latest gid s SessionActive (m\<lparr>live_games := (live_games m)(gid := Some live)\<rparr>))))"

definition exact_live :: "string \<Rightarrow> nat \<Rightarrow> 'p game_manager \<Rightarrow> bool" where
  "exact_live gid s m = (case live_games m gid of Some live \<Rightarrow> session_no live = s | None \<Rightarrow> False)"

text \<open>The loop of a game ended: its final state is kept, and the session leaves unless its cleanup failed.\<close>

definition complete_exact ::
  "('p, 'm, 'u, 's, 'k, 'e) chess_rules \<Rightarrow> string \<Rightarrow> nat \<Rightarrow> 'p live_game \<Rightarrow> 'p game_manager \<Rightarrow> 'p game_manager" where
  "complete_exact R gid s g m =
     (let snapshot = fst (get_state R g);
          active = (latest m gid = Some \<lparr>latest_no = s, disposition = SessionActive\<rparr>)
      in if \<not> exact_live gid s m \<or> \<not> active then m
         else (let m = m\<lparr>snapshots := filter (\<lambda>e. snap_game e \<noteq> gid \<or> snap_session e \<noteq> s) (snapshots m)
                                     @ [\<lparr>snap_game = gid, snap_session = s, snap_state = snapshot\<rparr>]\<rparr>;
                   m = (case live_games m gid of
                          Some live \<Rightarrow>
                            if session_no live = s \<and> \<not> cleanup_failed live
                            then m\<lparr>live_games := (live_games m)(gid := None)\<rparr> else m
                        | None \<Rightarrow> m)
               in prune (set_latest gid s SessionCompleted m)))"

definition retire_live_locked ::
  "string \<Rightarrow> nat \<Rightarrow> 'p game_manager \<Rightarrow> 'p live_session option \<times> 'p game_manager" where
  "retire_live_locked gid s m =
     (case live_games m gid of
        Some live \<Rightarrow>
          if session_no live = s
          then (Some live, prune (set_latest gid s SessionTombstoned (m\<lparr>live_games := (live_games m)(gid := None)\<rparr>)))
          else (None, prune m)
      | None \<Rightarrow> (None, prune m))"

subsection \<open>Calls\<close>

definition current_session :: "string \<Rightarrow> nat \<Rightarrow> 'p game_manager \<Rightarrow> 'p live_session result" where
  "current_session gid s m =
     (case live_games m gid of
        None \<Rightarrow> Inl (GameNotFound gid)
      | Some live \<Rightarrow>
          if session_no live \<noteq> s then Inl (Conflict ''game session is no longer current'') else Inr live)"

text \<open>
  A start: \<^term>\<open>slot\<close> tells whether a cleanup slot is free, \<^term>\<open>build\<close> what constructing the game with its book
  and engines gives, \<^term>\<open>cleanup\<close> how the replaced session ends.
\<close>

definition start_game ::
  "('p, 'm, 'u, 's, 'k, 'e) chess_rules \<Rightarrow> string \<Rightarrow> bool \<Rightarrow> (nat \<Rightarrow> 'p live_game result) \<Rightarrow> unit result
     \<Rightarrow> ('p game_manager, game_state) io" where
  "start_game R gid slot build cleanup =
     bind_io (\<lambda>m. (ensure_accepting_starts m, m)) (\<lambda>_.
     bind_io (guard_io (\<not> slot) (ResourceLimit ''game cleanup observation capacity reached'')) (\<lambda>_.
     bind_io allocate_session (\<lambda>s.
     bind_io (of_result (build s)) (\<lambda>g.
       let (st, g) = get_state R g
       in bind_io (\<lambda>m. case live_games m gid of
                         Some old \<Rightarrow> (cleanup, snd (retire_live_locked gid (session_no old) m))
                       | None \<Rightarrow> (Inr (), m)) (\<lambda>_.
          let (claimed, g) = attempt_terminal_event_emission g
          in bind_io (publish_live gid s \<lparr>session_no = s, controller = g, shutdown_sent = claimed, cleanup_failed = False\<rparr>)
               (\<lambda>_. return_io st))))))"

definition get_game_state ::
  "('p, 'm, 'u, 's, 'k, 'e) chess_rules \<Rightarrow> string \<Rightarrow> nat \<Rightarrow> ('p game_manager, game_state) io" where
  "get_game_state R gid s m =
     (case live_games m gid of
        Some live \<Rightarrow>
          if session_no live \<noteq> s then (Inl (Conflict ''game session is no longer current''), m)
          else (let (st, g) = get_state R (controller live)
                in (Inr st, m\<lparr>live_games := (live_games m)(gid := Some (live\<lparr>controller := g\<rparr>))\<rparr>))
      | None \<Rightarrow>
          (case latest m gid of
             None \<Rightarrow> (Inl (GameNotFound gid), m)
           | Some l \<Rightarrow>
               if latest_no l \<noteq> s then (Inl (Conflict ''game session is no longer current''), m)
               else if disposition l = SessionTombstoned then (Inl (GameNotFound gid), m)
               else case find (\<lambda>e. snap_game e = gid \<and> snap_session e = s) (rev (snapshots m)) of
                      Some e \<Rightarrow> (Inr (snap_state e), m)
                    | None \<Rightarrow> (Inl (GameNotFound gid), m)))"

text \<open>A call on a live session: it runs under the write lock and may send the shutdown of the loop.\<close>

definition session_call ::
  "string \<Rightarrow> nat \<Rightarrow> string \<Rightarrow> ('p live_game, game_state \<times> bool) io \<Rightarrow> ('p game_manager, game_state) io" where
  "session_call gid s changed call m =
     (case current_session gid s m of
        Inl e \<Rightarrow> (Inl e, m)
      | Inr live \<Rightarrow>
          if \<not> exact_live gid s m then (Inl (Conflict changed), m)
          else (case call (controller live) of
                  (Inl e, g) \<Rightarrow> (Inl e, m\<lparr>live_games := (live_games m)(gid := Some (live\<lparr>controller := g\<rparr>))\<rparr>)
                | (Inr (st, stop), g) \<Rightarrow>
                    (Inr st, m\<lparr>live_games := (live_games m)(gid := Some
                       (live\<lparr>controller := g, shutdown_sent := (shutdown_sent live \<or> stop)\<rparr>))\<rparr>)))"

definition make_move ::
  "('p, 'm, 'u, 's, 'k, 'e) chess_rules \<Rightarrow> string \<Rightarrow> nat \<Rightarrow> string \<Rightarrow> nat \<Rightarrow> ('p game_manager, game_state) io" where
  "make_move R gid s uci ply =
     session_call gid s ''game session changed before move commit'' (make_move_locked R uci ply)"

definition take_back_move ::
  "('p, 'm, 'u, 's, 'k, 'e) chess_rules \<Rightarrow> string \<Rightarrow> nat \<Rightarrow> ('p game_manager, game_state) io" where
  "take_back_move R gid s =
     session_call gid s ''game session changed before takeback commit'' (take_back_locked R)"

definition resign ::
  "('p, 'm, 'u, 's, 'k, 'e) chess_rules \<Rightarrow> string \<Rightarrow> nat \<Rightarrow> string \<Rightarrow> ('p game_manager, game_state) io" where
  "resign R gid s side =
     session_call gid s ''game session changed before resignation commit'' (resign_locked R side)"

text \<open>An abort that found the session commits; errors of the cleanup are only logged.\<close>

definition abort_game :: "string \<Rightarrow> nat \<Rightarrow> ('p game_manager, unit) io" where
  "abort_game gid s m =
     (case current_session gid s m of
        Inl e \<Rightarrow> (Inl e, m)
      | Inr _ \<Rightarrow>
          (case retire_live_locked gid s m of
             (None, m) \<Rightarrow> (Inl (Conflict ''game session changed before abort commit''), m)
           | (Some _, m) \<Rightarrow> (Inr (), m)))"

subsection \<open>Steps\<close>

datatype 'p manager_input =
    StartGame string bool "nat \<Rightarrow> 'p live_game result" "unit result"
  | ReadGame string nat
  | MoveCall string nat string nat
  | TakeBackCall string nat
  | ResignCall string nat string
  | AbortCall string nat
  | InnerStep string game_input
  | CleanupFailed string
  | LoopEnded string nat
  | NeverStarted string nat
  | SealStarts

definition on_live :: "string \<Rightarrow> ('p live_session \<Rightarrow> 'p live_session) \<Rightarrow> 'p game_manager \<Rightarrow> 'p game_manager" where
  "on_live gid f m = m\<lparr>live_games := (live_games m)(gid := map_option f (live_games m gid))\<rparr>"

fun manager_step ::
  "('p, 'm, 'u, 's, 'k, 'e) chess_rules \<Rightarrow> 'p manager_input \<Rightarrow> 'p game_manager \<Rightarrow> 'p game_manager" where
  "manager_step R (StartGame gid slot build cleanup) m = snd (start_game R gid slot build cleanup m)"
| "manager_step R (ReadGame gid s) m = snd (get_game_state R gid s m)"
| "manager_step R (MoveCall gid s uci ply) m = snd (make_move R gid s uci ply m)"
| "manager_step R (TakeBackCall gid s) m = snd (take_back_move R gid s m)"
| "manager_step R (ResignCall gid s side) m = snd (resign R gid s side m)"
| "manager_step R (AbortCall gid s) m = snd (abort_game gid s m)"
| "manager_step R (InnerStep gid i) m = on_live gid (\<lambda>l. l\<lparr>controller := game_step R i (controller l)\<rparr>) m"
| "manager_step R (CleanupFailed gid) m = on_live gid (\<lambda>l. l\<lparr>cleanup_failed := True\<rparr>) m"
| "manager_step R (LoopEnded gid s) m =
     (case live_games m gid of Some live \<Rightarrow> complete_exact R gid s (controller live) m | None \<Rightarrow> m)"
| "manager_step R (NeverStarted gid s) m = snd (retire_live_locked gid s m)"
| "manager_step R SealStarts m = m\<lparr>starts_sealed := True\<rparr>"

text \<open>What a start constructs is a game that can be reached, with the identity and the session of the start.\<close>

fun input_ok :: "('p, 'm, 'u, 's, 'k, 'e) chess_rules \<Rightarrow> 'p manager_input \<Rightarrow> bool" where
  "input_ok R (StartGame gid slot build cleanup) \<longleftrightarrow>
     (\<forall>s g. build s = Inr g \<longrightarrow> game_id g = gid \<and> session g = s \<and> (\<exists>issued. reached R issued g))"
| "input_ok R _ \<longleftrightarrow> True"

inductive managed :: "('p, 'm, 'u, 's, 'k, 'e) chess_rules \<Rightarrow> 'p game_manager \<Rightarrow> bool" for R where
  fresh: "managed R manager_new"
| step: "managed R m \<Longrightarrow> input_ok R i \<Longrightarrow> managed R (manager_step R i m)"

end
