(* ===== verification/GameSessionTheorems.thy ===== *)
theory GameSessionTheorems
  imports GameSessions
begin

text \<open>
  Calls reach the session they name and no other: what the manager answers for a session is a
  state of it, the final state of a completed session stays readable, and a call that names an
  older session changes nothing.
\<close>

subsection \<open>Games keep their identity\<close>

definition same_game :: "'p live_game \<Rightarrow> 'p live_game \<Rightarrow> bool" where
  "same_game g h \<longleftrightarrow> game_id h = game_id g \<and> session h = session g"

lemma same_game_replay: "same_game g (snd (replay_moves R ms g))"
  by (induction R ms g rule: replay_moves.induct) (auto simp: same_game_def Let_def split: sum.split)

lemma same_game_rebuild: "same_game g (snd (rebuild_position_from_moves R g))"
  using same_game_replay [of "g\<lparr>position := root_position g, position_history := first_count R (root_position g)\<rparr>" R "moves g"]
  by (auto simp: same_game_def rebuild_position_from_moves_def bind_io_def split: prod.split sum.split option.split)

lemma same_game_take_back: "same_game g (snd (take_back_moves R n g))"
  using same_game_rebuild [of "(cancel_engine_request g)\<lparr>moves := (butlast ^^ n) (moves g), status := Playing\<rparr>" R]
  by (auto simp: same_game_def take_back_moves_def bind_io_def split: prod.split sum.split)

lemma same_game_apply: "same_game g (snd (apply_move R u g))"
proof (cases "status g \<noteq> Playing")
  case False
  obtain r h where settled: "settle_active_clock R g = (r, h)" by (metis prod.collapse)
  then have "game_id h = game_id g" "session h = session g" using settle_frame [of R g] by simp_all
  with False settled show ?thesis
    by (cases r; cases "uci_move R (position h) u"; cases "clock (play_on_board R (projr (uci_move R (position h) u)) h)")
      (simp_all add: apply_move_def same_game_def Let_def case_prod_unfold)
qed (simp add: apply_move_def same_game_def)

lemma same_game_tail [simp]:
  "same_game g (snd (get_state R h)) \<longleftrightarrow> same_game g h"
  "same_game g (snd (attempt_terminal_event_emission h)) \<longleftrightarrow> same_game g h"
  "same_game g (emit_move R fen h) \<longleftrightarrow> same_game g h"
  "same_game g (notify_loop h) \<longleftrightarrow> same_game g h"
  "same_game g g"
  by (simp_all add: same_game_def)

lemma same_game_move: "same_game g (snd (make_move_locked R u n g))"
  using same_game_apply [of g R u]
  by (cases "apply_move R u g")
    (simp_all add: make_move_locked_def Let_def case_prod_unfold split: sum.split game_status.split)

lemma same_game_commit: "same_game g (snd (commit_engine_move R allowed turn u g))"
  using same_game_apply [of g R u]
  by (cases "apply_move R u g") (simp_all add: commit_engine_move_def split: sum.split game_status.split)

lemma same_game_take_back_locked: "same_game g (snd (take_back_locked R g))"
  using same_game_take_back [of g R "if human_color (config g) = Some (side_to_move R (position g)) then 2 else 1"]
  by (auto simp: take_back_locked_def bind_io_def Let_def case_prod_unfold split: prod.splits sum.splits)

lemma same_game_tick: "same_game g (snd (clock_tick R g))"
proof -
  obtain r h where settled: "settle_active_clock R g = (r, h)" by (metis prod.collapse)
  then have "game_id h = game_id g" "session h = session g" using settle_frame [of R g] by simp_all
  with settled show ?thesis
    by (simp add: clock_tick_def same_game_def Let_def case_prod_unfold split: option.split)
qed

lemma same_game_step: "same_game g (game_step R i g)"
  by (cases i)
    (simp_all add: same_game_move same_game_take_back_locked same_game_tick same_game_commit commit_book_move_def
      commit_engine_result_def, simp_all add: same_game_def resign_locked_def engine_task_failed_def Let_def
      case_prod_unfold split: option.split)

subsection \<open>The invariant\<close>

definition live_session_ok :: "nat \<Rightarrow> string \<Rightarrow> 'p live_session \<Rightarrow> bool" where
  "live_session_ok n gid l \<longleftrightarrow> game_id (controller l) = gid \<and> session (controller l) = session_no l \<and> session_no l \<le> n"

definition snapshot_ok :: "completed_snapshot \<Rightarrow> bool" where
  "snapshot_ok e \<longleftrightarrow> st_game_id (snap_state e) = snap_game e \<and> st_session (snap_state e) = snap_session e"

definition sessions_ok :: "'p game_manager \<Rightarrow> bool" where
  "sessions_ok m \<longleftrightarrow>
     (\<forall>gid l. live_games m gid = Some l \<longrightarrow> live_session_ok (next_session m) gid l)
     \<and> (\<forall>e \<in> set (snapshots m). snapshot_ok e) \<and> length (snapshots m) \<le> COMPLETED_GAME_SNAPSHOTS
     \<and> (\<forall>gid l. latest m gid = Some l \<longrightarrow> latest_no l \<le> next_session m)"

lemma live_ok_mono: "live_session_ok n gid l \<Longrightarrow> n \<le> k \<Longrightarrow> live_session_ok k gid l"
  by (simp add: live_session_ok_def)

lemma get_state_identity [simp]:
  "st_game_id (fst (get_state R g)) = game_id g" "st_session (fst (get_state R g)) = session g"
  by (simp_all add: get_state_def case_prod_unfold Let_def)

lemma prune_fields [simp]:
  "live_games (prune m) = live_games m" "next_session (prune m) = next_session m"
  "snapshots (prune m) = drop (length (snapshots m) - COMPLETED_GAME_SNAPSHOTS) (snapshots m)"
  by (simp_all add: prune_def Let_def)

lemma latest_prune: "latest (prune m) gid = Some l \<Longrightarrow> latest m gid = Some l"
  by (auto simp: prune_def Let_def split: option.splits if_splits)

text \<open>Pruning brings the snapshots back within their bound.\<close>

lemma sessions_prune:
  assumes "\<And>gid l. live_games m gid = Some l \<Longrightarrow> live_session_ok (next_session m) gid l"
    "\<And>e. e \<in> set (snapshots m) \<Longrightarrow> snapshot_ok e"
    "\<And>gid l. latest m gid = Some l \<Longrightarrow> latest_no l \<le> next_session m"
  shows "sessions_ok (prune m)"
  using assms(1,2) assms(3) [OF latest_prune [of m]] by (auto simp: sessions_ok_def dest: in_set_dropD)

lemma sessionsD:
  assumes "sessions_ok m"
  shows "live_games m gid = Some l \<Longrightarrow> live_session_ok (next_session m) gid l"
    and "e \<in> set (snapshots m) \<Longrightarrow> snapshot_ok e"
    and "latest m gid = Some k \<Longrightarrow> latest_no k \<le> next_session m"
  using assms by (simp_all add: sessions_ok_def)

lemma sessions_on_live:
  "sessions_ok m \<Longrightarrow> (\<And>l. same_game (controller l) (controller (f l)) \<and> session_no (f l) = session_no l) \<Longrightarrow>
     sessions_ok (on_live gid f m)"
  by (auto simp: sessions_ok_def on_live_def live_session_ok_def same_game_def)

lemma sessions_retire: "sessions_ok m \<Longrightarrow> sessions_ok (snd (retire_live_locked gid s m))"
  using sessionsD [of m]
  by (auto simp: retire_live_locked_def set_latest_def live_session_ok_def intro!: sessions_prune split: option.split if_splits)

lemma retire_next [simp]: "next_session (snd (retire_live_locked gid s m)) = next_session m"
  by (simp add: retire_live_locked_def set_latest_def split: option.split)

lemma sessions_publish:
  "sessions_ok m \<Longrightarrow> live_session_ok (next_session m) gid live \<Longrightarrow> session_no live = s \<Longrightarrow> sessions_ok (snd (publish_live gid s live m))"
  using sessionsD [of m]
  by (auto simp: publish_live_def set_latest_def live_session_ok_def intro!: sessions_prune split: sum.split if_splits)

lemma sessions_allocate:
  "sessions_ok m \<Longrightarrow> sessions_ok (m\<lparr>next_session := Suc (next_session m)\<rparr>)"
  by (auto simp: sessions_ok_def intro: live_ok_mono le_SucI)

lemma sessions_start:
  assumes "sessions_ok m" "input_ok R (StartGame gid slot build cleanup)"
  shows "sessions_ok (snd (start_game R gid slot build cleanup m))"
proof -
  let ?m = "m\<lparr>next_session := Suc (next_session m)\<rparr>"
  have m: "sessions_ok ?m" by (rule sessions_allocate [OF assms(1)])
  let ?live = "\<lambda>g claimed. \<lparr>session_no = Suc (next_session m), controller = g, shutdown_sent = claimed, cleanup_failed = False\<rparr>"
  have p: "sessions_ok (snd (publish_live gid (Suc (next_session m)) (?live h claimed) k))"
    if "build (Suc (next_session m)) = Inr g" "same_game g h" "sessions_ok k" "next_session k = Suc (next_session m)" for g h claimed k
    using assms(2) that by (intro sessions_publish) (auto simp: live_session_ok_def same_game_def)
  have published: "sessions_ok (snd (bind_io (publish_live gid (Suc (next_session m)) (?live h claimed)) (\<lambda>_. return_io st) k))"
    if "build (Suc (next_session m)) = Inr g" "same_game g h" "sessions_ok k" "next_session k = Suc (next_session m)" for g h claimed k st
    using p [OF that, of claimed] by (auto simp: bind_io_def split: prod.split sum.split)
  show ?thesis
  proof (cases "ensure_accepting_starts m = Inr () \<and> slot \<and> next_session m < MAX_SAFE_JS_COUNTER")
    case False
    then show ?thesis using assms(1)
      by (cases "ensure_accepting_starts m") (auto simp: start_game_def bind_io_def allocate_session_def)
  next
    case go: True
    show ?thesis
    proof (cases "build (Suc (next_session m))")
      case (Inl e)
      with go m show ?thesis by (simp add: start_game_def bind_io_def allocate_session_def)
    next
      case (Inr g)
      let ?g = "snd (get_state R g)"
      let ?h = "snd (attempt_terminal_event_emission ?g)"
      have h: "same_game g ?h" by simp
      show ?thesis
      proof (cases "live_games m gid")
        case None
        with go Inr published [OF Inr h m] show ?thesis
          by (simp add: start_game_def bind_io_def allocate_session_def case_prod_unfold Let_def)
      next
        case (Some old)
        let ?k = "snd (retire_live_locked gid (session_no old) ?m)"
        have k: "sessions_ok ?k" "next_session ?k = Suc (next_session m)" using sessions_retire [OF m] by simp_all
        from go Inr Some k published [OF Inr h k] show ?thesis
          by (cases cleanup) (simp_all add: start_game_def bind_io_def allocate_session_def case_prod_unfold Let_def)
      qed
    qed
  qed
qed

lemma sessions_read: "sessions_ok m \<Longrightarrow> sessions_ok (snd (get_game_state R gid s m))"
  by (auto simp: get_game_state_def case_prod_unfold Let_def sessions_ok_def live_session_ok_def split: option.split)

lemma sessions_call:
  assumes "sessions_ok m" "\<And>g. same_game g (snd (call g))"
  shows "sessions_ok (snd (session_call gid s changed call m))"
proof (cases "current_session gid s m")
  case (Inr live)
  then have "live_games m gid = Some live" by (auto simp: current_session_def split: option.splits if_splits)
  with assms(1) assms(2) [of "controller live"] Inr show ?thesis
    by (cases "call (controller live)")
      (auto simp: session_call_def sessions_ok_def live_session_ok_def same_game_def split: sum.splits)
qed (use assms(1) in \<open>simp add: session_call_def\<close>)

lemma same_game_resign: "same_game g (snd (resign_locked R side g))"
  using same_game_step [of g R "Resign side"] by simp

lemma sessions_complete:
  "sessions_ok m \<Longrightarrow> live_games m gid = Some live \<Longrightarrow> sessions_ok (complete_exact R gid s (controller live) m)"
  using sessionsD [of m]
  by (auto simp: complete_exact_def set_latest_def exact_live_def live_session_ok_def snapshot_ok_def Let_def
      intro!: sessions_prune split: option.splits if_splits)

lemma sessions_abort: "sessions_ok m \<Longrightarrow> sessions_ok (snd (abort_game gid s m))"
  using sessions_retire [of m gid s]
  by (auto simp: abort_game_def split: sum.split prod.splits option.split)

lemma managed_sessions: "managed R m \<Longrightarrow> sessions_ok m"
proof (induction rule: managed.induct)
  case fresh
  show ?case by (simp add: sessions_ok_def manager_new_def)
next
  case (step m i)
  show ?case
  proof (cases i)
    case (StartGame gid slot build cleanup)
    with sessions_start step show ?thesis by simp
  next
    case (LoopEnded gid s)
    with step.IH show ?thesis by (simp add: sessions_complete split: option.split)
  next
    case SealStarts
    with step.IH show ?thesis by (simp add: sessions_ok_def)
  qed (use step.IH in \<open>simp_all add: sessions_read sessions_abort sessions_retire sessions_on_live same_game_step
      make_move_def take_back_move_def resign_def sessions_call same_game_move same_game_take_back_locked same_game_resign\<close>)
qed

subsection \<open>Properties\<close>

lemma find_holds: "find P xs = Some x \<Longrightarrow> P x \<and> x \<in> set xs"
  by (induction xs) (auto split: if_splits)

text \<open>
  C14. What the manager answers for a session of a game, live or completed, is a state of that game and
  of that session, and at most 128 final states are kept.
\<close>

theorem reads_belong_to_their_session:
  assumes "managed R m" "get_game_state R gid s m = (Inr st, m')"
  shows "st_game_id st = gid \<and> st_session st = s \<and> length (snapshots m') \<le> 128"
proof -
  note ok = managed_sessions [OF assms(1)]
  have "length (snapshots m') \<le> 128"
    using sessions_read [OF ok, of R gid s] assms(2) by (simp add: sessions_ok_def COMPLETED_GAME_SNAPSHOTS_def)
  moreover have "st_game_id st = gid \<and> st_session st = s"
  proof (cases "live_games m gid")
    case (Some live)
    with sessionsD(1) [OF ok Some] assms(2) show ?thesis
      by (auto simp: get_game_state_def live_session_ok_def case_prod_unfold Let_def split: if_splits)
  next
    case None
    then obtain e where "find (\<lambda>e. snap_game e = gid \<and> snap_session e = s) (rev (snapshots m)) = Some e" "st = snap_state e"
      using assms(2) by (auto simp: get_game_state_def split: option.splits if_splits)
    moreover from this(1) have "e \<in> set (snapshots m)" "snap_game e = gid" "snap_session e = s"
      by (auto dest: find_holds)
    ultimately show ?thesis using sessionsD(2) [OF ok] by (auto simp: snapshot_ok_def)
  qed
  ultimately show ?thesis by simp
qed

text \<open>A first start that fails, and a second one that gives the example game.\<close>

definition demo_manager :: "nat game_manager" where
  "demo_manager =
     manager_step demo_rules (StartGame ''g'' True (\<lambda>s. if s = 2 then Inr demo_start else Inl NoMovesFound) (Inr ()))
       (manager_step demo_rules (StartGame ''g'' True (\<lambda>_. Inl NoMovesFound) (Inr ())) manager_new)"

lemma demo_start_identity [simp]: "game_id demo_start = ''g''" "session demo_start = 2" "status demo_start = Playing"
  "delays demo_start = []" "position demo_start = 0"
  by (simp_all add: demo_start_eq)

lemma demo_managed: "managed demo_rules demo_manager"
  unfolding demo_manager_def
  by (intro managed.intros) (use demo_start_played in \<open>auto split: if_splits\<close>)

lemma demo_read_still: "snd (get_state demo_rules demo_start) = demo_start"
  by (simp add: get_state_def case_prod_unfold Let_def)

lemma demo_manager_live:
  "live_games demo_manager ''g'' =
     Some \<lparr>session_no = 2, controller = demo_start, shutdown_sent = False, cleanup_failed = False\<rparr>"
  "latest demo_manager ''g'' = Some \<lparr>latest_no = 2, disposition = SessionActive\<rparr>"
  by (simp_all add: demo_manager_def start_game_def bind_io_def manager_new_def ensure_accepting_starts_def
      allocate_session_def MAX_SAFE_JS_COUNTER_def publish_live_def case_prod_unfold demo_read_still Let_def
      set_latest_def prune_def keeps_latest_def)

theorem reads_belong_to_their_session_witness:
  "\<exists>st m'. get_game_state demo_rules ''g'' 2 demo_manager = (Inr st, m') \<and> st_game_id st = ''g'' \<and> st_session st = 2"
proof -
  obtain st m' where r: "get_game_state demo_rules ''g'' 2 demo_manager = (Inr st, m')"
    by (simp add: get_game_state_def demo_manager_live case_prod_unfold Let_def)
  with reads_belong_to_their_session [OF demo_managed r] show ?thesis by blast
qed

text \<open>
  C15. The final state of a game stays readable when its loop ends: the call that names the session
  answers the state the game had, whether or not the cleanup of its engines failed.
\<close>

theorem final_state_stays_readable:
  assumes "live_games m gid = Some live" "session_no live = s"
    "latest m gid = Some \<lparr>latest_no = s, disposition = SessionActive\<rparr>"
  shows "fst (get_game_state R gid s (complete_exact R gid s (controller live) m)) = Inr (fst (get_state R (controller live)))"
proof -
  let ?e = "\<lparr>snap_game = gid, snap_session = s, snap_state = fst (get_state R (controller live))\<rparr>"
  let ?old = "filter (\<lambda>e. snap_game e \<noteq> gid \<or> snap_session e \<noteq> s) (snapshots m)"
  obtain kept where kept: "drop (length (?old @ [?e]) - COMPLETED_GAME_SNAPSHOTS) (?old @ [?e]) = kept @ [?e]"
    by (simp add: COMPLETED_GAME_SNAPSHOTS_def)
  show ?thesis
  proof (cases "cleanup_failed live")
    case True
    with assms show ?thesis
      by (simp add: complete_exact_def exact_live_def get_game_state_def set_latest_def case_prod_unfold Let_def)
  next
    case False
    with assms kept show ?thesis
      by (simp add: complete_exact_def exact_live_def get_game_state_def set_latest_def prune_def keeps_latest_def Let_def)
  qed
qed

theorem final_state_stays_readable_witness:
  "fst (get_game_state demo_rules ''g'' 2 (complete_exact demo_rules ''g'' 2 demo_start demo_manager))
     = Inr (fst (get_state demo_rules demo_start))"
  using final_state_stays_readable [OF demo_manager_live(1) _ demo_manager_live(2)] by simp

text \<open>
  A call that names a session that is not the live one of its game fails and changes nothing: a
  window that still shows an older session cannot move, take back, resign or abort the newer one.
\<close>

theorem stale_calls_change_nothing:
  assumes "\<not> exact_live gid s m"
  shows "\<exists>e. make_move R gid s uci ply m = (Inl e, m) \<and> take_back_move R gid s m = (Inl e, m)
    \<and> resign R gid s side m = (Inl e, m) \<and> abort_game gid s m = (Inl e, m)"
  using assms
  by (cases "live_games m gid")
    (simp_all add: exact_live_def make_move_def take_back_move_def resign_def abort_game_def session_call_def current_session_def)

theorem stale_calls_change_nothing_witness:
  "\<exists>e. resign demo_rules ''g'' 1 ''white'' demo_manager = (Inl e, demo_manager)"
  using stale_calls_change_nothing [of "''g''" 1 demo_manager demo_rules "''a''" 0 "''white''"]
  by (auto simp: exact_live_def demo_manager_live)

end
