(* ===== verification/Spec2Isabelle.thy ===== *)
theory Spec2Isabelle
  imports PgnReads KeyedLocks Progress PracticeMapCalls PracticePages PracticeRecord PracticeListing
    OperationOwners AccountImport PolyglotTheorems GameSessionTheorems
begin

text \<open>
  Verification of the native backend of ChessRiddle Studio (\<^verbatim>\<open>src/src-tauri/src\<close>): the Rust code that
  imports games into a database, gives access to PGN files, keeps practice decks, reports progress,
  admits, cancels and drains native operations and plays live games against engines. Paths below are
  relative to \<^verbatim>\<open>src/src-tauri/src\<close>.

  \<^bold>\<open>The program and the theories.\<close>

  \<^item> Foundations. \<^verbatim>\<open>Prelude\<close> holds the machine types and the facts about lists, words and decimal
    numbers that the components share; \<^verbatim>\<open>Utf8\<close> the bytes of strings. \<^verbatim>\<open>Effects\<close> is the monad in which
    fallible code with mutable state is written (\<^verbatim>\<open>Result\<close> and the question-mark operator), its
    weakest preconditions, and the cancellation token: \<^term>\<open>After n\<close> is a run in which the
    cancellation becomes visible at poll \<^term>\<open>n\<close>.
  \<^item> \<^verbatim>\<open>Errors\<close> (\<^verbatim>\<open>error.rs\<close>, the failure types of \<^verbatim>\<open>engine/types.rs\<close>): every error variant with its
    message, category, labels, cleanup combination and the payload sent to the renderer; committed
    removals. Shown: labels are invisible on the wire and idempotent, the payload does not depend
    on private text, that of nested errors included, a failed cleanup keeps both diagnostics.
  \<^item> \<^verbatim>\<open>Encoding\<close> (\<^verbatim>\<open>db/encoding.rs\<close>): the byte stream of a stored game, its encoder, the iterator over
    the main line, the structural validation, the decoder to a tree and to movetext. The chess rules
    (\<^verbatim>\<open>shakmaty\<close>) are a parameter. \<^verbatim>\<open>StreamReaders\<close> relates the readers to each other: the iterator,
    the validation and the decoder agree on every decodable stream, and a cancelled rendering
    reports the cancellation or returns the undisturbed text.
  \<^item> \<^verbatim>\<open>Importer\<close> (\<^verbatim>\<open>db/mod.rs\<close>, the visitor of \<^verbatim>\<open>pgn-reader\<close>): the calls for moves, comments, numeric
    annotations and variations as transitions of the importer's state. Shown: importing a well
    nested game and decoding what was stored gives back its tree; a game is decodable exactly when
    all its variations were closed. \<^verbatim>\<open>GameRows\<close> (\<^verbatim>\<open>db/ops.rs\<close>, \<^verbatim>\<open>db/models.rs\<close>, \<^verbatim>\<open>insert_to_db\<close>): rows and
    name tables under any failing statement. \<^verbatim>\<open>PgnTags\<close>: the tag lines of the export and their way
    back through the importer and the tag scanner.
  \<^item> \<^verbatim>\<open>PgnScan\<close> (\<^verbatim>\<open>pgn.rs\<close>, \<^verbatim>\<open>scan_games_cancelled\<close>): the scanner that finds the byte range of each
    game; its ranges partition the file. \<^verbatim>\<open>PgnAccess\<close>: page selection, bounded range reads and the
    edit that replaces, inserts or deletes one range. \<^verbatim>\<open>PgnCache\<close>: the repository's scan cache with
    its entry and byte budgets, a refinement of the unbounded history of retained scans.
    \<^verbatim>\<open>PgnReads\<close>: reads of a file that other processes may change between any two steps; the reads
    compare revisions and retry, and what they return belongs to one revision.
  \<^item> \<^verbatim>\<open>KeyedLocks\<close> (\<^verbatim>\<open>infra/keyed_locks.rs\<close>, \<^verbatim>\<open>infra/cancellable_lock.rs\<close>, the registry of
    \<^verbatim>\<open>practice.rs\<close>): mutexes handed out per key, with explicit reference counts, as a step relation
    over all interleavings; cancellable waits.
  \<^item> \<^verbatim>\<open>Progress\<close> (\<^verbatim>\<open>progress.rs\<close>): the store of running jobs with generations, expiry, eviction, leases
    and job guards.
  \<^item> \<^verbatim>\<open>PracticeDir\<close>, \<^verbatim>\<open>PracticeMap\<close>, \<^verbatim>\<open>PracticeCalls\<close> (\<^verbatim>\<open>practice.rs\<close>): the practice directory under any
    failures of the file system, the names of its leaves, the deck map that says which deck each
    game of a file owns, and the protocol that keeps it in step with the deletion of games.
    \<^verbatim>\<open>PracticeMapCalls\<close> runs all calls that touch the map one after another, the calls on the deck of
    a game and the repair of an unreadable map included: while the deletions name games of files of at
    most a million games, which the code does not check, the map stays readable and deck numbers are
    never reused.
  \<^item> \<^verbatim>\<open>PracticeDeck\<close> (\<^verbatim>\<open>practice.rs\<close>): the decks: the positions document, the review history in sealed
    shards, their validation, and the calls that load, record, synchronise, reset, acknowledge and
    page. \<^verbatim>\<open>PracticeLoad\<close> says what a loaded deck guarantees; \<^verbatim>\<open>PracticeReviews\<close> what writing a shard or
    a positions document does to the deck on the disk; \<^verbatim>\<open>PracticeRecord\<close> that a review sent again
    through any failures is in the history once; \<^verbatim>\<open>PracticePages\<close> that following the page cursors
    reads the whole history once and ends. \<^verbatim>\<open>PracticeMigration\<close> models the migration of a legacy
    document, the repair of a deck and the calls through the deck map; \<^verbatim>\<open>PracticeMigrated\<close> shows that
    an interrupted migration that is started again imports every log once and in order,
    \<^verbatim>\<open>PracticeRepair\<close> what a repair leaves. \<^verbatim>\<open>PracticeInventory\<close> models the listing of all decks and
    \<^verbatim>\<open>PracticeListing\<close> shows that it agrees with the loads. \<^verbatim>\<open>PracticeExamples\<close> holds small decks for
    the witnesses.
  \<^item> \<^verbatim>\<open>OperationTypes\<close>, \<^verbatim>\<open>Operations\<close> (\<^verbatim>\<open>infra/operations.rs\<close>, \<^verbatim>\<open>infra/operations/completions.rs\<close>,
    \<^verbatim>\<open>infra/blocking.rs\<close>): the registry of native operations: admission by resource key, one
    reservation per window, the state machine of a download from its reservation to its commit, the
    leases and what dropping one removes, the mailbox of retained completions, sealing and draining,
    and the gateway that runs blocking work. \<^verbatim>\<open>OperationSteps\<close> runs these calls as a step relation over
    the issued identities, the live leases and the registry; \<^verbatim>\<open>OperationRefine\<close> shows each call to be
    a sequence of a few elementary steps, over which \<^verbatim>\<open>OperationSafety\<close> proves the invariants, and
    \<^verbatim>\<open>OperationTheorems\<close> states what follows: tables and leases agree, a key admits one operation, a
    committed download is not cancelled, a cancelled reservation never runs, a sealed registry
    drains. \<^verbatim>\<open>OperationOwners\<close>: a call of one window leaves the downloads of the others alone.
  \<^item> \<^verbatim>\<open>AccountImport\<close> (\<^verbatim>\<open>infra/operations/accounts.rs\<close>): the loop that imports a linked account's games
    archive by archive, with its cursor, its retries and its completion. Shown: an import into a linked
    collection ends whatever its environment does, and an attempt that finds its games committed
    only deletes the empty ones.
  \<^item> \<^verbatim>\<open>EngineProtocol\<close> (\<^verbatim>\<open>engine/types.rs\<close>, \<^verbatim>\<open>engine/uci.rs\<close>): the texts sent to an engine: the key of an
    engine, the validation of texts and options, the options that take effect, the search commands and
    the canonical position with its command. Shown: the last option of a name wins, and a command is
    one line without control characters.
  \<^item> \<^verbatim>\<open>PolyglotBook\<close>, \<^verbatim>\<open>PolyglotTheorems\<close> (\<^verbatim>\<open>game.rs\<close>): the Polyglot opening book: parsing, the
    cancellable merge sort, the lookup and the weighted draw. Shown: the merge sort is the stable
    sort of the library, the lookup finds exactly the records of a position, and the draw follows the
    weights.
  \<^item> \<^verbatim>\<open>GameController\<close>, \<^verbatim>\<open>GamePlay\<close> (\<^verbatim>\<open>game.rs\<close>): the controller of a live game and the handlers that
    change it under its write lock: moves with clocks and increments, take back, resignation, the tick
    of the clock, requests to an engine or its book and their answers, endings and the emission of
    events. The field \<^term>\<open>attempted\<close> records the events a game tried to emit. \<^verbatim>\<open>GameFrames\<close> says what
    each operation leaves alone. \<^verbatim>\<open>GameSteps\<close> runs the handlers in any order as the relation
    \<^term>\<open>reached\<close> over the game and the requests issued so far; \<^verbatim>\<open>GameBoard\<close>, \<^verbatim>\<open>GameEvents\<close>,
    \<^verbatim>\<open>GameRequests\<close> and \<^verbatim>\<open>GameClocks\<close> prove its invariants by rule induction: the board is what the
    moves say, the events are ordered and the end is announced once, an answer belongs to the request
    that is open, and the clocks are bounded. \<^verbatim>\<open>GameExamples\<close> holds a small game for the witnesses;
    \<^verbatim>\<open>GameTheorems\<close> states what follows.
  \<^item> \<^verbatim>\<open>GameSessions\<close> (\<^verbatim>\<open>game.rs\<close>, the manager): live sessions by game, the record of the latest
    session, final states kept after the end and tombstones of aborted games. \<^verbatim>\<open>GameSessionTheorems\<close>:
    a read belongs to the session it names, a final state stays readable, and a call that names
    another session changes nothing.

  \<^bold>\<open>Correspondence.\<close> A struct is a record, an enum a datatype, a method a function from the state to the
  result and the new state; the names are those of the source. Integers are words where the code
  relies on their width (\<^verbatim>\<open>u8\<close>, \<^verbatim>\<open>u16\<close>, \<^verbatim>\<open>u32\<close>, \<^verbatim>\<open>u64\<close>) and \<^typ>\<open>nat\<close> or \<^typ>\<open>int\<close> with the checks of the source written
  out elsewhere. Locks, reads of a changing file and the file system are explicit: steps of a
  relation, a history of file contents, a fault for each operation in turn.

  \<^bold>\<open>Interfaces.\<close> Locales state what one part relies on in another: \<^verbatim>\<open>stream_reader\<close> (what a reader of a
  move stream does on one event, interpreted for the decoder, the validation and the iterator),
  \<^verbatim>\<open>named_table\<close> and \<^verbatim>\<open>sqlite_ids\<close> (find or create a name, interpreted for players, events and
  sites), \<^verbatim>\<open>forgetful_cache\<close> (a cache that may forget but not invent, interpreted for the scan
  cache), \<^verbatim>\<open>keyed_exclusion\<close> (a registry whose steps give exclusion, interpreted for the keyed locks
  and for the practice registry) and \<^verbatim>\<open>disk_frame\<close> (what an action may change on the disk,
  interpreted for reading, for keeping one leaf, for keeping a deck, for keeping the faults to come
  and for a migration that has not written its positions document).

  \<^bold>\<open>Bounds and termination.\<close> Every loop of the model is a total function: the scanner, decoders and
  readers are bounded by the bytes that remain, the evictions by the entries, the retries by
  \<^verbatim>\<open>MAX_REVISION_ATTEMPTS\<close>; a client that follows page cursors needs one page more than there are
  reviews at most; the eviction loop of the cache is a \<^verbatim>\<open>while\<close> with its termination shown.
  The cancellable waits and the loop of the account import may run for ever in principle and are
  partial functions into options; that they return is what their theorems state. The linked import
  ends because each further batch moves a cursor of 64 bits. The registry holds at most 128
  downloads and 256 completions. Revisions and request numbers of a game saturate at
  \<^term>\<open>U64_MAX\<close>, and the theorems that need them to be distinct say so; the manager keeps at most
  128 final states. The passing of time in a game is a list of delays, one for each reading of the
  clock.

  \<^bold>\<open>Parameters.\<close> The chess rules, the row numbers SQLite assigns, the iteration order of a hash map,
  SHA-256, generated UUIDs, the clock and the JSON codec are arguments; so is what an account import
  asks of the network and the database, the record \<^typ>\<open>('o, 'e) account_env\<close>, and the type of the options the
  engine library defines. A live game takes the chess rules as a record \<^verbatim>\<open>chess_rules\<close>, the Polyglot
  hash, the number drawn for a book move, the game a start builds with its engines and the answers of
  the engines. Where a theorem needs their documented
  behaviour it is a hypothesis (for instance \<^verbatim>\<open>fresh_ids\<close>, \<^verbatim>\<open>env_ok\<close>), and its witness instantiates
  them. The codec hypotheses (\<^verbatim>\<open>env_ok\<close>, \<^verbatim>\<open>deck_env_ok\<close>) say that a document that was written is read
  back as it was. For the maps and states, which hold no floating-point numbers, that is what
  \<^verbatim>\<open>serde_json\<close> does; positions and review entries may hold free JSON values, and their
  floating-point numbers come back exactly only up to the precision \<^verbatim>\<open>serde_json\<close> has without its
  \<^verbatim>\<open>float_roundtrip\<close> feature, so for those documents it is an assumption. The faults of the file system
  are arbitrary; theorems that need it say that a fault is not itself a missing entry (\<^verbatim>\<open>honest\<close>), a
  partial removal (\<^verbatim>\<open>plain\<close>) or an invalid input (\<^verbatim>\<open>not_invalid\<close>).

  \<^bold>\<open>Not modelled.\<close> The path authority and the file-system primitives (\<^verbatim>\<open>infra/path_authority\<close>,
  \<^verbatim>\<open>infra/fs.rs\<close>) are operating-system calls; engine processes and analysis (\<^verbatim>\<open>engine/process.rs\<close>,
  \<^verbatim>\<open>chess.rs\<close>) are tasks around child processes; the database repository, search, linked collections
  and content validation rest on SQLite; credentials and the downloads of accounts on the network;
  \<^verbatim>\<open>main.rs\<close> and the command wrappers on Tauri. Of \<^verbatim>\<open>practice.rs\<close> the asynchronous wrappers are left
  out, with their check of the path authority and the resolution of pending deletions before an
  inventory; of the registry and the account import the poisoning of a mutex, logging, the runtime's
  shutdown and the panics of the actions a workflow calls. Of \<^verbatim>\<open>game.rs\<close> the EPD, PGN and zip opening
  books, the construction and termination of engine processes, the cleanup slots and joins of ended
  sessions, the shutdown of all games, the logs of an engine and log lines.
\<close>

end
